(* ===== verification/Prelude.thy ===== *)
theory Prelude
  imports Main "HOL-Library.Word" "HOL-Library.Monad_Syntax"
begin

text \<open>
  Shared vocabulary of the development: the machine integers of the C sources, byte-addressed
  memory with faulting loads and stores, the byte order of the host and of the network
  (\<^verbatim>\<open>bpf_endian.h\<close>), and the generic facts on words and lists that the component
  theories use.

  A pointer into a packet or a UMEM area is an offset (\<^typ>\<open>nat\<close>) from the start of that area.
  An access outside the area has no defined result in C; here it is the value
  \<^term>\<open>None\<close> of the option monad, so that memory safety of a routine is the statement that
  it never returns \<^term>\<open>None\<close>.
  The host is little-endian, as the compiled objects of the repository are (bpfel, x86-64).
\<close>

unbundle bit_operations_syntax

text \<open>Field offsets stay numerals.\<close>

declare add_2_eq_Suc [simp del] add_2_eq_Suc' [simp del]

text \<open>The index lists of the 4096-frame arrays stay folded.\<close>

declare upt_rec_numeral [simp del]

named_theorems mem_simps \<open>definitions of the memory accessors, for unfolding a routine\<close>

type_synonym u8 = "8 word"
type_synonym u16 = "16 word"
type_synonym u32 = "32 word"
type_synonym u64 = "64 word"
type_synonym bytes = "u8 list"
type_synonym ptr = nat

subsection \<open>Words as numbers\<close>

lemma unat_u8_less: "unat (w :: u8) < 256"
  by (rule less_le_trans [OF unsigned_less]) simp

lemma unat_u16_less: "unat (w :: u16) < 65536"
  by (rule less_le_trans [OF unsigned_less]) simp

lemma unat_u32_less: "unat (w :: u32) < 4294967296"
  by (rule less_le_trans [OF unsigned_less]) simp

lemma unat_ucast_up:
  "LENGTH('a) \<le> LENGTH('b) \<Longrightarrow> unat (ucast (x :: 'a::len word) :: 'b::len word) = unat x"
proof -
  assume le: "LENGTH('a) \<le> LENGTH('b)"
  have "unat x < 2 ^ LENGTH('a)" by (rule unsigned_less)
  also have "(2::nat) ^ LENGTH('a) \<le> 2 ^ LENGTH('b)" using le by simp
  finally show ?thesis
    by (simp add: unsigned_ucast_eq take_bit_nat_eq_self_iff)
qed

lemma unat_of_nat_eq: "n < 2 ^ LENGTH('a) \<Longrightarrow> unat (of_nat n :: 'a::len word) = n"
  by (simp add: unsigned_of_nat take_bit_nat_eq_self_iff)

lemma sint_of_int_range: "k \<in> {- 2147483648..<2147483648} \<Longrightarrow> sint (of_int k :: u32) = k"
  unfolding sint_sbintrunc' by (simp add: signed_take_bit_int_eq_self_iff)

lemma ucast_of_nat_u64: "n < 2 ^ 32 \<Longrightarrow> (ucast (of_nat n :: u32) :: u64) = of_nat n"
  by (simp add: word_unat_eq_iff unat_ucast_up unat_of_nat_eq)

lemma ucast_u32_u64_u32 [simp]: "(ucast (ucast (w :: u32) :: u64) :: u32) = w"
  by (rule bit_word_eqI) (simp add: bit_ucast_iff)

lemma ucast_u32_u64_eq_iff [simp]: "(ucast (v :: u32) :: u64) = ucast w \<longleftrightarrow> v = w"
  by (metis ucast_u32_u64_u32)

lemma ucast_u32_u64_eq_0 [simp]: "(ucast (v :: u32) :: u64) = 0 \<longleftrightarrow> v = 0"
  using ucast_u32_u64_eq_iff [of v 0] by simp

subsection \<open>Splitting and joining 16-bit words\<close>

definition le16 :: "u8 \<Rightarrow> u8 \<Rightarrow> u16" where
  "le16 lo hi = ucast lo + 256 * ucast hi"

definition lo8 :: "u16 \<Rightarrow> u8" where
  "lo8 w = ucast w"

definition hi8 :: "u16 \<Rightarrow> u8" where
  "hi8 w = ucast (drop_bit 8 w)"

lemma unat_le16: "unat (le16 lo hi) = unat lo + 256 * unat hi"
proof -
  have "unat (ucast lo :: u16) = unat lo" "unat (ucast hi :: u16) = unat hi"
    by (simp_all add: unat_ucast_up)
  moreover have "unat lo + 256 * unat hi < 65536"
    using unat_u8_less [of lo] unat_u8_less [of hi] by linarith
  moreover have "256 * unat hi < 65536"
    using unat_u8_less [of hi] by linarith
  ultimately show ?thesis
    by (simp add: le16_def unat_word_ariths)
qed

lemma unat_lo8: "unat (lo8 w) = unat w mod 256"
  by (simp add: lo8_def unsigned_ucast_eq take_bit_eq_mod)

lemma unat_hi8: "unat (hi8 w) = unat w div 256"
proof -
  have "unat w div 256 < 256"
    using unat_u16_less [of w] by linarith
  then show ?thesis
    by (simp add: hi8_def unsigned_ucast_eq take_bit_eq_mod drop_bit_eq_div unat_div_distrib)
qed

lemma lo8_le16 [simp]: "lo8 (le16 a b) = a"
  using unat_u8_less [of a]
  by (simp add: word_unat_eq_iff unat_lo8 unat_le16)

lemma hi8_le16 [simp]: "hi8 (le16 a b) = b"
  using unat_u8_less [of a]
  by (simp add: word_unat_eq_iff unat_hi8 unat_le16)

lemma le16_lo8_hi8 [simp]: "le16 (lo8 w) (hi8 w) = w"
  by (simp add: word_unat_eq_iff unat_le16 unat_lo8 unat_hi8)

subsection \<open>Byte order\<close>

text \<open>\<^verbatim>\<open>__builtin_bswap16\<close>, to which \<^verbatim>\<open>bpf_htons\<close> and
  \<^verbatim>\<open>bpf_ntohs\<close> map on a little-endian host.\<close>

definition bswap16 :: "u16 \<Rightarrow> u16" where
  "bswap16 w = le16 (hi8 w) (lo8 w)"

definition bpf_htons :: "u16 \<Rightarrow> u16" where
  "bpf_htons x = bswap16 x"

definition bpf_ntohs :: "u16 \<Rightarrow> u16" where
  "bpf_ntohs x = bswap16 x"

lemma bswap16_bswap16 [simp]: "bswap16 (bswap16 w) = w"
  by (simp add: bswap16_def)

lemma bpf_ntohs_htons [simp]: "bpf_ntohs (bpf_htons w) = w"
  and bpf_htons_ntohs [simp]: "bpf_htons (bpf_ntohs w) = w"
  by (simp_all add: bpf_htons_def bpf_ntohs_def)

lemma bpf_htons_eq_iff [simp]: "bpf_htons a = bpf_htons b \<longleftrightarrow> a = b"
  by (metis bpf_ntohs_htons)

lemma unat_bswap16: "unat (bswap16 w) = unat w div 256 + 256 * (unat w mod 256)"
  by (simp add: bswap16_def unat_le16 unat_lo8 unat_hi8)

subsection \<open>Byte-addressed memory\<close>

definition load8 :: "bytes \<Rightarrow> ptr \<Rightarrow> u8 option" where
  "load8 m a = (if a < length m then Some (m ! a) else None)"

definition load16 :: "bytes \<Rightarrow> ptr \<Rightarrow> u16 option" where
  "load16 m a = (if a + 2 \<le> length m then Some (le16 (m ! a) (m ! (a + 1))) else None)"

definition load_bytes :: "bytes \<Rightarrow> ptr \<Rightarrow> nat \<Rightarrow> bytes option" where
  "load_bytes m a n = (if a + n \<le> length m then Some (take n (drop a m)) else None)"

definition store8 :: "bytes \<Rightarrow> ptr \<Rightarrow> u8 \<Rightarrow> bytes option" where
  "store8 m a v = (if a < length m then Some (m[a := v]) else None)"

definition store16 :: "bytes \<Rightarrow> ptr \<Rightarrow> u16 \<Rightarrow> bytes option" where
  "store16 m a v =
     (if a + 2 \<le> length m then Some (m[a := lo8 v, a + 1 := hi8 v]) else None)"

definition store_bytes :: "bytes \<Rightarrow> ptr \<Rightarrow> bytes \<Rightarrow> bytes option" where
  "store_bytes m a bs =
     (if a + length bs \<le> length m
      then Some (take a m @ bs @ drop (a + length bs) m) else None)"

lemma load8_eq [mem_simps]: "a < length m \<Longrightarrow> load8 m a = Some (m ! a)"
  by (simp add: load8_def)

lemma load16_eq [mem_simps]:
  "a + 2 \<le> length m \<Longrightarrow> load16 m a = Some (le16 (m ! a) (m ! (a + 1)))"
  by (simp add: load16_def)

lemma load_bytes_eq [mem_simps]:
  "a + n \<le> length m \<Longrightarrow> load_bytes m a n = Some (take n (drop a m))"
  by (simp add: load_bytes_def)

lemma store8_eq [mem_simps]: "a < length m \<Longrightarrow> store8 m a v = Some (m[a := v])"
  by (simp add: store8_def)

lemma store16_eq [mem_simps]:
  "a + 2 \<le> length m \<Longrightarrow> store16 m a v = Some (m[a := lo8 v, a + 1 := hi8 v])"
  by (simp add: store16_def)

lemma store_bytes_eq [mem_simps]:
  "a + length bs \<le> length m \<Longrightarrow>
   store_bytes m a bs = Some (take a m @ bs @ drop (a + length bs) m)"
  by (simp add: store_bytes_def)

lemma load8_None [simp]: "load8 m a = None \<longleftrightarrow> length m \<le> a"
  and load16_None [simp]: "load16 m a = None \<longleftrightarrow> length m < a + 2"
  and load_bytes_None [simp]: "load_bytes m a n = None \<longleftrightarrow> length m < a + n"
  and store8_None [simp]: "store8 m a v = None \<longleftrightarrow> length m \<le> a"
  and store16_None [simp]: "store16 m a w = None \<longleftrightarrow> length m < a + 2"
  and store_bytes_None [simp]: "store_bytes m a bs = None \<longleftrightarrow> length m < a + length bs"
  by (auto simp: load8_def load16_def load_bytes_def store8_def store16_def store_bytes_def)

lemma length_store8: "store8 m a v = Some m' \<Longrightarrow> length m' = length m"
  and length_store16: "store16 m a w = Some m' \<Longrightarrow> length m' = length m"
  and length_store_bytes: "store_bytes m a bs = Some m' \<Longrightarrow> length m' = length m"
  by (auto simp: store8_def store16_def store_bytes_def split: if_splits)

lemmas length_store = length_store8 length_store16 length_store_bytes

lemma load16_store16: "store16 m a v = Some m' \<Longrightarrow> load16 m' a = Some v"
  by (auto simp: store16_def load16_def split: if_splits)

lemma load8_at: "length xs = n \<Longrightarrow> load8 (xs @ x # ys) n = Some x"
  and store8_at: "length xs = n \<Longrightarrow> store8 (xs @ x # ys) n v = Some (xs @ v # ys)"
  by (auto simp: load8_def store8_def)

lemma load16_le: "length xs = n \<Longrightarrow> load16 (xs @ [lo8 w, hi8 w] @ ys) n = Some w"
  and store16_le: "length xs = n \<Longrightarrow> store16 (xs @ [a, b] @ ys) n w = Some (xs @ [lo8 w, hi8 w] @ ys)"
  by (auto simp: load16_def store16_def nth_append list_update_append)

lemma split_list_at:
  assumes "n \<le> length xs"
  obtains as bs where "xs = as @ bs" and "length as = n"
  using that [of "take n xs" "drop n xs"] assms by simp

lemma nth_splice:
  "a + length bs \<le> length m \<Longrightarrow>
   (take a m @ bs @ drop (a + length bs) m) ! i =
     (if a \<le> i \<and> i < a + length bs then bs ! (i - a) else m ! i)"
  by (auto simp: nth_append)

lemma length_splice [simp]:
  "a + length bs \<le> length m \<Longrightarrow>
   length (take a m @ bs @ drop (a + length bs) m) = length m"
  by simp

subsection \<open>32-bit fields\<close>

definition le32 :: "u8 \<Rightarrow> u8 \<Rightarrow> u8 \<Rightarrow> u8 \<Rightarrow> u32" where
  "le32 a b c d = ucast a OR push_bit 8 (ucast b) OR push_bit 16 (ucast c) OR push_bit 24 (ucast d)"

definition bytes32 :: "u32 \<Rightarrow> bytes" where
  "bytes32 w = [ucast w, ucast (drop_bit 8 w), ucast (drop_bit 16 w), ucast (drop_bit 24 w)]"

definition load32 :: "bytes \<Rightarrow> ptr \<Rightarrow> u32 option" where
  "load32 m a =
     (if a + 4 \<le> length m
      then Some (le32 (m ! a) (m ! (a + 1)) (m ! (a + 2)) (m ! (a + 3))) else None)"

definition store32 :: "bytes \<Rightarrow> ptr \<Rightarrow> u32 \<Rightarrow> bytes option" where
  "store32 m a v = store_bytes m a (bytes32 v)"

lemma length_bytes32 [simp]: "length (bytes32 w) = 4"
  by (simp add: bytes32_def)

lemma le32_bytes32 [simp]:
  "le32 (ucast w) (ucast (drop_bit 8 w)) (ucast (drop_bit 16 w)) (ucast (drop_bit 24 w)) = w"
proof (rule bit_word_eqI)
  fix n :: nat
  assume "n < LENGTH(32)"
  then consider "n < 8" | "8 \<le> n" "n < 16" | "16 \<le> n" "n < 24" | "24 \<le> n" "n < 32"
    by (simp add: not_less [symmetric]) linarith
  then show "bit (le32 (ucast w) (ucast (drop_bit 8 w)) (ucast (drop_bit 16 w))
      (ucast (drop_bit 24 w))) n = bit w n"
    by cases (auto simp: le32_def bit_or_iff bit_push_bit_iff bit_ucast_iff bit_drop_bit_eq)
qed

lemma bytes32_le32: "bytes32 (le32 a b c d) = [a, b, c, d]"
  unfolding bytes32_def le32_def
  by (auto intro!: bit_word_eqI simp: bit_or_iff bit_push_bit_iff bit_ucast_iff bit_drop_bit_eq)
     (drule bit_imp_le_length, simp)+

lemma load32_None [simp]: "load32 m a = None \<longleftrightarrow> length m < a + 4"
  by (auto simp: load32_def)

lemma load32_le: "length xs = n \<Longrightarrow> load32 (xs @ bytes32 w @ ys) n = Some w"
  by (auto simp: load32_def bytes32_def nth_append)

lemma store32_le:
  "length xs = n \<Longrightarrow> length zs = 4 \<Longrightarrow> store32 (xs @ zs @ ys) n w = Some (xs @ bytes32 w @ ys)"
  by (auto simp: store32_def store_bytes_def)

subsection \<open>64-bit fields\<close>

definition load64 :: "bytes \<Rightarrow> ptr \<Rightarrow> u64 option" where
  "load64 m a = do {
     lo \<leftarrow> load32 m a;
     hi \<leftarrow> load32 m (a + 4);
     Some (ucast lo OR push_bit 32 (ucast hi)) }"

definition bytes64 :: "u64 \<Rightarrow> bytes" where
  "bytes64 w = bytes32 (ucast w) @ bytes32 (ucast (drop_bit 32 w))"

lemma length_bytes64 [simp]: "length (bytes64 w) = 8"
  by (simp add: bytes64_def)

lemma join_u64: "ucast (ucast (w :: u64) :: u32) OR push_bit 32 (ucast (ucast (drop_bit 32 w) :: u32)) = w"
  by (auto intro!: bit_word_eqI simp: bit_or_iff bit_push_bit_iff bit_ucast_iff bit_drop_bit_eq
      dest: bit_imp_le_length)

subsection \<open>Fields of a structure\<close>

text \<open>Assignments to the fields of a structure, given by their offsets.\<close>

definition put_field :: "bytes \<Rightarrow> nat \<times> bytes \<Rightarrow> bytes" where
  "put_field m f = take (fst f) m @ snd f @ drop (fst f + length (snd f)) m"

definition set_fields :: "bytes \<Rightarrow> (nat \<times> bytes) list \<Rightarrow> bytes" where
  "set_fields m fs = foldl put_field m fs"

lemma set_fields_simps [simp]:
  "set_fields m [] = m" "set_fields m (f # fs) = set_fields (put_field m f) fs"
  by (simp_all add: set_fields_def)

lemma set_fields_append [simp]: "set_fields m (fs @ gs) = set_fields (set_fields m fs) gs"
  by (simp add: set_fields_def)

lemma length_put_field [simp]: "a + length bs \<le> length m \<Longrightarrow> length (put_field m (a, bs)) = length m"
  by (simp add: put_field_def)

lemma length_set_fields:
  "list_all (\<lambda>f. fst f + length (snd f) \<le> length m) fs \<Longrightarrow> length (set_fields m fs) = length m"
proof (induction fs arbitrary: m)
  case (Cons f fs)
  then show ?case by (cases f) simp
qed simp

lemma put_field_Nil [simp]: "put_field m (a, []) = m"
  by (simp add: put_field_def)

lemma nth_put_field:
  "a + length bs \<le> length m \<Longrightarrow>
   put_field m (a, bs) ! i = (if a \<le> i \<and> i < a + length bs then bs ! (i - a) else m ! i)"
  by (simp add: put_field_def nth_splice)

lemma load32_put_same [simp]:
  "a + 4 \<le> length m \<Longrightarrow> load32 (put_field m (a, bytes32 v)) a = Some v"
  by (simp add: put_field_def load32_le)

lemma load32_put_other:
  "a + length bs \<le> length m \<Longrightarrow> k + 4 \<le> a \<or> a + length bs \<le> k \<Longrightarrow>
   load32 (put_field m (a, bs)) k = load32 m k"
  by (auto simp: load32_def nth_put_field)

lemma load64_put_same [simp]:
  "a + 8 \<le> length m \<Longrightarrow> load64 (put_field m (a, bytes64 v)) a = Some v"
proof -
  assume a: "a + 8 \<le> length m"
  then have "length (take a m @ bytes32 (ucast v)) = a + 4" by simp
  from load32_le [OF this] show ?thesis
    using a by (simp add: load64_def put_field_def bytes64_def load32_le join_u64)
qed

lemma load64_put_other:
  "a + length bs \<le> length m \<Longrightarrow> k + 8 \<le> a \<or> a + length bs \<le> k \<Longrightarrow>
   load64 (put_field m (a, bs)) k = load64 m k"
  by (auto simp: load64_def load32_put_other)

lemmas load_put_other = load32_put_other load64_put_other

lemma take_drop_put_other:
  "a + length bs \<le> length m \<Longrightarrow> k + n \<le> a \<or> a + length bs \<le> k \<Longrightarrow>
   take n (drop k (put_field m (a, bs))) = take n (drop k m)"
  by (rule nth_equalityI) (auto simp: nth_put_field)

lemma take_drop_put_same:
  "length bs \<le> n \<Longrightarrow> a + n \<le> length m \<Longrightarrow>
   take n (drop a (put_field m (a, bs))) = bs @ drop (length bs) (take n (drop a m))"
  by (simp add: put_field_def drop_take min_def add.commute)

text \<open>Reading after many assignments of which one touches the bytes.\<close>

definition touches :: "nat \<Rightarrow> nat \<Rightarrow> nat \<times> bytes \<Rightarrow> bool" where
  "touches k n f \<longleftrightarrow> k < fst f + length (snd f) \<and> fst f < k + n"

definition fields_fit :: "nat \<Rightarrow> (nat \<times> bytes) list \<Rightarrow> bool" where
  "fields_fit n fs \<longleftrightarrow> list_all (\<lambda>f. fst f + length (snd f) \<le> n) fs"

lemma unwritten:
  assumes "fields_fit (length m) fs" and "filter (touches k n) fs = []"
  shows "take n (drop k (set_fields m fs)) = take n (drop k m)"
  using assms
proof (induction fs arbitrary: m)
  case (Cons f fs)
  obtain a bs where f: "f = (a, bs)" by fastforce
  have "\<not> touches k n f" "filter (touches k n) fs = []" "a + length bs \<le> length m"
    using Cons.prems f by (auto simp: fields_fit_def split: if_splits)
  then show ?case
    using Cons.IH [of "put_field m f"] Cons.prems f take_drop_put_other [of a bs m k n]
    by (auto simp: touches_def fields_fit_def)
qed simp

lemma written_once:
  assumes "fields_fit (length m) fs" and "filter (touches k n) fs = [(k, bs)]" and "length bs \<le> n" and "k + n \<le> length m"
  shows "take n (drop k (set_fields m fs)) = bs @ drop (length bs) (take n (drop k m))"
proof -
  obtain us vs where s: "fs = us @ (k, bs) # vs" "filter (touches k n) us = []" "filter (touches k n) vs = []"
    using assms(2) unfolding filter_eq_Cons_iff by (metis filter_False)
  have fit: "fields_fit (length m) us" "fields_fit (length m) vs" using assms(1) s(1) by (simp_all add: fields_fit_def)
  then have len: "length (set_fields m us) = length m" by (simp add: fields_fit_def length_set_fields)
  have "take n (drop k (set_fields m fs)) = take n (drop k (put_field (set_fields m us) (k, bs)))"
    using unwritten [OF _ s(3), of "put_field (set_fields m us) (k, bs)"] fit(2) len assms(3,4) s(1) by simp
  then show ?thesis
    using take_drop_put_same [OF assms(3)] unwritten [OF fit(1) s(2)] len assms(4) by simp
qed

lemma load32_take_drop: "load32 m k = load32 (take 4 (drop k m)) 0"
  and load64_take_drop: "load64 m k = load64 (take 8 (drop k m)) 0"
  by (auto simp: load64_def load32_def add.commute)

lemma load32_once:
  assumes "fields_fit (length m) fs" and "k + 4 \<le> length m" and "filter (touches k 4) fs = [(k, bytes32 v)]"
  shows "load32 (set_fields m fs) k = Some v"
  using written_once [OF assms(1,3) _ assms(2)] load32_le [of "[]" 0 v "[]"]
  by (subst load32_take_drop) simp

lemma load64_once:
  assumes "fields_fit (length m) fs" and "k + 8 \<le> length m" and "filter (touches k 8) fs = [(k, bytes64 v)]"
  shows "load64 (set_fields m fs) k = Some v"
proof -
  have "load64 (bytes64 v) 0 = Some v"
    using load32_le [of "[]" 0 "ucast v"] load32_le [of "bytes32 (ucast v)" 4 _ "[]"]
    by (simp add: load64_def bytes64_def join_u64)
  then show ?thesis
    using written_once [OF assms(1,3) _ assms(2)] by (subst load64_take_drop) simp
qed

lemma length_fields_fit: "fields_fit (length m) fs \<Longrightarrow> length (set_fields m fs) = length m"
  by (simp add: fields_fit_def length_set_fields)

subsection \<open>Counting loops\<close>

text \<open>A C loop \<^verbatim>\<open>for (i = 0; i < n; i++) body\<close> whose body may fault: \<open>for_upto n f s\<close>
  runs \<open>f 0\<close>, \<open>f 1\<close>, \<dots>, \<open>f (n - 1)\<close> and stops at the first failure.\<close>

primrec for_upto :: "nat \<Rightarrow> (nat \<Rightarrow> 's \<Rightarrow> 's option) \<Rightarrow> 's \<Rightarrow> 's option" where
  "for_upto 0 f s = Some s"
| "for_upto (Suc n) f s = for_upto n f s \<bind> f n"

lemma for_upto_invariant:
  assumes "for_upto n f s = Some t"
    and "P 0 s"
    and "\<And>i u v. i < n \<Longrightarrow> P i u \<Longrightarrow> f i u = Some v \<Longrightarrow> P (Suc i) v"
  shows "P n t"
  using assms(1,3)
proof (induction n arbitrary: t)
  case 0
  with assms(2) show ?case by simp
next
  case (Suc n)
  from Suc.prems(1) obtain u where "for_upto n f s = Some u" and "f n u = Some t"
    by (auto simp: bind_eq_Some_conv)
  moreover from Suc.IH [OF this(1)] Suc.prems(2) have "P n u" by simp
  ultimately show ?case using Suc.prems(2) by blast
qed

lemma for_upto_total:
  assumes "P 0 s"
    and "\<And>i u. i < n \<Longrightarrow> P i u \<Longrightarrow> \<exists>v. f i u = Some v \<and> P (Suc i) v"
  shows "\<exists>t. for_upto n f s = Some t \<and> P n t"
  using assms(2)
proof (induction n)
  case 0
  with assms(1) show ?case by simp
next
  case (Suc n)
  then obtain t where "for_upto n f s = Some t" "P n t"
    by (meson less_Suc_eq)
  moreover from Suc.prems [of n t] this obtain v where "f n t = Some v" "P (Suc n) v"
    by blast
  ultimately show ?case by simp
qed

lemma unat_not_u16: "unat (NOT w :: u16) = 65535 - unat w"
proof -
  have "NOT w = - 1 - w" by (simp add: not_eq_complement)
  moreover have "w \<le> - 1" by simp
  ultimately have "unat (NOT w) = unat (- 1 :: u16) - unat w"
    by (metis unat_sub)
  also have "unat (- 1 :: u16) = 65535" by (simp add: unsigned_minus_1_eq_mask mask_eq_exp_minus_1)
  finally show ?thesis .
qed

end
