(* ===== verification/XskRing.thy ===== *)
theory XskRing
  imports Prelude
begin

text \<open>
  The single-producer single-consumer rings that AF_XDP shares between the program and the kernel
  (\<^verbatim>\<open>libbpf/src/xsk.h\<close>).

  A ring is the struct of \<^verbatim>\<open>DEFINE_XSK_RING\<close>; the fields \<^verbatim>\<open>producer\<close>,
  \<^verbatim>\<open>consumer\<close>, \<^verbatim>\<open>ring\<close> and \<^verbatim>\<open>flags\<close>, pointers into the mapping shared
  with the kernel, are modelled by the values they point to. Indices are 32-bit and wrap around;
  a slot is an index under the mask. The entries have type \<^typ>\<open>'d\<close>: addresses for the fill
  and completion rings, descriptors for the rx and tx rings.

  The functions of the program side are translated one to one. The abstract ring is the list
  \<open>queue r\<close> of published entries together with the lists of entries that are reserved
  (producer) or peeked (consumer) but not yet published or released. The locales
  \<open>fifo_producer\<close> and \<open>fifo_consumer\<close> are the interfaces the AF_XDP program uses; they are
  interpreted by the functions below, with the index arithmetic at 32 bits.
\<close>

subsection \<open>The ring and its operations\<close>

record 'd xsk_ring =
  cached_prod :: u32
  cached_cons :: u32
  mask_of :: u32
  size_of :: u32
  producer :: u32
  consumer :: u32
  ring :: "'d list"
  flags :: u32

record xdp_desc =
  addr :: u64
  len :: u32
  options :: u32

text \<open>The four slot accessors return a pointer to a slot of \<^verbatim>\<open>ring\<close>: here, its
  position.\<close>

definition xsk_ring_prod__fill_addr :: "'d xsk_ring \<Rightarrow> u32 \<Rightarrow> nat" where
  "xsk_ring_prod__fill_addr fill idx = unat (idx AND mask_of fill)"

definition xsk_ring_cons__comp_addr :: "'d xsk_ring \<Rightarrow> u32 \<Rightarrow> nat" where
  "xsk_ring_cons__comp_addr cq idx = unat (idx AND mask_of cq)"

definition xsk_ring_prod__tx_desc :: "'d xsk_ring \<Rightarrow> u32 \<Rightarrow> nat" where
  "xsk_ring_prod__tx_desc tx idx = unat (idx AND mask_of tx)"

definition xsk_ring_cons__rx_desc :: "'d xsk_ring \<Rightarrow> u32 \<Rightarrow> nat" where
  "xsk_ring_cons__rx_desc rx idx = unat (idx AND mask_of rx)"

definition xsk_ring_prod__needs_wakeup :: "'d xsk_ring \<Rightarrow> bool" where
  "xsk_ring_prod__needs_wakeup r \<longleftrightarrow> flags r AND 1 \<noteq> 0"

text \<open>Access to a slot; a position outside the mapped ring faults.\<close>

definition slot_get :: "'d xsk_ring \<Rightarrow> nat \<Rightarrow> 'd option" where
  "slot_get r i = (if i < length (ring r) then Some (ring r ! i) else None)"

definition slot_put :: "'d xsk_ring \<Rightarrow> nat \<Rightarrow> 'd \<Rightarrow> 'd xsk_ring option" where
  "slot_put r i v = (if i < length (ring r) then Some (r\<lparr>ring := (ring r)[i := v]\<rparr>) else None)"

definition xsk_prod_nb_free :: "'d xsk_ring \<Rightarrow> u32 \<Rightarrow> u32 \<times> 'd xsk_ring" where
  "xsk_prod_nb_free r nb =
     (let free_entries = cached_cons r - cached_prod r in
      if free_entries \<ge> nb then (free_entries, r)
      else
        let r' = r\<lparr>cached_cons := consumer r + size_of r\<rparr> in
        (cached_cons r' - cached_prod r', r'))"

definition xsk_cons_nb_avail :: "'d xsk_ring \<Rightarrow> u32 \<Rightarrow> u32 \<times> 'd xsk_ring" where
  "xsk_cons_nb_avail r nb =
     (let entries = cached_prod r - cached_cons r;
          (entries, r') =
            (if entries = 0
             then let r' = r\<lparr>cached_prod := producer r\<rparr> in (cached_prod r' - cached_cons r', r')
             else (entries, r))
      in (if entries > nb then nb else entries, r'))"

text \<open>\<^verbatim>\<open>nb\<close> is a \<^verbatim>\<open>size_t\<close>: it is truncated where it is passed on as a
  \<^verbatim>\<open>__u32\<close> or added to an index, and compared at 64 bits.\<close>

definition xsk_ring_prod__reserve ::
  "'d xsk_ring \<Rightarrow> u64 \<Rightarrow> u32 \<Rightarrow> u64 \<times> u32 \<times> 'd xsk_ring" where
  "xsk_ring_prod__reserve r nb idx =
     (let (free, r) = xsk_prod_nb_free r (ucast nb) in
      if (ucast free :: u64) < nb then (0, idx, r)
      else (nb, cached_prod r, r\<lparr>cached_prod := cached_prod r + ucast nb\<rparr>))"

definition xsk_ring_prod__submit :: "'d xsk_ring \<Rightarrow> u64 \<Rightarrow> 'd xsk_ring" where
  "xsk_ring_prod__submit r nb = r\<lparr>producer := producer r + ucast nb\<rparr>"

definition xsk_ring_cons__peek ::
  "'d xsk_ring \<Rightarrow> u64 \<Rightarrow> u32 \<Rightarrow> u64 \<times> u32 \<times> 'd xsk_ring" where
  "xsk_ring_cons__peek r nb idx =
     (let (n, r) = xsk_cons_nb_avail r (ucast nb);
          entries = (ucast n :: u64) in
      if entries > 0
      then (entries, cached_cons r, r\<lparr>cached_cons := cached_cons r + ucast entries\<rparr>)
      else (entries, idx, r))"

definition xsk_ring_cons__release :: "'d xsk_ring \<Rightarrow> u64 \<Rightarrow> 'd xsk_ring" where
  "xsk_ring_cons__release r nb = r\<lparr>consumer := consumer r + ucast nb\<rparr>"

subsection \<open>The abstract ring\<close>

text \<open>The entries at the \<open>n\<close> indices from \<open>i\<close> on.\<close>

definition entries_from :: "'d xsk_ring \<Rightarrow> u32 \<Rightarrow> u32 \<Rightarrow> 'd list" where
  "entries_from r i n = map (\<lambda>j. ring r ! unat ((i + of_nat j) AND mask_of r)) [0..<unat n]"

definition queue :: "'d xsk_ring \<Rightarrow> 'd list" where
  "queue r = entries_from r (consumer r) (producer r - consumer r)"

definition reserved :: "'d xsk_ring \<Rightarrow> 'd list" where
  "reserved r = entries_from r (producer r) (cached_prod r - producer r)"

definition peeked :: "'d xsk_ring \<Rightarrow> 'd list" where
  "peeked r = entries_from r (consumer r) (cached_cons r - consumer r)"

text \<open>The ring size is a power of two (up to 2^30, so that twice the size does not wrap).\<close>

definition ring_ok :: "'d xsk_ring \<Rightarrow> bool" where
  "ring_ok r \<longleftrightarrow> size_of r \<in> set (map (\<lambda>k. 2 ^ k) [0..<31]) \<and> mask_of r = size_of r - 1
     \<and> length (ring r) = unat (size_of r)"

text \<open>On the producer side the cached consumer runs \<^verbatim>\<open>size\<close> ahead of a past consumer
  index \<open>c0\<close>; seen from \<open>c0\<close>, the consumer, the producer and the reservation mark come in this
  order within one ring size. On the consumer side the order is consumer, peek mark, cached
  producer, producer.\<close>

definition prod_inv :: "'d xsk_ring \<Rightarrow> bool" where
  "prod_inv r \<longleftrightarrow>
     (let c0 = cached_cons r - size_of r in
      ring_ok r \<and> consumer r - c0 \<le> producer r - c0 \<and> producer r - c0 \<le> cached_prod r - c0
      \<and> cached_prod r - c0 \<le> size_of r)"

definition cons_inv :: "'d xsk_ring \<Rightarrow> bool" where
  "cons_inv r \<longleftrightarrow>
     (let c = consumer r in
      ring_ok r \<and> cached_cons r - c \<le> cached_prod r - c \<and> cached_prod r - c \<le> producer r - c
      \<and> producer r - c \<le> size_of r)"

subsection \<open>The interface of a producer and of a consumer\<close>

locale fifo_producer =
  fixes inv :: "'r \<Rightarrow> bool"
    and q :: "'r \<Rightarrow> 'd list"
    and res :: "'r \<Rightarrow> 'd list"
    and first :: "'r \<Rightarrow> u32"
    and reserve :: "'r \<Rightarrow> u64 \<Rightarrow> u32 \<Rightarrow> u64 \<times> u32 \<times> 'r"
    and put :: "'r \<Rightarrow> u32 \<Rightarrow> 'd \<Rightarrow> 'r option"
    and submit :: "'r \<Rightarrow> u64 \<Rightarrow> 'r"
  assumes reserve_law: "inv r \<Longrightarrow> reserve r n i = (m, j, r') \<Longrightarrow>
      inv r' \<and> q r' = q r \<and> first r' = first r \<and>
      (m = n \<and> j = first r + of_nat (length (res r)) \<and> length (res r') = length (res r) + unat n
         \<and> take (length (res r)) (res r') = res r
       \<or> m = 0 \<and> n \<noteq> 0 \<and> j = i \<and> res r' = res r)"
    and put_law: "inv r \<Longrightarrow> k < length (res r) \<Longrightarrow>
      \<exists>r'. put r (first r + of_nat k) v = Some r' \<and> inv r' \<and> q r' = q r
        \<and> res r' = (res r)[k := v] \<and> first r' = first r"
    and submit_law: "inv r \<Longrightarrow> unat n \<le> length (res r) \<Longrightarrow>
      inv (submit r n) \<and> q (submit r n) = q r @ take (unat n) (res r)
      \<and> res (submit r n) = drop (unat n) (res r)"
begin

text \<open>The loop that writes one value per reserved slot, in order.\<close>

lemma put_loop:
  assumes "inv r" and "n \<le> length (res r)"
  shows "\<exists>r'. for_upto n (\<lambda>k r. put r (first r + of_nat k) (f k)) r = Some r' \<and> inv r' \<and> q r' = q r
    \<and> first r' = first r \<and> res r' = map f [0..<n] @ drop n (res r)"
proof -
  let ?P = "\<lambda>k r'. inv r' \<and> q r' = q r \<and> first r' = first r
    \<and> res r' = map f [0..<k] @ drop k (res r)"
  have "\<exists>t. for_upto n (\<lambda>k r. put r (first r + of_nat k) (f k)) r = Some t \<and> ?P n t"
  proof (rule for_upto_total)
    fix k u assume k: "k < n" and P: "?P k u"
    with assms(2) have len: "k < length (res u)" by simp
    have "(map f [0..<k] @ drop k (res r))[k := f k] = map f [0..<Suc k] @ drop (Suc k) (res r)"
      using k assms(2) by (simp add: list_update_append Cons_nth_drop_Suc [symmetric])
    with P put_law [OF _ len, of "f k"]
    show "\<exists>v. put u (first u + of_nat k) (f k) = Some v \<and> ?P (Suc k) v" by fastforce
  qed (use assms in simp)
  then show ?thesis .
qed

text \<open>Reserving, filling and submitting a batch appends it to the queue.\<close>

lemma produce:
  assumes "inv r" and "res r = []" and "reserve r n i = (n, j, r1)"
  shows "\<exists>r2. for_upto (unat n) (\<lambda>k r. put r (first r + of_nat k) (f k)) r1 = Some r2
    \<and> inv (submit r2 n) \<and> q (submit r2 n) = q r @ map f [0..<unat n] \<and> res (submit r2 n) = []"
proof -
  have r1: "inv r1" "q r1 = q r" "length (res r1) = unat n"
    using reserve_law [OF assms(1,3)] assms(2) by auto
  with put_loop [of r1 "unat n" f] obtain r2 where
    "for_upto (unat n) (\<lambda>k r. put r (first r + of_nat k) (f k)) r1 = Some r2" "inv r2" "q r2 = q r"
    "res r2 = map f [0..<unat n]"
    by auto
  with submit_law [of r2 n] show ?thesis by auto
qed

end

locale fifo_consumer =
  fixes inv :: "'r \<Rightarrow> bool"
    and q :: "'r \<Rightarrow> 'd list"
    and pk :: "'r \<Rightarrow> 'd list"
    and first :: "'r \<Rightarrow> u32"
    and peek :: "'r \<Rightarrow> u64 \<Rightarrow> u32 \<Rightarrow> u64 \<times> u32 \<times> 'r"
    and get :: "'r \<Rightarrow> u32 \<Rightarrow> 'd option"
    and release :: "'r \<Rightarrow> u64 \<Rightarrow> 'r"
  assumes peek_law: "inv r \<Longrightarrow> unat n < 4294967296 \<Longrightarrow> peek r n i = (m, j, r') \<Longrightarrow>
      inv r' \<and> q r' = q r \<and> first r' = first r \<and> unat m \<le> unat n
      \<and> pk r' = take (length (pk r) + unat m) (q r)
      \<and> length (pk r') = length (pk r) + unat m
      \<and> (m = 0 \<longrightarrow> n \<noteq> 0 \<longrightarrow> pk r = q r) \<and> (m \<noteq> 0 \<longrightarrow> j = first r + of_nat (length (pk r)))"
    and get_law: "inv r \<Longrightarrow> k < length (pk r) \<Longrightarrow> get r (first r + of_nat k) = Some (pk r ! k)"
    and release_law: "inv r \<Longrightarrow> unat n \<le> length (pk r) \<Longrightarrow>
      inv (release r n) \<and> q (release r n) = drop (unat n) (q r)
      \<and> pk (release r n) = drop (unat n) (pk r)"
begin

lemma peek_idle:
  assumes "inv r" and "pk r = []" and "unat n < 4294967296" and "peek r n i = (m, j, r')"
  shows "inv r'" and "q r' = q r" and "first r' = first r" and "length (pk r') = unat m"
    and "m \<noteq> 0 \<longrightarrow> j = first r" and "unat m \<le> unat n"
  using peek_law [OF assms(1,3,4)] assms(2) by auto

text \<open>Taking a batch and releasing it removes exactly the entries read from the front.\<close>

lemma consume:
  assumes "inv r" and "pk r = []" and "unat n < 4294967296" and "peek r n i = (m, j, r')"
  shows "inv (release r' m)" and "q r = pk r' @ q (release r' m)" and "pk (release r' m) = []"
    and "length (pk r') = unat m"
proof -
  have r': "inv r'" "q r' = q r" "pk r' = take (unat m) (q r)" "length (pk r') = unat m"
    using peek_law [OF assms(1,3,4)] assms(2) by auto
  show "inv (release r' m)" and "q r = pk r' @ q (release r' m)" and "pk (release r' m) = []"
    and "length (pk r') = unat m"
    using release_law [of r' m] r' by auto
qed

end

subsection \<open>Wrapping indices and unbounded counters\<close>

text \<open>The proofs read the four wrapping indices as unbounded counters: a difference of two indices
  is the difference of their counters as long as it fits, and the slot of an index is its counter
  modulo the ring size.\<close>

lemma unat_of_nat_diff:
  assumes "a \<le> b" and "b - a < 4294967296"
  shows "unat (of_nat b - of_nat a :: u32) = b - a"
proof -
  have "(of_nat b - of_nat a :: u32) = of_nat (b - a)"
    using assms(1) by (rule of_nat_diff [symmetric])
  then show ?thesis
    using assms(2) by (simp only: unsigned_of_nat) (simp add: take_bit_nat_eq_self_iff)
qed

lemma of_nat_unat_diff: "of_nat (unat a + unat (b - a)) = (b :: u32)"
  by simp

lemma ring_okE:
  assumes "ring_ok r"
  obtains k where "k < 31" "unat (size_of r) = 2 ^ k" "mask_of r = mask k"
    "length (ring r) = unat (size_of r)" "size_of r = 2 ^ k"
proof -
  from assms obtain k where k: "k < 31" "size_of r = 2 ^ k"
    and m: "mask_of r = size_of r - 1" "length (ring r) = unat (size_of r)"
    by (auto simp: ring_ok_def)
  have "unat (of_nat (2 ^ k) :: u32) = 2 ^ k"
    using k(1) by (simp only: unsigned_of_nat) simp
  with k m show thesis by (intro that [of k]) (simp_all add: mask_eq_exp_minus_1)
qed

lemma size_bounds:
  assumes "ring_ok r"
  shows "0 < unat (size_of r)" and "unat (size_of r) \<le> 1073741824"
proof -
  from assms obtain k where "k < 31" "unat (size_of r) = 2 ^ k" by (rule ring_okE)
  moreover from this have "(2::nat) ^ k \<le> 2 ^ 30" by (intro power_increasing) simp_all
  ultimately show "0 < unat (size_of r)" and "unat (size_of r) \<le> 1073741824" by simp_all
qed

lemma slot_of_nat:
  assumes "ring_ok r"
  shows "unat (of_nat i AND mask_of r :: u32) = i mod unat (size_of r)"
proof -
  from assms obtain k where k: "k < 31" "unat (size_of r) = 2 ^ k" "mask_of r = mask k"
    by (rule ring_okE)
  have "unat (of_nat i AND mask k :: u32) = take_bit k (take_bit 32 i)"
    by (simp add: take_bit_eq_mask [symmetric] unsigned_take_bit_eq unsigned_of_nat)
  also have "\<dots> = i mod 2 ^ k"
    using k(1) by (simp add: take_bit_eq_mod [symmetric])
  finally show ?thesis using k by simp
qed

definition entries_between :: "'d xsk_ring \<Rightarrow> nat \<Rightarrow> nat \<Rightarrow> 'd list" where
  "entries_between r a b = map (\<lambda>i. ring r ! (i mod unat (size_of r))) [a..<b]"

lemma entries_from_counters:
  assumes "ring_ok r" and "a \<le> b" and "b - a < 4294967296"
  shows "entries_from r (of_nat a) (of_nat b - of_nat a) = entries_between r a b"
proof -
  have "entries_from r (of_nat a) (of_nat b - of_nat a)
      = map (\<lambda>j. ring r ! ((a + j) mod unat (size_of r))) [0..<b - a]"
    unfolding entries_from_def
    using slot_of_nat [OF assms(1)] assms(2,3)
    by (simp add: unat_of_nat_diff of_nat_add [symmetric] del: of_nat_add)
  also have "\<dots> = entries_between r a b"
    using assms(2) by (intro nth_equalityI) (simp_all add: entries_between_def)
  finally show ?thesis .
qed

lemma length_entries_between [simp]: "length (entries_between r a b) = b - a"
  by (simp add: entries_between_def)

lemma entries_between_split:
  "a \<le> b \<Longrightarrow> b \<le> c \<Longrightarrow> entries_between r a c = entries_between r a b @ entries_between r b c"
  using upt_add_eq_append [of a b "c - b"] by (simp add: entries_between_def)

lemma entries_between_cong:
  "ring r' = ring r \<Longrightarrow> size_of r' = size_of r \<Longrightarrow> entries_between r' a b = entries_between r a b"
  by (simp add: entries_between_def)

definition prod_view :: "'d xsk_ring \<Rightarrow> nat \<Rightarrow> nat \<Rightarrow> nat \<Rightarrow> nat \<Rightarrow> bool" where
  "prod_view r c0 c p cp \<longleftrightarrow> ring_ok r \<and> c0 \<le> c \<and> c \<le> p \<and> p \<le> cp \<and> cp \<le> c0 + unat (size_of r)
     \<and> cached_cons r = of_nat c0 + size_of r \<and> consumer r = of_nat c \<and> producer r = of_nat p
     \<and> cached_prod r = of_nat cp"

definition cons_view :: "'d xsk_ring \<Rightarrow> nat \<Rightarrow> nat \<Rightarrow> nat \<Rightarrow> nat \<Rightarrow> bool" where
  "cons_view r c cc p0 p \<longleftrightarrow> ring_ok r \<and> c \<le> cc \<and> cc \<le> p0 \<and> p0 \<le> p \<and> p \<le> c + unat (size_of r)
     \<and> consumer r = of_nat c \<and> cached_cons r = of_nat cc \<and> cached_prod r = of_nat p0
     \<and> producer r = of_nat p"

lemma prod_inv_view: "prod_inv r \<Longrightarrow> \<exists>c0 c p cp. prod_view r c0 c p cp"
proof -
  assume inv: "prod_inv r"
  define c0 where "c0 = cached_cons r - size_of r"
  let ?n = "\<lambda>x. unat c0 + unat (x - c0)"
  have "prod_view r (unat c0) (?n (consumer r)) (?n (producer r)) (?n (cached_prod r))"
    using inv unfolding prod_inv_def prod_view_def c0_def [symmetric] of_nat_unat_diff
    by (simp add: Let_def c0_def word_le_nat_alt)
  then show ?thesis by blast
qed

lemma prod_view_inv: "prod_view r c0 c p cp \<Longrightarrow> prod_inv r"
  using size_bounds [of r]
  by (auto simp: prod_view_def prod_inv_def word_le_nat_alt unat_of_nat_diff)

lemma cons_inv_view: "cons_inv r \<Longrightarrow> \<exists>c cc p0 p. cons_view r c cc p0 p"
proof -
  assume inv: "cons_inv r"
  let ?n = "\<lambda>x. unat (consumer r) + unat (x - consumer r)"
  have "cons_view r (unat (consumer r)) (?n (cached_cons r)) (?n (cached_prod r)) (?n (producer r))"
    using inv unfolding cons_inv_def cons_view_def of_nat_unat_diff
    by (simp add: Let_def word_le_nat_alt)
  then show ?thesis by blast
qed

lemma cons_view_inv: "cons_view r c cc p0 p \<Longrightarrow> cons_inv r"
  using size_bounds [of r]
  by (auto simp: cons_view_def cons_inv_def word_le_nat_alt unat_of_nat_diff)

lemma prod_view_lists:
  assumes "prod_view r c0 c p cp"
  shows "queue r = entries_between r c p" and "reserved r = entries_between r p cp"
  using assms size_bounds [of r]
  by (auto simp: prod_view_def queue_def reserved_def intro!: entries_from_counters)

lemma cons_view_lists:
  assumes "cons_view r c cc p0 p"
  shows "queue r = entries_between r c p" and "peeked r = entries_between r c cc"
  using assms size_bounds [of r]
  by (auto simp: cons_view_def queue_def peeked_def intro!: entries_from_counters)

subsection \<open>The producer side\<close>

lemma mod_eq_window:
  fixes i j n w :: nat
  assumes "w \<le> i" "i < w + n" "w \<le> j" "j < w + n" "i mod n = j mod n"
  shows "i = j"
  using assms
proof (induction i j rule: linorder_wlog)
  case (le i j)
  then have "n dvd j - i" by (metis mod_eq_dvd_iff_nat)
  moreover have "j - i < n" using le by linarith
  ultimately have "j - i = 0" by (metis dvd_imp_le neq0_conv not_le)
  with le show ?case by simp
qed simp

lemma entries_between_update:
  assumes "w \<le> a" "b \<le> w + unat (size_of r)" "w \<le> j" "j < w + unat (size_of r)"
    and len: "length (ring r) = unat (size_of r)"
  shows "entries_between (r\<lparr>ring := (ring r)[j mod unat (size_of r) := v]\<rparr>) a b
    = (if a \<le> j \<and> j < b then (entries_between r a b)[j - a := v] else entries_between r a b)"
proof (rule nth_equalityI)
  let ?n = "unat (size_of r)"
  fix i assume "i < length (entries_between (r\<lparr>ring := (ring r)[j mod ?n := v]\<rparr>) a b)"
  then have i: "i < b - a" by simp
  have n: "0 < ?n" using assms(3,4) by simp
  have "(a + i) mod ?n = j mod ?n \<longleftrightarrow> a + i = j"
    using i assms(1-4) mod_eq_window [of w "a + i" ?n j] by auto
  moreover have "(a + i) mod ?n < length (ring r)" using n len by simp
  ultimately show "entries_between (r\<lparr>ring := (ring r)[j mod ?n := v]\<rparr>) a b ! i
      = (if a \<le> j \<and> j < b then (entries_between r a b)[j - a := v] else entries_between r a b) ! i"
    using i by (auto simp: entries_between_def nth_list_update)
qed simp

lemma size_of_nat: "of_nat (unat (size_of r)) = size_of r"
  by simp

lemma prod_free_counters:
  assumes "prod_view r c0 c p cp"
  shows "unat (cached_cons r - cached_prod r) = c0 + unat (size_of r) - cp"
proof -
  have "cached_cons r = of_nat (c0 + unat (size_of r))"
    using assms by (simp add: prod_view_def)
  moreover have "cp \<le> c0 + unat (size_of r)" "c0 + unat (size_of r) - cp < 4294967296"
    "cached_prod r = of_nat cp"
    using assms size_bounds [of r] by (auto simp: prod_view_def)
  ultimately show ?thesis by (simp only: unat_of_nat_diff)
qed

lemma prod_view_refresh:
  "prod_view r c0 c p cp \<Longrightarrow> prod_view (r\<lparr>cached_cons := consumer r + size_of r\<rparr>) c c p cp"
  by (simp add: prod_view_def ring_ok_def)

lemma xsk_prod_nb_free_view:
  assumes v: "prod_view r c0 c p cp" and f: "xsk_prod_nb_free r nb = (f, r')"
  shows "\<exists>c0'. prod_view r' c0' c p cp \<and> unat f = c0' + unat (size_of r) - cp
    \<and> (c0' = c \<or> c0' = c0 \<and> nb \<le> f) \<and> ring r' = ring r \<and> size_of r' = size_of r"
proof (cases "nb \<le> cached_cons r - cached_prod r")
  case True
  with f v show ?thesis
    by (auto simp: xsk_prod_nb_free_def Let_def prod_free_counters intro!: exI [of _ c0])
next
  case False
  with f have r': "r' = r\<lparr>cached_cons := consumer r + size_of r\<rparr>"
    and f': "f = cached_cons r' - cached_prod r'"
    by (auto simp: xsk_prod_nb_free_def Let_def)
  have "prod_view r' c c p cp" using v r' by (simp add: prod_view_refresh)
  moreover from prod_free_counters [OF this] have "unat f = c + unat (size_of r) - cp"
    using r' f' by simp
  ultimately show ?thesis using r' by (intro exI [of _ c]) simp
qed

lemma ucast_of_nat_u32: "(ucast (n :: u64) :: u32) = of_nat (unat n)"
  by simp

lemma xsk_ring_prod__reserve_view:
  assumes v: "prod_view r c0 c p cp" and res: "xsk_ring_prod__reserve r n i = (m, j, r')"
  shows "\<exists>c0' cp'. ring r' = ring r \<and> size_of r' = size_of r \<and> prod_view r' c0' c p cp'
    \<and> (m = n \<and> j = of_nat cp \<and> cp' = cp + unat n
       \<or> m = 0 \<and> n \<noteq> 0 \<and> j = i \<and> cp' = cp \<and> c + unat (size_of r) < cp + unat n)"
proof -
  obtain f r1 where nb: "xsk_prod_nb_free r (ucast n) = (f, r1)" by fastforce
  obtain c0' where r1: "prod_view r1 c0' c p cp" "unat f = c0' + unat (size_of r) - cp"
      "c0' = c \<or> c0' = c0 \<and> ucast n \<le> f" "ring r1 = ring r" "size_of r1 = size_of r"
    using xsk_prod_nb_free_view [OF v nb] by blast
  have f64: "unat (ucast f :: u64) = unat f" by (simp add: unat_ucast_up)
  show ?thesis
  proof (cases "(ucast f :: u64) < n")
    case True
    then have lt: "unat f < unat n" using f64 by (simp add: word_less_nat_alt)
    have "c + unat (size_of r) < cp + unat n"
    proof (cases "c0' = c")
      case True
      with lt r1 show ?thesis by (auto simp: prod_view_def)
    next
      case False
      with r1(3) have "unat (ucast n :: u32) \<le> unat f" unfolding word_le_nat_alt by blast
      with lt have "\<not> unat n < 4294967296"
        using take_bit_nat_eq_self [of "unat n" 32] by (auto simp: unsigned_ucast_eq)
      with v size_bounds [of r] show ?thesis by (auto simp: prod_view_def)
    qed
    moreover have "m = 0" "n \<noteq> 0" "j = i" "r' = r1"
      using True nb res by (auto simp: xsk_ring_prod__reserve_def)
    ultimately show ?thesis using r1 by blast
  next
    case False
    then have le: "unat n \<le> unat f" using f64 by (simp add: word_less_nat_alt not_less)
    have "prod_view (r1\<lparr>cached_prod := cached_prod r1 + ucast n\<rparr>) c0' c p (cp + unat n)"
      using r1 le unfolding ucast_of_nat_u32 by (auto simp: prod_view_def ring_ok_def)
    moreover have "m = n" "j = of_nat cp" "r' = r1\<lparr>cached_prod := cached_prod r1 + ucast n\<rparr>"
      using False nb res r1(1) by (auto simp: xsk_ring_prod__reserve_def prod_view_def)
    ultimately show ?thesis using r1 by auto
  qed
qed

lemma xsk_ring_prod__submit_view:
  assumes "prod_view r c0 c p cp" and "unat n \<le> cp - p"
  shows "prod_view (xsk_ring_prod__submit r n) c0 c (p + unat n) cp"
  using assms unfolding xsk_ring_prod__submit_def ucast_of_nat_u32
  by (auto simp: prod_view_def ring_ok_def)

lemma slot_put_view:
  assumes "prod_view r c0 c p cp" and "p + k < cp"
  shows "slot_put r (xsk_ring_prod__fill_addr r (of_nat p + of_nat k)) v
      = Some (r\<lparr>ring := (ring r)[(p + k) mod unat (size_of r) := v]\<rparr>)"
    and "prod_view (r\<lparr>ring := (ring r)[(p + k) mod unat (size_of r) := v]\<rparr>) c0 c p cp"
proof -
  have ok: "ring_ok r" using assms by (simp add: prod_view_def)
  have "xsk_ring_prod__fill_addr r (of_nat p + of_nat k) = (p + k) mod unat (size_of r)"
    using slot_of_nat [OF ok, of "p + k"] by (simp add: xsk_ring_prod__fill_addr_def)
  moreover have "(p + k) mod unat (size_of r) < length (ring r)"
    using ok size_bounds [OF ok] by (simp add: ring_ok_def)
  ultimately show "slot_put r (xsk_ring_prod__fill_addr r (of_nat p + of_nat k)) v
      = Some (r\<lparr>ring := (ring r)[(p + k) mod unat (size_of r) := v]\<rparr>)"
    by (simp add: slot_put_def)
qed (use assms in \<open>simp add: prod_view_def ring_ok_def\<close>)

lemma prod_view_producer: "prod_view r c0 c p cp \<Longrightarrow> producer r = of_nat p"
  by (simp add: prod_view_def)

lemma prod_view_first:
  "prod_view r c0 c p cp \<Longrightarrow> producer r + of_nat (length (reserved r)) = cached_prod r"
  by (simp add: prod_view_lists) (simp add: prod_view_def of_nat_diff)

lemma reserve_queue:
  assumes "prod_inv r" and res: "xsk_ring_prod__reserve r n i = (m, j, r')"
  shows "prod_inv r' \<and> queue r' = queue r \<and> producer r' = producer r \<and>
      (m = n \<and> j = producer r + of_nat (length (reserved r))
         \<and> length (reserved r') = length (reserved r) + unat n
         \<and> take (length (reserved r)) (reserved r') = reserved r
       \<or> m = 0 \<and> n \<noteq> 0 \<and> j = i \<and> reserved r' = reserved r)"
proof -
  obtain c0 c p cp where v: "prod_view r c0 c p cp" using prod_inv_view [OF assms(1)] by blast
  have cp: "of_nat cp = producer r + of_nat (length (reserved r))"
    unfolding prod_view_first [OF v] using v by (simp add: prod_view_def)
  obtain c0' cp' where r': "ring r' = ring r" "size_of r' = size_of r" "prod_view r' c0' c p cp'"
    "m = n \<and> j = of_nat cp \<and> cp' = cp + unat n
     \<or> m = 0 \<and> n \<noteq> 0 \<and> j = i \<and> cp' = cp \<and> c + unat (size_of r) < cp + unat n"
    using xsk_ring_prod__reserve_view [OF v res] by (elim exE conjE) (rule that)
  have e: "entries_between r' a b = entries_between r a b" for a b
    using r'(1,2) by (rule entries_between_cong)
  have p: "p \<le> cp" using v by (simp add: prod_view_def)
  have pr: "producer r' = producer r" 
    by (simp only: prod_view_producer [OF v] prod_view_producer [OF r'(3)])
  have sp: "entries_between r p (cp + unat n)
      = entries_between r p cp @ entries_between r cp (cp + unat n)"
    using p by (intro entries_between_split) simp_all
  have q: "queue r' = queue r" "prod_inv r'"
    by (simp_all add: prod_view_lists [OF v] prod_view_lists [OF r'(3)] e prod_view_inv [OF r'(3)])
  from r'(4) have "m = n \<and> j = producer r + of_nat (length (reserved r))
         \<and> length (reserved r') = length (reserved r) + unat n
         \<and> take (length (reserved r)) (reserved r') = reserved r
       \<or> m = 0 \<and> n \<noteq> 0 \<and> j = i \<and> reserved r' = reserved r"
  proof (elim disjE conjE)
    assume "m = n" "j = of_nat cp" "cp' = cp + unat n"
    moreover from this have "reserved r' = reserved r @ entries_between r cp (cp + unat n)"
      by (simp only: prod_view_lists [OF v] prod_view_lists [OF r'(3)] e sp)
    ultimately show ?thesis using cp by (intro disjI1) simp
  qed (simp add: prod_view_lists [OF v] prod_view_lists [OF r'(3)] e)
  then show ?thesis using q pr by (intro conjI)
qed

lemma slot_put_queue:
  assumes "prod_inv r" and k: "k < length (reserved r)"
  shows "\<exists>r'. slot_put r (xsk_ring_prod__fill_addr r (producer r + of_nat k)) v = Some r' \<and> prod_inv r'
      \<and> queue r' = queue r \<and> reserved r' = (reserved r)[k := v] \<and> producer r' = producer r"
proof -
  obtain c0 c p cp where w: "prod_view r c0 c p cp" using prod_inv_view [OF assms(1)] by blast
  let ?r' = "r\<lparr>ring := (ring r)[(p + k) mod unat (size_of r) := v]\<rparr>"
  have pk: "p + k < cp" using k w by (simp add: prod_view_lists)
  have b: "c \<le> p" "cp \<le> c + unat (size_of r)" "length (ring r) = unat (size_of r)"
    "producer r = of_nat p"
    using w by (auto simp: prod_view_def ring_ok_def)
  have "queue ?r' = queue r" "reserved ?r' = (reserved r)[k := v]"
    using pk b entries_between_update [of c c p r "p + k" v] entries_between_update [of c p cp r "p + k" v]
    by (simp_all add: prod_view_lists [OF w] prod_view_lists [OF slot_put_view(2) [OF w pk]])
  with slot_put_view [OF w pk, of v] prod_view_inv [OF slot_put_view(2) [OF w pk]] b(4)
  show ?thesis by simp
qed

lemma submit_queue:
  assumes "prod_inv r" and n: "unat n \<le> length (reserved r)"
  shows "prod_inv (xsk_ring_prod__submit r n)
      \<and> queue (xsk_ring_prod__submit r n) = queue r @ take (unat n) (reserved r)
      \<and> reserved (xsk_ring_prod__submit r n) = drop (unat n) (reserved r)"
proof -
  obtain c0 c p cp where v: "prod_view r c0 c p cp" using prod_inv_view [OF assms(1)] by blast
  let ?r' = "xsk_ring_prod__submit r n"
  have n': "unat n \<le> cp - p" "c \<le> p" "p \<le> cp" using n v by (auto simp: prod_view_lists prod_view_def)
  have v': "prod_view ?r' c0 c (p + unat n) cp" using v n'(1) by (rule xsk_ring_prod__submit_view)
  have e: "entries_between ?r' a b = entries_between r a b" for a b
    by (intro entries_between_cong) (simp_all add: xsk_ring_prod__submit_def)
  show ?thesis
    using n' entries_between_split [of c p "p + unat n" r] entries_between_split [of p "p + unat n" cp r]
    by (simp add: prod_view_inv [OF v'] prod_view_lists [OF v] prod_view_lists [OF v'] e)
qed

interpretation prod: fifo_producer prod_inv queue reserved producer xsk_ring_prod__reserve
  "\<lambda>r idx v. slot_put r (xsk_ring_prod__fill_addr r idx) v" xsk_ring_prod__submit
  by (unfold_locales; (rule reserve_queue slot_put_queue submit_queue; assumption))

subsection \<open>The consumer side\<close>

lemma cons_view_diff:
  assumes "cons_view r c cc p0 p"
  shows "unat (cached_prod r - cached_cons r) = p0 - cc" and "unat (producer r - cached_cons r) = p - cc"
proof -
  have "cc \<le> p0" "cc \<le> p" "p0 - cc < 4294967296" "p - cc < 4294967296"
    and f: "cached_prod r = of_nat p0" "cached_cons r = of_nat cc" "producer r = of_nat p"
    using assms size_bounds [of r] by (auto simp: cons_view_def)
  then show "unat (cached_prod r - cached_cons r) = p0 - cc"
    and "unat (producer r - cached_cons r) = p - cc"
    by (simp_all only: f unat_of_nat_diff)
qed

lemma cons_view_refresh:
  "cons_view r c cc p0 p \<Longrightarrow> cons_view (r\<lparr>cached_prod := producer r\<rparr>) c cc p p"
  by (simp add: cons_view_def ring_ok_def)

lemma xsk_cons_nb_avail_view:
  assumes v: "cons_view r c cc p0 p" and n: "xsk_cons_nb_avail r nb = (n, r')"
  shows "\<exists>p0'. cons_view r' c cc p0' p \<and> unat n = min (unat nb) (p0' - cc)
    \<and> (p0' = cc \<longrightarrow> cc = p) \<and> ring r' = ring r \<and> size_of r' = size_of r"
proof (cases "cached_prod r - cached_cons r = 0")
  case True
  then have "p0 - cc = 0" using cons_view_diff(1) [OF v] by (simp only: True) simp
  moreover have r': "r' = r\<lparr>cached_prod := producer r\<rparr>"
    and "n = (if producer r - cached_cons r > nb then nb else producer r - cached_cons r)"
    using n True by (simp_all add: xsk_cons_nb_avail_def Let_def split: if_splits)
  ultimately have "unat n = min (unat nb) (p - cc)"
    using cons_view_diff(2) [OF v] by (auto simp: word_less_nat_alt)
  with cons_view_refresh [OF v] r' show ?thesis by (intro exI [of _ p]) simp
next
  case False
  then have "p0 - cc \<noteq> 0" unfolding cons_view_diff(1) [OF v, symmetric] unat_eq_0 by simp
  moreover have "r' = r"
    and "n = (if cached_prod r - cached_cons r > nb then nb else cached_prod r - cached_cons r)"
    using n False by (auto simp: xsk_cons_nb_avail_def Let_def split: if_splits)
  moreover from this have "unat n = min (unat nb) (p0 - cc)"
    using cons_view_diff(1) [OF v] by (auto simp: word_less_nat_alt)
  ultimately show ?thesis using v by (intro exI [of _ p0]) simp
qed

lemma xsk_ring_cons__peek_view:
  assumes v: "cons_view r c cc p0 p" and n: "unat n < 4294967296"
    and pk: "xsk_ring_cons__peek r n i = (m, j, r')"
  shows "\<exists>p0'. cons_view r' c (cc + unat m) p0' p \<and> ring r' = ring r \<and> size_of r' = size_of r
    \<and> unat m \<le> unat n \<and> (m = 0 \<longrightarrow> n \<noteq> 0 \<longrightarrow> cc = p) \<and> (m \<noteq> 0 \<longrightarrow> j = of_nat cc)"
proof -
  obtain f r1 where av: "xsk_cons_nb_avail r (ucast n) = (f, r1)" by fastforce
  have n32: "unat (ucast n :: u32) = unat n"
    using n take_bit_nat_eq_self [of "unat n" 32] by (simp add: unsigned_ucast_eq)
  obtain p0' where r1: "cons_view r1 c cc p0' p" "unat f = min (unat n) (p0' - cc)"
      "p0' = cc \<longrightarrow> cc = p" "ring r1 = ring r" "size_of r1 = size_of r"
    using xsk_cons_nb_avail_view [OF v av] unfolding n32 by blast
  have f64: "unat (ucast f :: u64) = unat f" by (simp add: unat_ucast_up)
  have m: "m = ucast f" "unat m = unat f"
    using pk av f64 by (auto simp: xsk_ring_cons__peek_def Let_def split: if_splits)
  have le: "cc \<le> p0'" using r1(1) by (simp add: cons_view_def)
  show ?thesis
  proof (cases "m = 0")
    case True
    then have "unat f = 0" using m by simp
    then have "n \<noteq> 0 \<longrightarrow> cc = p" using r1 le by (auto simp: unat_eq_0 min_def split: if_splits)
    moreover have "r' = r1" using pk av True m by (simp add: xsk_ring_cons__peek_def)
    ultimately show ?thesis using True r1 by (intro exI [of _ p0']) simp
  next
    case False
    then have "0 < (ucast f :: u64)" using m by (simp add: word_gt_0)
    then have "j = cached_cons r1" "r' = r1\<lparr>cached_cons := cached_cons r1 + of_nat (unat m)\<rparr>"
      using pk av m(1) by (auto simp: xsk_ring_cons__peek_def Let_def)
    moreover have "cons_view (r1\<lparr>cached_cons := cached_cons r1 + of_nat (unat m)\<rparr>) c (cc + unat m) p0' p"
      using r1 m(2) le unfolding cons_view_def ring_ok_def by simp
    moreover have "cached_cons r1 = of_nat cc" using r1(1) by (simp add: cons_view_def)
    moreover have "unat m \<le> unat n" using r1(2) m(2) by simp
    ultimately show ?thesis using False r1(4,5) by (intro exI [of _ p0']) simp
  qed
qed

lemma peek_queue:
  assumes "cons_inv r" and n: "unat n < 4294967296" and pk: "xsk_ring_cons__peek r n i = (m, j, r')"
  shows "cons_inv r' \<and> queue r' = queue r \<and> consumer r' = consumer r \<and> unat m \<le> unat n
      \<and> peeked r' = take (length (peeked r) + unat m) (queue r)
      \<and> length (peeked r') = length (peeked r) + unat m
      \<and> (m = 0 \<longrightarrow> n \<noteq> 0 \<longrightarrow> peeked r = queue r)
      \<and> (m \<noteq> 0 \<longrightarrow> j = consumer r + of_nat (length (peeked r)))"
proof -
  obtain c cc p0 p where v: "cons_view r c cc p0 p" using cons_inv_view [OF assms(1)] by blast
  obtain p0' where r': "cons_view r' c (cc + unat m) p0' p" "ring r' = ring r" "size_of r' = size_of r"
    "unat m \<le> unat n" "m = 0 \<longrightarrow> n \<noteq> 0 \<longrightarrow> cc = p" "m \<noteq> 0 \<longrightarrow> j = of_nat cc"
    using xsk_ring_cons__peek_view [OF v n pk] by blast
  have e: "entries_between r' a b = entries_between r a b" for a b
    using r'(2,3) by (rule entries_between_cong)
  have o: "c \<le> cc" "cc + unat m \<le> p" using v r'(1) by (auto simp: cons_view_def)
  then have "entries_between r c p = entries_between r c (cc + unat m) @ entries_between r (cc + unat m) p"
    by (intro entries_between_split) simp_all
  then have q: "queue r' = queue r" "peeked r' = take (length (peeked r) + unat m) (queue r)"
    "length (peeked r') = length (peeked r) + unat m"
    using o by (simp_all add: cons_view_lists [OF v] cons_view_lists [OF r'(1)] e)
  have q0: "m = 0 \<longrightarrow> n \<noteq> 0 \<longrightarrow> peeked r = queue r"
    using r'(5) by (auto simp: cons_view_lists [OF v])
  have c: "consumer r' = of_nat c" "consumer r = of_nat c" "cached_cons r = of_nat cc"
    using v r'(1) by (simp_all add: cons_view_def)
  have "consumer r + of_nat (length (peeked r)) = of_nat cc"
    using o by (simp add: c(2) cons_view_lists [OF v] of_nat_diff)
  with r'(6) have j: "m \<noteq> 0 \<longrightarrow> j = consumer r + of_nat (length (peeked r))" by simp
  show ?thesis by (intro conjI q q0 j r'(4) cons_view_inv [OF r'(1)]) (simp only: c)
qed

lemma slot_get_queue:
  assumes "cons_inv r" and k: "k < length (peeked r)"
  shows "slot_get r (xsk_ring_cons__rx_desc r (consumer r + of_nat k)) = Some (peeked r ! k)"
proof -
  obtain c cc p0 p where v: "cons_view r c cc p0 p" using cons_inv_view [OF assms(1)] by blast
  then have ok: "ring_ok r" and c: "consumer r = of_nat c" by (simp_all add: cons_view_def)
  have "xsk_ring_cons__rx_desc r (consumer r + of_nat k) = (c + k) mod unat (size_of r)"
    using slot_of_nat [OF ok, of "c + k"] by (simp add: xsk_ring_cons__rx_desc_def c)
  moreover have "(c + k) mod unat (size_of r) < length (ring r)"
    using ok size_bounds [OF ok] by (simp add: ring_ok_def)
  ultimately show ?thesis
    using k by (simp add: slot_get_def cons_view_lists [OF v] entries_between_def)
qed

lemma release_queue:
  assumes "cons_inv r" and n: "unat n \<le> length (peeked r)"
  shows "cons_inv (xsk_ring_cons__release r n)
      \<and> queue (xsk_ring_cons__release r n) = drop (unat n) (queue r)
      \<and> peeked (xsk_ring_cons__release r n) = drop (unat n) (peeked r)"
proof -
  obtain c cc p0 p where v: "cons_view r c cc p0 p" using cons_inv_view [OF assms(1)] by blast
  let ?r' = "xsk_ring_cons__release r n"
  have n': "unat n \<le> cc - c" "c \<le> cc" "cc \<le> p" using n v by (auto simp: cons_view_lists cons_view_def)
  have v': "cons_view ?r' (c + unat n) cc p0 p"
    using v n' unfolding xsk_ring_cons__release_def ucast_of_nat_u32
    by (auto simp: cons_view_def ring_ok_def)
  have e: "entries_between ?r' a b = entries_between r a b" for a b
    by (intro entries_between_cong) (simp_all add: xsk_ring_cons__release_def)
  show ?thesis
    using n' entries_between_split [of c "c + unat n" p r] entries_between_split [of c "c + unat n" cc r]
    by (simp add: cons_view_inv [OF v'] cons_view_lists [OF v] cons_view_lists [OF v'] e)
qed

interpretation cons: fifo_consumer cons_inv queue peeked consumer xsk_ring_cons__peek
  "\<lambda>r idx. slot_get r (xsk_ring_cons__rx_desc r idx)" xsk_ring_cons__release
  by (unfold_locales; (rule peek_queue slot_get_queue release_queue; assumption))

lemma peeked_prefix: "cons_inv r \<Longrightarrow> peeked r = take (length (peeked r)) (queue r)"
proof -
  assume "cons_inv r"
  then obtain c cc p0 p where v: "cons_view r c cc p0 p" using cons_inv_view by blast
  then have o: "c \<le> cc" "cc \<le> p" by (auto simp: cons_view_def)
  show ?thesis using entries_between_split [OF o, of r] by (simp add: cons_view_lists [OF v])
qed

lemma peeked_le_queue: "cons_inv r \<Longrightarrow> length (peeked r) \<le> length (queue r)"
  by (auto dest!: cons_inv_view simp: cons_view_lists) (auto simp: cons_view_def)

lemma drop_peeked:
  assumes "cons_inv r" and "n < length (peeked r)"
  shows "drop n (queue r) = peeked r ! n # drop (Suc n) (queue r)"
    and "peeked r ! n \<in> set (queue r)"
proof -
  have l: "n < length (queue r)" using assms peeked_le_queue [of r] by simp
  have "peeked r ! n = queue r ! n"
    using peeked_prefix [OF assms(1)] assms(2) by (metis nth_take)
  with l show "drop n (queue r) = peeked r ! n # drop (Suc n) (queue r)"
    and "peeked r ! n \<in> set (queue r)"
    by (simp_all add: Cons_nth_drop_Suc)
qed

subsection \<open>The other end of a shared ring\<close>

text \<open>What the kernel does to a ring that the program produces into (take the oldest published
  entry) and to one it consumes from (publish an entry while there is room). It touches neither
  the cached indices nor the index the program owns.\<close>

definition kern_consume :: "'d xsk_ring \<Rightarrow> 'd xsk_ring" where
  "kern_consume r = r\<lparr>consumer := consumer r + 1\<rparr>"

definition kern_produce :: "'d \<Rightarrow> 'd xsk_ring \<Rightarrow> 'd xsk_ring" where
  "kern_produce d r =
     r\<lparr>ring := (ring r)[unat (producer r AND mask_of r) := d], producer := producer r + 1\<rparr>"

lemma kern_fields [simp]:
  "cached_prod (kern_consume r) = cached_prod r" "cached_cons (kern_consume r) = cached_cons r"
  "producer (kern_consume r) = producer r" "size_of (kern_consume r) = size_of r"
  "cached_prod (kern_produce d r) = cached_prod r" "cached_cons (kern_produce d r) = cached_cons r"
  "consumer (kern_produce d r) = consumer r" "size_of (kern_produce d r) = size_of r"
  by (simp_all add: kern_consume_def kern_produce_def)

lemma kern_consume_queue:
  assumes "prod_inv r" and q: "queue r = x # xs"
  shows "prod_inv (kern_consume r)" and "queue (kern_consume r) = xs"
    and "reserved (kern_consume r) = reserved r"
proof -
  obtain c0 c p cp where v: "prod_view r c0 c p cp" using prod_inv_view [OF assms(1)] by blast
  have "length (queue r) = Suc (length xs)" using q by simp
  then have c: "Suc c \<le> p" by (simp add: prod_view_lists [OF v])
  have v': "prod_view (kern_consume r) c0 (Suc c) p cp"
    using v c by (simp add: prod_view_def ring_ok_def kern_consume_def)
  have e: "entries_between (kern_consume r) a b = entries_between r a b" for a b
    by (rule entries_between_cong) (simp_all add: kern_consume_def)
  show "prod_inv (kern_consume r)" using v' by (rule prod_view_inv)
  show "reserved (kern_consume r) = reserved r"
    by (simp only: prod_view_lists [OF v] prod_view_lists [OF v'] e)
  have "x # xs = entries_between r c (Suc c) @ entries_between r (Suc c) p"
    using q c entries_between_split [of c "Suc c" p r] by (simp add: prod_view_lists [OF v])
  then show "queue (kern_consume r) = xs"
    by (simp add: prod_view_lists [OF v'] e) (simp add: entries_between_def)
qed

lemma kern_produce_queue:
  assumes "cons_inv r" and room: "length (queue r) < unat (size_of r)"
  shows "cons_inv (kern_produce d r)" and "queue (kern_produce d r) = queue r @ [d]"
    and "peeked (kern_produce d r) = peeked r"
proof -
  obtain c cc p0 p where v: "cons_view r c cc p0 p" using cons_inv_view [OF assms(1)] by blast
  let ?n = "unat (size_of r)"
  have ok: "ring_ok r" and o: "c \<le> cc" "cc \<le> p" "p < c + ?n" and p: "producer r = of_nat p"
    using v room by (auto simp: cons_view_def cons_view_lists [OF v])
  have len: "length (ring r) = ?n" using ok by (simp add: ring_ok_def)
  have r': "kern_produce d r = r\<lparr>ring := (ring r)[p mod ?n := d], producer := of_nat (Suc p)\<rparr>"
    by (simp add: kern_produce_def p slot_of_nat [OF ok])
  have v': "cons_view (kern_produce d r) c cc p0 (Suc p)"
    using v o unfolding r' by (simp add: cons_view_def ring_ok_def)
  have e: "entries_between (kern_produce d r) a b
      = entries_between (r\<lparr>ring := (ring r)[p mod ?n := d]\<rparr>) a b" for a b
    by (rule entries_between_cong) (simp_all add: r')
  show "cons_inv (kern_produce d r)" using v' by (rule cons_view_inv)
  show "peeked (kern_produce d r) = peeked r"
    using o len entries_between_update [of c c cc r p d]
    by (simp add: cons_view_lists [OF v'] cons_view_lists [OF v] e)
  have "entries_between r c (Suc p) = entries_between r c p @ [ring r ! (p mod ?n)]"
    using o by (simp add: entries_between_def)
  then show "queue (kern_produce d r) = queue r @ [d]"
    using o len entries_between_update [of c c "Suc p" r p d]
    by (simp add: cons_view_lists [OF v'] cons_view_lists [OF v] e list_update_append)
qed

subsection \<open>Room in a ring\<close>

lemma prod_room:
  assumes "prod_inv r"
  shows "length (queue r) + length (reserved r) \<le> unat (size_of r)"
proof -
  obtain c0 c p cp where v: "prod_view r c0 c p cp" using prod_inv_view [OF assms] by blast
  then show ?thesis by (auto simp: prod_view_lists prod_view_def)
qed

lemma cons_room: "cons_inv r \<Longrightarrow> length (queue r) \<le> unat (size_of r)"
  by (auto dest!: cons_inv_view simp: cons_view_lists) (auto simp: cons_view_def)

text \<open>A reservation is granted exactly when the ring has room for it, however stale the cached
  consumer index is.\<close>

lemma reserve_granted_iff:
  assumes "prod_inv r" and "xsk_ring_prod__reserve r n i = (m, j, r')"
  shows "m = n \<longleftrightarrow> length (queue r) + length (reserved r) + unat n \<le> unat (size_of r)"
proof -
  obtain c0 c p cp where v: "prod_view r c0 c p cp" using prod_inv_view [OF assms(1)] by blast
  obtain c0' cp' where r': "size_of r' = size_of r" "prod_view r' c0' c p cp'"
    "m = n \<and> j = of_nat cp \<and> cp' = cp + unat n
     \<or> m = 0 \<and> n \<noteq> 0 \<and> j = i \<and> cp' = cp \<and> c + unat (size_of r) < cp + unat n"
    using xsk_ring_prod__reserve_view [OF v assms(2)] by blast
  have l: "length (queue r) + length (reserved r) = cp - c" "c \<le> cp"
    using v by (auto simp: prod_view_lists prod_view_def)
  have "cp' \<le> c + unat (size_of r)" using r'(1,2) by (simp add: prod_view_def)
  with r'(3) l show ?thesis by auto
qed

text \<open>The number of free slots that \<^verbatim>\<open>xsk_prod_nb_free\<close> reports is never more than the
  ring has, and a reservation of that size is granted without looking at the consumer again.\<close>

lemma nb_free_queue:
  assumes "prod_inv r" and "xsk_prod_nb_free r nb = (f, r')"
  shows "prod_inv r'" and "queue r' = queue r" and "reserved r' = reserved r"
    and "producer r' = producer r" and "size_of r' = size_of r"
    and "length (queue r) + length (reserved r) + unat f \<le> unat (size_of r)"
    and "unat f < unat nb \<Longrightarrow> length (queue r) + length (reserved r) + unat f = unat (size_of r)"
    and "cached_cons r' - cached_prod r' = f"
proof -
  obtain c0 c p cp where v: "prod_view r c0 c p cp" using prod_inv_view [OF assms(1)] by blast
  obtain c0' where r': "prod_view r' c0' c p cp" "unat f = c0' + unat (size_of r) - cp"
    "c0' = c \<or> c0' = c0 \<and> nb \<le> f" "ring r' = ring r" "size_of r' = size_of r"
    using xsk_prod_nb_free_view [OF v assms(2)] by blast
  have e: "entries_between r' a b = entries_between r a b" for a b
    using r'(4,5) by (rule entries_between_cong)
  show "prod_inv r'" using r'(1) by (rule prod_view_inv)
  show "queue r' = queue r" "reserved r' = reserved r" "producer r' = producer r"
    by (simp_all only: prod_view_lists [OF v] prod_view_lists [OF r'(1)] e
        prod_view_producer [OF v] prod_view_producer [OF r'(1)])
  have o: "c0' \<le> c" "c \<le> p" "p \<le> cp" "cp \<le> c0' + unat (size_of r)"
    using r'(1) unfolding prod_view_def r'(5) by simp_all
  show "length (queue r) + length (reserved r) + unat f \<le> unat (size_of r)"
    using o r'(2) by (simp add: prod_view_lists [OF v])
  show "unat f < unat nb \<Longrightarrow> length (queue r) + length (reserved r) + unat f = unat (size_of r)"
    using o r'(2,3) by (auto simp: prod_view_lists [OF v] word_le_nat_alt)
  show "cached_cons r' - cached_prod r' = f"
    using assms(2) by (auto simp: xsk_prod_nb_free_def Let_def split: if_splits)
qed (use assms(2) in \<open>auto simp: xsk_prod_nb_free_def Let_def split: if_splits\<close>)

lemma reserve_reported:
  "cached_cons r - cached_prod r = f \<Longrightarrow>
   xsk_ring_prod__reserve r (ucast f) i
     = (ucast f, cached_prod r, r\<lparr>cached_prod := cached_prod r + f\<rparr>)"
  by (simp add: xsk_ring_prod__reserve_def xsk_prod_nb_free_def)

subsection \<open>Properties\<close>

text \<open>A ring of four slots whose indices are about to wrap around.\<close>

definition wrapping_ring :: "nat xsk_ring" where
  "wrapping_ring = \<lparr>cached_prod = 0xfffffffe, cached_cons = 2, mask_of = 3, size_of = 4,
     producer = 0xfffffffe, consumer = 0xfffffffe, ring = [0, 0, 0, 0], flags = 0\<rparr>"

lemma size_4_ok: "(4 :: u32) \<in> (\<lambda>k. 2 ^ k) ` {0..<31}"
  by (rule image_eqI [of _ _ 2]) simp_all

lemma wrapping_ring_ok: "prod_inv wrapping_ring" "reserved wrapping_ring = []" "queue wrapping_ring = []"
  using size_4_ok
  by (simp_all add: wrapping_ring_def prod_inv_def ring_ok_def reserved_def queue_def entries_from_def)

lemma wrapping_ring_reserve:
  "xsk_ring_prod__reserve wrapping_ring 3 0 = (3, 0xfffffffe, wrapping_ring\<lparr>cached_prod := 1\<rparr>)"
  by (simp add: xsk_ring_prod__reserve_def xsk_prod_nb_free_def wrapping_ring_def)

text \<open>C8. The producer side of a ring is a FIFO: reserving \<open>n\<close> slots, writing one entry per reserved
  slot through \<^verbatim>\<open>xsk_ring_prod__fill_addr\<close> and submitting them appends exactly these entries,
  in order, to what the consumer can see, and leaves the invariant intact; the returned index is the
  producer index. The 32-bit indices may wrap around.\<close>

theorem prod_batch_fifo:
  assumes "prod_inv r" and "reserved r = []" and "xsk_ring_prod__reserve r n i = (n, j, r1)"
  shows "j = producer r \<and>
    (\<exists>r2. for_upto (unat n)
        (\<lambda>k r. slot_put r (xsk_ring_prod__fill_addr r (producer r + of_nat k)) (f k)) r1 = Some r2
      \<and> prod_inv (xsk_ring_prod__submit r2 n)
      \<and> queue (xsk_ring_prod__submit r2 n) = queue r @ map f [0..<unat n]
      \<and> reserved (xsk_ring_prod__submit r2 n) = [])"
proof
  show "j = producer r" using prod.reserve_law [OF assms(1,3)] assms(2) by auto
qed (rule prod.produce [OF assms])

theorem prod_batch_fifo_witness:
  "\<exists>r2. for_upto 3 (\<lambda>k r. slot_put r (xsk_ring_prod__fill_addr r (producer r + of_nat k)) (Suc k))
      (wrapping_ring\<lparr>cached_prod := 1\<rparr>) = Some r2
    \<and> queue (xsk_ring_prod__submit r2 3) = map Suc [0..<3]"
  using prod_batch_fifo [OF wrapping_ring_ok(1,2) wrapping_ring_reserve, of Suc] wrapping_ring_ok(3)
  by auto

text \<open>A reservation is granted exactly when the ring really has room for it: a stale cached
  consumer index never causes a refusal (it is refreshed first), and a grant never overlaps an entry
  that the consumer has not taken yet.\<close>

theorem reserve_exact:
  assumes "prod_inv r" and "xsk_ring_prod__reserve r n i = (m, j, r')"
  shows "m = n \<longleftrightarrow> length (queue r) + length (reserved r) + unat n \<le> unat (size_of r)"
  by (rule reserve_granted_iff [OF assms])

theorem reserve_exact_witness:
  "(3 :: u64) = 3 \<longleftrightarrow>
     length (queue wrapping_ring) + length (reserved wrapping_ring) + unat (3 :: u64) \<le> unat (size_of wrapping_ring)"
  by (rule reserve_exact [OF wrapping_ring_ok(1) wrapping_ring_reserve])

text \<open>C9. The consumer side of a ring is a FIFO: a batch that is peeked and then released is exactly
  the front of the queue, the released ring holds the rest, and every entry of the batch can be read
  through \<^verbatim>\<open>xsk_ring_cons__rx_desc\<close> at consecutive indices from the returned one.\<close>

theorem cons_batch_fifo:
  assumes "cons_inv r" and "peeked r = []" and "unat n < 4294967296"
    and "xsk_ring_cons__peek r n i = (m, j, r')"
  shows "queue r = peeked r' @ queue (xsk_ring_cons__release r' m) \<and> length (peeked r') = unat m
    \<and> cons_inv (xsk_ring_cons__release r' m) \<and> peeked (xsk_ring_cons__release r' m) = []
    \<and> (m = 0 \<longrightarrow> n \<noteq> 0 \<longrightarrow> queue r = [])
    \<and> (\<forall>k < unat m. slot_get r' (xsk_ring_cons__rx_desc r' (j + of_nat k)) = Some (peeked r' ! k))"
proof -
  have p: "cons_inv r'" "consumer r' = consumer r" "m \<noteq> 0 \<longrightarrow> j = consumer r"
    "length (peeked r') = unat m" "m = 0 \<longrightarrow> n \<noteq> 0 \<longrightarrow> queue r = []"
    using cons.peek_law [OF assms(1,3,4)] assms(2) by auto
  have "\<forall>k < unat m. slot_get r' (xsk_ring_cons__rx_desc r' (j + of_nat k)) = Some (peeked r' ! k)"
    using cons.get_law [OF p(1)] p by (metis less_nat_zero_code unat_0)
  with cons.consume [OF assms] p(5) show ?thesis by blast
qed

definition filled_ring :: "nat xsk_ring" where
  "filled_ring = \<lparr>cached_prod = 0xfffffffe, cached_cons = 0xfffffffe, mask_of = 3, size_of = 4,
     producer = 1, consumer = 0xfffffffe, ring = [12, 13, 10, 11], flags = 0\<rparr>"

theorem cons_batch_fifo_witness:
  "queue filled_ring = peeked (filled_ring\<lparr>cached_prod := 1, cached_cons := 0\<rparr>)
     @ queue (xsk_ring_cons__release (filled_ring\<lparr>cached_prod := 1, cached_cons := 0\<rparr>) 2)"
proof -
  have "cons_inv filled_ring" "peeked filled_ring = []"
    using size_4_ok
    by (simp_all add: filled_ring_def cons_inv_def ring_ok_def peeked_def entries_from_def)
  moreover have "xsk_ring_cons__peek filled_ring 2 0
      = (2, 0xfffffffe, filled_ring\<lparr>cached_prod := 1, cached_cons := 0\<rparr>)"
    by (simp add: xsk_ring_cons__peek_def xsk_cons_nb_avail_def filled_ring_def)
  ultimately show ?thesis using cons_batch_fifo [of filled_ring 2 0] by auto
qed

end
