(* ===== verification/XskLib.thy ===== *)
theory XskLib
  imports XskRing "HOL-Library.Multiset"
begin

text \<open>
  Creation and deletion of UMEMs and AF_XDP sockets (\<^verbatim>\<open>libbpf/src/xsk.c\<close>).

  The operating system is a parameter: the record \<open>os\<close> gives the result of every system call by
  its arguments (0 or a positive \<^verbatim>\<open>errno\<close> for calls that report success or failure), the
  contents of a freshly mapped ring, and the value \<^verbatim>\<open>errno\<close> had before. What a function does
  to the process is the list of its effects in order (memory blocks, descriptors and mappings
  obtained and given back, map updates); a leak is an effect that is never undone.
\<close>

subsection \<open>Configurations\<close>

record xsk_umem_config =
  fill_size :: u32
  comp_size :: u32
  frame_size :: u32
  frame_headroom :: u32
  umem_flags :: u32

record xsk_socket_config =
  rx_size :: u32
  tx_size :: u32
  libbpf_flags :: u32
  xdp_flags :: u32
  bind_flags :: u16

record xdp_ring_offset =
  off_producer :: u64
  off_consumer :: u64
  off_desc :: u64
  off_flags :: u64

record xdp_mmap_offsets =
  off_rx :: xdp_ring_offset
  off_tx :: xdp_ring_offset
  off_fr :: xdp_ring_offset
  off_cr :: xdp_ring_offset

abbreviation (input) ENOENT :: int where "ENOENT \<equiv> 2"
abbreviation (input) ENOMEM :: int where "ENOMEM \<equiv> 12"
abbreviation (input) EFAULT :: int where "EFAULT \<equiv> 14"
abbreviation (input) EBUSY :: int where "EBUSY \<equiv> 16"
abbreviation (input) EINVAL :: int where "EINVAL \<equiv> 22"
abbreviation (input) EOPNOTSUPP :: int where "EOPNOTSUPP \<equiv> 95"
abbreviation (input) XSK_LIBBPF_FLAGS__INHIBIT_PROG_LOAD :: u32
  where "XSK_LIBBPF_FLAGS__INHIBIT_PROG_LOAD \<equiv> 1"
abbreviation (input) XDP_SHARED_UMEM :: u16 where "XDP_SHARED_UMEM \<equiv> 1"
abbreviation (input) MAP_FAILED :: u64 where "MAP_FAILED \<equiv> 0xffffffffffffffff"

definition xsk_page_aligned :: "u64 \<Rightarrow> u64 \<Rightarrow> bool" where
  "xsk_page_aligned pagesz buf \<longleftrightarrow> buf AND (pagesz - 1) = 0"

definition xsk_set_umem_config :: "xsk_umem_config option \<Rightarrow> xsk_umem_config" where
  "xsk_set_umem_config usr_cfg =
     (case usr_cfg of
        None \<Rightarrow> \<lparr>fill_size = 2048, comp_size = 2048, frame_size = 4096, frame_headroom = 0,
                 umem_flags = 0\<rparr>
      | Some c \<Rightarrow> \<lparr>fill_size = fill_size c, comp_size = comp_size c, frame_size = frame_size c,
                   frame_headroom = frame_headroom c, umem_flags = umem_flags c\<rparr>)"

definition xsk_set_xdp_socket_config :: "xsk_socket_config option \<Rightarrow> int + xsk_socket_config" where
  "xsk_set_xdp_socket_config usr_cfg =
     (case usr_cfg of
        None \<Rightarrow> Inr \<lparr>rx_size = 2048, tx_size = 2048, libbpf_flags = 0, xdp_flags = 0, bind_flags = 0\<rparr>
      | Some c \<Rightarrow>
          if libbpf_flags c AND NOT XSK_LIBBPF_FLAGS__INHIBIT_PROG_LOAD \<noteq> 0 then Inl (- EINVAL)
          else Inr \<lparr>rx_size = rx_size c, tx_size = tx_size c, libbpf_flags = libbpf_flags c,
                    xdp_flags = xdp_flags c, bind_flags = bind_flags c\<rparr>)"

text \<open>The 12 words of the layout of kernels up to 5.3 (producer, consumer, desc of rx, tx, fill and
  completion ring), which lie at the start of the buffer that \<^verbatim>\<open>getsockopt\<close> filled.\<close>

definition ring_offset_v1 :: "u64 list \<Rightarrow> nat \<Rightarrow> xdp_ring_offset" where
  "ring_offset_v1 w i =
     \<lparr>off_producer = w ! (3 * i), off_consumer = w ! (3 * i + 1), off_desc = w ! (3 * i + 2),
      off_flags = w ! (3 * i + 1) + 4\<rparr>"

definition xsk_mmap_offsets_v1 :: "u64 list \<Rightarrow> xdp_mmap_offsets" where
  "xsk_mmap_offsets_v1 w =
     \<lparr>off_rx = ring_offset_v1 w 0, off_tx = ring_offset_v1 w 1, off_fr = ring_offset_v1 w 2,
      off_cr = ring_offset_v1 w 3\<rparr>"

definition ring_offset_v2 :: "u64 list \<Rightarrow> nat \<Rightarrow> xdp_ring_offset" where
  "ring_offset_v2 w i =
     \<lparr>off_producer = w ! (4 * i), off_consumer = w ! (4 * i + 1), off_desc = w ! (4 * i + 2),
      off_flags = w ! (4 * i + 3)\<rparr>"

definition mmap_offsets_v2 :: "u64 list \<Rightarrow> xdp_mmap_offsets" where
  "mmap_offsets_v2 w =
     \<lparr>off_rx = ring_offset_v2 w 0, off_tx = ring_offset_v2 w 1, off_fr = ring_offset_v2 w 2,
      off_cr = ring_offset_v2 w 3\<rparr>"

subsection \<open>The operating system and its effects\<close>

datatype effect =
  Alloc | Free
| Open int | Close int
| Mmap u64 u64 | Munmap u64 u64
| Link_xdp int int
| Map_update int u32 int | Map_delete int u32

datatype sockopt = XDP_RX_RING | XDP_TX_RING | XDP_UMEM_REG | XDP_UMEM_FILL_RING
  | XDP_UMEM_COMPLETION_RING

datatype pgoff = XDP_PGOFF_RX_RING | XDP_PGOFF_TX_RING | XDP_UMEM_PGOFF_FILL_RING
  | XDP_UMEM_PGOFF_COMPLETION_RING

record os =
  stale_errno :: int
  pagesize :: u64
  calloc_ok :: bool
  new_socket :: "int"  \<comment> \<open>a descriptor, or minus the errno\<close>
  setsockopt :: "sockopt \<Rightarrow> int"
  getsockopt_offsets :: "int + nat \<times> u64 list"  \<comment> \<open>errno, or optlen and the words of the buffer\<close>
  mmap :: "pgoff \<Rightarrow> int + u64"
  addr_ring :: "pgoff \<Rightarrow> u32 \<times> u32 \<times> u32 \<times> u64 list"
  desc_ring :: "pgoff \<Rightarrow> u32 \<times> u32 \<times> u32 \<times> xdp_desc list"
  if_nametoindex :: "string \<Rightarrow> int + int"  \<comment> \<open>errno, or the index (from 1 on)\<close>
  bind_sock :: "int \<Rightarrow> u32 \<Rightarrow> u16 \<Rightarrow> int"
  link_xdp_id :: "int \<times> u32"  \<comment> \<open>the result of the query and the id of the attached program\<close>
  dgram_socket :: int
  ethtool_channels :: "int + u32"  \<comment> \<open>errno, or \<^verbatim>\<open>max_combined\<close>\<close>
  create_xskmap :: "u32 \<Rightarrow> int"
  load_program :: int
  set_link_xdp_fd :: int
  prog_get_fd_by_id :: "u32 \<Rightarrow> int + int"  \<comment> \<open>errno, or a descriptor\<close>
  prog_info :: int
  calloc_ids_ok :: bool
  prog_map_ids :: "int \<times> u32 list"  \<comment> \<open>the result of the second query and the ids\<close>
  map_get_fd_by_id :: "u32 \<Rightarrow> int"
  map_info_name :: "int \<Rightarrow> string option"
  map_update_elem :: "int \<Rightarrow> u32 \<Rightarrow> int \<Rightarrow> int"

abbreviation (input) sizeof_mmap_offsets :: nat where "sizeof_mmap_offsets \<equiv> 128"
abbreviation (input) sizeof_mmap_offsets_v1 :: nat where "sizeof_mmap_offsets_v1 \<equiv> 96"

text \<open>\<^verbatim>\<open>-1\<close> is \<^verbatim>\<open>getsockopt\<close>'s own failure value; the second component is
  \<^verbatim>\<open>errno\<close> afterwards.\<close>

definition xsk_get_mmap_offsets :: "os \<Rightarrow> int \<times> int \<times> xdp_mmap_offsets option" where
  "xsk_get_mmap_offsets sys =
     (case getsockopt_offsets sys of
        Inl e \<Rightarrow> (-1, e, None)
      | Inr (optlen, w) \<Rightarrow>
          if optlen = sizeof_mmap_offsets then (0, stale_errno sys, Some (mmap_offsets_v2 w))
          else if optlen = sizeof_mmap_offsets_v1 then (0, stale_errno sys, Some (xsk_mmap_offsets_v1 w))
          else (- EINVAL, stale_errno sys, None))"

subsection \<open>UMEM creation\<close>

text \<open>\<open>u_fill_ring\<close> and \<open>u_comp_ring\<close> are the pointers \<^verbatim>\<open>umem->fill->ring\<close> and
  \<^verbatim>\<open>umem->comp->ring\<close> into the mappings.\<close>

record xsk_umem =
  u_config :: xsk_umem_config
  u_area :: u64
  u_fill_ring :: u64
  u_comp_ring :: u64
  u_fd :: int
  refcount :: int

definition map_ring ::
  "u32 \<Rightarrow> u32 \<times> u32 \<times> u32 \<times> 'd list \<Rightarrow> 'd xsk_ring \<Rightarrow> 'd xsk_ring" where
  "map_ring sz k r =
     (let (p, c, f, ds) = k in
      r\<lparr>mask_of := sz - 1, size_of := sz, producer := p, consumer := c, flags := f, ring := ds\<rparr>)"

definition xsk_umem__create_v0_0_4 ::
  "os \<Rightarrow> u64 \<Rightarrow> bool \<Rightarrow> u64 \<Rightarrow> u64 xsk_ring option \<Rightarrow> u64 xsk_ring option \<Rightarrow> xsk_umem_config option \<Rightarrow>
   int \<times> (xsk_umem \<times> u64 xsk_ring \<times> u64 xsk_ring) option \<times> effect list" where
  "xsk_umem__create_v0_0_4 sys umem_area umem_ptr sz fill comp' usr_config =
     (case (fill, comp') of
        (Some fill, Some comp') \<Rightarrow>
          if umem_area = 0 \<or> \<not> umem_ptr then (- EFAULT, None, [])
          else if sz = 0 \<and> \<not> xsk_page_aligned (pagesize sys) umem_area then (- EINVAL, None, [])
          else if \<not> calloc_ok sys then (- ENOMEM, None, [])
          else if new_socket sys < 0 then (new_socket sys, None, [Alloc, Free])
          else
            let fd = new_socket sys;
                cfg = xsk_set_umem_config usr_config;
                out_socket = (\<lambda>err fx. (err, None, Alloc # Open fd # fx @ [Close fd, Free]))
            in
            if setsockopt sys XDP_UMEM_REG \<noteq> 0 then out_socket (- setsockopt sys XDP_UMEM_REG) []
            else if setsockopt sys XDP_UMEM_FILL_RING \<noteq> 0
              then out_socket (- setsockopt sys XDP_UMEM_FILL_RING) []
            else if setsockopt sys XDP_UMEM_COMPLETION_RING \<noteq> 0
              then out_socket (- setsockopt sys XDP_UMEM_COMPLETION_RING) []
            else
              (case xsk_get_mmap_offsets sys of
                 (err, errno, None) \<Rightarrow> out_socket (- errno) []
               | (err, errno, Some off) \<Rightarrow>
                   let fill_len = off_desc (off_fr off) + ucast (fill_size cfg) * 8;
                       comp_len = off_desc (off_cr off) + ucast (comp_size cfg) * 8
                   in
                   (case mmap sys XDP_UMEM_PGOFF_FILL_RING of
                      Inl e \<Rightarrow> out_socket (- e) []
                    | Inr fmap \<Rightarrow>
                        let fill = map_ring (fill_size cfg) (addr_ring sys XDP_UMEM_PGOFF_FILL_RING) fill
                                     \<lparr>cached_cons := fill_size cfg\<rparr>
                        in
                        (case mmap sys XDP_UMEM_PGOFF_COMPLETION_RING of
                           Inl e \<Rightarrow> out_socket (- e) [Mmap fmap fill_len, Munmap MAP_FAILED fill_len]
                         | Inr cmap \<Rightarrow>
                             let comp' = map_ring (comp_size cfg)
                                           (addr_ring sys XDP_UMEM_PGOFF_COMPLETION_RING) comp'
                             in (0, Some (\<lparr>u_config = cfg, u_area = umem_area,
                                            u_fill_ring = fmap + off_desc (off_fr off),
                                            u_comp_ring = cmap + off_desc (off_cr off),
                                            u_fd = fd, refcount = 0\<rparr>,
                                          fill, comp'),
                                 [Alloc, Open fd, Mmap fmap fill_len, Mmap cmap comp_len]))))
      | _ \<Rightarrow> (- EFAULT, None, []))"

text \<open>The compatibility entry point for programs built against version 0.0.2, whose configuration has
  no flags field.\<close>

definition xsk_umem__create_v0_0_2 ::
  "os \<Rightarrow> u64 \<Rightarrow> bool \<Rightarrow> u64 \<Rightarrow> u64 xsk_ring option \<Rightarrow> u64 xsk_ring option \<Rightarrow> xsk_umem_config \<Rightarrow>
   int \<times> (xsk_umem \<times> u64 xsk_ring \<times> u64 xsk_ring) option \<times> effect list" where
  "xsk_umem__create_v0_0_2 sys umem_area umem_ptr sz fill comp' usr_config =
     xsk_umem__create_v0_0_4 sys umem_area umem_ptr sz fill comp' (Some (usr_config\<lparr>umem_flags := 0\<rparr>))"

subsection \<open>The XDP program that feeds the socket\<close>

text \<open>\<open>has_rx\<close> and \<open>has_tx\<close> say whether the pointers \<^verbatim>\<open>xsk->rx\<close> and
  \<^verbatim>\<open>xsk->tx\<close> are set; \<open>s_rx_ring\<close> and \<open>s_tx_ring\<close> are the pointers
  \<^verbatim>\<open>xsk->rx->ring\<close> and \<^verbatim>\<open>xsk->tx->ring\<close>.\<close>

record xsk_socket =
  s_config :: xsk_socket_config
  s_fd :: int
  s_ifindex :: int
  s_prog_fd :: int
  s_xsks_map_fd :: int
  s_queue_id :: u32
  s_ifname :: string
  has_rx :: bool
  has_tx :: bool
  s_rx_ring :: u64
  s_tx_ring :: u64

definition xsk_load_xdp_prog :: "os \<Rightarrow> xsk_socket \<Rightarrow> int \<times> xsk_socket \<times> effect list" where
  "xsk_load_xdp_prog sys xsk =
     (let prog_fd = load_program sys in
      if prog_fd < 0 then (prog_fd, xsk, [])
      else if set_link_xdp_fd sys \<noteq> 0 then (set_link_xdp_fd sys, xsk, [Open prog_fd, Close prog_fd])
      else (0, xsk\<lparr>s_prog_fd := prog_fd\<rparr>, [Open prog_fd, Link_xdp (s_ifindex xsk) prog_fd]))"

text \<open>The result is an \<^verbatim>\<open>int\<close>: \<^verbatim>\<open>max_combined\<close> is converted.\<close>

definition xsk_get_max_queues :: "os \<Rightarrow> int \<times> effect list" where
  "xsk_get_max_queues sys =
     (let fd = dgram_socket sys in
      if fd < 0 then (fd, [])
      else
        let ret = (case ethtool_channels sys of
                     Inl e \<Rightarrow> if e \<noteq> EOPNOTSUPP then - e else 1
                   | Inr n \<Rightarrow> if n = 0 then 1 else sint n)
        in (ret, [Open fd, Close fd]))"

definition xsk_create_bpf_maps :: "os \<Rightarrow> xsk_socket \<Rightarrow> int \<times> xsk_socket \<times> effect list" where
  "xsk_create_bpf_maps sys xsk =
     (let (max_queues, fx) = xsk_get_max_queues sys in
      if max_queues < 0 then (max_queues, xsk, fx)
      else
        let fd = create_xskmap sys (of_int max_queues) in
        if fd < 0 then (fd, xsk, fx)
        else (0, xsk\<lparr>s_xsks_map_fd := fd\<rparr>, fx @ [Open fd]))"

definition xsk_delete_bpf_maps :: "xsk_socket \<Rightarrow> effect list" where
  "xsk_delete_bpf_maps xsk =
     [Map_delete (s_xsks_map_fd xsk) (s_queue_id xsk), Close (s_xsks_map_fd xsk)]"

primrec lookup_maps :: "os \<Rightarrow> u32 list \<Rightarrow> int \<Rightarrow> int \<times> effect list" where
  "lookup_maps sys [] map_fd = (map_fd, [])"
| "lookup_maps sys (i # ids) map_fd =
     (let fd = map_get_fd_by_id sys i in
      if fd < 0 then lookup_maps sys ids map_fd
      else
        (case map_info_name sys fd of
           None \<Rightarrow> let (m, fx) = lookup_maps sys ids map_fd in (m, Open fd # Close fd # fx)
         | Some nm \<Rightarrow>
             if nm = ''xsks_map''
             then let (m, fx) = lookup_maps sys ids fd in (m, Open fd # fx)
             else let (m, fx) = lookup_maps sys ids map_fd in (m, Open fd # Close fd # fx)))"

definition xsk_lookup_bpf_maps :: "os \<Rightarrow> xsk_socket \<Rightarrow> int \<times> xsk_socket \<times> effect list" where
  "xsk_lookup_bpf_maps sys xsk =
     (if prog_info sys \<noteq> 0 then (prog_info sys, xsk, [])
      else if \<not> calloc_ids_ok sys then (- ENOMEM, xsk, [])
      else
        (case prog_map_ids sys of
           (err, ids) \<Rightarrow>
             if err \<noteq> 0 then (err, xsk, [Alloc, Free])
             else
             let (map_fd, fx) = lookup_maps sys ids (-1)
             in (if map_fd = -1 then - ENOENT else 0, xsk\<lparr>s_xsks_map_fd := map_fd\<rparr>,
                 Alloc # fx @ [Free])))"

definition xsk_set_bpf_maps :: "os \<Rightarrow> xsk_socket \<Rightarrow> int \<times> effect list" where
  "xsk_set_bpf_maps sys xsk =
     (let err = map_update_elem sys (s_xsks_map_fd xsk) (s_queue_id xsk) (s_fd xsk)
      in (err, if err = 0 then [Map_update (s_xsks_map_fd xsk) (s_queue_id xsk) (s_fd xsk)] else []))"

text \<open>The end of \<^verbatim>\<open>xsk_setup_xdp_prog\<close>, common to both ways of getting a program.\<close>

definition setup_maps :: "os \<Rightarrow> xsk_socket \<Rightarrow> effect list \<Rightarrow> int \<times> xsk_socket \<times> effect list" where
  "setup_maps sys xsk fx =
     (let (err, fx2) = (if has_rx xsk then xsk_set_bpf_maps sys xsk else (0, []))
      in if err \<noteq> 0
         then (err, xsk, fx @ fx2 @ xsk_delete_bpf_maps xsk @ [Close (s_prog_fd xsk)])
         else (0, xsk, fx @ fx2))"

definition xsk_setup_xdp_prog :: "os \<Rightarrow> xsk_socket \<Rightarrow> int \<times> xsk_socket \<times> effect list" where
  "xsk_setup_xdp_prog sys xsk =
     (case link_xdp_id sys of
        (err, prog_id) \<Rightarrow>
          if err \<noteq> 0 then (err, xsk, [])
          else if prog_id = 0
          then
            (case xsk_create_bpf_maps sys xsk of
               (err, xsk, fx) \<Rightarrow>
                 if err \<noteq> 0 then (err, xsk, fx)
                 else
                   (case xsk_load_xdp_prog sys xsk of
                      (err, xsk, fx2) \<Rightarrow>
                        if err \<noteq> 0 then (err, xsk, fx @ fx2 @ xsk_delete_bpf_maps xsk)
                        else setup_maps sys xsk (fx @ fx2)))
          else
            (case prog_get_fd_by_id sys prog_id of
               Inl e \<Rightarrow> (- e, xsk\<lparr>s_prog_fd := -1\<rparr>, [])
             | Inr fd \<Rightarrow>
                 (case xsk_lookup_bpf_maps sys (xsk\<lparr>s_prog_fd := fd\<rparr>) of
                    (err, xsk, fx) \<Rightarrow>
                      if err \<noteq> 0 then (err, xsk, Open fd # fx @ [Close fd])
                      else setup_maps sys xsk (Open fd # fx))))"

subsection \<open>Socket creation\<close>

abbreviation (input) sizeof_xdp_desc :: u64 where "sizeof_xdp_desc \<equiv> 16"

text \<open>\<^verbatim>\<open>IFNAMSIZ - 1\<close> characters of the name are kept.\<close>

abbreviation (input) IFNAMSIZ :: nat where "IFNAMSIZ \<equiv> 16"

definition new_xsk ::
  "xsk_socket_config \<Rightarrow> int \<Rightarrow> int \<Rightarrow> u32 \<Rightarrow> string \<Rightarrow> bool \<Rightarrow> bool \<Rightarrow> u64 \<Rightarrow> u64 \<Rightarrow>
   xdp_mmap_offsets \<Rightarrow> xsk_socket" where
  "new_xsk cfg fd ifindex queue_id ifname rx tx rx_map tx_map off =
     \<lparr>s_config = cfg, s_fd = fd, s_ifindex = ifindex, s_prog_fd = 0, s_xsks_map_fd = 0,
      s_queue_id = queue_id, s_ifname = take (IFNAMSIZ - 1) ifname, has_rx = rx, has_tx = tx,
      s_rx_ring = rx_map + off_desc (off_rx off), s_tx_ring = tx_map + off_desc (off_tx off)\<rparr>"

text \<open>The part of \<^verbatim>\<open>xsk_socket__create\<close> after the rings are mapped: binding, and setting
  up the XDP program unless the caller inhibits it. \<open>undo\<close> are the effects of
  \<^verbatim>\<open>out_mmap_tx\<close> and what follows it.\<close>

definition socket_bind ::
  "os \<Rightarrow> xsk_umem \<Rightarrow> xsk_socket \<Rightarrow> effect list \<Rightarrow> int \<times> xsk_socket option \<times> effect list" where
  "socket_bind sys umem xsk undo =
     (let sxdp_flags = (if refcount umem > 1 then XDP_SHARED_UMEM else bind_flags (s_config xsk));
          err = bind_sock sys (s_ifindex xsk) (s_queue_id xsk) sxdp_flags
      in if err \<noteq> 0 then (- err, None, undo)
         else
           let xsk = xsk\<lparr>s_prog_fd := -1\<rparr> in
           if libbpf_flags (s_config xsk) AND XSK_LIBBPF_FLAGS__INHIBIT_PROG_LOAD = 0
           then (case xsk_setup_xdp_prog sys xsk of
                   (err, xsk, fx) \<Rightarrow>
                     if err \<noteq> 0 then (err, None, fx @ undo) else (0, Some xsk, fx))
           else (0, Some xsk, []))"

text \<open>The result: the returned error, the UMEM with its new reference count, the socket and its two
  rings, and the effects. \<open>create_socket\<close> is the function after its check for NULL pointers;
  \<open>xsk_ptr\<close> tells whether the address for the result is not NULL. A NULL interface name is passed
  on to \<^verbatim>\<open>if_nametoindex\<close>, which reads it: the result is then \<^term>\<open>None\<close>.\<close>

definition create_socket ::
  "os \<Rightarrow> string option \<Rightarrow> u32 \<Rightarrow> xsk_umem \<Rightarrow> xdp_desc xsk_ring option \<Rightarrow> xdp_desc xsk_ring option \<Rightarrow>
   xsk_socket_config option \<Rightarrow>
   (int \<times> xsk_umem \<times> (xsk_socket \<times> xdp_desc xsk_ring option \<times> xdp_desc xsk_ring option) option
     \<times> effect list) option" where
  "create_socket sys ifname queue_id umem rx tx usr_config =
     (if \<not> calloc_ok sys then Some (- ENOMEM, umem, None, [])
      else
        (case xsk_set_xdp_socket_config usr_config of
           Inl err \<Rightarrow> Some (err, umem, None, [Alloc, Free])
         | Inr cfg \<Rightarrow>
             if refcount umem \<noteq> 0 \<and> libbpf_flags cfg AND XSK_LIBBPF_FLAGS__INHIBIT_PROG_LOAD = 0
             then Some (- EBUSY, umem, None, [Alloc, Free])
             else
               let shared = refcount umem > 0; umem' = umem\<lparr>refcount := refcount umem + 1\<rparr> in
               if shared \<and> new_socket sys < 0 then Some (new_socket sys, umem', None, [Alloc, Free])
               else
                 let fd = (if shared then new_socket sys else u_fd umem);
                     opn = (if shared then [Open fd] else []);
                     back = umem'\<lparr>refcount := refcount umem' - 1\<rparr>;
                     out_socket = (if refcount back \<noteq> 0 then [Close fd] else []) @ [Free];
                     failed = (\<lambda>err fx. Some (err, back, None, Alloc # opn @ fx @ out_socket))
                 in
                 case ifname of None \<Rightarrow> None | Some ifname \<Rightarrow>
                 case if_nametoindex sys ifname of Inl e \<Rightarrow> failed (- e) [] | Inr ifindex \<Rightarrow>
                 if rx \<noteq> None \<and> setsockopt sys XDP_RX_RING \<noteq> 0
                   then failed (- setsockopt sys XDP_RX_RING) []
                 else if tx \<noteq> None \<and> setsockopt sys XDP_TX_RING \<noteq> 0
                   then failed (- setsockopt sys XDP_TX_RING) []
                 else
                   (case xsk_get_mmap_offsets sys of
                      (err, errno, None) \<Rightarrow> failed (- errno) []
                    | (err, errno, Some off) \<Rightarrow>
                        let rx_len = off_desc (off_rx off) + ucast (rx_size cfg) * sizeof_xdp_desc;
                            tx_len = off_desc (off_tx off) + ucast (tx_size cfg) * sizeof_xdp_desc
                        in
                        (case (if rx = None then Inr 0 else mmap sys XDP_PGOFF_RX_RING) of
                           Inl e \<Rightarrow> failed (- e) []
                         | Inr rx_map \<Rightarrow>
                             let rx' = map_option (map_ring (rx_size cfg) (desc_ring sys XDP_PGOFF_RX_RING)) rx;
                                 m_rx = (if rx = None then [] else [Mmap rx_map rx_len]);
                                 u_rx = (if rx = None then [] else [Munmap rx_map rx_len])
                             in
                             (case (if tx = None then Inr 0 else mmap sys XDP_PGOFF_TX_RING) of
                                Inl e \<Rightarrow> failed (- e) (m_rx @ u_rx)
                              | Inr tx_map \<Rightarrow>
                                  let tx' = map_option (\<lambda>r. map_ring (tx_size cfg)
                                              (desc_ring sys XDP_PGOFF_TX_RING) r
                                              \<lparr>cached_cons := tx_size cfg\<rparr>) tx;
                                      m_tx = (if tx = None then [] else [Mmap tx_map tx_len]);
                                      u_tx = (if tx = None then [] else [Munmap tx_map tx_len]);
                                      xsk = new_xsk cfg fd ifindex queue_id ifname
                                              (rx \<noteq> None) (tx \<noteq> None) rx_map tx_map off
                                  in
                                  (case socket_bind sys umem' xsk (u_tx @ u_rx) of
                                     (err, None, fx) \<Rightarrow> failed err (m_rx @ m_tx @ fx)
                                   | (err, Some xsk, fx) \<Rightarrow>
                                       Some (0, umem', Some (xsk, rx', tx'),
                                             Alloc # opn @ m_rx @ m_tx @ fx)))))))"

definition xsk_socket__create ::
  "os \<Rightarrow> bool \<Rightarrow> string option \<Rightarrow> u32 \<Rightarrow> xsk_umem option \<Rightarrow> xdp_desc xsk_ring option \<Rightarrow>
   xdp_desc xsk_ring option \<Rightarrow> xsk_socket_config option \<Rightarrow>
   (int \<times> xsk_umem option \<times> (xsk_socket \<times> xdp_desc xsk_ring option \<times> xdp_desc xsk_ring option) option
     \<times> effect list) option" where
  "xsk_socket__create sys xsk_ptr ifname queue_id umem rx tx usr_config =
     (case umem of
        None \<Rightarrow> Some (- EFAULT, umem, None, [])
      | Some u \<Rightarrow>
          if \<not> xsk_ptr \<or> (rx = None \<and> tx = None) then Some (- EFAULT, umem, None, [])
          else
            map_option (\<lambda>(err, u', sk, fx). (err, Some u', sk, fx))
              (create_socket sys ifname queue_id u rx tx usr_config))"

subsection \<open>Deletion\<close>

definition xsk_umem__delete :: "os \<Rightarrow> xsk_umem option \<Rightarrow> int \<times> effect list" where
  "xsk_umem__delete sys umem =
     (case umem of
        None \<Rightarrow> (0, [])
      | Some u \<Rightarrow>
          if refcount u \<noteq> 0 then (- EBUSY, [])
          else
            let unmap =
              (case xsk_get_mmap_offsets sys of
                 (err, errno, None) \<Rightarrow> []
               | (err, errno, Some off) \<Rightarrow>
                   [Munmap (u_fill_ring u - off_desc (off_fr off))
                      (off_desc (off_fr off) + ucast (fill_size (u_config u)) * 8),
                    Munmap (u_comp_ring u - off_desc (off_cr off))
                      (off_desc (off_cr off) + ucast (comp_size (u_config u)) * 8)])
            in (0, unmap @ [Close (u_fd u), Free]))"

definition xsk_socket__delete :: "os \<Rightarrow> xsk_umem \<Rightarrow> xsk_socket option \<Rightarrow> xsk_umem \<times> effect list" where
  "xsk_socket__delete sys umem xsk =
     (case xsk of
        None \<Rightarrow> (umem, [])
      | Some x \<Rightarrow>
          let prog = (if s_prog_fd x \<noteq> -1 then xsk_delete_bpf_maps x @ [Close (s_prog_fd x)] else []);
              unmap =
                (case xsk_get_mmap_offsets sys of
                   (err, errno, None) \<Rightarrow> []
                 | (err, errno, Some off) \<Rightarrow>
                     (if has_rx x
                      then [Munmap (s_rx_ring x - off_desc (off_rx off))
                              (off_desc (off_rx off) + ucast (rx_size (s_config x)) * sizeof_xdp_desc)]
                      else []) @
                     (if has_tx x
                      then [Munmap (s_tx_ring x - off_desc (off_tx off))
                              (off_desc (off_tx off) + ucast (tx_size (s_config x)) * sizeof_xdp_desc)]
                      else []))
          in (umem\<lparr>refcount := refcount umem - 1\<rparr>,
              prog @ unmap @ (if s_fd x \<noteq> u_fd umem then [Close (s_fd x)] else []) @ [Free]))"

subsection \<open>Accounting of effects\<close>

definition opened :: "effect list \<Rightarrow> int list" where
  "opened fx = concat (map (\<lambda>e. case e of Open fd \<Rightarrow> [fd] | _ \<Rightarrow> []) fx)"

definition closed :: "effect list \<Rightarrow> int list" where
  "closed fx = concat (map (\<lambda>e. case e of Close fd \<Rightarrow> [fd] | _ \<Rightarrow> []) fx)"

definition mapped :: "effect list \<Rightarrow> (u64 \<times> u64) list" where
  "mapped fx = concat (map (\<lambda>e. case e of Mmap a l \<Rightarrow> [(a, l)] | _ \<Rightarrow> []) fx)"

definition unmapped :: "effect list \<Rightarrow> (u64 \<times> u64) list" where
  "unmapped fx = concat (map (\<lambda>e. case e of Munmap a l \<Rightarrow> [(a, l)] | _ \<Rightarrow> []) fx)"

definition blocks :: "effect list \<Rightarrow> int" where
  "blocks fx = sum_list (map (\<lambda>e. case e of Alloc \<Rightarrow> 1 | Free \<Rightarrow> -1 | _ \<Rightarrow> 0) fx)"

text \<open>The XDP programs that were attached, with their interface.\<close>

definition attached :: "effect list \<Rightarrow> (int \<times> int) list" where
  "attached fx = concat (map (\<lambda>e. case e of Link_xdp i fd \<Rightarrow> [(i, fd)] | _ \<Rightarrow> []) fx)"

lemma attached_simps [simp]:
  "attached (a @ b) = attached a @ attached b" "attached [] = []"
  "attached (e # fx) = (case e of Link_xdp i fd \<Rightarrow> [(i, fd)] | _ \<Rightarrow> []) @ attached fx"
  by (simp_all add: attached_def)

text \<open>Descriptors, mappings and memory blocks are given back. Attached programs are not counted here:
  nothing in the library detaches one.\<close>

definition balanced :: "effect list \<Rightarrow> bool" where
  "balanced fx \<longleftrightarrow> mset (opened fx) = mset (closed fx) \<and> mset (mapped fx) = mset (unmapped fx)
     \<and> blocks fx = 0"

lemmas effect_defs = opened_def closed_def mapped_def unmapped_def blocks_def

lemma effect_simps [simp]:
  "opened (a @ b) = opened a @ opened b" "closed (a @ b) = closed a @ closed b"
  "mapped (a @ b) = mapped a @ mapped b" "unmapped (a @ b) = unmapped a @ unmapped b"
  "blocks (a @ b) = blocks a + blocks b"
  "opened [] = []" "closed [] = []" "mapped [] = []" "unmapped [] = []" "blocks [] = 0"
  "opened (e # fx) = (case e of Open fd \<Rightarrow> [fd] | _ \<Rightarrow> []) @ opened fx"
  "closed (e # fx) = (case e of Close fd \<Rightarrow> [fd] | _ \<Rightarrow> []) @ closed fx"
  "mapped (e # fx) = (case e of Mmap a l \<Rightarrow> [(a, l)] | _ \<Rightarrow> []) @ mapped fx"
  "unmapped (e # fx) = (case e of Munmap a l \<Rightarrow> [(a, l)] | _ \<Rightarrow> []) @ unmapped fx"
  "blocks (e # fx) = (case e of Alloc \<Rightarrow> 1 | Free \<Rightarrow> -1 | _ \<Rightarrow> 0) + blocks fx"
  by (simp_all add: effect_defs)

text \<open>A failed creation of a UMEM gives everything back, unless it failed on mapping the completion
  ring: then the mapping of the fill ring is left behind.\<close>

lemma umem_create_failed:
  assumes "xsk_umem__create_v0_0_4 sys area uptr sz fill comp' cfg = (err, None, fx)"
    and "\<forall>a. mmap sys XDP_UMEM_PGOFF_FILL_RING = Inr a \<longrightarrow> a \<noteq> MAP_FAILED"
  shows "balanced fx \<longleftrightarrow> mapped fx = []"
  using assms
  by (auto simp: xsk_umem__create_v0_0_4_def balanced_def Let_def split: option.splits if_splits prod.splits sum.splits)

lemma umem_create_delete:
  assumes "xsk_umem__create_v0_0_4 sys area uptr sz fill comp' cfg = (err, Some (u, f, c), fx)"
  shows "xsk_umem__delete sys (Some u) = (0, snd (xsk_umem__delete sys (Some u)))"
    and "balanced (fx @ snd (xsk_umem__delete sys (Some u)))"
  using assms
  by (auto simp: xsk_umem__create_v0_0_4_def xsk_umem__delete_def balanced_def Let_def
      split: option.splits if_splits prod.splits sum.splits)

text \<open>The rings of a new UMEM are empty rings of the requested size, if the kernel hands out zeroed
  rings of that size.\<close>

definition fresh_ring :: "u32 \<Rightarrow> u32 \<times> u32 \<times> u32 \<times> 'd list \<Rightarrow> bool" where
  "fresh_ring sz k \<longleftrightarrow> fst k = 0 \<and> fst (snd k) = 0 \<and> length (snd (snd (snd k))) = unat sz"

definition ring_size_ok :: "u32 \<Rightarrow> bool" where
  "ring_size_ok sz \<longleftrightarrow> sz \<in> set (map (\<lambda>k. 2 ^ k) [0..<31])"

lemma empty_lists:
  "producer r = 0 \<Longrightarrow> consumer r = 0 \<Longrightarrow> cached_prod r = 0 \<Longrightarrow> queue r = [] \<and> reserved r = []"
  "consumer r = 0 \<Longrightarrow> cached_cons r = 0 \<Longrightarrow> peeked r = []"
  by (simp_all add: queue_def reserved_def peeked_def entries_from_def)

lemma fresh_producer:
  assumes "ring_size_ok sz" and "fresh_ring sz k" and "cached_prod r = 0"
  shows "prod_inv (map_ring sz k r\<lparr>cached_cons := sz\<rparr>)"
    and "queue (map_ring sz k r\<lparr>cached_cons := sz\<rparr>) = []"
    and "reserved (map_ring sz k r\<lparr>cached_cons := sz\<rparr>) = []"
    and "size_of (map_ring sz k r\<lparr>cached_cons := sz\<rparr>) = sz"
  using assms
  by (auto simp: map_ring_def fresh_ring_def ring_size_ok_def prod_inv_def ring_ok_def
      empty_lists split: prod.splits)

lemma fresh_consumer:
  assumes "ring_size_ok sz" and "fresh_ring sz k" and "cached_prod r = 0" and "cached_cons r = 0"
  shows "cons_inv (map_ring sz k r)" and "queue (map_ring sz k r) = []"
    and "peeked (map_ring sz k r) = []" and "size_of (map_ring sz k r) = sz"
  using assms
  by (auto simp: map_ring_def fresh_ring_def ring_size_ok_def cons_inv_def ring_ok_def
      empty_lists split: prod.splits)

subsection \<open>Finding the map of an attached program\<close>

definition xsks_maps :: "os \<Rightarrow> u32 list \<Rightarrow> int list" where
  "xsks_maps sys ids =
     filter (\<lambda>fd. fd \<ge> 0 \<and> map_info_name sys fd = Some ''xsks_map'') (map (map_get_fd_by_id sys) ids)"

lemma xsks_maps_simps [simp]:
  "xsks_maps sys [] = []"
  "xsks_maps sys (i # ids) =
     (if map_get_fd_by_id sys i \<ge> 0 \<and> map_info_name sys (map_get_fd_by_id sys i) = Some ''xsks_map''
      then map_get_fd_by_id sys i # xsks_maps sys ids else xsks_maps sys ids)"
  by (simp_all add: xsks_maps_def)

text \<open>The scan returns the last matching map and keeps every matching one open.\<close>

lemma lookup_maps_result:
  "lookup_maps sys ids m = (m', fx) \<Longrightarrow>
   m' = last (m # xsks_maps sys ids) \<and> mset (opened fx) = mset (closed fx) + mset (xsks_maps sys ids)
   \<and> mapped fx = [] \<and> unmapped fx = [] \<and> blocks fx = 0"
proof (induction ids arbitrary: m m' fx)
  case Nil
  then show ?case by simp
next
  case (Cons i ids)
  let ?fd = "map_get_fd_by_id sys i"
  let ?m = "if ?fd \<ge> 0 \<and> map_info_name sys ?fd = Some ''xsks_map'' then ?fd else m"
  obtain m1 fx1 where r: "lookup_maps sys ids ?m = (m1, fx1)" by fastforce
  note IH = Cons.IH [OF r]
  have "m' = m1" "fx = (if ?fd < 0 then [] else if ?m = ?fd \<and> map_info_name sys ?fd = Some ''xsks_map''
      then [Open ?fd] else [Open ?fd, Close ?fd]) @ fx1"
    using Cons.prems r by (auto simp: Let_def split: if_splits option.splits prod.splits)
  with IH show ?case by auto
qed

lemma xsk_get_max_queues_balanced:
  "xsk_get_max_queues sys = (n, fx) \<Longrightarrow>
   opened fx = closed fx \<and> mapped fx = [] \<and> unmapped fx = [] \<and> blocks fx = 0"
  by (auto simp: xsk_get_max_queues_def Let_def split: if_splits)

text \<open>Setting up the XDP program changes descriptors only; if it fails, those it opened are closed
  again as long as the program has at most one map of that name.\<close>

lemma setup_maps_effects:
  assumes "setup_maps sys xsk fx = (err, xsk', fx')" and "mapped fx = []" "unmapped fx = []" "blocks fx = 0"
  shows "mapped fx' = []" and "unmapped fx' = []" and "blocks fx' = 0"
    and "err \<noteq> 0 \<Longrightarrow> opened fx' = opened fx \<and> closed fx' = closed fx @ [s_xsks_map_fd xsk, s_prog_fd xsk]"
    and "err = 0 \<Longrightarrow> opened fx' = opened fx \<and> closed fx' = closed fx \<and> xsk' = xsk"
  using assms
  by (auto simp: setup_maps_def xsk_set_bpf_maps_def xsk_delete_bpf_maps_def Let_def split: if_splits)


lemma xsk_lookup_bpf_maps_effects:
  assumes l: "xsk_lookup_bpf_maps sys xsk = (e, x, f)"
    and one: "length (xsks_maps sys (snd (prog_map_ids sys))) \<le> 1"
  shows "mapped f = []" and "unmapped f = []" and "blocks f = 0" and "s_prog_fd x = s_prog_fd xsk"
    and "e \<noteq> 0 \<Longrightarrow> mset (opened f) = mset (closed f)"
    and "e = 0 \<Longrightarrow> mset (opened f) = mset (s_xsks_map_fd x # closed f)"
proof -
  have "mapped f = [] \<and> unmapped f = [] \<and> blocks f = 0 \<and> s_prog_fd x = s_prog_fd xsk
    \<and> mset (opened f) = mset ((if e = 0 then [s_xsks_map_fd x] else []) @ closed f)"
  proof (cases "prog_info sys \<noteq> 0 \<or> \<not> calloc_ids_ok sys \<or> fst (prog_map_ids sys) \<noteq> 0")
    case True
    with l show ?thesis by (auto simp: xsk_lookup_bpf_maps_def split: if_splits prod.splits)
  next
    case False
    then obtain ids where ids: "prog_map_ids sys = (0, ids)" by (cases "prog_map_ids sys") auto
    obtain m fx where m: "lookup_maps sys ids (-1) = (m, fx)" by fastforce
    note R = lookup_maps_result [OF m]
    have x: "x = xsk\<lparr>s_xsks_map_fd := m\<rparr>" "f = Alloc # fx @ [Free]" "e = (if m = -1 then - 2 else 0)"
      using l False ids m by (auto simp: xsk_lookup_bpf_maps_def)
    have ge: "\<forall>fd \<in> set (xsks_maps sys ids). fd \<ge> 0" by (simp add: xsks_maps_def)
    from one ids consider "xsks_maps sys ids = []" | fd where "xsks_maps sys ids = [fd]"
      by (cases "xsks_maps sys ids") auto
    then show ?thesis using R x ge by cases auto
  qed
  then show "mapped f = []" and "unmapped f = []" and "blocks f = 0" and "s_prog_fd x = s_prog_fd xsk"
    and "e \<noteq> 0 \<Longrightarrow> mset (opened f) = mset (closed f)"
    and "e = 0 \<Longrightarrow> mset (opened f) = mset (s_xsks_map_fd x # closed f)"
    by simp_all
qed





lemma socket_create_refcount:
  assumes "create_socket sys ifname qid umem rx tx cfg = Some (err, umem', r, fx)"
  shows "r \<noteq> None \<Longrightarrow> err = 0 \<and> umem' = umem\<lparr>refcount := refcount umem + 1\<rparr>"
    and "r = None \<Longrightarrow> umem' = umem
      \<or> umem' = umem\<lparr>refcount := refcount umem + 1\<rparr> \<and> refcount umem > 0 \<and> new_socket sys < 0"
  using assms
  by (auto simp: create_socket_def Let_def split: option.splits if_splits prod.splits sum.splits)

text \<open>A call that yields a descriptor yields a non-negative one, or fails with a positive errno.\<close>

definition fd_calls_ok :: "os \<Rightarrow> bool" where
  "fd_calls_ok sys \<longleftrightarrow>
     (\<forall>p. case prog_get_fd_by_id sys p of Inl e \<Rightarrow> e > 0 | Inr fd \<Rightarrow> fd \<ge> 0)"

text \<open>A successful setup leaves exactly two descriptors open: the map's and the program's.\<close>

lemma setup_ok:
  assumes S: "xsk_setup_xdp_prog sys xsk = (0, xsk', fx)"
    and one: "length (xsks_maps sys (snd (prog_map_ids sys))) \<le> 1"
    and fds: "fd_calls_ok sys"
  shows "mset (opened fx) = mset (s_xsks_map_fd xsk' # s_prog_fd xsk' # closed fx) \<and> mapped fx = []
    \<and> unmapped fx = [] \<and> blocks fx = 0 \<and> s_prog_fd xsk' \<ge> 0"
proof -
  obtain p where p: "link_xdp_id sys = (0, p)"
    using S by (auto simp: xsk_setup_xdp_prog_def split: prod.splits if_splits)
  show ?thesis
  proof (cases "p = 0")
    case True
    obtain e1 x1 f1 where c: "xsk_create_bpf_maps sys xsk = (e1, x1, f1)" by (metis prod_cases3)
    obtain e2 x2 f2 where l: "xsk_load_xdp_prog sys x1 = (e2, x2, f2)" by (metis prod_cases3)
    obtain n f0 where q: "xsk_get_max_queues sys = (n, f0)" by fastforce
    have z: "e1 = 0" "e2 = 0" "setup_maps sys x2 (f1 @ f2) = (0, xsk', fx)"
      using S p True c l by (auto simp: xsk_setup_xdp_prog_def split: if_splits)
    have f1: "f1 = f0 @ [Open (s_xsks_map_fd x1)]"
      using c q z(1) by (auto simp: xsk_create_bpf_maps_def Let_def split: if_splits)
    have f2: "opened f2 = [s_prog_fd x2]" "closed f2 = []" "mapped f2 = []" "unmapped f2 = []"
        "blocks f2 = 0" "s_xsks_map_fd x2 = s_xsks_map_fd x1" "s_prog_fd x2 \<ge> 0"
      using l z(2) by (auto simp: xsk_load_xdp_prog_def Let_def split: if_splits)
    show ?thesis
      using setup_maps_effects [OF z(3)] f1 f2 xsk_get_max_queues_balanced [OF q] by auto
  next
    case False
    have "case prog_get_fd_by_id sys p of Inl e \<Rightarrow> e > 0 | Inr fd \<Rightarrow> fd \<ge> 0"
      using fds by (simp add: fd_calls_ok_def)
    with S p False obtain fd e1 x1 f1 where fd: "prog_get_fd_by_id sys p = Inr fd" "fd \<ge> 0"
      and l: "xsk_lookup_bpf_maps sys (xsk\<lparr>s_prog_fd := fd\<rparr>) = (e1, x1, f1)"
      and z: "e1 = 0" "setup_maps sys x1 (Open fd # f1) = (0, xsk', fx)"
      by (auto simp: xsk_setup_xdp_prog_def split: if_splits sum.splits prod.splits)
    show ?thesis
      using setup_maps_effects [OF z(2)] xsk_lookup_bpf_maps_effects [OF l one] z(1) fd by auto
  qed
qed

lemma setup_keeps:
  assumes "xsk_setup_xdp_prog sys xsk = (err, xsk', fx)"
  shows "\<exists>p m. xsk' = xsk\<lparr>s_prog_fd := p, s_xsks_map_fd := m\<rparr>"
proof -
  have "xsk' = xsk\<lparr>s_prog_fd := s_prog_fd xsk', s_xsks_map_fd := s_xsks_map_fd xsk'\<rparr>"
    using assms
    by (auto simp: xsk_setup_xdp_prog_def xsk_create_bpf_maps_def xsk_load_xdp_prog_def
        xsk_lookup_bpf_maps_def setup_maps_def Let_def split: if_splits sum.splits prod.splits)
  then show ?thesis by blast
qed

lemma socket_bind_ok:
  assumes B: "socket_bind sys umem xsk undo = (err, Some xsk', fx)"
    and one: "length (xsks_maps sys (snd (prog_map_ids sys))) \<le> 1" and fds: "fd_calls_ok sys"
  shows "mset (opened fx) = mset ((if s_prog_fd xsk' = -1 then [] else [s_xsks_map_fd xsk', s_prog_fd xsk']) @ closed fx)"
    and "mapped fx = []" and "unmapped fx = []" and "blocks fx = 0"
    and "\<exists>p m. xsk' = xsk\<lparr>s_prog_fd := p, s_xsks_map_fd := m\<rparr>"
proof -
  let ?x = "xsk\<lparr>s_prog_fd := -1\<rparr>"
  have "(xsk' = ?x \<and> fx = []) \<or> xsk_setup_xdp_prog sys ?x = (0, xsk', fx)"
    using B by (auto simp: socket_bind_def Let_def split: if_splits prod.splits)
  then have "mset (opened fx) = mset ((if s_prog_fd xsk' = -1 then [] else [s_xsks_map_fd xsk', s_prog_fd xsk']) @ closed fx)
    \<and> mapped fx = [] \<and> unmapped fx = [] \<and> blocks fx = 0
    \<and> (\<exists>p m. xsk' = xsk\<lparr>s_prog_fd := p, s_xsks_map_fd := m\<rparr>)"
  proof (elim disjE conjE)
    assume "xsk' = ?x" "fx = []"
    moreover have "\<exists>p m. xsk\<lparr>s_prog_fd := -1\<rparr> = xsk\<lparr>s_prog_fd := p, s_xsks_map_fd := m\<rparr>"
      by (intro exI [of _ "-1"] exI [of _ "s_xsks_map_fd xsk"]) simp
    ultimately show ?thesis by simp
  next
    assume S: "xsk_setup_xdp_prog sys ?x = (0, xsk', fx)"
    obtain p m where "xsk' = ?x\<lparr>s_prog_fd := p, s_xsks_map_fd := m\<rparr>"
      using setup_keeps [OF S] by blast
    then show ?thesis using setup_ok [OF S one fds] by auto
  qed
  then show "mset (opened fx) = mset ((if s_prog_fd xsk' = -1 then [] else [s_xsks_map_fd xsk', s_prog_fd xsk']) @ closed fx)"
    and "mapped fx = []" and "unmapped fx = []" and "blocks fx = 0"
    and "\<exists>p m. xsk' = xsk\<lparr>s_prog_fd := p, s_xsks_map_fd := m\<rparr>"
    by simp_all
qed

text \<open>What a successful creation has done.\<close>

lemma socket_create_success:
  assumes "create_socket sys ifname qid umem rx tx cfg = Some (err, umem', Some (xsk, rx', tx'), fx)"
  shows "\<exists>c e0 e1 off rm tm ifi undo err0 fx0.
    xsk_get_mmap_offsets sys = (e0, e1, Some off)
    \<and> socket_bind sys umem' (new_xsk c (if refcount umem > 0 then new_socket sys else u_fd umem) ifi
        qid (the ifname) (rx \<noteq> None) (tx \<noteq> None) rm tm off) undo = (err0, Some xsk, fx0)
    \<and> rx' = map_option (map_ring (rx_size c) (desc_ring sys XDP_PGOFF_RX_RING)) rx
    \<and> tx' = map_option (\<lambda>r. map_ring (tx_size c) (desc_ring sys XDP_PGOFF_TX_RING) r
          \<lparr>cached_cons := tx_size c\<rparr>) tx
    \<and> xsk_set_xdp_socket_config cfg = Inr c
    \<and> fx = Alloc # (if refcount umem > 0 then [Open (new_socket sys)] else [])
        @ (if rx = None then [] else [Mmap rm (off_desc (off_rx off) + ucast (rx_size c) * sizeof_xdp_desc)])
        @ (if tx = None then [] else [Mmap tm (off_desc (off_tx off) + ucast (tx_size c) * sizeof_xdp_desc)])
        @ fx0"
  using assms unfolding create_socket_def Let_def
  by (auto split: option.split_asm if_split_asm prod.split_asm sum.split_asm; blast)

lemma socket_create_delete:
  assumes C: "create_socket sys ifname qid umem rx tx cfg = Some (err, umem', Some (xsk, rx', tx'), fx)"
    and one: "length (xsks_maps sys (snd (prog_map_ids sys))) \<le> 1"
    and fds: "fd_calls_ok sys" and new: "refcount umem > 0 \<longrightarrow> new_socket sys \<noteq> u_fd umem"
  shows "fst (xsk_socket__delete sys umem' (Some xsk)) = umem"
    and "balanced (fx @ snd (xsk_socket__delete sys umem' (Some xsk)))"
proof -
  have u: "umem' = umem\<lparr>refcount := refcount umem + 1\<rparr>" using socket_create_refcount(1) [OF C] by simp
  then show "fst (xsk_socket__delete sys umem' (Some xsk)) = umem"
    by (simp add: xsk_socket__delete_def Let_def)
  obtain c e0 e1 off rm tm ifi undo err0 fx0 where
    off: "xsk_get_mmap_offsets sys = (e0, e1, Some off)"
    and B: "socket_bind sys umem' (new_xsk c (if refcount umem > 0 then new_socket sys else u_fd umem) ifi
        qid (the ifname) (rx \<noteq> None) (tx \<noteq> None) rm tm off) undo = (err0, Some xsk, fx0)"
    and fx: "fx = Alloc # (if refcount umem > 0 then [Open (new_socket sys)] else [])
        @ (if rx = None then [] else [Mmap rm (off_desc (off_rx off) + ucast (rx_size c) * sizeof_xdp_desc)])
        @ (if tx = None then [] else [Mmap tm (off_desc (off_tx off) + ucast (tx_size c) * sizeof_xdp_desc)])
        @ fx0"
    using socket_create_success [OF C] by blast
  note S = socket_bind_ok [OF B one fds]
  obtain p m where x: "xsk = (new_xsk c (if refcount umem > 0 then new_socket sys else u_fd umem) ifi
        qid (the ifname) (rx \<noteq> None) (tx \<noteq> None) rm tm off)\<lparr>s_prog_fd := p, s_xsks_map_fd := m\<rparr>"
    using S(5) by blast
  show "balanced (fx @ snd (xsk_socket__delete sys umem' (Some xsk)))"
    using S(1-4) new off u
    by (simp add: fx x balanced_def xsk_socket__delete_def xsk_delete_bpf_maps_def new_xsk_def Let_def)
qed

subsection \<open>Properties\<close>

text \<open>A system on which every call succeeds; the rings it hands out are zeroed.\<close>

definition good_os :: os where
  "good_os = \<lparr>stale_errno = 0, pagesize = 4096, calloc_ok = True, new_socket = 7, setsockopt = (\<lambda>_. 0),
     getsockopt_offsets = Inr (128, replicate 16 64), mmap = (\<lambda>_. Inr 4096),
     addr_ring = (\<lambda>_. (0, 0, 0, replicate 2048 0)),
     desc_ring = (\<lambda>_. (0, 0, 0, replicate 2048 \<lparr>addr = 0, len = 0, options = 0\<rparr>)),
     if_nametoindex = (\<lambda>_. Inr 2), bind_sock = (\<lambda>_ _ _. 0), link_xdp_id = (0, 0), dgram_socket = 8,
     ethtool_channels = Inr 4, create_xskmap = (\<lambda>_. 9), load_program = 10, set_link_xdp_fd = 0,
     prog_get_fd_by_id = (\<lambda>_. Inr 11), prog_info = 0, calloc_ids_ok = True, prog_map_ids = (0, [5]),
     map_get_fd_by_id = (\<lambda>_. 12), map_info_name = (\<lambda>_. Some ''xsks_map''),
     map_update_elem = (\<lambda>_ _ _. 0)\<rparr>"

definition blank_ring :: "'d xsk_ring" where
  "blank_ring = \<lparr>cached_prod = 0, cached_cons = 0, mask_of = 0, size_of = 0, producer = 0, consumer = 0,
     ring = [], flags = 0\<rparr>"

text \<open>Creating a UMEM and deleting it again gives back every resource: the memory block, the
  socket and both ring mappings, at the addresses and lengths they were mapped with.\<close>

theorem umem_create_delete_balanced:
  assumes "xsk_umem__create_v0_0_4 sys area uptr sz fill cmpl cfg = (err, Some (u, f, c), fx)"
  shows "fst (xsk_umem__delete sys (Some u)) = 0 \<and> balanced (fx @ snd (xsk_umem__delete sys (Some u)))"
  using umem_create_delete [OF assms] by (metis fst_conv)

lemma good_umem:
  "\<exists>u f c fx. xsk_umem__create_v0_0_4 good_os 4096 True 16777216 (Some blank_ring) (Some blank_ring) None
     = (0, Some (u, f, c), fx)"
  by (simp add: xsk_umem__create_v0_0_4_def xsk_get_mmap_offsets_def good_os_def Let_def)

theorem umem_create_delete_balanced_witness:
  "\<exists>u f c fx. xsk_umem__create_v0_0_4 good_os 4096 True 16777216 (Some blank_ring) (Some blank_ring) None
       = (0, Some (u, f, c), fx)
     \<and> fst (xsk_umem__delete good_os (Some u)) = 0 \<and> balanced (fx @ snd (xsk_umem__delete good_os (Some u)))"
proof -
  obtain u f c fx where C: "xsk_umem__create_v0_0_4 good_os 4096 True 16777216 (Some blank_ring)
      (Some blank_ring) None = (0, Some (u, f, c), fx)"
    using good_umem by blast
  from C umem_create_delete_balanced [OF C] show ?thesis by blast
qed

text \<open>A failed UMEM creation leaks something exactly when it got as far as mapping the fill ring
  and failed on the completion ring: the clean-up then unmaps the failed mapping instead of the fill
  ring.\<close>

theorem umem_create_failure_leak:
  assumes "xsk_umem__create_v0_0_4 sys area uptr sz fill cmpl cfg = (err, None, fx)"
    and "\<forall>a. mmap sys XDP_UMEM_PGOFF_FILL_RING = Inr a \<longrightarrow> a \<noteq> MAP_FAILED"
  shows "balanced fx \<longleftrightarrow> mapped fx = []"
  by (rule umem_create_failed [OF assms])

definition no_comp_os :: os where
  "no_comp_os = good_os\<lparr>mmap := (\<lambda>p. if p = XDP_UMEM_PGOFF_COMPLETION_RING then Inl ENOMEM else Inr 4096)\<rparr>"

theorem umem_create_failure_leak_witness:
  "\<exists>fx. xsk_umem__create_v0_0_4 no_comp_os 4096 True 16777216 (Some blank_ring) (Some blank_ring) None
      = (- ENOMEM, None, fx) \<and> \<not> balanced fx"
proof -
  obtain fx where C: "xsk_umem__create_v0_0_4 no_comp_os 4096 True 16777216 (Some blank_ring)
      (Some blank_ring) None = (- ENOMEM, None, fx)" and m: "mapped fx \<noteq> []"
    by (simp add: xsk_umem__create_v0_0_4_def xsk_get_mmap_offsets_def good_os_def no_comp_os_def Let_def)
  have "\<forall>a. mmap no_comp_os XDP_UMEM_PGOFF_FILL_RING = Inr a \<longrightarrow> a \<noteq> MAP_FAILED"
    by (simp add: no_comp_os_def)
  from umem_create_failure_leak [OF C this] m C show ?thesis by blast
qed

text \<open>If the kernel reports ring offsets of an unknown size while \<^verbatim>\<open>errno\<close> is 0, the
  creation of a UMEM reports success (0) although it has released everything and set no UMEM: the
  \<^verbatim>\<open>-EINVAL\<close> of \<^verbatim>\<open>xsk_get_mmap_offsets\<close> is replaced by
  \<^verbatim>\<open>-errno\<close>.\<close>

theorem umem_create_false_success:
  assumes "getsockopt_offsets sys = Inr (optlen, w)" and "optlen \<noteq> 128" and "optlen \<noteq> 96"
    and "stale_errno sys = 0" and "calloc_ok sys" and "new_socket sys \<ge> 0" and "\<forall>opt. setsockopt sys opt = 0"
    and "area \<noteq> 0" and "sz \<noteq> 0"
  shows "xsk_umem__create_v0_0_4 sys area True sz (Some fill) (Some cmpl) cfg
    = (0, None, [Alloc, Open (new_socket sys), Close (new_socket sys), Free])"
  using assms by (simp add: xsk_umem__create_v0_0_4_def xsk_get_mmap_offsets_def Let_def)

theorem umem_create_false_success_witness:
  "xsk_umem__create_v0_0_4 (good_os\<lparr>getsockopt_offsets := Inr (64, [])\<rparr>) 4096 True 16777216
     (Some blank_ring) (Some blank_ring) None = (0, None, [Alloc, Open 7, Close 7, Free])"
  using umem_create_false_success [of "good_os\<lparr>getsockopt_offsets := Inr (64, [])\<rparr>" 64 "[]" 4096 16777216
      blank_ring blank_ring None]
  by (simp add: good_os_def)

subsection \<open>Attached programs\<close>

lemma attached_lookup_maps: "lookup_maps sys ids m = (m', fx) \<Longrightarrow> attached fx = []"
  by (induction ids arbitrary: m m' fx) (auto simp: Let_def split: if_splits option.splits prod.splits)

lemma attached_setup_maps:
  assumes "setup_maps sys xsk fx = (err, xsk', fx')"
  shows "attached fx' = attached fx \<and> xsk' = xsk
    \<and> (err \<noteq> 0 \<longrightarrow> has_rx xsk \<and> map_update_elem sys (s_xsks_map_fd xsk) (s_queue_id xsk) (s_fd xsk) = err)"
  using assms
  by (auto simp: setup_maps_def xsk_set_bpf_maps_def xsk_delete_bpf_maps_def Let_def split: if_splits)

text \<open>Setting up the program attaches one only if there was none before; once it did, only the entry in
  the map can still fail.\<close>

lemma attached_setup:
  assumes "xsk_setup_xdp_prog sys xsk = (err, xsk', fx)"
  shows "attached fx = [] \<or> link_xdp_id sys = (0, 0) \<and> attached fx = [(s_ifindex xsk, load_program sys)]
      \<and> (err \<noteq> 0 \<longrightarrow> has_rx xsk \<and> (\<exists>m. map_update_elem sys m (s_queue_id xsk) (s_fd xsk) = err))"
    and "err = 0 \<Longrightarrow> attached fx = (if link_xdp_id sys = (0, 0) then [(s_ifindex xsk, s_prog_fd xsk')] else [])"
proof -
  obtain e p where p: "link_xdp_id sys = (e, p)" by fastforce
  obtain e1 x1 f1 where c: "xsk_create_bpf_maps sys xsk = (e1, x1, f1)" by (metis prod_cases3)
  obtain e2 x2 f2 where l: "xsk_load_xdp_prog sys x1 = (e2, x2, f2)" by (metis prod_cases3)
  obtain n f0 where q: "xsk_get_max_queues sys = (n, f0)" by fastforce
  have f0: "attached f0 = []" using q by (auto simp: xsk_get_max_queues_def Let_def split: if_splits)
  have x1: "attached f1 = []" "s_ifindex x1 = s_ifindex xsk" "has_rx x1 = has_rx xsk" "s_queue_id x1 = s_queue_id xsk" "s_fd x1 = s_fd xsk"
    using c q f0 by (auto simp: xsk_create_bpf_maps_def Let_def split: if_splits)
  have x2: "attached f2 = (if e2 = 0 then [(s_ifindex xsk, load_program sys)] else [])"
    "e2 = 0 \<Longrightarrow> x2 = x1\<lparr>s_prog_fd := load_program sys\<rparr>"
    using l x1 by (auto simp: xsk_load_xdp_prog_def Let_def split: if_splits)
  have lk: "attached f = []" if "xsk_lookup_bpf_maps sys y = (e', y', f)" for y e' y' f
    using that by (auto simp: xsk_lookup_bpf_maps_def split: if_splits prod.splits dest: attached_lookup_maps)
  have del: "attached (xsk_delete_bpf_maps y) = []" for y by (simp add: xsk_delete_bpf_maps_def)
  have "(attached fx = [] \<or> link_xdp_id sys = (0, 0) \<and> attached fx = [(s_ifindex xsk, load_program sys)]
      \<and> (err \<noteq> 0 \<longrightarrow> has_rx xsk \<and> (\<exists>m. map_update_elem sys m (s_queue_id xsk) (s_fd xsk) = err)))
    \<and> (err = 0 \<longrightarrow> attached fx = (if link_xdp_id sys = (0, 0) then [(s_ifindex xsk, s_prog_fd xsk')] else []))"
    using assms p c l x1 x2 del
    by (auto simp: xsk_setup_xdp_prog_def split: if_splits prod.splits sum.splits
        dest!: attached_setup_maps lk)
  then show "attached fx = [] \<or> link_xdp_id sys = (0, 0) \<and> attached fx = [(s_ifindex xsk, load_program sys)]
      \<and> (err \<noteq> 0 \<longrightarrow> has_rx xsk \<and> (\<exists>m. map_update_elem sys m (s_queue_id xsk) (s_fd xsk) = err))"
    and "err = 0 \<Longrightarrow> attached fx = (if link_xdp_id sys = (0, 0) then [(s_ifindex xsk, s_prog_fd xsk')] else [])"
    by simp_all
qed


lemma attached_bind_ok:
  assumes "socket_bind sys umem xsk undo = (err, Some xsk', fx)"
  shows "attached fx = (if link_xdp_id sys = (0, 0) \<and> libbpf_flags (s_config xsk') AND XSK_LIBBPF_FLAGS__INHIBIT_PROG_LOAD = 0
    then [(s_ifindex xsk', s_prog_fd xsk')] else [])"
proof -
  let ?x = "xsk\<lparr>s_prog_fd := -1\<rparr>"
  show ?thesis
  proof (cases "libbpf_flags (s_config xsk) AND XSK_LIBBPF_FLAGS__INHIBIT_PROG_LOAD = 0")
    case False
    then show ?thesis using assms by (auto simp: socket_bind_def Let_def split: if_splits)
  next
    case True
    then have S: "xsk_setup_xdp_prog sys ?x = (0, xsk', fx)"
      using assms by (auto simp: socket_bind_def Let_def split: if_splits prod.splits)
    obtain p m where "xsk' = ?x\<lparr>s_prog_fd := p, s_xsks_map_fd := m\<rparr>" using setup_keeps [OF S] by blast
    then show ?thesis using attached_setup(2) [OF S] True by simp
  qed
qed



definition some_umem :: xsk_umem where
  "some_umem = \<lparr>u_config = xsk_set_umem_config None, u_area = 4096, u_fill_ring = 4160, u_comp_ring = 4160,
     u_fd = 3, refcount = 0\<rparr>"

lemmas socket_eval = xsk_socket__create_def create_socket_def xsk_set_xdp_socket_config_def xsk_get_mmap_offsets_def
  socket_bind_def xsk_setup_xdp_prog_def xsk_create_bpf_maps_def xsk_get_max_queues_def
  xsk_load_xdp_prog_def setup_maps_def xsk_set_bpf_maps_def xsk_delete_bpf_maps_def new_xsk_def some_umem_def good_os_def


lemma socket_delete_effects:
  assumes C: "create_socket sys ifname qid umem rx tx cfg = Some (err, umem', Some (xsk, rx', tx'), fx)"
    and one: "length (xsks_maps sys (snd (prog_map_ids sys))) \<le> 1"
    and fds: "fd_calls_ok sys" and new: "refcount umem > 0 \<longrightarrow> new_socket sys \<noteq> u_fd umem"
    and D: "xsk_get_mmap_offsets sys' = (d0, d1, None)"
  shows "mset (opened (fx @ snd (xsk_socket__delete sys' umem' (Some xsk))))
      = mset (closed (fx @ snd (xsk_socket__delete sys' umem' (Some xsk))))"
    and "blocks (fx @ snd (xsk_socket__delete sys' umem' (Some xsk))) = 0"
    and "unmapped (fx @ snd (xsk_socket__delete sys' umem' (Some xsk))) = []"
proof -
  obtain c e0 e1 off rm tm ifi undo err0 fx0 where
    B: "socket_bind sys umem' (new_xsk c (if refcount umem > 0 then new_socket sys else u_fd umem) ifi
        qid (the ifname) (rx \<noteq> None) (tx \<noteq> None) rm tm off) undo = (err0, Some xsk, fx0)"
    and fx: "fx = Alloc # (if refcount umem > 0 then [Open (new_socket sys)] else [])
        @ (if rx = None then [] else [Mmap rm (off_desc (off_rx off) + ucast (rx_size c) * sizeof_xdp_desc)])
        @ (if tx = None then [] else [Mmap tm (off_desc (off_tx off) + ucast (tx_size c) * sizeof_xdp_desc)])
        @ fx0"
    using socket_create_success [OF C] by blast
  note S = socket_bind_ok [OF B one fds]
  have u: "umem' = umem\<lparr>refcount := refcount umem + 1\<rparr>" using socket_create_refcount(1) [OF C] by simp
  obtain p m where x: "xsk = (new_xsk c (if refcount umem > 0 then new_socket sys else u_fd umem) ifi
        qid (the ifname) (rx \<noteq> None) (tx \<noteq> None) rm tm off)\<lparr>s_prog_fd := p, s_xsks_map_fd := m\<rparr>"
    using S(5) by blast
  show "mset (opened (fx @ snd (xsk_socket__delete sys' umem' (Some xsk))))
      = mset (closed (fx @ snd (xsk_socket__delete sys' umem' (Some xsk))))"
    and "blocks (fx @ snd (xsk_socket__delete sys' umem' (Some xsk))) = 0"
    and "unmapped (fx @ snd (xsk_socket__delete sys' umem' (Some xsk))) = []"
    using S(1-4) new D u
    by (simp_all add: fx x xsk_socket__delete_def xsk_delete_bpf_maps_def new_xsk_def Let_def)
qed

lemma attached_create_ok:
  assumes C: "create_socket sys ifname qid umem rx tx cfg = Some (err, umem', Some (xsk, rx', tx'), fx)"
  shows "attached fx = (if link_xdp_id sys = (0, 0) \<and> libbpf_flags (s_config xsk) AND XSK_LIBBPF_FLAGS__INHIBIT_PROG_LOAD = 0
    then [(s_ifindex xsk, s_prog_fd xsk)] else [])"
proof -
  obtain c e0 e1 off rm tm ifi undo err0 fx0 where
    B: "socket_bind sys umem' (new_xsk c (if refcount umem > 0 then new_socket sys else u_fd umem) ifi
        qid (the ifname) (rx \<noteq> None) (tx \<noteq> None) rm tm off) undo = (err0, Some xsk, fx0)"
    and fx: "fx = Alloc # (if refcount umem > 0 then [Open (new_socket sys)] else [])
        @ (if rx = None then [] else [Mmap rm (off_desc (off_rx off) + ucast (rx_size c) * sizeof_xdp_desc)])
        @ (if tx = None then [] else [Mmap tm (off_desc (off_tx off) + ucast (tx_size c) * sizeof_xdp_desc)])
        @ fx0"
    using socket_create_success [OF C] by blast
  from attached_bind_ok [OF B] show ?thesis by (simp add: fx)
qed

lemma delete_same_offsets:
  "snd (snd (xsk_get_mmap_offsets sys')) = snd (snd (xsk_get_mmap_offsets sys)) \<Longrightarrow>
   xsk_socket__delete sys' umem xsk = xsk_socket__delete sys umem xsk"
  by (cases "xsk_get_mmap_offsets sys'"; cases "xsk_get_mmap_offsets sys")
     (auto simp: xsk_socket__delete_def split: option.splits)

text \<open>C31. Creating a socket and deleting it again gives back every descriptor and memory block and restores
  the UMEM with its reference count. The system may have changed in between (\<open>sys'\<close>): if it still reports
  the offsets of the rings, both mappings are removed, at the addresses and lengths they were made with;
  if that query fails at deletion, neither is. A program that creation attached, because there was none,
  stays attached to the interface after deletion.\<close>

theorem socket_create_delete_balanced:
  assumes "xsk_socket__create sys ptr ifn qid (Some umem) rx tx cfg = Some (err, Some umem', Some (xsk, rx', tx'), fx)"
    and "length (xsks_maps sys (snd (prog_map_ids sys))) \<le> 1" and "fd_calls_ok sys"
    and "refcount umem > 0 \<longrightarrow> new_socket sys \<noteq> u_fd umem"
    and "snd (snd (xsk_get_mmap_offsets sys')) \<in> {None, snd (snd (xsk_get_mmap_offsets sys))}"
    and "all = fx @ snd (xsk_socket__delete sys' umem' (Some xsk))"
  shows "fst (xsk_socket__delete sys' umem' (Some xsk)) = umem
    \<and> mset (opened all) = mset (closed all) \<and> blocks all = 0
    \<and> (if snd (snd (xsk_get_mmap_offsets sys')) = None then unmapped all = [] else mset (mapped all) = mset (unmapped all))
    \<and> attached all = (if link_xdp_id sys = (0, 0) \<and> libbpf_flags (s_config xsk) AND XSK_LIBBPF_FLAGS__INHIBIT_PROG_LOAD = 0
        then [(s_ifindex xsk, s_prog_fd xsk)] else [])"
proof -
  have C: "create_socket sys ifn qid umem rx tx cfg = Some (err, umem', Some (xsk, rx', tx'), fx)"
    using assms(1) by (auto simp: xsk_socket__create_def split: if_splits prod.splits)
  have "umem' = umem\<lparr>refcount := refcount umem + 1\<rparr>" using socket_create_refcount(1) [OF C] by simp
  then have r: "fst (xsk_socket__delete sys' umem' (Some xsk)) = umem"
    by (simp add: xsk_socket__delete_def Let_def)
  have "attached (snd (xsk_socket__delete sys' umem' (Some xsk))) = []"
    by (simp add: xsk_socket__delete_def xsk_delete_bpf_maps_def Let_def split: prod.split option.split)
  with attached_create_ok [OF C] assms(6) have a: "attached all = (if link_xdp_id sys = (0, 0)
      \<and> libbpf_flags (s_config xsk) AND XSK_LIBBPF_FLAGS__INHIBIT_PROG_LOAD = 0 then [(s_ifindex xsk, s_prog_fd xsk)] else [])"
    by simp
  show ?thesis
  proof (cases "snd (snd (xsk_get_mmap_offsets sys')) = None")
    case True
    then obtain d0 d1 where "xsk_get_mmap_offsets sys' = (d0, d1, None)" by (metis prod.collapse)
    from socket_delete_effects [OF C assms(2-4) this] r a True assms(6) show ?thesis by simp
  next
    case False
    with assms(5) have "xsk_socket__delete sys' umem' (Some xsk) = xsk_socket__delete sys umem' (Some xsk)"
      by (intro delete_same_offsets) simp
    with socket_create_delete(2) [OF C assms(2-4)] r a False assms(6) show ?thesis
      by (auto simp: balanced_def)
  qed
qed

text \<open>Deletion on the same system, and on one that no longer answers.\<close>

theorem socket_create_delete_balanced_witness:
  "\<exists>umem' xsk rx' tx' fx. xsk_socket__create good_os True (Some ''eth0'') 0 (Some some_umem) (Some blank_ring) (Some blank_ring) None
      = Some (0, Some umem', Some (xsk, rx', tx'), fx)
    \<and> balanced (fx @ snd (xsk_socket__delete good_os umem' (Some xsk)))
    \<and> attached (fx @ snd (xsk_socket__delete good_os umem' (Some xsk))) = [(2, 10)]
    \<and> unmapped (fx @ snd (xsk_socket__delete (good_os\<lparr>getsockopt_offsets := Inl 9\<rparr>) umem' (Some xsk))) = []"
proof -
  obtain umem' xsk rx' tx' fx where C: "xsk_socket__create good_os True (Some ''eth0'') 0 (Some some_umem) (Some blank_ring)
      (Some blank_ring) None = Some (0, Some umem', Some (xsk, rx', tx'), fx)"
      and x: "s_ifindex xsk = 2" "s_prog_fd xsk = 10" "libbpf_flags (s_config xsk) = 0"
    by (simp add: socket_eval Let_def)
  have o: "snd (snd (xsk_get_mmap_offsets good_os)) \<noteq> None" "snd (snd (xsk_get_mmap_offsets (good_os\<lparr>getsockopt_offsets := Inl 9\<rparr>))) = None"
    by (simp_all add: xsk_get_mmap_offsets_def good_os_def)
  have h: "length (xsks_maps good_os (snd (prog_map_ids good_os))) \<le> 1" "fd_calls_ok good_os"
    "refcount some_umem > 0 \<longrightarrow> new_socket good_os \<noteq> u_fd some_umem" "link_xdp_id good_os = (0, 0)"
    by (simp_all add: good_os_def fd_calls_ok_def some_umem_def)
  from socket_create_delete_balanced [OF C h(1-3) _ refl, of good_os]
    socket_create_delete_balanced [OF C h(1-3) _ refl, of "good_os\<lparr>getsockopt_offsets := Inl 9\<rparr>"] C x o h(4)
  show ?thesis by (simp add: balanced_def)
qed

text \<open>The library refuses a second socket on a UMEM that is in use with
  \<^verbatim>\<open>-EBUSY\<close>, unless the caller inhibits the loading of the XDP program.\<close>

theorem second_socket_busy:
  assumes "refcount umem \<noteq> 0" and "calloc_ok sys" and "libbpf_flags cfg = 0" and "rx \<noteq> None \<or> tx \<noteq> None"
  shows "xsk_socket__create sys True ifn qid (Some umem) rx tx (Some cfg) = Some (- EBUSY, Some umem, None, [Alloc, Free])"
  using assms by (auto simp: xsk_socket__create_def create_socket_def xsk_set_xdp_socket_config_def)

theorem second_socket_busy_witness:
  "xsk_socket__create good_os True (Some ''eth1'') 0 (Some (some_umem\<lparr>refcount := 1\<rparr>)) (Some blank_ring) (Some blank_ring)
     (Some \<lparr>rx_size = 2048, tx_size = 2048, libbpf_flags = 0, xdp_flags = 0, bind_flags = 0\<rparr>)
   = Some (- EBUSY, Some (some_umem\<lparr>refcount := 1\<rparr>), None, [Alloc, Free])"
  using second_socket_busy [of "some_umem\<lparr>refcount := 1\<rparr>" good_os
      "\<lparr>rx_size = 2048, tx_size = 2048, libbpf_flags = 0, xdp_flags = 0, bind_flags = 0\<rparr>"
      "Some blank_ring" "Some blank_ring" "Some ''eth1''" 0]
  by (simp add: good_os_def)

end
