(* ===== verification/CommonParams.thy ===== *)
theory CommonParams
  imports Prelude
begin

text \<open>
  The configuration record and the command line (\<^verbatim>\<open>common/common_defines.h\<close>,
  \<^verbatim>\<open>common/common_params.c\<close>).

  \<^verbatim>\<open>getopt_long\<close> belongs to the C library: the parser is a function of the sequence of
  option values and arguments it yields. \<^verbatim>\<open>if_nametoindex\<close> is a parameter (0 for an unknown
  name). Strings are lists of characters without the terminating NUL; the fixed-size buffers of the
  configuration are character lists of that size in which NUL is \<open>CHR 0x00\<close>, so that a missing
  terminator is visible.
\<close>

abbreviation (input) XDP_FLAGS_UPDATE_IF_NOEXIST :: u32 where "XDP_FLAGS_UPDATE_IF_NOEXIST \<equiv> 1"
abbreviation (input) XDP_FLAGS_SKB_MODE :: u32 where "XDP_FLAGS_SKB_MODE \<equiv> 2"
abbreviation (input) XDP_FLAGS_DRV_MODE :: u32 where "XDP_FLAGS_DRV_MODE \<equiv> 4"
abbreviation (input) XDP_FLAGS_HW_MODE :: u32 where "XDP_FLAGS_HW_MODE \<equiv> 8"
abbreviation (input) XDP_FLAGS_MODES :: u32 where "XDP_FLAGS_MODES \<equiv> 14"
abbreviation (input) XDP_COPY :: u16 where "XDP_COPY \<equiv> 2"
abbreviation (input) XDP_ZEROCOPY :: u16 where "XDP_ZEROCOPY \<equiv> 4"
abbreviation (input) IF_NAMESIZE :: nat where "IF_NAMESIZE \<equiv> 16"

abbreviation (input) EXIT_OK :: int where "EXIT_OK \<equiv> 0"
abbreviation (input) EXIT_FAIL :: int where "EXIT_FAIL \<equiv> 1"
abbreviation (input) EXIT_FAIL_OPTION :: int where "EXIT_FAIL_OPTION \<equiv> 2"
abbreviation (input) EXIT_FAIL_XDP :: int where "EXIT_FAIL_XDP \<equiv> 30"
abbreviation (input) EXIT_FAIL_BPF :: int where "EXIT_FAIL_BPF \<equiv> 40"

subsection \<open>Strings in fixed-size buffers\<close>

abbreviation (input) NUL :: char where "NUL \<equiv> CHR 0x00"

text \<open>\<^verbatim>\<open>strncpy(dest, s, n)\<close>: at most \<open>n\<close> characters, padded with NUL.\<close>

definition strncpy :: "nat \<Rightarrow> string \<Rightarrow> char list" where
  "strncpy n s = take n s @ replicate (n - length s) NUL"

text \<open>The string a buffer holds, if it is terminated.\<close>

definition c_string :: "char list \<Rightarrow> string option" where
  "c_string buf = (if NUL \<in> set buf then Some (takeWhile (\<lambda>c. c \<noteq> NUL) buf) else None)"

lemma length_strncpy [simp]: "length (strncpy n s) = n"
  by (simp add: strncpy_def)

lemma takeWhile_NUL: "NUL \<notin> set s \<Longrightarrow> takeWhile (\<lambda>c. c \<noteq> NUL) (s @ NUL # r) = s"
  by (induction s) auto

lemma c_string_strncpy:
  assumes "NUL \<notin> set s"
  shows "c_string (strncpy n s) = (if length s < n then Some s else None)"
proof (cases "length s < n")
  case True
  then have "strncpy n s = s @ NUL # replicate (n - length s - 1) NUL"
    by (simp add: strncpy_def replicate_Suc [symmetric] Suc_diff_Suc del: replicate_Suc)
  then show ?thesis
    using True assms by (simp add: c_string_def takeWhile_NUL)
next
  case False
  then have "strncpy n s = take n s" by (simp add: strncpy_def)
  moreover have "NUL \<notin> set (take n s)" using assms by (meson in_set_takeD)
  ultimately show ?thesis using False by (simp add: c_string_def)
qed

subsection \<open>The configuration\<close>

record config =
  cfg_xdp_flags :: u32
  ifindex :: int
  ifname :: "char list option"
  ifname_buf :: "char list"
  redirect_ifindex :: int
  redirect_ifname :: "char list option"
  redirect_ifname_buf :: "char list"
  do_unload :: bool
  reuse_maps :: bool
  pin_dir :: "char list"
  filename :: "char list"
  progsec :: "char list"
  src_mac :: "char list"
  dest_mac :: "char list"
  xsk_bind_flags :: u16
  xsk_if_queue :: int
  xsk_poll_mode :: bool

record option_wrapper =
  opt_name :: "string option"
  has_arg :: bool
  opt_val :: int
  help_text :: string
  metavar :: "string option"
  required :: bool

subsection \<open>Printing the options\<close>

abbreviation (input) BUFSIZE :: nat where "BUFSIZE \<equiv> 30"

text \<open>\<^verbatim>\<open>snprintf(&buf[pos], size, ...)\<close> at an offset into a buffer of \<open>BUFSIZE\<close>
  characters: \<open>size\<close> is a \<^verbatim>\<open>size_t\<close>, so a negative difference is a huge bound, and a write
  that leaves the buffer faults.\<close>

definition snprintf_at :: "char list \<Rightarrow> nat \<Rightarrow> int \<Rightarrow> string \<Rightarrow> char list option" where
  "snprintf_at buf pos sz s =
     (let bound = (if sz < 0 then sz + 2 ^ 64 else sz);
          out = (if bound = 0 then [] else take (nat bound - 1) s @ [NUL])
      in if pos + length out \<le> length buf
         then Some (take pos buf @ out @ drop (pos + length out) buf) else None)"

text \<open>The text of one option line: the short letter, the padded name with its argument, the help.\<close>

definition option_line :: "option_wrapper \<Rightarrow> string \<Rightarrow> string option" where
  "option_line w name =
     do {
       let short = (if opt_val w > 64 then '' -'' @ [char_of (nat (opt_val w))] @ '','' else ''    '');
       let text = '' --'' @ name;
       buf \<leftarrow> snprintf_at (replicate BUFSIZE NUL) 0 (int BUFSIZE) text;
       let pos = length text;
       buf \<leftarrow> (case metavar w of
                 None \<Rightarrow> Some buf
               | Some m \<Rightarrow> snprintf_at buf pos (int BUFSIZE - int pos) ('' '' @ m));
       shown \<leftarrow> c_string buf;
       Some (short @ shown @ replicate (22 - length shown) CHR '' '' @ ''  '' @ help_text w @ [CHR 0x0A])
     }"

fun print_option_list :: "option_wrapper list \<Rightarrow> bool \<Rightarrow> string option" where
  "print_option_list [] req = None"
| "print_option_list (w # ws) req =
     (case opt_name w of
        None \<Rightarrow> Some []
      | Some name \<Rightarrow>
          if required w \<noteq> req then print_option_list ws req
          else do {
            l \<leftarrow> option_line w name;
            rest \<leftarrow> print_option_list ws req;
            Some (l @ rest)
          })"

definition usage :: "string \<Rightarrow> string \<Rightarrow> option_wrapper list \<Rightarrow> bool \<Rightarrow> string option" where
  "usage prog_name doc long_options full =
     (let head = ''Usage: '' @ prog_name @ '' [options]'' @ [CHR 0x0A] in
      if \<not> full then Some (head @ ''Use --help (or -h) to see full option list.'' @ [CHR 0x0A])
      else do {
        req \<leftarrow> print_option_list long_options True;
        oth \<leftarrow> print_option_list long_options False;
        Some (head @ [CHR 0x0A] @ ''DOCUMENTATION:'' @ [CHR 0x0A] @ '' '' @ doc @ [CHR 0x0A]
          @ ''Required options:'' @ [CHR 0x0A] @ req @ [CHR 0x0A]
          @ ''Other options:'' @ [CHR 0x0A] @ oth @ [CHR 0x0A])
      })"

subsection \<open>The option table for getopt\<close>

text \<open>The entries up to the first one without a name; a table without such an entry is read past its
  end.\<close>

fun option_wrappers_to_options :: "option_wrapper list \<Rightarrow> (string option \<times> bool \<times> int) list option" where
  "option_wrappers_to_options [] = None"
| "option_wrappers_to_options (w # ws) =
     (case opt_name w of
        None \<Rightarrow> Some []
      | Some n \<Rightarrow> map_option (\<lambda>os. (Some n, has_arg w, opt_val w) # os) (option_wrappers_to_options ws))"

subsection \<open>The command line\<close>

text \<open>A value that \<^verbatim>\<open>getopt_long\<close> returns: a short option letter, or the number of a long
  option that has no letter (1 \<^verbatim>\<open>--filename\<close>, 2 \<^verbatim>\<open>--progsec\<close>, 3
  \<^verbatim>\<open>--offload-mode\<close>), with its argument.\<close>

datatype opt = Letter char | Number nat

fun digits :: "int \<Rightarrow> string \<Rightarrow> int" where
  "digits acc [] = acc"
| "digits acc (c # cs) =
     (if of_char c \<ge> (48 :: int) \<and> of_char c \<le> (57 :: int) then digits (acc * 10 + (of_char c - 48)) cs
      else acc)"

text \<open>\<^verbatim>\<open>atoi\<close>, for values in the range of \<^verbatim>\<open>int\<close>.\<close>

definition atoi :: "string \<Rightarrow> int" where
  "atoi s =
     (case dropWhile (\<lambda>c. c = CHR '' '' \<or> c \<in> {CHR 0x09, CHR 0x0A, CHR 0x0B, CHR 0x0C, CHR 0x0D}) s of
        [] \<Rightarrow> 0
      | c # cs \<Rightarrow> if c = CHR ''-'' then - digits 0 cs else if c = CHR ''+'' then digits 0 cs
                 else digits 0 (c # cs))"

text \<open>What one option does: the new configuration and verbosity, or the exit for a usage error.\<close>

definition parse_opt ::
  "(string \<Rightarrow> int) \<Rightarrow> opt \<Rightarrow> string \<Rightarrow> config \<times> bool \<Rightarrow> int + config \<times> bool" where
  "parse_opt if_nametoindex opt optarg st =
     (let (cfg, verbose) = st;
          set_modes = (\<lambda>c. c\<lparr>cfg_xdp_flags := cfg_xdp_flags c AND NOT XDP_FLAGS_MODES\<rparr>);
          add_flag = (\<lambda>f c. c\<lparr>cfg_xdp_flags := cfg_xdp_flags c OR f\<rparr>);
          copy = (\<lambda>c. c\<lparr>xsk_bind_flags := (xsk_bind_flags c AND XDP_ZEROCOPY) OR XDP_COPY\<rparr>);
          zero = (\<lambda>c. c\<lparr>xsk_bind_flags := (xsk_bind_flags c AND XDP_COPY) OR XDP_ZEROCOPY\<rparr>);
          ok = (\<lambda>c. Inr (c, verbose))
      in
      case opt of
        Letter l \<Rightarrow>
          if l = CHR ''d'' then
            if length optarg \<ge> IF_NAMESIZE then Inl EXIT_FAIL_OPTION
            else
              let buf = strncpy IF_NAMESIZE optarg; idx = if_nametoindex optarg;
                  cfg = cfg\<lparr>ifname_buf := buf, ifname := Some buf, ifindex := idx\<rparr>
              in if idx = 0 then Inl EXIT_FAIL_OPTION else ok cfg
          else if l = CHR ''r'' then
            if length optarg \<ge> IF_NAMESIZE then Inl EXIT_FAIL_OPTION
            else
              let buf = strncpy IF_NAMESIZE optarg; idx = if_nametoindex optarg;
                  cfg = cfg\<lparr>redirect_ifname_buf := buf, redirect_ifname := Some buf,
                            redirect_ifindex := idx\<rparr>
              in if idx = 0 then Inl EXIT_FAIL_OPTION else ok cfg
          else if l = CHR ''A'' then ok (set_modes cfg)
          else if l = CHR ''S'' then ok (copy (add_flag XDP_FLAGS_SKB_MODE (set_modes cfg)))
          else if l = CHR ''N'' then ok (add_flag XDP_FLAGS_DRV_MODE (set_modes cfg))
          else if l = CHR ''F'' then
            ok (cfg\<lparr>cfg_xdp_flags := cfg_xdp_flags cfg AND NOT XDP_FLAGS_UPDATE_IF_NOEXIST\<rparr>)
          else if l = CHR ''M'' then ok (cfg\<lparr>reuse_maps := True\<rparr>)
          else if l = CHR ''U'' then ok (cfg\<lparr>do_unload := True\<rparr>)
          else if l = CHR ''p'' then ok (cfg\<lparr>xsk_poll_mode := True\<rparr>)
          else if l = CHR ''q'' then Inr (cfg, False)
          else if l = CHR ''Q'' then ok (cfg\<lparr>xsk_if_queue := atoi optarg\<rparr>)
          else if l = CHR ''L'' then ok (cfg\<lparr>src_mac := strncpy 18 optarg\<rparr>)
          else if l = CHR ''R'' then ok (cfg\<lparr>dest_mac := strncpy 18 optarg\<rparr>)
          else if l = CHR ''c'' then ok (copy cfg)
          else if l = CHR ''z'' then ok (zero cfg)
          else Inl EXIT_FAIL_OPTION
      | Number n \<Rightarrow>
          if n = 1 then ok (cfg\<lparr>filename := strncpy 512 optarg\<rparr>)
          else if n = 2 then ok (cfg\<lparr>progsec := strncpy 32 optarg\<rparr>)
          else if n = 3 then ok (add_flag XDP_FLAGS_HW_MODE (set_modes cfg))
          else Inl EXIT_FAIL_OPTION)"

fun parse_opts ::
  "(string \<Rightarrow> int) \<Rightarrow> (opt \<times> string) list \<Rightarrow> config \<times> bool \<Rightarrow> int + config \<times> bool" where
  "parse_opts ifi [] st = Inr st"
| "parse_opts ifi ((opt, optarg) # opts) st =
     (case parse_opt ifi opt optarg st of
        Inl e \<Rightarrow> Inl e
      | Inr st' \<Rightarrow> parse_opts ifi opts st')"

text \<open>\<open>getopt\<close> stands for \<^verbatim>\<open>getopt_long\<close> run over the command line with the converted
  table; \<open>malloc_ok\<close> says whether the table could be allocated.\<close>

definition parse_cmdline_args ::
  "(string \<Rightarrow> int) \<Rightarrow> bool \<Rightarrow> ((string option \<times> bool \<times> int) list \<Rightarrow> (opt \<times> string) list) \<Rightarrow>
   option_wrapper list \<Rightarrow> config \<times> bool \<Rightarrow> (int + config \<times> bool) option" where
  "parse_cmdline_args ifi malloc_ok getopt options_wrapper st =
     do {
       long_options \<leftarrow> option_wrappers_to_options options_wrapper;
       if \<not> malloc_ok then Some (Inl EXIT_FAIL_OPTION)
       else Some (parse_opts ifi (getopt long_options) st)
     }"

subsection \<open>What the parser guarantees\<close>

definition names_ok :: "config \<Rightarrow> bool" where
  "names_ok cfg \<longleftrightarrow>
     (\<forall>buf. ifname cfg = Some buf \<longrightarrow> buf = ifname_buf cfg \<and> length buf = IF_NAMESIZE \<and> NUL \<in> set buf)
     \<and> (\<forall>buf. redirect_ifname cfg = Some buf \<longrightarrow>
          buf = redirect_ifname_buf cfg \<and> length buf = IF_NAMESIZE \<and> NUL \<in> set buf)
     \<and> length (filename cfg) = 512 \<and> length (progsec cfg) = 32 \<and> length (src_mac cfg) = 18
     \<and> length (dest_mac cfg) = 18"

definition dev_ok :: "config \<Rightarrow> bool" where
  "dev_ok cfg \<longleftrightarrow> (ifindex cfg \<noteq> -1 \<longrightarrow> ifname cfg \<noteq> None)"

definition modes_ok :: "config \<Rightarrow> bool" where
  "modes_ok cfg \<longleftrightarrow> cfg_xdp_flags cfg AND XDP_FLAGS_MODES \<in> {0, 2, 4, 8}"

lemma strncpy_terminated: "length s < n \<Longrightarrow> NUL \<in> set (strncpy n s)"
  by (simp add: strncpy_def)

lemma parse_opt_names_ok:
  "parse_opt ifi opt arg (cfg, v) = Inr (cfg', v') \<Longrightarrow> names_ok cfg \<Longrightarrow> names_ok cfg'"
  by (auto simp: parse_opt_def names_ok_def Let_def strncpy_terminated split: opt.splits if_splits)

lemma parse_opt_dev_ok:
  "parse_opt ifi opt arg (cfg, v) = Inr (cfg', v') \<Longrightarrow> dev_ok cfg \<Longrightarrow> dev_ok cfg'"
  by (auto simp: parse_opt_def dev_ok_def Let_def split: opt.splits if_splits)

lemma modes_bits:
  "(x AND -15) AND 14 = (0 :: u32)" "((x AND -15) OR 2) AND 14 = (2 :: u32)"
  "((x AND -15) OR 4) AND 14 = (4 :: u32)" "((x AND -15) OR 8) AND 14 = (8 :: u32)"
  "(x AND -2) AND 14 = x AND (14 :: u32)"
proof -
  have *: "(x AND -15) AND 14 = (0 :: u32)" for x by (simp only: and.assoc) simp
  show "(x AND -15) AND 14 = (0 :: u32)" by (rule *)
  show "((x AND -15) OR 2) AND 14 = (2 :: u32)" "((x AND -15) OR 4) AND 14 = (4 :: u32)"
    "((x AND -15) OR 8) AND 14 = (8 :: u32)"
    by (simp_all only: bit.conj_disj_distrib2 *) simp_all
  show "(x AND -2) AND 14 = x AND (14 :: u32)" by (simp only: and.assoc) simp
qed

lemma parse_opt_flags:
  "parse_opt ifi opt arg (cfg, v) = Inr (cfg', v') \<Longrightarrow>
   cfg_xdp_flags cfg' \<in> {cfg_xdp_flags cfg, cfg_xdp_flags cfg AND -15, (cfg_xdp_flags cfg AND -15) OR 2,
     (cfg_xdp_flags cfg AND -15) OR 4, (cfg_xdp_flags cfg AND -15) OR 8, cfg_xdp_flags cfg AND -2}"
  by (auto simp: parse_opt_def Let_def split: opt.splits if_splits)

lemma parse_opt_modes_ok:
  "parse_opt ifi opt arg (cfg, v) = Inr (cfg', v') \<Longrightarrow> modes_ok cfg \<Longrightarrow> modes_ok cfg'"
  by (drule parse_opt_flags) (auto simp only: modes_ok_def modes_bits insert_iff empty_iff)

lemma parse_opts_keeps:
  assumes "\<And>opt arg cfg v cfg' v'. parse_opt ifi opt arg (cfg, v) = Inr (cfg', v') \<Longrightarrow> P cfg \<Longrightarrow> P cfg'"
  shows "parse_opts ifi opts (cfg, v) = Inr (cfg', v') \<Longrightarrow> P cfg \<Longrightarrow> P cfg'"
  by (induction opts arbitrary: cfg v) (auto split: sum.splits, metis assms)

lemma snprintf_at_len: "snprintf_at buf p sz s = Some buf' \<Longrightarrow> length buf' = length buf"
  by (auto simp: snprintf_at_def Let_def split: if_splits)

lemma snprintf_at_NUL:
  "snprintf_at buf p sz s = Some buf' \<Longrightarrow> 0 < sz \<or> sz = 0 \<and> NUL \<in> set (take p buf) \<Longrightarrow> NUL \<in> set buf'"
  by (auto simp: snprintf_at_def Let_def split: if_splits dest: in_set_takeD)

lemma snprintf_first:
  "snprintf_at (replicate 30 NUL) 0 30 s
     = Some (take 29 s @ NUL # drop (Suc (length (take 29 s))) (replicate 30 NUL))"
  by (simp add: snprintf_at_def)

lemma snprintf_second:
  assumes "length buf = 30"
  shows "snprintf_at buf p (30 - int p) s = None \<longleftrightarrow> 30 < p"
proof -
  consider "p < 30" | "p = 30" | "30 < p" by linarith
  then show ?thesis
  proof cases
    case 1
    then have "length (take (nat (30 - int p) - 1) s) \<le> 30 - p - 1"
      by (simp add: nat_diff_distrib)
    with 1 assms show ?thesis by (simp add: snprintf_at_def Let_def)
  next
    case 3
    with assms show ?thesis by (simp add: snprintf_at_def Let_def)
  qed (use assms in \<open>simp add: snprintf_at_def\<close>)
qed

lemma option_line_None:
  "option_line w name = None \<longleftrightarrow> metavar w \<noteq> None \<and> 27 < length name"
proof -
  let ?buf = "take 29 ('' --'' @ name) @ NUL # drop (Suc (length (take 29 ('' --'' @ name)))) (replicate 30 NUL)"
  have len: "length ?buf = 30" by simp
  show ?thesis
  proof (cases "metavar w")
    case None
    then show ?thesis by (simp add: option_line_def snprintf_first c_string_def)
  next
    case (Some m)
    let ?s = "snprintf_at ?buf (Suc (Suc (Suc (length name)))) (30 - int (Suc (Suc (Suc (length name))))) ('' '' @ m)"
    have "option_line w name = None \<longleftrightarrow> ?s = None"
    proof (cases ?s)
      case (Some b)
      have "Suc (Suc (Suc (length name))) \<le> 30"
        using Some snprintf_second [OF len, of "Suc (Suc (Suc (length name)))" "'' '' @ m"] by simp
      then have "NUL \<in> set b" using snprintf_at_NUL [OF Some]
        by (cases "Suc (Suc (Suc (length name))) = 30") auto
      with Some \<open>metavar w = Some m\<close> show ?thesis
        by (simp add: option_line_def snprintf_first c_string_def)
    qed (simp add: option_line_def snprintf_first \<open>metavar w = Some m\<close>)
    with snprintf_second [OF len, of "Suc (Suc (Suc (length name)))"] Some show ?thesis by auto
  qed
qed

subsection \<open>Properties\<close>

text \<open>C39. The command line parser keeps the configuration well formed: interface names fit their buffers
  and are terminated, an interface index is set only together with its name, every buffer keeps its size,
  and at most one XDP mode bit is set, whatever options are given in whatever order.\<close>

theorem parse_cmdline_invariant:
  assumes "parse_cmdline_args ifi malloc_ok getopt table (cfg, v) = Some (Inr (cfg', v'))"
    and "names_ok cfg" and "modes_ok cfg" and "dev_ok cfg"
  shows "names_ok cfg' \<and> modes_ok cfg' \<and> dev_ok cfg'"
proof -
  from assms(1) obtain opts where r: "parse_opts ifi opts (cfg, v) = Inr (cfg', v')"
    by (auto simp: parse_cmdline_args_def bind_eq_Some_conv split: if_splits)
  have "names_ok cfg'" using parse_opts_keeps [of ifi names_ok, OF _ r assms(2)] parse_opt_names_ok by metis
  moreover have "modes_ok cfg'" using parse_opts_keeps [of ifi modes_ok, OF _ r assms(3)] parse_opt_modes_ok by metis
  moreover have "dev_ok cfg'" using parse_opts_keeps [of ifi dev_ok, OF _ r assms(4)] parse_opt_dev_ok by metis
  ultimately show ?thesis by blast
qed

definition empty_config :: config where
  "empty_config = \<lparr>cfg_xdp_flags = 5, ifindex = -1, ifname = None, ifname_buf = replicate 16 NUL, redirect_ifindex = 0,
     redirect_ifname = None, redirect_ifname_buf = replicate 16 NUL, do_unload = False, reuse_maps = False,
     pin_dir = replicate 512 NUL, filename = replicate 512 NUL, progsec = replicate 32 NUL, src_mac = replicate 18 NUL,
     dest_mac = replicate 18 NUL, xsk_bind_flags = 0, xsk_if_queue = 0, xsk_poll_mode = False\<rparr>"

theorem parse_cmdline_invariant_witness:
  "\<exists>cfg' v'. parse_cmdline_args (\<lambda>_. 3) True (\<lambda>_. [(Letter CHR ''d'', ''eth0''), (Letter CHR ''S'', [])])
      [\<lparr>opt_name = None, has_arg = False, opt_val = 0, help_text = [], metavar = None, required = False\<rparr>] (empty_config, True) = Some (Inr (cfg', v'))
    \<and> names_ok cfg' \<and> modes_ok cfg' \<and> dev_ok cfg'"
proof -
  obtain cfg' v' where r: "parse_cmdline_args (\<lambda>_. 3) True (\<lambda>_. [(Letter CHR ''d'', ''eth0''), (Letter CHR ''S'', [])])
      [\<lparr>opt_name = None, has_arg = False, opt_val = 0, help_text = [], metavar = None, required = False\<rparr>] (empty_config, True) = Some (Inr (cfg', v'))"
    by (simp add: parse_cmdline_args_def parse_opt_def Let_def)
  have "names_ok empty_config" "modes_ok empty_config" "dev_ok empty_config"
    by (simp_all add: names_ok_def modes_ok_def dev_ok_def empty_config_def)
  from parse_cmdline_invariant [OF r this] r show ?thesis by blast
qed

text \<open>The options that force copy and zero-copy mode do not exclude each other: each masks the bind
  flags with the bit of the other one instead of clearing it, so giving both, in either order, requests
  both modes at once.\<close>

theorem copy_zero_copy_conflict:
  assumes "\<exists>v'. parse_opts ifi [(Letter a, x), (Letter b, y)] (cfg, v) = Inr (cfg', v')" and "{a, b} = {CHR ''c'', CHR ''z''}"
  shows "xsk_bind_flags cfg' = XDP_COPY OR XDP_ZEROCOPY"
proof -
  have c: "((w AND 4) OR 2) AND 2 = (2 :: u16)" "((w AND 2) OR 4) AND 4 = (4 :: u16)" for w
    by (simp_all only: bit.conj_disj_distrib2 and.assoc) simp_all
  from assms show ?thesis
    by (auto simp: doubleton_eq_iff parse_opt_def Let_def c)
qed

theorem copy_zero_copy_conflict_witness:
  "xsk_bind_flags (fst (projr (parse_opts (\<lambda>_. 0) [(Letter CHR ''z'', []), (Letter CHR ''c'', [])] (empty_config, True)))) = XDP_COPY OR XDP_ZEROCOPY"
proof -
  obtain cfg' where r: "parse_opts (\<lambda>_. 0) [(Letter CHR ''z'', []), (Letter CHR ''c'', [])] (empty_config, True) = Inr (cfg', True)"
    by (simp add: parse_opt_def Let_def)
  have "xsk_bind_flags cfg' = XDP_COPY OR XDP_ZEROCOPY"
    by (rule copy_zero_copy_conflict [of "\<lambda>_. 0" "CHR ''z''" "[]" "CHR ''c''" "[]" empty_config True]) (use r in auto)
  then show ?thesis by (simp only: r sum.sel fst_conv)
qed

text \<open>The other strings are copied with the size of their buffer and no length check: one as long as its
  buffer leaves it without a terminating NUL.\<close>

lemma long_arguments_unterminated:
  assumes "NUL \<notin> set s"
  shows "map_sum id (c_string \<circ> filename \<circ> fst) (parse_opt ifi (Number 1) s (cfg, v))
      = Inr (if length s < 512 then Some s else None)"
    and "map_sum id (c_string \<circ> progsec \<circ> fst) (parse_opt ifi (Number 2) s (cfg, v))
      = Inr (if length s < 32 then Some s else None)"
    and "map_sum id (c_string \<circ> src_mac \<circ> fst) (parse_opt ifi (Letter CHR ''L'') s (cfg, v))
      = Inr (if length s < 18 then Some s else None)"
    and "map_sum id (c_string \<circ> dest_mac \<circ> fst) (parse_opt ifi (Letter CHR ''R'') s (cfg, v))
      = Inr (if length s < 18 then Some s else None)"
  using assms by (simp_all add: parse_opt_def Let_def c_string_strncpy)

end
