(* ===== verification/Parsing.thy ===== *)
theory Parsing
  imports Prelude
begin

text \<open>
  The packet parsing helpers of \<^verbatim>\<open>common/parsing_helpers.h\<close>.
  A packet is the byte list from \<^verbatim>\<open>ctx->data\<close>; \<^verbatim>\<open>data_end\<close> is the offset
  of its end and is passed to each helper as in the source. A helper returns its \<^verbatim>\<open>int\<close>
  result, the advanced cursor and the header pointer it stores (\<^term>\<open>None\<close> while the out
  parameter has not been written); the whole result is \<^term>\<open>None\<close> if the helper reads
  outside the packet.

  The contract that all helpers share (bounds-checked, cursor only moves forward, nothing moves
  on failure) is the locale \<open>hdr_parser\<close>; each helper is an interpretation of it.
\<close>

subsection \<open>Header layouts (Linux UAPI)\<close>

abbreviation (input) sizeof_ethhdr :: nat where "sizeof_ethhdr \<equiv> 14"
abbreviation (input) eth_h_dest :: nat where "eth_h_dest \<equiv> 0"
abbreviation (input) eth_h_source :: nat where "eth_h_source \<equiv> 6"
abbreviation (input) eth_h_proto :: nat where "eth_h_proto \<equiv> 12"
abbreviation (input) ETH_ALEN :: nat where "ETH_ALEN \<equiv> 6"

abbreviation (input) sizeof_vlan_hdr :: nat where "sizeof_vlan_hdr \<equiv> 4"
abbreviation (input) vlan_h_TCI :: nat where "vlan_h_TCI \<equiv> 0"
abbreviation (input) vlan_h_encap_proto :: nat where "vlan_h_encap_proto \<equiv> 2"

abbreviation (input) sizeof_iphdr :: nat where "sizeof_iphdr \<equiv> 20"
abbreviation (input) ip_ihl :: nat where "ip_ihl \<equiv> 0"
abbreviation (input) ip_tos :: nat where "ip_tos \<equiv> 1"
abbreviation (input) ip_tot_len :: nat where "ip_tot_len \<equiv> 2"
abbreviation (input) ip_ttl :: nat where "ip_ttl \<equiv> 8"
abbreviation (input) ip_protocol :: nat where "ip_protocol \<equiv> 9"
abbreviation (input) ip_check :: nat where "ip_check \<equiv> 10"
abbreviation (input) ip_saddr :: nat where "ip_saddr \<equiv> 12"
abbreviation (input) ip_daddr :: nat where "ip_daddr \<equiv> 16"

abbreviation (input) sizeof_ipv6hdr :: nat where "sizeof_ipv6hdr \<equiv> 40"
abbreviation (input) ip6_payload_len :: nat where "ip6_payload_len \<equiv> 4"
abbreviation (input) ip6_nexthdr :: nat where "ip6_nexthdr \<equiv> 6"
abbreviation (input) ip6_hop_limit :: nat where "ip6_hop_limit \<equiv> 7"
abbreviation (input) ip6_saddr :: nat where "ip6_saddr \<equiv> 8"
abbreviation (input) ip6_daddr :: nat where "ip6_daddr \<equiv> 24"

abbreviation (input) sizeof_icmphdr :: nat where "sizeof_icmphdr \<equiv> 8"
abbreviation (input) sizeof_icmp6hdr :: nat where "sizeof_icmp6hdr \<equiv> 8"
abbreviation (input) sizeof_icmphdr_common :: nat where "sizeof_icmphdr_common \<equiv> 4"
abbreviation (input) icmp_type :: nat where "icmp_type \<equiv> 0"
abbreviation (input) icmp_cksum :: nat where "icmp_cksum \<equiv> 2"
abbreviation (input) icmp_sequence :: nat where "icmp_sequence \<equiv> 6"

abbreviation (input) sizeof_udphdr :: nat where "sizeof_udphdr \<equiv> 8"
abbreviation (input) udp_dest :: nat where "udp_dest \<equiv> 2"
abbreviation (input) udp_len :: nat where "udp_len \<equiv> 4"

abbreviation (input) sizeof_tcphdr :: nat where "sizeof_tcphdr \<equiv> 20"
abbreviation (input) tcp_dest :: nat where "tcp_dest \<equiv> 2"
abbreviation (input) tcp_doff :: nat where "tcp_doff \<equiv> 12"

abbreviation (input) ETH_P_IP :: u16 where "ETH_P_IP \<equiv> 0x0800"
abbreviation (input) ETH_P_IPV6 :: u16 where "ETH_P_IPV6 \<equiv> 0x86DD"
abbreviation (input) ETH_P_8021Q :: u16 where "ETH_P_8021Q \<equiv> 0x8100"
abbreviation (input) ETH_P_8021AD :: u16 where "ETH_P_8021AD \<equiv> 0x88A8"
abbreviation (input) IPPROTO_ICMP :: int where "IPPROTO_ICMP \<equiv> 1"
abbreviation (input) IPPROTO_TCP :: int where "IPPROTO_TCP \<equiv> 6"
abbreviation (input) IPPROTO_UDP :: int where "IPPROTO_UDP \<equiv> 17"
abbreviation (input) IPPROTO_ICMPV6 :: int where "IPPROTO_ICMPV6 \<equiv> 58"
abbreviation (input) ICMP_ECHOREPLY :: int where "ICMP_ECHOREPLY \<equiv> 0"
abbreviation (input) ICMP_ECHO :: int where "ICMP_ECHO \<equiv> 8"
abbreviation (input) ICMPV6_ECHO_REQUEST :: int where "ICMPV6_ECHO_REQUEST \<equiv> 128"
abbreviation (input) ICMPV6_ECHO_REPLY :: int where "ICMPV6_ECHO_REPLY \<equiv> 129"

subsection \<open>Data\<close>

record hdr_cursor =
  pos :: ptr

record collect_vlans =
  vlan_id :: "u16 list"

abbreviation (input) VLAN_MAX_DEPTH :: nat where "VLAN_MAX_DEPTH \<equiv> 2"
abbreviation (input) VLAN_VID_MASK :: u16 where "VLAN_VID_MASK \<equiv> 0x0fff"

type_synonym parse_result = "(int \<times> hdr_cursor \<times> ptr option) option"

subsection \<open>The helpers\<close>

definition proto_is_vlan :: "u16 \<Rightarrow> bool" where
  "proto_is_vlan h_proto \<longleftrightarrow>
     h_proto = bpf_htons ETH_P_8021Q \<or> h_proto = bpf_htons ETH_P_8021AD"

text \<open>\<^verbatim>\<open>vlans->id[i] = bpf_ntohs(vlh->h_vlan_TCI) & VLAN_VID_MASK\<close>, when the
  caller collects VLAN ids.\<close>

definition collect_vlan ::
  "bytes \<Rightarrow> nat \<Rightarrow> ptr \<Rightarrow> collect_vlans option \<Rightarrow> collect_vlans option option" where
  "collect_vlan p i vlh vlans =
     (case vlans of
        None \<Rightarrow> Some None
      | Some v \<Rightarrow>
          do {
            tci \<leftarrow> load16 p (vlh + vlan_h_TCI);
            if i < length (vlan_id v)
            then Some (Some (v\<lparr>vlan_id := (vlan_id v)[i := bpf_ntohs tci AND VLAN_VID_MASK]\<rparr>))
            else None
          })"

text \<open>The unrolled loop of \<^verbatim>\<open>parse_ethhdr_vlan\<close>: \<open>n\<close> iterations are left and
  \<open>i\<close> is the loop index.\<close>

primrec vlan_loop ::
  "nat \<Rightarrow> nat \<Rightarrow> bytes \<Rightarrow> nat \<Rightarrow> ptr \<Rightarrow> u16 \<Rightarrow> collect_vlans option \<Rightarrow>
   (ptr \<times> u16 \<times> collect_vlans option) option" where
  "vlan_loop 0 i p data_end vlh h_proto vlans = Some (vlh, h_proto, vlans)"
| "vlan_loop (Suc n) i p data_end vlh h_proto vlans =
     (if \<not> proto_is_vlan h_proto then Some (vlh, h_proto, vlans)
      else if vlh + sizeof_vlan_hdr > data_end then Some (vlh, h_proto, vlans)
      else do {
        h_proto' \<leftarrow> load16 p (vlh + vlan_h_encap_proto);
        vlans' \<leftarrow> collect_vlan p i vlh vlans;
        vlan_loop n (Suc i) p data_end (vlh + sizeof_vlan_hdr) h_proto' vlans'
      })"

definition parse_ethhdr_vlan ::
  "bytes \<Rightarrow> nat \<Rightarrow> hdr_cursor \<Rightarrow> collect_vlans option \<Rightarrow>
   (int \<times> hdr_cursor \<times> ptr option \<times> collect_vlans option) option" where
  "parse_ethhdr_vlan p data_end nh vlans =
     (let eth = pos nh in
      if pos nh + sizeof_ethhdr > data_end then Some (-1, nh, None, vlans)
      else do {
        h_proto \<leftarrow> load16 p (eth + eth_h_proto);
        (vlh, h_proto', vlans') \<leftarrow>
          vlan_loop VLAN_MAX_DEPTH 0 p data_end (pos nh + sizeof_ethhdr) h_proto vlans;
        Some (uint h_proto', nh\<lparr>pos := vlh\<rparr>, Some eth, vlans')
      })"

definition parse_ethhdr :: "bytes \<Rightarrow> nat \<Rightarrow> hdr_cursor \<Rightarrow> parse_result" where
  "parse_ethhdr p data_end nh =
     do {
       (r, nh', eth, _) \<leftarrow> parse_ethhdr_vlan p data_end nh None;
       Some (r, nh', eth)
     }"

definition parse_ip6hdr :: "bytes \<Rightarrow> nat \<Rightarrow> hdr_cursor \<Rightarrow> parse_result" where
  "parse_ip6hdr p data_end nh =
     (let ip6h = pos nh in
      if ip6h + sizeof_ipv6hdr > data_end then Some (-1, nh, None)
      else do {
        nexthdr \<leftarrow> load8 p (ip6h + ip6_nexthdr);
        Some (uint nexthdr, nh\<lparr>pos := ip6h + sizeof_ipv6hdr\<rparr>, Some ip6h)
      })"

text \<open>The 4-bit header length fields: \<^verbatim>\<open>ihl\<close> is the low nibble of the first byte
  of the IPv4 header, \<^verbatim>\<open>doff\<close> the high nibble of byte 12 of the TCP header.\<close>

definition parse_iphdr :: "bytes \<Rightarrow> nat \<Rightarrow> hdr_cursor \<Rightarrow> parse_result" where
  "parse_iphdr p data_end nh =
     (let iph = pos nh in
      if iph + sizeof_iphdr > data_end then Some (-1, nh, None)
      else do {
        b \<leftarrow> load8 p (iph + ip_ihl);
        (let hdrsize = unat (b AND 0x0f) * 4 in
         if hdrsize < sizeof_iphdr then Some (-1, nh, None)
         else if pos nh + hdrsize > data_end then Some (-1, nh, None)
         else do {
           protocol \<leftarrow> load8 p (iph + ip_protocol);
           Some (uint protocol, nh\<lparr>pos := pos nh + hdrsize\<rparr>, Some iph)
         })
      })"

definition parse_icmp6hdr :: "bytes \<Rightarrow> nat \<Rightarrow> hdr_cursor \<Rightarrow> parse_result" where
  "parse_icmp6hdr p data_end nh =
     (let icmp6h = pos nh in
      if icmp6h + sizeof_icmp6hdr > data_end then Some (-1, nh, None)
      else do {
        t \<leftarrow> load8 p (icmp6h + icmp_type);
        Some (uint t, nh\<lparr>pos := icmp6h + sizeof_icmp6hdr\<rparr>, Some icmp6h)
      })"

definition parse_icmphdr :: "bytes \<Rightarrow> nat \<Rightarrow> hdr_cursor \<Rightarrow> parse_result" where
  "parse_icmphdr p data_end nh =
     (let icmph = pos nh in
      if icmph + sizeof_icmphdr > data_end then Some (-1, nh, None)
      else do {
        t \<leftarrow> load8 p (icmph + icmp_type);
        Some (uint t, nh\<lparr>pos := icmph + sizeof_icmphdr\<rparr>, Some icmph)
      })"

definition parse_icmphdr_common :: "bytes \<Rightarrow> nat \<Rightarrow> hdr_cursor \<Rightarrow> parse_result" where
  "parse_icmphdr_common p data_end nh =
     (let h = pos nh in
      if h + sizeof_icmphdr_common > data_end then Some (-1, nh, None)
      else do {
        t \<leftarrow> load8 p (h + icmp_type);
        Some (uint t, nh\<lparr>pos := h + sizeof_icmphdr_common\<rparr>, Some h)
      })"

text \<open>\<^verbatim>\<open>len = bpf_ntohs(h->len) - sizeof(struct udphdr)\<close> is computed in
  \<^verbatim>\<open>size_t\<close> and truncated to \<^verbatim>\<open>int\<close>.\<close>

definition udp_payload_len :: "u16 \<Rightarrow> int" where
  "udp_payload_len l = sint (ucast ((ucast (bpf_ntohs l) :: u64) - 8) :: u32)"

definition parse_udphdr :: "bytes \<Rightarrow> nat \<Rightarrow> hdr_cursor \<Rightarrow> parse_result" where
  "parse_udphdr p data_end nh =
     (let h = pos nh in
      if h + sizeof_udphdr > data_end then Some (-1, nh, None)
      else do {
        l \<leftarrow> load16 p (h + udp_len);
        (let len = udp_payload_len l;
             nh' = nh\<lparr>pos := h + sizeof_udphdr\<rparr>
         in if len < 0 then Some (-1, nh', Some h) else Some (len, nh', Some h))
      })"

definition parse_tcphdr :: "bytes \<Rightarrow> nat \<Rightarrow> hdr_cursor \<Rightarrow> parse_result" where
  "parse_tcphdr p data_end nh =
     (let h = pos nh in
      if h + sizeof_tcphdr > data_end then Some (-1, nh, None)
      else do {
        b \<leftarrow> load8 p (h + tcp_doff);
        (let len = unat (drop_bit 4 b) * 4 in
         if len < sizeof_tcphdr then Some (-1, nh, None)
         else if pos nh + len > data_end then Some (-1, nh, None)
         else Some (int len, nh\<lparr>pos := pos nh + len\<rparr>, Some h))
      })"

subsection \<open>The contract of a parsing helper\<close>

locale hdr_parser =
  fixes parse :: "bytes \<Rightarrow> nat \<Rightarrow> hdr_cursor \<Rightarrow> parse_result"
    and hdrlen :: nat
  assumes total: "data_end \<le> length p \<Longrightarrow> parse p data_end nh \<noteq> None"
    and too_short: "data_end < pos nh + hdrlen \<Longrightarrow> parse p data_end nh = Some (-1, nh, None)"
    and failed: "parse p data_end nh = Some (r, nh', None) \<Longrightarrow> r = -1 \<and> nh' = nh"
    and parsed: "parse p data_end nh = Some (r, nh', Some h) \<Longrightarrow>
      h = pos nh \<and> pos nh + hdrlen \<le> pos nh' \<and> pos nh' \<le> data_end"
begin

lemma returns:
  assumes "data_end \<le> length p"
  obtains r nh' h where "parse p data_end nh = Some (r, nh', h)"
  using total [OF assms, of nh] by (cases "parse p data_end nh") auto

lemma cursor_forward: "parse p data_end nh = Some (r, nh', h) \<Longrightarrow> pos nh \<le> pos nh'"
  by (cases h) (auto dest: failed parsed)

lemma cursor_in_packet:
  "parse p data_end nh = Some (r, nh', h) \<Longrightarrow> pos nh \<le> data_end \<Longrightarrow> pos nh' \<le> data_end"
  by (cases h) (auto dest: failed parsed)

lemma header_in_packet:
  "parse p data_end nh = Some (r, nh', Some h) \<Longrightarrow> h + hdrlen \<le> data_end"
  by (auto dest: parsed)

lemma nonneg_parsed:
  "parse p data_end nh = Some (r, nh', h) \<Longrightarrow> r \<noteq> -1 \<Longrightarrow> h = Some (pos nh)"
  by (cases h) (auto dest: failed parsed)

end

subsection \<open>Every helper satisfies it\<close>

lemma vlan_loop_returns:
  assumes "data_end \<le> length p" and "n + i = VLAN_MAX_DEPTH"
    and "\<forall>v. vlans = Some v \<longrightarrow> length (vlan_id v) = VLAN_MAX_DEPTH"
  shows "\<exists>vlh' h' vlans'. vlan_loop n i p data_end vlh h vlans = Some (vlh', h', vlans')
      \<and> vlh \<le> vlh' \<and> vlh' \<le> vlh + n * sizeof_vlan_hdr \<and> (vlh \<le> data_end \<longrightarrow> vlh' \<le> data_end)"
  using assms(2,3)
proof (induction n arbitrary: i vlh h vlans)
  case 0
  then show ?case by simp
next
  case (Suc n)
  show ?case
  proof (cases "proto_is_vlan h \<and> vlh + 4 \<le> data_end")
    case False
    then show ?thesis by auto
  next
    case True
    with assms(1) have in_p: "vlh + 4 \<le> length p" by simp
    obtain vlans' where c: "collect_vlan p i vlh vlans = Some vlans'"
      and l: "\<forall>v. vlans' = Some v \<longrightarrow> length (vlan_id v) = 2"
      using Suc.prems in_p
      by (cases vlans) (auto simp: collect_vlan_def mem_simps intro!: that)
    obtain h' where h': "load16 p (vlh + 2) = Some h'"
      using in_p by (simp add: mem_simps)
    from Suc.IH [of "Suc i" vlans' "vlh + 4" h'] Suc.prems l True
    show ?thesis by (auto simp: c h' [simplified])
  qed
qed

lemma vlan_loop_pos:
  "vlan_loop n i p data_end vlh h vlans = Some (vlh', h', vlans') \<Longrightarrow>
   vlh \<le> vlh' \<and> (vlh \<le> data_end \<longrightarrow> vlh' \<le> data_end)"
  by (induction n arbitrary: i vlh h vlans)
    (fastforce split: if_splits simp: bind_eq_Some_conv)+

lemma parse_ethhdr_vlan_total:
  assumes "data_end \<le> length p"
    and "\<forall>v. vlans = Some v \<longrightarrow> length (vlan_id v) = VLAN_MAX_DEPTH"
  shows "parse_ethhdr_vlan p data_end nh vlans \<noteq> None"
proof (cases "pos nh + 14 \<le> data_end")
  case False
  then show ?thesis by (simp add: parse_ethhdr_vlan_def)
next
  case True
  then obtain h where h: "load16 p (pos nh + 12) = Some h"
    using assms(1) by (simp add: load16_def)
  obtain vlh' h' vlans' where
    "vlan_loop 2 0 p data_end (pos nh + 14) h vlans = Some (vlh', h', vlans')"
    using vlan_loop_returns [OF assms(1) _ assms(2), of 2 0 "pos nh + 14" h] by auto
  with True h show ?thesis by (simp add: parse_ethhdr_vlan_def Let_def)
qed

interpretation eth: hdr_parser parse_ethhdr sizeof_ethhdr
proof
  fix p :: bytes and data_end :: nat and nh :: hdr_cursor
  assume "data_end \<le> length p"
  then show "parse_ethhdr p data_end nh \<noteq> None"
    using parse_ethhdr_vlan_total [of data_end p None nh] by (auto simp: parse_ethhdr_def)
next
  fix p :: bytes and data_end r and nh nh' :: hdr_cursor and h
  assume "parse_ethhdr p data_end nh = Some (r, nh', Some h)"
  then show "h = pos nh \<and> pos nh + 14 \<le> pos nh' \<and> pos nh' \<le> data_end"
    by (auto simp: parse_ethhdr_def parse_ethhdr_vlan_def bind_eq_Some_conv Let_def
        split: if_splits dest: vlan_loop_pos)
qed (auto simp: parse_ethhdr_def parse_ethhdr_vlan_def bind_eq_Some_conv Let_def split: if_splits)

interpretation ip6: hdr_parser parse_ip6hdr sizeof_ipv6hdr
  by unfold_locales
    (auto simp: parse_ip6hdr_def bind_eq_Some_conv Let_def mem_simps split: if_splits)

interpretation ip4: hdr_parser parse_iphdr sizeof_iphdr
  by unfold_locales
    (auto simp: parse_iphdr_def bind_eq_Some_conv Let_def mem_simps split: if_splits)

interpretation icmp6: hdr_parser parse_icmp6hdr sizeof_icmp6hdr
  by unfold_locales
    (auto simp: parse_icmp6hdr_def bind_eq_Some_conv Let_def mem_simps split: if_splits)

interpretation icmp4: hdr_parser parse_icmphdr sizeof_icmphdr
  by unfold_locales
    (auto simp: parse_icmphdr_def bind_eq_Some_conv Let_def mem_simps split: if_splits)

interpretation icmpc: hdr_parser parse_icmphdr_common sizeof_icmphdr_common
  by unfold_locales
    (auto simp: parse_icmphdr_common_def bind_eq_Some_conv Let_def mem_simps split: if_splits)

interpretation udp: hdr_parser parse_udphdr sizeof_udphdr
  by unfold_locales
    (auto simp: parse_udphdr_def bind_eq_Some_conv Let_def mem_simps split: if_splits)

interpretation tcp: hdr_parser parse_tcphdr sizeof_tcphdr
  by unfold_locales
    (auto simp: parse_tcphdr_def bind_eq_Some_conv Let_def mem_simps split: if_splits)

subsection \<open>Tagged Ethernet frames\<close>

text \<open>A frame on the wire: both MAC addresses, the VLAN tags (TPID and TCI, big-endian), the
  EtherType and the payload.\<close>

definition be16 :: "u16 \<Rightarrow> bytes" where
  "be16 w = [hi8 w, lo8 w]"

definition enc_tag :: "u16 \<times> u16 \<Rightarrow> bytes" where
  "enc_tag t = be16 (fst t) @ be16 (snd t)"

definition eth_frame :: "bytes \<Rightarrow> (u16 \<times> u16) list \<Rightarrow> u16 \<Rightarrow> bytes \<Rightarrow> bytes" where
  "eth_frame macs tags ethertype payload =
     macs @ concat (map enc_tag tags) @ be16 ethertype @ payload"

definition is_vlan_tpid :: "u16 \<Rightarrow> bool" where
  "is_vlan_tpid w \<longleftrightarrow> w = ETH_P_8021Q \<or> w = ETH_P_8021AD"

definition outer_type :: "(u16 \<times> u16) list \<Rightarrow> u16 \<Rightarrow> u16" where
  "outer_type tags ethertype = (case tags of [] \<Rightarrow> ethertype | t # _ \<Rightarrow> fst t)"

lemma proto_is_vlan_htons [simp]: "proto_is_vlan (bpf_htons w) \<longleftrightarrow> is_vlan_tpid w"
  by (simp only: proto_is_vlan_def is_vlan_tpid_def bpf_htons_eq_iff)

lemma load16_be16: "drop a p = be16 w @ rest \<Longrightarrow> load16 p a = Some (bpf_htons w)"
proof -
  assume d: "drop a p = be16 w @ rest"
  then have "length p - a = Suc (Suc (length rest))"
    by (metis be16_def length_Cons length_append length_drop list.size(3) plus_nat.simps)
  then have l: "a + 2 \<le> length p" by simp
  moreover have "p ! a = hi8 w" "p ! (a + 1) = lo8 w"
    using l d nth_drop [of a p 0] nth_drop [of a p 1] by (simp_all add: be16_def)
  ultimately show ?thesis by (simp add: load16_def bpf_htons_def bswap16_def)
qed

lemma enc_cons:
  "concat (map enc_tag (t # ts)) @ be16 et @ pl =
     be16 (fst t) @ be16 (snd t) @ concat (map enc_tag ts) @ be16 et @ pl"
  by (simp add: enc_tag_def)

lemma enc_outer:
  "\<exists>rest. concat (map enc_tag ts) @ be16 et @ pl = be16 (outer_type ts et) @ rest"
  by (cases ts) (auto simp: outer_type_def enc_tag_def)

lemma drop_be16: "drop a p = be16 w @ rest \<Longrightarrow> drop (a + 2) p = rest"
  by (metis add.commute append_eq_conv_conj be16_def drop_drop list.size(3,4) numeral_2_eq_2
      One_nat_def add_Suc_right add_0_right)

lemma vlan_loop_tags:
  assumes "drop a p = concat (map enc_tag ts) @ be16 et @ pl"
    and "length ts \<le> n" and "n + i = VLAN_MAX_DEPTH" and "\<not> is_vlan_tpid et"
    and "\<forall>t \<in> set ts. is_vlan_tpid (fst t)" and "length (vlan_id v) = VLAN_MAX_DEPTH"
  shows "vlan_loop n i p (length p) (a + 2) (bpf_htons (outer_type ts et)) (Some v) =
     Some (a + 2 + 4 * length ts, bpf_htons et,
       Some (v\<lparr>vlan_id := take i (vlan_id v) @ map (\<lambda>t. snd t AND VLAN_VID_MASK) ts
                             @ drop (i + length ts) (vlan_id v)\<rparr>))"
  using assms
proof (induction ts arbitrary: a n i v)
  case Nil
  then show ?case by (cases n) (simp_all add: outer_type_def)
next
  case (Cons t ts)
  then obtain m where n: "n = Suc m" by (cases n) auto
  let ?rest = "concat (map enc_tag ts) @ be16 et @ pl"
  have d0: "drop a p = be16 (fst t) @ be16 (snd t) @ ?rest"
    using Cons.prems(1) by (simp only: enc_cons)
  then have d2: "drop (a + 2) p = be16 (snd t) @ ?rest" by (rule drop_be16)
  then have d4: "drop (a + 4) p = ?rest" using drop_be16 [OF d2] by (simp only: add.assoc numeral_plus_numeral Num.add_num_simps)
  obtain rest' where r: "?rest = be16 (outer_type ts et) @ rest'" using enc_outer by blast
  have tci: "load16 p (a + 2) = Some (bpf_htons (snd t))" using d2 by (rule load16_be16)
  have nxt: "load16 p (a + 4) = Some (bpf_htons (outer_type ts et))"
    using d4 r by (simp add: load16_be16)
  then have len: "a + 6 \<le> length p" by (simp add: load16_def split: if_splits)
  define v' where "v' = v\<lparr>vlan_id := (vlan_id v)[i := snd t AND 0xfff]\<rparr>"
  have i: "i < 2" using Cons.prems(3) n by simp
  have c: "collect_vlan p i (a + 2) (Some v) = Some (Some v')"
    using tci i Cons.prems(6) by (simp add: collect_vlan_def v'_def)
  have IH: "vlan_loop m (Suc i) p (length p) (a + 4 + 2) (bpf_htons (outer_type ts et)) (Some v') =
     Some (a + 4 + 2 + 4 * length ts, bpf_htons et,
       Some (v'\<lparr>vlan_id := take (Suc i) (vlan_id v') @ map (\<lambda>t. snd t AND 0xfff) ts
                             @ drop (Suc i + length ts) (vlan_id v')\<rparr>))"
    using Cons.prems n d4 by (intro Cons.IH) (simp_all add: v'_def)
  have ids: "take (Suc i) (vlan_id v') @ map (\<lambda>t. snd t AND 0xfff) ts
        @ drop (Suc i + length ts) (vlan_id v')
      = take i (vlan_id v) @ map (\<lambda>t. snd t AND 0xfff) (t # ts)
        @ drop (i + length (t # ts)) (vlan_id v)"
    using i Cons.prems(6) by (simp add: v'_def take_Suc_conv_app_nth)
  have "is_vlan_tpid (fst t)" using Cons.prems(5) by simp
  then have "vlan_loop n i p (length p) (a + 2) (bpf_htons (outer_type (t # ts) et)) (Some v)
      = vlan_loop m (Suc i) p (length p) (a + 4 + 2) (bpf_htons (outer_type ts et)) (Some v')"
    using len c nxt by (simp add: n outer_type_def add.commute)
  also note IH
  finally show ?case using ids by (simp add: v'_def)
qed

lemma parse_ethhdr_frame:
  assumes "length macs = 12" and "length tags \<le> VLAN_MAX_DEPTH"
    and "\<forall>t \<in> set tags. is_vlan_tpid (fst t)" and "\<not> is_vlan_tpid ethertype"
    and "length (vlan_id v) = VLAN_MAX_DEPTH"
    and p: "p = eth_frame macs tags ethertype payload"
  shows "parse_ethhdr_vlan p (length p) \<lparr>pos = 0\<rparr> (Some v) =
     Some (uint (bpf_htons ethertype), \<lparr>pos = 14 + 4 * length tags\<rparr>, Some 0,
       Some (v\<lparr>vlan_id := map (\<lambda>t. snd t AND VLAN_VID_MASK) tags
                             @ drop (length tags) (vlan_id v)\<rparr>))"
proof -
  have d: "drop 12 p = concat (map enc_tag tags) @ be16 ethertype @ payload"
    using assms(1) by (simp add: p eth_frame_def)
  obtain rest where "concat (map enc_tag tags) @ be16 ethertype @ payload
      = be16 (outer_type tags ethertype) @ rest"
    using enc_outer by blast
  with d have l: "load16 p 12 = Some (bpf_htons (outer_type tags ethertype))"
    by (simp add: load16_be16)
  have len: "14 \<le> length p"
    using assms(1) by (simp add: p eth_frame_def be16_def)
  show ?thesis
    using len l vlan_loop_tags [OF d assms(2) _ assms(4,3,5), of 0]
    by (simp add: parse_ethhdr_vlan_def)
qed

subsection \<open>Payload lengths\<close>

lemma udp_payload_len_eq: "udp_payload_len l = uint (bpf_ntohs l) - 8"
proof -
  let ?x = "uint (bpf_ntohs l)"
  have x: "0 \<le> ?x" "?x < 65536"
    using unsigned_less [of "bpf_ntohs l"] by simp_all
  have "uint ((ucast (bpf_ntohs l) :: u64) - 8) = (?x - 8) mod 2 ^ 64"
    using x by (simp add: uint_word_ariths unsigned_ucast_eq take_bit_int_eq_self)
  also have "\<dots> = ?x - 8 + (if ?x < 8 then 2 ^ 64 else 0)"
  proof (cases "?x < 8")
    case True
    have "(?x - 8) mod 2 ^ 64 = (?x - 8 + 2 ^ 64) mod 2 ^ 64" by (simp only: mod_add_self2)
    also have "\<dots> = ?x - 8 + 2 ^ 64" using x True by (intro mod_pos_pos_trivial) simp_all
    finally show ?thesis using True by simp
  next
    case False
    with x show ?thesis by simp
  qed
  finally have u: "uint ((ucast (bpf_ntohs l) :: u64) - 8)
      = ?x - 8 + (if ?x < 8 then 2 ^ 64 else 0)" .
  have "(ucast ((ucast (bpf_ntohs l) :: u64) - 8) :: u32)
      = word_of_int (uint ((ucast (bpf_ntohs l) :: u64) - 8))"
    by simp
  also have "\<dots> = word_of_int (?x - 8)"
    unfolding u by (simp only: of_int_add) simp
  finally have "(ucast ((ucast (bpf_ntohs l) :: u64) - 8) :: u32) = word_of_int (?x - 8)" .
  then have "udp_payload_len l = signed_take_bit 31 (?x - 8)"
    by (simp only: udp_payload_len_def signed_of_int) simp
  then show ?thesis
    using x by (simp add: signed_take_bit_int_eq_self)
qed

subsection \<open>Properties\<close>

text \<open>C27. Parsing inverts building: from a frame with up to two VLAN tags
  \<^verbatim>\<open>parse_ethhdr_vlan\<close> returns the EtherType (in network byte order), leaves the cursor at
  the payload, and collects the VLAN identifiers of the tags in order, masked to 12 bits.\<close>

theorem parse_ethhdr_vlan_round_trip:
  assumes "length macs = 12" and "length tags \<le> VLAN_MAX_DEPTH"
    and "\<forall>t \<in> set tags. is_vlan_tpid (fst t)" and "\<not> is_vlan_tpid ethertype"
    and "length (vlan_id v) = VLAN_MAX_DEPTH"
  shows "parse_ethhdr_vlan (eth_frame macs tags ethertype payload)
      (length (eth_frame macs tags ethertype payload)) \<lparr>pos = 0\<rparr> (Some v) =
     Some (uint (bpf_htons ethertype), \<lparr>pos = 14 + 4 * length tags\<rparr>, Some 0,
       Some (v\<lparr>vlan_id := map (\<lambda>t. snd t AND VLAN_VID_MASK) tags
                             @ drop (length tags) (vlan_id v)\<rparr>))"
  using assms by (intro parse_ethhdr_frame) simp_all

theorem parse_ethhdr_vlan_round_trip_witness:
  "parse_ethhdr_vlan (eth_frame [1,2,3,4,5,6,7,8,9,10,11,12] [(ETH_P_8021AD, 0x6005), (ETH_P_8021Q, 7)] ETH_P_IP [69])
      (length (eth_frame [1,2,3,4,5,6,7,8,9,10,11,12] [(ETH_P_8021AD, 0x6005), (ETH_P_8021Q, 7)] ETH_P_IP [69]))
      \<lparr>pos = 0\<rparr> (Some \<lparr>vlan_id = [0, 0]\<rparr>) =
     Some (8, \<lparr>pos = 22\<rparr>, Some 0, Some \<lparr>vlan_id = [5, 7]\<rparr>)"
  using parse_ethhdr_vlan_round_trip [of "[1,2,3,4,5,6,7,8,9,10,11,12]"
      "[(ETH_P_8021AD, 0x6005), (ETH_P_8021Q, 7)]" ETH_P_IP "\<lparr>vlan_id = [0, 0]\<rparr>" "[69]"]
  by (simp add: is_vlan_tpid_def bpf_htons_def bswap16_def le16_def hi8_def lo8_def)

text \<open>C28. Every parsing helper is memory safe: with \<^verbatim>\<open>data_end\<close> inside the packet it never
  reads outside it, a header it returns lies wholly before \<^verbatim>\<open>data_end\<close>, and the cursor never
  leaves the packet.\<close>

theorem parsers_memory_safe:
  assumes "(parse, hdrlen) \<in> {(parse_ethhdr, 14), (parse_ip6hdr, 40), (parse_iphdr, 20),
      (parse_icmp6hdr, 8), (parse_icmphdr, 8), (parse_icmphdr_common, 4), (parse_udphdr, 8),
      (parse_tcphdr, 20)}"
    and "data_end \<le> length p" and "pos nh \<le> data_end"
  shows "\<exists>r nh' h. parse p data_end nh = Some (r, nh', h) \<and> pos nh \<le> pos nh' \<and> pos nh' \<le> data_end
    \<and> (\<forall>a. h = Some a \<longrightarrow> a = pos nh \<and> a + hdrlen \<le> data_end) \<and> (h = None \<longrightarrow> r = -1 \<and> nh' = nh)"
proof -
  have P: "hdr_parser parse hdrlen"
    using assms(1) eth.hdr_parser_axioms ip6.hdr_parser_axioms ip4.hdr_parser_axioms
      icmp6.hdr_parser_axioms icmp4.hdr_parser_axioms icmpc.hdr_parser_axioms udp.hdr_parser_axioms
      tcp.hdr_parser_axioms
    by auto
  obtain r nh' h where r: "parse p data_end nh = Some (r, nh', h)"
    using hdr_parser.returns [OF P assms(2)] by blast
  have "\<forall>a. h = Some a \<longrightarrow> a = pos nh \<and> a + hdrlen \<le> data_end"
    using hdr_parser.parsed [OF P] hdr_parser.header_in_packet [OF P] r by blast
  with r show ?thesis
    using hdr_parser.cursor_forward [OF P r] hdr_parser.cursor_in_packet [OF P r assms(3)]
      hdr_parser.failed [OF P] by auto
qed

theorem parsers_memory_safe_witness:
  "\<exists>r nh' h. parse_iphdr [0x45, 0, 0] 3 \<lparr>pos = 0\<rparr> = Some (r, nh', h) \<and> 0 \<le> pos nh' \<and> pos nh' \<le> 3
    \<and> (\<forall>a. h = Some a \<longrightarrow> a = 0 \<and> a + 20 \<le> 3) \<and> (h = None \<longrightarrow> r = -1 \<and> nh' = \<lparr>pos = 0\<rparr>)"
  using parsers_memory_safe [of parse_iphdr 20 3 "[0x45, 0, 0]" "\<lparr>pos = 0\<rparr>"] by simp

text \<open>\<^verbatim>\<open>parse_udphdr\<close> computes the payload length at \<^verbatim>\<open>size_t\<close> width and
  truncates it to \<^verbatim>\<open>int\<close>; the result is nevertheless the exact difference of the length
  field and the header size, so that a length field below 8 is rejected and every other accepted.\<close>

theorem parse_udphdr_length:
  assumes "pos nh + 8 \<le> data_end" and "data_end \<le> length p"
    and "load16 p (pos nh + udp_len) = Some l"
  shows "parse_udphdr p data_end nh =
    Some (if uint (bpf_ntohs l) < 8 then -1 else uint (bpf_ntohs l) - 8, \<lparr>pos = pos nh + 8\<rparr>, Some (pos nh))"
  using assms by (simp add: parse_udphdr_def udp_payload_len_eq Let_def)

theorem parse_udphdr_length_witness:
  "parse_udphdr [0, 1, 0, 2, 0, 12, 0, 0] 8 \<lparr>pos = 0\<rparr> = Some (4, \<lparr>pos = 8\<rparr>, Some 0)"
  using parse_udphdr_length [of "\<lparr>pos = 0\<rparr>" 8 "[0, 1, 0, 2, 0, 12, 0, 0]" "le16 0 12"]
  by (simp add: load16_def bpf_ntohs_def bswap16_def le16_def hi8_def lo8_def)

end
