(* ===== verification/Rewrite.thy ===== *)
theory Rewrite
  imports Parsing
begin

text \<open>
  The packet rewriting helpers of \<^verbatim>\<open>common/rewrite_helpers.h\<close>: popping and pushing
  an 802.1Q tag and swapping source and destination addresses.

  \<^verbatim>\<open>bpf_xdp_adjust_head\<close> is a kernel helper: a parameter of the two tag operations, with
  the behaviour documented in \<^verbatim>\<open>headers/linux/bpf.h\<close> as the predicate
  \<open>adjust_head_ok\<close> (on success \<^verbatim>\<open>ctx->data\<close> moves by exactly the requested number of
  bytes; bytes gained in front have unknown contents). The effect of the tag operations is stated
  on the wire format \<open>eth_frame\<close> of the parsing theory.
\<close>

record xdp_md =
  pkt :: bytes
  ingress_ifindex :: u32
  rx_queue_index :: u32

type_synonym adjust_head = "xdp_md \<Rightarrow> int \<Rightarrow> xdp_md option"

definition adjust_head_ok :: "adjust_head \<Rightarrow> bool" where
  "adjust_head_ok adj \<longleftrightarrow>
     (\<forall>ctx d ctx'. adj ctx d = Some ctx' \<longrightarrow>
        (if 0 \<le> d
         then nat d \<le> length (pkt ctx) \<and> ctx' = ctx\<lparr>pkt := drop (nat d) (pkt ctx)\<rparr>
         else \<exists>g. length g = nat (- d) \<and> ctx' = ctx\<lparr>pkt := g @ pkt ctx\<rparr>))"

subsection \<open>VLAN tags\<close>

definition vlan_tag_pop :: "adjust_head \<Rightarrow> xdp_md \<Rightarrow> ptr \<Rightarrow> (int \<times> xdp_md) option" where
  "vlan_tag_pop adj ctx eth =
     do {
       let data_end = length (pkt ctx);
       outer \<leftarrow> load16 (pkt ctx) (eth + eth_h_proto);
       if \<not> proto_is_vlan outer then Some (-1, ctx)
       else do {
         let vlh = eth + sizeof_ethhdr;
         if vlh + sizeof_vlan_hdr > data_end then Some (-1, ctx)
         else do {
           tci \<leftarrow> load16 (pkt ctx) (vlh + vlan_h_TCI);
           let vlid = uint (bpf_ntohs tci);
           h_proto \<leftarrow> load16 (pkt ctx) (vlh + vlan_h_encap_proto);
           eth_cpy \<leftarrow> load_bytes (pkt ctx) eth sizeof_ethhdr;
           (case adj ctx (int sizeof_vlan_hdr) of
              None \<Rightarrow> Some (-1, ctx)
            | Some ctx' \<Rightarrow>
                let eth' = 0; data_end' = length (pkt ctx') in
                if eth' + sizeof_ethhdr > data_end' then Some (-1, ctx')
                else do {
                  m \<leftarrow> store_bytes (pkt ctx') eth' eth_cpy;
                  m \<leftarrow> store16 m (eth' + eth_h_proto) h_proto;
                  Some (vlid, ctx'\<lparr>pkt := m\<rparr>)
                })
         }
       }
     }"

definition vlan_tag_push :: "adjust_head \<Rightarrow> xdp_md \<Rightarrow> ptr \<Rightarrow> int \<Rightarrow> (int \<times> xdp_md) option" where
  "vlan_tag_push adj ctx eth vlid =
     do {
       eth_cpy \<leftarrow> load_bytes (pkt ctx) eth sizeof_ethhdr;
       (case adj ctx (0 - int sizeof_vlan_hdr) of
          None \<Rightarrow> Some (-1, ctx)
        | Some ctx' \<Rightarrow>
            let data_end = length (pkt ctx'); eth' = 0 in
            if eth' + sizeof_ethhdr > data_end then Some (-1, ctx')
            else do {
              m \<leftarrow> store_bytes (pkt ctx') eth' eth_cpy;
              let vlh = eth' + sizeof_ethhdr;
              if vlh + sizeof_vlan_hdr > data_end then Some (-1, ctx'\<lparr>pkt := m\<rparr>)
              else do {
                m \<leftarrow> store16 m (vlh + vlan_h_TCI) (bpf_htons (word_of_int vlid));
                h_proto \<leftarrow> load16 m (eth' + eth_h_proto);
                m \<leftarrow> store16 m (vlh + vlan_h_encap_proto) h_proto;
                m \<leftarrow> store16 m (eth' + eth_h_proto) (bpf_htons ETH_P_8021Q);
                Some (0, ctx'\<lparr>pkt := m\<rparr>)
              }
            })
     }"

subsection \<open>Swapping addresses\<close>

text \<open>The three-copy exchange through a temporary that the swap helpers share: the field at
  \<open>a\<close> is saved, overwritten with the field at \<open>b\<close>, and the saved value stored at \<open>b\<close>.\<close>

definition swap_mem :: "bytes \<Rightarrow> ptr \<Rightarrow> ptr \<Rightarrow> nat \<Rightarrow> bytes option" where
  "swap_mem m a b n =
     do {
       tmp \<leftarrow> load_bytes m a n;
       v \<leftarrow> load_bytes m b n;
       m \<leftarrow> store_bytes m a v;
       store_bytes m b tmp
     }"

definition swap_src_dst_mac :: "bytes \<Rightarrow> ptr \<Rightarrow> bytes option" where
  "swap_src_dst_mac m eth = swap_mem m (eth + eth_h_source) (eth + eth_h_dest) ETH_ALEN"

definition swap_src_dst_ipv6 :: "bytes \<Rightarrow> ptr \<Rightarrow> bytes option" where
  "swap_src_dst_ipv6 m ipv6 = swap_mem m (ipv6 + ip6_saddr) (ipv6 + ip6_daddr) 16"

definition swap_src_dst_ipv4 :: "bytes \<Rightarrow> ptr \<Rightarrow> bytes option" where
  "swap_src_dst_ipv4 m iphdr = swap_mem m (iphdr + ip_saddr) (iphdr + ip_daddr) 4"

text \<open>What the exchange computes: position \<open>i\<close> of the result is read from
  \<open>swap_idx a b n i\<close>.\<close>

definition swap_idx :: "nat \<Rightarrow> nat \<Rightarrow> nat \<Rightarrow> nat \<Rightarrow> nat" where
  "swap_idx a b n i =
     (if a \<le> i \<and> i < a + n then b + (i - a)
      else if b \<le> i \<and> i < b + n then a + (i - b) else i)"

lemma swap_mem_eq:
  assumes "a + n \<le> length m" and "b + n \<le> length m" and "a + n \<le> b \<or> b + n \<le> a"
  shows "swap_mem m a b n = Some (map (\<lambda>i. m ! swap_idx a b n i) [0..<length m])"
proof -
  define x where "x = take n (drop a m)"
  define y where "y = take n (drop b m)"
  define m1 where "m1 = take a m @ y @ drop (a + n) m"
  have lens: "length x = n" "length y = n" "length m1 = length m"
    using assms by (simp_all add: x_def y_def m1_def)
  have n1: "m1 ! i = (if a \<le> i \<and> i < a + n then m ! (b + (i - a)) else m ! i)" for i
    using nth_splice [of a y m i] lens assms by (auto simp: m1_def y_def)
  have "swap_mem m a b n = Some (take b m1 @ x @ drop (b + n) m1)"
    using assms lens by (simp add: swap_mem_def mem_simps x_def y_def m1_def)
  also have "take b m1 @ x @ drop (b + n) m1 = map (\<lambda>i. m ! swap_idx a b n i) [0..<length m]"
  proof (rule nth_equalityI)
    fix i assume "i < length (take b m1 @ x @ drop (b + n) m1)"
    then show "(take b m1 @ x @ drop (b + n) m1) ! i
        = map (\<lambda>i. m ! swap_idx a b n i) [0..<length m] ! i"
      using nth_splice [of b x m1 i] lens assms by (auto simp: n1 x_def swap_idx_def)
  qed (use assms lens in simp)
  finally show ?thesis .
qed

lemma swap_idx_swap_idx:
  "a + n \<le> b \<or> b + n \<le> a \<Longrightarrow> swap_idx a b n (swap_idx a b n i) = i"
  by (auto simp: swap_idx_def)

lemma swap_idx_less:
  "a + n \<le> l \<Longrightarrow> b + n \<le> l \<Longrightarrow> i < l \<Longrightarrow> swap_idx a b n i < l"
  by (auto simp: swap_idx_def)

lemma swap_mem_twice:
  assumes "a + n \<le> length m" and "b + n \<le> length m" and "a + n \<le> b \<or> b + n \<le> a"
  shows "(swap_mem m a b n \<bind> (\<lambda>m'. swap_mem m' a b n)) = Some m"
proof -
  let ?m = "map (\<lambda>i. m ! swap_idx a b n i) [0..<length m]"
  have "map (\<lambda>i. ?m ! swap_idx a b n i) [0..<length m] = m"
    using assms by (intro nth_equalityI) (simp_all add: swap_idx_less swap_idx_swap_idx)
  then show ?thesis using assms by (simp add: swap_mem_eq)
qed

lemma swap_mem_None:
  "a + n \<le> b \<or> b + n \<le> a \<Longrightarrow>
   swap_mem m a b n = None \<longleftrightarrow> length m < a + n \<or> length m < b + n"
  by (cases "a + n \<le> length m"; cases "b + n \<le> length m")
    (auto simp: swap_mem_eq, auto simp: swap_mem_def load_bytes_def)

lemma swap_mem_append:
  assumes "length xs = n" and "length ys = n" and "a = length A" and "b = length A + n + length B"
  shows "swap_mem (A @ xs @ B @ ys @ C) a b n = Some (A @ ys @ B @ xs @ C)"
  using assms by (simp add: swap_mem_def mem_simps)

subsection \<open>The effect of pop and push on frames\<close>

lemma adjust_head_shrink:
  "adjust_head_ok adj \<Longrightarrow> adj ctx (int n) = Some ctx' \<Longrightarrow>
   n \<le> length (pkt ctx) \<and> ctx' = ctx\<lparr>pkt := drop n (pkt ctx)\<rparr>"
  by (force simp: adjust_head_ok_def)

lemma adjust_head_grow:
  assumes "adjust_head_ok adj" and "adj ctx (- int n) = Some ctx'" and "0 < n"
  obtains g where "length g = n" and "ctx' = ctx\<lparr>pkt := g @ pkt ctx\<rparr>"
proof -
  from assms have "\<exists>g. length g = nat (- (- int n)) \<and> ctx' = ctx\<lparr>pkt := g @ pkt ctx\<rparr>"
    unfolding adjust_head_ok_def by (metis neg_0_le_iff_le of_nat_0_less_iff not_le)
  with that show thesis by auto
qed

lemma be16_htons: "[lo8 (bpf_htons w), hi8 (bpf_htons w)] = be16 w"
  by (simp add: be16_def bpf_htons_def bswap16_def)

lemma length_be16 [simp]: "length (be16 w) = 2"
  by (simp add: be16_def)

lemma store16_at:
  "length xs = n \<Longrightarrow> length ab = 2 \<Longrightarrow>
   store16 (xs @ ab @ ys) n (bpf_htons w) = Some (xs @ be16 w @ ys)"
  by (auto simp: store16_def list_update_append be16_htons [symmetric] length_Suc_conv numeral_2_eq_2)

lemma load16_at: "length xs = n \<Longrightarrow> load16 (xs @ be16 w @ ys) n = Some (bpf_htons w)"
  by (rule load16_be16) simp

lemma eth_frame_outer:
  obtains rest where "eth_frame macs tags et pl = macs @ be16 (outer_type tags et) @ rest"
    and "\<And>t. eth_frame macs (t # tags) et pl =
      macs @ be16 (fst t) @ be16 (snd t) @ be16 (outer_type tags et) @ rest"
  using enc_outer [of tags et pl] by (auto simp: eth_frame_def enc_tag_def)

lemma vlan_tag_push_frame:
  assumes adj: "adjust_head_ok adj" and macs: "length macs = 12"
    and pkt: "pkt ctx = eth_frame macs tags ethertype payload"
    and push: "adj ctx (- 4) = Some ctx'"
  shows "vlan_tag_push adj ctx 0 vlid =
     Some (0, ctx\<lparr>pkt := eth_frame macs ((ETH_P_8021Q, word_of_int vlid) # tags) ethertype payload\<rparr>)"
proof -
  let ?w = "outer_type tags ethertype" and ?v = "word_of_int vlid :: u16"
  obtain rest where p: "pkt ctx = macs @ be16 ?w @ rest"
    and r: "eth_frame macs ((ETH_P_8021Q, ?v) # tags) ethertype payload
      = macs @ be16 ETH_P_8021Q @ be16 ?v @ be16 ?w @ rest"
    using eth_frame_outer [of macs tags ethertype payload] pkt by (metis fst_conv snd_conv)
  obtain g where g: "length g = 4" "ctx' = ctx\<lparr>pkt := g @ pkt ctx\<rparr>"
    using adjust_head_grow [OF adj, of ctx 4 ctx'] push by auto
  define tail where "tail = drop 10 macs"
  have tail: "length tail = 2" using macs by (simp add: tail_def)
  have cpy: "load_bytes (pkt ctx) 0 14 = Some (macs @ be16 ?w)"
    using macs by (simp add: p load_bytes_def)
  have st: "store_bytes (g @ pkt ctx) 0 (macs @ be16 ?w)
      = Some ((macs @ be16 ?w) @ tail @ be16 ?w @ rest)"
    using macs g(1) by (simp add: p store_bytes_def tail_def)
  have s1: "store16 ((macs @ be16 ?w) @ tail @ be16 ?w @ rest) 14 (bpf_htons ?v)
      = Some ((macs @ be16 ?w) @ be16 ?v @ be16 ?w @ rest)"
    using macs tail by (intro store16_at) simp_all
  have l: "load16 ((macs @ be16 ?w) @ be16 ?v @ be16 ?w @ rest) 12 = Some (bpf_htons ?w)"
    using load16_at [OF macs, of ?w] by simp
  have s2: "store16 ((macs @ be16 ?w) @ be16 ?v @ be16 ?w @ rest) 16 (bpf_htons ?w)
      = Some ((macs @ be16 ?w) @ be16 ?v @ be16 ?w @ rest)"
    using store16_at [of "macs @ be16 ?w @ be16 ?v" 16 "be16 ?w" rest ?w] macs by simp
  have s3: "store16 ((macs @ be16 ?w) @ be16 ?v @ be16 ?w @ rest) 12 (bpf_htons ETH_P_8021Q)
      = Some (macs @ be16 ETH_P_8021Q @ be16 ?v @ be16 ?w @ rest)"
    using store16_at [OF macs, of "be16 ?w" "be16 ?v @ be16 ?w @ rest" ETH_P_8021Q] by simp
  have len: "length (pkt ctx) = 14 + length rest"
    using macs by (simp add: p)
  show ?thesis
    unfolding vlan_tag_push_def r
    by (simp add: Let_def cpy push g len st s1 l s2 s3 del: append_assoc)
qed

lemma vlan_tag_pop_frame:
  assumes adj: "adjust_head_ok adj" and macs: "length macs = 12"
    and pkt: "pkt ctx = eth_frame macs ((tpid, tci) # tags) ethertype payload"
    and tpid: "is_vlan_tpid tpid"
    and pop: "adj ctx 4 = Some ctx'"
  shows "vlan_tag_pop adj ctx 0 =
     Some (uint tci, ctx\<lparr>pkt := eth_frame macs tags ethertype payload\<rparr>)"
proof -
  let ?w = "outer_type tags ethertype"
  obtain rest where p: "pkt ctx = macs @ be16 tpid @ be16 tci @ be16 ?w @ rest"
    and r: "eth_frame macs tags ethertype payload = macs @ be16 ?w @ rest"
    using eth_frame_outer [of macs tags ethertype payload] pkt by (metis fst_conv snd_conv)
  have c': "ctx' = ctx\<lparr>pkt := drop 4 (pkt ctx)\<rparr>"
    using adjust_head_shrink [OF adj, of ctx 4 ctx'] pop by simp
  have l1: "load16 (pkt ctx) 12 = Some (bpf_htons tpid)"
    using load16_at [OF macs] by (simp add: p)
  have l2: "load16 (pkt ctx) 14 = Some (bpf_htons tci)"
    using load16_at [of "macs @ be16 tpid" 14 tci] macs by (simp add: p)
  have l3: "load16 (pkt ctx) 16 = Some (bpf_htons ?w)"
    using load16_at [of "macs @ be16 tpid @ be16 tci" 16 ?w] macs by (simp add: p)
  have cpy: "load_bytes (pkt ctx) 0 14 = Some (macs @ be16 tpid)"
    using macs by (simp add: p load_bytes_def)
  have st: "store_bytes (drop 4 (pkt ctx)) 0 (macs @ be16 tpid)
      = Some (macs @ be16 tpid @ rest)"
    using macs by (simp add: p store_bytes_def)
  have s1: "store16 (macs @ be16 tpid @ rest) 12 (bpf_htons ?w) = Some (macs @ be16 ?w @ rest)"
    using macs by (intro store16_at) simp_all
  have len: "length (pkt ctx) = 18 + length rest" using macs by (simp add: p)
  show ?thesis
    unfolding vlan_tag_pop_def r
    by (simp add: l1 l2 l3 tpid cpy pop c' len st s1 del: append_assoc)
qed

subsection \<open>Memory safety\<close>

lemma adjust_head_keeps:
  assumes "adjust_head_ok adj" and "adj ctx d = Some ctx'"
  shows "int (length (pkt ctx')) = int (length (pkt ctx)) - d"
proof (cases "0 \<le> d")
  case True
  then have "nat d \<le> length (pkt ctx)" "ctx' = ctx\<lparr>pkt := drop (nat d) (pkt ctx)\<rparr>"
    using assms by (auto simp: adjust_head_ok_def)
  with True show ?thesis by simp
next
  case False
  then have "\<exists>g. length g = nat (- d) \<and> ctx' = ctx\<lparr>pkt := g @ pkt ctx\<rparr>"
    using assms unfolding adjust_head_ok_def by metis
  with False show ?thesis by auto
qed

lemma vlan_tag_pop_total:
  assumes "adjust_head_ok adj" and "14 \<le> length (pkt ctx)"
  shows "vlan_tag_pop adj ctx 0 \<noteq> None"
  using assms(2)
  by (auto simp: vlan_tag_pop_def mem_simps Let_def split: option.splits)

lemma vlan_tag_push_total:
  assumes "adjust_head_ok adj" and "14 \<le> length (pkt ctx)"
  shows "vlan_tag_push adj ctx 0 vlid \<noteq> None"
  using assms(2) adjust_head_keeps [OF assms(1)]
  by (auto simp: vlan_tag_push_def mem_simps Let_def split: option.splits)

subsection \<open>Properties\<close>

text \<open>C29. Pushing an 802.1Q tag and popping it again restores the packet and returns the pushed
  value, for every frame and any number of tags it already carries. The kernel helper that moves the
  packet start is arbitrary within its documented behaviour.\<close>

theorem vlan_push_pop:
  assumes "adjust_head_ok adj" and "length macs = 12" and "pkt ctx = eth_frame macs tags ethertype payload"
    and "adj ctx (- 4) = Some c1"
    and "adj (ctx\<lparr>pkt := eth_frame macs ((ETH_P_8021Q, word_of_int vlid) # tags) ethertype payload\<rparr>) 4 = Some c2"
  shows "\<exists>ctx1. vlan_tag_push adj ctx 0 vlid = Some (0, ctx1)
    \<and> vlan_tag_pop adj ctx1 0 = Some (uint (word_of_int vlid :: u16), ctx)"
proof -
  let ?c = "ctx\<lparr>pkt := eth_frame macs ((ETH_P_8021Q, word_of_int vlid) # tags) ethertype payload\<rparr>"
  have "vlan_tag_push adj ctx 0 vlid = Some (0, ?c)"
    using vlan_tag_push_frame [OF assms(1-4)] .
  moreover have "vlan_tag_pop adj ?c 0
      = Some (uint (word_of_int vlid :: u16), ?c\<lparr>pkt := eth_frame macs tags ethertype payload\<rparr>)"
    by (rule vlan_tag_pop_frame [OF assms(1,2) _ _ assms(5), where tpid = ETH_P_8021Q])
      (simp_all add: is_vlan_tpid_def)
  moreover have "?c\<lparr>pkt := eth_frame macs tags ethertype payload\<rparr> = ctx" using assms(3) by simp
  ultimately show ?thesis by simp
qed

text \<open>A concrete helper: new bytes in front are zero.\<close>

definition adjust_head_zero :: adjust_head where
  "adjust_head_zero ctx d =
     (if d < 0 then Some (ctx\<lparr>pkt := replicate (nat (- d)) 0 @ pkt ctx\<rparr>)
      else if nat d \<le> length (pkt ctx) then Some (ctx\<lparr>pkt := drop (nat d) (pkt ctx)\<rparr>) else None)"

lemma adjust_head_zero_ok: "adjust_head_ok adjust_head_zero"
  unfolding adjust_head_ok_def
proof (intro allI impI)
  fix ctx ctx' :: xdp_md and d
  assume "adjust_head_zero ctx d = Some ctx'"
  then show "if 0 \<le> d then nat d \<le> length (pkt ctx) \<and> ctx' = ctx\<lparr>pkt := drop (nat d) (pkt ctx)\<rparr>
      else \<exists>g. length g = nat (- d) \<and> ctx' = ctx\<lparr>pkt := g @ pkt ctx\<rparr>"
    by (auto simp: adjust_head_zero_def split: if_splits intro!: exI [of _ "replicate (nat (- d)) 0"])
qed

theorem vlan_push_pop_witness:
  "\<exists>ctx1. vlan_tag_push adjust_head_zero
        \<lparr>pkt = eth_frame [1,2,3,4,5,6,7,8,9,10,11,12] [] ETH_P_IP [69], ingress_ifindex = 1, rx_queue_index = 0\<rparr> 0 42
      = Some (0, ctx1)
    \<and> vlan_tag_pop adjust_head_zero ctx1 0 = Some (uint (word_of_int 42 :: u16),
        \<lparr>pkt = eth_frame [1,2,3,4,5,6,7,8,9,10,11,12] [] ETH_P_IP [69], ingress_ifindex = 1, rx_queue_index = 0\<rparr>)"
  by (rule vlan_push_pop [OF adjust_head_zero_ok, where macs = "[1,2,3,4,5,6,7,8,9,10,11,12]"
      and tags = "[]" and ethertype = ETH_P_IP and payload = "[69]"])
    (simp_all add: adjust_head_zero_def eth_frame_def enc_tag_def be16_def)

text \<open>\<^verbatim>\<open>vlan_tag_pop\<close> removes exactly the outer tag and returns the whole tag control
  field, priority bits included, in host byte order; its comment promises the VLAN identifier, which
  is only the low 12 bits of what is returned.\<close>

theorem vlan_tag_pop_returns_tci:
  assumes "adjust_head_ok adj" and "length macs = 12"
    and "pkt ctx = eth_frame macs ((tpid, tci) # tags) ethertype payload"
    and "is_vlan_tpid tpid" and "adj ctx 4 = Some ctx'"
  shows "vlan_tag_pop adj ctx 0 = Some (uint tci, ctx\<lparr>pkt := eth_frame macs tags ethertype payload\<rparr>)"
  using assms by (rule vlan_tag_pop_frame)

theorem vlan_tag_pop_returns_tci_witness:
  "vlan_tag_pop adjust_head_zero
      \<lparr>pkt = eth_frame [1,2,3,4,5,6,7,8,9,10,11,12] [(ETH_P_8021Q, 0x6005)] ETH_P_IP [69],
       ingress_ifindex = 1, rx_queue_index = 0\<rparr> 0
    = Some (0x6005, \<lparr>pkt = eth_frame [1,2,3,4,5,6,7,8,9,10,11,12] [] ETH_P_IP [69],
       ingress_ifindex = 1, rx_queue_index = 0\<rparr>)"
  using vlan_tag_pop_returns_tci [OF adjust_head_zero_ok, where macs = "[1,2,3,4,5,6,7,8,9,10,11,12]"
      and tpid = ETH_P_8021Q and tci = "0x6005" and tags = "[]" and ethertype = ETH_P_IP and payload = "[69]"
      and ctx = "\<lparr>pkt = eth_frame [1,2,3,4,5,6,7,8,9,10,11,12] [(ETH_P_8021Q, 0x6005)] ETH_P_IP [69],
       ingress_ifindex = 1, rx_queue_index = 0\<rparr>"]
  by (simp add: adjust_head_zero_def eth_frame_def enc_tag_def be16_def is_vlan_tpid_def)

end
