(* ===== verification/Checksum.thy ===== *)
theory Checksum
  imports Prelude
begin

text \<open>
  The Internet checksum arithmetic of the repository: the 16-bit one's complement addition and
  the incremental update used by the AF\_XDP ping responder
  (\<^verbatim>\<open>switchtsn/af_xdp_user.c\<close>), and the 32-to-16 bit fold used by the XDP
  echo program (\<^verbatim>\<open>packet03-redirecting/xdp_prog_kern.c\<close>).

  The reference notion is the one of RFC 1071: a sequence of 16-bit words, its checksum field
  included, is accepted when its one's complement sum is all ones
  (\<^emph>\<open>inet_accepts\<close>). That sum is shown to be arithmetic modulo 65535
  (\<^emph>\<open>inet_accepts_iff\<close>), which is what the update routines are proved against.
\<close>

subsection \<open>One's complement addition\<close>

definition csum16_add :: "u16 \<Rightarrow> u16 \<Rightarrow> u16" where
  "csum16_add csum addend =
     (let res = csum + addend in res + (if res < addend then 1 else 0))"

definition csum16_sub :: "u16 \<Rightarrow> u16 \<Rightarrow> u16" where
  "csum16_sub csum addend = csum16_add csum (NOT addend)"

definition csum_replace2 :: "u16 \<Rightarrow> u16 \<Rightarrow> u16 \<Rightarrow> u16" where
  "csum_replace2 csum old new = NOT (csum16_add (csum16_sub (NOT csum) old) new)"

definition csum_fold_helper :: "u32 \<Rightarrow> u16" where
  "csum_fold_helper csum =
     (let s = drop_bit 16 csum + (csum AND 0xffff);
          s = s + drop_bit 16 s
      in NOT (ucast s))"

subsection \<open>The reference: sums of 16-bit words\<close>

definition word_sum :: "u16 list \<Rightarrow> nat" where
  "word_sum ws = sum_list (map unat ws)"

text \<open>The check a receiver makes: add all words with end-around carry, expect all ones.\<close>

definition inet_accepts :: "u16 list \<Rightarrow> bool" where
  "inet_accepts ws \<longleftrightarrow> foldl csum16_add 0 ws = 0xffff"

subsection \<open>Addition is arithmetic modulo 65535\<close>

lemma unat_csum16_add:
  "unat (csum16_add a b) =
     (if unat a + unat b < 65536 then unat a + unat b else unat a + unat b - 65535)"
proof (cases "unat a + unat b < 65536")
  case True
  then have "unat (a + b) = unat a + unat b"
    by (simp add: unat_word_ariths)
  then show ?thesis
    using True by (simp add: csum16_add_def Let_def word_less_nat_alt)
next
  case False
  have lt: "unat a < 65536" "unat b < 65536"
    by (rule unat_u16_less)+
  then have "(unat a + unat b) mod 65536 = unat a + unat b - 65536"
    using False by (simp add: mod_if)
  then have r: "unat (a + b) = unat a + unat b - 65536"
    by (simp add: unat_word_ariths)
  then have "a + b < b"
    using lt False by (simp add: word_less_nat_alt)
  moreover have "unat (a + b + 1) = unat a + unat b - 65535"
    using lt False r by (simp add: unat_word_ariths(1) [of "a + b"])
  ultimately show ?thesis
    using False by (simp add: csum16_add_def Let_def)
qed

lemma csum16_add_carry:
  obtains c where "int (unat (csum16_add a b)) = int (unat a) + int (unat b) - 65535 * c"
  by (cases "unat a + unat b < 65536") (auto simp: unat_csum16_add intro: that [of 0] that [of 1])

lemma csum16_add_mod:
  "unat (csum16_add a b) mod 65535 = (unat a + unat b) mod 65535"
  by (auto simp: unat_csum16_add mod_if)

lemma csum16_add_eq_0: "csum16_add a b = 0 \<longleftrightarrow> a = 0 \<and> b = 0"
proof -
  have "unat (csum16_add a b) = 0 \<longleftrightarrow> unat a = 0 \<and> unat b = 0"
    by (auto simp: unat_csum16_add)
  then show ?thesis by (simp add: unat_eq_0)
qed

lemma word_sum_simps [simp]:
  "word_sum [] = 0"
  "word_sum (w # ws) = unat w + word_sum ws"
  "word_sum (xs @ ys) = word_sum xs + word_sum ys"
  by (simp_all add: word_sum_def)

lemma foldl_csum16_mod:
  "unat (foldl csum16_add a ws) mod 65535 = (unat a + word_sum ws) mod 65535"
proof (induction ws arbitrary: a)
  case Nil
  then show ?case by simp
next
  case (Cons w ws)
  have "unat (foldl csum16_add a (w # ws)) mod 65535
      = (unat (csum16_add a w) + word_sum ws) mod 65535"
    using Cons.IH by simp
  also have "\<dots> = ((unat a + unat w) + word_sum ws) mod 65535"
    by (metis csum16_add_mod mod_add_left_eq)
  finally show ?case by (simp add: add.assoc)
qed

lemma foldl_csum16_eq_0:
  "foldl csum16_add a ws = 0 \<longleftrightarrow> a = 0 \<and> word_sum ws = 0"
  by (induction ws arbitrary: a) (auto simp: csum16_add_eq_0 unat_eq_0)

text \<open>The receiver's test as a statement about plain sums.\<close>

lemma inet_accepts_iff:
  "inet_accepts ws \<longleftrightarrow> word_sum ws mod 65535 = 0 \<and> word_sum ws \<noteq> 0"
proof -
  let ?r = "foldl csum16_add 0 ws"
  have m: "unat ?r mod 65535 = word_sum ws mod 65535"
    by (simp add: foldl_csum16_mod)
  have z: "unat ?r = 0 \<longleftrightarrow> word_sum ws = 0"
    using foldl_csum16_eq_0 [of 0 ws] by (simp add: unat_eq_0)
  have "?r = 0xffff \<longleftrightarrow> unat ?r = 65535"
    by (simp add: word_unat_eq_iff)
  also have "\<dots> \<longleftrightarrow> unat ?r mod 65535 = 0 \<and> unat ?r \<noteq> 0"
    using unat_u16_less [of ?r] by (auto simp: mod_if split: if_splits)
  finally show ?thesis
    by (simp add: inet_accepts_def m z)
qed

subsection \<open>Incremental update\<close>

lemma mod_eq_via_int:
  "int a = int b + 65535 * k \<Longrightarrow> a mod 65535 = b mod 65535"
proof -
  assume "int a = int b + 65535 * k"
  then have "int (a mod 65535) = int (b mod 65535)"
    by (simp add: zmod_int)
  then show ?thesis by linarith
qed

lemma int_of_mod_eq:
  assumes "a mod 65535 = b mod (65535 :: nat)"
  obtains k where "int a = int b + 65535 * k"
proof -
  have "int a mod 65535 = int b mod 65535" using assms by (metis zmod_int of_nat_numeral)
  then have "65535 dvd int a - int b" by (simp add: mod_eq_dvd_iff)
  then obtain k where "int a - int b = 65535 * k" by (rule dvdE)
  then show thesis by (intro that [of k]) simp
qed

text \<open>RFC 1624: \<open>HC' = \<not>(\<not>HC + \<not>m + m')\<close> changes the sum by \<open>m - m'\<close>.\<close>

lemma csum_replace2_mod:
  "(unat (csum_replace2 c old new) + unat new) mod 65535 = (unat c + unat old) mod 65535"
proof -
  obtain x where x: "int (unat (csum16_sub (NOT c) old))
      = int (unat (NOT c)) + int (unat (NOT old)) - 65535 * x"
    unfolding csum16_sub_def by (rule csum16_add_carry)
  obtain y where y: "int (unat (csum16_add (csum16_sub (NOT c) old) new))
      = int (unat (csum16_sub (NOT c) old)) + int (unat new) - 65535 * y"
    by (rule csum16_add_carry)
  have n: "int (unat (NOT w)) = 65535 - int (unat w)" for w :: u16
    using unat_u16_less [of w] by (simp add: unat_not_u16)
  have "int (unat (csum_replace2 c old new) + unat new)
      = int (unat c + unat old) + 65535 * (x + y - 1)"
    using x y n [of c] n [of old] n [of "csum16_add (csum16_sub (NOT c) old) new"]
    by (simp add: csum_replace2_def algebra_simps)
  then show ?thesis by (rule mod_eq_via_int)
qed

text \<open>Folding a 32-bit sum keeps it modulo 65535, complemented.\<close>

lemma unat_fold32:
  fixes c :: u32
  defines "s \<equiv> drop_bit 16 c + (c AND 0xffff)"
  shows "unat (s + drop_bit 16 s) mod 65536 mod 65535 = unat c mod 65535"
    and "unat (s + drop_bit 16 s) mod 65536 = 0 \<longleftrightarrow> c = 0"
proof -
  define h l where "h = unat c div 65536" and "l = unat c mod 65536"
  have "h * 65536 + l = unat c"
    unfolding h_def l_def by (rule div_mult_mod_eq)
  then have c: "unat c = (h + l) + 65535 * h" by simp
  have h: "h < 65536" and l: "l < 65536"
    using unat_u32_less [of c] by (auto simp: h_def l_def)
  have "c AND 0xffff = take_bit 16 c"
    by (simp add: take_bit_eq_mask mask_eq_exp_minus_1)
  then have "unat (c AND 0xffff) = l"
    by (simp add: take_bit_eq_mod unat_mod_distrib l_def)
  then have s: "unat s = h + l"
    using h l by (simp add: s_def unat_word_ariths drop_bit_eq_div unat_div_distrib h_def)
  have "unat (drop_bit 16 s) = (h + l) div 65536"
    by (simp add: drop_bit_eq_div unat_div_distrib s)
  then have t: "unat (s + drop_bit 16 s) = (h + l) + (h + l) div 65536"
    using h l by (simp add: unat_word_ariths s)
  have m: "unat (s + drop_bit 16 s) mod 65536 = (if h + l < 65536 then h + l else h + l - 65535)"
  proof (cases "h + l < 65536")
    case True
    with t show ?thesis by simp
  next
    case False
    then have "(h + l) div 65536 = 1" using h l by linarith
    with False t h l show ?thesis by (simp add: mod_if)
  qed
  have "unat c mod 65535 = (h + l) mod 65535"
    by (simp only: c mod_mult_self2)
  then show "unat (s + drop_bit 16 s) mod 65536 mod 65535 = unat c mod 65535"
    by (auto simp: m le_mod_geq)
  have "unat c = 0 \<longleftrightarrow> h + l = 0" using c by linarith
  then show "unat (s + drop_bit 16 s) mod 65536 = 0 \<longleftrightarrow> c = 0"
    by (auto simp: m unat_eq_0)
qed

lemma csum_fold_helper_mod:
  "(unat (csum_fold_helper c) + unat c) mod 65535 = 0"
  and csum_fold_helper_ones: "csum_fold_helper c = 0xffff \<longleftrightarrow> c = 0"
proof -
  define s where "s = drop_bit 16 c + (c AND 0xffff)"
  define f :: u16 where "f = ucast (s + drop_bit 16 s)"
  have f: "unat f = unat (s + drop_bit 16 s) mod 65536"
    by (simp add: f_def unsigned_ucast_eq take_bit_eq_mod)
  have r: "csum_fold_helper c = NOT f"
    by (simp add: csum_fold_helper_def Let_def s_def f_def)
  have m: "unat f mod 65535 = unat c mod 65535"
    unfolding f s_def by (rule unat_fold32)
  have "(unat (NOT f) + unat f) mod 65535 = 0"
    using unat_u16_less [of f] by (simp add: unat_not_u16)
  then have "(unat (NOT f) + unat f mod 65535) mod 65535 = 0"
    by (simp add: mod_add_right_eq)
  then have "(unat (NOT f) + unat c mod 65535) mod 65535 = 0"
    by (simp add: m)
  then show "(unat (csum_fold_helper c) + unat c) mod 65535 = 0"
    by (simp add: r mod_add_right_eq)
  have "csum_fold_helper c = 0xffff \<longleftrightarrow> unat f = 0"
    using unat_u16_less [of f] by (auto simp: r word_unat_eq_iff unat_not_u16)
  also have "\<dots> \<longleftrightarrow> c = 0"
    unfolding f s_def by (rule unat_fold32)
  finally show "csum_fold_helper c = 0xffff \<longleftrightarrow> c = 0" .
qed

subsection \<open>Checksums over bytes\<close>

text \<open>The 16-bit words of a byte sequence as they lie in memory; a last odd byte is padded with 0.\<close>

fun words16 :: "bytes \<Rightarrow> u16 list" where
  "words16 [] = []"
| "words16 [a] = [le16 a 0]"
| "words16 (a # b # bs) = le16 a b # words16 bs"

lemma words16_append: "even (length xs) \<Longrightarrow> words16 (xs @ ys) = words16 xs @ words16 ys"
  by (induction xs rule: words16.induct) auto

text \<open>Two sequences with congruent sums, both non-zero, are accepted or rejected together.\<close>

lemma inet_accepts_cong:
  "word_sum xs mod 65535 = word_sum ys mod 65535 \<Longrightarrow> word_sum xs \<noteq> 0 \<Longrightarrow> word_sum ys \<noteq> 0 \<Longrightarrow>
   inet_accepts xs \<longleftrightarrow> inet_accepts ys"
  by (simp add: inet_accepts_iff)

end
