(* ===== verification/AfXdp.thy ===== *)
theory AfXdp
  imports XskLib CommonParams Rewrite Checksum "HOL-Library.While_Combinator"
begin

text \<open>
  The data path of the AF_XDP program (\<^verbatim>\<open>switchtsn/af_xdp_user.c\<close>): the UMEM frame
  allocator, the ICMPv6 echo responder, the receive handler and the collection of transmitted
  frames.

  The kernel runs concurrently and shares with the program the indices and slots of the four rings
  and the packet memory. It is a parameter: \<open>k i\<close> is what the kernel has done when the program
  reaches the \<open>i\<close>-th point of an operation at which it reads an index that the kernel writes (or
  enters the kernel with \<^verbatim>\<open>sendto\<close>). Between two such points the program touches only
  memory the kernel does not. What the kernel may do is stated in \<open>AfXdpSystem\<close>; the records
  are extensible there by the frames that the kernel holds.

  \<^term>\<open>None\<close> is a failed assertion, an access outside an array, a ring or the packet memory, or
  a loop that never ends.
\<close>

abbreviation (input) NUM_FRAMES :: nat where "NUM_FRAMES \<equiv> 4096"
abbreviation (input) FRAME_SIZE :: nat where "FRAME_SIZE \<equiv> 4096"
abbreviation (input) RX_BATCH_SIZE :: u64 where "RX_BATCH_SIZE \<equiv> 64"
abbreviation (input) XSK_RING_PROD__DEFAULT_NUM_DESCS :: nat
  where "XSK_RING_PROD__DEFAULT_NUM_DESCS \<equiv> 2048"
abbreviation (input) XSK_RING_CONS__DEFAULT_NUM_DESCS :: nat
  where "XSK_RING_CONS__DEFAULT_NUM_DESCS \<equiv> 2048"

definition INVALID_UMEM_FRAME :: u64 where
  "INVALID_UMEM_FRAME = 0xffffffffffffffff"

subsection \<open>State\<close>

record xsk_umem_info =
  fq :: "u64 xsk_ring"
  cq :: "u64 xsk_ring"
  buffer :: bytes

record stats_record =
  timestamp :: u64
  rx_packets :: u64
  rx_bytes :: u64
  tx_packets :: u64
  tx_bytes :: u64

record xsk_socket_info =
  rx :: "xdp_desc xsk_ring"
  tx :: "xdp_desc xsk_ring"
  umem :: xsk_umem_info
  umem_frame_addr :: "u64 list"
  umem_frame_free :: u32
  outstanding_tx :: u32
  stats :: stats_record
  prev_stats :: stats_record

abbreviation set_fq :: "u64 xsk_ring \<Rightarrow> 'a xsk_socket_info_scheme \<Rightarrow> 'a xsk_socket_info_scheme" where
  "set_fq r s \<equiv> s\<lparr>umem := (umem s)\<lparr>fq := r\<rparr>\<rparr>"

abbreviation set_cq :: "u64 xsk_ring \<Rightarrow> 'a xsk_socket_info_scheme \<Rightarrow> 'a xsk_socket_info_scheme" where
  "set_cq r s \<equiv> s\<lparr>umem := (umem s)\<lparr>cq := r\<rparr>\<rparr>"

abbreviation set_buffer :: "bytes \<Rightarrow> 'a xsk_socket_info_scheme \<Rightarrow> 'a xsk_socket_info_scheme" where
  "set_buffer m s \<equiv> s\<lparr>umem := (umem s)\<lparr>buffer := m\<rparr>\<rparr>"

text \<open>The counter updates of \<^verbatim>\<open>process_packet\<close> and \<^verbatim>\<open>handle_receive_packets\<close>.\<close>

abbreviation count_tx :: "u32 \<Rightarrow> stats_record \<Rightarrow> stats_record" where
  "count_tx l st \<equiv> st\<lparr>tx_bytes := tx_bytes st + ucast l, tx_packets := tx_packets st + 1\<rparr>"

subsection \<open>The frame allocator\<close>

definition xsk_ring_prod__free :: "'d xsk_ring \<Rightarrow> u32 \<times> 'd xsk_ring" where
  "xsk_ring_prod__free r =
     (let r' = r\<lparr>cached_cons := consumer r + size_of r\<rparr> in (cached_cons r' - cached_prod r', r'))"

definition xsk_alloc_umem_frame ::
  "'a xsk_socket_info_scheme \<Rightarrow> (u64 \<times> 'a xsk_socket_info_scheme) option" where
  "xsk_alloc_umem_frame xsk =
     (if umem_frame_free xsk = 0 then Some (INVALID_UMEM_FRAME, xsk)
      else
        let n = umem_frame_free xsk - 1; i = unat n in
        if i < length (umem_frame_addr xsk)
        then Some (umem_frame_addr xsk ! i,
               xsk\<lparr>umem_frame_free := n,
                   umem_frame_addr := (umem_frame_addr xsk)[i := INVALID_UMEM_FRAME]\<rparr>)
        else None)"

definition xsk_free_umem_frame ::
  "'a xsk_socket_info_scheme \<Rightarrow> u64 \<Rightarrow> 'a xsk_socket_info_scheme option" where
  "xsk_free_umem_frame xsk frame =
     (let n = umem_frame_free xsk in
      if \<not> n < of_nat NUM_FRAMES then None
      else if unat n < length (umem_frame_addr xsk)
      then Some (xsk\<lparr>umem_frame_addr := (umem_frame_addr xsk)[unat n := frame],
                     umem_frame_free := n + 1\<rparr>)
      else None)"

definition xsk_umem_free_frames :: "'a xsk_socket_info_scheme \<Rightarrow> u64" where
  "xsk_umem_free_frames xsk = ucast (umem_frame_free xsk)"

subsection \<open>Collecting transmitted frames\<close>

definition free_completed ::
  "u32 \<times> 'a xsk_socket_info_scheme \<Rightarrow> (u32 \<times> 'a xsk_socket_info_scheme) option" where
  "free_completed st =
     (let (idx_cq, xsk) = st in
      do {
        a \<leftarrow> slot_get (cq (umem xsk)) (xsk_ring_cons__comp_addr (cq (umem xsk)) idx_cq);
        xsk \<leftarrow> xsk_free_umem_frame xsk a;
        Some (idx_cq + 1, xsk)
      })"

text \<open>\<open>k\<close> is the work the kernel does for the \<^verbatim>\<open>sendto\<close> kick; its result is not used.\<close>

definition complete_tx ::
  "('a xsk_socket_info_scheme \<Rightarrow> 'a xsk_socket_info_scheme) \<Rightarrow> 'a xsk_socket_info_scheme \<Rightarrow>
   'a xsk_socket_info_scheme option" where
  "complete_tx k xsk =
     (if outstanding_tx xsk = 0 then Some xsk
      else
        let xsk = k xsk;
            (n, idx_cq, r) = xsk_ring_cons__peek (cq (umem xsk))
                               (of_nat XSK_RING_CONS__DEFAULT_NUM_DESCS) 0;
            xsk = set_cq r xsk;
            completed = (ucast n :: u32)
        in if completed > 0
           then do {
             (idx_cq, xsk) \<leftarrow> for_upto (unat completed) (\<lambda>i. free_completed) (idx_cq, xsk);
             let xsk = set_cq (xsk_ring_cons__release (cq (umem xsk)) (ucast completed)) xsk;
             Some (xsk\<lparr>outstanding_tx := outstanding_tx xsk -
                (if completed < outstanding_tx xsk then completed else outstanding_tx xsk)\<rparr>)
           }
           else Some xsk)"

subsection \<open>The echo responder\<close>

text \<open>The packet part of \<^verbatim>\<open>process_packet\<close>: \<^term>\<open>Some None\<close> if the packet is not
  an ICMPv6 echo request, otherwise the packet memory with the request turned into the reply.\<close>

definition echo_reply :: "bytes \<Rightarrow> ptr \<Rightarrow> u32 \<Rightarrow> bytes option option" where
  "echo_reply m data l =
     (let eth = data; ipv6 = eth + sizeof_ethhdr; icmp = ipv6 + sizeof_ipv6hdr in
      do {
        h_proto \<leftarrow> load16 m (eth + eth_h_proto);
        if bpf_ntohs h_proto \<noteq> ETH_P_IPV6 then Some None
        else if unat l < sizeof_ethhdr + sizeof_ipv6hdr + sizeof_icmp6hdr then Some None
        else do {
          nexthdr \<leftarrow> load8 m (ipv6 + ip6_nexthdr);
          if uint nexthdr \<noteq> IPPROTO_ICMPV6 then Some None
          else do {
            ty \<leftarrow> load8 m (icmp + icmp_type);
            if uint ty \<noteq> ICMPV6_ECHO_REQUEST then Some None
            else do {
              m \<leftarrow> swap_mem m (eth + eth_h_dest) (eth + eth_h_source) ETH_ALEN;
              m \<leftarrow> swap_mem m (ipv6 + ip6_saddr) (ipv6 + ip6_daddr) 16;
              m \<leftarrow> store8 m (icmp + icmp_type) (of_int ICMPV6_ECHO_REPLY);
              ck \<leftarrow> load16 m (icmp + icmp_cksum);
              m \<leftarrow> store16 m (icmp + icmp_cksum)
                (csum_replace2 ck (bpf_htons (push_bit 8 (of_int ICMPV6_ECHO_REQUEST)))
                                  (bpf_htons (push_bit 8 (of_int ICMPV6_ECHO_REPLY))));
              Some (Some m)
            }
          }
        }
      })"

text \<open>The transmit part: one slot of the tx ring is reserved, written and submitted. \<open>k\<close> is what the
  kernel has done when \<^verbatim>\<open>xsk_ring_prod__reserve\<close> looks at the tx ring.\<close>

definition transmit ::
  "('a xsk_socket_info_scheme \<Rightarrow> 'a xsk_socket_info_scheme) \<Rightarrow> 'a xsk_socket_info_scheme \<Rightarrow>
   u64 \<Rightarrow> u32 \<Rightarrow> (bool \<times> 'a xsk_socket_info_scheme) option" where
  "transmit k xsk a l =
     (let xsk = k xsk;
          (n, tx_idx, r) = xsk_ring_prod__reserve (tx xsk) 1 0;
          xsk = xsk\<lparr>tx := r\<rparr>;
          ret = (ucast n :: u32)
      in if ret \<noteq> 1 then Some (False, xsk)
         else do {
           d \<leftarrow> slot_get (tx xsk) (xsk_ring_prod__tx_desc (tx xsk) tx_idx);
           r \<leftarrow> slot_put (tx xsk) (xsk_ring_prod__tx_desc (tx xsk) tx_idx) (d\<lparr>addr := a, len := l\<rparr>);
           let xsk = xsk\<lparr>tx := xsk_ring_prod__submit r 1\<rparr>;
           Some (True, xsk\<lparr>outstanding_tx := outstanding_tx xsk + 1,
                          stats := count_tx l (stats xsk)\<rparr>)
         })"

definition process_packet ::
  "('a xsk_socket_info_scheme \<Rightarrow> 'a xsk_socket_info_scheme) \<Rightarrow> 'a xsk_socket_info_scheme \<Rightarrow>
   u64 \<Rightarrow> u32 \<Rightarrow> (bool \<times> 'a xsk_socket_info_scheme) option" where
  "process_packet k xsk a l =
     do {
       reply \<leftarrow> echo_reply (buffer (umem xsk)) (unat a) l;
       case reply of
         None \<Rightarrow> Some (False, xsk)
       | Some m \<Rightarrow> transmit k (set_buffer m xsk) a l
     }"

subsection \<open>The receive handler\<close>

definition fill_slot ::
  "u32 \<times> 'a xsk_socket_info_scheme \<Rightarrow> (u32 \<times> 'a xsk_socket_info_scheme) option" where
  "fill_slot st =
     (let (idx_fq, xsk) = st in
      do {
        (frame, xsk) \<leftarrow> xsk_alloc_umem_frame xsk;
        r \<leftarrow> slot_put (fq (umem xsk)) (xsk_ring_prod__fill_addr (fq (umem xsk)) idx_fq) frame;
        Some (idx_fq + 1, set_fq r xsk)
      })"

text \<open>\<^verbatim>\<open>while (ret != stock_frames) ret = xsk_ring_prod__reserve(&fq, rcvd, &idx_fq)\<close>.
  The counter \<open>j\<close> numbers the looks at the fill ring.\<close>

definition reserve_retry ::
  "(nat \<Rightarrow> 'a xsk_socket_info_scheme \<Rightarrow> 'a xsk_socket_info_scheme) \<Rightarrow> u32 \<Rightarrow> u32 \<Rightarrow>
   nat \<times> u32 \<times> u32 \<times> 'a xsk_socket_info_scheme \<Rightarrow>
   (nat \<times> u32 \<times> u32 \<times> 'a xsk_socket_info_scheme) option" where
  "reserve_retry k stock_frames rcvd =
     while_option (\<lambda>(j, ret, idx_fq, xsk). ret \<noteq> stock_frames)
       (\<lambda>(j, ret, idx_fq, xsk).
          let xsk = k j xsk;
              (n, idx_fq, r) = xsk_ring_prod__reserve (fq (umem xsk)) (ucast rcvd) idx_fq
          in (Suc j, ucast n, idx_fq, set_fq r xsk))"

definition restock ::
  "(nat \<Rightarrow> 'a xsk_socket_info_scheme \<Rightarrow> 'a xsk_socket_info_scheme) \<Rightarrow> u32 \<Rightarrow>
   'a xsk_socket_info_scheme \<Rightarrow> 'a xsk_socket_info_scheme option" where
  "restock k rcvd xsk =
     (let xsk = k 1 xsk;
          (stock_frames, r) = xsk_prod_nb_free (fq (umem xsk)) (ucast (xsk_umem_free_frames xsk));
          xsk = set_fq r xsk
      in if stock_frames > 0
         then do {
           let xsk = k 2 xsk;
           let (n, idx_fq, r) = xsk_ring_prod__reserve (fq (umem xsk)) (ucast stock_frames) 0;
           (j, ret, idx_fq, xsk) \<leftarrow>
             reserve_retry k stock_frames rcvd (4 + unat rcvd, ucast n, idx_fq, set_fq r xsk);
           (idx_fq, xsk) \<leftarrow> for_upto (unat stock_frames) (\<lambda>i. fill_slot) (idx_fq, xsk);
           Some (set_fq (xsk_ring_prod__submit (fq (umem xsk)) (ucast stock_frames)) xsk)
         }
         else Some xsk)"

definition receive_packet ::
  "('a xsk_socket_info_scheme \<Rightarrow> 'a xsk_socket_info_scheme) \<Rightarrow>
   u32 \<times> 'a xsk_socket_info_scheme \<Rightarrow> (u32 \<times> 'a xsk_socket_info_scheme) option" where
  "receive_packet k st =
     (let (idx_rx, xsk) = st in
      do {
        d \<leftarrow> slot_get (rx xsk) (xsk_ring_cons__rx_desc (rx xsk) idx_rx);
        (sent, xsk) \<leftarrow> process_packet k xsk (addr d) (len d);
        xsk \<leftarrow> (if sent then Some xsk else xsk_free_umem_frame xsk (addr d));
        Some (idx_rx + 1,
          xsk\<lparr>stats := (stats xsk)\<lparr>rx_bytes := rx_bytes (stats xsk) + ucast (len d)\<rparr>\<rparr>)
      })"

text \<open>The kernel is observed at the peek of the rx ring (0), at the two looks at the fill ring (1
  and 2), when completions are collected (3) and while packet \<open>i\<close> is answered (4 + \<open>i\<close>).\<close>

definition handle_receive_packets ::
  "(nat \<Rightarrow> 'a xsk_socket_info_scheme \<Rightarrow> 'a xsk_socket_info_scheme) \<Rightarrow>
   'a xsk_socket_info_scheme \<Rightarrow> 'a xsk_socket_info_scheme option" where
  "handle_receive_packets k xsk =
     (let xsk = k 0 xsk;
          (n, idx_rx, r) = xsk_ring_cons__peek (rx xsk) RX_BATCH_SIZE 0;
          xsk = xsk\<lparr>rx := r\<rparr>;
          rcvd = (ucast n :: u32)
      in if rcvd = 0 then Some xsk
         else do {
           xsk \<leftarrow> restock k rcvd xsk;
           (idx_rx, xsk) \<leftarrow> for_upto (unat rcvd) (\<lambda>i. receive_packet (k (4 + i))) (idx_rx, xsk);
           let xsk = xsk\<lparr>rx := xsk_ring_cons__release (rx xsk) (ucast rcvd)\<rparr>;
           let xsk = xsk\<lparr>stats := (stats xsk)\<lparr>rx_packets := rx_packets (stats xsk) + ucast rcvd\<rparr>\<rparr>;
           complete_tx (k 3) xsk
         })"

text \<open>The main loop of the program. Each element of the list is one round: the result of
  \<^verbatim>\<open>poll\<close>, used in poll mode, and the kernel's activity during the round; the list ends
  where \<^verbatim>\<open>global_exit\<close> is seen.\<close>

fun rx_and_process ::
  "bool \<Rightarrow> (int \<times> (nat \<Rightarrow> 'a xsk_socket_info_scheme \<Rightarrow> 'a xsk_socket_info_scheme)) list \<Rightarrow>
   'a xsk_socket_info_scheme \<Rightarrow> 'a xsk_socket_info_scheme option" where
  "rx_and_process poll_mode [] xsk = Some xsk"
| "rx_and_process poll_mode ((ret, k) # rounds) xsk =
     (if poll_mode \<and> (ret \<le> 0 \<or> ret > 1) then rx_and_process poll_mode rounds xsk
      else do {
        xsk \<leftarrow> handle_receive_packets k xsk;
        rx_and_process poll_mode rounds xsk
      })"

subsection \<open>Setting up\<close>

text \<open>A zeroed ring structure, as \<^verbatim>\<open>calloc\<close> returns it.\<close>

definition zero_ring :: "'d xsk_ring" where
  "zero_ring = \<lparr>cached_prod = 0, cached_cons = 0, mask_of = 0, size_of = 0, producer = 0, consumer = 0,
     ring = [], flags = 0\<rparr>"

text \<open>\<^verbatim>\<open>NULL\<close> with \<^verbatim>\<open>errno\<close>, or the UMEM handle and the new structure. The handle is
  missing if the library reports success without creating a UMEM. \<open>mem\<close> is the packet memory at
  address \<open>area\<close>.\<close>

definition configure_xsk_umem ::
  "os \<Rightarrow> bytes \<Rightarrow> u64 \<Rightarrow> u64 \<Rightarrow> (int + xsk_umem option \<times> xsk_umem_info) \<times> effect list" where
  "configure_xsk_umem sys mem area sz =
     (if \<not> calloc_ok sys then (Inl ENOMEM, [])
      else
        (case xsk_umem__create_v0_0_4 sys area True sz (Some zero_ring) (Some zero_ring) None of
           (ret, r, fx) \<Rightarrow>
             (if ret \<noteq> 0 then Inl (- ret)
              else
                (case r of
                   Some (u, fill, cmpl) \<Rightarrow> Inr (Some u, \<lparr>fq = fill, cq = cmpl, buffer = mem\<rparr>)
                 | None \<Rightarrow> Inr (None, \<lparr>fq = zero_ring, cq = zero_ring, buffer = mem\<rparr>)),
              Alloc # fx)))"

text \<open>Filling the frame stack and handing half of the frames to the kernel:
  \<^term>\<open>Some None\<close> if the fill ring has no room for them.\<close>

definition stock_fill_ring ::
  "'a xsk_socket_info_scheme \<Rightarrow> 'a xsk_socket_info_scheme option option" where
  "stock_fill_ring xsk =
     (let xsk = xsk\<lparr>umem_frame_addr := map (\<lambda>i. of_nat (i * FRAME_SIZE)) [0..<NUM_FRAMES],
                    umem_frame_free := of_nat NUM_FRAMES\<rparr>;
          (ret, idx, r) = xsk_ring_prod__reserve (fq (umem xsk))
                            (of_nat XSK_RING_PROD__DEFAULT_NUM_DESCS) 0;
          xsk = set_fq r xsk
      in if ret \<noteq> of_nat XSK_RING_PROD__DEFAULT_NUM_DESCS then Some None
         else do {
           (idx, xsk) \<leftarrow> for_upto XSK_RING_PROD__DEFAULT_NUM_DESCS (\<lambda>i. fill_slot) (idx, xsk);
           Some (Some (set_fq (xsk_ring_prod__submit (fq (umem xsk))
                                (of_nat XSK_RING_PROD__DEFAULT_NUM_DESCS)) xsk))
         })"

definition zero_stats :: stats_record where
  "zero_stats = \<lparr>timestamp = 0, rx_packets = 0, rx_bytes = 0, tx_packets = 0, tx_bytes = 0\<rparr>"

definition socket_info ::
  "xdp_desc xsk_ring \<Rightarrow> xdp_desc xsk_ring \<Rightarrow> xsk_umem_info \<Rightarrow> 'a \<Rightarrow> 'a xsk_socket_info_scheme" where
  "socket_info r t u ext =
     \<lparr>rx = r, tx = t, umem = u, umem_frame_addr = replicate NUM_FRAMES 0, umem_frame_free = 0,
      outstanding_tx = 0, stats = zero_stats, prev_stats = zero_stats, \<dots> = ext\<rparr>"

text \<open>\<open>link_ret\<close> is the result of the \<^verbatim>\<open>bpf_get_link_xdp_id\<close> query after the socket was
  created. The result is \<^verbatim>\<open>NULL\<close> with \<^verbatim>\<open>errno\<close>, or the socket handle and the new
  structure; together with the UMEM handle and what the library did. A NULL interface name is passed on,
  an unterminated one is a fault.\<close>

definition interface_name :: "config \<Rightarrow> string option option" where
  "interface_name cfg = (case ifname cfg of None \<Rightarrow> Some None | Some buf \<Rightarrow> map_option Some (c_string buf))"

definition xsk_configure_socket ::
  "os \<Rightarrow> bool \<Rightarrow> int \<Rightarrow> config \<Rightarrow> xsk_umem option \<Rightarrow> xsk_umem_info \<Rightarrow> 'a \<Rightarrow>
   ((int + xsk_socket option \<times> 'a xsk_socket_info_scheme) \<times> xsk_umem option \<times> effect list) option" where
  "xsk_configure_socket sys info_ok link_ret cfg handle uinfo ext =
     (if \<not> info_ok then Some (Inl ENOMEM, handle, [])
      else
        do {
          name \<leftarrow> interface_name cfg;
          let xsk_cfg = \<lparr>rx_size = 2048, tx_size = 2048, libbpf_flags = 0,
                         xdp_flags = cfg_xdp_flags cfg, bind_flags = xsk_bind_flags cfg\<rparr>;
          (ret, handle, sk, fx) \<leftarrow> xsk_socket__create sys True name (of_int (xsk_if_queue cfg)) handle
                 (Some zero_ring) (Some zero_ring) (Some xsk_cfg);
          if ret \<noteq> 0 then Some (Inl (- ret), handle, Alloc # fx)
          else if link_ret \<noteq> 0 then Some (Inl (- link_ret), handle, Alloc # fx)
          else do {
            let (r, t) = (case sk of
                            Some (_, Some r, Some t) \<Rightarrow> (r, t)
                          | _ \<Rightarrow> (zero_ring, zero_ring));
            res \<leftarrow> stock_fill_ring (socket_info r t uinfo ext);
            (case res of
               None \<Rightarrow> Some (Inl 0, handle, Alloc # fx)
             | Some xsk \<Rightarrow> Some (Inr (map_option fst sk, xsk), handle, Alloc # fx))
          }
        })"

subsection \<open>The contract of a frame pool\<close>

locale frame_pool =
  fixes inv :: "'s \<Rightarrow> bool"
    and pool :: "'s \<Rightarrow> 'f list"
    and cap :: nat
    and none :: 'f
    and alloc :: "'s \<Rightarrow> ('f \<times> 's) option"
    and free :: "'s \<Rightarrow> 'f \<Rightarrow> 's option"
  assumes alloc_empty: "inv s \<Longrightarrow> pool s = [] \<Longrightarrow> alloc s = Some (none, s)"
    and alloc_top: "inv s \<Longrightarrow> pool s = xs @ [x] \<Longrightarrow>
      \<exists>s'. alloc s = Some (x, s') \<and> inv s' \<and> pool s' = xs"
    and free_push: "inv s \<Longrightarrow> length (pool s) < cap \<Longrightarrow>
      \<exists>s'. free s x = Some s' \<and> inv s' \<and> pool s' = pool s @ [x]"
    and free_full: "inv s \<Longrightarrow> length (pool s) = cap \<Longrightarrow> free s x = None"
    and pool_cap: "inv s \<Longrightarrow> length (pool s) \<le> cap"
begin

text \<open>What \<open>n\<close> allocations in a row hand out: the top of the stack downwards, then the
  invalid frame.\<close>

definition issued :: "nat \<Rightarrow> 's \<Rightarrow> 'f list" where
  "issued n s = take n (rev (pool s)) @ replicate (n - length (pool s)) none"

lemma length_issued [simp]: "length (issued n s) = n"
  by (simp add: issued_def)

lemma alloc_next:
  assumes "inv t" and "pool t = take (length (pool s) - n) (pool s)"
  shows "\<exists>x t'. alloc t = Some (x, t') \<and> inv t' \<and> issued (Suc n) s = issued n s @ [x]
    \<and> pool t' = take (length (pool s) - Suc n) (pool s)"
proof (cases "n < length (pool s)")
  case True
  define m where "m = length (pool s) - Suc n"
  have m: "length (pool s) - n = Suc m" "m < length (pool s)" using True by (simp_all add: m_def)
  then have "pool t = take m (pool s) @ [pool s ! m]"
    using assms(2) by (simp add: take_Suc_conv_app_nth)
  moreover have "issued (Suc n) s = issued n s @ [pool s ! m]"
    using True by (simp add: issued_def take_Suc_conv_app_nth rev_nth m_def)
  ultimately show ?thesis
    using alloc_top [OF assms(1)] by (auto simp: m_def)
next
  case False
  then have "issued (Suc n) s = issued n s @ [none]"
    by (simp add: issued_def Suc_diff_le replicate_append_same [symmetric])
  with False assms alloc_empty [OF assms(1)] show ?thesis by auto
qed

lemma free_alloc:
  assumes "inv s" and "length (pool s) < cap"
  obtains t u where "free s x = Some t" "alloc t = Some (x, u)" "inv u" "pool u = pool s"
  using free_push [OF assms, of x] alloc_top that by metis

end

subsection \<open>The allocator is a stack of at most 4096 frames\<close>

definition pool_ok :: "'a xsk_socket_info_scheme \<Rightarrow> bool" where
  "pool_ok s \<longleftrightarrow> length (umem_frame_addr s) = NUM_FRAMES \<and> unat (umem_frame_free s) \<le> NUM_FRAMES"

definition frame_stack :: "'a xsk_socket_info_scheme \<Rightarrow> u64 list" where
  "frame_stack s = take (unat (umem_frame_free s)) (umem_frame_addr s)"

lemma unat_minus_1: "w \<noteq> 0 \<Longrightarrow> unat (w - 1 :: 'a::len word) = unat w - 1"
  by (metis unat_minus_one)

lemma alloc_top_eq:
  assumes "pool_ok s" and "frame_stack s = xs @ [x]"
  shows "xsk_alloc_umem_frame s = Some (x,
      s\<lparr>umem_frame_free := umem_frame_free s - 1,
        umem_frame_addr := (umem_frame_addr s)[unat (umem_frame_free s) - 1 := INVALID_UMEM_FRAME]\<rparr>)"
    and "unat (umem_frame_free s - 1) = length xs" and "umem_frame_free s \<noteq> 0"
    and "take (length xs) (umem_frame_addr s) = xs"
proof -
  have len: "unat (umem_frame_free s) = Suc (length xs)"
    using assms(1) arg_cong [OF assms(2), of length] by (simp add: pool_ok_def frame_stack_def)
  then show nz: "umem_frame_free s \<noteq> 0" by auto
  then show u: "unat (umem_frame_free s - 1) = length xs" using len by (simp add: unat_minus_1)
  have "take (Suc (length xs)) (umem_frame_addr s) = xs @ [x]"
    using assms(2) by (simp only: frame_stack_def len)
  moreover have l: "length xs < length (umem_frame_addr s)"
    using assms(1) len by (simp add: pool_ok_def)
  ultimately have "take (length xs) (umem_frame_addr s) = xs" "umem_frame_addr s ! length xs = x"
    by (simp_all add: take_Suc_conv_app_nth)
  then show "xsk_alloc_umem_frame s = Some (x,
      s\<lparr>umem_frame_free := umem_frame_free s - 1,
        umem_frame_addr := (umem_frame_addr s)[unat (umem_frame_free s) - 1 := INVALID_UMEM_FRAME]\<rparr>)"
    and "take (length xs) (umem_frame_addr s) = xs"
    using nz u l len by (simp_all add: xsk_alloc_umem_frame_def)
qed

lemma alloc_pops:
  assumes "pool_ok s" and "frame_stack s = xs @ [x]"
  shows "\<exists>s'. xsk_alloc_umem_frame s = Some (x, s') \<and> pool_ok s' \<and> frame_stack s' = xs"
proof -
  note a = alloc_top_eq [OF assms]
  have "unat (umem_frame_free s) \<noteq> 0" using a(3) by (simp add: unat_eq_0)
  then have "unat (umem_frame_free s) - 1 = length xs" using a(2,3) by (simp add: unat_minus_1)
  with a assms(1) show ?thesis by (auto simp: pool_ok_def frame_stack_def)
qed

lemma free_pushes:
  assumes "pool_ok s" and "length (frame_stack s) < NUM_FRAMES"
  shows "\<exists>s'. xsk_free_umem_frame s x = Some s' \<and> pool_ok s' \<and> frame_stack s' = frame_stack s @ [x]"
proof -
  let ?n = "umem_frame_free s"
  have n: "unat ?n < 4096" using assms by (simp add: pool_ok_def frame_stack_def)
  have s: "unat (?n + 1) = Suc (unat ?n)"
    using n by (simp add: unat_word_ariths)
  have "?n < 4096" using n by (simp add: word_less_nat_alt)
  then show ?thesis
    using assms(1) n
    by (simp add: xsk_free_umem_frame_def pool_ok_def frame_stack_def s Let_def
        take_Suc_conv_app_nth)
qed

interpretation pool: frame_pool pool_ok frame_stack NUM_FRAMES INVALID_UMEM_FRAME
  xsk_alloc_umem_frame xsk_free_umem_frame
proof (unfold_locales, goal_cases)
  case (1 s)
  then have "umem_frame_free s = 0" by (auto simp: frame_stack_def pool_ok_def unat_eq_0)
  then show ?case by (simp add: xsk_alloc_umem_frame_def)
next
  case (2 s xs x)
  then show ?case by (rule alloc_pops)
next
  case (3 s x)
  then show ?case by (rule free_pushes)
next
  case (4 s x)
  then have "unat (umem_frame_free s) = 4096" by (simp add: pool_ok_def frame_stack_def)
  then have "\<not> umem_frame_free s < 4096" by (simp add: word_less_nat_alt)
  then show ?case by (simp add: xsk_free_umem_frame_def)
next
  case (5 s)
  then show ?case by (simp add: pool_ok_def frame_stack_def)
qed

text \<open>The allocator touches nothing but its own two fields.\<close>

lemma alloc_only:
  "xsk_alloc_umem_frame s = Some (x, s') \<Longrightarrow>
   \<exists>A n. s' = s\<lparr>umem_frame_addr := A, umem_frame_free := n\<rparr>"
  by (auto simp: xsk_alloc_umem_frame_def Let_def split: if_splits
      intro!: exI [of _ "umem_frame_addr s'"] exI [of _ "umem_frame_free s'"])

lemma free_only:
  "xsk_free_umem_frame s x = Some s' \<Longrightarrow>
   \<exists>A n. s' = s\<lparr>umem_frame_addr := A, umem_frame_free := n\<rparr>"
  by (auto simp: xsk_free_umem_frame_def Let_def split: if_splits)

subsection \<open>The reply\<close>

lemma echo_reply_returns:
  assumes "data + max 14 (unat l) \<le> length m"
  shows "\<exists>r. echo_reply m data l = Some r \<and> (\<forall>m'. r = Some m' \<longrightarrow> length m' = length m)"
proof (cases "unat l < 62")
  case True
  with assms show ?thesis by (simp add: echo_reply_def load16_eq Let_def)
next
  case False
  with assms have len: "data + 62 \<le> length m" by simp
  then show ?thesis
    by (simp add: echo_reply_def mem_simps swap_mem_eq Let_def)
qed

text \<open>What the responder does to a request, field by field: the destination and source MAC address
  and the IPv6 addresses change places, the type becomes echo reply, and the checksum is adjusted;
  the rest of the memory is untouched.\<close>

lemma echo_reply_eq:
  assumes "data = length A" and "length dmac = 6" and "length smac = 6" and "length hdr = 6"
    and "length saddr = 16" and "length daddr = 16" and "62 \<le> unat l"
    and m: "m = A @ dmac @ smac @ be16 ETH_P_IPV6 @ hdr @ [58, hops] @ saddr @ daddr
                  @ [128, code] @ [lo8 ck, hi8 ck] @ rest"
  shows "echo_reply m data l = Some (Some (A @ smac @ dmac @ be16 ETH_P_IPV6 @ hdr @ [58, hops] @ daddr
    @ saddr @ [129, code] @ [lo8 (csum_replace2 ck 128 129), hi8 (csum_replace2 ck 128 129)] @ rest))"
proof -
  let ?e = "be16 ETH_P_IPV6" and ?i = "[128, code] @ [lo8 ck, hi8 ck] @ rest"
  let ?ck = "csum_replace2 ck 128 129"
  let ?m2 = "A @ smac @ dmac @ ?e @ hdr @ [58, hops] @ daddr @ saddr @ ?i"
  let ?p = "A @ smac @ dmac @ ?e @ hdr @ [58, hops] @ daddr @ saddr"
  have h1: "load16 m (data + 12) = Some (bpf_htons ETH_P_IPV6)"
    using load16_at [of "A @ dmac @ smac" "data + 12"] assms(1-3) by (simp add: m)
  have h2: "load8 m (data + 14 + 6) = Some 58"
    using load8_at [of "A @ dmac @ smac @ ?e @ hdr" "20 + data"] assms(1-4) by (simp add: m)
  have h3: "load8 m (data + 14 + 40 + 0) = Some 128"
    using load8_at [of "A @ dmac @ smac @ ?e @ hdr @ [58, hops] @ saddr @ daddr" "54 + data"] assms(1-6)
    by (simp add: m)
  have s1: "swap_mem m (data + 0) (data + 6) 6
      = Some (A @ smac @ dmac @ ?e @ hdr @ [58, hops] @ saddr @ daddr @ ?i)"
    using swap_mem_append [of dmac 6 smac data A "data + 6" "[]"] assms(1-3) by (simp add: m)
  have s2: "swap_mem (A @ smac @ dmac @ ?e @ hdr @ [58, hops] @ saddr @ daddr @ ?i)
      (data + 14 + 8) (data + 14 + 24) 16 = Some ?m2"
    using swap_mem_append [of saddr 16 daddr "22 + data" "A @ smac @ dmac @ ?e @ hdr @ [58, hops]" "38 + data" "[]" ?i]
      assms(1-6) by simp
  have s3: "store8 ?m2 (data + 14 + 40 + 0) 129 = Some (?p @ [129, code] @ [lo8 ck, hi8 ck] @ rest)"
    using store8_at [of ?p "54 + data"] assms(1-6) by simp
  have s4: "load16 (?p @ [129, code] @ [lo8 ck, hi8 ck] @ rest) (data + 14 + 40 + 2) = Some ck"
    using load16_le [of "?p @ [129, code]" "56 + data"] assms(1-6) by simp
  have s5: "store16 (?p @ [129, code] @ [lo8 ck, hi8 ck] @ rest) (data + 14 + 40 + 2) ?ck
      = Some (?p @ [129, code] @ [lo8 ?ck, hi8 ?ck] @ rest)"
    using store16_le [of "?p @ [129, code]" "56 + data"] assms(1-6) by simp
  have w: "bpf_htons (push_bit 8 128) = 128" "bpf_htons (push_bit 8 129) = 129"
    "(word_of_int 128 :: u16) = 128" "(word_of_int 129 :: u16) = 129" "(word_of_int 129 :: u8) = 129"
    by (simp_all add: bpf_htons_def bswap16_def le16_def hi8_def lo8_def)
  have "unat l \<ge> 14 + 40 + 8" using assms(7) by simp
  then show ?thesis
    unfolding echo_reply_def Let_def
    by (simp only: h1 h2 h3 s1 s2 s3 s4 s5 w bpf_ntohs_htons bind.bind_lunit simp_thms if_False if_True)
      simp
qed

lemma echo_reply_request:
  assumes "echo_reply m data l = Some (Some m')" and len: "data + 62 \<le> length m"
  obtains A dmac smac hdr saddr daddr hops code ck rest where
    "data = length A" "length dmac = 6" "length smac = 6" "length hdr = 6" "length saddr = 16"
    "length daddr = 16" "62 \<le> unat l"
    "m = A @ dmac @ smac @ be16 ETH_P_IPV6 @ hdr @ [58, hops] @ saddr @ daddr
           @ [128, code] @ [lo8 ck, hi8 ck] @ rest"
proof -
  obtain A m1 where A: "m = A @ m1" "length A = data"
    using split_list_at [of data m] len by (metis le_add1 le_trans)
  obtain dmac m2 where d: "m1 = dmac @ m2" "length dmac = 6"
    using split_list_at [of 6 m1] len A by auto
  obtain smac m3 where s: "m2 = smac @ m3" "length smac = 6"
    using split_list_at [of 6 m2] len A d by auto
  obtain et m4 where e: "m3 = et @ m4" "length et = 2"
    using split_list_at [of 2 m3] len A d s by auto
  obtain hdr m5 where h: "m4 = hdr @ m5" "length hdr = 6"
    using split_list_at [of 6 m4] len A d s e by auto
  obtain nx m6 where n: "m5 = nx @ m6" "length nx = 2"
    using split_list_at [of 2 m5] len A d s e h by auto
  obtain saddr m7 where sa: "m6 = saddr @ m7" "length saddr = 16"
    using split_list_at [of 16 m6] len A d s e h n by auto
  obtain daddr m8 where da: "m7 = daddr @ m8" "length daddr = 16"
    using split_list_at [of 16 m7] len A d s e h n sa by auto
  obtain ic rest where ic: "m8 = ic @ rest" "length ic = 4"
    using split_list_at [of 4 m8] len A d s e h n sa da by auto
  note lens = A(2) d(2) s(2) e(2) h(2) n(2) sa(2) da(2) ic(2)
  obtain e0 e1 where et: "et = [e0, e1]" using e(2) by (auto simp: length_Suc_conv numeral_2_eq_2)
  obtain nh hops where nx: "nx = [nh, hops]" using n(2) by (auto simp: length_Suc_conv numeral_2_eq_2)
  obtain ty code c0 c1 where icm: "ic = [ty, code, c0, c1]"
    using ic(2) by (auto simp: length_Suc_conv numeral_eq_Suc)
  have m: "m = A @ dmac @ smac @ et @ hdr @ [nh, hops] @ saddr @ daddr @ [ty, code] @ [lo8 (le16 c0 c1), hi8 (le16 c0 c1)] @ rest"
    by (simp add: A(1) d(1) s(1) e(1) h(1) n(1) sa(1) da(1) ic(1) nx icm)
  have l1: "load16 m (data + 12) = Some (le16 e0 e1)"
    using load16_le [of "A @ dmac @ smac" "data + 12" "le16 e0 e1"] lens by (simp add: m et)
  have l2: "load8 m (data + 14 + 6) = Some nh"
    using load8_at [of "A @ dmac @ smac @ et @ hdr" "20 + data"] lens by (simp add: m)
  have l3: "load8 m (data + 14 + 40 + 0) = Some ty"
    using load8_at [of "A @ dmac @ smac @ et @ hdr @ [nh, hops] @ saddr @ daddr" "54 + data"] lens
    by (simp add: m)
  have chk: "bpf_ntohs (le16 e0 e1) = ETH_P_IPV6" "62 \<le> unat l" "uint nh = 58" "uint ty = 128"
    using assms(1) unfolding echo_reply_def Let_def
    by (auto simp: l1 l2 [simplified] l3 [simplified] split: if_splits)
  have "et = be16 ETH_P_IPV6"
    using arg_cong [OF chk(1), of bpf_htons]
    by (simp add: et be16_def bpf_htons_def bpf_ntohs_def bswap16_def)
       (metis hi8_le16 lo8_le16)
  moreover have "nh = 58" "ty = 128" using chk(3,4) by (simp_all add: word_uint_eq_iff)
  ultimately show thesis
    using that [of A dmac smac hdr saddr daddr hops code "le16 c0 c1" rest] m lens chk(2) by simp
qed

text \<open>The words an ICMPv6 receiver sums: the addresses, the length and next header of the pseudo
  header, and the \<open>n\<close> bytes of the message.\<close>

definition icmp6_words :: "bytes \<Rightarrow> ptr \<Rightarrow> nat \<Rightarrow> u16 list" where
  "icmp6_words m data n =
     words16 (take 16 (drop (data + 22) m)) @ words16 (take 16 (drop (data + 38) m))
     @ [bpf_htons (of_nat (n div 65536)), bpf_htons (of_nat n), bpf_htons 58]
     @ words16 (take n (drop (data + 54) m))"

lemma icmp6_words_frame:
  assumes "length A = data + 22" and "length sa = 16" and "length da = 16" and "4 \<le> n"
    and "m = A @ sa @ da @ [ty, code] @ [lo8 ck, hi8 ck] @ rest"
  shows "word_sum (icmp6_words m data n) = word_sum (words16 sa) + word_sum (words16 da)
    + word_sum [bpf_htons (of_nat (n div 65536)), bpf_htons (of_nat n), bpf_htons 58]
    + unat ty + 256 * unat code + unat ck + word_sum (words16 (take (n - 4) rest))"
proof -
  obtain n' where n: "n = Suc (Suc (Suc (Suc n')))"
    using assms(4) by (metis Suc_le_D numeral_eq_Suc pred_numeral_simps(2,3) BitM.simps(1,2) Suc_le_mono)
  have d: "take 16 (drop (data + 22) m) = sa" "take 16 (drop (data + 38) m) = da"
    "drop (data + 54) m = [ty, code] @ [lo8 ck, hi8 ck] @ rest"
    using assms by simp_all
  show ?thesis
    unfolding icmp6_words_def d by (simp add: n unat_le16)
qed

lemma echo_reply_sum:
  assumes "echo_reply m data l = Some (Some m')" and "data + 62 \<le> length m" and "4 \<le> n"
  shows "word_sum (icmp6_words m' data n) mod 65535 = word_sum (icmp6_words m data n) mod 65535"
    and "word_sum (icmp6_words m' data n) \<noteq> 0" and "word_sum (icmp6_words m data n) \<noteq> 0"
proof -
  obtain A dmac smac hdr saddr daddr hops code ck rest where
    f: "data = length A" "length dmac = 6" "length smac = 6" "length hdr = 6" "length saddr = 16"
    "length daddr = 16" "62 \<le> unat l"
    and m: "m = A @ dmac @ smac @ be16 ETH_P_IPV6 @ hdr @ [58, hops] @ saddr @ daddr
           @ [128, code] @ [lo8 ck, hi8 ck] @ rest"
    using echo_reply_request [OF assms(1,2)] by metis
  let ?ck = "csum_replace2 ck 128 129"
  have m': "m' = A @ smac @ dmac @ be16 ETH_P_IPV6 @ hdr @ [58, hops] @ daddr
    @ saddr @ [129, code] @ [lo8 ?ck, hi8 ?ck] @ rest"
    using echo_reply_eq [OF f m] assms(1) by simp
  let ?c = "word_sum (words16 saddr) + word_sum (words16 daddr)
    + word_sum [bpf_htons (of_nat (n div 65536)), bpf_htons (of_nat n), bpf_htons 58]
    + 256 * unat code + word_sum (words16 (take (n - 4) rest))"
  have w: "word_sum (icmp6_words m data n) = ?c + (unat ck + unat (128 :: u16))"
    using icmp6_words_frame [of "A @ dmac @ smac @ be16 ETH_P_IPV6 @ hdr @ [58, hops]" data saddr daddr n m]
      f assms(3) m by simp
  have w': "word_sum (icmp6_words m' data n) = ?c + (unat ?ck + unat (129 :: u16))"
    using icmp6_words_frame [of "A @ smac @ dmac @ be16 ETH_P_IPV6 @ hdr @ [58, hops]" data daddr saddr n m']
      f assms(3) m' by simp
  have "(?c + (unat ?ck + unat (129 :: u16))) mod 65535 = (?c + (unat ck + unat (128 :: u16))) mod 65535"
    using csum_replace2_mod [of ck 128 129] by (rule mod_add_cong [OF refl])
  then show "word_sum (icmp6_words m' data n) mod 65535 = word_sum (icmp6_words m data n) mod 65535"
    by (simp only: w w')
  show "word_sum (icmp6_words m' data n) \<noteq> 0" "word_sum (icmp6_words m data n) \<noteq> 0"
    by (simp_all add: w w')
qed

subsection \<open>Properties\<close>

text \<open>The echo responder turns an ICMPv6 echo request at any place in packet memory into the
  reply: MAC and IPv6 addresses exchanged, type 129, checksum adjusted for the type, and every other
  byte of the memory unchanged.\<close>

theorem echo_reply_exact:
  assumes "data = length A" and "length dmac = 6" and "length smac = 6" and "length hdr = 6"
    and "length saddr = 16" and "length daddr = 16" and "62 \<le> unat l"
    and "m = A @ dmac @ smac @ be16 ETH_P_IPV6 @ hdr @ [58, hops] @ saddr @ daddr
                  @ [128, code] @ [lo8 ck, hi8 ck] @ rest"
  shows "echo_reply m data l = Some (Some (A @ smac @ dmac @ be16 ETH_P_IPV6 @ hdr @ [58, hops] @ daddr
    @ saddr @ [129, code] @ [lo8 (csum_replace2 ck 128 129), hi8 (csum_replace2 ck 128 129)] @ rest))"
  by (rule echo_reply_eq [OF assms])

theorem echo_reply_exact_witness:
  "echo_reply ([9] @ replicate 6 1 @ replicate 6 2 @ be16 ETH_P_IPV6 @ replicate 6 0 @ [58, 64] @ replicate 16 3
      @ replicate 16 4 @ [128, 0] @ [lo8 0x1234, hi8 0x1234] @ [7, 7, 7, 7]) 1 62
   = Some (Some ([9] @ replicate 6 2 @ replicate 6 1 @ be16 ETH_P_IPV6 @ replicate 6 0 @ [58, 64] @ replicate 16 4
      @ replicate 16 3 @ [129, 0] @ [lo8 (csum_replace2 0x1234 128 129), hi8 (csum_replace2 0x1234 128 129)]
      @ [7, 7, 7, 7]))"
  by (rule echo_reply_exact) simp_all

text \<open>C4. The incremental checksum update is right: whatever the message length, a receiver accepts
  the ICMPv6 checksum of the reply (pseudo header included) exactly if it would have accepted that of
  the request.\<close>

theorem echo_reply_checksum:
  assumes "echo_reply m data l = Some (Some m')" and "data + 62 \<le> length m" and "4 \<le> n"
  shows "inet_accepts (icmp6_words m' data n) \<longleftrightarrow> inet_accepts (icmp6_words m data n)"
  using echo_reply_sum [OF assms] by (intro inet_accepts_cong)

definition request :: bytes where
  "request = replicate 6 1 @ replicate 6 2 @ be16 ETH_P_IPV6 @ replicate 6 0 @ [58, 64] @ replicate 16 3
      @ replicate 16 4 @ [128, 0] @ [lo8 0x1234, hi8 0x1234] @ [0, 0, 0, 0]"

theorem echo_reply_checksum_witness:
  "\<exists>m'. echo_reply request 0 62 = Some (Some m')
    \<and> inet_accepts (icmp6_words m' 0 8) = inet_accepts (icmp6_words request 0 8)"
proof -
  obtain m' where "echo_reply request 0 62 = Some (Some m')"
    using echo_reply_eq [of 0 "[]" "replicate 6 1" "replicate 6 2" "replicate 6 0" "replicate 16 3"
        "replicate 16 4" 62 request 64 0 "0x1234" "[0, 0, 0, 0]"]
    by (auto simp: request_def)
  with echo_reply_checksum [OF this, of 8] show ?thesis by (auto simp: request_def)
qed

text \<open>The number of frames to restock that \<^verbatim>\<open>xsk_prod_nb_free\<close> reports can always be
  reserved at once, whatever the kernel did in between: the retry loop of
  \<^verbatim>\<open>handle_receive_packets\<close>, which would reserve a different number of slots, is never
  entered.\<close>

theorem restock_never_retries:
  assumes "xsk_prod_nb_free (fq (umem s)) nb = (n, r)" and "cached_prod (fq (umem t)) = cached_prod r"
    and "cached_cons (fq (umem t)) = cached_cons r"
    and "xsk_ring_prod__reserve (fq (umem t)) (ucast n) i = (m, idx, r')"
  shows "m = ucast n \<and> reserve_retry k n rcvd (j, ucast m, idx, set_fq r' t) = Some (j, n, idx, set_fq r' t)"
proof -
  have "cached_cons r - cached_prod r = n"
    using assms(1) by (auto simp: xsk_prod_nb_free_def Let_def split: if_splits)
  then have "cached_cons (fq (umem t)) - cached_prod (fq (umem t)) = n" using assms(2,3) by simp
  from reserve_reported [OF this, of i] assms(4) have "m = ucast n" by simp
  then show ?thesis by (simp add: reserve_retry_def while_option_unfold)
qed

definition small_socket :: xsk_socket_info where
  "small_socket = socket_info zero_ring zero_ring
     \<lparr>fq = \<lparr>cached_prod = 0, cached_cons = 4, mask_of = 3, size_of = 4, producer = 0, consumer = 0,
             ring = [0, 0, 0, 0], flags = 0\<rparr>, cq = zero_ring, buffer = []\<rparr> ()"

theorem restock_never_retries_witness:
  "\<exists>m idx r'. xsk_ring_prod__reserve (fq (umem small_socket)) 4 0 = (m, idx, r')
    \<and> reserve_retry (\<lambda>_ s. s) 4 2 (0, ucast m, idx, set_fq r' small_socket) = Some (0, 4, idx, set_fq r' small_socket)"
proof -
  obtain m idx r' where R: "xsk_ring_prod__reserve (fq (umem small_socket)) (ucast (4 :: u32)) 0 = (m, idx, r')"
    by (metis prod_cases3)
  have "xsk_prod_nb_free (fq (umem small_socket)) 2 = (4, fq (umem small_socket))"
    by (simp add: xsk_prod_nb_free_def small_socket_def socket_info_def)
  from restock_never_retries [OF this refl refl R, of "\<lambda>_ s. s" 2 0] R show ?thesis by auto
qed

end
