(* ===== verification/AfXdpSystem.thy ===== *)
theory AfXdpSystem
  imports AfXdp "HOL-Library.Multiset"
begin

text \<open>
  The AF_XDP program together with the kernel: what the kernel may do to the shared rings, the
  accounting of the 4096 UMEM frames, and the invariant that every operation of the program
  keeps whatever the kernel does meanwhile.

  The program state is extended by the frames the kernel holds: \<open>k_rx\<close> were taken from the fill
  ring and not yet delivered, \<open>k_tx\<close> were taken from the tx ring and not yet completed. A frame is
  identified by its chunk number: the kernel may return a frame at an offset into its chunk
  (headroom), and the program passes addresses on unchanged.
\<close>

record system = xsk_socket_info +
  k_rx :: "u64 list"
  k_tx :: "u64 list"

definition chunk :: "u64 \<Rightarrow> nat" where
  "chunk a = unat a div FRAME_SIZE"

definition valid_frame :: "u64 \<Rightarrow> bool" where
  "valid_frame a \<longleftrightarrow> chunk a < NUM_FRAMES"

text \<open>The packet of a descriptor lies within its frame.\<close>

definition desc_in_frame :: "xdp_desc \<Rightarrow> bool" where
  "desc_in_frame d \<longleftrightarrow> unat (addr d) mod FRAME_SIZE + max 14 (unat (len d)) \<le> FRAME_SIZE"

text \<open>Packet memory changes only inside one frame.\<close>

definition writes_frame :: "nat \<Rightarrow> bytes \<Rightarrow> bytes \<Rightarrow> bool" where
  "writes_frame c m m' \<longleftrightarrow> length m' = length m
     \<and> take (c * FRAME_SIZE) m' = take (c * FRAME_SIZE) m
     \<and> drop (Suc c * FRAME_SIZE) m' = drop (Suc c * FRAME_SIZE) m"

subsection \<open>The kernel\<close>

text \<open>One action of the kernel: take a frame from the fill ring (an address outside the UMEM is
  dropped), deliver a packet in a frame it holds, take a frame to transmit, complete a
  transmission, or change the wake-up flag of a ring.\<close>

inductive kern_step :: "system \<Rightarrow> system \<Rightarrow> bool" where
  take_fill: "queue (fq (umem s)) = a # as \<Longrightarrow>
    kern_step s (set_fq (kern_consume (fq (umem s))) s
      \<lparr>k_rx := (if valid_frame a then k_rx s @ [a] else k_rx s)\<rparr>)"
| deliver: "k_rx s = as @ a # bs \<Longrightarrow> length (queue (rx s)) < unat (size_of (rx s)) \<Longrightarrow>
    chunk (addr d) = chunk a \<Longrightarrow> desc_in_frame d \<Longrightarrow>
    writes_frame (chunk a) (buffer (umem s)) m' \<Longrightarrow>
    kern_step s (set_buffer m' s\<lparr>rx := kern_produce d (rx s), k_rx := as @ bs\<rparr>)"
| take_tx: "queue (tx s) = d # ds \<Longrightarrow>
    kern_step s (s\<lparr>tx := kern_consume (tx s), k_tx := k_tx s @ [addr d]\<rparr>)"
| complete: "k_tx s = as @ a # bs \<Longrightarrow> length (queue (cq (umem s))) < unat (size_of (cq (umem s))) \<Longrightarrow>
    kern_step s (set_cq (kern_produce a (cq (umem s))) s\<lparr>k_tx := as @ bs\<rparr>)"
| wakeup: "kern_step s (s\<lparr>tx := (tx s)\<lparr>flags := f\<rparr>\<rparr>)"

text \<open>The kernel may do any number of actions at each point.\<close>

definition kern_ok :: "(system \<Rightarrow> system) \<Rightarrow> bool" where
  "kern_ok k \<longleftrightarrow> (\<forall>s. kern_step\<^sup>*\<^sup>* s (k s))"

subsection \<open>Frame accounting\<close>

text \<open>Where frames are. While the receive handler works on a batch, \<open>n\<close> of the entries at the front
  of the rx ring and \<open>m\<close> of those of the completion ring have already been passed on but not yet
  released.\<close>

definition holdings :: "nat \<Rightarrow> nat \<Rightarrow> system \<Rightarrow> u64 list" where
  "holdings n m s = frame_stack s @ filter valid_frame (queue (fq (umem s)))
     @ map addr (drop n (queue (rx s))) @ map addr (queue (tx s)) @ drop m (queue (cq (umem s)))
     @ k_rx s @ k_tx s"

definition conserved :: "u64 list \<Rightarrow> bool" where
  "conserved as \<longleftrightarrow> mset (map chunk as) = mset [0..<NUM_FRAMES]"

text \<open>The invariant of the rings, at any point of the receive handler.\<close>

definition rings_ok :: "system \<Rightarrow> bool" where
  "rings_ok s \<longleftrightarrow> prod_inv (fq (umem s)) \<and> prod_inv (tx s) \<and> reserved (tx s) = []
     \<and> cons_inv (rx s) \<and> cons_inv (cq (umem s))
     \<and> size_of (fq (umem s)) = 2048 \<and> size_of (rx s) = 2048 \<and> size_of (tx s) = 2048
     \<and> size_of (cq (umem s)) = 2048"

definition busy_inv :: "nat \<Rightarrow> nat \<Rightarrow> system \<Rightarrow> bool" where
  "busy_inv n m s \<longleftrightarrow> rings_ok s \<and> pool_ok s
     \<and> n \<le> length (peeked (rx s)) \<and> m \<le> length (peeked (cq (umem s)))
     \<and> length (buffer (umem s)) = NUM_FRAMES * FRAME_SIZE
     \<and> (\<forall>d \<in> set (queue (rx s)). desc_in_frame d)
     \<and> unat (outstanding_tx s) = length (queue (tx s)) + length (k_tx s) + length (queue (cq (umem s)))
     \<and> conserved (holdings n m s)"

text \<open>The invariant between two calls: nothing is reserved, nothing peeked and not released.\<close>

definition idle_inv :: "system \<Rightarrow> bool" where
  "idle_inv s \<longleftrightarrow> busy_inv 0 0 s \<and> reserved (fq (umem s)) = [] \<and> peeked (rx s) = []
     \<and> peeked (cq (umem s)) = []"

subsection \<open>Conservation as multiset arithmetic\<close>

lemma conserved_perm: "mset (map chunk as) = mset (map chunk bs) \<Longrightarrow> conserved bs \<Longrightarrow> conserved as"
  by (simp add: conserved_def)

lemma conserved_length: "conserved as \<Longrightarrow> length as = NUM_FRAMES"
  by (metis conserved_def length_map length_upt minus_nat.diff_0 size_mset)

lemma conserved_distinct: "conserved as \<Longrightarrow> distinct (map chunk as)"
  unfolding conserved_def by (metis distinct_upt mset_eq_imp_distinct_iff)

lemma conserved_valid: "conserved as \<Longrightarrow> a \<in> set as \<Longrightarrow> valid_frame a"
proof -
  assume c: "conserved as" and a: "a \<in> set as"
  have "set (map chunk as) = set [0..<4096]" using c unfolding conserved_def by (rule mset_eq_setD)
  with a show ?thesis by (auto simp: valid_frame_def)
qed

lemma invalid_frame [simp]: "\<not> valid_frame INVALID_UMEM_FRAME"
  by (simp add: valid_frame_def chunk_def INVALID_UMEM_FRAME_def)

subsection \<open>The kernel keeps the invariant\<close>

text \<open>What the program knows of its own side after the kernel has run.\<close>

definition untouched :: "system \<Rightarrow> system \<Rightarrow> bool" where
  "untouched s t \<longleftrightarrow>
     umem_frame_addr t = umem_frame_addr s \<and> umem_frame_free t = umem_frame_free s
     \<and> outstanding_tx t = outstanding_tx s \<and> stats t = stats s \<and> prev_stats t = prev_stats s
     \<and> cached_prod (fq (umem t)) = cached_prod (fq (umem s))
     \<and> cached_cons (fq (umem t)) = cached_cons (fq (umem s))
     \<and> producer (fq (umem t)) = producer (fq (umem s))
     \<and> reserved (fq (umem t)) = reserved (fq (umem s))
     \<and> producer (tx t) = producer (tx s)
     \<and> consumer (rx t) = consumer (rx s) \<and> peeked (rx t) = peeked (rx s)
     \<and> consumer (cq (umem t)) = consumer (cq (umem s))
     \<and> peeked (cq (umem t)) = peeked (cq (umem s))"

lemma untouched_refl [simp]: "untouched s s"
  and untouched_trans: "untouched s t \<Longrightarrow> untouched t u \<Longrightarrow> untouched s u"
  by (simp_all add: untouched_def)

lemma untouched_frame_stack: "untouched s t \<Longrightarrow> frame_stack t = frame_stack s"
  by (simp add: untouched_def frame_stack_def)

lemma untouched_pool_ok: "untouched s t \<Longrightarrow> pool_ok t \<longleftrightarrow> pool_ok s"
  by (simp add: untouched_def pool_ok_def)

lemma flags_ring [simp]:
  "prod_inv (r\<lparr>flags := f\<rparr>) = prod_inv r" "queue (r\<lparr>flags := f\<rparr>) = queue r"
  "reserved (r\<lparr>flags := f\<rparr>) = reserved r"
  by (simp_all add: prod_inv_def ring_ok_def queue_def reserved_def entries_from_def)

lemma busy_conserved: "busy_inv n m s \<Longrightarrow> conserved (holdings n m s)"
  by (simp add: busy_inv_def)

lemma kern_step_busy:
  assumes "kern_step s t" and inv: "busy_inv n m s"
  shows "busy_inv n m t \<and> untouched s t"
  using assms(1)
proof cases
  case (take_fill a as)
  have "prod_inv (fq (umem s))" using inv by (simp add: busy_inv_def rings_ok_def)
  note c = kern_consume_queue [OF this take_fill(2)]
  have "conserved (holdings n m t)"
  proof (rule conserved_perm [OF _ busy_conserved [OF inv]])
    show "mset (map chunk (holdings n m t)) = mset (map chunk (holdings n m s))"
      unfolding take_fill(1) holdings_def using take_fill(2) c by (simp add: frame_stack_def)
  qed
  with inv c show ?thesis
    unfolding take_fill(1) busy_inv_def rings_ok_def untouched_def pool_ok_def by simp
next
  case (deliver as a bs d m')
  have r: "cons_inv (rx s)" "n \<le> length (queue (rx s))"
    using inv peeked_le_queue [of "rx s"] by (auto simp: busy_inv_def rings_ok_def)
  note p = kern_produce_queue [OF r(1) deliver(3), of d]
  have "conserved (holdings n m t)"
  proof (rule conserved_perm [OF _ busy_conserved [OF inv]])
    show "mset (map chunk (holdings n m t)) = mset (map chunk (holdings n m s))"
      unfolding deliver(1) holdings_def using deliver(2,4) p r(2) by (simp add: frame_stack_def)
  qed
  with inv p deliver(5,6) show ?thesis
    unfolding deliver(1) busy_inv_def rings_ok_def untouched_def pool_ok_def writes_frame_def by simp
next
  case (take_tx d ds)
  have "prod_inv (tx s)" using inv by (simp add: busy_inv_def rings_ok_def)
  note c = kern_consume_queue [OF this take_tx(2)]
  have "conserved (holdings n m t)"
  proof (rule conserved_perm [OF _ busy_conserved [OF inv]])
    show "mset (map chunk (holdings n m t)) = mset (map chunk (holdings n m s))"
      unfolding take_tx(1) holdings_def using take_tx(2) c by (simp add: frame_stack_def)
  qed
  with inv c take_tx(2) show ?thesis
    unfolding take_tx(1) busy_inv_def rings_ok_def untouched_def pool_ok_def by simp
next
  case (complete as a bs)
  have r: "cons_inv (cq (umem s))" "m \<le> length (queue (cq (umem s)))"
    using inv peeked_le_queue [of "cq (umem s)"] by (auto simp: busy_inv_def rings_ok_def)
  note p = kern_produce_queue [OF r(1) complete(3), of a]
  have "conserved (holdings n m t)"
  proof (rule conserved_perm [OF _ busy_conserved [OF inv]])
    show "mset (map chunk (holdings n m t)) = mset (map chunk (holdings n m s))"
      unfolding complete(1) holdings_def using complete(2) p r(2) by (simp add: frame_stack_def)
  qed
  with inv p complete(2) show ?thesis
    unfolding complete(1) busy_inv_def rings_ok_def untouched_def pool_ok_def by simp
next
  case (wakeup f)
  have "holdings n m t = holdings n m s"
    unfolding wakeup holdings_def by (simp add: frame_stack_def)
  with inv show ?thesis
    unfolding wakeup busy_inv_def rings_ok_def untouched_def pool_ok_def by simp
qed

lemma kern_busy:
  assumes "kern_ok k" and "busy_inv n m s"
  shows "busy_inv n m (k s)" and "untouched s (k s)"
proof -
  have "kern_step\<^sup>*\<^sup>* s (k s)" using assms(1) by (simp add: kern_ok_def)
  then have "busy_inv n m (k s) \<and> untouched s (k s)"
  proof (induction rule: rtranclp_induct)
    case base
    then show ?case using assms(2) by simp
  next
    case (step t u)
    then show ?case using kern_step_busy [of t u n m] untouched_trans [of s t u] by simp
  qed
  then show "busy_inv n m (k s)" and "untouched s (k s)" by simp_all
qed

subsection \<open>A packet in hand\<close>

lemma in_hand:
  assumes inv: "busy_inv n m s" and n: "n < length (peeked (rx s))"
  shows "valid_frame (addr (peeked (rx s) ! n))" and "desc_in_frame (peeked (rx s) ! n)"
    and "length (frame_stack s) < NUM_FRAMES"
    and "length (queue (tx s)) + length (k_tx s) + length (queue (cq (umem s))) \<le> NUM_FRAMES + 2048"
proof -
  have c: "cons_inv (rx s)" using inv by (simp add: busy_inv_def rings_ok_def)
  note d = drop_peeked [OF c n]
  have cs: "conserved (holdings n m s)" using inv by (rule busy_conserved)
  have "addr (peeked (rx s) ! n) \<in> set (holdings n m s)" by (simp add: holdings_def d)
  with cs show "valid_frame (addr (peeked (rx s) ! n))" by (rule conserved_valid)
  show "desc_in_frame (peeked (rx s) ! n)" using inv d by (simp add: busy_inv_def)
  have l: "length (holdings n m s) = 4096" using cs by (rule conserved_length)
  then show "length (frame_stack s) < 4096" by (simp add: holdings_def d)
  have "length (queue (cq (umem s))) \<le> 2048"
    using inv cons_room [of "cq (umem s)"] by (simp add: busy_inv_def rings_ok_def)
  then show "length (queue (tx s)) + length (k_tx s) + length (queue (cq (umem s))) \<le> 4096 + 2048"
    using l by (simp add: holdings_def)
qed

lemma hand_to_stack:
  assumes inv: "busy_inv n m s" and n: "n < length (peeked (rx s))"
  shows "\<exists>A F s'. xsk_free_umem_frame s (addr (peeked (rx s) ! n)) = Some s'
    \<and> busy_inv (Suc n) m s' \<and> s' = s\<lparr>umem_frame_addr := A, umem_frame_free := F\<rparr>"
proof -
  let ?d = "peeked (rx s) ! n"
  have c: "cons_inv (rx s)" "pool_ok s" using inv by (simp_all add: busy_inv_def rings_ok_def)
  note d = drop_peeked [OF c(1) n]
  obtain s' where s': "xsk_free_umem_frame s (addr ?d) = Some s'" "pool_ok s'"
    "frame_stack s' = frame_stack s @ [addr ?d]"
    using pool.free_push [OF c(2) in_hand(3) [OF inv n]] by blast
  obtain A F where e: "s' = s\<lparr>umem_frame_addr := A, umem_frame_free := F\<rparr>"
    using free_only [OF s'(1)] by blast
  have "conserved (holdings (Suc n) m s')"
  proof (rule conserved_perm [OF _ busy_conserved [OF inv]])
    show "mset (map chunk (holdings (Suc n) m s')) = mset (map chunk (holdings n m s))"
      using s'(3) by (simp add: holdings_def e d(1))
  qed
  with inv s' e n show ?thesis by (auto simp: busy_inv_def rings_ok_def)
qed

text \<open>What processing one packet leaves alone: the batch being processed.\<close>

definition same_batch :: "system \<Rightarrow> system \<Rightarrow> bool" where
  "same_batch s t \<longleftrightarrow> consumer (rx t) = consumer (rx s) \<and> peeked (rx t) = peeked (rx s)
     \<and> consumer (cq (umem t)) = consumer (cq (umem s))
     \<and> peeked (cq (umem t)) = peeked (cq (umem s))
     \<and> reserved (fq (umem t)) = reserved (fq (umem s))"

lemma untouched_same_batch: "untouched s t \<Longrightarrow> same_batch s t"
  by (simp add: untouched_def same_batch_def)

lemma same_batch_refl [simp]: "same_batch s s"
  and same_batch_trans: "same_batch s t \<Longrightarrow> same_batch t u \<Longrightarrow> same_batch s u"
  by (simp_all add: same_batch_def)

lemma busy_set_buffer:
  "length b = length (buffer (umem s)) \<Longrightarrow> busy_inv n m s \<Longrightarrow> busy_inv n m (set_buffer b s)"
  by (simp add: busy_inv_def rings_ok_def holdings_def pool_ok_def frame_stack_def)

lemma tx_desc_fill_addr: "xsk_ring_prod__tx_desc = xsk_ring_prod__fill_addr"
  by (intro ext) (simp add: xsk_ring_prod__tx_desc_def xsk_ring_prod__fill_addr_def)

lemma comp_addr_rx_desc: "xsk_ring_cons__comp_addr = xsk_ring_cons__rx_desc"
  by (intro ext) (simp add: xsk_ring_cons__comp_addr_def xsk_ring_cons__rx_desc_def)

lemma slot_put_get: "slot_put r i v = Some r' \<Longrightarrow> \<exists>d. slot_get r i = Some d"
  by (auto simp: slot_put_def slot_get_def split: if_splits)

text \<open>One descriptor into the tx ring.\<close>

lemma reserve_size: "xsk_ring_prod__reserve r n i = (m, j, r') \<Longrightarrow> size_of r' = size_of r"
  by (auto simp: xsk_ring_prod__reserve_def xsk_prod_nb_free_def Let_def split: if_splits)

lemma peek_size: "xsk_ring_cons__peek r n i = (m, j, r') \<Longrightarrow> size_of r' = size_of r"
  by (auto simp: xsk_ring_cons__peek_def xsk_cons_nb_avail_def Let_def split: if_splits)

lemma slot_put_size: "slot_put r i v = Some r' \<Longrightarrow> size_of r' = size_of r"
  by (auto simp: slot_put_def split: if_splits)

lemma tx_one:
  assumes "prod_inv r" and "reserved r = []" and "xsk_ring_prod__reserve r 1 0 = (n, j, r1)"
  shows "n = 0 \<and> prod_inv r1 \<and> reserved r1 = [] \<and> queue r1 = queue r
    \<or> n = 1 \<and> (\<exists>d. slot_get r1 (xsk_ring_prod__tx_desc r1 j) = Some d \<and>
        (\<forall>v. \<exists>r2. slot_put r1 (xsk_ring_prod__tx_desc r1 j) v = Some r2
          \<and> prod_inv (xsk_ring_prod__submit r2 1) \<and> reserved (xsk_ring_prod__submit r2 1) = []
          \<and> queue (xsk_ring_prod__submit r2 1) = queue r @ [v] \<and> size_of r2 = size_of r))"
proof -
  note R = prod.reserve_law [OF assms(1,3)]
  have put: "\<exists>r2. slot_put r1 (xsk_ring_prod__tx_desc r1 j) v = Some r2
      \<and> prod_inv (xsk_ring_prod__submit r2 1) \<and> reserved (xsk_ring_prod__submit r2 1) = []
      \<and> queue (xsk_ring_prod__submit r2 1) = queue r @ [v] \<and> size_of r2 = size_of r"
    if "n = 1" for v
  proof -
    have r1: "prod_inv r1" "queue r1 = queue r" "producer r1 = producer r" "j = producer r"
      "length (reserved r1) = 1"
      using R that assms(2) by auto
    with prod.put_law [of r1 0 v] obtain r2 where r2: "slot_put r1 (xsk_ring_prod__tx_desc r1 j) v = Some r2"
      "prod_inv r2" "queue r2 = queue r" "reserved r2 = (reserved r1)[0 := v]"
      unfolding tx_desc_fill_addr by auto
    then have "reserved r2 = [v]" using r1(5) by (cases "reserved r1") auto
    with prod.submit_law [of r2 1] r2(1-3) slot_put_size [OF r2(1)] reserve_size [OF assms(3)]
    show ?thesis by simp
  qed
  then have "n = 1 \<Longrightarrow> \<exists>d. slot_get r1 (xsk_ring_prod__tx_desc r1 j) = Some d"
    using slot_put_get by metis
  moreover have "n = 1 \<or> n = 0 \<and> prod_inv r1 \<and> reserved r1 = [] \<and> queue r1 = queue r"
    using R assms(2) by auto
  ultimately show ?thesis using put by blast
qed

lemma transmit_busy:
  assumes k: "kern_ok k" and inv: "busy_inv n m s" and n: "n < length (peeked (rx s))"
    and a: "a = addr (peeked (rx s) ! n)"
  shows "\<exists>b s'. transmit k s a l = Some (b, s') \<and> same_batch s s'
    \<and> busy_inv (if b then Suc n else n) m s'"
proof -
  define t where "t = k s"
  have t: "busy_inv n m t" and u: "untouched s t" using kern_busy [OF k inv] by (simp_all add: t_def)
  then have pk: "peeked (rx t) = peeked (rx s)" by (simp add: untouched_def)
  obtain ret j r1 where res: "xsk_ring_prod__reserve (tx t) 1 0 = (ret, j, r1)" by (metis prod_cases3)
  have "prod_inv (tx t)" "reserved (tx t) = []" using t by (simp_all add: busy_inv_def rings_ok_def)
  from tx_one [OF this res] show ?thesis
  proof (elim disjE conjE exE)
    assume z: "ret = 0" and r1: "prod_inv r1" "reserved r1 = []" "queue r1 = queue (tx t)"
    have "busy_inv n m (t\<lparr>tx := r1\<rparr>)"
      using t r1 reserve_size [OF res]
      by (simp add: busy_inv_def rings_ok_def holdings_def pool_ok_def frame_stack_def)
    moreover have "same_batch s (t\<lparr>tx := r1\<rparr>)" using u by (simp add: untouched_def same_batch_def)
    moreover have "transmit k s a l = Some (False, t\<lparr>tx := r1\<rparr>)"
      using z res by (simp add: transmit_def t_def [symmetric])
    ultimately show ?thesis by fastforce
  next
    fix d assume ret: "ret = 1" and d: "slot_get r1 (xsk_ring_prod__tx_desc r1 j) = Some d"
      and put: "\<forall>v. \<exists>r2. slot_put r1 (xsk_ring_prod__tx_desc r1 j) v = Some r2
          \<and> prod_inv (xsk_ring_prod__submit r2 1) \<and> reserved (xsk_ring_prod__submit r2 1) = []
          \<and> queue (xsk_ring_prod__submit r2 1) = queue (tx t) @ [v] \<and> size_of r2 = size_of (tx t)"
    define v where "v = d\<lparr>addr := a, len := l\<rparr>"
    obtain r2 where r2: "slot_put r1 (xsk_ring_prod__tx_desc r1 j) v = Some r2"
      "prod_inv (xsk_ring_prod__submit r2 1)" "reserved (xsk_ring_prod__submit r2 1) = []"
      "queue (xsk_ring_prod__submit r2 1) = queue (tx t) @ [v]" "size_of r2 = size_of (tx t)"
      using put by blast
    let ?s' = "t\<lparr>tx := xsk_ring_prod__submit r2 1, outstanding_tx := outstanding_tx t + 1,
      stats := count_tx l (stats t)\<rparr>"
    have c: "cons_inv (rx t)" using t by (simp add: busy_inv_def rings_ok_def)
    have n': "n < length (peeked (rx t))" using n pk by simp
    have out: "unat (outstanding_tx t + 1) = Suc (unat (outstanding_tx t))"
      using in_hand(4) [OF t n'] t by (simp add: busy_inv_def unat_word_ariths)
    have "conserved (holdings (Suc n) m ?s')"
    proof (rule conserved_perm [OF _ busy_conserved [OF t]])
      show "mset (map chunk (holdings (Suc n) m ?s')) = mset (map chunk (holdings n m t))"
        using r2(4) a pk by (simp add: holdings_def drop_peeked(1) [OF c n'] frame_stack_def v_def)
    qed
    then have "busy_inv (Suc n) m ?s'"
      using t r2 n' out
      by (simp add: busy_inv_def rings_ok_def pool_ok_def xsk_ring_prod__submit_def Suc_leI)
    moreover have "same_batch s ?s'" using u by (simp add: untouched_def same_batch_def)
    moreover have "transmit k s a l = Some (True, ?s')"
      using ret res d r2(1) by (simp add: transmit_def t_def [symmetric] v_def)
    ultimately show ?thesis by fastforce
  qed
qed

subsection \<open>One received packet\<close>

lemma desc_in_buffer:
  assumes "valid_frame (addr d)" and "desc_in_frame d"
  shows "unat (addr d) + max 14 (unat (len d)) \<le> NUM_FRAMES * FRAME_SIZE"
proof -
  have "unat (addr d) = chunk (addr d) * 4096 + unat (addr d) mod 4096"
    by (simp add: chunk_def)
  moreover have "(chunk (addr d) + 1) * 4096 \<le> 4096 * 4096"
    using assms(1) unfolding valid_frame_def by (intro mult_le_mono) simp_all
  ultimately show ?thesis using assms(2) by (simp add: desc_in_frame_def)
qed

lemma process_packet_busy:
  assumes k: "kern_ok k" and inv: "busy_inv n m s" and n: "n < length (peeked (rx s))"
    and d: "d = peeked (rx s) ! n"
  shows "\<exists>b s'. process_packet k s (addr d) (len d) = Some (b, s') \<and> same_batch s s'
    \<and> busy_inv (if b then Suc n else n) m s'"
proof -
  have len: "unat (addr d) + max 14 (unat (len d)) \<le> length (buffer (umem s))"
    using desc_in_buffer [of d] in_hand [OF inv n] inv d by (simp add: busy_inv_def)
  obtain r where r: "echo_reply (buffer (umem s)) (unat (addr d)) (len d) = Some r"
    "\<forall>m'. r = Some m' \<longrightarrow> length m' = length (buffer (umem s))"
    using echo_reply_returns [OF len] by blast
  show ?thesis
  proof (cases r)
    case None
    with r inv show ?thesis by (fastforce simp: process_packet_def)
  next
    case (Some b)
    let ?s = "set_buffer b s"
    have "busy_inv n m ?s" using r(2) Some inv by (intro busy_set_buffer) simp_all
    moreover have "n < length (peeked (rx ?s))" "addr d = addr (peeked (rx ?s) ! n)"
      using n d by simp_all
    ultimately obtain c s' where "transmit k ?s (addr d) (len d) = Some (c, s')" "same_batch ?s s'"
      "busy_inv (if c then Suc n else n) m s'"
      using transmit_busy [OF k] by blast
    moreover from this have "same_batch s s'" by (simp add: same_batch_def)
    ultimately show ?thesis using r(1) Some by (auto simp: process_packet_def)
  qed
qed

lemma busy_stats: "busy_inv n m (s\<lparr>stats := st\<rparr>) = busy_inv n m s"
  by (simp add: busy_inv_def rings_ok_def holdings_def pool_ok_def frame_stack_def)

lemma receive_packet_busy:
  assumes k: "kern_ok k" and inv: "busy_inv n m s" and n: "n < length (peeked (rx s))"
  shows "\<exists>s'. receive_packet k (consumer (rx s) + of_nat n, s)
      = Some (consumer (rx s) + of_nat (Suc n), s') \<and> same_batch s s' \<and> busy_inv (Suc n) m s'"
proof -
  define d where "d = peeked (rx s) ! n"
  have "cons_inv (rx s)" using inv by (simp add: busy_inv_def rings_ok_def)
  from cons.get_law [OF this n]
  have g: "slot_get (rx s) (xsk_ring_cons__rx_desc (rx s) (consumer (rx s) + of_nat n)) = Some d"
    by (simp add: d_def)
  obtain b t where t: "process_packet k s (addr d) (len d) = Some (b, t)" "same_batch s t"
    "busy_inv (if b then Suc n else n) m t"
    using process_packet_busy [OF k inv n d_def] by blast
  have n': "n < length (peeked (rx t))" "peeked (rx t) ! n = d"
    using t(2) n by (simp_all add: same_batch_def d_def)
  have "\<exists>u. (if b then Some t else xsk_free_umem_frame t (addr d)) = Some u \<and> busy_inv (Suc n) m u
      \<and> same_batch t u"
  proof (cases b)
    case False
    with t(3) n' hand_to_stack [of n m t] show ?thesis by (auto simp: same_batch_def)
  qed (use t in simp)
  then obtain u where u: "(if b then Some t else xsk_free_umem_frame t (addr d)) = Some u"
    "busy_inv (Suc n) m u" "same_batch t u" by blast
  have "same_batch s u" using t(2) u(3) by (rule same_batch_trans)
  then have "same_batch s (u\<lparr>stats := st\<rparr>)" for st by (simp add: same_batch_def)
  with g t(1) u show ?thesis by (simp add: receive_packet_def busy_stats add.assoc add.commute)
qed

lemma receive_loop_busy:
  assumes k: "\<And>i. kern_ok (k i)" and inv: "busy_inv 0 m s" and n: "n \<le> length (peeked (rx s))"
  shows "\<exists>s'. for_upto n (\<lambda>i. receive_packet (k (4 + i))) (consumer (rx s), s)
      = Some (consumer (rx s) + of_nat n, s') \<and> same_batch s s' \<and> busy_inv n m s'"
proof -
  let ?P = "\<lambda>i (idx, t). idx = consumer (rx s) + of_nat i \<and> same_batch s t \<and> busy_inv i m t"
  have "\<exists>st. for_upto n (\<lambda>i. receive_packet (k (4 + i))) (consumer (rx s), s) = Some st \<and> ?P n st"
  proof (rule for_upto_total)
    fix i and st :: "u32 \<times> system"
    assume i: "i < n" and P: "?P i st"
    obtain idx t where st: "st = (idx, t)" by fastforce
    have t: "idx = consumer (rx t) + of_nat i" "same_batch s t" "busy_inv i m t"
        "i < length (peeked (rx t))" "consumer (rx t) = consumer (rx s)"
      using P n i by (auto simp: st same_batch_def)
    from receive_packet_busy [OF k [of "4 + i"] t(3,4)] t same_batch_trans [of s t]
    show "\<exists>v. receive_packet (k (4 + i)) st = Some v \<and> ?P (Suc i) v" by (auto simp: st)
  qed (use inv in simp)
  then show ?thesis by auto
qed

subsection \<open>Restocking the fill ring\<close>

abbreviation with_fill :: "system \<Rightarrow> u64 xsk_ring \<Rightarrow> u64 list \<Rightarrow> u32 \<Rightarrow> system" where
  "with_fill s r A F \<equiv> s\<lparr>umem := (umem s)\<lparr>fq := r\<rparr>, umem_frame_addr := A, umem_frame_free := F\<rparr>"

definition fill_progress :: "system \<Rightarrow> nat \<Rightarrow> u32 \<times> system \<Rightarrow> bool" where
  "fill_progress s i st \<longleftrightarrow>
     (\<exists>r A F. st = (producer (fq (umem s)) + of_nat i, with_fill s r A F)
       \<and> prod_inv r \<and> queue r = queue (fq (umem s)) \<and> producer r = producer (fq (umem s))
       \<and> size_of r = size_of (fq (umem s))
       \<and> reserved r = pool.issued i s @ drop i (reserved (fq (umem s)))
       \<and> pool_ok (with_fill s r A F)
       \<and> frame_stack (with_fill s r A F) = take (length (frame_stack s) - i) (frame_stack s))"

lemma fill_slot_progress:
  assumes P: "fill_progress s i st" and i: "i < length (reserved (fq (umem s)))"
  shows "\<exists>st'. fill_slot st = Some st' \<and> fill_progress s (Suc i) st'"
proof -
  let ?fq = "fq (umem s)"
  obtain r A F where st: "st = (producer ?fq + of_nat i, with_fill s r A F)"
    and r: "prod_inv r" "queue r = queue ?fq" "producer r = producer ?fq" "size_of r = size_of ?fq"
      "reserved r = pool.issued i s @ drop i (reserved ?fq)"
    and ok: "pool_ok (with_fill s r A F)"
      "frame_stack (with_fill s r A F) = take (length (frame_stack s) - i) (frame_stack s)"
    using P unfolding fill_progress_def by blast
  obtain x t where t: "xsk_alloc_umem_frame (with_fill s r A F) = Some (x, t)" "pool_ok t"
      "pool.issued (Suc i) s = pool.issued i s @ [x]"
      "frame_stack t = take (length (frame_stack s) - Suc i) (frame_stack s)"
    using pool.alloc_next [OF ok] by blast
  obtain A' F' where tA: "t = with_fill s r A' F'"
    using alloc_only [OF t(1)] by auto
  have "i < length (reserved r)" using i r(5) by simp
  from prod.put_law [OF r(1) this, of x] obtain r' where
    r': "slot_put r (xsk_ring_prod__fill_addr r (producer ?fq + of_nat i)) x = Some r'" "prod_inv r'"
      "queue r' = queue ?fq" "reserved r' = (reserved r)[i := x]" "producer r' = producer ?fq"
    using r by auto
  have "reserved r' = pool.issued (Suc i) s @ drop (Suc i) (reserved ?fq)"
    using i by (simp add: r'(4) r(5) t(3) list_update_append Cons_nth_drop_Suc [symmetric])
  moreover have "pool_ok (with_fill s r' A' F')" "frame_stack (with_fill s r' A' F') = frame_stack t"
    using t(2) by (simp_all add: tA pool_ok_def frame_stack_def)
  moreover have "fill_slot st = Some (producer ?fq + of_nat (Suc i), with_fill s r' A' F')"
    using t(1) r'(1) by (simp add: fill_slot_def st tA add.assoc add.commute)
  ultimately show ?thesis
    unfolding fill_progress_def using r' slot_put_size [OF r'(1)] r(4) t(4) by auto
qed

lemma fill_loop:
  assumes "prod_inv (fq (umem s))" and "pool_ok s" and "n \<le> length (reserved (fq (umem s)))"
  shows "\<exists>st. for_upto n (\<lambda>i. fill_slot) (producer (fq (umem s)), s) = Some st
    \<and> fill_progress s n st"
proof (rule for_upto_total)
  have e: "with_fill s (fq (umem s)) (umem_frame_addr s) (umem_frame_free s) = s" by simp
  show "fill_progress s 0 (producer (fq (umem s)), s)"
    unfolding fill_progress_def
    by (rule exI [of _ "fq (umem s)"], rule exI [of _ "umem_frame_addr s"],
        rule exI [of _ "umem_frame_free s"], unfold e) (use assms in \<open>simp add: pool.issued_def\<close>)
qed (use assms(3) fill_slot_progress in simp)

lemma issued_frames:
  assumes "\<forall>a \<in> set (frame_stack s). valid_frame a"
  shows "filter valid_frame (pool.issued n s) = take n (rev (frame_stack s))"
    and "mset (take (length (frame_stack s) - n) (frame_stack s) @ take n (rev (frame_stack s)))
      = mset (frame_stack s)"
proof -
  have "\<forall>a \<in> set (take n (rev (frame_stack s))). valid_frame a"
    using assms by (metis in_set_takeD set_rev)
  then show "filter valid_frame (pool.issued n s) = take n (rev (frame_stack s))"
    by (simp add: pool.issued_def filter_replicate)
  have "mset (take (length (frame_stack s) - n) (frame_stack s) @ take n (rev (frame_stack s)))
      = mset (take (length (frame_stack s) - n) (frame_stack s)
          @ drop (length (frame_stack s) - n) (frame_stack s))"
    by (simp only: mset_append mset_rev take_rev)
  then show "mset (take (length (frame_stack s) - n) (frame_stack s) @ take n (rev (frame_stack s)))
      = mset (frame_stack s)"
    by (simp only: append_take_drop_id)
qed

lemma busy_fill_ring:
  "prod_inv r \<Longrightarrow> queue r = queue (fq (umem s)) \<Longrightarrow> size_of r = size_of (fq (umem s)) \<Longrightarrow>
   busy_inv n m s \<Longrightarrow> busy_inv n m (set_fq r s)"
  by (simp add: busy_inv_def rings_ok_def holdings_def pool_ok_def frame_stack_def)

lemma busy_stack_valid: "busy_inv n m s \<Longrightarrow> \<forall>a \<in> set (frame_stack s). valid_frame a"
  using conserved_valid [OF busy_conserved, of n m s] by (auto simp: holdings_def)

text \<open>Filling and submitting the reserved slots keeps the accounts: valid frames move from the stack
  to the fill ring.\<close>

lemma fill_submit_busy:
  fixes n :: u32
  assumes inv: "busy_inv 0 0 s" and n: "length (reserved (fq (umem s))) = unat n"
  shows "\<exists>idx s1. for_upto (unat n) (\<lambda>i. fill_slot) (producer (fq (umem s)), s) = Some (idx, s1)
    \<and> (let s' = set_fq (xsk_ring_prod__submit (fq (umem s1)) (ucast n)) s1 in
       busy_inv 0 0 s' \<and> reserved (fq (umem s')) = [] \<and> peeked (rx s') = peeked (rx s)
       \<and> consumer (rx s') = consumer (rx s) \<and> peeked (cq (umem s')) = peeked (cq (umem s))
       \<and> frame_stack s' = take (length (frame_stack s) - unat n) (frame_stack s)
       \<and> queue (fq (umem s')) = queue (fq (umem s)) @ pool.issued (unat n) s)"
proof -
  let ?fq = "fq (umem s)" and ?n = "unat n"
  have ok: "prod_inv ?fq" "pool_ok s" using inv by (simp_all add: busy_inv_def rings_ok_def)
  obtain r A F where
    loop: "for_upto ?n (\<lambda>i. fill_slot) (producer ?fq, s) = Some (producer ?fq + of_nat ?n, with_fill s r A F)"
    and r: "prod_inv r" "queue r = queue ?fq" "size_of r = size_of ?fq" "reserved r = pool.issued ?n s"
    and st: "pool_ok (with_fill s r A F)"
      "frame_stack (with_fill s r A F) = take (length (frame_stack s) - ?n) (frame_stack s)"
    using fill_loop [OF ok, of ?n] n unfolding fill_progress_def by auto
  define r' where "r' = xsk_ring_prod__submit r (ucast n)"
  define s' where "s' = with_fill s r' A F"
  have u: "unat (ucast n :: u64) = ?n" by (simp add: unat_ucast_up)
  have r': "prod_inv r'" "queue r' = queue ?fq @ pool.issued ?n s" "reserved r' = []"
    using prod.submit_law [OF r(1), of "ucast n"] by (simp_all add: r'_def u r)
  have sz: "size_of r' = size_of ?fq" using r(3) by (simp add: r'_def xsk_ring_prod__submit_def)
  have fs: "pool_ok s'" "frame_stack s' = take (length (frame_stack s) - ?n) (frame_stack s)"
    using st by (simp_all add: s'_def pool_ok_def frame_stack_def)
  note iss = issued_frames [OF busy_stack_valid [OF inv], of ?n]
  have "conserved (holdings 0 0 s')"
  proof (rule conserved_perm [OF _ busy_conserved [OF inv]])
    have "mset (holdings 0 0 s') = mset (holdings 0 0 s)"
      unfolding holdings_def fs(2) using iss(2) by (simp add: r' iss(1) s'_def)
    then show "mset (map chunk (holdings 0 0 s')) = mset (map chunk (holdings 0 0 s))" by simp
  qed
  then have "busy_inv 0 0 s'"
    using inv r' sz fs by (simp add: busy_inv_def rings_ok_def s'_def)
  moreover have "fq (umem s') = r'" "rx s' = rx s" "cq (umem s') = cq (umem s)"
    by (simp_all add: s'_def)
  moreover have "set_fq (xsk_ring_prod__submit (fq (umem (with_fill s r A F))) (ucast n))
      (with_fill s r A F) = s'"
    by (simp add: s'_def r'_def)
  ultimately have "let s' = set_fq (xsk_ring_prod__submit (fq (umem (with_fill s r A F))) (ucast n))
        (with_fill s r A F) in
       busy_inv 0 0 s' \<and> reserved (fq (umem s')) = [] \<and> peeked (rx s') = peeked (rx s)
       \<and> consumer (rx s') = consumer (rx s) \<and> peeked (cq (umem s')) = peeked (cq (umem s))
       \<and> frame_stack s' = take (length (frame_stack s) - ?n) (frame_stack s)
       \<and> queue (fq (umem s')) = queue ?fq @ pool.issued ?n s"
    by (simp only: Let_def fs r' simp_thms)
  with loop show ?thesis by blast
qed

definition restocked :: "system \<Rightarrow> nat \<Rightarrow> system \<Rightarrow> bool" where
  "restocked s n s' \<longleftrightarrow> busy_inv 0 0 s' \<and> reserved (fq (umem s')) = []
     \<and> peeked (rx s') = peeked (rx s) \<and> consumer (rx s') = consumer (rx s)
     \<and> peeked (cq (umem s')) = peeked (cq (umem s))
     \<and> frame_stack s' = take (length (frame_stack s) - n) (frame_stack s)"

lemma reserve_retry_done: "reserve_retry k n rcvd (j, n, idx, s) = Some (j, n, idx, s)"
  by (simp add: reserve_retry_def while_option_unfold)

lemma restock_some:
  assumes "xsk_prod_nb_free (fq (umem (k 1 s))) (ucast (xsk_umem_free_frames (k 1 s))) = (n, r)"
    and "n \<noteq> 0" and "t = k 2 (set_fq r (k 1 s))"
    and "xsk_ring_prod__reserve (fq (umem t)) (ucast n) 0 = (ucast n, idx, r')"
    and "for_upto (unat n) (\<lambda>i. fill_slot) (idx, set_fq r' t) = Some (idx', u)"
  shows "restock k rcvd s = Some (set_fq (xsk_ring_prod__submit (fq (umem u)) (ucast n)) u)"
  using assms(1,2,4,5)
  by (simp add: restock_def reserve_retry_done word_gt_0 Let_def assms(3) [symmetric] del: One_nat_def)

lemma restock_busy:
  assumes k: "\<And>i. kern_ok (k i)" and inv: "busy_inv 0 0 s" and res: "reserved (fq (umem s)) = []"
    and nb: "xsk_prod_nb_free (fq (umem (k 1 s))) (umem_frame_free s) = (n, r)"
  shows "\<exists>t s'. untouched (set_fq r (k 1 s)) t \<and> restock k rcvd s = Some s' \<and> restocked s (unat n) s'
    \<and> queue (fq (umem s')) = queue (fq (umem t)) @ pool.issued (unat n) s"
proof -
  define t1 where "t1 = k 1 s"
  have t1: "busy_inv 0 0 t1" "untouched s t1" using kern_busy [OF k inv] by (simp_all add: t1_def)
  have "prod_inv (fq (umem t1))" using t1 by (simp add: busy_inv_def rings_ok_def)
  note F = nb_free_queue [OF this nb [folded t1_def]]
  have free: "ucast (xsk_umem_free_frames t1) = umem_frame_free s"
    using t1(2) by (simp add: xsk_umem_free_frames_def untouched_def)
  define t2 where "t2 = set_fq r t1"
  have t2: "busy_inv 0 0 t2" unfolding t2_def using F t1 by (intro busy_fill_ring) simp_all
  have t2s: "reserved (fq (umem t2)) = []" "peeked (rx t2) = peeked (rx s)"
    "consumer (rx t2) = consumer (rx s)" "peeked (cq (umem t2)) = peeked (cq (umem s))"
    "frame_stack t2 = frame_stack s"
    using t1(2) F(3) res by (simp_all add: t2_def untouched_def frame_stack_def)
  show ?thesis
  proof (cases "n = 0")
    case True
    then have "restock k rcvd s = Some t2"
      using nb free by (simp add: restock_def t1_def [symmetric] t2_def del: One_nat_def)
    with True t2 t2s show ?thesis
      by (intro exI [of _ t2]) (simp add: restocked_def pool.issued_def t2_def [symmetric]
          t1_def [symmetric] del: One_nat_def)
  next
    case False
    define t3 where "t3 = k 2 t2"
    have t3: "busy_inv 0 0 t3" "untouched t2 t3" using kern_busy [OF k t2] by (simp_all add: t3_def)
    define r3 where "r3 = (fq (umem t3))\<lparr>cached_prod := cached_prod (fq (umem t3)) + n\<rparr>"
    have "cached_cons (fq (umem t3)) - cached_prod (fq (umem t3)) = n"
      using t3(2) F(8) by (simp add: untouched_def t2_def)
    then have rsv: "xsk_ring_prod__reserve (fq (umem t3)) (ucast n) 0
        = (ucast n, cached_prod (fq (umem t3)), r3)"
      unfolding r3_def by (rule reserve_reported)
    have "prod_inv (fq (umem t3))" using t3(1) by (simp add: busy_inv_def rings_ok_def)
    note L = prod.reserve_law [OF this rsv]
    have rs3: "reserved (fq (umem t3)) = []" using t3(2) t2s(1) by (simp add: untouched_def)
    have r3: "prod_inv r3" "queue r3 = queue (fq (umem t3))" "producer r3 = producer (fq (umem t3))"
      "length (reserved r3) = unat n" "cached_prod (fq (umem t3)) = producer r3"
      using L rs3 False by (auto simp: unat_ucast_up)
    define s4 where "s4 = set_fq r3 t3"
    have sz: "size_of r3 = size_of (fq (umem t3))" by (simp add: r3_def)
    have b4: "busy_inv 0 0 s4" unfolding s4_def by (rule busy_fill_ring [OF r3(1,2) sz t3(1)])
    have l4: "length (reserved (fq (umem s4))) = unat n" using r3(4) by (simp add: s4_def)
    obtain idx s5 where
      loop: "for_upto (unat n) (\<lambda>i. fill_slot) (producer (fq (umem s4)), s4) = Some (idx, s5)"
      and fin: "let s' = set_fq (xsk_ring_prod__submit (fq (umem s5)) (ucast n)) s5 in
       busy_inv 0 0 s' \<and> reserved (fq (umem s')) = [] \<and> peeked (rx s') = peeked (rx s4)
       \<and> consumer (rx s') = consumer (rx s4) \<and> peeked (cq (umem s')) = peeked (cq (umem s4))
       \<and> frame_stack s' = take (length (frame_stack s4) - unat n) (frame_stack s4)
       \<and> queue (fq (umem s')) = queue (fq (umem s4)) @ pool.issued (unat n) s4"
      using fill_submit_busy [OF b4 l4] by (elim exE conjE) (rule that)
    define s' where "s' = set_fq (xsk_ring_prod__submit (fq (umem s5)) (ucast n)) s5"
    have "restock k rcvd s = Some s'"
      unfolding s'_def
    proof (rule restock_some)
      show "xsk_prod_nb_free (fq (umem (k 1 s))) (ucast (xsk_umem_free_frames (k 1 s))) = (n, r)"
        using nb free by (simp only: t1_def)
      show "t3 = k 2 (set_fq r (k 1 s))" by (simp only: t3_def t2_def t1_def)
      show "for_upto (unat n) (\<lambda>i. fill_slot) (producer r3, set_fq r3 t3) = Some (idx, s5)"
        using loop by (simp add: s4_def)
    qed (use False rsv r3(5) in simp_all)
    moreover have s4: "frame_stack s4 = frame_stack s" "peeked (rx s4) = peeked (rx s)"
      "consumer (rx s4) = consumer (rx s)" "peeked (cq (umem s4)) = peeked (cq (umem s))"
      using t3(2) t2s by (simp_all add: s4_def untouched_def frame_stack_def)
    moreover have "pool.issued (unat n) s4 = pool.issued (unat n) s"
      using s4(1) by (simp add: pool.issued_def)
    moreover have "queue (fq (umem s4)) = queue (fq (umem t3))" using r3(2) by (simp add: s4_def)
    ultimately show ?thesis
      using fin t3(2) by (intro exI [of _ t3] exI [of _ s'])
        (simp add: Let_def s'_def [symmetric] restocked_def t2_def [symmetric] t1_def [symmetric]
          del: One_nat_def)
  qed
qed

subsection \<open>Collecting completions\<close>

lemma cq_to_stack:
  assumes inv: "busy_inv n m s" and m: "m < length (peeked (cq (umem s)))"
  shows "\<exists>A F. xsk_free_umem_frame s (peeked (cq (umem s)) ! m)
      = Some (s\<lparr>umem_frame_addr := A, umem_frame_free := F\<rparr>)
    \<and> busy_inv n (Suc m) (s\<lparr>umem_frame_addr := A, umem_frame_free := F\<rparr>)"
proof -
  let ?a = "peeked (cq (umem s)) ! m"
  have c: "cons_inv (cq (umem s))" "pool_ok s" using inv by (simp_all add: busy_inv_def rings_ok_def)
  note d = drop_peeked [OF c(1) m]
  have "length (holdings n m s) = 4096" using busy_conserved [OF inv] by (rule conserved_length)
  then have "length (frame_stack s) < 4096" by (simp add: holdings_def d)
  then obtain s' where s': "xsk_free_umem_frame s ?a = Some s'" "pool_ok s'"
    "frame_stack s' = frame_stack s @ [?a]"
    using pool.free_push [OF c(2)] by blast
  obtain A F where e: "s' = s\<lparr>umem_frame_addr := A, umem_frame_free := F\<rparr>"
    using free_only [OF s'(1)] by blast
  have "conserved (holdings n (Suc m) s')"
  proof (rule conserved_perm [OF _ busy_conserved [OF inv]])
    show "mset (map chunk (holdings n (Suc m) s')) = mset (map chunk (holdings n m s))"
      using s'(3) by (simp add: holdings_def e d(1))
  qed
  then have "busy_inv n (Suc m) s'" using inv s' e m by (auto simp: busy_inv_def rings_ok_def)
  with s'(1) e show ?thesis by blast
qed

lemma completed_loop:
  assumes inv: "busy_inv n 0 s" and m: "m \<le> length (peeked (cq (umem s)))"
  shows "\<exists>A F. for_upto m (\<lambda>i. free_completed) (consumer (cq (umem s)), s)
      = Some (consumer (cq (umem s)) + of_nat m, s\<lparr>umem_frame_addr := A, umem_frame_free := F\<rparr>)
    \<and> busy_inv n m (s\<lparr>umem_frame_addr := A, umem_frame_free := F\<rparr>)"
proof -
  let ?P = "\<lambda>i st. \<exists>A F. st = (consumer (cq (umem s)) + of_nat i, s\<lparr>umem_frame_addr := A, umem_frame_free := F\<rparr>)
    \<and> busy_inv n i (s\<lparr>umem_frame_addr := A, umem_frame_free := F\<rparr>)"
  have "\<exists>st. for_upto m (\<lambda>i. free_completed) (consumer (cq (umem s)), s) = Some st \<and> ?P m st"
  proof (rule for_upto_total)
    show "?P 0 (consumer (cq (umem s)), s)"
      using inv by (intro exI [of _ "umem_frame_addr s"] exI [of _ "umem_frame_free s"]) simp
  next
    fix i and st :: "u32 \<times> system" assume i: "i < m" and "?P i st"
    then obtain A F where st: "st = (consumer (cq (umem s)) + of_nat i, s\<lparr>umem_frame_addr := A, umem_frame_free := F\<rparr>)"
      and b: "busy_inv n i (s\<lparr>umem_frame_addr := A, umem_frame_free := F\<rparr>)" by blast
    let ?t = "s\<lparr>umem_frame_addr := A, umem_frame_free := F\<rparr>"
    have c: "cons_inv (cq (umem s))" using inv by (simp add: busy_inv_def rings_ok_def)
    have g: "slot_get (cq (umem s)) (xsk_ring_cons__comp_addr (cq (umem s)) (consumer (cq (umem s)) + of_nat i))
        = Some (peeked (cq (umem s)) ! i)"
      unfolding comp_addr_rx_desc using cons.get_law [OF c, of i] i m by simp
    obtain A' F' where "xsk_free_umem_frame ?t (peeked (cq (umem s)) ! i)
        = Some (s\<lparr>umem_frame_addr := A', umem_frame_free := F'\<rparr>)"
      and "busy_inv n (Suc i) (s\<lparr>umem_frame_addr := A', umem_frame_free := F'\<rparr>)"
      using cq_to_stack [OF b] i m by auto
    with g show "\<exists>v. free_completed st = Some v \<and> ?P (Suc i) v"
      by (auto simp: free_completed_def st)
  qed
  then show ?thesis by auto
qed

lemma idle_busy: "idle_inv s \<Longrightarrow> busy_inv 0 0 s"
  by (simp add: idle_inv_def)

lemma kern_idle: "kern_ok k \<Longrightarrow> idle_inv s \<Longrightarrow> idle_inv (k s)"
  using kern_busy [of k 0 0 s] by (simp add: idle_inv_def untouched_def)

text \<open>Releasing the collected completions and adjusting the count of outstanding transmissions.\<close>

lemma release_completed:
  assumes b: "busy_inv 0 (unat c) s" and l: "length (peeked (cq (umem s))) = unat c"
    and res: "reserved (fq (umem s)) = []" "peeked (rx s) = []"
  shows "idle_inv ((set_cq (xsk_ring_cons__release (cq (umem s)) (ucast (c :: u32))) s)
    \<lparr>outstanding_tx := outstanding_tx s - (if c < outstanding_tx s then c else outstanding_tx s)\<rparr>)"
proof -
  let ?r = "xsk_ring_cons__release (cq (umem s)) (ucast c)"
  have ci: "cons_inv (cq (umem s))" using b by (simp add: busy_inv_def rings_ok_def)
  have u: "unat (ucast c :: u64) = unat c" by (simp add: unat_ucast_up)
  have r: "cons_inv ?r" "queue ?r = drop (unat c) (queue (cq (umem s)))" "peeked ?r = []"
    using cons.release_law [OF ci, of "ucast c"] l by (simp_all add: u)
  have sz: "size_of ?r = size_of (cq (umem s))" by (simp add: xsk_ring_cons__release_def)
  have "unat c \<le> unat (outstanding_tx s)"
    using b l peeked_le_queue [OF ci] by (simp add: busy_inv_def)
  then have o: "(if c < outstanding_tx s then c else outstanding_tx s) = c"
    "unat (outstanding_tx s - c) = unat (outstanding_tx s) - unat c"
    by (auto simp: word_less_nat_alt unat_sub_if' intro!: word_unat_eq_iff [THEN iffD2])
  have q: "length (queue ?r) + unat c = length (queue (cq (umem s)))"
    using peeked_le_queue [OF ci] l by (simp add: r(2))
  show ?thesis
    unfolding o(1) idle_inv_def busy_inv_def
    using b r sz res o(2) q
    by (simp add: busy_inv_def rings_ok_def holdings_def pool_ok_def frame_stack_def)
qed

lemma busy_comp_ring:
  "cons_inv r \<Longrightarrow> queue r = queue (cq (umem s)) \<Longrightarrow> size_of r = size_of (cq (umem s)) \<Longrightarrow>
   busy_inv n 0 s \<Longrightarrow> busy_inv n 0 (set_cq r s)"
  by (simp add: busy_inv_def rings_ok_def holdings_def pool_ok_def frame_stack_def)

lemma busy_rx_ring:
  "cons_inv r \<Longrightarrow> queue r = queue (rx s) \<Longrightarrow> size_of r = size_of (rx s) \<Longrightarrow>
   busy_inv 0 m s \<Longrightarrow> busy_inv 0 m (s\<lparr>rx := r\<rparr>)"
  by (simp add: busy_inv_def rings_ok_def holdings_def pool_ok_def frame_stack_def)

lemma complete_tx_idle:
  assumes k: "kern_ok k" and inv: "idle_inv s"
  shows "\<exists>s'. complete_tx k s = Some s' \<and> idle_inv s'"
proof (cases "outstanding_tx s = 0")
  case True
  with inv show ?thesis by (simp add: complete_tx_def)
next
  case False
  define t where "t = k s"
  have t: "idle_inv t" using k inv by (simp add: t_def kern_idle)
  obtain n idx r where pk: "xsk_ring_cons__peek (cq (umem t)) 2048 0 = (n, idx, r)" by (metis prod_cases3)
  have ci: "cons_inv (cq (umem t))" using t by (simp add: idle_inv_def busy_inv_def rings_ok_def)
  have pkt: "peeked (cq (umem t)) = []" using t by (simp add: idle_inv_def)
  have r: "cons_inv r" "queue r = queue (cq (umem t))" "consumer r = consumer (cq (umem t))"
    "length (peeked r) = unat n" "n \<noteq> 0 \<longrightarrow> idx = consumer r" "unat n \<le> 2048"
    using cons.peek_idle [OF ci pkt _ pk] by simp_all
  define c :: u32 where "c = ucast n"
  have c: "unat c = unat n"
    using r(6) take_bit_nat_eq_self [of "unat n" 32] by (simp add: c_def unsigned_ucast_eq)
  define t1 where "t1 = set_cq r t"
  have b: "busy_inv 0 0 t1"
    unfolding t1_def using r peek_size [OF pk] idle_busy [OF t] by (intro busy_comp_ring) simp_all
  have t1: "reserved (fq (umem t1)) = []" "peeked (rx t1) = []" "cq (umem t1) = r"
    using t by (simp_all add: t1_def idle_inv_def)
  show ?thesis
  proof (cases "c = 0")
    case True
    then have "peeked r = []" using r(4) c by simp
    then have "idle_inv t1" using b t1 by (simp add: idle_inv_def)
    moreover have "complete_tx k s = Some t1"
      using False pk True by (simp add: complete_tx_def t_def [symmetric] t1_def c_def)
    ultimately show ?thesis by simp
  next
    case nz: False
    then have idx: "idx = consumer (cq (umem t1))" using r(5) c t1(3) by (auto simp: unat_eq_0)
    obtain A F where loop: "for_upto (unat c) (\<lambda>i. free_completed) (consumer (cq (umem t1)), t1)
        = Some (consumer (cq (umem t1)) + of_nat (unat c), t1\<lparr>umem_frame_addr := A, umem_frame_free := F\<rparr>)"
      and b2: "busy_inv 0 (unat c) (t1\<lparr>umem_frame_addr := A, umem_frame_free := F\<rparr>)"
      using completed_loop [OF b, of "unat c"] r(4) t1(3) c by auto
    let ?t2 = "t1\<lparr>umem_frame_addr := A, umem_frame_free := F\<rparr>"
    have "idle_inv ((set_cq (xsk_ring_cons__release (cq (umem ?t2)) (ucast c)) ?t2)
      \<lparr>outstanding_tx := outstanding_tx ?t2 - (if c < outstanding_tx ?t2 then c else outstanding_tx ?t2)\<rparr>)"
      using t1 r(4) c by (intro release_completed [OF b2]) simp_all
    moreover have "complete_tx k s = Some ((set_cq (xsk_ring_cons__release (cq (umem ?t2)) (ucast c)) ?t2)
      \<lparr>outstanding_tx := outstanding_tx ?t2 - (if c < outstanding_tx ?t2 then c else outstanding_tx ?t2)\<rparr>)"
      using False pk nz loop idx
      by (simp add: complete_tx_def t_def [symmetric] t1_def [symmetric] c_def [symmetric] word_gt_0 Let_def)
    ultimately show ?thesis by blast
  qed
qed

lemma release_batch:
  assumes b: "busy_inv (unat c) 0 s" and l: "length (peeked (rx s)) = unat c"
    and res: "reserved (fq (umem s)) = []" "peeked (cq (umem s)) = []"
  shows "idle_inv (s\<lparr>rx := xsk_ring_cons__release (rx s) (ucast (c :: u32)), stats := st\<rparr>)"
proof -
  let ?r = "xsk_ring_cons__release (rx s) (ucast c)"
  have ci: "cons_inv (rx s)" using b by (simp add: busy_inv_def rings_ok_def)
  have u: "unat (ucast c :: u64) = unat c" by (simp add: unat_ucast_up)
  have r: "cons_inv ?r" "queue ?r = drop (unat c) (queue (rx s))" "peeked ?r = []"
    using cons.release_law [OF ci, of "ucast c"] l by (simp_all add: u)
  have sz: "size_of ?r = size_of (rx s)" by (simp add: xsk_ring_cons__release_def)
  have "\<forall>d \<in> set (queue ?r). desc_in_frame d"
    using b in_set_dropD by (fastforce simp: r(2) busy_inv_def)
  then show ?thesis
    unfolding idle_inv_def busy_inv_def
    using b r sz res
    by (simp add: busy_inv_def rings_ok_def holdings_def pool_ok_def frame_stack_def)
qed

lemma handle_receive_packets_idle:
  assumes k: "\<And>i. kern_ok (k i)" and inv: "idle_inv s"
  shows "\<exists>s'. handle_receive_packets k s = Some s' \<and> idle_inv s'"
proof -
  define t where "t = k 0 s"
  have t: "idle_inv t" using k inv by (simp add: t_def kern_idle)
  obtain n idx r where pk: "xsk_ring_cons__peek (rx t) 64 0 = (n, idx, r)" by (metis prod_cases3)
  have ci: "cons_inv (rx t)" using t by (simp add: idle_inv_def busy_inv_def rings_ok_def)
  have pkt: "peeked (rx t) = []" using t by (simp add: idle_inv_def)
  have r: "cons_inv r" "queue r = queue (rx t)" "consumer r = consumer (rx t)"
    "length (peeked r) = unat n" "n \<noteq> 0 \<longrightarrow> idx = consumer r" "unat n \<le> 64"
    using cons.peek_idle [OF ci pkt _ pk] by simp_all
  define c :: u32 where "c = ucast n"
  have c: "unat c = unat n"
    using r(6) take_bit_nat_eq_self [of "unat n" 32] by (simp add: c_def unsigned_ucast_eq)
  define t1 where "t1 = t\<lparr>rx := r\<rparr>"
  have b: "busy_inv 0 0 t1"
    unfolding t1_def using r peek_size [OF pk] idle_busy [OF t] by (intro busy_rx_ring) simp_all
  have t1: "reserved (fq (umem t1)) = []" "peeked (cq (umem t1)) = []" "rx t1 = r"
    using t by (simp_all add: t1_def idle_inv_def)
  show ?thesis
  proof (cases "c = 0")
    case True
    then have "peeked r = []" using r(4) c by simp
    then have "idle_inv t1" using b t1 by (simp add: idle_inv_def)
    moreover have "handle_receive_packets k s = Some t1"
      using pk True by (simp add: handle_receive_packets_def t_def [symmetric] t1_def c_def)
    ultimately show ?thesis by simp
  next
    case False
    then have idx: "idx = consumer r" using r(5) c by (auto simp: unat_eq_0)
    obtain m r1 where nb: "xsk_prod_nb_free (fq (umem (k 1 t1))) (umem_frame_free t1) = (m, r1)"
      by fastforce
    obtain t2 where t2: "restock k c t1 = Some t2" "restocked t1 (unat m) t2"
      using restock_busy [of k, OF k b t1(1) nb] by blast
    have p2: "busy_inv 0 0 t2" "consumer (rx t2) = idx" "peeked (rx t2) = peeked r"
        "peeked (cq (umem t2)) = []" "reserved (fq (umem t2)) = []"
      using t2(2) t1 idx by (simp_all add: restocked_def)
    obtain t3 where loop: "for_upto (unat c) (\<lambda>i. receive_packet (k (4 + i))) (idx, t2)
        = Some (idx + of_nat (unat c), t3)" and t3: "same_batch t2 t3" "busy_inv (unat c) 0 t3"
      using receive_loop_busy [of k 0 t2 "unat c", OF k p2(1)] p2(2,3) r(4) c by auto
    define t4 where "t4 = t3\<lparr>rx := xsk_ring_cons__release (rx t3) (ucast c),
      stats := (stats t3)\<lparr>rx_packets := rx_packets (stats t3) + ucast c\<rparr>\<rparr>"
    have "idle_inv t4"
      unfolding t4_def using t3 p2 r(4) c by (intro release_batch) (simp_all add: same_batch_def)
    then obtain s' where "complete_tx (k 3) t4 = Some s'" "idle_inv s'"
      using complete_tx_idle [OF k [of 3]] by blast
    moreover have "handle_receive_packets k s = complete_tx (k 3) t4"
      using pk False t2(1) loop
      by (simp add: handle_receive_packets_def t_def [symmetric] t1_def [symmetric] c_def [symmetric]
          t4_def Let_def)
    ultimately show ?thesis by simp
  qed
qed

subsection \<open>Runs of the program\<close>

lemma rx_and_process_idle:
  assumes "\<forall>(ret, k) \<in> set rounds. \<forall>i. kern_ok (k i)" and "idle_inv s"
  shows "\<exists>s'. rx_and_process poll_mode rounds s = Some s' \<and> idle_inv s'"
  using assms
proof (induction poll_mode rounds s rule: rx_and_process.induct)
  case (2 poll_mode ret k rounds s)
  obtain s1 where s1: "handle_receive_packets k s = Some s1" "idle_inv s1"
    using handle_receive_packets_idle [of k s] 2(3,4) by auto
  then show ?case using 2 by auto
qed simp

subsection \<open>The initial state\<close>

text \<open>The rings of a fresh socket and UMEM.\<close>

definition fresh_rings :: "xdp_desc xsk_ring \<Rightarrow> xdp_desc xsk_ring \<Rightarrow> xsk_umem_info \<Rightarrow> bool" where
  "fresh_rings r t u \<longleftrightarrow>
     prod_inv (fq u) \<and> prod_inv t \<and> cons_inv r \<and> cons_inv (cq u)
     \<and> queue (fq u) = [] \<and> reserved (fq u) = [] \<and> queue t = [] \<and> reserved t = []
     \<and> queue r = [] \<and> peeked r = [] \<and> queue (cq u) = [] \<and> peeked (cq u) = []
     \<and> size_of (fq u) = 2048 \<and> size_of t = 2048 \<and> size_of r = 2048 \<and> size_of (cq u) = 2048
     \<and> length (buffer u) = NUM_FRAMES * FRAME_SIZE"

abbreviation no_frames :: "\<lparr>k_rx :: u64 list, k_tx :: u64 list\<rparr>" where
  "no_frames \<equiv> \<lparr>k_rx = [], k_tx = []\<rparr>"

lemma chunk_frame: "i < NUM_FRAMES \<Longrightarrow> chunk (of_nat (i * FRAME_SIZE)) = i"
proof -
  assume "i < 4096"
  then have "i * 4096 < 2 ^ 64" by simp
  then have "unat (of_nat (i * 4096) :: u64) = i * 4096"
    by (simp only: unsigned_of_nat) (simp add: take_bit_nat_eq_self_iff)
  then show ?thesis by (simp only: chunk_def)
qed

lemma all_frames_conserved: "conserved (map (\<lambda>i. of_nat (i * FRAME_SIZE)) [0..<NUM_FRAMES])"
proof -
  have "map chunk (map (\<lambda>i. of_nat (i * 4096)) [0..<4096]) = [0..<4096]"
    using chunk_frame by (intro map_idI [THEN trans [OF map_map]]) (simp del: of_nat_mult)
  then show ?thesis by (simp only: conserved_def)
qed

lemma stocked_busy:
  assumes "fresh_rings r t u"
  shows "busy_inv 0 0 ((socket_info r t u no_frames)
    \<lparr>umem_frame_addr := map (\<lambda>i. of_nat (i * FRAME_SIZE)) [0..<NUM_FRAMES],
     umem_frame_free := of_nat NUM_FRAMES\<rparr>)"
    (is "busy_inv 0 0 ?s")
proof -
  have f: "frame_stack ?s = map (\<lambda>i. of_nat (i * 4096)) [0..<4096]"
    by (simp add: frame_stack_def)
  then have "holdings 0 0 ?s = map (\<lambda>i. of_nat (i * 4096)) [0..<4096]"
    using assms by (simp add: holdings_def fresh_rings_def socket_info_def)
  then have "conserved (holdings 0 0 ?s)" using all_frames_conserved by (simp only:)
  moreover have "rings_ok ?s" "pool_ok ?s" "n \<le> 4096 \<Longrightarrow> True"
    using assms by (simp_all add: rings_ok_def pool_ok_def fresh_rings_def socket_info_def)
  ultimately show ?thesis
    using assms unfolding busy_inv_def by (simp add: fresh_rings_def socket_info_def)
qed

lemma stock_fill_ring_idle:
  assumes fr: "fresh_rings r t u"
  shows "\<exists>s. stock_fill_ring (socket_info r t u no_frames) = Some (Some s) \<and> idle_inv s
    \<and> queue (fq (umem s)) = rev (map (\<lambda>i. of_nat (i * FRAME_SIZE)) [2048..<4096])"
proof -
  let ?A = "map (\<lambda>i. of_nat (i * 4096)) [0..<4096] :: u64 list"
  define s1 where "s1 = (socket_info r t u no_frames)\<lparr>umem_frame_addr := ?A, umem_frame_free := of_nat 4096\<rparr>"
  have b1: "busy_inv 0 0 s1" unfolding s1_def using stocked_busy [OF fr] .
  have fs1: "frame_stack s1 = ?A" by (simp add: s1_def frame_stack_def)
  have s1: "fq (umem s1) = fq u" "peeked (rx s1) = []" "peeked (cq (umem s1)) = []"
    using fr by (simp_all add: s1_def socket_info_def fresh_rings_def)
  obtain m j r1 where res: "xsk_ring_prod__reserve (fq u) 2048 0 = (m, j, r1)" by (metis prod_cases3)
  have fqu: "prod_inv (fq u)" "queue (fq u) = []" "reserved (fq u) = []" "size_of (fq u) = 2048"
    using fr by (simp_all add: fresh_rings_def)
  have m: "m = 2048" using reserve_granted_iff [OF fqu(1) res] fqu(2-4) by simp
  have r1: "prod_inv r1" "queue r1 = queue (fq u)" "length (reserved r1) = 2048" "j = producer r1"
    using prod.reserve_law [OF fqu(1) res] m fqu(3) by auto
  define s2 where "s2 = set_fq r1 s1"
  have b2: "busy_inv 0 0 s2" unfolding s2_def
    using r1 reserve_size [OF res] b1 s1 by (intro busy_fill_ring) simp_all
  have l2: "length (reserved (fq (umem s2))) = unat (2048 :: u32)" using r1(3) by (simp add: s2_def)
  have fs2: "frame_stack s2 = ?A" using fs1 by (simp add: s2_def frame_stack_def)
  obtain idx s3 where loop: "for_upto (unat (2048 :: u32)) (\<lambda>i. fill_slot) (producer (fq (umem s2)), s2) = Some (idx, s3)"
    and fin: "let s' = set_fq (xsk_ring_prod__submit (fq (umem s3)) (ucast (2048 :: u32))) s3 in
       busy_inv 0 0 s' \<and> reserved (fq (umem s')) = [] \<and> peeked (rx s') = peeked (rx s2)
       \<and> consumer (rx s') = consumer (rx s2) \<and> peeked (cq (umem s')) = peeked (cq (umem s2))
       \<and> frame_stack s' = take (length (frame_stack s2) - unat (2048 :: u32)) (frame_stack s2)
       \<and> queue (fq (umem s')) = queue (fq (umem s2)) @ pool.issued (unat (2048 :: u32)) s2"
    using fill_submit_busy [OF b2 l2] by (elim exE conjE) (rule that)
  define s where "s = set_fq (xsk_ring_prod__submit (fq (umem s3)) 2048) s3"
  have c: "(ucast (2048 :: u32) :: u64) = 2048" "unat (2048 :: u32) = 2048" by simp_all
  note fin' = fin [unfolded Let_def c, folded s_def]
  have "idle_inv s" using fin' s1 by (simp add: idle_inv_def s2_def)
  moreover have "stock_fill_ring (socket_info r t u no_frames) = Some (Some s)"
  proof -
    have "socket_info r t u no_frames\<lparr>umem_frame_addr := ?A, umem_frame_free := of_nat 4096\<rparr> = s1"
      by (simp only: s1_def)
    moreover have "xsk_ring_prod__reserve (fq (umem s1)) (of_nat 2048) 0 = (of_nat 2048, j, r1)"
      using res m s1(1) by simp
    moreover have "for_upto 2048 (\<lambda>i. fill_slot) (j, s2) = Some (idx, s3)"
      using loop r1(4) by (simp add: s2_def)
    ultimately show ?thesis
      unfolding stock_fill_ring_def Let_def by (simp only:) (simp add: s2_def [symmetric] s_def)
  qed
  moreover have "queue (fq (umem s)) = rev (map (\<lambda>i. of_nat (i * 4096)) [2048..<4096])"
  proof -
    have "rev (drop 2048 ?A) = rev (map (\<lambda>i. of_nat (i * 4096)) [2048..<4096])"
      by (simp only: drop_map drop_upt add_0)
    moreover have "length ?A - 2048 = 2048" "2048 - length ?A = 0" by simp_all
    ultimately have "pool.issued 2048 s2 = rev (map (\<lambda>i. of_nat (i * 4096)) [2048..<4096])"
      by (simp only: pool.issued_def fs2 take_rev replicate_0 append_Nil2)
    moreover have "fq (umem s2) = r1" by (simp add: s2_def)
    ultimately show ?thesis using fin' fqu(2) r1(2) by (simp only: append_Nil)
  qed
  ultimately show ?thesis by blast
qed

subsection \<open>Properties\<close>

text \<open>A concrete start: fresh rings of 2048 slots and zeroed packet memory. And a concrete kernel that
  takes the next frame from the fill ring and delivers a 60-byte packet in it.\<close>

definition start_prod :: "'d \<Rightarrow> 'd xsk_ring" where
  "start_prod d = (map_ring 2048 (0, 0, 0, replicate 2048 d) zero_ring)\<lparr>cached_cons := 2048\<rparr>"

definition start_cons :: "'d \<Rightarrow> 'd xsk_ring" where
  "start_cons d = map_ring 2048 (0, 0, 0, replicate 2048 d) zero_ring"

definition start_umem :: xsk_umem_info where
  "start_umem = \<lparr>fq = start_prod 0, cq = start_cons 0, buffer = replicate (NUM_FRAMES * FRAME_SIZE) 0\<rparr>"

abbreviation (input) no_desc :: xdp_desc where "no_desc \<equiv> \<lparr>addr = 0, len = 0, options = 0\<rparr>"

definition start_system :: system where
  "start_system = the (the (stock_fill_ring (socket_info (start_cons no_desc) (start_prod no_desc) start_umem no_frames)))"

definition kern_deliver :: "system \<Rightarrow> system" where
  "kern_deliver s =
     (case queue (fq (umem s)) of
        a # as \<Rightarrow>
          let s1 = set_fq (kern_consume (fq (umem s))) s\<lparr>k_rx := (if valid_frame a then k_rx s @ [a] else k_rx s)\<rparr>;
              d = \<lparr>addr = a, len = 60, options = 0\<rparr>
          in if valid_frame a \<and> desc_in_frame d \<and> length (queue (rx s)) < unat (size_of (rx s))
             then s1\<lparr>rx := kern_produce d (rx s1), k_rx := k_rx s\<rparr> else s1
      | [] \<Rightarrow> s)"

lemma size_2048_ok: "ring_size_ok 2048"
  unfolding ring_size_ok_def set_map by (rule image_eqI [of _ _ 11]) simp_all

lemma start_prod_fresh:
  "prod_inv (start_prod d)" "queue (start_prod d) = []" "reserved (start_prod d) = []"
  "size_of (start_prod d) = 2048"
  using fresh_producer [OF size_2048_ok, of "(0, 0, 0, replicate 2048 d)" zero_ring]
  by (simp_all add: start_prod_def fresh_ring_def zero_ring_def)

lemma start_cons_fresh:
  "cons_inv (start_cons d)" "queue (start_cons d) = []" "peeked (start_cons d) = []"
  "size_of (start_cons d) = 2048"
  using fresh_consumer [OF size_2048_ok, of "(0, 0, 0, replicate 2048 d)" zero_ring]
  by (simp_all add: start_cons_def fresh_ring_def zero_ring_def)

lemma start_fresh: "fresh_rings (start_cons no_desc) (start_prod no_desc) start_umem"
  by (simp add: fresh_rings_def start_umem_def start_prod_fresh start_cons_fresh)

lemma start_idle: "idle_inv start_system"
proof -
  obtain s where "stock_fill_ring (socket_info (start_cons no_desc) (start_prod no_desc) start_umem no_frames) = Some (Some s)"
    and "idle_inv s"
    using stock_fill_ring_idle [OF start_fresh] by (elim exE conjE) (rule that)
  then show ?thesis by (simp only: start_system_def option.sel)
qed

lemma writes_nothing: "writes_frame c m m"
  by (simp add: writes_frame_def)

lemma kern_deliver_ok: "kern_ok kern_deliver"
  unfolding kern_ok_def
proof
  fix s
  show "kern_step\<^sup>*\<^sup>* s (kern_deliver s)"
  proof (cases "queue (fq (umem s))")
    case Nil
    then show ?thesis by (simp add: kern_deliver_def)
  next
    case (Cons a as)
    define s1 where "s1 = set_fq (kern_consume (fq (umem s))) s\<lparr>k_rx := (if valid_frame a then k_rx s @ [a] else k_rx s)\<rparr>"
    let ?d = "\<lparr>addr = a, len = 60, options = 0\<rparr>"
    have 1: "kern_step s s1" unfolding s1_def using Cons by (rule take_fill)
    let ?c = "valid_frame a \<and> desc_in_frame ?d \<and> length (queue (rx s)) < unat (size_of (rx s))"
    have eq: "kern_deliver s = (if ?c then s1\<lparr>rx := kern_produce ?d (rx s1), k_rx := k_rx s\<rparr> else s1)"
      by (simp only: kern_deliver_def Cons list.case Let_def s1_def)
    show ?thesis
    proof (cases ?c)
      case False
      with eq 1 show ?thesis by (simp only: if_False r_into_rtranclp)
    next
      case True
      then have "kern_deliver s = s1\<lparr>rx := kern_produce ?d (rx s1), k_rx := k_rx s\<rparr>"
        using eq by (simp only: if_True simp_thms)
      moreover have "kern_step s1 (set_buffer (buffer (umem s1)) s1\<lparr>rx := kern_produce ?d (rx s1), k_rx := k_rx s @ []\<rparr>)"
        by (rule deliver [where a = a])
          (use True in \<open>simp_all add: s1_def writes_nothing\<close>)
      ultimately have "kern_step s1 (kern_deliver s)" by simp
      with 1 show ?thesis by (meson converse_rtranclp_into_rtranclp r_into_rtranclp)
    qed
  qed
qed

text \<open>C1. The receive handler is correct against any kernel behaviour: from a state that satisfies the
  invariant it returns (no access outside a ring, an array or the packet memory, no failed assertion,
  no endless retry) in a state that satisfies it again. The invariant says that the four rings are
  consistent, that each of the 4096 UMEM frames is at exactly one place (frame stack, fill ring, rx
  ring, tx ring, completion ring or kernel), and that \<^verbatim>\<open>outstanding_tx\<close> is the number of
  frames under transmission.\<close>

theorem handle_receive_packets_correct:
  assumes "\<forall>i. kern_ok (k i)" and "idle_inv s"
  shows "\<exists>s'. handle_receive_packets k s = Some s' \<and> idle_inv s'"
  using assms by (intro handle_receive_packets_idle) simp_all

theorem handle_receive_packets_correct_witness:
  "\<exists>s'. handle_receive_packets (\<lambda>_. kern_deliver) start_system = Some s' \<and> idle_inv s'"
  using handle_receive_packets_correct [of "\<lambda>_. kern_deliver" start_system] kern_deliver_ok start_idle by simp

text \<open>C3. The program never gets stuck: after setting up the socket on fresh rings, any number of
  rounds of the main loop, in poll mode or not and whatever the kernel does, runs without a fault or
  failed assertion and keeps every frame accounted for.\<close>

theorem program_run_safe:
  assumes "fresh_rings r t u" and "\<forall>(ret, k) \<in> set rounds. \<forall>i. kern_ok (k i)"
  shows "\<exists>s0 s. stock_fill_ring (socket_info r t u no_frames) = Some (Some s0)
    \<and> rx_and_process poll_mode rounds s0 = Some s \<and> conserved (holdings 0 0 s)
    \<and> queue (fq (umem s0)) = rev (map (\<lambda>i. of_nat (i * FRAME_SIZE)) [2048..<4096])"
proof -
  obtain s0 where s0: "stock_fill_ring (socket_info r t u no_frames) = Some (Some s0)" "idle_inv s0"
    "queue (fq (umem s0)) = rev (map (\<lambda>i. of_nat (i * FRAME_SIZE)) [2048..<4096])"
    using stock_fill_ring_idle [OF assms(1)] by blast
  from rx_and_process_idle [OF assms(2) s0(2)] s0 busy_conserved idle_busy show ?thesis by blast
qed

theorem program_run_safe_witness:
  "\<exists>s0 s. stock_fill_ring (socket_info (start_cons no_desc) (start_prod no_desc) start_umem no_frames) = Some (Some s0)
    \<and> rx_and_process True [(1, \<lambda>_. kern_deliver), (0, \<lambda>_. kern_deliver)] s0 = Some s \<and> conserved (holdings 0 0 s)"
proof -
  let ?rounds = "[(1, \<lambda>_. kern_deliver), (0, \<lambda>_. kern_deliver)]"
  have "\<forall>(ret, k) \<in> set ?rounds. \<forall>i. kern_ok (k i)" by (simp add: kern_deliver_ok)
  from program_run_safe [OF start_fresh this, of True] show ?thesis
    by (elim exE conjE) (intro exI conjI)
qed

text \<open>C5. Restocking moves the top of the frame stack, newest first, to the fill ring; if
  \<^verbatim>\<open>xsk_prod_nb_free\<close> reports more free slots than the stack has frames, the surplus slots are
  filled with \<^verbatim>\<open>INVALID_UMEM_FRAME\<close> and submitted to the kernel.\<close>

theorem restock_exact:
  assumes "\<forall>i. kern_ok (k i)" and "busy_inv 0 0 s" and "reserved (fq (umem s)) = []"
    and "xsk_prod_nb_free (fq (umem (k 1 s))) (umem_frame_free s) = (n, r)"
  shows "\<exists>t s'. restock k rcvd s = Some s' \<and> untouched (set_fq r (k 1 s)) t
    \<and> queue (fq (umem s')) = queue (fq (umem t)) @ take (unat n) (rev (frame_stack s))
        @ replicate (unat n - length (frame_stack s)) INVALID_UMEM_FRAME
    \<and> frame_stack s' = take (length (frame_stack s) - unat n) (frame_stack s)"
proof -
  have k: "\<And>i. kern_ok (k i)" using assms(1) by simp
  obtain t s' where "untouched (set_fq r (k 1 s)) t" "restock k rcvd s = Some s'"
    "restocked s (unat n) s'" "queue (fq (umem s')) = queue (fq (umem t)) @ pool.issued (unat n) s"
    using restock_busy [of k, OF k assms(2-4), of rcvd] by (elim exE conjE) (rule that)
  then show ?thesis
    by (intro exI [of _ t] exI [of _ s']) (simp only: restocked_def pool.issued_def append_assoc simp_thms)
qed

theorem restock_exact_witness:
  "\<exists>t s'. restock (\<lambda>_. kern_deliver) 1 start_system = Some s'
    \<and> frame_stack s' = take (length (frame_stack start_system)
        - unat (fst (xsk_prod_nb_free (fq (umem (kern_deliver start_system))) (umem_frame_free start_system))))
        (frame_stack start_system)"
  using restock_exact [of "\<lambda>_. kern_deliver" start_system
      "fst (xsk_prod_nb_free (fq (umem (kern_deliver start_system))) (umem_frame_free start_system))"
      "snd (xsk_prod_nb_free (fq (umem (kern_deliver start_system))) (umem_frame_free start_system))" 1]
    kern_deliver_ok start_idle
  by (auto simp: idle_inv_def)

end
