(* ===== verification/XdpStats.thy ===== *)
theory XdpStats
  imports Rewrite CommonParams Complex_Main
begin

text \<open>
  Packet accounting per XDP action: the kernel side (\<^verbatim>\<open>common/xdp_stats_kern.h\<close> and the
  programs of \<^verbatim>\<open>basic01\<close> to \<^verbatim>\<open>basic04\<close>) and the tools that read it
  (\<^verbatim>\<open>basic04-pinning-maps/xdp_stats.c\<close> and, where it differs,
  \<^verbatim>\<open>basic03-map-counter/xdp_load_and_stats.c\<close>).

  The map \<^verbatim>\<open>xdp_stats_map\<close> is a per-CPU array: each CPU has a partial function from keys
  to records, \<^verbatim>\<open>bpf_map_lookup_elem\<close> is its application, and writing through the returned
  pointer its update. Which keys exist is a hypothesis where it matters (an array map has those below
  \<^verbatim>\<open>max_entries\<close>). In user space the \<^verbatim>\<open>bpf\<close> system call, the clock and the
  contents of uninitialised stack variables are a record of parameters.
  Rates are computed in \<^verbatim>\<open>double\<close>; here they are exact rationals.
\<close>

subsection \<open>Recording\<close>

abbreviation (input) XDP_ABORTED :: u32 where "XDP_ABORTED \<equiv> 0"
abbreviation (input) XDP_DROP :: u32 where "XDP_DROP \<equiv> 1"
abbreviation (input) XDP_PASS :: u32 where "XDP_PASS \<equiv> 2"
abbreviation (input) XDP_TX :: u32 where "XDP_TX \<equiv> 3"
abbreviation (input) XDP_REDIRECT :: u32 where "XDP_REDIRECT \<equiv> 4"
abbreviation (input) XDP_ACTION_MAX :: u32 where "XDP_ACTION_MAX \<equiv> 5"

record datarec =
  rx_packets :: u64
  rx_bytes :: u64

type_synonym stats_map = "u32 \<rightharpoonup> datarec"

text \<open>The fields of \<^verbatim>\<open>struct xdp_md\<close> are 32 bits wide, and so is their difference.\<close>

definition xdp_stats_record_action :: "stats_map \<Rightarrow> xdp_md \<Rightarrow> u32 \<Rightarrow> u32 \<times> stats_map" where
  "xdp_stats_record_action m ctx action =
     (if action \<ge> XDP_ACTION_MAX then (XDP_ABORTED, m)
      else
        (case m action of
           None \<Rightarrow> (XDP_ABORTED, m)
         | Some rec \<Rightarrow>
             (action,
              m(action \<mapsto> rec\<lparr>rx_packets := rx_packets rec + 1,
                                 rx_bytes := rx_bytes rec + ucast (of_nat (length (pkt ctx)) :: u32)\<rparr>))))"

text \<open>The version of \<^verbatim>\<open>basic04\<close> subtracts pointers, at 64 bits.\<close>

definition record_action_basic04 :: "stats_map \<Rightarrow> xdp_md \<Rightarrow> u32 \<Rightarrow> u32 \<times> stats_map" where
  "record_action_basic04 m ctx action =
     (if action \<ge> XDP_ACTION_MAX then (XDP_ABORTED, m)
      else
        (case m action of
           None \<Rightarrow> (XDP_ABORTED, m)
         | Some rec \<Rightarrow>
             let bytes = of_nat (length (pkt ctx)) in
             (action,
              m(action \<mapsto> rec\<lparr>rx_packets := rx_packets rec + 1, rx_bytes := rx_bytes rec + bytes\<rparr>))))"

definition xdp_stats1_func :: "stats_map \<Rightarrow> xdp_md \<Rightarrow> u32 \<times> stats_map" where
  "xdp_stats1_func m ctx =
     (let key = XDP_PASS in
      case m key of
        None \<Rightarrow> (XDP_ABORTED, m)
      | Some rec \<Rightarrow>
          let rec = rec\<lparr>rx_packets := rx_packets rec + 1\<rparr>;
              bytes = of_nat (length (pkt ctx));
              rec = rec\<lparr>rx_bytes := rx_bytes rec + bytes\<rparr>
          in (XDP_PASS, m(key \<mapsto> rec)))"

definition xdp_pass_func :: "stats_map \<Rightarrow> xdp_md \<Rightarrow> u32 \<times> stats_map" where
  "xdp_pass_func m ctx = (let action = XDP_PASS in record_action_basic04 m ctx action)"

definition xdp_drop_func :: "stats_map \<Rightarrow> xdp_md \<Rightarrow> u32 \<times> stats_map" where
  "xdp_drop_func m ctx = (let action = XDP_DROP in record_action_basic04 m ctx action)"

definition xdp_abort_func :: "stats_map \<Rightarrow> xdp_md \<Rightarrow> u32 \<times> stats_map" where
  "xdp_abort_func m ctx = (let action = XDP_ABORTED in record_action_basic04 m ctx action)"

subsection \<open>Reading\<close>

record record_t =
  timestamp :: u64
  total :: datarec

text \<open>What the tool gets from its environment while it reads one key: the clock, the map (an array
  map has one value, a per-CPU map one per possible CPU) and the initial contents of the local variable
  \<^verbatim>\<open>value\<close> of \<^verbatim>\<open>map_collect\<close>.\<close>

record read_env =
  clock_gettime :: "u32 \<Rightarrow> (u64 \<times> u64) option"
  array_value :: "u32 \<Rightarrow> datarec option"
  percpu_values :: "u32 \<Rightarrow> (nat \<Rightarrow> datarec) option"
  nr_cpus :: nat
  uninit_value :: "u32 \<Rightarrow> datarec"

abbreviation (input) NANOSEC_PER_SEC :: u64 where "NANOSEC_PER_SEC \<equiv> 1000000000"
abbreviation (input) BPF_MAP_TYPE_ARRAY :: u32 where "BPF_MAP_TYPE_ARRAY \<equiv> 2"
abbreviation (input) BPF_MAP_TYPE_PERCPU_ARRAY :: u32 where "BPF_MAP_TYPE_PERCPU_ARRAY \<equiv> 6"

text \<open>\<^term>\<open>Inl c\<close> is termination of the process with exit status \<open>c\<close>.\<close>

definition gettime :: "(u64 \<times> u64) option \<Rightarrow> int + u64" where
  "gettime t =
     (case t of
        None \<Rightarrow> Inl EXIT_FAIL
      | Some (tv_sec, tv_nsec) \<Rightarrow> Inr (tv_sec * NANOSEC_PER_SEC + tv_nsec))"

definition map_get_value_array :: "read_env \<Rightarrow> u32 \<Rightarrow> datarec \<Rightarrow> datarec" where
  "map_get_value_array env key value =
     (case array_value env key of None \<Rightarrow> value | Some v \<Rightarrow> v)"

definition map_get_value_percpu_array :: "read_env \<Rightarrow> u32 \<Rightarrow> datarec \<Rightarrow> datarec" where
  "map_get_value_percpu_array env key value =
     (case percpu_values env key of
        None \<Rightarrow> value
      | Some vals \<Rightarrow>
          let (sum_pkts, sum_bytes) =
                fold (\<lambda>i (p, b). (p + rx_packets (vals i), b + rx_bytes (vals i))) [0..<nr_cpus env] (0, 0)
          in value\<lparr>rx_packets := sum_pkts, rx_bytes := sum_bytes\<rparr>)"

definition map_collect :: "read_env \<Rightarrow> u32 \<Rightarrow> u32 \<Rightarrow> record_t \<Rightarrow> int + bool \<times> record_t" where
  "map_collect env map_type key rec =
     (case gettime (clock_gettime env key) of
        Inl c \<Rightarrow> Inl c
      | Inr now \<Rightarrow>
          let rec = rec\<lparr>timestamp := now\<rparr>; value = uninit_value env key in
          if map_type = BPF_MAP_TYPE_ARRAY
          then let value = map_get_value_array env key value in Inr (True, rec\<lparr>total := value\<rparr>)
          else if map_type = BPF_MAP_TYPE_PERCPU_ARRAY
          then let value = map_get_value_percpu_array env key value in Inr (True, rec\<lparr>total := value\<rparr>)
          else Inr (False, rec))"

text \<open>\<^verbatim>\<open>struct stats_record\<close> is the array of its records. The loop over the keys;
  an index outside the array is \<^term>\<open>None\<close>.\<close>

fun collect_keys :: "read_env \<Rightarrow> u32 \<Rightarrow> u32 list \<Rightarrow> record_t list \<Rightarrow> (int + record_t list) option" where
  "collect_keys env map_type [] recs = Some (Inr recs)"
| "collect_keys env map_type (key # keys) recs =
     (if unat key < length recs
      then
        (case map_collect env map_type key (recs ! unat key) of
           Inl c \<Rightarrow> Some (Inl c)
         | Inr (_, r) \<Rightarrow> collect_keys env map_type keys (recs[unat key := r]))
      else None)"

definition stats_collect :: "read_env \<Rightarrow> u32 \<Rightarrow> record_t list \<Rightarrow> (int + record_t list) option" where
  "stats_collect env map_type stats_rec = collect_keys env map_type [0, 1, 2, 3, 4] stats_rec"

text \<open>The tool of \<^verbatim>\<open>basic03\<close> reads one key, into the first (and only) array element.\<close>

definition stats_collect_basic03 :: "read_env \<Rightarrow> u32 \<Rightarrow> record_t list \<Rightarrow> (int + record_t list) option" where
  "stats_collect_basic03 env map_type stats_rec =
     (let key = XDP_PASS in
      if 0 < length stats_rec
      then (case map_collect env map_type key (stats_rec ! 0) of
              Inl c \<Rightarrow> Some (Inl c)
            | Inr (_, r) \<Rightarrow> Some (Inr (stats_rec[0 := r])))
      else None)"

definition calc_period :: "record_t \<Rightarrow> record_t \<Rightarrow> rat" where
  "calc_period r p =
     (let period = timestamp r - timestamp p in
      if period > 0 then rat_of_nat (unat period) / rat_of_nat 1000000000 else 0)"

definition xdp_action_names :: "string list" where
  "xdp_action_names = [''XDP_ABORTED'', ''XDP_DROP'', ''XDP_PASS'', ''XDP_TX'', ''XDP_REDIRECT'', ''XDP_UNKNOWN'']"

definition action2str :: "u32 \<Rightarrow> string option" where
  "action2str action = (if action < 6 then Some (xdp_action_names ! unat action) else None)"

datatype out =
    Header
  | Line (line_action: "string option") (line_pkts: u64) (line_pps: rat) (line_kbytes: u64) (line_mbps: rat) (line_period: rat)
  | Newline

definition stats_line :: "u32 \<Rightarrow> record_t \<Rightarrow> record_t \<Rightarrow> rat \<Rightarrow> out" where
  "stats_line i rec prev period =
     (let packets = rx_packets (total rec) - rx_packets (total prev);
          pps = rat_of_nat (unat packets) / period;
          bytes = rx_bytes (total rec) - rx_bytes (total prev);
          bps = rat_of_nat (unat (bytes * 8)) / period / 1000000
      in Line (action2str i) (rx_packets (total rec)) pps (rx_bytes (total rec) div 1000) bps period)"

text \<open>The printing loop from index \<open>i\<close> on, with the early return on an empty period; \<open>n\<close> is the
  number of iterations left.\<close>

primrec print_actions :: "nat \<Rightarrow> u32 \<Rightarrow> record_t list \<Rightarrow> record_t list \<Rightarrow> out list option" where
  "print_actions 0 i rec prev = Some [Newline]"
| "print_actions (Suc n) i rec prev =
     (if unat i < length rec \<and> unat i < length prev
      then
        let period = calc_period (rec ! unat i) (prev ! unat i) in
        if period = 0 then Some []
        else map_option ((#) (stats_line i (rec ! unat i) (prev ! unat i) period)) (print_actions n (i + 1) rec prev)
      else None)"

definition stats_print :: "record_t list \<Rightarrow> record_t list \<Rightarrow> out list option" where
  "stats_print stats_rec stats_prev = map_option ((#) Header) (print_actions 5 0 stats_rec stats_prev)"

definition stats_print_basic03 :: "record_t list \<Rightarrow> record_t list \<Rightarrow> out list option" where
  "stats_print_basic03 stats_rec stats_prev = print_actions 5 0 stats_rec stats_prev"

subsection \<open>Every counter is exact\<close>

text \<open>The programs run on all CPUs; an event is one packet processed on a CPU with its verdict.\<close>

type_synonym event = "nat \<times> xdp_md \<times> u32"

definition cpu_step :: "event \<Rightarrow> (nat \<Rightarrow> stats_map) \<Rightarrow> nat \<Rightarrow> stats_map" where
  "cpu_step e m = (case e of (c, ctx, a) \<Rightarrow> m(c := snd (xdp_stats_record_action (m c) ctx a)))"

definition stats_map_ok :: "stats_map \<Rightarrow> bool" where
  "stats_map_ok m \<longleftrightarrow> dom m = {k. k < XDP_ACTION_MAX}"

definition zero_map :: stats_map where
  "zero_map k = (if k < XDP_ACTION_MAX then Some \<lparr>rx_packets = 0, rx_bytes = 0\<rparr> else None)"

definition verdicts :: "event list \<Rightarrow> u32 \<Rightarrow> nat" where
  "verdicts es a = length (filter (\<lambda>(c, ctx, a'). a' = a) es)"

definition verdict_bytes :: "event list \<Rightarrow> u32 \<Rightarrow> nat" where
  "verdict_bytes es a = sum_list (map (\<lambda>(c, ctx, a'). length (pkt ctx)) (filter (\<lambda>(c, ctx, a'). a' = a) es))"

lemma zero_map_ok: "stats_map_ok zero_map"
  by (auto simp: stats_map_ok_def zero_map_def dom_def)

lemma record_action_keeps_ok:
  "stats_map_ok m \<Longrightarrow> stats_map_ok (snd (xdp_stats_record_action m ctx a))"
  by (auto simp: xdp_stats_record_action_def stats_map_ok_def split: option.split)

lemma record_action_returns:
  "stats_map_ok m \<Longrightarrow> fst (xdp_stats_record_action m ctx a) = (if a < XDP_ACTION_MAX then a else XDP_ABORTED)"
  by (auto simp: xdp_stats_record_action_def stats_map_ok_def split: option.split)

text \<open>One event adds one packet and its bytes to the record of its CPU and verdict, and changes nothing
  else.\<close>

lemma cpu_step_record:
  assumes "\<forall>c. stats_map_ok (m c)" and "a < XDP_ACTION_MAX" and "length (pkt ctx) < 2 ^ 32"
  shows "the (cpu_step (c, ctx, a') m c' a) =
    (if c' = c \<and> a' = a
     then (the (m c a))\<lparr>rx_packets := rx_packets (the (m c a)) + 1,
                        rx_bytes := rx_bytes (the (m c a)) + of_nat (length (pkt ctx))\<rparr>
     else the (m c' a))"
proof -
  have l: "(ucast (of_nat (length (pkt ctx)) :: u32) :: u64) = of_nat (length (pkt ctx))"
    using assms(3) by (rule ucast_of_nat_u64)
  have "m c a \<noteq> None" using assms(1,2) by (auto simp: stats_map_ok_def)
  with assms(2) show ?thesis
    by (auto simp: cpu_step_def xdp_stats_record_action_def l split: option.split)
qed

lemma sum_cpus_update:
  fixes f :: "nat \<Rightarrow> 'a::comm_monoid_add"
  assumes "c < n"
  shows "(\<Sum>i\<leftarrow>[0..<n]. if i = c then f i + x else f i) = (\<Sum>i\<leftarrow>[0..<n]. f i) + x"
  using assms
proof (induction n)
  case (Suc n)
  show ?case
  proof (cases "c = n")
    case True
    have "map (\<lambda>i. if i = n then f i + x else f i) [0..<n] = map f [0..<n]" by simp
    with True show ?thesis by (simp add: add.assoc del: map_eq_conv)
  next
    case False
    with Suc show ?thesis by (simp add: ac_simps)
  qed
qed simp

lemma sum_cpus_eq:
  "fold (\<lambda>i (p, b). (p + f i, b + g i)) is (x, y)
    = (x + (\<Sum>i\<leftarrow>is. f i), y + (\<Sum>i\<leftarrow>is. g i) :: 'a::comm_monoid_add)"
  by (induction "is" arbitrary: x y) (simp_all add: add.assoc)

lemma cpu_totals:
  assumes "\<forall>(c, ctx, a) \<in> set es. c < n \<and> length (pkt ctx) < 2 ^ 32"
    and "\<forall>c. stats_map_ok (m c)" and "a < XDP_ACTION_MAX"
  shows "(\<Sum>c\<leftarrow>[0..<n]. rx_packets (the (fold cpu_step es m c a)))
        = (\<Sum>c\<leftarrow>[0..<n]. rx_packets (the (m c a))) + of_nat (verdicts es a)
    \<and> (\<Sum>c\<leftarrow>[0..<n]. rx_bytes (the (fold cpu_step es m c a)))
        = (\<Sum>c\<leftarrow>[0..<n]. rx_bytes (the (m c a))) + of_nat (verdict_bytes es a)"
  using assms(1,2)
proof (induction es arbitrary: m)
  case Nil
  show ?case by (simp add: verdicts_def verdict_bytes_def)
next
  case (Cons e es)
  obtain c ctx a' where e: "e = (c, ctx, a')" by (cases e)
  have c: "c < n" and l: "length (pkt ctx) < 2 ^ 32" and ok: "\<forall>c. stats_map_ok (m c)"
    and es: "\<forall>(c, ctx, a) \<in> set es. c < n \<and> length (pkt ctx) < 2 ^ 32"
    using Cons.prems by (auto simp: e)
  have ok': "\<forall>c. stats_map_ok (cpu_step e m c)"
    using ok record_action_keeps_ok by (simp add: e cpu_step_def)
  note step = cpu_step_record [OF ok assms(3) l, of c a', folded e]
  have p: "(\<Sum>i\<leftarrow>[0..<n]. rx_packets (the (cpu_step e m i a)))
      = (\<Sum>i\<leftarrow>[0..<n]. rx_packets (the (m i a))) + (if a' = a then 1 else 0)"
    and b: "(\<Sum>i\<leftarrow>[0..<n]. rx_bytes (the (cpu_step e m i a)))
      = (\<Sum>i\<leftarrow>[0..<n]. rx_bytes (the (m i a))) + (if a' = a then of_nat (length (pkt ctx)) else 0)"
    using sum_cpus_update [OF c, of "\<lambda>i. rx_packets (the (m i a))" 1]
      sum_cpus_update [OF c, of "\<lambda>i. rx_bytes (the (m i a))" "of_nat (length (pkt ctx))"]
    by (auto simp: step if_distrib cong: if_cong)
  show ?case using Cons.IH [OF es ok'] p b by (simp add: verdicts_def verdict_bytes_def e)
qed

text \<open>C35. End to end, from the kernel programs to the tool: after any sequence of packets processed on
  any CPUs, summing the per-CPU records of an action as the tool does gives the number of packets
  with that verdict and the number of their bytes (modulo \<open>2\<^sup>6\<^sup>4\<close>, the width of the counters).\<close>

theorem stats_tool_exact:
  assumes "\<forall>(c, ctx, a) \<in> set es. c < nr_cpus env \<and> length (pkt ctx) < 2 ^ 32" and "a < XDP_ACTION_MAX"
    and "percpu_values env a = Some (\<lambda>c. the (fold cpu_step es (\<lambda>_. zero_map) c a))"
  shows "map_get_value_percpu_array env a v
    = \<lparr>rx_packets = of_nat (verdicts es a), rx_bytes = of_nat (verdict_bytes es a)\<rparr>"
proof -
  have z: "(\<Sum>i\<leftarrow>xs. rx_packets (the (zero_map a))) = 0" "(\<Sum>i\<leftarrow>xs. rx_bytes (the (zero_map a))) = 0" for xs :: "nat list"
    using assms(2) by (induction xs) (simp_all add: zero_map_def)
  show ?thesis
    using cpu_totals [OF assms(1), of "\<lambda>_. zero_map" a] assms(2) zero_map_ok
    by (simp add: map_get_value_percpu_array_def assms(3) sum_cpus_eq z)
qed

theorem stats_tool_exact_witness:
  "map_get_value_percpu_array
     \<lparr>clock_gettime = \<lambda>_. None, array_value = \<lambda>_. None,
      percpu_values = \<lambda>a. Some (\<lambda>c. the (fold cpu_step
        [(0, \<lparr>pkt = [1, 2], ingress_ifindex = 0, rx_queue_index = 0\<rparr>, 2), (1, \<lparr>pkt = [1], ingress_ifindex = 0, rx_queue_index = 0\<rparr>, 2)]
        (\<lambda>_. zero_map) c a)),
      nr_cpus = 2, uninit_value = \<lambda>_. \<lparr>rx_packets = 0, rx_bytes = 0\<rparr>\<rparr> 2 \<lparr>rx_packets = 7, rx_bytes = 7\<rparr>
   = \<lparr>rx_packets = 2, rx_bytes = 3\<rparr>"
  by (subst stats_tool_exact [where es = "[(0, \<lparr>pkt = [1, 2], ingress_ifindex = 0, rx_queue_index = 0\<rparr>, 2),
      (1, \<lparr>pkt = [1], ingress_ifindex = 0, rx_queue_index = 0\<rparr>, 2)]"])
    (simp_all add: verdicts_def verdict_bytes_def)

subsection \<open>Printing\<close>

lemma calc_period_pos: "0 \<le> calc_period r p"
  and calc_period_0: "calc_period r p = 0 \<longleftrightarrow> timestamp r = timestamp p"
  by (auto simp: calc_period_def Let_def unat_eq_0 word_neq_0_conv [symmetric] simp del: of_nat_unat)

lemma upt_0_5: "[0..<5] = [0, 1, 2, 3, 4 :: nat]"
  by code_simp

lemma print_actions_eq:
  assumes "k + n \<le> length rec" and "k + n \<le> length prev" and "k + n < 2 ^ 32"
    and "\<forall>i < k + n. calc_period (rec ! i) (prev ! i) \<noteq> 0"
  shows "print_actions n (of_nat k) rec prev
    = Some (map (\<lambda>i. stats_line (of_nat i) (rec ! i) (prev ! i) (calc_period (rec ! i) (prev ! i))) [k..<k + n] @ [Newline])"
  using assms
proof (induction n arbitrary: k)
  case (Suc n)
  have k: "unat (of_nat k :: u32) = k" using Suc.prems by (intro unat_of_nat_eq) simp
  have "print_actions n (of_nat (Suc k)) rec prev
    = Some (map (\<lambda>i. stats_line (of_nat i) (rec ! i) (prev ! i) (calc_period (rec ! i) (prev ! i))) [Suc k..<Suc k + n] @ [Newline])"
    using Suc.prems by (intro Suc.IH) simp_all
  then show ?case
    using Suc.prems by (simp add: k upt_conv_Cons [of k] Let_def add.commute [of 1] del: upt_Suc)
qed simp

text \<open>The tool of \<^verbatim>\<open>basic04\<close> prints, for five records per reading taken at different
  times, the header, one line per action in order, and the final newline; no access leaves the arrays.
  A counter that has advanced by \<open>d < 2\<^sup>6\<^sup>4\<close> since the last reading is reported at rate \<open>d\<close> per period even if it wrapped.\<close>

theorem stats_print_lines:
  assumes "length rec = 5" and "length prev = 5" and "\<forall>i < 5. timestamp (rec ! i) \<noteq> timestamp (prev ! i)"
    and "\<forall>i < 5. rx_packets (total (rec ! i)) = rx_packets (total (prev ! i)) + of_nat (d i) \<and> d i < 2 ^ 64"
  shows "\<exists>lines. stats_print rec prev = Some (Header # lines @ [Newline])
    \<and> map line_action lines = map Some [''XDP_ABORTED'', ''XDP_DROP'', ''XDP_PASS'', ''XDP_TX'', ''XDP_REDIRECT'']
    \<and> (\<forall>i < 5. line_pps (lines ! i) * calc_period (rec ! i) (prev ! i) = rat_of_nat (d i))"
proof -
  let ?l = "\<lambda>i. stats_line (of_nat i) (rec ! i) (prev ! i) (calc_period (rec ! i) (prev ! i))"
  have nz: "calc_period (rec ! i) (prev ! i) \<noteq> 0" if "i < 5" for i
    using assms(3) that by (simp add: calc_period_0)
  have p: "stats_print rec prev = Some (Header # map ?l [0..<5] @ [Newline])"
    using print_actions_eq [of 0 5 rec prev] nz assms(1,2) by (simp add: stats_print_def)
  have "line_pps (?l i) * calc_period (rec ! i) (prev ! i) = rat_of_nat (d i)" if "i < 5" for i
  proof -
    have "rx_packets (total (rec ! i)) - rx_packets (total (prev ! i)) = of_nat (d i)" "d i < 2 ^ 64"
      using assms(4) that by (simp_all add: algebra_simps)
    then show ?thesis using nz [OF that] by (simp add: stats_line_def Let_def unat_of_nat_eq del: of_nat_unat)
  qed
  moreover have "map line_action (map ?l [0..<5]) = map Some [''XDP_ABORTED'', ''XDP_DROP'', ''XDP_PASS'', ''XDP_TX'', ''XDP_REDIRECT'']"
    unfolding upt_0_5 by (simp add: stats_line_def Let_def action2str_def xdp_action_names_def)
  ultimately show ?thesis
    by (intro exI [of _ "map ?l [0..<5]"]) (simp only: p nth_map length_upt nth_upt, simp)
qed

theorem stats_print_lines_witness:
  "\<exists>lines. stats_print (replicate 5 \<lparr>timestamp = 2000000000, total = \<lparr>rx_packets = 3, rx_bytes = 0\<rparr>\<rparr>)
      (replicate 5 \<lparr>timestamp = 0, total = \<lparr>rx_packets = - 1, rx_bytes = 0\<rparr>\<rparr>) = Some (Header # lines @ [Newline])
    \<and> line_pps (lines ! 2) * 2 = 4"
proof -
  let ?r = "replicate 5 \<lparr>timestamp = 2000000000, total = \<lparr>rx_packets = 3, rx_bytes = 0\<rparr>\<rparr>"
  let ?p = "replicate 5 \<lparr>timestamp = 0, total = \<lparr>rx_packets = - 1, rx_bytes = 0\<rparr>\<rparr>"
  have "calc_period (?r ! 2) (?p ! 2) = 2" by (simp add: calc_period_def)
  moreover obtain lines where "stats_print ?r ?p = Some (Header # lines @ [Newline])"
    and "\<forall>i < 5. line_pps (lines ! i) * calc_period (?r ! i) (?p ! i) = rat_of_nat 4"
    using stats_print_lines [of ?r ?p "\<lambda>_. 4"] by (auto simp: nth_replicate)
  moreover from this(2) have "line_pps (lines ! 2) * calc_period (?r ! 2) (?p ! 2) = rat_of_nat 4" by (elim allE [of _ 2] impE) simp
  ultimately show ?thesis by (intro exI [of _ lines]) simp
qed

text \<open>The tool of \<^verbatim>\<open>basic03\<close> collects one record but prints five: as soon as time has
  passed between two readings it reads past the end of its one-element arrays.\<close>

theorem stats_print_basic03_overruns:
  assumes "timestamp r \<noteq> timestamp p"
  shows "stats_print_basic03 [r] [p] = None"
  using assms by (simp add: stats_print_basic03_def eval_nat_numeral Let_def calc_period_0)

theorem stats_print_basic03_overruns_witness:
  "stats_print_basic03 [\<lparr>timestamp = 9, total = \<lparr>rx_packets = 3, rx_bytes = 0\<rparr>\<rparr>]
     [\<lparr>timestamp = 8, total = \<lparr>rx_packets = 1, rx_bytes = 0\<rparr>\<rparr>] = None"
  by (rule stats_print_basic03_overruns) simp

end
