(* ===== verification/CommonUser.thy ===== *)
theory CommonUser
  imports XdpStats
begin

text \<open>
  The user-space helpers of \<^verbatim>\<open>common/common_user_bpf_xdp.c\<close>: attaching and detaching XDP
  programs, loading object files, reusing pinned maps and opening pinned maps.

  The network device is an abstract state \<open>'d\<close> with the libbpf calls
  \<^verbatim>\<open>bpf_set_link_xdp_fd\<close> and \<^verbatim>\<open>bpf_get_link_xdp_id\<close> as parameters; the other libbpf
  calls are the fields of the record \<open>lib\<close>. An object file is its programs and maps, with the
  attributes the helpers set. \<^term>\<open>Inl c\<close> is termination of the process with status \<open>c\<close>.
\<close>

abbreviation (input) EEXIST :: int where "EEXIST \<equiv> 17"
abbreviation (input) ENOENT :: int where "ENOENT \<equiv> 2"
abbreviation (input) EINVAL :: int where "EINVAL \<equiv> 22"
abbreviation (input) ENAMETOOLONG :: int where "ENAMETOOLONG \<equiv> 36"
abbreviation (input) PATH_MAX :: nat where "PATH_MAX \<equiv> 4096"

subsection \<open>The link\<close>

type_synonym 'd set_link = "'d \<Rightarrow> int \<Rightarrow> u32 \<Rightarrow> int \<times> 'd"

definition opposite_mode :: "u32 \<Rightarrow> u32" where
  "opposite_mode xdp_flags =
     (xdp_flags AND NOT XDP_FLAGS_MODES)
       OR (if xdp_flags AND XDP_FLAGS_SKB_MODE \<noteq> 0 then XDP_FLAGS_DRV_MODE else XDP_FLAGS_SKB_MODE)"

definition xdp_link_attach :: "'d set_link \<Rightarrow> 'd \<Rightarrow> u32 \<Rightarrow> int \<Rightarrow> int \<times> 'd" where
  "xdp_link_attach set_link dev xdp_flags prog_fd =
     (let (err, dev) = set_link dev prog_fd xdp_flags;
          (err, dev) =
            (if err = - EEXIST \<and> xdp_flags AND XDP_FLAGS_UPDATE_IF_NOEXIST = 0
             then
               let old_flags = xdp_flags;
                   xdp_flags = opposite_mode xdp_flags;
                   (err, dev) = set_link dev (-1) xdp_flags
               in if err = 0 then set_link dev prog_fd old_flags else (err, dev)
             else (err, dev))
      in if err < 0 then (EXIT_FAIL_XDP, dev) else (EXIT_OK, dev))"

definition xdp_link_detach :: "'d set_link \<Rightarrow> ('d \<Rightarrow> u32 \<Rightarrow> int \<times> u32) \<Rightarrow> 'd \<Rightarrow> u32 \<Rightarrow> u32 \<Rightarrow> int \<times> 'd" where
  "xdp_link_detach set_link get_link_id dev xdp_flags expected_prog_id =
     (let (err, curr_prog_id) = get_link_id dev xdp_flags in
      if err \<noteq> 0 then (EXIT_FAIL_XDP, dev)
      else if curr_prog_id = 0 then (EXIT_OK, dev)
      else if expected_prog_id \<noteq> 0 \<and> curr_prog_id \<noteq> expected_prog_id then (EXIT_FAIL, dev)
      else
        let (err, dev) = set_link dev (-1) xdp_flags in
        if err < 0 then (EXIT_FAIL_XDP, dev) else (EXIT_OK, dev))"

subsection \<open>Object files\<close>

abbreviation (input) BPF_PROG_TYPE_XDP :: nat where "BPF_PROG_TYPE_XDP \<equiv> 6"

record bpf_program =
  title :: string
  prog_type :: nat
  prog_ifindex :: int
  fd_of :: int
  attach_type :: nat

record bpf_map =
  map_name :: string
  offload_neutral :: bool
  map_ifindex :: int
  m_fd :: int

record bpf_object =
  programs :: "bpf_program list"
  maps :: "bpf_map list"

text \<open>The libbpf calls that read files or enter the kernel. A call that fails returns an error number
  or a NULL or error pointer (\<^term>\<open>None\<close>).\<close>

record lib =
  prog_load_xattr :: "string \<Rightarrow> int \<Rightarrow> int \<times> bpf_object"
  object_open :: "string \<Rightarrow> bpf_object option"
  obj_get :: "string \<Rightarrow> int"
  reuse_fd :: "bpf_map \<Rightarrow> int \<Rightarrow> int \<times> bpf_map"
  object_load :: "bpf_object \<Rightarrow> int \<times> bpf_object"

definition load_bpf_object_file :: "lib \<Rightarrow> string \<Rightarrow> int \<Rightarrow> bpf_object option" where
  "load_bpf_object_file lib file ifidx =
     (let (err, obj) = prog_load_xattr lib file ifidx in if err \<noteq> 0 then None else Some obj)"

definition open_bpf_object :: "lib \<Rightarrow> string \<Rightarrow> int \<Rightarrow> bpf_object option" where
  "open_bpf_object lib file ifidx =
     (case object_open lib file of
        None \<Rightarrow> None
      | Some obj \<Rightarrow>
          let obj = obj\<lparr>programs := map (\<lambda>p. p\<lparr>prog_type := BPF_PROG_TYPE_XDP, prog_ifindex := ifidx\<rparr>) (programs obj)\<rparr>;
              first_prog = (case programs obj of [] \<Rightarrow> None | p # _ \<Rightarrow> Some p);
              obj = obj\<lparr>maps := map (\<lambda>m. if offload_neutral m then m else m\<lparr>map_ifindex := ifidx\<rparr>) (maps obj)\<rparr>
          in if first_prog = None then None else Some obj)"

text \<open>\<^verbatim>\<open>snprintf(buf, PATH_MAX, "%s/%s", a, b)\<close>: the untruncated length, and the string stored.\<close>

definition join_path :: "string \<Rightarrow> string \<Rightarrow> nat \<times> string" where
  "join_path a b = (let s = a @ ''/'' @ b in (length s, take (PATH_MAX - 1) s))"

text \<open>The loop of \<^verbatim>\<open>reuse_maps\<close>: the result and the maps, the ones before the failing one
  already replaced.\<close>

fun reuse_each :: "lib \<Rightarrow> string \<Rightarrow> bpf_map list \<Rightarrow> int \<times> bpf_map list" where
  "reuse_each lib path [] = (0, [])"
| "reuse_each lib path (m # ms) =
     (let (len, buf) = join_path path (map_name m) in
      if len \<ge> PATH_MAX then (- ENAMETOOLONG, m # ms)
      else
        let pinned_map_fd = obj_get lib buf in
        if pinned_map_fd < 0 then (pinned_map_fd, m # ms)
        else
          let (err, m) = reuse_fd lib m pinned_map_fd in
          if err \<noteq> 0 then (err, m # ms)
          else let (r, ms) = reuse_each lib path ms in (r, m # ms))"

definition reuse_pinned_maps :: "lib \<Rightarrow> bpf_object \<Rightarrow> string option \<Rightarrow> int \<times> bpf_object" where
  "reuse_pinned_maps lib obj path =
     (case path of
        None \<Rightarrow> (- EINVAL, obj)
      | Some path \<Rightarrow> let (r, ms) = reuse_each lib path (maps obj) in (r, obj\<lparr>maps := ms\<rparr>))"

definition load_bpf_object_file_reuse_maps :: "lib \<Rightarrow> string \<Rightarrow> int \<Rightarrow> string \<Rightarrow> bpf_object option" where
  "load_bpf_object_file_reuse_maps lib file ifidx dir =
     (case open_bpf_object lib file ifidx of
        None \<Rightarrow> None
      | Some obj \<Rightarrow>
          let (err, obj) = reuse_pinned_maps lib obj (Some dir) in
          if err \<noteq> 0 then None
          else let (err, obj) = object_load lib obj in if err \<noteq> 0 then None else Some obj)"

text \<open>\<^verbatim>\<open>bpf_object__find_program_by_title\<close>: the first program of that section.\<close>

definition find_program_by_title :: "bpf_object \<Rightarrow> string \<Rightarrow> bpf_program option" where
  "find_program_by_title obj t = find (\<lambda>p. title p = t) (programs obj)"

text \<open>The string in a buffer of the configuration: up to its first NUL, the whole buffer if it has
  none.\<close>

definition buf_string :: "char list \<Rightarrow> string" where
  "buf_string buf = takeWhile (\<lambda>c. c \<noteq> NUL) buf"

text \<open>The result is the object and the configuration, in which \<^verbatim>\<open>progsec\<close> names the program
  attached; \<open>next_prog\<close> is \<^verbatim>\<open>bpf_program__next(NULL, obj)\<close>.\<close>

definition load_bpf_and_xdp_attach ::
  "lib \<Rightarrow> (bpf_object \<Rightarrow> bpf_program option) \<Rightarrow> 'd set_link \<Rightarrow> 'd \<Rightarrow> config \<Rightarrow> (int + bpf_object \<times> config) \<times> 'd" where
  "load_bpf_and_xdp_attach lib next_prog set_link dev cfg =
     (let offload_ifindex = (if cfg_xdp_flags cfg AND XDP_FLAGS_HW_MODE \<noteq> 0 then ifindex cfg else 0);
          bpf_obj =
            (if reuse_maps cfg
             then load_bpf_object_file_reuse_maps lib (buf_string (filename cfg)) offload_ifindex (buf_string (pin_dir cfg))
             else load_bpf_object_file lib (buf_string (filename cfg)) offload_ifindex)
      in
      case bpf_obj of
        None \<Rightarrow> (Inl EXIT_FAIL_BPF, dev)
      | Some obj \<Rightarrow>
          let bpf_prog = (if buf_string (progsec cfg) \<noteq> [] then find_program_by_title obj (buf_string (progsec cfg))
                          else next_prog obj)
          in
          (case bpf_prog of
             None \<Rightarrow> (Inl EXIT_FAIL_BPF, dev)
           | Some prog \<Rightarrow>
               let cfg = cfg\<lparr>progsec := strncpy 32 (title prog)\<rparr>; prog_fd = fd_of prog in
               if prog_fd \<le> 0 then (Inl EXIT_FAIL_BPF, dev)
               else
                 let (err, dev) = xdp_link_attach set_link dev (cfg_xdp_flags cfg) prog_fd in
                 if err \<noteq> 0 then (Inl err, dev) else (Inr (obj, cfg), dev)))"

subsection \<open>Pinned maps\<close>

record bpf_map_info =
  info_type :: u32
  info_id :: u32
  info_key_size :: u32
  info_value_size :: u32
  info_max_entries :: u32

definition check_map_fd_info :: "bpf_map_info \<Rightarrow> bpf_map_info \<Rightarrow> int" where
  "check_map_fd_info info expected =
     (if info_key_size expected \<noteq> 0 \<and> info_key_size expected \<noteq> info_key_size info then EXIT_FAIL
      else if info_value_size expected \<noteq> 0 \<and> info_value_size expected \<noteq> info_value_size info then EXIT_FAIL
      else if info_max_entries expected \<noteq> 0 \<and> info_max_entries expected \<noteq> info_max_entries info then EXIT_FAIL
      else if info_type expected \<noteq> 0 \<and> info_type expected \<noteq> info_type info then EXIT_FAIL
      else 0)"

text \<open>\<open>bpf_obj_get\<close> opens a pinned object, \<open>get_info\<close> is \<^verbatim>\<open>bpf_obj_get_info_by_fd\<close>; \<open>want\<close> says whether
  the caller passed an \<^verbatim>\<open>info\<close> pointer. The result is the returned value and the information
  written, if any.\<close>

definition open_bpf_map_file ::
  "(string \<Rightarrow> int) \<Rightarrow> (int \<Rightarrow> int \<times> bpf_map_info) \<Rightarrow> string \<Rightarrow> string \<Rightarrow> bool \<Rightarrow> int \<times> bpf_map_info option" where
  "open_bpf_map_file bpf_obj_get get_info dir mapname want =
     (let (len, file) = join_path dir mapname; fd = bpf_obj_get file in
      if fd < 0 then (fd, None)
      else if want
      then let (err, info) = get_info fd in if err \<noteq> 0 then (EXIT_FAIL_BPF, None) else (fd, Some info)
      else (fd, None))"

subsection \<open>What the link promises\<close>

text \<open>A device holds at most one program, in one mode. Installing in the other mode is refused with
  \<^verbatim>\<open>EEXIST\<close>, installing over a program in the same mode only with
  \<^verbatim>\<open>XDP_FLAGS_UPDATE_IF_NOEXIST\<close> with \<^verbatim>\<open>EBUSY\<close>; descriptor -1 removes the program of that
  mode.\<close>

definition device_answers :: "'d set_link \<Rightarrow> ('d \<Rightarrow> (u32 \<times> int) option) \<Rightarrow> 'd \<Rightarrow> int \<Rightarrow> u32 \<Rightarrow> bool" where
  "device_answers set_link prog_of d fd flags \<longleftrightarrow>
     (let mode = flags AND XDP_FLAGS_MODES; (err, d') = set_link d fd flags in
      case prog_of d of
        None \<Rightarrow> 0 \<le> fd \<longrightarrow> err = 0 \<and> prog_of d' = Some (mode, fd)
      | Some (m, f) \<Rightarrow>
          if m \<noteq> mode then 0 \<le> fd \<longrightarrow> err = - EEXIST \<and> d' = d
          else if fd < 0 then err = 0 \<and> prog_of d' = None
          else if flags AND XDP_FLAGS_UPDATE_IF_NOEXIST \<noteq> 0 then err = - 16 \<and> d' = d
          else err = 0 \<and> prog_of d' = Some (mode, fd))"

definition device_ok :: "'d set_link \<Rightarrow> ('d \<Rightarrow> (u32 \<times> int) option) \<Rightarrow> bool" where
  "device_ok set_link prog_of \<longleftrightarrow>
     (\<forall>d fd flags. flags AND XDP_FLAGS_MODES \<in> {XDP_FLAGS_SKB_MODE, XDP_FLAGS_DRV_MODE} \<longrightarrow> device_answers set_link prog_of d fd flags)"

lemma opposite_mode_bits:
  "opposite_mode f AND XDP_FLAGS_MODES = (if f AND XDP_FLAGS_SKB_MODE \<noteq> 0 then XDP_FLAGS_DRV_MODE else XDP_FLAGS_SKB_MODE)"
  by (simp add: opposite_mode_def modes_bits)

lemma skb_bit: "f AND XDP_FLAGS_MODES = XDP_FLAGS_SKB_MODE \<Longrightarrow> f AND XDP_FLAGS_SKB_MODE \<noteq> 0"
  "f AND XDP_FLAGS_MODES = XDP_FLAGS_DRV_MODE \<Longrightarrow> f AND XDP_FLAGS_SKB_MODE = 0"
proof -
  have "f AND 2 = (f AND 14) AND 2" by (simp only: and.assoc) simp
  then show "f AND 14 = 2 \<Longrightarrow> f AND 2 \<noteq> 0" "f AND 14 = 4 \<Longrightarrow> f AND 2 = 0" by simp_all
qed

lemma device_spec:
  "device_ok set_link prog_of \<Longrightarrow> flags AND XDP_FLAGS_MODES \<in> {XDP_FLAGS_SKB_MODE, XDP_FLAGS_DRV_MODE} \<Longrightarrow>
   device_answers set_link prog_of d fd flags"
  by (simp only: device_ok_def)

lemma device_empty:
  assumes "device_ok set_link prog_of" and "flags AND XDP_FLAGS_MODES \<in> {XDP_FLAGS_SKB_MODE, XDP_FLAGS_DRV_MODE}"
    and "0 \<le> fd" and "prog_of d = None"
  obtains d' where "set_link d fd flags = (0, d')" and "prog_of d' = Some (flags AND XDP_FLAGS_MODES, fd)"
  using device_spec [OF assms(1,2), of d fd] assms(3,4) that
  by (cases "set_link d fd flags") (simp add: device_answers_def)

lemma device_occupied:
  assumes "device_ok set_link prog_of" and "flags AND XDP_FLAGS_MODES \<in> {XDP_FLAGS_SKB_MODE, XDP_FLAGS_DRV_MODE}" and "prog_of d = Some (m, f)"
  shows "m \<noteq> flags AND XDP_FLAGS_MODES \<Longrightarrow> 0 \<le> fd \<Longrightarrow> set_link d fd flags = (- EEXIST, d)"
    and "m = flags AND XDP_FLAGS_MODES \<Longrightarrow> fd < 0 \<Longrightarrow> \<exists>d'. set_link d fd flags = (0, d') \<and> prog_of d' = None"
    and "m = flags AND XDP_FLAGS_MODES \<Longrightarrow> 0 \<le> fd \<Longrightarrow> flags AND XDP_FLAGS_UPDATE_IF_NOEXIST \<noteq> 0 \<Longrightarrow> set_link d fd flags = (- 16, d)"
    and "m = flags AND XDP_FLAGS_MODES \<Longrightarrow> 0 \<le> fd \<Longrightarrow> flags AND XDP_FLAGS_UPDATE_IF_NOEXIST = 0 \<Longrightarrow>
      \<exists>d'. set_link d fd flags = (0, d') \<and> prog_of d' = Some (m, fd)"
  using device_spec [OF assms(1,2), of d fd] assms(3)
  by (cases "set_link d fd flags"; simp add: device_answers_def)+

subsection \<open>Properties\<close>

text \<open>Attaching with \<^verbatim>\<open>--force\<close> always ends with the new program installed in the requested
  mode, also when the device holds a program of the opposite mode, which is then unloaded first.
  Without it, an installed program is never replaced and the caller gets
  \<^verbatim>\<open>EXIT_FAIL_XDP\<close>.\<close>

theorem attach_force:
  assumes "device_ok set_link prog_of" and "flags AND XDP_FLAGS_MODES \<in> {XDP_FLAGS_SKB_MODE, XDP_FLAGS_DRV_MODE}" and "0 \<le> fd"
    and "\<forall>m f. prog_of d = Some (m, f) \<longrightarrow> m \<in> {XDP_FLAGS_SKB_MODE, XDP_FLAGS_DRV_MODE}"
  shows "if flags AND XDP_FLAGS_UPDATE_IF_NOEXIST \<noteq> 0 \<and> prog_of d \<noteq> None
    then xdp_link_attach set_link d flags fd = (EXIT_FAIL_XDP, d)
    else \<exists>d'. xdp_link_attach set_link d flags fd = (EXIT_OK, d') \<and> prog_of d' = Some (flags AND XDP_FLAGS_MODES, fd)"
proof (cases "prog_of d")
  case None
  obtain d' where "set_link d fd flags = (0, d')" "prog_of d' = Some (flags AND 14, fd)"
    using device_empty [OF assms(1-3) None] .
  with None show ?thesis by (simp add: xdp_link_attach_def)
next
  case (Some mf)
  then obtain m f where mf: "prog_of d = Some (m, f)" by (cases mf) auto
  note D = device_occupied [OF assms(1,2) mf]
  show ?thesis
  proof (cases "m = flags AND 14")
    case True
    show ?thesis
    proof (cases "flags AND 1 = 0")
      case True
      obtain d' where "set_link d fd flags = (0, d')" "prog_of d' = Some (m, fd)"
        using D(4) [OF \<open>m = flags AND 14\<close> assms(3) True] by blast
      with True \<open>m = flags AND 14\<close> show ?thesis by (simp add: xdp_link_attach_def)
    next
      case False
      with D(3) [OF True assms(3)] mf show ?thesis by (simp add: xdp_link_attach_def)
    qed
  next
    case False
    let ?o = "opposite_mode flags"
    have m: "m \<in> {2, 4}" using assms(4) mf by simp
    have o: "?o AND 14 = m"
    proof (cases "flags AND 14 = 2")
      case True
      then have "m = 4" using False m by simp
      then show ?thesis using skb_bit(1) [OF True] by (simp only: opposite_mode_bits simp_thms if_True)
    next
      case no_skb: False
      then have "flags AND 14 = 4" using assms(2) by simp
      moreover from this have "m = 2" using False m by simp
      ultimately show ?thesis using skb_bit(2) [of flags] by (simp only: opposite_mode_bits simp_thms if_False)
    qed
    obtain d1 where d1: "set_link d (-1) ?o = (0, d1)" "prog_of d1 = None"
      using device_occupied(2) [OF assms(1) _ mf, of ?o "-1"] m unfolding o by auto
    obtain d2 where d2: "set_link d1 fd flags = (0, d2)" "prog_of d2 = Some (flags AND 14, fd)"
      using device_empty [OF assms(1-3) d1(2)] .
    show ?thesis
    proof (cases "flags AND 1 = 0")
      case True
      with D(1) [OF False assms(3)] d1 d2 show ?thesis by (simp add: xdp_link_attach_def Let_def)
    next
      case noexist: False
      with D(1) [OF False assms(3)] mf show ?thesis by (simp add: xdp_link_attach_def)
    qed
  qed
qed

text \<open>A concrete device: its state is what it holds.\<close>

definition slot_link :: "(u32 \<times> int) option set_link" where
  "slot_link d fd flags =
     (let mode = flags AND XDP_FLAGS_MODES in
      case d of
        None \<Rightarrow> (0, if fd < 0 then None else Some (mode, fd))
      | Some (m, f) \<Rightarrow>
          if m \<noteq> mode then (- EEXIST, d)
          else if fd < 0 then (0, None)
          else if flags AND XDP_FLAGS_UPDATE_IF_NOEXIST \<noteq> 0 then (- 16, d)
          else (0, Some (mode, fd)))"

lemma slot_link_ok: "device_ok slot_link (\<lambda>d. d)"
  by (auto simp: device_ok_def device_answers_def slot_link_def Let_def split: option.split)

theorem attach_force_witness:
  "xdp_link_attach slot_link (Some (XDP_FLAGS_SKB_MODE, 3)) XDP_FLAGS_DRV_MODE 7 = (EXIT_OK, Some (XDP_FLAGS_DRV_MODE, 7))
   \<and> xdp_link_attach slot_link (Some (XDP_FLAGS_DRV_MODE, 3)) 5 7 = (EXIT_FAIL_XDP, Some (XDP_FLAGS_DRV_MODE, 3))"
  using attach_force [OF slot_link_ok, of XDP_FLAGS_DRV_MODE 7 "Some (XDP_FLAGS_SKB_MODE, 3)"]
    attach_force [OF slot_link_ok, of 5 7 "Some (XDP_FLAGS_DRV_MODE, 3)"] by simp

text \<open>When \<^verbatim>\<open>load_bpf_and_xdp_attach\<close> returns, the program it attached is one of the loaded
  object: the first with the requested section title, or the default one if no section was requested;
  \<^verbatim>\<open>progsec\<close> then holds its title (cut off at 32 characters).\<close>

theorem attach_selects_program:
  assumes "load_bpf_and_xdp_attach lib next_prog set_link dev cfg = (Inr (obj, cfg'), dev')"
  shows "\<exists>prog. (if buf_string (progsec cfg) \<noteq> [] then find_program_by_title obj (buf_string (progsec cfg)) else next_prog obj) = Some prog
    \<and> 0 < fd_of prog \<and> xdp_link_attach set_link dev (cfg_xdp_flags cfg) (fd_of prog) = (EXIT_OK, dev')
    \<and> cfg' = cfg\<lparr>progsec := strncpy 32 (title prog)\<rparr>"
  using assms
  by (auto simp: load_bpf_and_xdp_attach_def Let_def split: option.splits if_splits prod.splits)

definition one_prog_lib :: lib where
  "one_prog_lib = \<lparr>prog_load_xattr = \<lambda>_ _. (0, \<lparr>programs = [\<lparr>title = ''xdp_pass'', prog_type = 6, prog_ifindex = 0, fd_of = 5, attach_type = 0\<rparr>], maps = []\<rparr>),
     object_open = \<lambda>_. None, obj_get = \<lambda>_. -1, reuse_fd = \<lambda>m _. (0, m), object_load = \<lambda>obj. (0, obj)\<rparr>"

definition blank_config :: config where
  "blank_config = \<lparr>cfg_xdp_flags = 5, ifindex = 2, ifname = None, ifname_buf = replicate 16 NUL, redirect_ifindex = 0,
     redirect_ifname = None, redirect_ifname_buf = replicate 16 NUL, do_unload = False, reuse_maps = False,
     pin_dir = replicate 512 NUL, filename = strncpy 512 ''a.o'', progsec = replicate 32 NUL, src_mac = replicate 18 NUL,
     dest_mac = replicate 18 NUL, xsk_bind_flags = 0, xsk_if_queue = 0, xsk_poll_mode = False\<rparr>"

theorem attach_selects_program_witness:
  "\<exists>(prog :: bpf_program) obj cfg'. load_bpf_and_xdp_attach one_prog_lib (\<lambda>obj. find (\<lambda>_. True) (programs obj)) slot_link None blank_config
      = (Inr (obj, cfg'), Some (4, 5)) \<and> 0 < fd_of prog
    \<and> xdp_link_attach slot_link None (cfg_xdp_flags blank_config) (fd_of prog) = (EXIT_OK, Some (4, 5))
    \<and> cfg' = blank_config\<lparr>progsec := strncpy 32 (title prog)\<rparr>"
proof -
  have "buf_string (replicate n NUL) = []" for n by (cases n) (simp_all add: buf_string_def)
  then have e: "buf_string (progsec blank_config) = []" by (simp add: blank_config_def)
  have c: "\<not> reuse_maps blank_config" "cfg_xdp_flags blank_config = 5" by (simp_all add: blank_config_def)
  have l: "load_bpf_object_file one_prog_lib f i
      = Some \<lparr>programs = [\<lparr>title = ''xdp_pass'', prog_type = 6, prog_ifindex = 0, fd_of = 5, attach_type = 0\<rparr>], maps = []\<rparr>" for f i
    by (simp add: load_bpf_object_file_def one_prog_lib_def)
  obtain obj cfg' where r: "load_bpf_and_xdp_attach one_prog_lib (\<lambda>obj. find (\<lambda>_. True) (programs obj)) slot_link None blank_config
      = (Inr (obj, cfg'), Some (4, 5))"
    by (simp add: load_bpf_and_xdp_attach_def e c l xdp_link_attach_def slot_link_def)
  from attach_selects_program [OF r] show ?thesis
    using r by blast
qed

text \<open>Opening a pinned map hides a failure: if the information cannot be read,
  \<^verbatim>\<open>open_bpf_map_file\<close> returns the positive exit status 40, which every caller in the repository
  takes for a descriptor because it tests for a negative value; the open descriptor is lost.\<close>

theorem open_map_hides_failure:
  assumes "0 \<le> bpf_obj_get (snd (join_path dir name))"
    and "fst (get_info (bpf_obj_get (snd (join_path dir name)))) \<noteq> 0"
  shows "open_bpf_map_file bpf_obj_get get_info dir name True = (EXIT_FAIL_BPF, None) \<and> \<not> EXIT_FAIL_BPF < 0"
  using assms by (auto simp: open_bpf_map_file_def split_beta Let_def)

theorem open_map_hides_failure_witness:
  "open_bpf_map_file (\<lambda>_. 3) (\<lambda>_. (-1, undefined)) ''/sys/fs/bpf/eth0'' ''xdp_stats_map'' True = (EXIT_FAIL_BPF, None)"
  using open_map_hides_failure [of "\<lambda>_. 3" "''/sys/fs/bpf/eth0''" "''xdp_stats_map''" "\<lambda>_. (-1, undefined)"] by simp

text \<open>Reusing pinned maps is all or error: on success every map of the object, in order, has been
  replaced through the descriptor of the pin file of its own name; on failure an error is returned and
  the object is not loaded.\<close>

theorem reuse_maps_all:
  assumes "load_bpf_object_file_reuse_maps lib file ifidx dir = Some loaded"
  shows "\<exists>obj ms. open_bpf_object lib file ifidx = Some obj \<and> object_load lib (obj\<lparr>maps := ms\<rparr>) = (0, loaded)
    \<and> list_all2 (\<lambda>m m'. length (dir @ ''/'' @ map_name m) < PATH_MAX \<and> 0 \<le> obj_get lib (dir @ ''/'' @ map_name m)
         \<and> reuse_fd lib m (obj_get lib (dir @ ''/'' @ map_name m)) = (0, m')) (maps obj) ms"
proof -
  have step: "list_all2 (\<lambda>m m'. length (dir @ ''/'' @ map_name m) < PATH_MAX \<and> 0 \<le> obj_get lib (dir @ ''/'' @ map_name m)
         \<and> reuse_fd lib m (obj_get lib (dir @ ''/'' @ map_name m)) = (0, m')) ms ms'"
    if "reuse_each lib dir ms = (0, ms')" for ms ms'
    using that
  proof (induction ms arbitrary: ms')
    case (Cons m ms)
    then show ?case
      by (auto simp: join_path_def Let_def split: if_splits prod.splits)
  qed simp
  from assms obtain obj ms where o: "open_bpf_object lib file ifidx = Some obj"
    and r: "reuse_each lib dir (maps obj) = (0, ms)" and l: "object_load lib (obj\<lparr>maps := ms\<rparr>) = (0, loaded)"
    by (auto simp: load_bpf_object_file_reuse_maps_def reuse_pinned_maps_def Let_def split: option.splits if_splits prod.splits)
  with step [OF r] show ?thesis by blast
qed

definition pinned_lib :: lib where
  "pinned_lib = \<lparr>prog_load_xattr = \<lambda>_ _. (-1, undefined),
     object_open = \<lambda>_. Some \<lparr>programs = [\<lparr>title = ''xdp'', prog_type = 6, prog_ifindex = 0, fd_of = 5, attach_type = 0\<rparr>],
       maps = [\<lparr>map_name = ''m'', offload_neutral = True, map_ifindex = 0, m_fd = -1\<rparr>]\<rparr>,
     obj_get = \<lambda>_. 9, reuse_fd = \<lambda>m fd. (0, m\<lparr>m_fd := fd\<rparr>), object_load = \<lambda>obj. (0, obj)\<rparr>"

theorem reuse_maps_all_witness:
  "\<exists>loaded. load_bpf_object_file_reuse_maps pinned_lib ''a.o'' 0 ''/d'' = Some loaded
    \<and> (\<exists>obj ms. open_bpf_object pinned_lib ''a.o'' 0 = Some obj \<and> object_load pinned_lib (obj\<lparr>maps := ms\<rparr>) = (0, loaded))"
proof -
  obtain loaded where r: "load_bpf_object_file_reuse_maps pinned_lib ''a.o'' 0 ''/d'' = Some loaded"
    by (simp add: load_bpf_object_file_reuse_maps_def open_bpf_object_def reuse_pinned_maps_def pinned_lib_def join_path_def Let_def)
  from reuse_maps_all [OF r] r show ?thesis by blast
qed

end
