(* ===== verification/AfXdpMain.thy ===== *)
theory AfXdpMain
  imports AfXdpSystem CommonUser
begin

text \<open>
  The AF_XDP programs as processes (\<^verbatim>\<open>switchtsn/\<close>): the main function and the statistics thread
  of \<^verbatim>\<open>af_xdp_user.c\<close>; the switch of \<^verbatim>\<open>af_xdp_david_new.c\<close>, which runs the same data path
  in a thread; and the two variants \<^verbatim>\<open>af_xdp_user_david.c\<close> and \<^verbatim>\<open>af_xdp_david_shared.c\<close>,
  which put a second socket on the same UMEM and whose receive handler does not process packets.

  A process is a function of the parsed configuration and of its environment: the libbpf calls and the
  device of \<open>CommonUser\<close>, the operating system of \<open>XskLib\<close> and the rounds of the main loop, in which
  the kernel acts as in \<open>AfXdpSystem\<close>. It yields how it ended, the device, the resources it acquired and
  released, and the final state of its sockets if it reached its regular end; \<^term>\<open>None\<close> is a fault.
  Messages are not modelled.
\<close>

abbreviation (input) EXIT_FAILURE :: int where "EXIT_FAILURE \<equiv> 1"

subsection \<open>Statistics\<close>

text \<open>Counters that the statistics thread reads while the main thread runs. The clock is that of
  \<open>XdpStats\<close>; \<^verbatim>\<open>gettime\<close> has the same text in both programs.\<close>

definition calc_period_af :: "stats_record \<Rightarrow> stats_record \<Rightarrow> rat" where
  "calc_period_af r p =
     (let period = stats_record.timestamp r - stats_record.timestamp p in
      if period > 0 then rat_of_nat (unat period) / rat_of_nat 1000000000 else 0)"

definition rate_line :: "string \<Rightarrow> u64 \<Rightarrow> u64 \<Rightarrow> u64 \<Rightarrow> u64 \<Rightarrow> rat \<Rightarrow> out" where
  "rate_line name pkts prev_pkts byts prev_byts period =
     (let packets = pkts - prev_pkts;
          pps = rat_of_nat (unat packets) / period;
          bytes = byts - prev_byts;
          bps = rat_of_nat (unat (bytes * 8)) / period / 1000000
      in Line (Some name) pkts pps (byts div 1000) bps period)"

definition stats_print_af :: "stats_record \<Rightarrow> stats_record \<Rightarrow> out list" where
  "stats_print_af rec prev =
     (let period = calc_period_af rec prev;
          period = (if period = 0 then 1 else period)
      in [rate_line ''AF_XDP RX:'' (stats_record.rx_packets rec) (stats_record.rx_packets prev)
            (stats_record.rx_bytes rec) (stats_record.rx_bytes prev) period,
          rate_line ''       TX:'' (stats_record.tx_packets rec) (stats_record.tx_packets prev)
            (stats_record.tx_bytes rec) (stats_record.tx_bytes prev) period,
          Newline])"

text \<open>A round of the thread: the counters as the main thread has left them when the sleep is over, and
  the clock. The list ends where \<^verbatim>\<open>global_exit\<close> is seen. The result is the text printed, the
  counters last shown, and \<^term>\<open>Some c\<close> if the process ended with status \<open>c\<close> on a clock error.\<close>

fun poll_stats ::
  "(stats_record \<times> (u64 \<times> u64) option) list \<Rightarrow> stats_record \<Rightarrow> out list list \<times> stats_record \<times> int option" where
  "poll_stats [] previous_stats = ([], previous_stats, None)"
| "poll_stats ((now, clock) # rounds) previous_stats =
     (case gettime clock of
        Inl c \<Rightarrow> ([], previous_stats, Some c)
      | Inr t \<Rightarrow>
          let stats = now\<lparr>stats_record.timestamp := t\<rparr>;
              out = stats_print_af stats previous_stats;
              (rest, last, res) = poll_stats rounds stats
          in (out # rest, last, res))"

definition stats_poll_af ::
  "(u64 \<times> u64) option \<Rightarrow> (stats_record \<times> (u64 \<times> u64) option) list \<Rightarrow>
   out list list \<times> stats_record \<times> int option" where
  "stats_poll_af clock rounds =
     (case gettime clock of
        Inl c \<Rightarrow> ([], zero_stats, Some c)
      | Inr t \<Rightarrow> poll_stats rounds (zero_stats\<lparr>stats_record.timestamp := t\<rparr>))"

subsection \<open>Starting up\<close>

datatype ending = Return int | Exit int

text \<open>\<open>dev_later\<close> is what the socket library and others have done to the device when the program
  detaches from it; \<open>link_ret\<close> and \<open>info_ok\<close> are those of \<open>xsk_configure_socket\<close>.\<close>

record 'd main_env =
  libbpf :: lib
  next_prog :: "bpf_object \<Rightarrow> bpf_program option"
  set_link :: "'d set_link"
  get_link_id :: "'d \<Rightarrow> u32 \<Rightarrow> int \<times> u32"
  dev_later :: "'d \<Rightarrow> 'd"
  setrlimit :: int
  posix_memalign :: "int \<times> u64"
  memory :: bytes
  sys :: os
  info_ok :: bool
  link_ret :: int
  verbose :: bool
  pthread_ret :: int

type_synonym kern_rounds = "(int \<times> (nat \<Rightarrow> system \<Rightarrow> system)) list"

type_synonym 'd process = "(ending \<times> 'd \<times> effect list \<times> system list) option"

text \<open>\<^verbatim>\<open>bpf_map__fd\<close> of a missing map is \<^verbatim>\<open>-EINVAL\<close>.\<close>

definition xsks_map_fd :: "bpf_object \<Rightarrow> int" where
  "xsks_map_fd obj = (case find (\<lambda>m. map_name m = ''xsks_map'') (maps obj) of None \<Rightarrow> - EINVAL | Some m \<Rightarrow> m_fd m)"

text \<open>The descriptors that belong to a loaded object. They are opened by the library, and no function of
  the programs closes the object.\<close>

definition object_fds :: "bpf_object \<Rightarrow> int list" where
  "object_fds bpf_obj = map fd_of (programs bpf_obj) @ map m_fd (maps bpf_obj)"

text \<open>Loading the program named on the command line: the exit status, or the configuration with the
  section of the program attached, and what was opened.\<close>

definition load_custom :: "'d main_env \<Rightarrow> 'd \<Rightarrow> config \<Rightarrow> (int + config) \<times> 'd \<times> effect list" where
  "load_custom env dev cfg =
     (if hd (filename cfg) \<noteq> NUL
      then
        (case load_bpf_and_xdp_attach (libbpf env) (next_prog env) (set_link env) dev cfg of
           (Inl c, dev) \<Rightarrow> (Inl c, dev, [])
         | (Inr (bpf_obj, cfg), dev) \<Rightarrow>
             let fx = map Open (object_fds bpf_obj) in
             if xsks_map_fd bpf_obj < 0 then (Inl EXIT_FAILURE, dev, fx) else (Inr cfg, dev, fx))
      else (Inr cfg, dev, []))"

text \<open>Locked memory, the packet buffer and its UMEM.\<close>

definition create_umem ::
  "'d main_env \<Rightarrow> (int + xsk_umem option \<times> xsk_umem_info) \<times> effect list" where
  "create_umem env =
     (if setrlimit env \<noteq> 0 then (Inl EXIT_FAILURE, [])
      else if fst (posix_memalign env) \<noteq> 0 then (Inl EXIT_FAILURE, [])
      else
        (case configure_xsk_umem (sys env) (memory env) (snd (posix_memalign env))
                (of_nat (NUM_FRAMES * FRAME_SIZE)) of
           (Inl e, fx) \<Rightarrow> (Inl EXIT_FAILURE, Alloc # fx)
         | (Inr r, fx) \<Rightarrow> (Inr r, Alloc # fx)))"

text \<open>The main loop on a socket that the library did not create would read the rings through NULL
  pointers, in the first round that handles packets.\<close>

definition handles_packets :: "bool \<Rightarrow> kern_rounds \<Rightarrow> bool" where
  "handles_packets poll_mode rounds \<longleftrightarrow> list_ex (\<lambda>(ret, k). \<not> (poll_mode \<and> (ret \<le> 0 \<or> ret > 1))) rounds"

definition run_socket :: "bool \<Rightarrow> kern_rounds \<Rightarrow> xsk_socket option \<Rightarrow> system \<Rightarrow> system option" where
  "run_socket poll_mode rounds sk xsk =
     (if sk = None \<and> handles_packets poll_mode rounds then None
      else rx_and_process poll_mode rounds xsk)"

definition delete_socket :: "os \<Rightarrow> xsk_umem option \<Rightarrow> xsk_socket option \<Rightarrow> xsk_umem option \<times> effect list" where
  "delete_socket os handle sk =
     (case handle of
        None \<Rightarrow> (None, [])
      | Some u \<Rightarrow> let (u', fx) = xsk_socket__delete os u sk in (Some u', fx))"

subsection \<open>The programs\<close>

text \<open>From the unload option to the clean-up: the part that \<^verbatim>\<open>main\<close> of \<^verbatim>\<open>af_xdp_user.c\<close> and
  \<^verbatim>\<open>thread_func\<close> of \<^verbatim>\<open>af_xdp_david_new.c\<close> share. \<open>final\<close> is the value returned at the end.\<close>

definition socket_process :: "int \<Rightarrow> 'd main_env \<Rightarrow> kern_rounds \<Rightarrow> 'd \<Rightarrow> config \<Rightarrow> 'd process" where
  "socket_process final env rounds dev cfg =
     (if do_unload cfg
      then
        let (r, dev) = xdp_link_detach (set_link env) (get_link_id env) dev (cfg_xdp_flags cfg) 0
        in Some (Return r, dev, [], [])
      else
        (case load_custom env dev cfg of
           (Inl c, dev, fx0) \<Rightarrow> Some (Exit c, dev, fx0, [])
         | (Inr cfg, dev, fx0) \<Rightarrow>
             (case create_umem env of
                (Inl c, fx1) \<Rightarrow> Some (Exit c, dev, fx0 @ fx1, [])
              | (Inr (handle, uinfo), fx1) \<Rightarrow>
                  do {
                    (r, handle, fx2) \<leftarrow>
                      xsk_configure_socket (sys env) (info_ok env) (link_ret env) cfg handle uinfo no_frames;
                    (case r of
                       Inl e \<Rightarrow> Some (Exit EXIT_FAILURE, dev, fx0 @ fx1 @ fx2, [])
                     | Inr (sk, xsk) \<Rightarrow>
                         if verbose env \<and> pthread_ret env \<noteq> 0
                         then Some (Exit EXIT_FAILURE, dev, fx0 @ fx1 @ fx2, [])
                         else do {
                           xsk \<leftarrow> run_socket (xsk_poll_mode cfg) rounds sk xsk;
                           let (handle, fx3) = delete_socket (sys env) handle sk;
                           let (_, fx4) = xsk_umem__delete (sys env) handle;
                           let (_, dev) = xdp_link_detach (set_link env) (get_link_id env) (dev_later env dev)
                                            (cfg_xdp_flags cfg) 0;
                           Some (Return final, dev, fx0 @ fx1 @ fx2 @ fx3 @ fx4, [xsk])
                         })
                  })))"


text \<open>The thread returns NULL, here 0, at its regular end.\<close>

definition thread_func :: "'d main_env \<Rightarrow> kern_rounds \<Rightarrow> 'd \<Rightarrow> config \<Rightarrow> 'd process" where
  "thread_func env rounds dev cfg =
     (if ifindex cfg = -1 then Some (Return EXIT_FAIL_OPTION, dev, [], [])
      else socket_process 0 env rounds dev cfg)"

text \<open>\<open>create_ret\<close> is the result of \<^verbatim>\<open>pthread_create\<close>. The value the thread returns is not used; an
  \<^verbatim>\<open>exit\<close> in the thread ends the process.\<close>

definition af_xdp_david_new_main :: "int \<Rightarrow> 'd main_env \<Rightarrow> kern_rounds \<Rightarrow> 'd \<Rightarrow> config \<Rightarrow> 'd process" where
  "af_xdp_david_new_main create_ret env rounds dev cfg =
     (let right = cfg\<lparr>ifindex := 4\<rparr> in
      if create_ret \<noteq> 0 then Some (Exit EXIT_FAILURE, dev, [], [])
      else do {
        (e, dev, fx, fin) \<leftarrow> thread_func env rounds dev right;
        (case e of
           Exit c \<Rightarrow> Some (Exit c, dev, fx, fin)
         | Return _ \<Rightarrow> Some (Return EXIT_OK, dev, fx, fin))
      })"

subsection \<open>The variants with two sockets\<close>

text \<open>In \<^verbatim>\<open>af_xdp_user_david.c\<close> and \<^verbatim>\<open>af_xdp_david_shared.c\<close> the body of
  \<^verbatim>\<open>process_packet\<close> and the loop that calls it are commented out.\<close>

definition process_packet_david ::
  "'a xsk_socket_info_scheme \<Rightarrow> u64 \<Rightarrow> u32 \<Rightarrow> (bool \<times> 'a xsk_socket_info_scheme) option" where
  "process_packet_david xsk a l = Some (False, xsk)"

definition handle_receive_packets_david ::
  "(nat \<Rightarrow> 'a xsk_socket_info_scheme \<Rightarrow> 'a xsk_socket_info_scheme) \<Rightarrow>
   'a xsk_socket_info_scheme \<Rightarrow> 'a xsk_socket_info_scheme option" where
  "handle_receive_packets_david k xsk =
     (let xsk = k 0 xsk;
          (n, idx_rx, r) = xsk_ring_cons__peek (rx xsk) RX_BATCH_SIZE 0;
          xsk = xsk\<lparr>rx := r\<rparr>;
          rcvd = (ucast n :: u32)
      in if rcvd = 0 then Some xsk
         else do {
           xsk \<leftarrow> restock k rcvd xsk;
           let xsk = xsk\<lparr>rx := xsk_ring_cons__release (rx xsk) (ucast rcvd)\<rparr>;
           let xsk = xsk\<lparr>stats := (stats xsk)\<lparr>stats_record.rx_packets := stats_record.rx_packets (stats xsk) + ucast rcvd\<rparr>\<rparr>;
           complete_tx (k 3) xsk
         })"

fun rx_and_process_david ::
  "bool \<Rightarrow> (int \<times> (nat \<Rightarrow> 'a xsk_socket_info_scheme \<Rightarrow> 'a xsk_socket_info_scheme)) list \<Rightarrow>
   'a xsk_socket_info_scheme \<Rightarrow> 'a xsk_socket_info_scheme option" where
  "rx_and_process_david poll_mode [] xsk = Some xsk"
| "rx_and_process_david poll_mode ((ret, k) # rounds) xsk =
     (if poll_mode \<and> (ret \<le> 0 \<or> ret > 1) then rx_and_process_david poll_mode rounds xsk
      else do {
        xsk \<leftarrow> handle_receive_packets_david k xsk;
        rx_and_process_david poll_mode rounds xsk
      })"

definition run_socket_david :: "bool \<Rightarrow> kern_rounds \<Rightarrow> xsk_socket option \<Rightarrow> system \<Rightarrow> system option" where
  "run_socket_david poll_mode rounds sk xsk =
     (if sk = None \<and> handles_packets poll_mode rounds then None
      else rx_and_process_david poll_mode rounds xsk)"

text \<open>The configuration literal of the second interface.\<close>

definition right_config :: "int \<Rightarrow> config" where
  "right_config i =
     \<lparr>cfg_xdp_flags = 0, ifindex = i, ifname = None, ifname_buf = replicate 16 NUL, redirect_ifindex = 0,
      redirect_ifname = None, redirect_ifname_buf = replicate 16 NUL, do_unload = False, reuse_maps = False,
      pin_dir = replicate 512 NUL, filename = replicate 512 NUL, progsec = strncpy 32 ''xdp_sock'',
      src_mac = replicate 18 NUL, dest_mac = replicate 18 NUL, xsk_bind_flags = 0, xsk_if_queue = 0,
      xsk_poll_mode = False\<rparr>"

text \<open>Up to the creation of the second socket the two main functions are the same; \<open>rest\<close> is what
  follows: it gets the UMEM handle, the two sockets, the configuration and the effects so far.
  The sockets share the UMEM, so the first one sees its rings as the second has left them.\<close>

definition two_socket_process ::
  "int \<Rightarrow> 'd main_env \<Rightarrow> 'd \<Rightarrow> config \<Rightarrow>
   (xsk_umem option \<Rightarrow> xsk_socket option \<times> system \<Rightarrow> xsk_socket option \<times> system \<Rightarrow> config \<Rightarrow> 'd \<Rightarrow> effect list \<Rightarrow>
    'd process) \<Rightarrow> 'd process" where
  "two_socket_process right_ifindex env dev cfg rest =
     (if ifindex cfg = -1 then Some (Return EXIT_FAIL_OPTION, dev, [], [])
      else if do_unload cfg
      then
        let (r, dev) = xdp_link_detach (set_link env) (get_link_id env) dev (cfg_xdp_flags cfg) 0
        in Some (Return r, dev, [], [])
      else
        (case load_custom env dev cfg of
           (Inl c, dev, fx0) \<Rightarrow> Some (Exit c, dev, fx0, [])
         | (Inr cfg, dev, fx0) \<Rightarrow>
             (case create_umem env of
                (Inl c, fx1) \<Rightarrow> Some (Exit c, dev, fx0 @ fx1, [])
              | (Inr (handle, uinfo), fx1) \<Rightarrow>
                  do {
                    (r, handle, fx2) \<leftarrow>
                      xsk_configure_socket (sys env) (info_ok env) (link_ret env) cfg handle uinfo no_frames;
                    (case r of
                       Inl e \<Rightarrow> Some (Exit EXIT_FAILURE, dev, fx0 @ fx1 @ fx2, [])
                     | Inr (sk, xsk) \<Rightarrow>
                         do {
                           (r, handle, fx3) \<leftarrow>
                             xsk_configure_socket (sys env) (info_ok env) (link_ret env) (right_config right_ifindex)
                               handle (umem xsk) no_frames;
                           (case r of
                              Inl e \<Rightarrow> Some (Exit EXIT_FAILURE, dev, fx0 @ fx1 @ fx2 @ fx3, [])
                            | Inr (rsk, right) \<Rightarrow>
                                if verbose env \<and> pthread_ret env \<noteq> 0
                                then Some (Exit EXIT_FAILURE, dev, fx0 @ fx1 @ fx2 @ fx3, [])
                                else rest handle (sk, xsk\<lparr>umem := umem right\<rparr>) (rsk, right) cfg dev
                                       (fx0 @ fx1 @ fx2 @ fx3))
                         })
                  })))"

text \<open>\<^verbatim>\<open>af_xdp_user_david.c\<close> runs the first socket only.\<close>

definition af_xdp_user_david_main :: "'d main_env \<Rightarrow> kern_rounds \<Rightarrow> 'd \<Rightarrow> config \<Rightarrow> 'd process" where
  "af_xdp_user_david_main env rounds dev cfg =
     two_socket_process 4 env dev cfg (\<lambda>handle (sk, xsk) (rsk, right) cfg dev fx.
       do {
         xsk \<leftarrow> run_socket_david (xsk_poll_mode cfg) rounds sk xsk;
         let (handle, fx1) = delete_socket (sys env) handle sk;
         let (_, fx2) = xsk_umem__delete (sys env) handle;
         let (_, dev) = xdp_link_detach (set_link env) (get_link_id env) (dev_later env dev) (cfg_xdp_flags cfg) 0;
         Some (Return EXIT_OK, dev, fx @ fx1 @ fx2, [xsk])
       })"

text \<open>\<^verbatim>\<open>af_xdp_david_shared.c\<close> runs the first socket until it is told to stop, then the
  second. At the end it also detaches from the second device, whose state is not part of the model.\<close>

definition af_xdp_david_shared_main :: "'d main_env \<Rightarrow> kern_rounds \<Rightarrow> kern_rounds \<Rightarrow> 'd \<Rightarrow> config \<Rightarrow> 'd process" where
  "af_xdp_david_shared_main env rounds rounds2 dev cfg =
     two_socket_process 11 env dev cfg (\<lambda>handle (sk, xsk) (rsk, right) cfg dev fx.
       do {
         xsk \<leftarrow> run_socket_david (xsk_poll_mode cfg) rounds sk xsk;
         right \<leftarrow> run_socket_david (xsk_poll_mode cfg) rounds2 rsk (right\<lparr>umem := umem xsk\<rparr>);
         let (handle, fx1) = delete_socket (sys env) handle sk;
         let (handle, fx2) = delete_socket (sys env) handle rsk;
         let (_, fx3) = xsk_umem__delete (sys env) handle;
         let (_, dev) = xdp_link_detach (set_link env) (get_link_id env) (dev_later env dev) (cfg_xdp_flags cfg) 0;
         Some (Return EXIT_OK, dev, fx @ fx1 @ fx2 @ fx3, [xsk, right])
       })"

subsection \<open>Statistics are complete\<close>

text \<open>Packets and bytes shown in a line, recovered from its rates.\<close>

definition line_packets :: "out \<Rightarrow> rat" where
  "line_packets l = line_pps l * line_period l"

lemma rate_line_packets:
  "period \<noteq> 0 \<Longrightarrow> line_packets (rate_line name p p0 b b0 period) = rat_of_nat (unat (p - p0))"
  by (simp add: line_packets_def rate_line_def)

lemma stats_print_af_rx:
  "line_packets (stats_print_af r p ! 0) = rat_of_nat (unat (stats_record.rx_packets r - stats_record.rx_packets p))"
  "line_packets (stats_print_af r p ! 1) = rat_of_nat (unat (stats_record.tx_packets r - stats_record.tx_packets p))"
  by (simp_all add: stats_print_af_def rate_line_packets Let_def)

text \<open>Counters that only grow.\<close>

fun grows :: "('a \<Rightarrow> u64) \<Rightarrow> 'a \<Rightarrow> 'a list \<Rightarrow> bool" where
  "grows f x [] \<longleftrightarrow> True"
| "grows f x (y # ys) \<longleftrightarrow> f x \<le> f y \<and> grows f y ys"

lemma poll_stats_sum:
  assumes "\<And>r p. line_packets (stats_print_af r p ! i) = rat_of_nat (unat (f r - f p))"
    and f: "\<And>r t. f (r\<lparr>stats_record.timestamp := t\<rparr>) = f r"
    and "poll_stats rounds p = (shown, l, None)" and "grows f p (map fst rounds)"
  shows "(\<Sum>t\<leftarrow>shown. line_packets (t ! i)) + rat_of_nat (unat (f p)) = rat_of_nat (unat (f l))"
  using assms(3,4)
proof (induction rounds p arbitrary: shown rule: poll_stats.induct)
  case (2 now clock rounds p)
  obtain t where t: "gettime clock = Inr t"
    using 2(2) by (cases "gettime clock") auto
  define st where "st = now\<lparr>stats_record.timestamp := t\<rparr>"
  have st: "f st = f now" by (simp add: st_def f)
  obtain rest where r: "poll_stats rounds st = (rest, l, None)" and o: "shown = stats_print_af st p # rest"
    using 2(2) t by (auto simp: st_def Let_def split: prod.splits)
  have "grows f st (map fst rounds)" using 2(3) st by (cases rounds) auto
  then have IH: "(\<Sum>t\<leftarrow>rest. line_packets (t ! i)) + rat_of_nat (unat (f st)) = rat_of_nat (unat (f l))"
    by (rule 2(1) [OF t st_def refl r])
  have "f p \<le> f st" using 2(3) st by simp
  then have "rat_of_nat (unat (f st - f p)) + rat_of_nat (unat (f p)) = rat_of_nat (unat (f st))"
    by (simp add: unat_sub word_le_nat_alt flip: of_nat_add)
  with IH show ?case by (simp add: o assms(1))
qed simp

subsection \<open>Set-up\<close>









subsection \<open>The receive handler of the variants\<close>

lemma kern_outstanding: "kern_ok k \<Longrightarrow> outstanding_tx (k s) = outstanding_tx s"
proof -
  assume "kern_ok k"
  then have "kern_step\<^sup>*\<^sup>* s (k s)" by (simp add: kern_ok_def)
  then show ?thesis by induction (auto elim: kern_step.cases)
qed

lemma fill_slot_outstanding: "fill_slot (i, s) = Some (j, t) \<Longrightarrow> outstanding_tx t = outstanding_tx s"
  by (auto simp: fill_slot_def xsk_alloc_umem_frame_def Let_def bind_eq_Some_conv split: if_splits)

lemma fill_loop_outstanding:
  "for_upto n (\<lambda>i. fill_slot) (idx, u) = Some (idx', t) \<Longrightarrow> outstanding_tx t = outstanding_tx u"
  by (drule for_upto_invariant [where P = "\<lambda>_ st. outstanding_tx (snd st) = outstanding_tx u"])
    (force dest: fill_slot_outstanding)+

lemma stock_fill_ring_outstanding: "stock_fill_ring xsk = Some (Some s) \<Longrightarrow> outstanding_tx s = outstanding_tx xsk"
  by (auto simp: stock_fill_ring_def Let_def bind_eq_Some_conv split: prod.splits if_splits dest!: fill_loop_outstanding)

lemma restock_outstanding:
  fixes s :: system
  assumes k: "\<And>i. kern_ok (k i)" and r: "restock k rcvd s = Some s'"
  shows "outstanding_tx s' = outstanding_tx s"
proof -
  let ?P = "\<lambda>st. outstanding_tx (snd (snd (snd st))) = outstanding_tx s"
  have retry: "?P st'" if "reserve_retry k n c st = Some st'" "?P st" for n c st st'
    using while_option_rule [of ?P, OF _ that(1) [unfolded reserve_retry_def] that(2)]
    by (auto simp: kern_outstanding [OF k] Let_def split: prod.splits)
  show ?thesis
    using r by (auto simp: restock_def Let_def kern_outstanding [OF k] bind_eq_Some_conv split: prod.splits if_splits
        dest!: fill_loop_outstanding retry simp del: One_nat_def)
qed

text \<open>Releasing a batch without having passed its frames on.\<close>

lemma release_unprocessed:
  assumes "busy_inv 0 0 s" and "length (peeked (rx s)) = unat c" and "t = s\<lparr>rx := xsk_ring_cons__release (rx s) (ucast (c :: u32)), stats := st\<rparr>"
  shows "length (holdings 0 0 t) + unat c = NUM_FRAMES" and "frame_stack t = frame_stack s" and "outstanding_tx t = outstanding_tx s"
proof -
  have ci: "cons_inv (rx s)" using assms(1) by (simp add: busy_inv_def rings_ok_def)
  have q: "queue (rx t) = drop (unat c) (queue (rx s))"
    using cons.release_law [OF ci, of "ucast c"] assms(2,3) by (simp add: unat_ucast_up)
  have le: "unat c \<le> length (queue (rx s))" using peeked_le_queue [OF ci] assms(2) by simp
  show f: "frame_stack t = frame_stack s" "outstanding_tx t = outstanding_tx s" by (simp_all add: assms(3) frame_stack_def)
  have "length (holdings 0 0 t) + unat c = length (holdings 0 0 s)"
    using le q f by (simp add: holdings_def) (simp add: assms(3))
  then show "length (holdings 0 0 t) + unat c = NUM_FRAMES"
    using conserved_length [OF busy_conserved [OF assms(1)]] by simp
qed

lemma handle_david_loses:
  assumes k: "\<And>i. kern_ok (k i)" and inv: "idle_inv s" and "outstanding_tx s = 0"
  shows "\<exists>s'. handle_receive_packets_david k s = Some s'
    \<and> length (holdings 0 0 s') + unat (consumer (rx s') - consumer (rx s)) = NUM_FRAMES"
proof -
  define t where "t = k 0 s"
  have t: "idle_inv t" using k inv by (simp add: t_def kern_idle)
  have cs: "consumer (rx t) = consumer (rx s)" "outstanding_tx t = 0"
    using kern_busy [OF k idle_busy [OF inv]] assms(3) by (simp_all add: t_def untouched_def)
  obtain n idx r where pk: "xsk_ring_cons__peek (rx t) 64 0 = (n, idx, r)" by (metis prod_cases3)
  have ci: "cons_inv (rx t)" "peeked (rx t) = []" using t by (simp_all add: idle_inv_def busy_inv_def rings_ok_def)
  have r: "cons_inv r" "queue r = queue (rx t)" "consumer r = consumer (rx t)" "length (peeked r) = unat n" "unat n \<le> 64"
    using cons.peek_idle [OF ci _ pk] by simp_all
  define c :: u32 where "c = ucast n"
  have c: "unat c = unat n"
    using r(5) take_bit_nat_eq_self [of "unat n" 32] by (simp add: c_def unsigned_ucast_eq)
  define t1 where "t1 = t\<lparr>rx := r\<rparr>"
  have b: "busy_inv 0 0 t1"
    unfolding t1_def using r peek_size [OF pk] idle_busy [OF t] by (intro busy_rx_ring) simp_all
  have t1: "reserved (fq (umem t1)) = []" "rx t1 = r" "outstanding_tx t1 = 0"
    using t cs by (simp_all add: t1_def idle_inv_def)
  show ?thesis
  proof (cases "c = 0")
    case True
    then have "handle_receive_packets_david k s = Some t1"
      using pk by (simp add: handle_receive_packets_david_def t_def [symmetric] t1_def c_def)
    then show ?thesis using conserved_length [OF busy_conserved [OF b]] r(3) cs by (simp add: t1)
  next
    case False
    obtain m r1 where nb: "xsk_prod_nb_free (fq (umem (k 1 t1))) (umem_frame_free t1) = (m, r1)" by fastforce
    obtain t2 where t2: "restock k c t1 = Some t2" "restocked t1 (unat m) t2"
      using restock_busy [of k, OF k b t1(1) nb] by blast
    define t3 where "t3 = t2\<lparr>rx := xsk_ring_cons__release (rx t2) (ucast c),
      stats := (stats t2)\<lparr>stats_record.rx_packets := stats_record.rx_packets (stats t2) + ucast c\<rparr>\<rparr>"
    have "length (peeked (rx t2)) = unat c" using t2(2) t1 r(4) c by (simp add: restocked_def)
    note rel = release_unprocessed [OF _ this t3_def]
    have b2: "busy_inv 0 0 t2" using t2(2) by (simp add: restocked_def)
    have "outstanding_tx t3 = 0" using rel(3) [OF b2] restock_outstanding [OF k t2(1)] t1(3) by simp
    then have "handle_receive_packets_david k s = Some t3"
      using pk False t2(1)
      by (simp add: handle_receive_packets_david_def t_def [symmetric] t1_def [symmetric] c_def [symmetric]
          t3_def Let_def complete_tx_def)
    moreover have "consumer (rx t3) - consumer (rx s) = c"
      using t2(2) t1 cs r(3) by (simp add: t3_def restocked_def xsk_ring_cons__release_def)
    ultimately show ?thesis using rel(1) [OF b2] by simp
  qed
qed

subsection \<open>The second socket\<close>

lemma second_socket_fails:
  assumes "xsk_configure_socket os ok lret cfg (Some u) uinfo e = Some (Inr (sk, xsk), handle, fx)" and "refcount u = 0"
    and "xsk_configure_socket os ok lret (right_config i) handle uinfo2 e2 = Some (r, handle2, fx2)"
  shows "\<exists>err. r = Inl err"
proof -
  from assms(1) obtain n q c err u' s' fx' where cs: "create_socket os n q u (Some zero_ring) (Some zero_ring) (Some c) = Some (0, u', s', fx')"
    and h: "handle = Some u'" and ok: ok
    by (auto simp: xsk_configure_socket_def xsk_socket__create_def bind_eq_Some_conv Let_def split: if_splits option.splits)
  note rc = socket_create_refcount [OF cs]
  have cal: "calloc_ok os" using cs by (auto simp: create_socket_def split: if_splits)
  have nm: "interface_name (right_config i) = Some None" by (simp add: interface_name_def right_config_def)
  define c2 where "c2 = \<lparr>rx_size = 2048, tx_size = 2048, libbpf_flags = 0,
                         xdp_flags = cfg_xdp_flags (right_config i), bind_flags = xsk_bind_flags (right_config i)\<rparr>"
  have cf: "xsk_set_xdp_socket_config (Some c2) = Inr c2" by (simp add: xsk_set_xdp_socket_config_def c2_def)
  let ?cs2 = "create_socket os None (of_int (xsk_if_queue (right_config i))) u' (Some zero_ring) (Some zero_ring) (Some c2)"
  have "?cs2 = (if refcount u' = 0 then None else Some (- EBUSY, u', None, [Alloc, Free]))"
    using cal rc assms(2) by (cases "s' = None") (auto simp: create_socket_def cf c2_def [THEN arg_cong [where f = libbpf_flags]])
  with assms(3) show ?thesis
    by (auto simp: xsk_configure_socket_def ok nm h c2_def [symmetric] xsk_socket__create_def bind_eq_Some_conv split: if_splits)
qed

lemma umem_configured_refcount:
  assumes "configure_xsk_umem os mem area sz = (Inr (Some u, uinfo), fx)"
  shows "refcount u = 0"
  using assms
  by (auto simp: configure_xsk_umem_def xsk_umem__create_v0_0_4_def Let_def
      split: option.splits if_splits prod.splits sum.splits)

lemma no_umem_no_socket:
  "xsk_configure_socket os ok lret cfg None uinfo e = Some (r, handle, fx) \<Longrightarrow> \<exists>err. r = Inl err"
  by (auto simp: xsk_configure_socket_def xsk_socket__create_def bind_eq_Some_conv Let_def split: if_splits)

lemma two_socket_process_stops:
  assumes "two_socket_process i env dev cfg rest = Some (e, dev', fx, fin)" and "\<not> do_unload cfg"
  shows "fin = [] \<and> e \<noteq> Return EXIT_OK"
proof (cases "ifindex cfg = -1")
  case True
  then show ?thesis using assms(1) by (auto simp: two_socket_process_def)
next
  case False
  obtain l dev1 fxl where l: "load_custom env dev cfg = (l, dev1, fxl)" by (metis prod_cases3)
  obtain m fx1 where m: "create_umem env = (m, fx1)" by fastforce
  show ?thesis
  proof (cases "\<exists>cfg1 handle uinfo. l = Inr cfg1 \<and> m = Inr (handle, uinfo)")
    case False
    then show ?thesis using assms \<open>ifindex cfg \<noteq> -1\<close> l m
      by (cases l; cases m) (auto simp: two_socket_process_def)
  next
    case True
    then obtain cfg1 handle uinfo where lm: "l = Inr cfg1" "m = Inr (handle, uinfo)" by blast
    let ?first = "xsk_configure_socket (sys env) (info_ok env) (link_ret env) cfg1 handle uinfo no_frames"
    let ?second = "\<lambda>handle xsk. xsk_configure_socket (sys env) (info_ok env) (link_ret env) (right_config i)
      handle (umem xsk) no_frames"
    obtain r handle1 fx2 where f: "?first = Some (r, handle1, fx2)"
      using assms \<open>ifindex cfg \<noteq> -1\<close> l m lm by (auto simp: two_socket_process_def bind_eq_Some_conv)
    show ?thesis
    proof (cases r)
      case (Inl err)
      then show ?thesis using assms \<open>ifindex cfg \<noteq> -1\<close> l m lm f by (auto simp: two_socket_process_def)
    next
      case (Inr p)
      obtain sk xsk where p: "r = Inr (sk, xsk)" using Inr by (cases p) auto
      obtain u where u: "handle = Some u" using f [unfolded p] by (cases handle) (auto dest!: no_umem_no_socket)
      have "refcount u = 0" using m lm(2) u umem_configured_refcount
        by (auto simp: create_umem_def split: if_splits prod.splits sum.splits)
      note fails = second_socket_fails [OF f [unfolded u p] this]
      obtain r2 handle2 fx3 where s: "?second handle1 xsk = Some (r2, handle2, fx3)"
        using assms \<open>ifindex cfg \<noteq> -1\<close> l m lm f p by (auto simp: two_socket_process_def bind_eq_Some_conv)
      obtain err where "r2 = Inl err" using fails [OF s] by blast
      with s show ?thesis using assms \<open>ifindex cfg \<noteq> -1\<close> l m lm f p by (auto simp: two_socket_process_def)
    qed
  qed
qed

lemma load_custom_cfg: "load_custom env dev cfg = (Inr cfg', dev', fx) \<Longrightarrow> \<exists>p. cfg' = cfg\<lparr>progsec := p\<rparr>"
  by (auto simp: load_custom_def load_bpf_and_xdp_attach_def Let_def split: if_splits option.splits prod.splits sum.splits
      intro: exI [of _ "progsec cfg"])








text \<open>The threaded switch overwrites the interface index, so that its own check for a missing
  \<^verbatim>\<open>--dev\<close> cannot fail; without the option it passes a NULL name to the library.\<close>

lemma david_new_without_dev:
  assumes "ifname cfg = None" and "\<not> do_unload cfg" and "load_custom env dev (cfg\<lparr>ifindex := 4\<rparr>) = (Inr cfg1, dev1, fxl)"
    and "create_umem env = (Inr (Some u, uinfo), fx1)" and "refcount u = 0" and "info_ok env" and "calloc_ok (sys env)"
  shows "af_xdp_david_new_main 0 env rounds dev cfg = None"
proof -
  have "interface_name cfg1 = Some None"
    using load_custom_cfg [OF assms(3)] assms(1) by (auto simp: interface_name_def)
  then show ?thesis
    using assms by (simp add: af_xdp_david_new_main_def thread_func_def socket_process_def xsk_configure_socket_def
        xsk_socket__create_def create_socket_def xsk_set_xdp_socket_config_def)
qed

subsection \<open>Properties\<close>

text \<open>A concrete environment: a good system, and a device on which nothing fails.\<close>

definition demo_env :: "unit main_env" where
  "demo_env =
     \<lparr>libbpf = \<lparr>prog_load_xattr = (\<lambda>_ _. (1, \<lparr>programs = [], maps = []\<rparr>)), object_open = (\<lambda>_. None), obj_get = (\<lambda>_. -1),
                reuse_fd = (\<lambda>m _. (1, m)), object_load = (\<lambda>ob. (1, ob))\<rparr>,
      next_prog = (\<lambda>_. None), set_link = (\<lambda>d _ _. (0, d)), get_link_id = (\<lambda>_ _. (0, 0)), dev_later = (\<lambda>d. d),
      setrlimit = 0, posix_memalign = (0, 4096), memory = replicate (NUM_FRAMES * FRAME_SIZE) 0, sys = good_os,
      info_ok = True, link_ret = 0, verbose = True, pthread_ret = 0\<rparr>"

definition eth0_config :: config where
  "eth0_config = empty_config\<lparr>ifindex := 3, ifname := Some (strncpy 16 ''eth0''), ifname_buf := strncpy 16 ''eth0''\<rparr>"


lemma demo_name: "interface_name eth0_config = Some (Some ''eth0'')"
  by (simp add: interface_name_def eth0_config_def c_string_strncpy)

lemma demo_umem: "\<exists>u fx. create_umem demo_env = (Inr (Some u, start_umem), fx) \<and> refcount u = 0"
  by (simp add: create_umem_def demo_env_def configure_xsk_umem_def xsk_umem__create_v0_0_4_def xsk_set_umem_config_def
      xsk_get_mmap_offsets_def good_os_def Let_def start_umem_def start_prod_def start_cons_def)

lemma demo_socket:
  assumes "refcount u = 0"
  shows "\<exists>x u' fx. xsk_configure_socket good_os True 0 eth0_config (Some u) start_umem no_frames
    = Some (Inr (Some x, start_system), Some u', fx)"
proof -
  let ?c = "\<lparr>rx_size = 2048, tx_size = 2048, libbpf_flags = 0, xdp_flags = cfg_xdp_flags eth0_config,
    bind_flags = xsk_bind_flags eth0_config\<rparr>"
  obtain x u' fx where "create_socket good_os (Some ''eth0'') (of_int (xsk_if_queue eth0_config)) u (Some zero_ring) (Some zero_ring)
      (Some ?c) = Some (0, u', Some (x, Some (start_cons no_desc), Some (start_prod no_desc)), fx)"
    using assms
    by (simp add: create_socket_def xsk_set_xdp_socket_config_def xsk_get_mmap_offsets_def
        socket_bind_def xsk_setup_xdp_prog_def xsk_create_bpf_maps_def xsk_get_max_queues_def
        xsk_load_xdp_prog_def setup_maps_def xsk_set_bpf_maps_def new_xsk_def good_os_def
        Let_def start_cons_def start_prod_def)
  moreover obtain s where "stock_fill_ring (socket_info (start_cons no_desc) (start_prod no_desc) start_umem no_frames) = Some (Some s)"
    using stock_fill_ring_idle [OF start_fresh] by blast
  moreover from this have "start_system = s" by (simp only: start_system_def option.sel)
  ultimately show ?thesis by (simp add: xsk_configure_socket_def demo_name xsk_socket__create_def)
qed

lemma demo_fields:
  "sys demo_env = good_os" "info_ok demo_env" "link_ret demo_env = 0" "pthread_ret demo_env = 0"
  "ifindex eth0_config = 3" "\<not> do_unload eth0_config" "\<not> xsk_poll_mode eth0_config"
  by (simp_all add: demo_env_def eth0_config_def empty_config_def)

lemma demo_load: "load_custom demo_env () eth0_config = (Inr eth0_config, (), [])"
  by (simp add: load_custom_def eth0_config_def empty_config_def)




text \<open>C32. The two variants that put a second socket on the same UMEM never forward a packet: unless asked
  to unload, no run gets past the creation of the second socket, which the library refuses. They do not
  end with status 0 either.\<close>

theorem two_socket_variants_never_run:
  assumes "af_xdp_user_david_main env rounds dev cfg = Some (e, dev', fx, fin)
      \<or> af_xdp_david_shared_main env rounds rounds2 dev cfg = Some (e, dev', fx, fin)"
    and "\<not> do_unload cfg"
  shows "fin = [] \<and> e \<noteq> Return EXIT_OK"
  using assms(1) unfolding af_xdp_user_david_main_def af_xdp_david_shared_main_def
  by (elim disjE) (erule two_socket_process_stops [OF _ assms(2)])+

theorem two_socket_variants_never_run_witness:
  "\<exists>e fx. af_xdp_user_david_main demo_env [] () eth0_config = Some (e, (), fx, []) \<and> e \<noteq> Return EXIT_OK"
proof -
  obtain u fx1 where u: "create_umem demo_env = (Inr (Some u, start_umem), fx1)" "refcount u = 0" using demo_umem by blast
  obtain x u' fx2 where c: "xsk_configure_socket good_os True 0 eth0_config (Some u) start_umem no_frames
      = Some (Inr (Some x, start_system), Some u', fx2)"
    using demo_socket [OF u(2)] by blast
  have r: "refcount u' = 1"
    using c u(2) by (auto simp: xsk_configure_socket_def xsk_socket__create_def bind_eq_Some_conv Let_def
        split: if_splits option.splits dest!: socket_create_refcount(1))
  have "\<exists>err fx. xsk_configure_socket good_os True 0 (right_config 4) (Some u') (umem start_system) no_frames
      = Some (Inl err, Some u', fx)"
    by (simp add: xsk_configure_socket_def interface_name_def right_config_def xsk_socket__create_def
        create_socket_def xsk_set_xdp_socket_config_def r good_os_def)
  then have "\<exists>e fx fin. af_xdp_user_david_main demo_env [] () eth0_config = Some (e, (), fx, fin)"
    by (auto simp: af_xdp_user_david_main_def two_socket_process_def demo_load demo_fields u(1) c)
  then show ?thesis using two_socket_variants_never_run [of demo_env "[]" "()" eth0_config] demo_fields(6) by blast
qed

text \<open>The receive handler of these variants loses the frame of every packet it receives: starting from
  a state in which all 4096 frames are accounted for, as many are missing afterwards as entries were
  taken from the rx ring.\<close>

theorem variant_loses_frames:
  assumes "\<forall>i. kern_ok (k i)" and "idle_inv s" and "outstanding_tx s = 0"
  shows "\<exists>s'. handle_receive_packets_david k s = Some s'
    \<and> length (holdings 0 0 s') + unat (consumer (rx s') - consumer (rx s)) = NUM_FRAMES"
  using assms by (intro handle_david_loses) simp_all

theorem variant_loses_frames_witness:
  "\<exists>s'. handle_receive_packets_david (\<lambda>_. kern_deliver) start_system = Some s'
    \<and> length (holdings 0 0 s') + unat (consumer (rx s') - consumer (rx start_system)) = NUM_FRAMES"
proof -
  let ?s = "socket_info (start_cons no_desc) (start_prod no_desc) start_umem no_frames"
  have "stock_fill_ring ?s = Some (Some start_system)"
    using stock_fill_ring_idle [OF start_fresh] by (metis start_system_def option.sel)
  then have "outstanding_tx start_system = 0" by (simp add: stock_fill_ring_outstanding socket_info_def)
  with variant_loses_frames [of "\<lambda>_. kern_deliver" start_system] kern_deliver_ok start_idle show ?thesis by blast
qed

text \<open>The statistics thread shows every packet once: while the counters only grow, the numbers of
  packets per interval that it prints add up to the counters, for reception and for transmission.\<close>

theorem stats_poll_complete:
  assumes "stats_poll_af clock rounds = (shown, l, None)"
    and "grows stats_record.rx_packets zero_stats (map fst rounds)" and "grows stats_record.tx_packets zero_stats (map fst rounds)"
  shows "(\<Sum>t\<leftarrow>shown. line_packets (t ! 0)) = rat_of_nat (unat (stats_record.rx_packets l))
    \<and> (\<Sum>t\<leftarrow>shown. line_packets (t ! 1)) = rat_of_nat (unat (stats_record.tx_packets l))"
proof -
  obtain t where t: "poll_stats rounds (zero_stats\<lparr>stats_record.timestamp := t\<rparr>) = (shown, l, None)"
    using assms(1) by (cases "gettime clock") (auto simp: stats_poll_af_def)
  have g: "grows f (zero_stats\<lparr>stats_record.timestamp := t\<rparr>) (map fst rounds)"
    if "grows f zero_stats (map fst rounds)" "f (zero_stats\<lparr>stats_record.timestamp := t\<rparr>) = f zero_stats" for f
    using that by (cases rounds) auto
  have "(\<Sum>t\<leftarrow>shown. line_packets (t ! 0)) + rat_of_nat (unat (stats_record.rx_packets (zero_stats\<lparr>stats_record.timestamp := t\<rparr>)))
      = rat_of_nat (unat (stats_record.rx_packets l))"
    by (rule poll_stats_sum [OF stats_print_af_rx(1) _ t g]) (simp_all add: assms(2))
  moreover have "(\<Sum>t\<leftarrow>shown. line_packets (t ! 1)) + rat_of_nat (unat (stats_record.tx_packets (zero_stats\<lparr>stats_record.timestamp := t\<rparr>)))
      = rat_of_nat (unat (stats_record.tx_packets l))"
    by (rule poll_stats_sum [OF stats_print_af_rx(2) _ t g]) (simp_all add: assms(3))
  ultimately show ?thesis by (simp add: zero_stats_def)
qed

theorem stats_poll_complete_witness:
  "(let shown = fst (stats_poll_af (Some (10, 0)) [(zero_stats\<lparr>stats_record.rx_packets := 7\<rparr>, Some (12, 0)),
                                        (zero_stats\<lparr>stats_record.rx_packets := 9\<rparr>, Some (12, 0))])
    in (\<Sum>t\<leftarrow>shown. line_packets (t ! 0)) = 9)"
proof -
  let ?r = "[(zero_stats\<lparr>stats_record.rx_packets := 7\<rparr>, Some (12, 0)), (zero_stats\<lparr>stats_record.rx_packets := 9\<rparr>, Some (12, 0))]
    :: (stats_record \<times> (u64 \<times> u64) option) list"
  obtain shown l where s: "stats_poll_af (Some (10, 0)) ?r = (shown, l, None)" "stats_record.rx_packets l = 9"
    by (simp add: stats_poll_af_def gettime_def Let_def)
  have "grows stats_record.rx_packets zero_stats (map fst ?r)" "grows stats_record.tx_packets zero_stats (map fst ?r)"
    by (simp_all add: zero_stats_def)
  from stats_poll_complete [OF s(1) this] s show ?thesis by (simp only: Let_def fst_conv) simp
qed

end
