(* ===== verification/XdpPrograms.thy ===== *)
theory XdpPrograms
  imports XdpStats
begin

text \<open>
  The XDP programs of \<^verbatim>\<open>packet01-parsing/xdp_prog_kern.c\<close> and
  \<^verbatim>\<open>packet02-rewriting/xdp_prog_kern.c\<close>: dropping pings by sequence number, rewriting
  the destination port, and swapping VLAN tags.

  A program takes the context and the statistics map of its CPU and returns the verdict, the possibly
  changed packet and the map; \<^term>\<open>None\<close> is an access outside the packet or through a pointer
  that was never set. \<open>packet01\<close> has its own copies of the parsing helpers, which are shown to
  agree with those of \<open>Parsing\<close> except for the IPv4 header length.
\<close>

type_synonym xdp_result = "(u32 \<times> xdp_md \<times> stats_map) option"

definition finish :: "stats_map \<Rightarrow> xdp_md \<Rightarrow> u32 \<Rightarrow> xdp_result" where
  "finish st ctx action = (let (a, st') = xdp_stats_record_action st ctx action in Some (a, ctx, st'))"

subsection \<open>packet01: parsing\<close>

primrec vlan_loop_p01 :: "nat \<Rightarrow> bytes \<Rightarrow> nat \<Rightarrow> ptr \<Rightarrow> u16 \<Rightarrow> (ptr \<times> u16) option" where
  "vlan_loop_p01 0 p data_end vlh h_proto = Some (vlh, h_proto)"
| "vlan_loop_p01 (Suc n) p data_end vlh h_proto =
     (if \<not> proto_is_vlan h_proto then Some (vlh, h_proto)
      else if vlh + sizeof_vlan_hdr > data_end then Some (vlh, h_proto)
      else do {
        h_proto \<leftarrow> load16 p (vlh + vlan_h_encap_proto);
        vlan_loop_p01 n p data_end (vlh + sizeof_vlan_hdr) h_proto
      })"

definition parse_ethhdr_p01 :: "bytes \<Rightarrow> nat \<Rightarrow> hdr_cursor \<Rightarrow> parse_result" where
  "parse_ethhdr_p01 p data_end nh =
     (let eth = pos nh; hdrsize = sizeof_ethhdr in
      if pos nh + hdrsize > data_end then Some (-1, nh, None)
      else do {
        let nh = nh\<lparr>pos := pos nh + hdrsize\<rparr>;
        h_proto \<leftarrow> load16 p (eth + eth_h_proto);
        (vlh, h_proto) \<leftarrow> vlan_loop_p01 VLAN_MAX_DEPTH p data_end (pos nh) h_proto;
        Some (uint h_proto, nh\<lparr>pos := vlh\<rparr>, Some eth)
      })"

definition parse_ip6hdr_p01 :: "bytes \<Rightarrow> nat \<Rightarrow> hdr_cursor \<Rightarrow> parse_result" where
  "parse_ip6hdr_p01 p data_end nh =
     (let ip6h = pos nh; hdrsize = sizeof_ipv6hdr in
      if pos nh + hdrsize > data_end then Some (-1, nh, None)
      else do {
        nexthdr \<leftarrow> load8 p (ip6h + ip6_nexthdr);
        Some (uint nexthdr, nh\<lparr>pos := pos nh + hdrsize\<rparr>, Some ip6h)
      })"

definition parse_iphdr_p01 :: "bytes \<Rightarrow> nat \<Rightarrow> hdr_cursor \<Rightarrow> parse_result" where
  "parse_iphdr_p01 p data_end nh =
     (let iph = pos nh; hdrsize = sizeof_iphdr in
      if pos nh + hdrsize > data_end then Some (-1, nh, None)
      else do {
        protocol \<leftarrow> load8 p (iph + ip_protocol);
        Some (uint protocol, nh\<lparr>pos := pos nh + hdrsize\<rparr>, Some iph)
      })"

definition parse_icmp6hdr_p01 :: "bytes \<Rightarrow> nat \<Rightarrow> hdr_cursor \<Rightarrow> parse_result" where
  "parse_icmp6hdr_p01 p data_end nh =
     (let icmp6h = pos nh; hdrsize = sizeof_icmp6hdr in
      if pos nh + hdrsize > data_end then Some (-1, nh, None)
      else do {
        t \<leftarrow> load8 p (icmp6h + icmp_type);
        Some (uint t, nh\<lparr>pos := pos nh + hdrsize\<rparr>, Some icmp6h)
      })"

definition parse_icmphdr_p01 :: "bytes \<Rightarrow> nat \<Rightarrow> hdr_cursor \<Rightarrow> parse_result" where
  "parse_icmphdr_p01 p data_end nh =
     (let icmph = pos nh; hdrsize = sizeof_icmphdr in
      if pos nh + hdrsize > data_end then Some (-1, nh, None)
      else do {
        t \<leftarrow> load8 p (icmph + icmp_type);
        Some (uint t, nh\<lparr>pos := pos nh + hdrsize\<rparr>, Some icmph)
      })"

text \<open>\<^verbatim>\<open>bpf_ntohs(h->sequence) % 2 == 0\<close> through the pointer a parser stored.\<close>

definition sequence_even :: "bytes \<Rightarrow> ptr option \<Rightarrow> bool option" where
  "sequence_even p h = do { a \<leftarrow> h; s \<leftarrow> load16 p (a + icmp_sequence); Some (unat (bpf_ntohs s) mod 2 = 0) }"

text \<open>The IPv6 block: \<^term>\<open>Inl a\<close> is \<^verbatim>\<open>goto out\<close> with action \<open>a\<close>, \<^term>\<open>Inr (t, c)\<close>
  falls through with the value of \<^verbatim>\<open>nh_type\<close> and the cursor.\<close>

definition p01_ipv6 :: "bytes \<Rightarrow> nat \<Rightarrow> hdr_cursor \<Rightarrow> (u32 + int \<times> hdr_cursor) option" where
  "p01_ipv6 p data_end nh =
     do {
       (nh_type, nh, _) \<leftarrow> parse_ip6hdr_p01 p data_end nh;
       if nh_type \<noteq> IPPROTO_ICMPV6 then Some (Inl XDP_PASS)
       else do {
         (nh_type, nh, icmp6h) \<leftarrow> parse_icmp6hdr_p01 p data_end nh;
         if nh_type < 0 then Some (Inl XDP_PASS)
         else do {
           even \<leftarrow> sequence_even p icmp6h;
           Some (if even then Inl XDP_DROP else Inr (nh_type, nh))
         }
       }
     }"

definition p01_ipv4 :: "bytes \<Rightarrow> nat \<Rightarrow> hdr_cursor \<Rightarrow> u32 option" where
  "p01_ipv4 p data_end nh =
     do {
       (nh_type, nh, _) \<leftarrow> parse_iphdr_p01 p data_end nh;
       if nh_type \<noteq> IPPROTO_ICMP then Some XDP_PASS
       else do {
         (nh_type, nh, icmph) \<leftarrow> parse_icmphdr_p01 p data_end nh;
         if nh_type < 0 then Some XDP_PASS
         else do {
           even \<leftarrow> sequence_even p icmph;
           Some (if \<not> even then XDP_DROP else XDP_PASS)
         }
       }
     }"

definition xdp_parser_func_p01 :: "xdp_md \<Rightarrow> stats_map \<Rightarrow> xdp_result" where
  "xdp_parser_func_p01 ctx st =
     do {
       let p = pkt ctx;
       let data_end = length p;
       (nh_type, nh, _) \<leftarrow> parse_ethhdr_p01 p data_end \<lparr>pos = 0\<rparr>;
       if nh_type < 0 then finish st ctx XDP_PASS
       else do {
         r \<leftarrow> (if nh_type = uint (bpf_htons ETH_P_IPV6) then p01_ipv6 p data_end nh
               else Some (Inr (nh_type, nh)));
         (case r of
            Inl action \<Rightarrow> finish st ctx action
          | Inr (nh_type, nh) \<Rightarrow>
              if nh_type = uint (bpf_htons ETH_P_IP)
              then do { action \<leftarrow> p01_ipv4 p data_end nh; finish st ctx action }
              else finish st ctx XDP_PASS)
       }
     }"

subsection \<open>packet02: rewriting\<close>

text \<open>This copy of \<^verbatim>\<open>vlan_tag_pop\<close> tests \<^verbatim>\<open>vlh + 1 < data_end\<close>.\<close>

definition vlan_tag_pop_p02 :: "adjust_head \<Rightarrow> xdp_md \<Rightarrow> ptr \<Rightarrow> (int \<times> xdp_md) option" where
  "vlan_tag_pop_p02 adj ctx eth =
     do {
       let data_end = length (pkt ctx);
       outer \<leftarrow> load16 (pkt ctx) (eth + eth_h_proto);
       if proto_is_vlan outer
       then do {
         let vlh = eth + sizeof_ethhdr;
         if vlh + sizeof_vlan_hdr < data_end
         then do {
           tci \<leftarrow> load16 (pkt ctx) (vlh + vlan_h_TCI);
           let vlid = uint (bpf_ntohs tci);
           h_proto \<leftarrow> load16 (pkt ctx) (vlh + vlan_h_encap_proto);
           eth_cpy \<leftarrow> load_bytes (pkt ctx) eth sizeof_ethhdr;
           (case adj ctx (int sizeof_vlan_hdr) of
              None \<Rightarrow> Some (-1, ctx)
            | Some ctx' \<Rightarrow>
                let eth = 0; data_end = length (pkt ctx') in
                if eth + sizeof_ethhdr > data_end then Some (-1, ctx')
                else do {
                  m \<leftarrow> store_bytes (pkt ctx') eth eth_cpy;
                  m \<leftarrow> store16 m (eth + eth_h_proto) h_proto;
                  Some (vlid, ctx'\<lparr>pkt := m\<rparr>)
                })
         }
         else Some (-1, ctx)
       }
       else Some (-1, ctx)
     }"

definition vlan_tag_push_p02 :: "adjust_head \<Rightarrow> xdp_md \<Rightarrow> ptr \<Rightarrow> int \<Rightarrow> (int \<times> xdp_md) option" where
  "vlan_tag_push_p02 adj ctx eth vlid =
     do {
       eth_cpy \<leftarrow> load_bytes (pkt ctx) eth sizeof_ethhdr;
       (case adj ctx (0 - int sizeof_vlan_hdr) of
          None \<Rightarrow> Some (-1, ctx)
        | Some ctx' \<Rightarrow>
            let data_end = length (pkt ctx'); eth = 0 in
            if eth + sizeof_ethhdr > data_end then Some (-1, ctx')
            else do {
              m \<leftarrow> store_bytes (pkt ctx') eth eth_cpy;
              let vlh = eth + sizeof_ethhdr;
              if vlh + sizeof_vlan_hdr > data_end then Some (-1, ctx'\<lparr>pkt := m\<rparr>)
              else do {
                m \<leftarrow> store16 m (vlh + vlan_h_TCI) (bpf_htons (word_of_int vlid));
                h_proto \<leftarrow> load16 m (eth + eth_h_proto);
                m \<leftarrow> store16 m (vlh + vlan_h_encap_proto) h_proto;
                m \<leftarrow> store16 m (eth + eth_h_proto) (bpf_htons ETH_P_8021Q);
                Some (0, ctx'\<lparr>pkt := m\<rparr>)
              }
            })
     }"

text \<open>\<^verbatim>\<open>h->dest = bpf_htons(bpf_ntohs(h->dest) + d)\<close> through the pointer a parser stored;
  UDP and TCP have the destination port at the same offset.\<close>

definition shift_port :: "bytes \<Rightarrow> ptr option \<Rightarrow> u16 \<Rightarrow> bytes option" where
  "shift_port p h d =
     do { a \<leftarrow> h; dest \<leftarrow> load16 p (a + udp_dest); store16 p (a + udp_dest) (bpf_htons (bpf_ntohs dest + d)) }"

definition xdp_port_rewrite_func :: "xdp_md \<Rightarrow> stats_map \<Rightarrow> xdp_result" where
  "xdp_port_rewrite_func ctx st =
     do {
       let p = pkt ctx;
       let data_end = length p;
       (eth_type, nh, _) \<leftarrow> parse_ethhdr p data_end \<lparr>pos = 0\<rparr>;
       if eth_type < 0 then finish st ctx XDP_ABORTED
       else if eth_type \<noteq> uint (bpf_htons ETH_P_IPV6) \<and> eth_type \<noteq> uint (bpf_htons ETH_P_IP)
       then finish st ctx XDP_PASS
       else do {
         (ip_type, nh, _) \<leftarrow> (if eth_type = uint (bpf_htons ETH_P_IPV6) then parse_ip6hdr p data_end nh
                             else parse_iphdr p data_end nh);
         if ip_type = IPPROTO_UDP
         then do {
           (r, nh, udphdr) \<leftarrow> parse_udphdr p data_end nh;
           if r < 0 then finish st ctx XDP_ABORTED
           else do { p \<leftarrow> shift_port p udphdr (- 1); finish st (ctx\<lparr>pkt := p\<rparr>) XDP_PASS }
         }
         else if ip_type = IPPROTO_TCP
         then do {
           (r, nh, tcphdr) \<leftarrow> parse_tcphdr p data_end nh;
           if r < 0 then finish st ctx XDP_ABORTED
           else do { p \<leftarrow> shift_port p tcphdr 1; finish st (ctx\<lparr>pkt := p\<rparr>) XDP_PASS }
         }
         else finish st ctx XDP_PASS
       }
     }"

definition xdp_vlan_swap_func :: "adjust_head \<Rightarrow> xdp_md \<Rightarrow> (u32 \<times> xdp_md) option" where
  "xdp_vlan_swap_func adj ctx =
     do {
       let p = pkt ctx;
       let data_end = length p;
       (nh_type, nh, eth) \<leftarrow> parse_ethhdr p data_end \<lparr>pos = 0\<rparr>;
       if nh_type < 0 then Some (XDP_PASS, ctx)
       else do {
         eth \<leftarrow> eth;
         h_proto \<leftarrow> load16 p (eth + eth_h_proto);
         (r, ctx) \<leftarrow> (if proto_is_vlan h_proto then vlan_tag_pop_p02 adj ctx eth
                      else vlan_tag_push_p02 adj ctx eth 1);
         Some (XDP_PASS, ctx)
       }
     }"

definition xdp_parser_func_p02 :: "xdp_md \<Rightarrow> stats_map \<Rightarrow> xdp_result" where
  "xdp_parser_func_p02 ctx st =
     do {
       let p = pkt ctx;
       let data_end = length p;
       (nh_type, nh, _) \<leftarrow> parse_ethhdr p data_end \<lparr>pos = 0\<rparr>;
       if nh_type = uint (bpf_htons ETH_P_IPV6)
       then do {
         (nh_type, nh, _) \<leftarrow> parse_ip6hdr p data_end nh;
         if nh_type \<noteq> IPPROTO_ICMPV6 then finish st ctx XDP_PASS
         else do {
           (nh_type, nh, icmp6h) \<leftarrow> parse_icmp6hdr p data_end nh;
           if nh_type \<noteq> ICMPV6_ECHO_REQUEST then finish st ctx XDP_PASS
           else do {
             even \<leftarrow> sequence_even p icmp6h;
             finish st ctx (if even then XDP_DROP else XDP_PASS)
           }
         }
       }
       else if nh_type = uint (bpf_htons ETH_P_IP)
       then do {
         (nh_type, nh, _) \<leftarrow> parse_iphdr p data_end nh;
         if nh_type \<noteq> IPPROTO_ICMP then finish st ctx XDP_PASS
         else do {
           (nh_type, nh, icmph) \<leftarrow> parse_icmphdr p data_end nh;
           if nh_type \<noteq> ICMP_ECHO then finish st ctx XDP_PASS
           else do {
             even \<leftarrow> sequence_even p icmph;
             finish st ctx (if even then XDP_DROP else XDP_PASS)
           }
         }
       }
       else finish st ctx XDP_PASS
     }"

subsection \<open>The parsers agree\<close>

lemma vlan_loop_p01_eq:
  "vlan_loop_p01 n p data_end vlh h = map_option (\<lambda>(a, b, c). (a, b)) (vlan_loop n i p data_end vlh h None)"
  by (induction n arbitrary: i vlh h) (simp_all add: collect_vlan_def map_option_bind comp_def)

lemma parse_ethhdr_p01_eq: "parse_ethhdr_p01 = parse_ethhdr"
  by (intro ext) (simp add: parse_ethhdr_p01_def parse_ethhdr_def parse_ethhdr_vlan_def Let_def
      vlan_loop_p01_eq [where i = 0] bind_map_option comp_def split_beta)

lemma parse_ip6hdr_p01_eq: "parse_ip6hdr_p01 = parse_ip6hdr"
  and parse_icmp6hdr_p01_eq: "parse_icmp6hdr_p01 = parse_icmp6hdr"
  and parse_icmphdr_p01_eq: "parse_icmphdr_p01 = parse_icmphdr"
  by (intro ext, simp add: parse_ip6hdr_p01_def parse_ip6hdr_def parse_icmp6hdr_p01_def parse_icmp6hdr_def
      parse_icmphdr_p01_def parse_icmphdr_def Let_def)+

lemmas p01_parsers = parse_ethhdr_p01_eq parse_ip6hdr_p01_eq parse_icmp6hdr_p01_eq parse_icmphdr_p01_eq

lemma sequence_even_total: "h = Some a \<Longrightarrow> a + 8 \<le> length p \<Longrightarrow> sequence_even p h \<noteq> None"
  by (simp add: sequence_even_def mem_simps)

subsection \<open>The contract of a counting program\<close>

text \<open>Every program that ends in \<^verbatim>\<open>return xdp_stats_record_action(ctx, action)\<close> decides on a
  valid action, keeps the packet length, and returns through \<open>finish\<close>.\<close>

primrec run_prog :: "(xdp_md \<Rightarrow> stats_map \<Rightarrow> xdp_result) \<Rightarrow> xdp_md list \<Rightarrow> stats_map \<Rightarrow> (u32 list \<times> stats_map) option" where
  "run_prog prog [] st = Some ([], st)"
| "run_prog prog (ctx # ctxs) st =
     do {
       (v, _, st) \<leftarrow> prog ctx st;
       (vs, st) \<leftarrow> run_prog prog ctxs st;
       Some (v # vs, st)
     }"

locale xdp_program =
  fixes prog :: "xdp_md \<Rightarrow> stats_map \<Rightarrow> xdp_result"
  assumes decides: "\<exists>a ctx'. a < XDP_ACTION_MAX \<and> length (pkt ctx') = length (pkt ctx) \<and> prog ctx st = finish st ctx' a"
begin

lemma returns:
  assumes "stats_map_ok st"
  obtains a ctx' st' where "prog ctx st = Some (a, ctx', st')" "a < XDP_ACTION_MAX" "stats_map_ok st'"
    "length (pkt ctx') = length (pkt ctx)" "st' = snd (xdp_stats_record_action st ctx' a)"
proof -
  obtain a ctx' where d: "a < XDP_ACTION_MAX" "length (pkt ctx') = length (pkt ctx)" "prog ctx st = finish st ctx' a"
    using decides by blast
  then have "prog ctx st = Some (a, ctx', snd (xdp_stats_record_action st ctx' a))"
    using record_action_returns [OF assms, of ctx' a] by (simp add: finish_def split_beta)
  then show thesis using that d(1,2) record_action_keeps_ok [OF assms] by blast
qed

lemma counts:
  assumes "stats_map_ok st"
  shows "\<exists>vs st'. run_prog prog ctxs st = Some (vs, st') \<and> length vs = length ctxs \<and> set vs \<subseteq> {v. v < XDP_ACTION_MAX}
    \<and> (\<forall>a < XDP_ACTION_MAX. rx_packets (the (st' a)) = rx_packets (the (st a)) + of_nat (count_list vs a))"
  using assms
proof (induction ctxs arbitrary: st)
  case (Cons ctx ctxs)
  obtain v ctx' st1 where r: "prog ctx st = Some (v, ctx', st1)" "v < XDP_ACTION_MAX" "stats_map_ok st1"
    "st1 = snd (xdp_stats_record_action st ctx' v)"
    using returns [OF Cons.prems, of ctx] by metis
  obtain vs st' where IH: "run_prog prog ctxs st1 = Some (vs, st')" "length vs = length ctxs"
    "set vs \<subseteq> {v. v < XDP_ACTION_MAX}"
    "\<forall>a < XDP_ACTION_MAX. rx_packets (the (st' a)) = rx_packets (the (st1 a)) + of_nat (count_list vs a)"
    using Cons.IH [OF r(3)] by blast
  have "rx_packets (the (st1 a)) = rx_packets (the (st a)) + (if v = a then 1 else 0)" if "a < XDP_ACTION_MAX" for a
  proof -
    have "st v \<noteq> None" using Cons.prems r(2) by (auto simp: stats_map_ok_def)
    with r(2) show ?thesis by (auto simp: r(4) xdp_stats_record_action_def split: option.split)
  qed
  with IH r(1,2) show ?case by (auto simp: add.assoc)
qed simp

end

subsection \<open>The programs satisfy it\<close>

lemma parse_eth_obtain:
  obtains r nh h where "parse_ethhdr p (length p) \<lparr>pos = 0\<rparr> = Some (r, nh, h)" "pos nh \<le> length p"
    "h = None \<and> r = -1 \<or> h = Some 0 \<and> 14 \<le> length p \<and> 14 \<le> pos nh"
proof -
  obtain r nh h where r: "parse_ethhdr p (length p) \<lparr>pos = 0\<rparr> = Some (r, nh, h)"
    using eth.returns [of "length p" p] by blast
  then show thesis
    using that [OF r] eth.cursor_in_packet [OF r] eth.failed [of p "length p" _ r nh] eth.parsed [of p "length p" _ r nh]
    by (cases h) fastforce+
qed

lemmas parser_defs = parse_ip6hdr_def parse_iphdr_def parse_iphdr_p01_def parse_icmp6hdr_def parse_icmphdr_def
  parse_udphdr_def parse_tcphdr_def

lemma decides_finish: "a < XDP_ACTION_MAX \<Longrightarrow> \<exists>b ctx'. b < XDP_ACTION_MAX \<and> length (pkt ctx') = length (pkt ctx)
    \<and> finish st ctx a = finish st ctx' b"
  by blast

interpretation p01: xdp_program xdp_parser_func_p01
proof
  fix ctx :: xdp_md and st
  let ?p = "pkt ctx"
  obtain r nh h where e: "parse_ethhdr ?p (length ?p) \<lparr>pos = 0\<rparr> = Some (r, nh, h)" "pos nh \<le> length ?p"
    using parse_eth_obtain by metis
  have v4: "\<exists>a. p01_ipv4 ?p (length ?p) nh' = Some a \<and> a < XDP_ACTION_MAX" for nh'
    by (auto simp: p01_ipv4_def p01_parsers parser_defs sequence_even_def mem_simps Let_def)
  have v6: "\<exists>x. p01_ipv6 ?p (length ?p) nh = Some x \<and> (\<forall>a. x = Inl a \<longrightarrow> a < XDP_ACTION_MAX)"
    by (auto simp: p01_ipv6_def p01_parsers parser_defs sequence_even_def mem_simps Let_def)
  then obtain x where x: "p01_ipv6 ?p (length ?p) nh = Some x" "\<And>a. x = Inl a \<Longrightarrow> a < XDP_ACTION_MAX" by blast
  have f: "\<exists>a ctx'. a < XDP_ACTION_MAX \<and> length (pkt ctx') = length (pkt ctx) \<and> finish st ctx b = finish st ctx' a"
    if "b < XDP_ACTION_MAX" for b
    using that by (rule decides_finish)
  have g: "\<exists>a ctx'. a < XDP_ACTION_MAX \<and> length (pkt ctx') = length (pkt ctx)
      \<and> (p01_ipv4 ?p (length ?p) nh' \<bind> finish st ctx) = finish st ctx' a" for nh'
    using v4 [of nh'] f by auto
  show "\<exists>a ctx'. a < XDP_ACTION_MAX \<and> length (pkt ctx') = length (pkt ctx) \<and> xdp_parser_func_p01 ctx st = finish st ctx' a"
    using f g x(2)
    by (auto simp: xdp_parser_func_p01_def p01_parsers e x(1) Let_def split: sum.split)
qed

interpretation p02: xdp_program xdp_parser_func_p02
proof
  fix ctx :: xdp_md and st
  let ?p = "pkt ctx"
  obtain r nh h where e: "parse_ethhdr ?p (length ?p) \<lparr>pos = 0\<rparr> = Some (r, nh, h)" "pos nh \<le> length ?p"
    using parse_eth_obtain by metis
  have f: "\<exists>a ctx'. a < XDP_ACTION_MAX \<and> length (pkt ctx') = length (pkt ctx) \<and> finish st ctx b = finish st ctx' a"
    if "b < XDP_ACTION_MAX" for b
    using that by (rule decides_finish)
  show "\<exists>a ctx'. a < XDP_ACTION_MAX \<and> length (pkt ctx') = length (pkt ctx) \<and> xdp_parser_func_p02 ctx st = finish st ctx' a"
    using f by (auto simp: xdp_parser_func_p02_def e parser_defs sequence_even_def mem_simps Let_def)
qed

lemma shift_port_total:
  "h = Some a \<Longrightarrow> a + 4 \<le> length p \<Longrightarrow> \<exists>p'. shift_port p h d = Some p' \<and> length p' = length p"
  by (auto simp: shift_port_def mem_simps)

lemma finish_changed:
  "length p' = length (pkt ctx) \<Longrightarrow> \<exists>a ctx'. a < XDP_ACTION_MAX \<and> length (pkt ctx') = length (pkt ctx)
    \<and> finish st (ctx\<lparr>pkt := p'\<rparr>) XDP_PASS = finish st ctx' a"
  by (intro exI [of _ XDP_PASS] exI [of _ "ctx\<lparr>pkt := p'\<rparr>"]) simp

interpretation port: xdp_program xdp_port_rewrite_func
proof
  fix ctx :: xdp_md and st
  let ?p = "pkt ctx" and ?n = "length (pkt ctx)"
  obtain r nh h where e: "parse_ethhdr ?p ?n \<lparr>pos = 0\<rparr> = Some (r, nh, h)" "pos nh \<le> ?n"
    using parse_eth_obtain by metis
  let ?ip = "if r = uint (bpf_htons ETH_P_IPV6) then parse_ip6hdr ?p ?n nh else parse_iphdr ?p ?n nh"
  obtain t nh1 i where ip: "?ip = Some (t, nh1, i)"
    using ip6.returns [of ?n ?p nh] ip4.returns [of ?n ?p nh] by (metis order_refl)
  obtain u nh2 h2 where udp: "parse_udphdr ?p ?n nh1 = Some (u, nh2, h2)"
    using udp.returns [of ?n ?p nh1] by auto
  obtain w nh3 h3 where tcp: "parse_tcphdr ?p ?n nh1 = Some (w, nh3, h3)"
    using tcp.returns [of ?n ?p nh1] by auto
  have u: "\<exists>p'. shift_port ?p h2 d = Some p' \<and> length p' = ?n" if "\<not> u < 0" for d
    using udp.failed [of ?p ?n nh1 u nh2] udp.header_in_packet [of ?p ?n nh1 u nh2] udp that
    by (cases h2) (auto intro: shift_port_total)
  have w: "\<exists>p'. shift_port ?p h3 d = Some p' \<and> length p' = ?n" if "\<not> w < 0" for d
    using tcp.failed [of ?p ?n nh1 w nh3] tcp.header_in_packet [of ?p ?n nh1 w nh3] tcp that
    by (cases h3) (auto intro: shift_port_total)
  show "\<exists>a ctx'. a < XDP_ACTION_MAX \<and> length (pkt ctx') = length (pkt ctx) \<and> xdp_port_rewrite_func ctx st = finish st ctx' a"
    using decides_finish [of _ ctx st] finish_changed [of _ ctx st] u [of "- 1"] w [of 1]
    by (auto simp: xdp_port_rewrite_func_def e Let_def ip udp tcp)
qed

lemma vlan_tag_push_p02_eq: "vlan_tag_push_p02 = vlan_tag_push"
  by (intro ext) (simp add: vlan_tag_push_p02_def vlan_tag_push_def)

lemma if_swap: "(if P then x else y) = (if \<not> P then y else x)"
  by simp

lemma vlan_tag_pop_p02_eq:
  "length (pkt ctx) \<noteq> eth + 18 \<Longrightarrow> vlan_tag_pop_p02 adj ctx eth = vlan_tag_pop adj ctx eth"
proof -
  assume "length (pkt ctx) \<noteq> eth + 18"
  then have "eth + 14 + 4 < length (pkt ctx) \<longleftrightarrow> \<not> length (pkt ctx) < eth + 14 + 4" by auto
  then show ?thesis by (simp only: vlan_tag_pop_p02_def vlan_tag_pop_def Let_def if_swap [of "\<not> _"] not_not)
qed

lemma vlan_tag_pop_p02_total:
  assumes "14 \<le> length (pkt ctx)"
  shows "vlan_tag_pop_p02 adj ctx 0 \<noteq> None"
  using assms by (auto simp: vlan_tag_pop_p02_def mem_simps Let_def split: option.splits)

lemma xdp_vlan_swap_total:
  assumes "adjust_head_ok adj"
  shows "\<exists>ctx'. xdp_vlan_swap_func adj ctx = Some (XDP_PASS, ctx')"
proof -
  obtain r nh h where e: "parse_ethhdr (pkt ctx) (length (pkt ctx)) \<lparr>pos = 0\<rparr> = Some (r, nh, h)"
    "h = None \<and> r = -1 \<or> h = Some 0 \<and> 14 \<le> length (pkt ctx) \<and> 14 \<le> pos nh"
    by (rule parse_eth_obtain)
  show ?thesis
  proof (cases "h = None")
    case True
    then show ?thesis using e by (simp add: xdp_vlan_swap_func_def)
  next
    case False
    then have l: "h = Some 0" "14 \<le> length (pkt ctx)" using e(2) by auto
    then obtain w where w: "load16 (pkt ctx) 12 = Some w" by (auto simp: mem_simps)
    obtain a where "vlan_tag_pop_p02 adj ctx 0 = Some a" using vlan_tag_pop_p02_total [OF l(2), of adj] by auto
    moreover obtain b where "vlan_tag_push_p02 adj ctx 0 1 = Some b"
      using vlan_tag_push_total [OF assms l(2), of 1] by (auto simp: vlan_tag_push_p02_eq)
    ultimately show ?thesis using e(1) l(1) w
      by (cases a; cases b) (simp add: xdp_vlan_swap_func_def)
  qed
qed

subsection \<open>Frames\<close>

lemma vlan_loop_collects:
  "vlan_loop n i p e vlh h (Some v) = Some (vlh', h', v') \<Longrightarrow> vlan_loop n i p e vlh h None = Some (vlh', h', None)"
  by (induction n arbitrary: i vlh h v) (auto simp: collect_vlan_def bind_eq_Some_conv split: if_splits)

lemma parse_ethhdr_of_frame:
  assumes "length macs = 12" and "length tags \<le> VLAN_MAX_DEPTH"
    and "\<forall>t \<in> set tags. is_vlan_tpid (fst t)" and "\<not> is_vlan_tpid ethertype"
    and p: "p = eth_frame macs tags ethertype payload"
  shows "parse_ethhdr p (length p) \<lparr>pos = 0\<rparr> = Some (uint (bpf_htons ethertype), \<lparr>pos = 14 + 4 * length tags\<rparr>, Some 0)"
  using parse_ethhdr_frame [OF assms(1-4) _ p, of "\<lparr>vlan_id = [0, 0]\<rparr>"]
  by (auto simp: parse_ethhdr_def parse_ethhdr_vlan_def Let_def bind_eq_Some_conv dest!: vlan_loop_collects split: if_splits)

lemma eth_frame_split:
  assumes "length macs = 12"
  obtains f where "length f = 14 + 4 * length tags" and "\<And>pl. eth_frame macs tags et pl = f @ pl"
proof
  show "length (macs @ concat (map enc_tag tags) @ be16 et) = 14 + 4 * length tags"
    using assms by (induction tags) (simp_all add: enc_tag_def be16_def)
qed (simp add: eth_frame_def)

lemma not_vlan_ip: "\<not> is_vlan_tpid ETH_P_IP" "\<not> is_vlan_tpid ETH_P_IPV6"
  by (simp_all add: is_vlan_tpid_def)

lemma parse_iphdr_at:
  assumes "length f = n" and "length ip = 4 * unat (ip ! 0 AND 0x0f)" and "20 \<le> length ip"
  shows "parse_iphdr (f @ ip @ pl) (length (f @ ip @ pl)) \<lparr>pos = n\<rparr>
    = Some (uint (ip ! 9), \<lparr>pos = n + length ip\<rparr>, Some n)"
  using assms by (simp add: parse_iphdr_def Let_def load8_def nth_append)

lemma ethertypes: "uint (bpf_htons ETH_P_IP) \<noteq> uint (bpf_htons ETH_P_IPV6)"
  "bpf_htons ETH_P_IP \<noteq> bpf_htons ETH_P_IPV6"
  by (simp_all add: bpf_htons_def bswap16_def le16_def hi8_def lo8_def)

subsection \<open>Properties\<close>

text \<open>The port rewriter on a UDP datagram over IPv4, with IP options and up to two VLAN tags: the
  destination port is decremented (port 0 becomes 65535), every other byte stays, and the packet is
  passed.\<close>

theorem port_rewrite_udp:
  assumes "length macs = 12" and "length tags \<le> 2" and "\<forall>t \<in> set tags. is_vlan_tpid (fst t)"
    and "length ip = 4 * unat (ip ! 0 AND 0x0f)" and "20 \<le> length ip" and "ip ! 9 = 17"
    and "length sport = 2" and "8 \<le> unat ulen" and "2 \<le> length rest"
    and "pkt ctx = eth_frame macs tags ETH_P_IP (ip @ sport @ be16 dport @ be16 ulen @ rest)"
    and "stats_map_ok st"
  shows "\<exists>st'. xdp_port_rewrite_func ctx st
    = Some (XDP_PASS, ctx\<lparr>pkt := eth_frame macs tags ETH_P_IP (ip @ sport @ be16 (dport - 1) @ be16 ulen @ rest)\<rparr>, st')"
proof -
  obtain f where f: "length f = 14 + 4 * length tags" "\<And>pl. eth_frame macs tags ETH_P_IP pl = f @ pl"
    using eth_frame_split [OF assms(1)] by metis
  define n where "n = 14 + 4 * length tags"
  define p where "p = f @ ip @ sport @ be16 dport @ be16 ulen @ rest"
  have p: "pkt ctx = p" by (simp add: assms(10) f(2) p_def)
  have e: "parse_ethhdr p (length p) \<lparr>pos = 0\<rparr> = Some (uint (bpf_htons ETH_P_IP), \<lparr>pos = n\<rparr>, Some 0)"
    unfolding n_def by (rule parse_ethhdr_of_frame [OF assms(1-3) not_vlan_ip(1)]) (simp add: p_def f(2))
  have i: "parse_iphdr p (length p) \<lparr>pos = n\<rparr> = Some (17, \<lparr>pos = n + length ip\<rparr>, Some n)"
    unfolding p_def using parse_iphdr_at [OF f(1) [folded n_def] assms(4,5)] by (simp only: assms(6)) simp
  let ?h = "n + length ip"
  have ul: "8 \<le> uint ulen" using assms(8) by (metis uint_nat of_nat_le_iff of_nat_numeral)
  have "load16 p (?h + 4) = Some (bpf_htons ulen)"
    using load16_at [of "f @ ip @ sport @ be16 dport" "?h + 4"] f(1) assms(7) by (simp add: p_def n_def)
  then have u: "parse_udphdr p (length p) \<lparr>pos = ?h\<rparr> = Some (uint ulen - 8, \<lparr>pos = ?h + 8\<rparr>, Some ?h)"
    using assms(7,9) f(1) ul by (simp add: parse_udphdr_def Let_def udp_payload_len_eq p_def n_def)
  have "load16 p (?h + 2) = Some (bpf_htons dport)"
    using load16_at [of "f @ ip @ sport" "?h + 2"] f(1) assms(7) by (simp add: p_def n_def)
  moreover have "store16 p (?h + 2) (bpf_htons (dport - 1)) = Some (f @ ip @ sport @ be16 (dport - 1) @ be16 ulen @ rest)"
    using store16_at [of "f @ ip @ sport" "?h + 2" "be16 dport"] f(1) assms(7) by (simp add: p_def n_def)
  ultimately have "shift_port p (Some ?h) (- 1) = Some (f @ ip @ sport @ be16 (dport - 1) @ be16 ulen @ rest)"
    by (simp add: shift_port_def)
  then show ?thesis
    using e i u ul ethertypes record_action_returns [OF assms(11)]
    by (simp add: xdp_port_rewrite_func_def p finish_def split_beta f(2))
qed

theorem port_rewrite_udp_witness:
  "\<exists>st'. xdp_port_rewrite_func
      \<lparr>pkt = eth_frame (replicate 12 1) [] ETH_P_IP ((0x45 # replicate 8 0 @ 17 # replicate 10 0) @ [1, 2] @ be16 0 @ be16 8 @ [0, 0]),
       ingress_ifindex = 1, rx_queue_index = 0\<rparr> zero_map
    = Some (XDP_PASS,
      \<lparr>pkt = eth_frame (replicate 12 1) [] ETH_P_IP ((0x45 # replicate 8 0 @ 17 # replicate 10 0) @ [1, 2] @ be16 (0 - 1) @ be16 8 @ [0, 0]),
       ingress_ifindex = 1, rx_queue_index = 0\<rparr>, st')"
  using port_rewrite_udp [of "replicate 12 1" "[]" "0x45 # replicate 8 0 @ 17 # replicate 10 0" "[1, 2]" 8 "[0, 0]"
      "\<lparr>pkt = eth_frame (replicate 12 1) [] ETH_P_IP ((0x45 # replicate 8 0 @ 17 # replicate 10 0) @ [1, 2] @ be16 0 @ be16 8 @ [0, 0]),
       ingress_ifindex = 1, rx_queue_index = 0\<rparr>" 0 zero_map] zero_map_ok
  by (simp add: nth_append)

text \<open>The VLAN swapper is an involution on untagged frames with a non-empty payload: the first run
  pushes tag 1, the second pops it and restores the packet.\<close>

theorem vlan_swap_twice:
  assumes "adjust_head_ok adj" and "length macs = 12" and "\<not> is_vlan_tpid et" and "payload \<noteq> []"
    and "pkt ctx = eth_frame macs [] et payload" and "adj ctx (- 4) = Some c1"
    and "adj (ctx\<lparr>pkt := eth_frame macs [(ETH_P_8021Q, 1)] et payload\<rparr>) 4 = Some c2"
  shows "\<exists>ctx1. xdp_vlan_swap_func adj ctx = Some (XDP_PASS, ctx1)
    \<and> pkt ctx1 = eth_frame macs [(ETH_P_8021Q, 1)] et payload \<and> xdp_vlan_swap_func adj ctx1 = Some (XDP_PASS, ctx)"
proof -
  define c where "c = ctx\<lparr>pkt := eth_frame macs [(ETH_P_8021Q, 1)] et payload\<rparr>"
  have v: "is_vlan_tpid ETH_P_8021Q" by (simp add: is_vlan_tpid_def)
  have "parse_ethhdr (pkt ctx) (length (pkt ctx)) \<lparr>pos = 0\<rparr> = Some (uint (bpf_htons et), \<lparr>pos = 14 + 4 * length []\<rparr>, Some 0)"
    using parse_ethhdr_of_frame [OF assms(2) _ _ assms(3,5)] by simp
  moreover have "load16 (pkt ctx) 12 = Some (bpf_htons et)"
    using load16_at [OF assms(2), of et payload] by (simp add: assms(5) eth_frame_def)
  moreover have "vlan_tag_push_p02 adj ctx 0 1 = Some (0, c)"
    unfolding vlan_tag_push_p02_eq using vlan_tag_push_frame [OF assms(1,2,5,6), of 1] by (simp add: c_def)
  ultimately have 1: "xdp_vlan_swap_func adj ctx = Some (XDP_PASS, c)"
    using assms(3) by (simp add: xdp_vlan_swap_func_def)
  have "parse_ethhdr (pkt c) (length (pkt c)) \<lparr>pos = 0\<rparr> = Some (uint (bpf_htons et), \<lparr>pos = 14 + 4 * length [(ETH_P_8021Q, 1 :: u16)]\<rparr>, Some 0)"
    using v by (intro parse_ethhdr_of_frame [OF assms(2) _ _ assms(3)]) (simp_all add: c_def)
  moreover have "load16 (pkt c) 12 = Some (bpf_htons ETH_P_8021Q)"
    using load16_at [OF assms(2)] by (simp add: c_def eth_frame_def enc_tag_def)
  moreover have "length (pkt c) \<noteq> 0 + 18"
    using assms(2,4) by (simp add: c_def eth_frame_def enc_tag_def)
  then have "vlan_tag_pop_p02 adj c 0 = Some (1, c\<lparr>pkt := eth_frame macs [] et payload\<rparr>)"
    using vlan_tag_pop_frame [OF assms(1,2) _ v assms(7), of 1 "[]" et payload]
    by (simp add: vlan_tag_pop_p02_eq c_def)
  moreover have "c\<lparr>pkt := eth_frame macs [] et payload\<rparr> = ctx" using assms(5) by (simp add: c_def)
  ultimately have "xdp_vlan_swap_func adj c = Some (XDP_PASS, ctx)"
    using v by (simp add: xdp_vlan_swap_func_def)
  with 1 show ?thesis by (simp add: c_def)
qed

theorem vlan_swap_twice_witness:
  "\<exists>ctx1. xdp_vlan_swap_func adjust_head_zero \<lparr>pkt = eth_frame (replicate 12 1) [] ETH_P_IP [69], ingress_ifindex = 1, rx_queue_index = 0\<rparr>
      = Some (XDP_PASS, ctx1)
    \<and> pkt ctx1 = eth_frame (replicate 12 1) [(ETH_P_8021Q, 1)] ETH_P_IP [69]
    \<and> xdp_vlan_swap_func adjust_head_zero ctx1
      = Some (XDP_PASS, \<lparr>pkt = eth_frame (replicate 12 1) [] ETH_P_IP [69], ingress_ifindex = 1, rx_queue_index = 0\<rparr>)"
  by (rule vlan_swap_twice [OF adjust_head_zero_ok])
    (simp_all add: adjust_head_zero_def not_vlan_ip eth_frame_def enc_tag_def be16_def)

text \<open>On an IPv4 echo request without IP options the programs of the two lessons give opposite
  verdicts: the one of \<^verbatim>\<open>packet02\<close> drops even sequence numbers, the one of
  \<^verbatim>\<open>packet01\<close> odd ones.\<close>

theorem ping_verdicts:
  assumes "length macs = 12" and "length tags \<le> 2" and "\<forall>t \<in> set tags. is_vlan_tpid (fst t)"
    and "length ip = 20" and "ip ! 0 AND 0x0f = 5" and "ip ! 9 = 1" and "length hdr = 5" and "stats_map_ok st"
    and "pkt ctx = eth_frame macs tags ETH_P_IP (ip @ (8 # hdr) @ be16 seq @ rest)"
  shows "\<exists>st' st''. xdp_parser_func_p02 ctx st = Some (if even (unat seq) then XDP_DROP else XDP_PASS, ctx, st')
    \<and> xdp_parser_func_p01 ctx st = Some (if even (unat seq) then XDP_PASS else XDP_DROP, ctx, st'')"
proof -
  obtain f where f: "length f = 14 + 4 * length tags" "\<And>pl. eth_frame macs tags ETH_P_IP pl = f @ pl"
    using eth_frame_split [OF assms(1)] by metis
  define n where "n = 14 + 4 * length tags"
  define p where "p = f @ ip @ (8 # hdr) @ be16 seq @ rest"
  have p: "pkt ctx = p" by (simp add: assms(9) f(2) p_def)
  have e: "parse_ethhdr p (length p) \<lparr>pos = 0\<rparr> = Some (uint (bpf_htons ETH_P_IP), \<lparr>pos = n\<rparr>, Some 0)"
    unfolding n_def by (rule parse_ethhdr_of_frame [OF assms(1-3) not_vlan_ip(1)]) (simp add: p_def f(2))
  have "parse_iphdr p (length p) \<lparr>pos = n\<rparr> = Some (uint (ip ! 9), \<lparr>pos = n + length ip\<rparr>, Some n)"
    unfolding p_def using assms(4,5) f(1) by (intro parse_iphdr_at) (simp_all add: n_def)
  then have i: "parse_iphdr p (length p) \<lparr>pos = n\<rparr> = Some (1, \<lparr>pos = n + 20\<rparr>, Some n)"
    by (simp only: assms(4,6)) simp
  have i': "parse_iphdr_p01 p (length p) \<lparr>pos = n\<rparr> = Some (1, \<lparr>pos = n + 20\<rparr>, Some n)"
    using f(1) assms(4,6) by (simp add: parse_iphdr_p01_def Let_def load8_def p_def n_def nth_append)
  have c: "parse_icmphdr p (length p) \<lparr>pos = n + 20\<rparr> = Some (8, \<lparr>pos = n + 20 + 8\<rparr>, Some (n + 20))"
    using f(1) assms(4,7) by (simp add: parse_icmphdr_def Let_def load8_def p_def n_def nth_append)
  have "load16 p (n + 20 + 6) = Some (bpf_htons seq)"
    using load16_at [of "f @ ip @ (8 # hdr)" "n + 26" seq rest] f(1) assms(4,7) by (simp add: p_def n_def)
  then have q: "sequence_even p (Some (n + 20)) = Some (even (unat seq))"
    by (simp add: sequence_even_def even_iff_mod_2_eq_zero)
  have "xdp_parser_func_p02 ctx st = finish st ctx (if even (unat seq) then XDP_DROP else XDP_PASS)"
    using e i c q ethertypes by (simp add: xdp_parser_func_p02_def p)
  moreover have "xdp_parser_func_p01 ctx st = finish st ctx (if even (unat seq) then XDP_PASS else XDP_DROP)"
    using e i' c q ethertypes by (simp add: xdp_parser_func_p01_def p01_ipv4_def p p01_parsers)
  ultimately show ?thesis
    using record_action_returns [OF assms(8), of ctx] by (simp add: finish_def split_beta)
qed

theorem ping_verdicts_witness:
  "\<exists>st' st''. xdp_parser_func_p02 \<lparr>pkt = eth_frame (replicate 12 1) [] ETH_P_IP
        ((0x45 # replicate 8 0 @ 1 # replicate 10 0) @ (8 # replicate 5 0) @ be16 3 @ []), ingress_ifindex = 1, rx_queue_index = 0\<rparr> zero_map
      = Some (XDP_PASS, \<lparr>pkt = eth_frame (replicate 12 1) [] ETH_P_IP
        ((0x45 # replicate 8 0 @ 1 # replicate 10 0) @ (8 # replicate 5 0) @ be16 3 @ []), ingress_ifindex = 1, rx_queue_index = 0\<rparr>, st')
    \<and> xdp_parser_func_p01 \<lparr>pkt = eth_frame (replicate 12 1) [] ETH_P_IP
        ((0x45 # replicate 8 0 @ 1 # replicate 10 0) @ (8 # replicate 5 0) @ be16 3 @ []), ingress_ifindex = 1, rx_queue_index = 0\<rparr> zero_map
      = Some (XDP_DROP, \<lparr>pkt = eth_frame (replicate 12 1) [] ETH_P_IP
        ((0x45 # replicate 8 0 @ 1 # replicate 10 0) @ (8 # replicate 5 0) @ be16 3 @ []), ingress_ifindex = 1, rx_queue_index = 0\<rparr>, st'')"
  using ping_verdicts [of "replicate 12 1" "[]" "0x45 # replicate 8 0 @ 1 # replicate 10 0" "replicate 5 0" zero_map
      "\<lparr>pkt = eth_frame (replicate 12 1) [] ETH_P_IP
        ((0x45 # replicate 8 0 @ 1 # replicate 10 0) @ (8 # replicate 5 0) @ be16 3 @ []), ingress_ifindex = 1, rx_queue_index = 0\<rparr>" 3 "[]"]
    zero_map_ok
  by (simp add: nth_append)

end
