(* ===== verification/XdpRouting.thy ===== *)
theory XdpRouting
  imports XdpPrograms Checksum
begin

text \<open>
  The XDP programs of \<^verbatim>\<open>packet03-redirecting/xdp_prog_kern.c\<close>: the ICMP echo responder,
  the redirecting programs and the router.

  Kernel helpers are parameters. What is assumed of them is what \<^verbatim>\<open>headers/linux/bpf.h\<close>
  documents: \<open>csum_diff_ok\<close> says that \<^verbatim>\<open>bpf_csum_diff\<close> returns the one's complement
  difference of two buffers on top of a seed, \<open>redirect_ok\<close> that the redirect helpers return
  \<^verbatim>\<open>XDP_REDIRECT\<close> or \<^verbatim>\<open>XDP_ABORTED\<close>.
\<close>

type_synonym csum_diff = "bytes \<Rightarrow> bytes \<Rightarrow> u32 \<Rightarrow> u32"

definition csum_diff_ok :: "csum_diff \<Rightarrow> bool" where
  "csum_diff_ok cd \<longleftrightarrow>
     (\<forall>old new seed. length old mod 4 = 0 \<longrightarrow> length new mod 4 = 0 \<longrightarrow>
        (unat (cd old new seed) + word_sum (words16 old)) mod 65535 = (word_sum (words16 new) + unat seed) mod 65535)"

definition redirect_ok :: "('a \<Rightarrow> u32) \<Rightarrow> bool" where
  "redirect_ok redirect \<longleftrightarrow> (\<forall>k. redirect k = XDP_REDIRECT \<or> redirect k = XDP_ABORTED)"

subsection \<open>The echo responder\<close>

definition swap_mac_p03 :: "bytes \<Rightarrow> ptr \<Rightarrow> bytes option" where
  "swap_mac_p03 m eth =
     do {
       h_tmp \<leftarrow> load_bytes m (eth + eth_h_source) ETH_ALEN;
       d \<leftarrow> load_bytes m (eth + eth_h_dest) ETH_ALEN;
       m \<leftarrow> store_bytes m (eth + eth_h_source) d;
       store_bytes m (eth + eth_h_dest) h_tmp
     }"

definition swap_ipv6_p03 :: "bytes \<Rightarrow> ptr \<Rightarrow> bytes option" where
  "swap_ipv6_p03 m ipv6 =
     do {
       tmp \<leftarrow> load_bytes m (ipv6 + ip6_saddr) 16;
       d \<leftarrow> load_bytes m (ipv6 + ip6_daddr) 16;
       m \<leftarrow> store_bytes m (ipv6 + ip6_saddr) d;
       store_bytes m (ipv6 + ip6_daddr) tmp
     }"

definition swap_ipv4_p03 :: "bytes \<Rightarrow> ptr \<Rightarrow> bytes option" where
  "swap_ipv4_p03 m iphdr =
     do {
       tmp \<leftarrow> load_bytes m (iphdr + ip_saddr) 4;
       d \<leftarrow> load_bytes m (iphdr + ip_daddr) 4;
       m \<leftarrow> store_bytes m (iphdr + ip_saddr) d;
       store_bytes m (iphdr + ip_daddr) tmp
     }"

definition icmp_checksum_diff :: "csum_diff \<Rightarrow> u16 \<Rightarrow> bytes \<Rightarrow> bytes \<Rightarrow> u16" where
  "icmp_checksum_diff cd seed icmphdr_new icmphdr_old =
     csum_fold_helper (cd icmphdr_old icmphdr_new (ucast seed))"

text \<open>The patch of the ICMP header: the checksum field is cleared before the old header is saved.\<close>

definition icmp_patch :: "csum_diff \<Rightarrow> bytes \<Rightarrow> ptr \<Rightarrow> u8 \<Rightarrow> bytes option" where
  "icmp_patch cd m h reply =
     do {
       old_csum \<leftarrow> load16 m (h + icmp_cksum);
       m \<leftarrow> store16 m (h + icmp_cksum) 0;
       icmphdr_old \<leftarrow> load_bytes m h sizeof_icmphdr_common;
       m \<leftarrow> store8 m (h + icmp_type) reply;
       icmphdr \<leftarrow> load_bytes m h sizeof_icmphdr_common;
       store16 m (h + icmp_cksum) (icmp_checksum_diff cd (NOT old_csum) icmphdr icmphdr_old)
     }"

definition echo_tx :: "csum_diff \<Rightarrow> xdp_md \<Rightarrow> stats_map \<Rightarrow> bytes \<Rightarrow> ptr option \<Rightarrow> ptr option \<Rightarrow> u8 \<Rightarrow> xdp_result" where
  "echo_tx cd ctx st p eth icmphdr reply =
     do {
       eth \<leftarrow> eth;
       p \<leftarrow> swap_mac_p03 p eth;
       icmphdr \<leftarrow> icmphdr;
       p \<leftarrow> icmp_patch cd p icmphdr reply;
       finish st (ctx\<lparr>pkt := p\<rparr>) XDP_TX
     }"

definition xdp_icmp_echo_func :: "csum_diff \<Rightarrow> xdp_md \<Rightarrow> stats_map \<Rightarrow> xdp_result" where
  "xdp_icmp_echo_func cd ctx st =
     do {
       let p = pkt ctx;
       let data_end = length p;
       (eth_type, nh, eth) \<leftarrow> parse_ethhdr p data_end \<lparr>pos = 0\<rparr>;
       if eth_type = uint (bpf_htons ETH_P_IP)
       then do {
         (ip_type, nh, iphdr) \<leftarrow> parse_iphdr p data_end nh;
         if ip_type \<noteq> IPPROTO_ICMP then finish st ctx XDP_PASS
         else do {
           (icmp_type, nh, icmphdr) \<leftarrow> parse_icmphdr_common p data_end nh;
           if icmp_type = ICMP_ECHO
           then do { iph \<leftarrow> iphdr; p \<leftarrow> swap_ipv4_p03 p iph; echo_tx cd ctx st p eth icmphdr (word_of_int ICMP_ECHOREPLY) }
           else finish st ctx XDP_PASS
         }
       }
       else if eth_type = uint (bpf_htons ETH_P_IPV6)
       then do {
         (ip_type, nh, ipv6hdr) \<leftarrow> parse_ip6hdr p data_end nh;
         if ip_type \<noteq> IPPROTO_ICMPV6 then finish st ctx XDP_PASS
         else do {
           (icmp_type, nh, icmphdr) \<leftarrow> parse_icmphdr_common p data_end nh;
           if icmp_type = ICMPV6_ECHO_REQUEST
           then do { ip6 \<leftarrow> ipv6hdr; p \<leftarrow> swap_ipv6_p03 p ip6; echo_tx cd ctx st p eth icmphdr (word_of_int ICMPV6_ECHO_REPLY) }
           else finish st ctx XDP_PASS
         }
       }
       else finish st ctx XDP_PASS
     }"

subsection \<open>Redirection\<close>

definition xdp_redirect_func :: "(u32 \<Rightarrow> u32) \<Rightarrow> xdp_md \<Rightarrow> stats_map \<Rightarrow> xdp_result" where
  "xdp_redirect_func bpf_redirect ctx st =
     do {
       let p = pkt ctx;
       let dst = [0xe2, 0xab, 0x44, 0xea, 0x6d, 0x16];
       let ifindex = 5;
       (eth_type, nh, eth) \<leftarrow> parse_ethhdr p (length p) \<lparr>pos = 0\<rparr>;
       if eth_type = -1 then finish st ctx XDP_PASS
       else do {
         eth \<leftarrow> eth;
         p \<leftarrow> store_bytes p (eth + eth_h_dest) dst;
         finish st (ctx\<lparr>pkt := p\<rparr>) (bpf_redirect ifindex)
       }
     }"

definition xdp_redirect_map_func :: "(bytes \<rightharpoonup> bytes) \<Rightarrow> (u32 \<Rightarrow> u32) \<Rightarrow> xdp_md \<Rightarrow> stats_map \<Rightarrow> xdp_result" where
  "xdp_redirect_map_func redirect_params bpf_redirect_map ctx st =
     do {
       let p = pkt ctx;
       (eth_type, nh, eth) \<leftarrow> parse_ethhdr p (length p) \<lparr>pos = 0\<rparr>;
       if eth_type = -1 then finish st ctx XDP_PASS
       else do {
         eth \<leftarrow> eth;
         h_source \<leftarrow> load_bytes p (eth + eth_h_source) ETH_ALEN;
         (case redirect_params h_source of
            None \<Rightarrow> finish st ctx XDP_PASS
          | Some dst \<Rightarrow> do {
              d \<leftarrow> load_bytes dst 0 ETH_ALEN;
              p \<leftarrow> store_bytes p (eth + eth_h_dest) d;
              finish st (ctx\<lparr>pkt := p\<rparr>) (bpf_redirect_map 0)
            })
       }
     }"

subsection \<open>The router\<close>

text \<open>\<^verbatim>\<open>struct bpf_fib_lookup\<close>: the members of a union share a field; the address fields hold
  the 16 bytes of the IPv6 variant.\<close>

record bpf_fib_lookup =
  family :: u8
  l4_protocol :: u8
  sport :: u16
  dport :: u16
  tot_len :: u16
  fib_ifindex :: u32
  tos_flowinfo :: u32
  fib_src :: bytes
  fib_dst :: bytes
  smac :: bytes
  dmac :: bytes

definition fib_zero :: bpf_fib_lookup where
  "fib_zero = \<lparr>family = 0, l4_protocol = 0, sport = 0, dport = 0, tot_len = 0, fib_ifindex = 0,
     tos_flowinfo = 0, fib_src = replicate 16 0, fib_dst = replicate 16 0, smac = replicate 6 0, dmac = replicate 6 0\<rparr>"

definition ip_decrease_ttl :: "bytes \<Rightarrow> ptr \<Rightarrow> (int \<times> bytes) option" where
  "ip_decrease_ttl m iph =
     do {
       c \<leftarrow> load16 m (iph + ip_check);
       let check = (ucast c :: u32) + ucast (bpf_htons 0x0100);
       m \<leftarrow> store16 m (iph + ip_check) (ucast (check + (if check \<ge> 0xFFFF then 1 else 0)));
       ttl \<leftarrow> load8 m (iph + ip_ttl);
       m \<leftarrow> store8 m (iph + ip_ttl) (ttl - 1);
       Some (uint (ttl - 1), m)
     }"

text \<open>The request of the two families: \<^term>\<open>Inl a\<close> leaves with action \<open>a\<close>.\<close>

definition router_ipv4 :: "bytes \<Rightarrow> ptr \<Rightarrow> (u32 + bpf_fib_lookup) option" where
  "router_ipv4 p iph =
     (if iph + sizeof_iphdr > length p then Some (Inl XDP_DROP)
      else do {
        ttl \<leftarrow> load8 p (iph + ip_ttl);
        if ttl \<le> 1 then Some (Inl XDP_PASS)
        else do {
          tos \<leftarrow> load8 p (iph + ip_tos);
          protocol \<leftarrow> load8 p (iph + ip_protocol);
          len \<leftarrow> load16 p (iph + ip_tot_len);
          saddr \<leftarrow> load_bytes p (iph + ip_saddr) 4;
          daddr \<leftarrow> load_bytes p (iph + ip_daddr) 4;
          Some (Inr (fib_zero\<lparr>family := 2, tos_flowinfo := ucast tos, l4_protocol := protocol, sport := 0, dport := 0,
            tot_len := bpf_ntohs len, fib_src := saddr @ replicate 12 0, fib_dst := daddr @ replicate 12 0\<rparr>))
        }
      })"

text \<open>\<^verbatim>\<open>*(__be32 *) ip6h & bpf_htonl(0x0FFFFFFF)\<close>: the first word as it lies in memory, with
  the high nibble of its first byte cleared.\<close>

definition flowinfo_of :: "bytes \<Rightarrow> u32" where
  "flowinfo_of bs = (ucast (bs ! 0) + 256 * ucast (bs ! 1) + 65536 * ucast (bs ! 2) + 16777216 * ucast (bs ! 3)) AND 0xFFFFFF0F"

definition router_ipv6 :: "bytes \<Rightarrow> ptr \<Rightarrow> (u32 + bpf_fib_lookup) option" where
  "router_ipv6 p ip6h =
     (if ip6h + sizeof_ipv6hdr > length p then Some (Inl XDP_DROP)
      else do {
        hop_limit \<leftarrow> load8 p (ip6h + ip6_hop_limit);
        if hop_limit \<le> 1 then Some (Inl XDP_PASS)
        else do {
          w \<leftarrow> load_bytes p ip6h 4;
          nexthdr \<leftarrow> load8 p (ip6h + ip6_nexthdr);
          len \<leftarrow> load16 p (ip6h + ip6_payload_len);
          saddr \<leftarrow> load_bytes p (ip6h + ip6_saddr) 16;
          daddr \<leftarrow> load_bytes p (ip6h + ip6_daddr) 16;
          Some (Inr (fib_zero\<lparr>family := 10, tos_flowinfo := flowinfo_of w, l4_protocol := nexthdr, sport := 0, dport := 0,
            tot_len := bpf_ntohs len, fib_src := saddr, fib_dst := daddr\<rparr>))
        }
      })"

text \<open>The case \<^verbatim>\<open>BPF_FIB_LKUP_RET_SUCCESS\<close>.\<close>

definition router_forward :: "(u32 \<Rightarrow> u32) \<Rightarrow> xdp_md \<Rightarrow> stats_map \<Rightarrow> u16 \<Rightarrow> ptr \<Rightarrow> bpf_fib_lookup \<Rightarrow> xdp_result" where
  "router_forward bpf_redirect ctx st h_proto nh fib_params =
     do {
       let p = pkt ctx;
       let eth = 0;
       p \<leftarrow> (if h_proto = bpf_htons ETH_P_IP then map_option snd (ip_decrease_ttl p nh)
             else if h_proto = bpf_htons ETH_P_IPV6
             then do { hop_limit \<leftarrow> load8 p (nh + ip6_hop_limit); store8 p (nh + ip6_hop_limit) (hop_limit - 1) }
             else Some p);
       p \<leftarrow> store_bytes p (eth + eth_h_dest) (dmac fib_params);
       p \<leftarrow> store_bytes p (eth + eth_h_source) (smac fib_params);
       finish st (ctx\<lparr>pkt := p\<rparr>) (bpf_redirect (fib_ifindex fib_params))
     }"

definition xdp_router_func ::
  "(bpf_fib_lookup \<Rightarrow> int \<times> bpf_fib_lookup) \<Rightarrow> (u32 \<Rightarrow> u32) \<Rightarrow> xdp_md \<Rightarrow> stats_map \<Rightarrow> xdp_result" where
  "xdp_router_func fib_lookup bpf_redirect ctx st =
     do {
       let p = pkt ctx;
       let nh_off = sizeof_ethhdr;
       if nh_off > length p then finish st ctx XDP_DROP
       else do {
         h_proto \<leftarrow> load16 p eth_h_proto;
         if h_proto \<noteq> bpf_htons ETH_P_IP \<and> h_proto \<noteq> bpf_htons ETH_P_IPV6 then finish st ctx XDP_PASS
         else do {
           r \<leftarrow> (if h_proto = bpf_htons ETH_P_IP then router_ipv4 p nh_off else router_ipv6 p nh_off);
           (case r of
              Inl action \<Rightarrow> finish st ctx action
            | Inr fib_params \<Rightarrow>
                let (rc, fib_params) = fib_lookup (fib_params\<lparr>fib_ifindex := ingress_ifindex ctx\<rparr>) in
                if rc = 0 then router_forward bpf_redirect ctx st h_proto nh_off fib_params
                else if rc = 1 \<or> rc = 2 \<or> rc = 3 then finish st ctx XDP_DROP
                else finish st ctx XDP_PASS)
         }
       }
     }"

definition xdp_pass_func_p03 :: "xdp_md \<Rightarrow> u32" where
  "xdp_pass_func_p03 ctx = XDP_PASS"

subsection \<open>The programs count every packet\<close>

lemma swap_p03_eq:
  "swap_mac_p03 = swap_src_dst_mac" "swap_ipv6_p03 = swap_src_dst_ipv6" "swap_ipv4_p03 = swap_src_dst_ipv4"
  by (intro ext, simp add: swap_mac_p03_def swap_ipv6_p03_def swap_ipv4_p03_def swap_src_dst_mac_def
      swap_src_dst_ipv6_def swap_src_dst_ipv4_def swap_mem_def)+

lemma swap_total:
  "eth + 14 \<le> length m \<Longrightarrow> \<exists>m'. swap_src_dst_mac m eth = Some m' \<and> length m' = length m"
  "ip + 40 \<le> length m \<Longrightarrow> \<exists>m'. swap_src_dst_ipv6 m ip = Some m' \<and> length m' = length m"
  "ip + 20 \<le> length m \<Longrightarrow> \<exists>m'. swap_src_dst_ipv4 m ip = Some m' \<and> length m' = length m"
  by (simp_all add: swap_src_dst_mac_def swap_src_dst_ipv6_def swap_src_dst_ipv4_def swap_mem_eq)

lemma icmp_patch_total:
  "h + 4 \<le> length m \<Longrightarrow> \<exists>m'. icmp_patch cd m h reply = Some m' \<and> length m' = length m"
  by (simp add: icmp_patch_def mem_simps)

lemma finish_packet:
  "length p' = length (pkt ctx) \<Longrightarrow> a < XDP_ACTION_MAX \<Longrightarrow>
   \<exists>b ctx'. b < XDP_ACTION_MAX \<and> length (pkt ctx') = length (pkt ctx) \<and> finish st (ctx\<lparr>pkt := p'\<rparr>) a = finish st ctx' b"
  by (intro exI [of _ a] exI [of _ "ctx\<lparr>pkt := p'\<rparr>"]) simp

lemma echo_tx_decides:
  assumes "eth = Some 0" and "icmp = Some h" and "14 \<le> length p" and "h + 4 \<le> length p" and "length p = length (pkt ctx)"
  shows "\<exists>a ctx'. a < XDP_ACTION_MAX \<and> length (pkt ctx') = length (pkt ctx) \<and> echo_tx cd ctx st p eth icmp reply = finish st ctx' a"
proof -
  obtain p1 where p1: "swap_src_dst_mac p 0 = Some p1" "length p1 = length p" using swap_total(1) [of 0 p] assms(3) by auto
  obtain p2 where p2: "icmp_patch cd p1 h reply = Some p2" "length p2 = length p1"
    using icmp_patch_total [of h p1] assms(4) p1(2) by auto
  show ?thesis
    using finish_packet [of p2 ctx XDP_TX st] assms p1 p2 by (simp add: echo_tx_def swap_p03_eq)
qed

interpretation echo: xdp_program "xdp_icmp_echo_func cd" for cd
proof
  fix ctx :: xdp_md and st
  let ?p = "pkt ctx" and ?n = "length (pkt ctx)"
  obtain r nh h where e: "parse_ethhdr ?p ?n \<lparr>pos = 0\<rparr> = Some (r, nh, h)" "pos nh \<le> ?n"
    "h = None \<and> r = -1 \<or> h = Some 0 \<and> 14 \<le> ?n \<and> 14 \<le> pos nh"
    using parse_eth_obtain by metis
  obtain t4 nh4 i4 where ip4: "parse_iphdr ?p ?n nh = Some (t4, nh4, i4)" using ip4.returns [of ?n ?p nh] by auto
  obtain t6 nh6 i6 where ip6: "parse_ip6hdr ?p ?n nh = Some (t6, nh6, i6)" using ip6.returns [of ?n ?p nh] by auto
  have F: "\<exists>a ctx'. a < XDP_ACTION_MAX \<and> length (pkt ctx') = ?n \<and> finish st ctx XDP_PASS = finish st ctx' a"
    by (rule decides_finish) simp
  have v4: "\<exists>a ctx'. a < XDP_ACTION_MAX \<and> length (pkt ctx') = ?n
      \<and> (iphdr \<bind> swap_ipv4_p03 ?p \<bind> (\<lambda>p. echo_tx cd ctx st p h c 0)) = finish st ctx' a"
    if "iphdr = Some ip" "ip + 20 \<le> ?n" "c = Some a" "a + 4 \<le> ?n" "h = Some 0" "14 \<le> ?n" for iphdr ip c a
    using that swap_total(3) [of ip ?p] echo_tx_decides [of h c a _ ctx cd st 0] by (fastforce simp: swap_p03_eq)
  have v6: "\<exists>a ctx'. a < XDP_ACTION_MAX \<and> length (pkt ctx') = ?n
      \<and> (iphdr \<bind> swap_ipv6_p03 ?p \<bind> (\<lambda>p. echo_tx cd ctx st p h c 129)) = finish st ctx' a"
    if "iphdr = Some ip" "ip + 40 \<le> ?n" "c = Some a" "a + 4 \<le> ?n" "h = Some 0" "14 \<le> ?n" for iphdr ip c a
    using that swap_total(2) [of ip ?p] echo_tx_decides [of h c a _ ctx cd st 129] by (fastforce simp: swap_p03_eq)
  have hdr: "h = Some 0 \<and> 14 \<le> ?n" if "r = uint (w :: u16)" for w
    using e(3) that by (metis bot_nat_0.extremum_uniqueI le_zero_eq uint_ge_0 neg_0_le_iff_le not_one_le_zero one_neq_zero)
  show "\<exists>a ctx'. a < XDP_ACTION_MAX \<and> length (pkt ctx') = ?n \<and> xdp_icmp_echo_func cd ctx st = finish st ctx' a"
  proof -
    obtain k4 n4 h4 where c4: "parse_icmphdr_common ?p ?n nh4 = Some (k4, n4, h4)" using icmpc.returns [of ?n ?p nh4] by auto
    obtain k6 n6 h6 where c6: "parse_icmphdr_common ?p ?n nh6 = Some (k6, n6, h6)" using icmpc.returns [of ?n ?p nh6] by auto
    have 4: ?thesis if "r = uint (bpf_htons ETH_P_IP)" "t4 = 1" "k4 = 8"
      using v4 [of i4 "pos nh" h4 "pos nh4"] ip4.nonneg_parsed [OF ip4] ip4.header_in_packet [of ?p ?n nh t4 nh4 "pos nh"] ip4
        icmpc.nonneg_parsed [OF c4] icmpc.header_in_packet [of ?p ?n nh4 k4 n4 "pos nh4"] c4 hdr [OF that(1)] that e(1)
      by (simp add: xdp_icmp_echo_func_def)
    have 6: ?thesis if "r = uint (bpf_htons ETH_P_IPV6)" "t6 = 58" "k6 = 128"
      using v6 [of i6 "pos nh" h6 "pos nh6"] ip6.nonneg_parsed [OF ip6] ip6.header_in_packet [of ?p ?n nh t6 nh6 "pos nh"] ip6
        icmpc.nonneg_parsed [OF c6] icmpc.header_in_packet [of ?p ?n nh6 k6 n6 "pos nh6"] c6 hdr [OF that(1)] that e(1) ethertypes
      by (simp add: xdp_icmp_echo_func_def)
    show ?thesis
    proof (cases "r = uint (bpf_htons ETH_P_IP) \<and> t4 = 1 \<and> k4 = 8 \<or> r = uint (bpf_htons ETH_P_IPV6) \<and> t6 = 58 \<and> k6 = 128")
      case True
      then show ?thesis using 4 6 by blast
    next
      case False
      then have "xdp_icmp_echo_func cd ctx st = finish st ctx XDP_PASS"
        using ethertypes by (auto simp: xdp_icmp_echo_func_def Let_def e(1) ip4 ip6 c4 c6)
      with F show ?thesis by simp
    qed
  qed
qed

lemma redirect_decides:
  assumes "redirect_ok redir"
  shows "xdp_program (xdp_redirect_func redir)"
proof
  fix ctx :: xdp_md and st
  let ?p = "pkt ctx" and ?n = "length (pkt ctx)"
  obtain r nh h where e: "parse_ethhdr ?p ?n \<lparr>pos = 0\<rparr> = Some (r, nh, h)"
    "h = None \<and> r = -1 \<or> h = Some 0 \<and> 14 \<le> ?n \<and> 14 \<le> pos nh"
    using parse_eth_obtain by metis
  have "redir 5 < XDP_ACTION_MAX" using assms by (auto simp: redirect_ok_def dest: spec [of _ 5])
  show "\<exists>a ctx'. a < XDP_ACTION_MAX \<and> length (pkt ctx') = ?n \<and> xdp_redirect_func redir ctx st = finish st ctx' a"
  proof (cases "r = -1")
    case True
    with e(1) decides_finish [of XDP_PASS ctx st] show ?thesis by (simp add: xdp_redirect_func_def)
  next
    case False
    with e(2) have h: "h = Some 0" "14 \<le> ?n" by auto
    obtain p' where p': "store_bytes ?p 0 [0xe2, 0xab, 0x44, 0xea, 0x6d, 0x16] = Some p'" "length p' = ?n"
      using h(2) by (simp add: mem_simps)
    from finish_packet [OF p'(2) \<open>redir 5 < XDP_ACTION_MAX\<close>] show ?thesis
      using False e(1) h(1) p'(1) by (simp add: xdp_redirect_func_def)
  qed
qed

lemma redirect_map_decides:
  assumes "redirect_ok redir" and "\<forall>k d. params k = Some d \<longrightarrow> length d = 6"
  shows "xdp_program (xdp_redirect_map_func params redir)"
proof
  fix ctx :: xdp_md and st
  let ?p = "pkt ctx" and ?n = "length (pkt ctx)"
  obtain r nh h where e: "parse_ethhdr ?p ?n \<lparr>pos = 0\<rparr> = Some (r, nh, h)"
    "h = None \<and> r = -1 \<or> h = Some 0 \<and> 14 \<le> ?n \<and> 14 \<le> pos nh"
    using parse_eth_obtain by metis
  have "redir 0 < XDP_ACTION_MAX" using assms(1) by (auto simp: redirect_ok_def dest: spec [of _ 0])
  show "\<exists>a ctx'. a < XDP_ACTION_MAX \<and> length (pkt ctx') = ?n \<and> xdp_redirect_map_func params redir ctx st = finish st ctx' a"
  proof (cases "r = -1")
    case True
    with e(1) decides_finish [of XDP_PASS ctx st] show ?thesis by (simp add: xdp_redirect_map_func_def)
  next
    case False
    with e(2) have h: "h = Some 0" "14 \<le> ?n" by auto
    then obtain src where src: "load_bytes ?p 6 6 = Some src" by (simp add: mem_simps)
    show ?thesis
    proof (cases "params src")
      case None
      with False h src e(1) decides_finish [of XDP_PASS ctx st] show ?thesis by (simp add: xdp_redirect_map_func_def)
    next
      case (Some d)
      then have "length d = 6" using assms(2) by blast
      then obtain p' where p': "load_bytes d 0 6 = Some d" "store_bytes ?p 0 d = Some p'" "length p' = ?n"
        using h(2) by (simp add: mem_simps)
      from finish_packet [OF p'(3) \<open>redir 0 < XDP_ACTION_MAX\<close>] show ?thesis
        using False e(1) h(1) src Some p'(1,2) by (simp add: xdp_redirect_map_func_def)
    qed
  qed
qed

text \<open>The MAC addresses of the answer are arrays of six bytes.\<close>

definition fib_lookup_ok :: "(bpf_fib_lookup \<Rightarrow> int \<times> bpf_fib_lookup) \<Rightarrow> bool" where
  "fib_lookup_ok fib \<longleftrightarrow> (\<forall>q. length (smac (snd (fib q))) = 6 \<and> length (dmac (snd (fib q))) = 6)"

lemma ip_decrease_ttl_total:
  "iph + 20 \<le> length m \<Longrightarrow> \<exists>t m'. ip_decrease_ttl m iph = Some (t, m') \<and> length m' = length m"
  by (simp add: ip_decrease_ttl_def mem_simps Let_def)

lemma router_forward_decides:
  assumes "redirect_ok redir" and "length (smac q) = 6" and "length (dmac q) = 6"
    and "h = bpf_htons ETH_P_IP \<and> 34 \<le> length (pkt ctx) \<or> h = bpf_htons ETH_P_IPV6 \<and> 54 \<le> length (pkt ctx)"
  shows "\<exists>a ctx'. a < XDP_ACTION_MAX \<and> length (pkt ctx') = length (pkt ctx) \<and> router_forward redir ctx st h 14 q = finish st ctx' a"
proof -
  let ?p = "pkt ctx"
  have "redir (fib_ifindex q) < XDP_ACTION_MAX" using assms(1) by (auto simp: redirect_ok_def dest: spec [of _ "fib_ifindex q"])
  note F = finish_packet [OF _ this]
  obtain p1 where p1: "(if h = bpf_htons ETH_P_IP then map_option snd (ip_decrease_ttl ?p 14)
      else if h = bpf_htons ETH_P_IPV6 then do { hl \<leftarrow> load8 ?p (14 + 7); store8 ?p (14 + 7) (hl - 1) } else Some ?p) = Some p1"
    "length p1 = length ?p"
    using assms(4) ip_decrease_ttl_total [of 14 ?p] ethertypes by (fastforce simp: mem_simps)
  obtain p2 where p2: "store_bytes p1 0 (dmac q) = Some p2" "length p2 = length ?p"
    using assms(3,4) p1(2) by (auto simp: mem_simps)
  obtain p3 where p3: "store_bytes p2 6 (smac q) = Some p3" "length p3 = length ?p"
    using assms(2,4) p2(2) by (auto simp: mem_simps)
  have "router_forward redir ctx st h 14 q = finish st (ctx\<lparr>pkt := p3\<rparr>) (redir (fib_ifindex q))"
    by (simp only: router_forward_def Let_def p1(1) bind.bind_lunit add_0 p2(1) p3(1))
  with F [OF p3(2), of st] show ?thesis by simp
qed

lemma router_request_total:
  "\<exists>x. router_ipv4 p iph = Some x \<and> (\<forall>a. x = Inl a \<longrightarrow> a < XDP_ACTION_MAX) \<and> (\<forall>q. x = Inr q \<longrightarrow> iph + 20 \<le> length p)"
  "\<exists>x. router_ipv6 p ip6 = Some x \<and> (\<forall>a. x = Inl a \<longrightarrow> a < XDP_ACTION_MAX) \<and> (\<forall>q. x = Inr q \<longrightarrow> ip6 + 40 \<le> length p)"
  by (auto simp: router_ipv4_def router_ipv6_def mem_simps)

lemma router_ipv4_request:
  "iph + 20 \<le> length p \<Longrightarrow> 1 < unat (p ! (iph + 8)) \<Longrightarrow> \<exists>req. router_ipv4 p iph = Some (Inr req)"
  by (auto simp: router_ipv4_def mem_simps word_le_nat_alt)

lemma router_decides:
  assumes "redirect_ok redir" and "fib_lookup_ok fib"
  shows "xdp_program (xdp_router_func fib redir)"
proof
  fix ctx :: xdp_md and st
  let ?p = "pkt ctx" and ?n = "length (pkt ctx)"
  let ?ok = "\<lambda>f. \<exists>a ctx'. a < XDP_ACTION_MAX \<and> length (pkt ctx') = ?n \<and> f = finish st ctx' a"
  have F: "?ok (finish st ctx a)" if "a < XDP_ACTION_MAX" for a using that by (rule decides_finish)
  obtain x where x: "router_ipv4 ?p 14 = Some x" "\<And>a. x = Inl a \<Longrightarrow> a < XDP_ACTION_MAX" "\<And>q. x = Inr q \<Longrightarrow> 34 \<le> ?n"
    using router_request_total(1) [of ?p 14] by auto
  obtain y where y: "router_ipv6 ?p 14 = Some y" "\<And>a. y = Inl a \<Longrightarrow> a < XDP_ACTION_MAX" "\<And>q. y = Inr q \<Longrightarrow> 54 \<le> ?n"
    using router_request_total(2) [of ?p 14] by auto
  have R: "?ok (let (rc, q) = fib q' in if rc = 0 then router_forward redir ctx st h 14 q
      else if rc = 1 \<or> rc = 2 \<or> rc = 3 then finish st ctx XDP_DROP else finish st ctx XDP_PASS)"
    if "h = bpf_htons ETH_P_IP \<and> 34 \<le> ?n \<or> h = bpf_htons ETH_P_IPV6 \<and> 54 \<le> ?n" for q' h
    using router_forward_decides [OF assms(1) _ _ that, of "snd (fib q')"] assms(2) F [of XDP_DROP] F [of XDP_PASS]
    by (auto simp: fib_lookup_ok_def split_beta)
  show "?ok (xdp_router_func fib redir ctx st)"
  proof (cases "14 \<le> ?n")
    case True
    then obtain h where h: "load16 ?p 12 = Some h" by (simp add: mem_simps)
    consider "h = bpf_htons ETH_P_IP" | "h = bpf_htons ETH_P_IPV6" | "h \<noteq> bpf_htons ETH_P_IP \<and> h \<noteq> bpf_htons ETH_P_IPV6" by blast
    then show ?thesis
    proof cases
      case 1
      with True h x show ?thesis using F R by (cases x) (auto simp: xdp_router_func_def)
    next
      case 2
      with True h y show ?thesis using F R ethertypes by (cases y) (auto simp: xdp_router_func_def)
    next
      case 3
      with True h show ?thesis using F [of XDP_PASS] by (auto simp: xdp_router_func_def)
    qed
  next
    case False
    then show ?thesis using F [of XDP_DROP] by (simp add: xdp_router_func_def)
  qed
qed

subsection \<open>Checksums of the rewritten headers\<close>

definition ttl_check :: "u16 \<Rightarrow> u16" where
  "ttl_check c = (let check = (ucast c :: u32) + 1 in ucast (check + (if check \<ge> 0xFFFF then 1 else 0)))"

lemma ttl_check_mod: "unat (ttl_check c) mod 65535 = (unat c + 1) mod 65535"
proof -
  let ?k = "(ucast c :: u32) + 1"
  have c: "unat c < 65536" by (rule unat_u16_less)
  have k: "unat ?k = unat c + 1" using c by (simp add: unat_word_ariths unat_ucast_up)
  have ge: "?k \<ge> 0xFFFF \<longleftrightarrow> 65534 \<le> unat c" by (simp add: word_le_nat_alt k)
  have u: "unat (ucast w :: u16) = unat w mod 65536" for w :: u32
    by (simp add: unsigned_ucast_eq take_bit_eq_mod)
  show ?thesis
  proof (cases "65534 \<le> unat c")
    case True
    then have "unat (ttl_check c) = (unat c + 2) mod 65536"
      using c unat_word_ariths(1) [of ?k 1] by (simp only: ttl_check_def Let_def ge u k if_True) simp
    moreover have "unat c = 65534 \<or> unat c = 65535" using True c by auto
    ultimately show ?thesis by auto
  next
    case False
    then have "unat (ttl_check c) = unat c + 1"
      using c by (simp add: ttl_check_def Let_def ge u k)
    then show ?thesis by simp
  qed
qed

lemma ip_decrease_ttl_eq:
  assumes "length A = iph" and "length a8 = 8"
  shows "ip_decrease_ttl (A @ a8 @ [ttl, proto] @ [lo8 ck, hi8 ck] @ rest) iph
    = Some (uint (ttl - 1), A @ a8 @ [ttl - 1, proto] @ [lo8 (ttl_check ck), hi8 (ttl_check ck)] @ rest)"
proof -
  let ?m = "\<lambda>t c. A @ a8 @ [t, proto] @ [lo8 c, hi8 c] @ rest"
  have l: "load16 (?m ttl ck) (iph + 10) = Some ck"
    using load16_le [of "A @ a8 @ [ttl, proto]" "iph + 10"] assms by simp
  have w: "store16 (?m ttl ck) (iph + 10) c = Some (?m ttl c)" for c
    using store16_le [of "A @ a8 @ [ttl, proto]" "iph + 10"] assms by simp
  have t: "load8 (?m ttl c) (iph + 8) = Some ttl" "store8 (?m ttl c) (iph + 8) v = Some (?m v c)" for c v
    using load8_at [of "A @ a8" "iph + 8"] store8_at [of "A @ a8" "iph + 8"] assms by simp_all
  have h: "(ucast (bpf_htons 0x0100) :: u32) = 1"
    by (simp add: bpf_htons_def bswap16_def le16_def hi8_def lo8_def)
  show ?thesis
    by (simp only: ip_decrease_ttl_def l h bind.bind_lunit Let_def ttl_check_def [unfolded Let_def, symmetric] w t)
qed

text \<open>The words a receiver sums over the first \<open>n\<close> bytes.\<close>

lemma header_sum:
  assumes "length a8 = 8" and "12 \<le> n"
  shows "word_sum (words16 (take n (a8 @ [ttl, proto] @ [lo8 ck, hi8 ck] @ rest)))
    = word_sum (words16 a8) + (unat ttl + 256 * unat proto) + unat ck + word_sum (words16 (take (n - 12) rest))"
proof -
  have "take n (a8 @ [ttl, proto] @ [lo8 ck, hi8 ck] @ rest) = a8 @ [ttl, proto] @ [lo8 ck, hi8 ck] @ take (n - 12) rest"
    using assms by (simp add: take_Cons')
  then show ?thesis using assms(1) by (simp add: words16_append unat_le16)
qed

lemma ttl_header_accepted:
  assumes "length a8 = 8" and "12 \<le> n" and "1 < unat ttl"
  shows "inet_accepts (words16 (take n (a8 @ [ttl - 1, proto] @ [lo8 (ttl_check ck), hi8 (ttl_check ck)] @ rest)))
    \<longleftrightarrow> inet_accepts (words16 (take n (a8 @ [ttl, proto] @ [lo8 ck, hi8 ck] @ rest)))"
proof (rule inet_accepts_cong)
  have t: "unat (ttl - 1) = unat ttl - 1" using assms(3) by (simp add: unat_minus_one word_neq_0_conv word_less_nat_alt)
  let ?c = "word_sum (words16 a8) + 256 * unat proto + word_sum (words16 (take (n - 12) rest)) + (unat ttl - 1)"
  have 1: "word_sum (words16 (take n (a8 @ [ttl - 1, proto] @ [lo8 (ttl_check ck), hi8 (ttl_check ck)] @ rest)))
      = ?c + unat (ttl_check ck)"
    by (simp add: header_sum [OF assms(1,2), simplified] t)
  have 2: "word_sum (words16 (take n (a8 @ [ttl, proto] @ [lo8 ck, hi8 ck] @ rest))) = ?c + (unat ck + 1)"
    using assms(3) by (simp add: header_sum [OF assms(1,2), simplified])
  show "word_sum (words16 (take n (a8 @ [ttl - 1, proto] @ [lo8 (ttl_check ck), hi8 (ttl_check ck)] @ rest))) mod 65535
      = word_sum (words16 (take n (a8 @ [ttl, proto] @ [lo8 ck, hi8 ck] @ rest))) mod 65535"
    unfolding 1 2 by (rule mod_add_cong [OF refl ttl_check_mod])
  show "word_sum (words16 (take n (a8 @ [ttl - 1, proto] @ [lo8 (ttl_check ck), hi8 (ttl_check ck)] @ rest))) \<noteq> 0"
    unfolding 1 using assms(3) by simp
  show "word_sum (words16 (take n (a8 @ [ttl, proto] @ [lo8 ck, hi8 ck] @ rest))) \<noteq> 0"
    unfolding 2 by simp
qed

lemma icmp_patch_eq:
  fixes cd :: csum_diff and ck :: u16 and reply code ty :: u8
  assumes "length A = h"
  defines "ck' \<equiv> icmp_checksum_diff cd (NOT ck) [reply, code, 0, 0] [ty, code, 0, 0]"
  shows "icmp_patch cd (A @ [ty, code] @ [lo8 ck, hi8 ck] @ rest) h reply
    = Some (A @ [reply, code] @ [lo8 ck', hi8 ck'] @ rest)"
proof -
  let ?m = "\<lambda>t c. A @ [t, code] @ [lo8 c, hi8 c] @ rest"
  have l: "load16 (?m ty ck) (h + 2) = Some ck" using load16_le [of "A @ [ty, code]" "h + 2"] assms(1) by simp
  have w: "store16 (?m t ck1) (h + 2) c = Some (?m t c)" for t c ck1
    using store16_le [of "A @ [t, code]" "h + 2"] assms(1) by simp
  have b: "load_bytes (?m t 0) h 4 = Some [t, code, 0, 0]" for t
    using assms(1) by (simp add: load_bytes_def lo8_def hi8_def)
  have t: "store8 (?m ty 0) (h + 0) reply = Some (?m reply 0)"
    using store8_at [of A h ty] assms(1) by simp
  show ?thesis by (simp only: icmp_patch_def l w b t bind.bind_lunit ck'_def)
qed

lemma icmp_checksum_diff_mod:
  fixes cd :: csum_diff and ck :: u16 and reply code ty :: u8
  assumes "csum_diff_ok cd"
  defines "ck' \<equiv> icmp_checksum_diff cd (NOT ck) [reply, code, 0, 0] [ty, code, 0, 0]"
  shows "(unat ck' + unat reply) mod 65535 = (unat ck + unat ty) mod 65535"
proof -
  let ?r = "cd [ty, code, 0, 0] [reply, code, 0, 0] (ucast (NOT ck))"
  have z: "le16 0 0 = 0" by (simp add: le16_def)
  have "(unat ?r + word_sum (words16 [ty, code, 0, 0])) mod 65535
      = (word_sum (words16 [reply, code, 0, 0]) + unat (ucast (NOT ck) :: u32)) mod 65535"
    using assms(1) [unfolded csum_diff_ok_def, rule_format, of "[ty, code, 0, 0]" "[reply, code, 0, 0]"] by simp
  then have "(unat ?r + (unat ty + 256 * unat code)) mod 65535
      = ((unat reply + 256 * unat code) + (65535 - unat ck)) mod 65535"
    by (simp add: unat_le16 z unat_ucast_up unat_not_u16)
  then obtain a where "int (unat ?r + (unat ty + 256 * unat code))
      = int ((unat reply + 256 * unat code) + (65535 - unat ck)) + 65535 * a"
    by (rule int_of_mod_eq)
  then have a: "int (unat ?r) + int (unat ty) = int (unat reply) + (65535 - int (unat ck)) + 65535 * a"
    using unat_u16_less [of ck] by linarith
  have "(unat ck' + unat ?r) mod 65535 = 0"
    unfolding ck'_def icmp_checksum_diff_def by (rule csum_fold_helper_mod)
  then have "(unat ck' + unat ?r) mod 65535 = 0 mod 65535" by (simp only: mod_0)
  then obtain b where b: "int (unat ck' + unat ?r) = int 0 + 65535 * b" by (rule int_of_mod_eq)
  have "int (unat ck' + unat reply) = int (unat ck + unat ty) + 65535 * (b - 1 - a)"
  proof -
    have "x + p = c + t + 65535 * (b - 1 - a)" if "q + t = p + (65535 - c) + 65535 * a" "x + q = 65535 * b"
      for x p c t q :: int
      using that by algebra
    from this [OF a] b show ?thesis by (simp only: of_nat_add of_nat_0 add_0)
  qed
  then show ?thesis by (rule mod_eq_via_int)
qed

text \<open>A reply that is zero apart from its checksum is accepted only with the checksum \<open>0xffff\<close>, which the
  folding gives for the difference 0 alone.\<close>

lemma zero_reply_accepted:
  fixes ck :: u16
  assumes "ck = csum_fold_helper d" and "word_sum (words16 tail) = 0"
  shows "inet_accepts (words16 ([0, 0] @ [lo8 ck, hi8 ck] @ tail)) \<longleftrightarrow> d = 0"
proof -
  have "word_sum (words16 ([0, 0] @ [lo8 ck, hi8 ck] @ tail)) = unat ck"
    using assms(2) by (simp add: unat_le16)
  moreover have "unat ck mod 65535 = 0 \<and> unat ck \<noteq> 0 \<longleftrightarrow> ck = 0xffff"
    using unat_u16_less [of ck] by (auto simp: word_unat_eq_iff mod_if split: if_splits)
  ultimately show ?thesis
    using csum_fold_helper_ones [of d] assms(1) by (simp add: inet_accepts_iff)
qed

lemma echo_tx_eq:
  assumes "stats_map_ok st" and "length dm = 6" and "length sm = 6" and "length A = h" and "h + 12 = i"
  shows "\<exists>st'. echo_tx cd ctx st (dm @ sm @ A @ [ty, code] @ [lo8 ck, hi8 ck] @ rest) (Some 0) (Some i) reply
    = Some (XDP_TX, ctx\<lparr>pkt := sm @ dm @ A @ [reply, code]
        @ [lo8 (icmp_checksum_diff cd (NOT ck) [reply, code, 0, 0] [ty, code, 0, 0]),
           hi8 (icmp_checksum_diff cd (NOT ck) [reply, code, 0, 0] [ty, code, 0, 0])] @ rest\<rparr>, st')"
proof -
  let ?i = "[ty, code] @ [lo8 ck, hi8 ck] @ rest"
  have "swap_mac_p03 (dm @ sm @ A @ ?i) 0 = Some (sm @ dm @ A @ ?i)"
    using swap_mem_append [OF assms(2,3), of 0 "[]" 6 "[]" "A @ ?i"] assms(2,3)
    by (simp add: swap_mac_p03_def load_bytes_def store_bytes_def)
  moreover note icmp_patch_eq [of "sm @ dm @ A" i cd ty code ck rest reply]
  ultimately show ?thesis
    using assms record_action_returns [OF assms(1)] by (simp add: echo_tx_def finish_def split_beta)
qed

subsection \<open>Properties\<close>

text \<open>C36. The router forwards an IPv4 packet correctly: when the lookup of its header succeeds, the MAC
  addresses are those of the answer, the time to live is one less, nothing but the header checksum
  changes otherwise, and a receiver accepts the new header (of any length from 12 bytes on) exactly if
  it would have accepted the old one.\<close>

theorem router_forwards_ipv4:
  assumes "stats_map_ok st" and "redirect_ok redir" and "length dm = 6" and "length sm = 6" and "length a8 = 8"
    and "1 < unat ttl" and "8 \<le> length rest" and "length (dmac q) = 6" and "length (smac q) = 6"
    and "pkt ctx = dm @ sm @ be16 ETH_P_IP @ a8 @ [ttl, proto] @ [lo8 ck, hi8 ck] @ rest"
    and "router_ipv4 (pkt ctx) 14 = Some (Inr req)" and "fib (req\<lparr>fib_ifindex := ingress_ifindex ctx\<rparr>) = (0, q)"
  shows "\<exists>ck' st'. xdp_router_func fib redir ctx st = Some (redir (fib_ifindex q),
      ctx\<lparr>pkt := dmac q @ smac q @ be16 ETH_P_IP @ a8 @ [ttl - 1, proto] @ [lo8 ck', hi8 ck'] @ rest\<rparr>, st')
    \<and> (\<forall>n \<ge> 12. inet_accepts (words16 (take n (a8 @ [ttl - 1, proto] @ [lo8 ck', hi8 ck'] @ rest)))
        \<longleftrightarrow> inet_accepts (words16 (take n (a8 @ [ttl, proto] @ [lo8 ck, hi8 ck] @ rest))))"
proof -
  let ?e = "be16 ETH_P_IP" and ?ck = "ttl_check ck"
  let ?ip = "a8 @ [ttl - 1, proto] @ [lo8 ?ck, hi8 ?ck] @ rest"
  have h: "load16 (pkt ctx) 12 = Some (bpf_htons ETH_P_IP)"
    using load16_at [of "dm @ sm" 12] assms(3,4,10) by simp
  have t: "ip_decrease_ttl (pkt ctx) 14 = Some (uint (ttl - 1), dm @ sm @ ?e @ ?ip)"
    using ip_decrease_ttl_eq [of "dm @ sm @ ?e" 14 a8 ttl proto ck rest] assms(3-5,10) by simp
  have s1: "store_bytes (dm @ sm @ ?e @ ?ip) 0 (dmac q) = Some (dmac q @ sm @ ?e @ ?ip)"
    using assms(3,8) by (simp add: store_bytes_def)
  have s2: "store_bytes (dmac q @ sm @ ?e @ ?ip) 6 (smac q) = Some (dmac q @ smac q @ ?e @ ?ip)"
    using assms(4,8,9) by (simp add: store_bytes_def)
  have fwd: "router_forward redir ctx st (bpf_htons ETH_P_IP) 14 q
      = finish st (ctx\<lparr>pkt := dmac q @ smac q @ ?e @ ?ip\<rparr>) (redir (fib_ifindex q))"
    by (simp only: router_forward_def Let_def t option.map snd_conv bind.bind_lunit add_0 s1 s2 if_True simp_thms)
  have "xdp_router_func fib redir ctx st = router_forward redir ctx st (bpf_htons ETH_P_IP) 14 q"
    using h assms(3-5,7,10-12) by (simp add: xdp_router_func_def)
  moreover have "redir (fib_ifindex q) < XDP_ACTION_MAX"
    using assms(2) by (auto simp: redirect_ok_def dest: spec [of _ "fib_ifindex q"])
  ultimately have "\<exists>st'. xdp_router_func fib redir ctx st
      = Some (redir (fib_ifindex q), ctx\<lparr>pkt := dmac q @ smac q @ ?e @ ?ip\<rparr>, st')"
    using record_action_returns [OF assms(1)] by (simp only: fwd finish_def split_beta Let_def) simp
  with ttl_header_accepted [OF assms(5) _ assms(6)] show ?thesis by blast
qed

definition fib_fixed :: "bpf_fib_lookup \<Rightarrow> int \<times> bpf_fib_lookup" where
  "fib_fixed req = (0, req\<lparr>fib_ifindex := 3, smac := replicate 6 0xaa, dmac := replicate 6 0xbb\<rparr>)"

definition sample_ipv4 :: xdp_md where
  "sample_ipv4 = \<lparr>pkt = replicate 6 1 @ replicate 6 2 @ be16 ETH_P_IP @ (0x45 # replicate 7 0) @ [64, 1]
     @ [lo8 0x1234, hi8 0x1234] @ replicate 8 9, ingress_ifindex = 1, rx_queue_index = 0\<rparr>"

theorem router_forwards_ipv4_witness:
  "\<exists>ck' st'. xdp_router_func fib_fixed (\<lambda>_. XDP_REDIRECT) sample_ipv4 zero_map = Some (XDP_REDIRECT,
      sample_ipv4\<lparr>pkt := replicate 6 0xbb @ replicate 6 0xaa @ be16 ETH_P_IP @ (0x45 # replicate 7 0) @ [64 - 1, 1]
        @ [lo8 ck', hi8 ck'] @ replicate 8 9\<rparr>, st')"
proof -
  obtain req where req: "router_ipv4 (pkt sample_ipv4) 14 = Some (Inr req)"
    using router_ipv4_request [of 14 "pkt sample_ipv4"] by (auto simp: sample_ipv4_def be16_def nth_append)
  define q where "q = req\<lparr>fib_ifindex := 3, smac := replicate 6 0xaa, dmac := replicate 6 0xbb\<rparr>"
  have f: "fib_fixed (req\<lparr>fib_ifindex := ingress_ifindex sample_ipv4\<rparr>) = (0, q)" by (simp add: fib_fixed_def q_def)
  have p: "pkt sample_ipv4 = replicate 6 1 @ replicate 6 2 @ be16 ETH_P_IP @ (0x45 # replicate 7 0) @ [64, 1]
     @ [lo8 0x1234, hi8 0x1234] @ replicate 8 9" by (simp add: sample_ipv4_def)
  have "redirect_ok (\<lambda>_. XDP_REDIRECT)" by (simp add: redirect_ok_def)
  from router_forwards_ipv4 [of zero_map "\<lambda>_. XDP_REDIRECT" "replicate 6 1" "replicate 6 2" "0x45 # replicate 7 0" 64
      "replicate 8 9" q sample_ipv4 1 "0x1234" req fib_fixed, OF zero_map_ok this _ _ _ _ _ _ _ p req f]
  show ?thesis by (auto simp: q_def)
qed

text \<open>The router never forwards a packet whose time to live is used up: it reaches the local stack
  unchanged (so that the stack can answer) and neither the routing table is consulted nor a redirect
  requested.\<close>

theorem router_ttl_expired:
  assumes "stats_map_ok st" and "34 \<le> length (pkt ctx)" and "load16 (pkt ctx) 12 = Some (bpf_htons ETH_P_IP)"
    and "unat (pkt ctx ! 22) \<le> 1"
  shows "xdp_router_func fib redir ctx st = Some (XDP_PASS, ctx, snd (xdp_stats_record_action st ctx XDP_PASS))"
proof -
  have "pkt ctx ! 22 \<le> 1" using assms(4) by (simp add: word_le_nat_alt)
  then have "xdp_router_func fib redir ctx st = finish st ctx XDP_PASS"
    using assms(2,3) by (simp add: xdp_router_func_def router_ipv4_def load8_def)
  then show ?thesis using record_action_returns [OF assms(1), of ctx XDP_PASS] by (simp add: finish_def split_beta)
qed

theorem router_ttl_expired_witness:
  "xdp_router_func fib_fixed (\<lambda>_. XDP_REDIRECT)
     (sample_ipv4\<lparr>pkt := (pkt sample_ipv4)[22 := 1]\<rparr>) zero_map
   = Some (XDP_PASS, sample_ipv4\<lparr>pkt := (pkt sample_ipv4)[22 := 1]\<rparr>,
       snd (xdp_stats_record_action zero_map (sample_ipv4\<lparr>pkt := (pkt sample_ipv4)[22 := 1]\<rparr>) XDP_PASS))"
  by (rule router_ttl_expired [OF zero_map_ok])
    (simp_all add: sample_ipv4_def load16_def be16_def nth_append list_update_append bpf_htons_def bswap16_def)

text \<open>C37. The XDP echo program answers an IPv4 echo request (with IP options and up to two VLAN tags): MAC and
  IP addresses exchanged, type 0, checksum adjusted, every other byte unchanged, verdict
  \<^verbatim>\<open>XDP_TX\<close>. A receiver accepts the checksum of the reply exactly if it would have accepted
  that of the request, for every message that is not zero apart from type and checksum. For one that is
  (identifier, sequence number and payload all zero) the checksum of the reply is accepted exactly if
  \<^verbatim>\<open>bpf_csum_diff\<close> returns the representation 0 of zero, and not \<open>0xffffffff\<close>.\<close>

theorem icmp_echo_ipv4:
  assumes "csum_diff_ok cd" and "stats_map_ok st" and "length dm = 6" and "length sm = 6" and "length tags \<le> 2"
    and "\<forall>t \<in> set tags. is_vlan_tpid (fst t)" and "length ip = 12" and "length sa = 4" and "length da = 4"
    and "20 + length opts = 4 * unat (ip ! 0 AND 0x0f)" and "ip ! 9 = 1"
    and "pkt ctx = eth_frame (dm @ sm) tags ETH_P_IP (ip @ sa @ da @ opts @ [8, code] @ [lo8 ck, hi8 ck] @ rest)"
  shows "\<exists>ck' st'. xdp_icmp_echo_func cd ctx st = Some (XDP_TX,
      ctx\<lparr>pkt := eth_frame (sm @ dm) tags ETH_P_IP (ip @ da @ sa @ opts @ [0, code] @ [lo8 ck', hi8 ck'] @ rest)\<rparr>, st')
    \<and> (\<forall>n. unat code + word_sum (words16 (take n rest)) \<noteq> 0 \<longrightarrow>
         inet_accepts (words16 ([0, code] @ [lo8 ck', hi8 ck'] @ take n rest))
           \<longleftrightarrow> inet_accepts (words16 ([8, code] @ [lo8 ck, hi8 ck] @ take n rest)))
    \<and> (\<forall>n. unat code + word_sum (words16 (take n rest)) = 0 \<longrightarrow>
         inet_accepts (words16 ([0, code] @ [lo8 ck', hi8 ck'] @ take n rest))
           \<longleftrightarrow> cd [8, 0, 0, 0] [0, 0, 0, 0] (ucast (NOT ck)) = 0)"
proof -
  define g where "g = concat (map enc_tag tags) @ be16 ETH_P_IP"
  have lg: "length g = 2 + 4 * length tags"
    unfolding g_def by (induction tags) (simp_all add: enc_tag_def)
  have fr: "eth_frame macs tags ETH_P_IP pl = macs @ g @ pl" for macs pl by (simp add: eth_frame_def g_def)
  define n where "n = 14 + 4 * length tags"
  let ?ip = "ip @ sa @ da @ opts" and ?i = "[8, code] @ [lo8 ck, hi8 ck] @ rest"
  define p where "p = dm @ sm @ g @ ?ip @ ?i"
  have p: "pkt ctx = p" by (simp add: assms(12) fr p_def)
  have e: "parse_ethhdr p (length p) \<lparr>pos = 0\<rparr> = Some (uint (bpf_htons ETH_P_IP), \<lparr>pos = n\<rparr>, Some 0)"
    unfolding n_def using assms(3,4)
    by (intro parse_ethhdr_of_frame [OF _ assms(5,6) not_vlan_ip(1), of "dm @ sm"]) (simp_all add: p_def fr)
  have "parse_iphdr ((dm @ sm @ g) @ ?ip @ ?i) (length ((dm @ sm @ g) @ ?ip @ ?i)) \<lparr>pos = n\<rparr>
      = Some (uint (?ip ! 9), \<lparr>pos = n + length ?ip\<rparr>, Some n)"
    using assms(3,4,7-10) lg by (intro parse_iphdr_at) (simp_all add: n_def nth_append)
  moreover have "uint (?ip ! 9) = 1" using assms(7,11) by (simp add: nth_append)
  ultimately have i: "parse_iphdr p (length p) \<lparr>pos = n\<rparr> = Some (1, \<lparr>pos = n + length ?ip\<rparr>, Some n)"
    by (simp add: p_def)
  let ?h = "n + length ?ip"
  have h: "load8 p ?h = Some 8"
    using load8_at [of "dm @ sm @ g @ ?ip" ?h 8] assms(3,4) lg by (simp add: p_def n_def)
  have c: "parse_icmphdr_common p (length p) \<lparr>pos = ?h\<rparr> = Some (8, \<lparr>pos = ?h + 4\<rparr>, Some ?h)"
    using h assms(3,4) lg by (simp add: parse_icmphdr_common_def Let_def) (simp add: p_def n_def)
  have sw: "swap_ipv4_p03 p n = Some (dm @ sm @ g @ ip @ da @ sa @ opts @ ?i)"
    unfolding swap_p03_eq swap_src_dst_ipv4_def p_def
    using swap_mem_append [OF assms(8,9), of "n + 12" "dm @ sm @ g @ ip" "n + 16" "[]" "opts @ ?i"] assms(3,4,7) lg
    by (simp add: n_def)
  let ?ck = "icmp_checksum_diff cd (NOT ck) [0, code, 0, 0] [8, code, 0, 0]"
  obtain st' where tx: "echo_tx cd ctx st (dm @ sm @ (g @ ip @ da @ sa @ opts) @ ?i) (Some 0) (Some ?h) 0
      = Some (XDP_TX, ctx\<lparr>pkt := sm @ dm @ (g @ ip @ da @ sa @ opts) @ [0, code] @ [lo8 ?ck, hi8 ?ck] @ rest\<rparr>, st')"
    using echo_tx_eq [OF assms(2-4), of "g @ ip @ da @ sa @ opts" _ ?h cd ctx 8 code ck rest 0] lg assms(7-9)
    by (fastforce simp: n_def)
  have 1: "xdp_icmp_echo_func cd ctx st = Some (XDP_TX,
      ctx\<lparr>pkt := eth_frame (sm @ dm) tags ETH_P_IP (ip @ da @ sa @ opts @ [0, code] @ [lo8 ?ck, hi8 ?ck] @ rest)\<rparr>, st')"
    using e i c sw tx by (simp add: xdp_icmp_echo_func_def p fr)
  have 2: "inet_accepts (words16 ([0, code] @ [lo8 ?ck, hi8 ?ck] @ take k rest))
      \<longleftrightarrow> inet_accepts (words16 ([8, code] @ [lo8 ck, hi8 ck] @ take k rest))"
    if "unat code + word_sum (words16 (take k rest)) \<noteq> 0" for k
  proof (rule inet_accepts_cong)
    let ?w = "256 * unat code + word_sum (words16 (take k rest))"
    have s: "word_sum (words16 ([t, code] @ [lo8 c, hi8 c] @ take k rest)) = ?w + (unat c + unat t)" for t c
      by (simp add: unat_le16)
    have "(?w + (unat ?ck + unat (0 :: u8))) mod 65535 = (?w + (unat ck + unat (8 :: u8))) mod 65535"
      by (rule mod_add_cong [OF refl icmp_checksum_diff_mod [OF assms(1)]])
    then show "word_sum (words16 ([0, code] @ [lo8 ?ck, hi8 ?ck] @ take k rest)) mod 65535
        = word_sum (words16 ([8, code] @ [lo8 ck, hi8 ck] @ take k rest)) mod 65535"
      by (simp only: s)
    show "word_sum (words16 ([0, code] @ [lo8 ?ck, hi8 ?ck] @ take k rest)) \<noteq> 0" using that unfolding s by auto
    show "word_sum (words16 ([8, code] @ [lo8 ck, hi8 ck] @ take k rest)) \<noteq> 0" unfolding s by simp
  qed
  have 3: "inet_accepts (words16 ([0, code] @ [lo8 ?ck, hi8 ?ck] @ take k rest))
      \<longleftrightarrow> cd [8, 0, 0, 0] [0, 0, 0, 0] (ucast (NOT ck)) = 0"
    if "unat code + word_sum (words16 (take k rest)) = 0" for k
  proof -
    have "code = 0" "word_sum (words16 (take k rest)) = 0" using that by (auto simp: unat_eq_0)
    then show ?thesis by (simp only: zero_reply_accepted [OF icmp_checksum_diff_def])
  qed
  from 1 2 3 show ?thesis by blast
qed

text \<open>A concrete helper with the documented behaviour.\<close>

definition csum_diff_ref :: csum_diff where
  "csum_diff_ref old new seed
     = of_nat ((word_sum (words16 new) + unat seed + 65534 * word_sum (words16 old)) mod 65535)"

lemma csum_diff_ref_ok: "csum_diff_ok csum_diff_ref"
  unfolding csum_diff_ok_def
proof (intro allI impI)
  fix old new :: bytes and seed :: u32
  let ?x = "word_sum (words16 new) + unat seed + 65534 * word_sum (words16 old)"
  have "?x mod 65535 < 2 ^ 32" by (rule less_trans [of _ 65535]) simp_all
  then have u: "unat (csum_diff_ref old new seed) = ?x mod 65535" unfolding csum_diff_ref_def by (intro unat_of_nat_eq) simp
  have "(?x mod 65535 + word_sum (words16 old)) mod 65535
      = (word_sum (words16 new) + unat seed + 65535 * word_sum (words16 old)) mod 65535"
  proof -
    have "?x + word_sum (words16 old) = word_sum (words16 new) + unat seed + 65535 * word_sum (words16 old)" by simp
    then show ?thesis by (simp only: mod_add_left_eq)
  qed
  then show "(unat (csum_diff_ref old new seed) + word_sum (words16 old)) mod 65535
      = (word_sum (words16 new) + unat seed) mod 65535" by (simp add: u)
qed

definition ping_ipv4 :: xdp_md where
  "ping_ipv4 = \<lparr>pkt = eth_frame (replicate 6 1 @ replicate 6 2) [] ETH_P_IP ((0x45 # replicate 8 0 @ [1, 0, 0])
     @ replicate 4 3 @ replicate 4 4 @ [] @ [8, 0] @ [lo8 0x1234, hi8 0x1234] @ [7, 7]), ingress_ifindex = 1, rx_queue_index = 0\<rparr>"

theorem icmp_echo_ipv4_witness:
  "\<exists>ck' st'. xdp_icmp_echo_func csum_diff_ref ping_ipv4 zero_map = Some (XDP_TX,
      ping_ipv4\<lparr>pkt := eth_frame (replicate 6 2 @ replicate 6 1) [] ETH_P_IP ((0x45 # replicate 8 0 @ [1, 0, 0])
        @ replicate 4 4 @ replicate 4 3 @ [] @ [0, 0] @ [lo8 ck', hi8 ck'] @ [7, 7])\<rparr>, st')
    \<and> (inet_accepts (words16 ([0, 0] @ [lo8 ck', hi8 ck'] @ [7, 7]))
        \<longleftrightarrow> inet_accepts (words16 ([8, 0] @ [lo8 0x1234, hi8 0x1234] @ [7, 7])))"
proof -
  obtain ck' st' where "xdp_icmp_echo_func csum_diff_ref ping_ipv4 zero_map = Some (XDP_TX,
      ping_ipv4\<lparr>pkt := eth_frame (replicate 6 2 @ replicate 6 1) [] ETH_P_IP ((0x45 # replicate 8 0 @ [1, 0, 0])
        @ replicate 4 4 @ replicate 4 3 @ [] @ [0, 0] @ [lo8 ck', hi8 ck'] @ [7, 7])\<rparr>, st')"
    and a: "\<forall>n. unat (0 :: u8) + word_sum (words16 (take n [7, 7])) \<noteq> 0 \<longrightarrow>
         inet_accepts (words16 ([0, 0] @ [lo8 ck', hi8 ck'] @ take n [7, 7]))
           \<longleftrightarrow> inet_accepts (words16 ([8, 0] @ [lo8 0x1234, hi8 0x1234] @ take n [7, 7]))"
    using icmp_echo_ipv4 [OF csum_diff_ref_ok zero_map_ok, of "replicate 6 1" "replicate 6 2" "[]" "0x45 # replicate 8 0 @ [1, 0, 0]"
        "replicate 4 3" "replicate 4 4" "[]" ping_ipv4 0 "0x1234" "[7, 7]"]
    by (auto simp: ping_ipv4_def nth_append)
  moreover from a [rule_format, of 2] have "inet_accepts (words16 ([0, 0] @ [lo8 ck', hi8 ck'] @ [7, 7]))
           \<longleftrightarrow> inet_accepts (words16 ([8, 0] @ [lo8 0x1234, hi8 0x1234] @ [7, 7]))"
    by (simp add: unat_le16)
  ultimately show ?thesis by blast
qed

text \<open>The kernel's \<^verbatim>\<open>bpf_csum_diff\<close> adds the complement of the old word, the new word and the seed with
  end-around carry and reaches \<open>0xffffffff\<close> here: the valid request with identifier, sequence number and
  payload 0 is answered with an all-zero message, which no receiver accepts.\<close>

lemma zero_ping_rejected:
  assumes "cd [8, 0, 0, 0] [0, 0, 0, 0] 8 = 0xffffffff"
  shows "icmp_patch cd [8, 0, 0xf7, 0xff, 0, 0, 0, 0] 0 0 = Some [0, 0, 0, 0, 0, 0, 0, 0] \<and>
    inet_accepts (words16 [8, 0, 0xf7, 0xff, 0, 0, 0, 0]) \<and> \<not> inet_accepts (words16 [0, 0, 0, 0, 0, 0, 0, 0])"
proof (intro conjI)
  have "icmp_checksum_diff cd (NOT 0xfff7) [0, 0, 0, 0] [8, 0, 0, 0] = 0"
    by (simp add: icmp_checksum_diff_def csum_fold_helper_def Let_def assms)
  moreover have "lo8 0xfff7 = 0xf7" "hi8 0xfff7 = 0xff" "lo8 0 = 0" "hi8 0 = 0" by (simp_all add: lo8_def hi8_def)
  moreover note icmp_patch_eq [of "[]" 0 cd 8 0 "0xfff7" "[0, 0, 0, 0]" 0]
  ultimately show "icmp_patch cd [8, 0, 0xf7, 0xff, 0, 0, 0, 0] 0 0 = Some [0, 0, 0, 0, 0, 0, 0, 0]"
    by simp
  show "inet_accepts (words16 [8, 0, 0xf7, 0xff, 0, 0, 0, 0])"
    by (simp add: inet_accepts_def csum16_add_def le16_def)
  show "\<not> inet_accepts (words16 [0, 0, 0, 0, 0, 0, 0, 0])"
    by (simp add: inet_accepts_def csum16_add_def le16_def)
qed

end
