(* ===== verification/XskProg.thy ===== *)
theory XskProg
  imports XdpStats
begin

text \<open>
  The XDP programs that steer packets to AF\_XDP sockets: the one libbpf generates as bytecode
  (\<^verbatim>\<open>xsk_load_xdp_prog\<close> in \<^verbatim>\<open>libbpf/src/xsk.c\<close>), executed here by an interpreter for
  the instructions it uses and compared with the C program in its comment; the program of the switch
  (\<^verbatim>\<open>switchtsn/af_xdp_kern_david.c\<close>); and the two of the Go variant
  (\<^verbatim>\<open>go-approach\<close>).

  The helpers are parameters: \<open>redirect_map index flags\<close> is the value \<^verbatim>\<open>bpf_redirect_map\<close>
  leaves in \<^verbatim>\<open>r0\<close> for the socket map, \<open>lookup index\<close> whether that map has an entry.
\<close>

subsection \<open>Bytecode\<close>

text \<open>What a register holds. Helpers leave \<^verbatim>\<open>r1\<close> to \<^verbatim>\<open>r5\<close> undefined.\<close>

datatype bval = Num u64 | Ctx | Frame int | Map_ref | Elem | Undef

datatype insn =
    LDX_W nat nat int
  | STX_W nat nat int
  | LD_MAP_FD nat
  | LD_MAP_HI
  | MOV64_IMM nat int
  | MOV64_REG nat nat
  | ADD64_IMM nat int
  | CALL_redirect_map
  | CALL_map_lookup_elem
  | JMP32_JSGT nat int nat
  | JMP_JEQ nat int nat
  | EXIT

record bpf_state =
  pc :: nat
  reg :: "nat \<Rightarrow> bval"
  stack4 :: "u32 option"

text \<open>\<^verbatim>\<open>prog[]\<close>; \<^verbatim>\<open>BPF_LD_MAP_FD\<close> occupies two instruction slots.\<close>

definition xsk_prog :: "insn list" where
  "xsk_prog =
     [LDX_W 2 1 16,
      STX_W 10 2 (-4),
      LD_MAP_FD 1, LD_MAP_HI,
      MOV64_IMM 3 2,
      CALL_redirect_map,
      JMP32_JSGT 0 0 13,
      MOV64_REG 2 10,
      ADD64_IMM 2 (-4),
      LD_MAP_FD 1, LD_MAP_HI,
      CALL_map_lookup_elem,
      MOV64_REG 1 0,
      MOV64_IMM 0 2,
      JMP_JEQ 1 0 5,
      LDX_W 2 10 (-4),
      LD_MAP_FD 1, LD_MAP_HI,
      MOV64_IMM 3 0,
      CALL_redirect_map,
      EXIT]"

definition clobber :: "(nat \<Rightarrow> bval) \<Rightarrow> bval \<Rightarrow> nat \<Rightarrow> bval" where
  "clobber r v = (\<lambda>i. if i = 0 then v else if i \<le> 5 then Undef else r i)"

text \<open>One instruction. The only memory of the program is the \<^verbatim>\<open>rx_queue_index\<close> field of the
  context (offset 16) and one stack word at \<^verbatim>\<open>r10 - 4\<close>; any other access, and any use of a value
  of the wrong kind, is \<^term>\<open>None\<close>.\<close>

fun bpf_step :: "(u32 \<Rightarrow> u64 \<Rightarrow> u64) \<Rightarrow> (u32 \<Rightarrow> bool) \<Rightarrow> xdp_md \<Rightarrow> insn \<Rightarrow> bpf_state \<Rightarrow> bpf_state option" where
  "bpf_step rm lk ctx (LDX_W d s off) st =
     (case reg st s of
        Ctx \<Rightarrow> if off = 16 then Some (st\<lparr>pc := pc st + 1, reg := (reg st)(d := Num (ucast (rx_queue_index ctx)))\<rparr>) else None
      | Frame fo \<Rightarrow> if fo + off = -4
                   then map_option (\<lambda>w. st\<lparr>pc := pc st + 1, reg := (reg st)(d := Num (ucast w))\<rparr>) (stack4 st) else None
      | _ \<Rightarrow> None)"
| "bpf_step rm lk ctx (STX_W d s off) st =
     (case (reg st d, reg st s) of
        (Frame fo, Num w) \<Rightarrow> if fo + off = -4 then Some (st\<lparr>pc := pc st + 1, stack4 := Some (ucast w)\<rparr>) else None
      | _ \<Rightarrow> None)"
| "bpf_step rm lk ctx (LD_MAP_FD d) st = Some (st\<lparr>pc := pc st + 2, reg := (reg st)(d := Map_ref)\<rparr>)"
| "bpf_step rm lk ctx LD_MAP_HI st = None"
| "bpf_step rm lk ctx (MOV64_IMM d i) st = Some (st\<lparr>pc := pc st + 1, reg := (reg st)(d := Num (word_of_int i))\<rparr>)"
| "bpf_step rm lk ctx (MOV64_REG d s) st = Some (st\<lparr>pc := pc st + 1, reg := (reg st)(d := reg st s)\<rparr>)"
| "bpf_step rm lk ctx (ADD64_IMM d i) st =
     (case reg st d of
        Num w \<Rightarrow> Some (st\<lparr>pc := pc st + 1, reg := (reg st)(d := Num (w + word_of_int i))\<rparr>)
      | Frame fo \<Rightarrow> Some (st\<lparr>pc := pc st + 1, reg := (reg st)(d := Frame (fo + i))\<rparr>)
      | _ \<Rightarrow> None)"
| "bpf_step rm lk ctx CALL_redirect_map st =
     (case (reg st 1, reg st 2, reg st 3) of
        (Map_ref, Num k, Num f) \<Rightarrow> Some (st\<lparr>pc := pc st + 1, reg := clobber (reg st) (Num (rm (ucast k) f))\<rparr>)
      | _ \<Rightarrow> None)"
| "bpf_step rm lk ctx CALL_map_lookup_elem st =
     (case (reg st 1, reg st 2, stack4 st) of
        (Map_ref, Frame fo, Some k) \<Rightarrow>
          if fo = -4 then Some (st\<lparr>pc := pc st + 1, reg := clobber (reg st) (if lk k then Elem else Num 0)\<rparr>) else None
      | _ \<Rightarrow> None)"
| "bpf_step rm lk ctx (JMP32_JSGT d i off) st =
     (case reg st d of
        Num w \<Rightarrow> Some (st\<lparr>pc := pc st + 1 + (if sint (ucast w :: u32) > i then off else 0)\<rparr>)
      | _ \<Rightarrow> None)"
| "bpf_step rm lk ctx (JMP_JEQ d i off) st =
     (case reg st d of
        Num w \<Rightarrow> Some (st\<lparr>pc := pc st + 1 + (if w = word_of_int i then off else 0)\<rparr>)
      | Elem \<Rightarrow> if i = 0 then Some (st\<lparr>pc := pc st + 1\<rparr>) else None
      | _ \<Rightarrow> None)"
| "bpf_step rm lk ctx EXIT st = None"

text \<open>Running with fuel: the result is the low half of \<^verbatim>\<open>r0\<close> at \<^verbatim>\<open>BPF_EXIT_INSN\<close>.\<close>

fun bpf_run :: "nat \<Rightarrow> (u32 \<Rightarrow> u64 \<Rightarrow> u64) \<Rightarrow> (u32 \<Rightarrow> bool) \<Rightarrow> xdp_md \<Rightarrow> insn list \<Rightarrow> bpf_state \<Rightarrow> u32 option" where
  "bpf_run 0 rm lk ctx prog st = None"
| "bpf_run (Suc n) rm lk ctx prog st =
     (if pc st < length prog
      then
        if prog ! pc st = EXIT then (case reg st 0 of Num w \<Rightarrow> Some (ucast w) | _ \<Rightarrow> None)
        else bpf_step rm lk ctx (prog ! pc st) st \<bind> bpf_run n rm lk ctx prog
      else None)"

definition bpf_start :: bpf_state where
  "bpf_start = \<lparr>pc = 0, reg = (\<lambda>i. if i = 1 then Ctx else if i = 10 then Frame 0 else Undef), stack4 = None\<rparr>"

text \<open>The C program in the comment of \<^verbatim>\<open>xsk_load_xdp_prog\<close>.\<close>

definition xdp_sock_prog_c :: "(u32 \<Rightarrow> u64 \<Rightarrow> u64) \<Rightarrow> (u32 \<Rightarrow> bool) \<Rightarrow> xdp_md \<Rightarrow> u32" where
  "xdp_sock_prog_c rm lk ctx =
     (let index = rx_queue_index ctx; ret = (ucast (rm index 2) :: u32) in
      if sint ret > 0 then ret
      else if lk index then ucast (rm index 0)
      else XDP_PASS)"

subsection \<open>The programs of the switch\<close>

text \<open>Here \<^verbatim>\<open>xdp_stats_map\<close> holds one 32-bit packet counter per queue.\<close>

definition xdp_sock_prog :: "(u32 \<Rightarrow> u32) \<Rightarrow> (u32 \<Rightarrow> u32) \<Rightarrow> (u32 \<Rightarrow> bool) \<Rightarrow> xdp_md \<Rightarrow> (u32 \<rightharpoonup> u32) \<Rightarrow> u32 \<times> (u32 \<rightharpoonup> u32)" where
  "xdp_sock_prog bpf_redirect redirect_xsk lookup ctx counts =
     (let index = rx_queue_index ctx;
          tail = (if lookup index then redirect_xsk index else XDP_PASS)
      in
      case counts index of
        Some pkt_count \<Rightarrow>
          let counts = counts(index \<mapsto> pkt_count + 1) in
          if pkt_count AND 1 \<noteq> 0 then (bpf_redirect 9, counts) else (tail, counts)
      | None \<Rightarrow> (tail, counts))"

definition xdp_redirect_go :: "(u32 \<Rightarrow> u32) \<Rightarrow> (u32 \<rightharpoonup> u32) \<Rightarrow> xdp_md \<Rightarrow> u32" where
  "xdp_redirect_go redirect_xsk qidconf_map ctx =
     (let index = rx_queue_index ctx in
      case qidconf_map index of Some qidconf \<Rightarrow> redirect_xsk index | None \<Rightarrow> XDP_DROP)"

text \<open>The protocol filter; \<open>PROTO\<close> is the constant the loader may overwrite (default ICMP). The
  EtherType is read before the length of the packet is checked.\<close>

definition xdp_filter_go :: "u8 \<Rightarrow> (u32 \<Rightarrow> u32) \<Rightarrow> (u32 \<rightharpoonup> u32) \<Rightarrow> xdp_md \<Rightarrow> u32 option" where
  "xdp_filter_go PROTO redirect_xsk qidconf_map ctx =
     (let index = rx_queue_index ctx in
      case qidconf_map index of
        None \<Rightarrow> Some XDP_PASS
      | Some qidconf \<Rightarrow> do {
          let p = pkt ctx;
          let data_end = length p;
          let eth = 0;
          h_proto \<leftarrow> load16 p (eth + eth_h_proto);
          if eth + sizeof_ethhdr \<le> data_end
          then
            if bpf_htons h_proto = ETH_P_IP
            then
              let ip = sizeof_ethhdr in
              if ip + sizeof_iphdr \<le> data_end
              then do {
                protocol \<leftarrow> load8 p (ip + ip_protocol);
                Some (if protocol = PROTO \<and> qidconf \<noteq> 0 then redirect_xsk index else XDP_PASS)
              }
              else Some XDP_PASS
            else if bpf_htons h_proto = ETH_P_IPV6
            then
              let ip = sizeof_ethhdr in
              if ip + sizeof_ipv6hdr \<le> data_end
              then do {
                nexthdr \<leftarrow> load8 p (ip + ip6_nexthdr);
                Some (if nexthdr = PROTO \<and> qidconf \<noteq> 0 then redirect_xsk index else XDP_PASS)
              }
              else Some XDP_PASS
            else Some XDP_PASS
          else Some XDP_PASS
        })"

subsection \<open>Properties\<close>

text \<open>C38. The hand-assembled bytecode of libbpf computes what the C program in its comment computes,
  whatever the helpers return: jump offsets, register use and stack slot are right, and it ends within
  18 instructions.\<close>

theorem xsk_prog_implements_c:
  "bpf_run (18 + k) rm lk ctx xsk_prog bpf_start = Some (xdp_sock_prog_c rm lk ctx)"
proof -
  have n: "18 + k = Suc (Suc (Suc (Suc (Suc (Suc (Suc (Suc (Suc (Suc (Suc (Suc (Suc (Suc (Suc (Suc (Suc (Suc k)))))))))))))))))"
    by simp
  show ?thesis
    unfolding n by (simp add: xsk_prog_def bpf_start_def clobber_def xdp_sock_prog_c_def Let_def)
qed

lemma odd_unat: "odd (unat (w :: u32)) \<longleftrightarrow> odd w"
  by (simp add: bit_unsigned_iff flip: bit_0)

lemma and_one_odd: "(w :: u32) AND 1 \<noteq> 0 \<longleftrightarrow> odd w"
  by (simp add: and_one_eq even_iff_mod_2_eq_zero)

text \<open>The verdicts of the switch program on the packets of a queue, one after the other.\<close>

primrec run_sock :: "(u32 \<Rightarrow> u32) \<Rightarrow> (u32 \<Rightarrow> u32) \<Rightarrow> (u32 \<Rightarrow> bool) \<Rightarrow> xdp_md list \<Rightarrow> (u32 \<rightharpoonup> u32) \<Rightarrow> u32 list" where
  "run_sock rd rx lk [] counts = []"
| "run_sock rd rx lk (ctx # ctxs) counts =
     (let (v, counts) = xdp_sock_prog rd rx lk ctx counts in v # run_sock rd rx lk ctxs counts)"

text \<open>The switch program alternates: of the packets of one queue with a counter and a socket, every
  second one is redirected to interface 9 and the others go to the socket, also when the counter
  wraps.\<close>

theorem sock_prog_alternates:
  assumes "\<forall>ctx \<in> set ctxs. rx_queue_index ctx = q" and "counts q = Some c" and "lk q"
  shows "run_sock rd rx lk ctxs counts
    = map (\<lambda>i. if odd (unat c + i) then rd 9 else rx q) [0..<length ctxs]"
  using assms(1,2)
proof (induction ctxs arbitrary: counts c)
  case (Cons ctx ctxs)
  have parity: "c AND 1 \<noteq> 0 \<longleftrightarrow> odd (unat c)" by (simp only: and_one_odd odd_unat)
  have "odd (unat (c + 1)) \<longleftrightarrow> even (unat c)" using odd_unat [of c] odd_unat [of "c + 1"] by simp
  then have nxt: "odd (unat (c + 1) + i) \<longleftrightarrow> odd (unat c + Suc i)" for i by auto
  let ?counts = "counts(q \<mapsto> c + 1)"
  have "run_sock rd rx lk ctxs ?counts = map (\<lambda>i. if odd (unat (c + 1) + i) then rd 9 else rx q) [0..<length ctxs]"
    using Cons.prems by (intro Cons.IH) simp_all
  then have "run_sock rd rx lk ctxs ?counts = map (\<lambda>i. if odd (unat c + Suc i) then rd 9 else rx q) [0..<length ctxs]"
    by (simp only: nxt)
  then show ?case
    using Cons.prems assms(3) parity
    by (simp add: xdp_sock_prog_def Let_def map_upt_Suc del: upt_Suc)
qed simp

theorem sock_prog_alternates_witness:
  "run_sock (\<lambda>i. i) (\<lambda>_. XDP_REDIRECT) (\<lambda>_. True)
     (replicate 3 \<lparr>pkt = [], ingress_ifindex = 1, rx_queue_index = 0\<rparr>) [0 \<mapsto> - 1] = [9, XDP_REDIRECT, 9]"
proof -
  have three: "[0..<3] = [0, 1, 2 :: nat]" by code_simp
  have "unat (- 1 :: u32) = 4294967295" by (simp add: unsigned_minus_1_eq_mask mask_eq_exp_minus_1)
  then show ?thesis
    using sock_prog_alternates [of "replicate 3 \<lparr>pkt = [], ingress_ifindex = 1, rx_queue_index = 0\<rparr>" 0
        "[0 \<mapsto> - 1]" "- 1" "\<lambda>_. True" "\<lambda>i. i" "\<lambda>_. XDP_REDIRECT"]
    by (simp add: three)
qed

text \<open>The protocol filter of the Go variant reads the EtherType before it checks the length: a packet
  of fewer than 14 bytes on a configured queue makes it read outside the packet. On every longer packet
  it is safe.\<close>

theorem filter_reads_before_check:
  assumes "qidconf (rx_queue_index ctx) = Some c"
  shows "xdp_filter_go proto rx qidconf ctx = None \<longleftrightarrow> length (pkt ctx) < 14"
proof (cases "length (pkt ctx) < 14")
  case True
  then have "load16 (pkt ctx) (0 + 12) = None" by simp
  then show ?thesis using True assms by (simp add: xdp_filter_go_def Let_def del: load16_None)
next
  case False
  then obtain h where "load16 (pkt ctx) 12 = Some h" by (simp add: mem_simps)
  with False assms show ?thesis by (simp add: xdp_filter_go_def mem_simps Let_def)
qed

theorem filter_reads_before_check_witness:
  "xdp_filter_go 1 (\<lambda>_. XDP_REDIRECT) [0 \<mapsto> 1] \<lparr>pkt = replicate 13 0, ingress_ifindex = 1, rx_queue_index = 0\<rparr> = None"
  using filter_reads_before_check [of "[0 \<mapsto> 1]" "\<lparr>pkt = replicate 13 0, ingress_ifindex = 1, rx_queue_index = 0\<rparr>" 1] by simp

end
