(* ===== verification/Tools.thy ===== *)
theory Tools
  imports CommonUser
begin

text \<open>
  The command line programs: the loaders of \<^verbatim>\<open>basic01\<close>, \<^verbatim>\<open>basic02\<close> and
  \<^verbatim>\<open>basic04\<close>, the statistics tools of \<^verbatim>\<open>basic03\<close> and \<^verbatim>\<open>basic04\<close>, and the
  redirect configuration tools of \<^verbatim>\<open>packet03\<close> and \<^verbatim>\<open>switchtsn\<close>.

  A main function is a function of the configuration that \<^verbatim>\<open>parse_cmdline_args\<close> produced and of
  its environment; messages are not modelled. \<^term>\<open>None\<close> is undefined behaviour (a NULL string, an
  access outside an array). A loop that runs until the environment stops it takes the list of the
  answers it gets, round by round; when the list is used up it is still running.
\<close>

subsection \<open>Option tables\<close>

abbreviation wrap :: "string \<Rightarrow> bool \<Rightarrow> int \<Rightarrow> string \<Rightarrow> string option \<Rightarrow> bool \<Rightarrow> option_wrapper" where
  "wrap n a v h m r \<equiv> \<lparr>opt_name = Some n, has_arg = a, opt_val = v, help_text = h, metavar = m, required = r\<rparr>"

abbreviation table_end :: option_wrapper where
  "table_end \<equiv> \<lparr>opt_name = None, has_arg = False, opt_val = 0, help_text = [], metavar = None, required = False\<rparr>"

definition long_options_af_xdp :: "option_wrapper list" where
  "long_options_af_xdp =
     [wrap ''help'' False (of_char CHR ''h'') ''Show help'' None False,
      wrap ''dev'' True (of_char CHR ''d'') ''Operate on device <ifname>'' (Some ''<ifname>'') True,
      wrap ''skb-mode'' False (of_char CHR ''S'') ''Install XDP program in SKB (AKA generic) mode'' None False,
      wrap ''native-mode'' False (of_char CHR ''N'') ''Install XDP program in native mode'' None False,
      wrap ''auto-mode'' False (of_char CHR ''A'') ''Auto-detect SKB or native mode'' None False,
      wrap ''force'' False (of_char CHR ''F'') ''Force install, replacing existing program on interface'' None False,
      wrap ''copy'' False (of_char CHR ''c'') ''Force copy mode'' None False,
      wrap ''zero-copy'' False (of_char CHR ''z'') ''Force zero-copy mode'' None False,
      wrap ''queue'' True (of_char CHR ''Q'') ''Configure interface receive queue for AF_XDP, default=0'' None False,
      wrap ''poll-mode'' False (of_char CHR ''p'') ''Use the poll() API waiting for packets to arrive'' None False,
      wrap ''unload'' False (of_char CHR ''U'') ''Unload XDP program instead of loading'' None False,
      wrap ''quiet'' False (of_char CHR ''q'') ''Quiet mode (no output)'' None False,
      wrap ''filename'' True 1 ''Load program from <file>'' (Some ''<file>'') False,
      wrap ''progsec'' True 2 ''Load program in <section> of the ELF file'' (Some ''<section>'') False,
      table_end]"

definition long_options_loader :: "option_wrapper list" where
  "long_options_loader =
     [wrap ''help'' False (of_char CHR ''h'') ''Show help'' None False,
      wrap ''dev'' True (of_char CHR ''d'') ''Operate on device <ifname>'' (Some ''<ifname>'') True,
      wrap ''skb-mode'' False (of_char CHR ''S'') ''Install XDP program in SKB (AKA generic) mode'' None False,
      wrap ''native-mode'' False (of_char CHR ''N'') ''Install XDP program in native mode'' None False,
      wrap ''auto-mode'' False (of_char CHR ''A'') ''Auto-detect SKB or native mode'' None False,
      wrap ''force'' False (of_char CHR ''F'') ''Force install, replacing existing program on interface'' None False,
      wrap ''unload'' False (of_char CHR ''U'') ''Unload XDP program instead of loading'' None False,
      wrap ''reuse-maps'' False (of_char CHR ''M'') ''Reuse pinned maps'' None False,
      wrap ''quiet'' False (of_char CHR ''q'') ''Quiet mode (no output)'' None False,
      wrap ''filename'' True 1 ''Load program from <file>'' (Some ''<file>'') False,
      wrap ''progsec'' True 2 ''Load program in <section> of the ELF file'' (Some ''<section>'') False,
      table_end]"

definition long_options_stats :: "option_wrapper list" where
  "long_options_stats =
     [wrap ''help'' False (of_char CHR ''h'') ''Show help'' None False,
      wrap ''dev'' True (of_char CHR ''d'') ''Operate on device <ifname>'' (Some ''<ifname>'') True,
      wrap ''quiet'' False (of_char CHR ''q'') ''Quiet mode (no output)'' None False,
      table_end]"

definition long_options_redirect :: "option_wrapper list" where
  "long_options_redirect =
     [wrap ''help'' False (of_char CHR ''h'') ''Show help'' None False,
      wrap ''dev'' True (of_char CHR ''d'') ''Operate on device <ifname>'' (Some ''<ifname>'') True,
      wrap ''redirect-dev'' True (of_char CHR ''r'') ''Redirect to device <ifname>'' (Some ''<ifname>'') True,
      wrap ''src-mac'' True (of_char CHR ''L'') ''Source MAC address of <dev>'' (Some ''<mac>'') True,
      wrap ''dest-mac'' True (of_char CHR ''R'') ''Destination MAC address of <redirect-dev>'' (Some ''<mac>'') True,
      wrap ''quiet'' False (of_char CHR ''q'') ''Quiet mode (no output)'' None False,
      table_end]"

subsection \<open>MAC addresses\<close>

text \<open>\<^verbatim>\<open>strtoul(str, 0, 16)\<close> on a buffer: white space, a sign, a prefix, then digits up to the first
  other character. Reading past the end of the buffer is \<^term>\<open>None\<close>.\<close>

definition hexval :: "char \<Rightarrow> nat option" where
  "hexval c =
     (let n = of_char c :: nat in
      if 48 \<le> n \<and> n \<le> 57 then Some (n - 48)
      else if 97 \<le> n \<and> n \<le> 102 then Some (n - 87)
      else if 65 \<le> n \<and> n \<le> 70 then Some (n - 55)
      else None)"

fun hex_digits :: "nat \<Rightarrow> char list \<Rightarrow> nat option" where
  "hex_digits acc [] = None"
| "hex_digits acc (c # cs) =
     (case hexval c of None \<Rightarrow> Some (min acc (2 ^ 64 - 1)) | Some d \<Rightarrow> hex_digits (acc * 16 + d) cs)"

fun hex_prefix :: "char list \<Rightarrow> char list" where
  "hex_prefix (z # x # h # cs) =
     (if z = CHR ''0'' \<and> (x = CHR ''x'' \<or> x = CHR ''X'') \<and> hexval h \<noteq> None then h # cs else z # x # h # cs)"
| "hex_prefix cs = cs"

definition strtoul16 :: "char list \<Rightarrow> u64 option" where
  "strtoul16 str =
     (case dropWhile (\<lambda>c. c \<in> {CHR '' '', CHR 0x09, CHR 0x0A, CHR 0x0B, CHR 0x0C, CHR 0x0D}) str of
        [] \<Rightarrow> None
      | c # cs \<Rightarrow>
          if c = CHR ''-'' then map_option (\<lambda>n. - of_nat n) (hex_digits 0 (hex_prefix cs))
          else if c = CHR ''+'' then map_option of_nat (hex_digits 0 (hex_prefix cs))
          else map_option of_nat (hex_digits 0 (hex_prefix (c # cs))))"

text \<open>The returned status, and the byte written if it is 0.\<close>

definition parse_u8 :: "char list \<Rightarrow> (int \<times> u8 option) option" where
  "parse_u8 str =
     do {
       z \<leftarrow> strtoul16 str;
       if z > 0xff then Some (-1, None) else Some (0, Some (ucast z))
     }"

fun parse_mac_from :: "nat list \<Rightarrow> char list \<Rightarrow> bytes \<Rightarrow> (int \<times> bytes) option" where
  "parse_mac_from [] str mac = Some (0, mac)"
| "parse_mac_from (i # is) str mac =
     do {
       (r, b) \<leftarrow> parse_u8 (drop (3 * i) str);
       (case b of
          None \<Rightarrow> Some (-1, mac)
        | Some v \<Rightarrow> parse_mac_from is str (mac[i := v]))
     }"

definition parse_mac :: "char list \<Rightarrow> bytes \<Rightarrow> (int \<times> bytes) option" where
  "parse_mac str mac = parse_mac_from [0, 1, 2, 3, 4, 5] str mac"

text \<open>\<^verbatim>\<open>"%02x"\<close> and the line \<^verbatim>\<open>write_iface_params\<close> prints.\<close>

definition hex_char :: "nat \<Rightarrow> char" where
  "hex_char n = char_of (if n < 10 then 48 + n else 87 + n)"

definition hex2 :: "u8 \<Rightarrow> string" where
  "hex2 b = [hex_char (unat b div 16), hex_char (unat b mod 16)]"

definition mac_string :: "bytes \<Rightarrow> string" where
  "mac_string m = hex2 (m ! 0) @ '':'' @ hex2 (m ! 1) @ '':'' @ hex2 (m ! 2) @ '':'' @ hex2 (m ! 3)
     @ '':'' @ hex2 (m ! 4) @ '':'' @ hex2 (m ! 5)"

text \<open>The updates a tool makes to maps, as (descriptor, key, value).\<close>

type_synonym updates = "(int \<times> bytes \<times> bytes) list"

definition write_iface_params :: "(int \<Rightarrow> bytes \<Rightarrow> bytes \<Rightarrow> int) \<Rightarrow> int \<Rightarrow> bytes \<Rightarrow> bytes \<Rightarrow> int \<times> string \<times> updates" where
  "write_iface_params upd map_fd src dest =
     (if upd map_fd src dest < 0 then (-1, [], [])
      else (0, ''forward: '' @ mac_string src @ '' -> '' @ mac_string dest @ [CHR 0x0A], [(map_fd, src, dest)]))"

subsection \<open>The redirect tools\<close>

text \<open>A 32-bit integer as the bytes of a key or value.\<close>

definition le_bytes :: "int \<Rightarrow> bytes" where
  "le_bytes i = map (\<lambda>k. word_of_int (i div 256 ^ k)) [0..<4]"

text \<open>The tools of \<^verbatim>\<open>packet03\<close> and \<^verbatim>\<open>switchtsn\<close> differ in the name of the first map. \<open>old\<close> are
  the initial contents of the local arrays \<^verbatim>\<open>src\<close> and \<^verbatim>\<open>dest\<close>.\<close>

definition redirect_main ::
  "string \<Rightarrow> (string \<Rightarrow> int) \<Rightarrow> (int \<Rightarrow> int \<times> bpf_map_info) \<Rightarrow> (int \<Rightarrow> bytes \<Rightarrow> bytes \<Rightarrow> int) \<Rightarrow> bytes \<times> bytes \<Rightarrow> config \<Rightarrow> (int \<times> updates) option" where
  "redirect_main first_map bpf_obj_get get_info upd old cfg =
     do {
       let redirect_map = (ifindex cfg > 0 \<and> redirect_ifindex cfg > 0);
       if redirect_ifindex cfg > 0 \<and> ifindex cfg = -1 then Some (EXIT_FAIL_OPTION, [])
       else do {
         name \<leftarrow> ifname cfg;
         let dir = snd (join_path ''/sys/fs/bpf'' (buf_string name));
         (r, src) \<leftarrow> parse_mac (src_mac cfg) (fst old);
         if r < 0 then Some (EXIT_FAIL_OPTION, [])
         else do {
           (r, dest) \<leftarrow> parse_mac (dest_mac cfg) (snd old);
           if r < 0 then Some (EXIT_FAIL_OPTION, [])
           else
             let (map_fd, _) = open_bpf_map_file bpf_obj_get get_info dir first_map False in
             if map_fd < 0 then Some (EXIT_FAIL_BPF, [])
             else if redirect_map
             then
               let u1 = (if upd map_fd (le_bytes 0) (le_bytes (redirect_ifindex cfg)) < 0 then []
                         else [(map_fd, le_bytes 0, le_bytes (redirect_ifindex cfg))]);
                   (map_fd, _) = open_bpf_map_file bpf_obj_get get_info dir ''redirect_params'' False
               in
               if map_fd < 0 then Some (EXIT_FAIL_BPF, u1)
               else
                 let (r, _, u2) = write_iface_params upd map_fd src dest in
                 if r < 0 then Some (1, u1 @ u2) else Some (EXIT_OK, u1 @ u2)
             else Some (EXIT_OK, [])
         }
       }
     }"

definition xdp_prog_user_main ::
  "(string \<Rightarrow> int) \<Rightarrow> (int \<Rightarrow> int \<times> bpf_map_info) \<Rightarrow> (int \<Rightarrow> bytes \<Rightarrow> bytes \<Rightarrow> int) \<Rightarrow> bytes \<times> bytes \<Rightarrow> config \<Rightarrow> (int \<times> updates) option" where
  "xdp_prog_user_main = redirect_main ''tx_port''"

definition xdp_prog_user_david_main ::
  "(string \<Rightarrow> int) \<Rightarrow> (int \<Rightarrow> int \<times> bpf_map_info) \<Rightarrow> (int \<Rightarrow> bytes \<Rightarrow> bytes \<Rightarrow> int) \<Rightarrow> bytes \<times> bytes \<Rightarrow> config \<Rightarrow> (int \<times> updates) option" where
  "xdp_prog_user_david_main = redirect_main ''xsks_map''"

subsection \<open>The loaders\<close>

text \<open>\<^verbatim>\<open>basic01\<close>: its own copies of the link helpers, and a loader of the first program.\<close>

definition load_bpf_object_file__simple :: "(string \<Rightarrow> int \<times> int) \<Rightarrow> string \<Rightarrow> int" where
  "load_bpf_object_file__simple prog_load file =
     (let (err, first_prog_fd) = prog_load file in if err \<noteq> 0 then -1 else first_prog_fd)"

definition xdp_link_detach_b01 :: "'d set_link \<Rightarrow> 'd \<Rightarrow> u32 \<Rightarrow> int \<times> 'd" where
  "xdp_link_detach_b01 set_link dev xdp_flags =
     (let (err, dev) = set_link dev (-1) xdp_flags in
      if err < 0 then (EXIT_FAIL_XDP, dev) else (EXIT_OK, dev))"

definition xdp_link_attach_b01 :: "'d set_link \<Rightarrow> 'd \<Rightarrow> u32 \<Rightarrow> int \<Rightarrow> int \<times> 'd" where
  "xdp_link_attach_b01 set_link dev xdp_flags prog_fd =
     (let (err, dev) = set_link dev prog_fd xdp_flags;
          (err, dev) =
            (if err = - EEXIST \<and> xdp_flags AND XDP_FLAGS_UPDATE_IF_NOEXIST = 0
             then
               let old_flags = xdp_flags;
                   xdp_flags = xdp_flags AND NOT XDP_FLAGS_MODES;
                   xdp_flags = xdp_flags OR (if old_flags AND XDP_FLAGS_SKB_MODE \<noteq> 0 then XDP_FLAGS_DRV_MODE else XDP_FLAGS_SKB_MODE);
                   (err, dev) = set_link dev (-1) xdp_flags
               in if err = 0 then set_link dev prog_fd old_flags else (err, dev)
             else (err, dev))
      in if err < 0 then (EXIT_FAIL_XDP, dev) else (EXIT_OK, dev))"

definition xdp_pass_user_main :: "(string \<Rightarrow> int \<times> int) \<Rightarrow> 'd set_link \<Rightarrow> (int \<Rightarrow> int) \<Rightarrow> 'd \<Rightarrow> config \<Rightarrow> int \<times> 'd" where
  "xdp_pass_user_main prog_load set_link get_info dev cfg =
     (if ifindex cfg = -1 then (EXIT_FAIL_OPTION, dev)
      else if do_unload cfg then xdp_link_detach_b01 set_link dev (cfg_xdp_flags cfg)
      else
        let prog_fd = load_bpf_object_file__simple prog_load ''xdp_pass_kern.o'' in
        if prog_fd \<le> 0 then (EXIT_FAIL_BPF, dev)
        else
          let (err, dev) = xdp_link_attach_b01 set_link dev (cfg_xdp_flags cfg) prog_fd in
          if err \<noteq> 0 then (err, dev)
          else
            let err = get_info prog_fd in
            if err \<noteq> 0 then (err, dev) else (EXIT_OK, dev))"

text \<open>\<^verbatim>\<open>basic02\<close>: loading by section name.\<close>

definition load_bpf_object_file_b02 :: "lib \<Rightarrow> string \<Rightarrow> int \<Rightarrow> bpf_object option" where
  "load_bpf_object_file_b02 lib file ifidx =
     (let (err, obj) = prog_load_xattr lib file ifidx in if err \<noteq> 0 then None else Some obj)"

definition load_bpf_and_xdp_attach_b02 :: "lib \<Rightarrow> 'd set_link \<Rightarrow> 'd \<Rightarrow> config \<Rightarrow> (int + bpf_object) \<times> 'd" where
  "load_bpf_and_xdp_attach_b02 lib set_link dev cfg =
     (let offload_ifindex = (if cfg_xdp_flags cfg AND XDP_FLAGS_HW_MODE \<noteq> 0 then ifindex cfg else 0) in
      case load_bpf_object_file_b02 lib (buf_string (filename cfg)) offload_ifindex of
        None \<Rightarrow> (Inl EXIT_FAIL_BPF, dev)
      | Some bpf_obj \<Rightarrow>
          (case find_program_by_title bpf_obj (buf_string (progsec cfg)) of
             None \<Rightarrow> (Inl EXIT_FAIL_BPF, dev)
           | Some bpf_prog \<Rightarrow>
               let prog_fd = fd_of bpf_prog in
               if prog_fd \<le> 0 then (Inl EXIT_FAIL_BPF, dev)
               else
                 let (err, dev) = xdp_link_attach set_link dev (cfg_xdp_flags cfg) prog_fd in
                 if err \<noteq> 0 then (Inl err, dev) else (Inr bpf_obj, dev)))"

text \<open>The section names of the XDP programs.\<close>

definition list_avail_progs :: "bpf_object \<Rightarrow> string list" where
  "list_avail_progs obj = map title (filter (\<lambda>p. prog_type p = BPF_PROG_TYPE_XDP) (programs obj))"

definition xdp_loader_b02_main ::
  "lib \<Rightarrow> 'd set_link \<Rightarrow> ('d \<Rightarrow> u32 \<Rightarrow> int \<times> u32) \<Rightarrow> 'd \<Rightarrow> config \<Rightarrow> bool \<Rightarrow> int \<times> 'd \<times> string list" where
  "xdp_loader_b02_main lib set_link get_link_id dev cfg verbose =
     (if ifindex cfg = -1 then (EXIT_FAIL_OPTION, dev, [])
      else if do_unload cfg
      then let (r, dev) = xdp_link_detach set_link get_link_id dev (cfg_xdp_flags cfg) 0 in (r, dev, [])
      else
        (case load_bpf_and_xdp_attach_b02 lib set_link dev cfg of
           (Inl c, dev) \<Rightarrow> (c, dev, [])
         | (Inr bpf_obj, dev) \<Rightarrow> (EXIT_OK, dev, if verbose then list_avail_progs bpf_obj else [])))"

text \<open>\<^verbatim>\<open>basic04\<close>: pinning. The pin directory is a list of file names; \<open>unpin\<close> and \<open>pin\<close> are
  \<^verbatim>\<open>bpf_object__unpin_maps\<close> and \<^verbatim>\<open>bpf_object__pin_maps\<close> on it. The name of the interface is a
  NULL pointer before \<^verbatim>\<open>--dev\<close> was given.\<close>

record 'f pinfs =
  accessible :: "'f \<Rightarrow> string \<Rightarrow> bool"
  unpin_maps :: "bpf_object \<Rightarrow> string \<Rightarrow> 'f \<Rightarrow> int \<times> 'f"
  pin_maps :: "bpf_object \<Rightarrow> string \<Rightarrow> 'f \<Rightarrow> int \<times> 'f"

definition pin_maps_in_bpf_object :: "'f pinfs \<Rightarrow> bpf_object \<Rightarrow> config \<Rightarrow> 'f \<Rightarrow> (int \<times> 'f) option" where
  "pin_maps_in_bpf_object fs bpf_obj cfg f =
     do {
       name \<leftarrow> ifname cfg;
       let map_filename = take (PATH_MAX - 1) (''/sys/fs/bpf'' @ ''/'' @ buf_string name @ ''/'' @ ''xdp_stats_map'');
       let dir = buf_string (pin_dir cfg);
       (let (err, f) = (if accessible fs f map_filename then unpin_maps fs bpf_obj dir f else (0, f)) in
        if err \<noteq> 0 then Some (EXIT_FAIL_BPF, f)
        else
          let (err, f) = pin_maps fs bpf_obj dir f in
          if err \<noteq> 0 then Some (EXIT_FAIL_BPF, f) else Some (0, f))
     }"

text \<open>\<^verbatim>\<open>snprintf(cfg.pin_dir, PATH_MAX, ...)\<close> writes into a buffer of 512 characters.\<close>

definition set_pin_dir :: "config \<Rightarrow> config option" where
  "set_pin_dir cfg =
     do {
       name \<leftarrow> ifname cfg;
       let s = snd (join_path ''/sys/fs/bpf'' (buf_string name));
       if length s < 512 then Some (cfg\<lparr>pin_dir := s @ [NUL] @ drop (Suc (length s)) (pin_dir cfg)\<rparr>) else None
     }"

definition xdp_loader_b04_main ::
  "lib \<Rightarrow> (bpf_object \<Rightarrow> bpf_program option) \<Rightarrow> 'd set_link \<Rightarrow> ('d \<Rightarrow> u32 \<Rightarrow> int \<times> u32) \<Rightarrow> 'f pinfs \<Rightarrow> 'd \<Rightarrow> 'f \<Rightarrow> config \<Rightarrow>
   (int \<times> 'd \<times> 'f) option" where
  "xdp_loader_b04_main lib next_prog set_link get_link_id fs dev f cfg =
     (if ifindex cfg = -1 then Some (EXIT_FAIL_OPTION, dev, f)
      else if do_unload cfg
      then let (r, dev) = xdp_link_detach set_link get_link_id dev (cfg_xdp_flags cfg) 0 in Some (r, dev, f)
      else do {
        cfg \<leftarrow> set_pin_dir cfg;
        (case load_bpf_and_xdp_attach lib next_prog set_link dev cfg of
           (Inl c, dev) \<Rightarrow> Some (c, dev, f)
         | (Inr (bpf_obj, cfg), dev) \<Rightarrow>
             if reuse_maps cfg then Some (EXIT_OK, dev, f)
             else do {
               (err, f) \<leftarrow> pin_maps_in_bpf_object fs bpf_obj cfg f;
               if err \<noteq> 0 then Some (err, dev, f) else Some (EXIT_OK, dev, f)
             })
      })"

subsection \<open>The statistics tools\<close>

text \<open>\<^verbatim>\<open>basic03\<close>.\<close>

definition find_map_fd :: "bpf_object \<Rightarrow> string \<Rightarrow> int" where
  "find_map_fd bpf_obj mapname = (case find (\<lambda>m. map_name m = mapname) (maps bpf_obj) of None \<Rightarrow> -1 | Some m \<Rightarrow> m_fd m)"

definition check_map_fd_info_b03 :: "(int \<Rightarrow> int \<times> bpf_map_info) \<Rightarrow> int \<Rightarrow> bpf_map_info \<Rightarrow> int \<times> bpf_map_info option" where
  "check_map_fd_info_b03 get_info fd expected =
     (if fd < 0 then (EXIT_FAIL, None)
      else
        let (err, info) = get_info fd in
        if err \<noteq> 0 then (EXIT_FAIL_BPF, None)
        else if info_key_size expected \<noteq> 0 \<and> info_key_size expected \<noteq> info_key_size info then (EXIT_FAIL, Some info)
        else if info_value_size expected \<noteq> 0 \<and> info_value_size expected \<noteq> info_value_size info then (EXIT_FAIL, Some info)
        else if info_max_entries expected \<noteq> 0 \<and> info_max_entries expected \<noteq> info_max_entries info then (EXIT_FAIL, Some info)
        else if info_type expected \<noteq> 0 \<and> info_type expected \<noteq> info_type info then (EXIT_FAIL, Some info)
        else (0, Some info))"

text \<open>The outcome of a tool: the process ended, or it runs on.\<close>

datatype outcome = Exited int | Running

fun poll_b03 :: "read_env list \<Rightarrow> u32 \<Rightarrow> record_t list \<Rightarrow> (out list list \<times> outcome) option" where
  "poll_b03 [] map_type record = Some ([], Running)"
| "poll_b03 (env # envs) map_type record =
     do {
       let prev = record;
       r \<leftarrow> stats_collect_basic03 env map_type record;
       (case r of
          Inl c \<Rightarrow> Some ([], Exited c)
        | Inr record \<Rightarrow> do {
            text \<leftarrow> stats_print_basic03 record prev;
            (rest, res) \<leftarrow> poll_b03 envs map_type record;
            Some (text # rest, res)
          })
     }"

abbreviation (input) zero_record :: record_t where "zero_record \<equiv> \<lparr>timestamp = 0, total = \<lparr>rx_packets = 0, rx_bytes = 0\<rparr>\<rparr>"

definition stats_poll_b03 :: "read_env \<Rightarrow> read_env list \<Rightarrow> u32 \<Rightarrow> (out list list \<times> outcome) option" where
  "stats_poll_b03 env envs map_type =
     do {
       r \<leftarrow> stats_collect_basic03 env map_type [zero_record];
       (case r of Inl c \<Rightarrow> Some ([], Exited c) | Inr record \<Rightarrow> poll_b03 envs map_type record)
     }"

definition stats_expect :: bpf_map_info where
  "stats_expect = \<lparr>info_type = 0, info_id = 0, info_key_size = 4, info_value_size = 16, info_max_entries = XDP_ACTION_MAX\<rparr>"

definition xdp_load_and_stats_main ::
  "lib \<Rightarrow> (bpf_object \<Rightarrow> bpf_program option) \<Rightarrow> 'd set_link \<Rightarrow> ('d \<Rightarrow> u32 \<Rightarrow> int \<times> u32) \<Rightarrow> (int \<Rightarrow> int \<times> bpf_map_info) \<Rightarrow>
   read_env \<Rightarrow> read_env list \<Rightarrow> 'd \<Rightarrow> config \<Rightarrow> (out list list \<times> outcome \<times> 'd) option" where
  "xdp_load_and_stats_main lib next_prog set_link get_link_id get_info env envs dev cfg =
     (if ifindex cfg = -1 then Some ([], Exited EXIT_FAIL_OPTION, dev)
      else if do_unload cfg
      then let (r, dev) = xdp_link_detach set_link get_link_id dev (cfg_xdp_flags cfg) 0 in Some ([], Exited r, dev)
      else
        (case load_bpf_and_xdp_attach lib next_prog set_link dev cfg of
           (Inl c, dev) \<Rightarrow> Some ([], Exited c, dev)
         | (Inr (bpf_obj, cfg), dev) \<Rightarrow>
             let stats_map_fd = find_map_fd bpf_obj ''xdp_stats_map'' in
             if stats_map_fd < 0
             then let (_, dev) = xdp_link_detach set_link get_link_id dev (cfg_xdp_flags cfg) 0 in Some ([], Exited EXIT_FAIL_BPF, dev)
             else
               (case check_map_fd_info_b03 get_info stats_map_fd stats_expect of
                  (err, info) \<Rightarrow>
                    if err \<noteq> 0 then Some ([], Exited err, dev)
                    else do {
                      info \<leftarrow> info;
                      (text, res) \<leftarrow> stats_poll_b03 env envs (info_type info);
                      Some (text, res, dev)
                    })))"

text \<open>\<^verbatim>\<open>basic04\<close>. A round is the answer of \<^verbatim>\<open>open_bpf_map_file\<close> (the value returned and the
  map's identity) with the environment of the reading that follows. \<^term>\<open>Some r\<close> in the result is the
  value \<^verbatim>\<open>stats_poll\<close> returned, with the rounds that are left; \<^term>\<open>None\<close> means that it runs on.\<close>

type_synonym round = "(int \<times> u32) \<times> read_env"

fun poll_b04 :: "round list \<Rightarrow> u32 \<Rightarrow> u32 \<Rightarrow> record_t list \<Rightarrow> (out list list \<times> (int + int \<times> round list) option) option" where
  "poll_b04 [] mid map_type record = Some ([], None)"
| "poll_b04 (((fd, cur_id), env) # rounds) mid map_type record =
     (let prev = record in
      if fd < 0 then Some ([], Some (Inr (EXIT_FAIL_BPF, rounds)))
      else if mid \<noteq> cur_id then Some ([], Some (Inr (0, rounds)))
      else do {
        r \<leftarrow> stats_collect env map_type record;
        (case r of
           Inl c \<Rightarrow> Some ([], Some (Inl c))
         | Inr record \<Rightarrow> do {
             text \<leftarrow> stats_print record prev;
             (rest, res) \<leftarrow> poll_b04 rounds mid map_type record;
             Some (text # rest, res)
           })
      })"

definition stats_poll_b04 :: "read_env \<Rightarrow> round list \<Rightarrow> u32 \<Rightarrow> u32 \<Rightarrow> (out list list \<times> (int + int \<times> round list) option) option" where
  "stats_poll_b04 env rounds mid map_type =
     do {
       r \<leftarrow> stats_collect env map_type (replicate 5 zero_record);
       (case r of Inl c \<Rightarrow> Some ([], Some (Inl c)) | Inr record \<Rightarrow> poll_b04 rounds mid map_type record)
     }"

text \<open>The loop of \<^verbatim>\<open>main\<close>: the answers of \<^verbatim>\<open>open_bpf_map_file\<close> (with the contents of
  \<^verbatim>\<open>info\<close>), and for each what \<^verbatim>\<open>stats_poll\<close> then sees.\<close>

fun stats_tool_loop :: "((int \<times> bpf_map_info) \<times> read_env \<times> round list) list \<Rightarrow> (out list list \<times> outcome) option" where
  "stats_tool_loop [] = Some ([], Running)"
| "stats_tool_loop (((fd, info), env, rounds) # rest) =
     (if fd < 0 then Some ([], Exited EXIT_FAIL_BPF)
      else
        let err = check_map_fd_info info stats_expect in
        if err \<noteq> 0 then Some ([], Exited err)
        else do {
          (text, res) \<leftarrow> stats_poll_b04 env rounds (info_id info) (info_type info);
          (case res of
             None \<Rightarrow> Some (text, Running)
           | Some (Inl c) \<Rightarrow> Some (text, Exited c)
           | Some (Inr (err, _)) \<Rightarrow>
               if err < 0 then Some (text, Exited err)
               else do { (text', res') \<leftarrow> stats_tool_loop rest; Some (text @ text', res') })
        })"

definition xdp_stats_main :: "((int \<times> bpf_map_info) \<times> read_env \<times> round list) list \<Rightarrow> config \<Rightarrow> (out list list \<times> outcome) option" where
  "xdp_stats_main answers cfg =
     (if ifindex cfg = -1 then Some ([], Exited EXIT_FAIL_OPTION)
      else do { name \<leftarrow> ifname cfg; stats_tool_loop answers })"

subsection \<open>Facts\<close>

text \<open>What a reading yields: the records, or the exit of a failing clock.\<close>

definition read_ok :: "nat \<Rightarrow> int + record_t list \<Rightarrow> bool" where
  "read_ok n r \<longleftrightarrow> (case r of Inl c \<Rightarrow> c = EXIT_FAIL | Inr recs \<Rightarrow> length recs = n)"

lemma map_collect_exit: "map_collect env map_type k rec = Inl c \<Longrightarrow> c = EXIT_FAIL"
  by (auto simp: map_collect_def gettime_def Let_def split: sum.splits option.splits if_splits)

lemma collect_keys_ok:
  "\<forall>k \<in> set keys. unat k < length recs \<Longrightarrow> \<exists>r. collect_keys env map_type keys recs = Some r \<and> read_ok (length recs) r"
proof (induction keys arbitrary: recs)
  case (Cons k keys)
  show ?case
  proof (cases "map_collect env map_type k (recs ! unat k)")
    case (Inl c)
    with Cons.prems map_collect_exit [OF Inl] show ?thesis by (simp add: read_ok_def)
  next
    case (Inr x)
    obtain b r where "x = (b, r)" by (cases x)
    with Inr Cons.IH [of "recs[unat k := r]"] Cons.prems show ?thesis by simp
  qed
qed (simp add: read_ok_def)

lemma stats_collect_ok:
  "length recs = 5 \<Longrightarrow> \<exists>r. stats_collect env map_type recs = Some r \<and> read_ok 5 r"
  using collect_keys_ok [of "[0, 1, 2, 3, 4]" recs env map_type] by (simp add: stats_collect_def)

lemma print_actions_total:
  "unat i + n \<le> length rec \<Longrightarrow> unat i + n \<le> length prev \<Longrightarrow> unat i + n < 2 ^ 32 \<Longrightarrow> print_actions n i rec prev \<noteq> None"
proof (induction n arbitrary: i)
  case (Suc n)
  have "unat (i + 1) = unat i + 1" using Suc.prems by (simp add: unat_word_ariths)
  with Suc.IH [of "i + 1"] Suc.prems show ?case by (auto simp: Let_def)
qed simp

lemma stats_print_total: "length rec = 5 \<Longrightarrow> length prev = 5 \<Longrightarrow> \<exists>t. stats_print rec prev = Some t"
  using print_actions_total [of 0 5 rec prev] by (auto simp: stats_print_def)

definition poll_ok :: "(int + int \<times> round list) option \<Rightarrow> bool" where
  "poll_ok res \<longleftrightarrow> (case res of Some (Inl c) \<Rightarrow> c = EXIT_FAIL | Some (Inr (err, rest)) \<Rightarrow> 0 \<le> err | None \<Rightarrow> True)"

lemma poll_b04_total:
  "length recs = 5 \<Longrightarrow> \<exists>ls res. poll_b04 rounds mid map_type recs = Some (ls, res) \<and> poll_ok res"
proof (induction rounds arbitrary: recs)
  case (Cons r rounds)
  obtain fd cur env where r: "r = ((fd, cur), env)" by (metis prod.collapse)
  obtain x where x: "stats_collect env map_type recs = Some x" "read_ok 5 x"
    using stats_collect_ok [OF Cons.prems, of env map_type] by blast
  show ?case
  proof (cases x)
    case (Inl c)
    with x(2) show ?thesis by (simp add: r x(1) read_ok_def poll_ok_def)
  next
    case (Inr recs')
    then have l: "length recs' = 5" using x(2) by (simp add: read_ok_def)
    obtain t where t: "stats_print recs' recs = Some t" using stats_print_total [OF l Cons.prems] by blast
    obtain ls res where "poll_b04 rounds mid map_type recs' = Some (ls, res)" "poll_ok res"
      using Cons.IH [OF l] by blast
    with t Inr show ?thesis by (auto simp: r x(1)) (simp_all add: poll_ok_def)
  qed
qed (simp add: poll_ok_def)

lemma stats_poll_b04_total: "\<exists>ls res. stats_poll_b04 env rounds mid map_type = Some (ls, res) \<and> poll_ok res"
proof -
  obtain x where x: "stats_collect env map_type (replicate 5 zero_record) = Some x" "read_ok 5 x"
    using stats_collect_ok [of "replicate 5 zero_record" env map_type] by auto
  then show ?thesis
    using poll_b04_total by (cases x) (auto simp: stats_poll_b04_def read_ok_def poll_ok_def)
qed

lemma hexval_hex_char: "n < 16 \<Longrightarrow> hexval (hex_char n) = Some n"
  by (auto simp: hexval_def hex_char_def Let_def)

lemma hex_char_plain:
  assumes "n < 16"
  shows "hex_char n \<notin> {CHR '' '', CHR 0x09, CHR 0x0A, CHR 0x0B, CHR 0x0C, CHR 0x0D, CHR ''-'', CHR ''+'', CHR ''x'', CHR ''X''}"
proof -
  have "hexval c = None" if "c \<in> {CHR '' '', CHR 0x09, CHR 0x0A, CHR 0x0B, CHR 0x0C, CHR 0x0D, CHR ''-'', CHR ''+'', CHR ''x'', CHR ''X''}" for c
    using that by (auto simp: hexval_def)
  with hexval_hex_char [OF assms] show ?thesis by force
qed

lemma strtoul16_hex2:
  assumes "hexval c = None"
  shows "strtoul16 (hex2 b @ c # cs) = Some (ucast b)"
proof -
  let ?h = "unat b div 16" and ?l = "unat b mod 16"
  have b: "unat b < 256" by (rule unat_u8_less)
  then have h: "?h < 16" "?l < 16" by simp_all
  note H = hex_char_plain [OF h(1)] and L = hex_char_plain [OF h(2)]
  have p: "hex_prefix (hex_char ?h # hex_char ?l # c # cs) = hex_char ?h # hex_char ?l # c # cs"
    using L by simp
  have d: "hex_digits 0 (hex_char ?h # hex_char ?l # c # cs) = Some (unat b)"
    using h assms b by (simp add: hexval_hex_char)
  have "(of_nat (unat b) :: u64) = ucast b" by simp
  with H p d show ?thesis by (simp add: strtoul16_def hex2_def)
qed

lemma parse_u8_hex2: "hexval c = None \<Longrightarrow> parse_u8 (hex2 b @ c # cs) = Some (0, Some b)"
proof -
  assume "hexval c = None"
  moreover have "\<not> (ucast b :: u64) > 0xff"
    using unat_u8_less [of b] by (simp add: word_less_nat_alt unat_ucast_up not_less)
  moreover have "(ucast (ucast b :: u64) :: u8) = b" by (rule bit_word_eqI) (simp add: bit_ucast_iff)
  ultimately show ?thesis by (simp add: parse_u8_def strtoul16_hex2)
qed

lemma length_hex2 [simp]: "length (hex2 b) = 2"
  by (simp add: hex2_def)

lemma separators: "hexval CHR '':'' = None" "hexval NUL = None"
  by (simp_all add: hexval_def)

lemma print_table_total:
  "\<forall>w \<in> set ws. \<exists>n. opt_name w = Some n \<and> length n \<le> 27 \<Longrightarrow> print_option_list (ws @ [table_end]) q \<noteq> None"
proof (induction ws)
  case (Cons w ws)
  then obtain n where n: "opt_name w = Some n" "length n \<le> 27" by auto
  then obtain l where "option_line w n = Some l" using option_line_None [of w n] by (cases "option_line w n") auto
  with n Cons show ?case by auto
qed simp

subsection \<open>Properties\<close>

text \<open>A MAC address printed as the tools print it (lower-case hexadecimal bytes separated by colons)
  and given back as an option argument is parsed to the same six bytes.\<close>

theorem mac_round_trip:
  assumes "length m = 6" and "length mac = 6"
  shows "parse_mac (strncpy 18 (mac_string m)) mac = Some (0, m)"
proof -
  obtain a b c d e f where m: "m = [a, b, c, d, e, f]"
    using assms(1) by (auto simp: length_Suc_conv eval_nat_numeral)
  obtain t u v w x y where mac: "mac = [t, u, v, w, x, y]"
    using assms(2) by (auto simp: length_Suc_conv eval_nat_numeral)
  have s: "strncpy 18 (mac_string m) = hex2 a @ CHR '':'' # hex2 b @ CHR '':'' # hex2 c @ CHR '':'' # hex2 d
      @ CHR '':'' # hex2 e @ CHR '':'' # hex2 f @ NUL # []"
    by (simp add: mac_string_def m strncpy_def hex2_def)
  show ?thesis
    unfolding s parse_mac_def
    by (simp add: parse_u8_hex2 separators mac m)
qed

theorem mac_round_trip_witness:
  "parse_mac (strncpy 18 (mac_string [0xe2, 0xab, 0x44, 0xea, 0x6d, 0x16])) [0, 0, 0, 0, 0, 0] = Some (0, [0xe2, 0xab, 0x44, 0xea, 0x6d, 0x16])"
  by (rule mac_round_trip) simp_all

text \<open>The statistics tool of \<^verbatim>\<open>basic04\<close> never leaves its arrays, whatever the map, the clock
  and the pin directory do; it ends only with the exit status of a failure to open the map, a map of
  the wrong layout, or a failing clock. (That \<^verbatim>\<open>stats_poll\<close> returns a negative error, which
  \<^verbatim>\<open>main\<close> tests for, never happens.)\<close>

theorem stats_tool_safe:
  "\<exists>lines res. stats_tool_loop answers = Some (lines, res) \<and> (\<forall>c. res = Exited c \<longrightarrow> c = EXIT_FAIL_BPF \<or> c = EXIT_FAIL)"
proof (induction answers)
  case (Cons a answers)
  obtain fd info env rounds where a: "a = ((fd, info), env, rounds)" by (metis prod.collapse)
  obtain ls res where p: "stats_poll_b04 env rounds (info_id info) (info_type info) = Some (ls, res)" "poll_ok res"
    using stats_poll_b04_total by blast
  have "check_map_fd_info info stats_expect \<in> {0, EXIT_FAIL}" by (simp add: check_map_fd_info_def)
  then show ?case
    using Cons.IH p(2) by (cases res) (auto simp: a p(1) poll_ok_def Let_def split: sum.splits prod.splits)
qed simp

theorem stats_tool_safe_witness:
  "\<exists>lines. stats_tool_loop [((3, stats_expect\<lparr>info_type := 6\<rparr>),
      \<lparr>clock_gettime = \<lambda>_. Some (1, 0), array_value = \<lambda>_. None, percpu_values = \<lambda>_. None, nr_cpus = 1, uninit_value = \<lambda>_. \<lparr>rx_packets = 0, rx_bytes = 0\<rparr>\<rparr>, []),
      ((-1, stats_expect), undefined, [])] = Some (lines, Running)"
proof -
  let ?a = "[((3, stats_expect\<lparr>info_type := 6\<rparr>),
      \<lparr>clock_gettime = \<lambda>_. Some (1, 0), array_value = \<lambda>_. None, percpu_values = \<lambda>_. None, nr_cpus = 1, uninit_value = \<lambda>_. \<lparr>rx_packets = 0, rx_bytes = 0\<rparr>\<rparr>, []),
      ((-1, stats_expect), undefined, [])]"
  obtain ls res where "stats_tool_loop ?a = Some (ls, res)" using stats_tool_safe by blast
  moreover have "map_option snd (stats_tool_loop ?a) = Some Running"
    by (simp add: check_map_fd_info_def stats_expect_def stats_poll_b04_def stats_collect_def map_collect_def gettime_def)
  ultimately show ?thesis by simp
qed

text \<open>The redirect tools print a usage error only if \<^verbatim>\<open>--redirect-dev\<close> is given without
  \<^verbatim>\<open>--dev\<close>. Without either they go on and format the NULL interface name into the path of the
  pinned maps.\<close>

theorem redirect_tool_null_name:
  assumes "ifindex cfg = -1" and "ifname cfg = None" and "main = xdp_prog_user_main \<or> main = xdp_prog_user_david_main"
  shows "main get info upd old cfg = (if redirect_ifindex cfg > 0 then Some (EXIT_FAIL_OPTION, []) else None)"
  using assms by (auto simp: xdp_prog_user_main_def xdp_prog_user_david_main_def redirect_main_def)

theorem redirect_tool_null_name_witness:
  "xdp_prog_user_main (\<lambda>_. 3) (\<lambda>_. (0, stats_expect)) (\<lambda>_ _ _. 0) ([], []) (empty_config\<lparr>redirect_ifindex := -1\<rparr>) = None"
  using redirect_tool_null_name [of "empty_config\<lparr>redirect_ifindex := -1\<rparr>" xdp_prog_user_main "\<lambda>_. 3" "\<lambda>_. (0, stats_expect)" "\<lambda>_ _ _. 0" "([], [])"]
  by (simp add: empty_config_def)

text \<open>The usage text of every option table of the programs can be printed: no line overflows its
  30-character buffer and every table is terminated.\<close>

theorem usage_total:
  assumes "table \<in> {long_options_af_xdp, long_options_loader, long_options_stats, long_options_redirect}"
  shows "usage prog doc table full \<noteq> None"
proof -
  have "\<forall>w \<in> set (butlast table). \<exists>n. opt_name w = Some n \<and> length n \<le> 27" "table = butlast table @ [table_end]"
    using assms by (auto simp: long_options_af_xdp_def long_options_loader_def long_options_stats_def long_options_redirect_def)
  then have p: "print_option_list table q \<noteq> None" for q
    using print_table_total [of "butlast table" q] by simp
  obtain a b where "print_option_list table True = Some a" "print_option_list table False = Some b"
    using p [of True] p [of False] by blast
  then show ?thesis by (cases full) (simp_all add: usage_def Let_def)
qed

theorem usage_total_witness: "usage ''xdp'' ''doc'' long_options_stats True \<noteq> None"
  by (rule usage_total) simp

end
