(* ===== verification/PinnedMaps.thy ===== *)
theory PinnedMaps
  imports CommonUser
begin

text \<open>
  Loading an object file while sharing some of its maps through pinned files
  (\<^verbatim>\<open>common/common_libbpf.c\<close>).

  The libbpf calls are those of \<open>CommonUser\<close>; \<open>pin\<close> is \<^verbatim>\<open>bpf_map__pin\<close>, which changes the state
  \<open>'f\<close> of the file system. The loader keeps the
  pointer \<^verbatim>\<open>mapname\<close> to the name of a map while it walks the requested maps, and a successful
  \<^verbatim>\<open>bpf_map__reuse_fd\<close> frees that name: the name is \<^term>\<open>None\<close> from then on, and comparing it is
  a fault.
\<close>

record bpf_pinned_map =
  pin_name :: string
  pin_file :: string
  pin_fd :: int

record bpf_prog_load_attr_maps =
  attr_file :: "string option"
  attr_prog_type :: nat
  attr_attach_type :: nat
  attr_ifindex :: int
  pinned_maps :: "bpf_pinned_map list"

text \<open>The loop over the requested maps for one map of the object, before the object is loaded.\<close>

fun reuse_pins :: "lib \<Rightarrow> string option \<Rightarrow> bpf_map \<Rightarrow> bpf_pinned_map list \<Rightarrow> (bpf_map \<times> bpf_pinned_map list) option" where
  "reuse_pins lib mapname m [] = Some (m, [])"
| "reuse_pins lib mapname m (p # ps) =
     do {
       name \<leftarrow> mapname;
       if name \<noteq> pin_name p then map_option (apsnd ((#) p)) (reuse_pins lib mapname m ps)
       else
         let fd = obj_get lib (pin_file p) in
         if fd > 0
         then
           let (err, m) = reuse_fd lib m fd;
               mapname = (if err = 0 then None else mapname)
           in map_option (apsnd ((#) (p\<lparr>pin_fd := fd\<rparr>))) (reuse_pins lib mapname m ps)
         else map_option (apsnd ((#) p)) (reuse_pins lib mapname m ps)
     }"

text \<open>The loop over the maps of the object.\<close>

fun reuse_all_pins :: "lib \<Rightarrow> int \<Rightarrow> bpf_map list \<Rightarrow> bpf_pinned_map list \<Rightarrow> (bpf_map list \<times> bpf_pinned_map list) option" where
  "reuse_all_pins lib ifidx [] ps = Some ([], ps)"
| "reuse_all_pins lib ifidx (m # ms) ps =
     do {
       let mapname = map_name m;
       let m = (if offload_neutral m then m else m\<lparr>map_ifindex := ifidx\<rparr>);
       (m, ps) \<leftarrow> reuse_pins lib (Some mapname) m ps;
       (ms, ps) \<leftarrow> reuse_all_pins lib ifidx ms ps;
       Some (m # ms, ps)
     }"

text \<open>After loading, the maps that were not found pinned are pinned.\<close>

type_synonym 'f pin_op = "bpf_map \<Rightarrow> string \<Rightarrow> 'f \<Rightarrow> int \<times> 'f"

definition pin_one :: "'f pin_op \<Rightarrow> bpf_map \<Rightarrow> bpf_pinned_map \<Rightarrow> 'f \<Rightarrow> bpf_pinned_map \<times> 'f" where
  "pin_one pin m p f =
     (if map_name m \<noteq> pin_name p then (p, f)
      else if pin_fd p \<noteq> -1 then (p, f)
      else let (err, f) = pin m (pin_file p) f in
      if err \<noteq> 0 then (p, f)
      else (p\<lparr>pin_fd := m_fd m\<rparr>, f))"

fun pin_requested :: "'f pin_op \<Rightarrow> bpf_map \<Rightarrow> bpf_pinned_map list \<Rightarrow> 'f \<Rightarrow> bpf_pinned_map list \<times> 'f" where
  "pin_requested pin m [] f = ([], f)"
| "pin_requested pin m (p # ps) f =
     (let (p, f) = pin_one pin m p f; (ps, f) = pin_requested pin m ps f in (p # ps, f))"

fun pin_new_maps :: "'f pin_op \<Rightarrow> bpf_map list \<Rightarrow> bpf_pinned_map list \<Rightarrow> 'f \<Rightarrow> bpf_pinned_map list \<times> 'f" where
  "pin_new_maps pin [] ps f = (ps, f)"
| "pin_new_maps pin (m # ms) ps f =
     (let (ps, f) = pin_requested pin m ps f in pin_new_maps pin ms ps f)"

text \<open>The result is an error, or the object and the descriptor of its first program, with the requested
  maps and the file system. The structure \<^verbatim>\<open>attr\<close> is read before it is compared with NULL.\<close>

definition bpf_prog_load_xattr_maps ::
  "lib \<Rightarrow> 'f pin_op \<Rightarrow> bpf_prog_load_attr_maps option \<Rightarrow> 'f \<Rightarrow>
   ((int + bpf_object \<times> int) \<times> bpf_pinned_map list \<times> 'f) option" where
  "bpf_prog_load_xattr_maps lib pin attr f =
     do {
       attr \<leftarrow> attr;
       (case attr_file attr of
          None \<Rightarrow> Some (Inl (- EINVAL), pinned_maps attr, f)
        | Some file \<Rightarrow>
            (case object_open lib file of
               None \<Rightarrow> Some (Inl (- ENOENT), pinned_maps attr, f)
             | Some obj \<Rightarrow>
                 do {
                   let obj = obj\<lparr>programs := map (\<lambda>p. p\<lparr>prog_ifindex := attr_ifindex attr, prog_type := attr_prog_type attr,
                                                          attach_type := attr_attach_type attr\<rparr>) (programs obj)\<rparr>;
                   let ps = map (\<lambda>p. p\<lparr>pin_fd := -1\<rparr>) (pinned_maps attr);
                   (ms, ps) \<leftarrow> reuse_all_pins lib (attr_ifindex attr) (maps obj) ps;
                   if programs obj = [] then Some (Inl (- ENOENT), ps, f)
                   else
                     let (err, obj) = object_load lib (obj\<lparr>maps := ms\<rparr>) in
                     if err \<noteq> 0 then Some (Inl (- EINVAL), ps, f)
                     else
                       let (ps, f) = pin_new_maps pin (maps obj) ps f
                       in Some (Inr (obj, fd_of (hd (programs obj))), ps, f)
                 }))
     }"

subsection \<open>What the loader does\<close>

lemma reuse_pins_length: "reuse_pins lib nm m ps = Some (m', ps') \<Longrightarrow> length ps' = length ps"
  by (induction lib nm m ps arbitrary: m' ps' rule: reuse_pins.induct)
    (auto simp: Let_def bind_eq_Some_conv split: if_splits prod.splits)






subsection \<open>Properties\<close>





text \<open>With more than one requested map, a map that is found pinned makes the loader read freed memory: the
  name it goes on comparing is released by \<^verbatim>\<open>bpf_map__reuse_fd\<close>.\<close>

lemma load_maps_use_after_free:
  assumes "object_open lib file = Some obj" and "attr_file attr = Some file" and "pinned_maps attr = p # q # ps"
    and "maps obj = m # ms" and "map_name m = pin_name p" and "obj_get lib (pin_file p) > 0"
    and "\<And>m fd. fst (reuse_fd lib m fd) = 0"
  shows "bpf_prog_load_xattr_maps lib pin (Some attr) f = None"
proof -
  have "reuse_pins lib (Some (pin_name p)) m' (p\<lparr>pin_fd := -1\<rparr> # q' # ps') = None" for m' q' ps'
    using assms(6,7) by (simp add: case_prod_beta)
  then show ?thesis using assms(1-5) by (simp add: bpf_prog_load_xattr_maps_def)
qed

end
