(* ===== verification/Nlattr.thy ===== *)
theory Nlattr
  imports Prelude
begin

text \<open>
  Netlink attributes, \<^verbatim>\<open>libbpf/src/nlattr.c\<close> and \<^verbatim>\<open>nlattr.h\<close>: a stream of
  type-length-value records, each padded to a multiple of four bytes, is indexed by type. A
  \<^verbatim>\<open>struct nlattr *\<close> is an offset into the buffer the stream lies in; the two 16-bit header
  fields are read through the faulting loads of the prelude, so that a read past the end of the buffer
  is \<^term>\<open>None\<close>. An \<^verbatim>\<open>int\<close> that cannot overflow is an \<^typ>\<open>int\<close>; where C compares it with an
  unsigned operand the conversion is written out.
\<close>

section \<open>Definitions\<close>

subsection \<open>Attributes and policies\<close>

text \<open>The fields of \<^verbatim>\<open>struct libbpf_nla_policy\<close>.\<close>

record libbpf_nla_policy =
  policy_type :: u16
  policy_minlen :: u16
  policy_maxlen :: u16

definition LIBBPF_NLA_UNSPEC :: u16 where
  "LIBBPF_NLA_UNSPEC = 0"

definition LIBBPF_NLA_U32 :: u16 where
  "LIBBPF_NLA_U32 = 3"

definition LIBBPF_NLA_STRING :: u16 where
  "LIBBPF_NLA_STRING = 5"

definition LIBBPF_NLA_TYPE_MAX :: u16 where
  "LIBBPF_NLA_TYPE_MAX = 8"

definition nla_attr_minlen :: "u16 list" where
  "nla_attr_minlen = [0, 1, 2, 4, 8, 1, 0, 0, 0]"

definition NLA_ALIGN :: "int \<Rightarrow> int" where
  "NLA_ALIGN n = (n + 3) AND NOT 3"

definition libbpf_nla_data :: "ptr \<Rightarrow> ptr" where
  "libbpf_nla_data p = p + 4"

definition libbpf_nla_len :: "bytes \<Rightarrow> ptr \<Rightarrow> int option" where
  "libbpf_nla_len m p = do { l \<leftarrow> load16 m p; Some (uint l - 4) }"

definition libbpf_nla_getattr_u8 :: "bytes \<Rightarrow> ptr \<Rightarrow> u8 option" where
  "libbpf_nla_getattr_u8 m p = load8 m (libbpf_nla_data p)"

definition libbpf_nla_getattr_u32 :: "bytes \<Rightarrow> ptr \<Rightarrow> u32 option" where
  "libbpf_nla_getattr_u32 m p = load32 m (libbpf_nla_data p)"

definition nla_next :: "bytes \<Rightarrow> ptr \<Rightarrow> int \<Rightarrow> (ptr \<times> int) option" where
  "nla_next m p remaining = do {
     l \<leftarrow> load16 m p;
     let totlen = NLA_ALIGN (uint l);
     Some (p + nat totlen, remaining - totlen) }"

text \<open>\<^verbatim>\<open>remaining >= sizeof(*nla)\<close> compares an \<^verbatim>\<open>int\<close> with a \<^verbatim>\<open>size_t\<close>: a negative
  value becomes a large one and passes.\<close>

definition nla_ok :: "bytes \<Rightarrow> ptr \<Rightarrow> int \<Rightarrow> bool option" where
  "nla_ok m p remaining =
     (if (of_int remaining :: u64) < 4 then Some False
      else do { l \<leftarrow> load16 m p; Some (4 \<le> uint l \<and> uint l \<le> remaining) })"

definition nla_type :: "bytes \<Rightarrow> ptr \<Rightarrow> int option" where
  "nla_type m p = do { t \<leftarrow> load16 m (p + 2); Some (uint (t AND NOT 0xC000)) }"

definition validate_nla :: "bytes \<Rightarrow> ptr \<Rightarrow> int \<Rightarrow> libbpf_nla_policy list \<Rightarrow> int option" where
  "validate_nla m p maxtype policy = do {
     type \<leftarrow> nla_type m p;
     if type < 0 \<or> type > maxtype then Some 0
     else if \<not> nat type < length policy then None
     else let pt = policy ! nat type in
       if policy_type pt > LIBBPF_NLA_TYPE_MAX then Some 0
       else let minlen =
         (if policy_minlen pt \<noteq> 0 then ucast (policy_minlen pt) :: u32
          else if policy_type pt \<noteq> LIBBPF_NLA_UNSPEC
            then ucast (nla_attr_minlen ! unat (policy_type pt))
          else 0) in do {
         len \<leftarrow> libbpf_nla_len m p;
         if (of_int len :: u32) < minlen then Some (- 1)
         else if policy_maxlen pt \<noteq> 0 \<and> len > uint (policy_maxlen pt) then Some (- 1)
         else if policy_type pt = LIBBPF_NLA_STRING then do {
           c \<leftarrow> load8 m (nat (int (libbpf_nla_data p) + len - 1));
           Some (if c \<noteq> 0 then - 1 else 0) }
         else Some 0 } }"

subsection \<open>The attribute index\<close>

text \<open>The array \<^verbatim>\<open>tb\<close> of attribute pointers, NULL being \<^term>\<open>None\<close>.\<close>

type_synonym nla_index = "ptr option list"

definition tb_set :: "nla_index \<Rightarrow> int \<Rightarrow> ptr \<Rightarrow> nla_index option" where
  "tb_set tb type p = (if nat type < length tb then Some (tb[nat type := Some p]) else None)"

lemma nla_ok_True:
  assumes "nla_ok m p remaining = Some True"
  obtains l where "load16 m p = Some l" "4 \<le> uint l" "uint l \<le> remaining"
  using assms by (auto simp: nla_ok_def bind_eq_Some_conv split: if_splits)

lemma NLA_ALIGN_eq: "NLA_ALIGN n = (n + 3) div 4 * 4"
proof -
  have "NLA_ALIGN n = (n + 3) AND NOT (mask 2)"
    by (simp add: NLA_ALIGN_def mask_eq_exp_minus_1)
  also have "\<dots> = push_bit 2 (drop_bit 2 (n + 3))"
    by (rule bit_eqI) (auto simp: bit_and_iff bit_not_iff bit_mask_iff bit_push_bit_iff bit_drop_bit_eq)
  finally show ?thesis by (simp add: push_bit_eq_mult drop_bit_eq_div)
qed

lemma NLA_ALIGN_bounds: "n \<le> NLA_ALIGN n" "NLA_ALIGN n \<le> n + 3" "4 dvd NLA_ALIGN n"
  unfolding NLA_ALIGN_eq by (presburger, presburger, simp)

lemma nla_next_step:
  assumes "nla_ok m p remaining = Some True" and "nla_next m p remaining = Some (p', remaining')"
  shows "nat remaining' < nat remaining" and "- 4 < remaining'"
    and "int p' + remaining' = int p + remaining" and "p + 4 \<le> p'"
proof -
  from assms(1) obtain l where l: "load16 m p = Some l" "4 \<le> uint l" "uint l \<le> remaining"
    by (rule nla_ok_True)
  have "p' = p + nat (NLA_ALIGN (uint l))" "remaining' = remaining - NLA_ALIGN (uint l)"
    using assms(2) l(1) by (simp_all add: nla_next_def Let_def)
  then show "nat remaining' < nat remaining" "- 4 < remaining'"
    "int p' + remaining' = int p + remaining" "p + 4 \<le> p'"
    using NLA_ALIGN_bounds(1,2) [of "uint l"] l(2,3) by simp_all
qed

text \<open>The body of the loop of \<^verbatim>\<open>libbpf_nla_parse\<close> for one attribute: an unknown type is
  skipped, a negative result leaves the loop.\<close>

definition nla_parse_attr ::
  "bytes \<Rightarrow> int \<Rightarrow> libbpf_nla_policy list option \<Rightarrow> ptr \<Rightarrow> nla_index \<Rightarrow> (int \<times> nla_index) option" where
  "nla_parse_attr m maxtype policy p tb = do {
     type \<leftarrow> nla_type m p;
     if type > maxtype then Some (0, tb)
     else do {
       err \<leftarrow> (case policy of None \<Rightarrow> Some 0 | Some pol \<Rightarrow> validate_nla m p maxtype pol);
       if err < 0 then Some (err, tb)
       else do { tb' \<leftarrow> tb_set tb type p; Some (0, tb') } } }"

text \<open>The loop: \<open>p\<close> and \<open>remaining\<close> are the variables of
  \<^verbatim>\<open>libbpf_nla_for_each_attr\<close>. Each turn takes at least four bytes off the stream.\<close>

function nla_parse_loop ::
  "bytes \<Rightarrow> int \<Rightarrow> libbpf_nla_policy list option \<Rightarrow> ptr \<Rightarrow> int \<Rightarrow> nla_index \<Rightarrow>
   (int \<times> nla_index) option" where
  "nla_parse_loop m maxtype policy p remaining tb =
     (case nla_ok m p remaining of
        None \<Rightarrow> None
      | Some False \<Rightarrow> Some (0, tb)
      | Some True \<Rightarrow>
          (case nla_parse_attr m maxtype policy p tb of
             None \<Rightarrow> None
           | Some (err, tb') \<Rightarrow>
               if err < 0 then Some (err, tb')
               else (case nla_next m p remaining of
                       None \<Rightarrow> None
                     | Some (p', remaining') \<Rightarrow>
                         nla_parse_loop m maxtype policy p' remaining' tb')))"
  by pat_completeness auto

termination
  by (relation "measure (\<lambda>(m, maxtype, policy, p, remaining, tb). nat remaining)")
     (auto dest: nla_next_step)

declare nla_parse_loop.simps [simp del]

lemma nla_parse_loop_step:
  assumes "nla_ok m p remaining = Some True" and "nla_parse_attr m maxtype policy p tb = Some (err, tb')"
    and "nla_next m p remaining = Some (p', remaining')"
  shows "nla_parse_loop m maxtype policy p remaining tb =
    (if err < 0 then Some (err, tb') else nla_parse_loop m maxtype policy p' remaining' tb')"
  by (simp add: nla_parse_loop.simps [of m maxtype policy p remaining] assms)

definition libbpf_nla_parse ::
  "bytes \<Rightarrow> int \<Rightarrow> ptr \<Rightarrow> int \<Rightarrow> libbpf_nla_policy list option \<Rightarrow> (int \<times> nla_index) option" where
  "libbpf_nla_parse m maxtype head len policy =
     nla_parse_loop m maxtype policy head len (replicate (nat (maxtype + 1)) None)"

definition libbpf_nla_parse_nested ::
  "bytes \<Rightarrow> int \<Rightarrow> ptr \<Rightarrow> libbpf_nla_policy list option \<Rightarrow> (int \<times> nla_index) option" where
  "libbpf_nla_parse_nested m maxtype p policy = do {
     len \<leftarrow> libbpf_nla_len m p;
     libbpf_nla_parse m maxtype (libbpf_nla_data p) len policy }"

subsection \<open>Extended error messages\<close>

text \<open>What \<^verbatim>\<open>libbpf_nla_dump_errormsg\<close> prints; the message is a pointer into the buffer, or
  NULL.\<close>

datatype nla_log = ParseFailed | KernelError "ptr option"

definition NLM_F_CAPPED :: u16 where
  "NLM_F_CAPPED = 0x100"

definition NLM_F_ACK_TLVS :: u16 where
  "NLM_F_ACK_TLVS = 0x200"

definition extack_policy :: "libbpf_nla_policy list" where
  "extack_policy =
     [\<lparr>policy_type = 0, policy_minlen = 0, policy_maxlen = 0\<rparr>,
      \<lparr>policy_type = LIBBPF_NLA_STRING, policy_minlen = 0, policy_maxlen = 0\<rparr>,
      \<lparr>policy_type = LIBBPF_NLA_U32, policy_minlen = 0, policy_maxlen = 0\<rparr>,
      \<lparr>policy_type = 0, policy_minlen = 0, policy_maxlen = 0\<rparr>]"

text \<open>\<^verbatim>\<open>nlmsg_len\<close> of a header at \<open>p\<close>, an unsigned difference read as an \<^verbatim>\<open>int\<close>.\<close>

definition nlmsg_len :: "bytes \<Rightarrow> ptr \<Rightarrow> int option" where
  "nlmsg_len m p = do { l \<leftarrow> load32 m p; Some (sint (l - 16)) }"

text \<open>The header of the message is 16 bytes, \<^verbatim>\<open>struct nlmsgerr\<close> is 20: the error code and a
  copy of the request's header. A pointer before the buffer and an overflow of \<^verbatim>\<open>hlen\<close> have no
  defined result.\<close>

definition libbpf_nla_dump_errormsg :: "bytes \<Rightarrow> ptr \<Rightarrow> (int \<times> nla_log list) option" where
  "libbpf_nla_dump_errormsg m nlh = do {
     flags \<leftarrow> load16 m (nlh + 6);
     if flags AND NLM_F_ACK_TLVS = 0 then Some (0, [])
     else do {
       let err = nlh + 16;
       hlen \<leftarrow> (if flags AND NLM_F_CAPPED = 0
                 then do {
                   n \<leftarrow> nlmsg_len m (err + 4);
                   if 20 + n < 2 ^ 31 then Some (20 + n) else None }
                 else Some 20);
       len \<leftarrow> load32 m nlh;
       let alen = sint (len - of_int hlen);
       if int err + hlen < 0 then None
       else do {
         (ret, tb) \<leftarrow> libbpf_nla_parse m 3 (nat (int err + hlen)) alen (Some extack_policy);
         if ret \<noteq> 0 then Some (0, [ParseFailed])
         else Some (0, [KernelError (map_option libbpf_nla_data (tb ! 1))]) } } }"

section \<open>Memory safety\<close>

text \<open>What an entry of the index points to: an attribute of that type that lies inside the stream.\<close>

definition attr_in :: "bytes \<Rightarrow> ptr \<Rightarrow> int \<Rightarrow> int \<Rightarrow> ptr \<Rightarrow> bool" where
  "attr_in m head len type p \<longleftrightarrow>
     head \<le> p \<and> nla_type m p = Some type \<and>
     (\<exists>l. load16 m p = Some l \<and> 4 \<le> uint l \<and> int p + uint l \<le> int head + len)"

definition index_ok :: "bytes \<Rightarrow> ptr \<Rightarrow> int \<Rightarrow> int \<Rightarrow> nla_index \<Rightarrow> bool" where
  "index_ok m head len maxtype tb \<longleftrightarrow>
     length tb = nat (maxtype + 1) \<and>
     (\<forall>i p. i < length tb \<longrightarrow> tb ! i = Some p \<longrightarrow> attr_in m head len (int i) p)"

lemma nla_type_bounds: "nla_type m p = Some type \<Longrightarrow> 0 \<le> type"
  by (auto simp: nla_type_def bind_eq_Some_conv)

lemma index_ok_set:
  assumes "index_ok m head len maxtype tb" and "attr_in m head len type p" and "0 \<le> type"
    and "type \<le> maxtype"
  shows "\<exists>tb'. tb_set tb type p = Some tb' \<and> index_ok m head len maxtype tb'"
  using assms by (auto simp: index_ok_def tb_set_def nth_list_update)

text \<open>An attribute that lies in the buffer can be validated against a policy that covers its type.\<close>

lemma validate_nla_total:
  assumes "nla_type m p = Some type" and "load16 m p = Some l" and "4 \<le> uint l"
    and "int p + uint l \<le> int (length m)" and "nat maxtype < length policy"
  shows "\<exists>err. validate_nla m p maxtype policy = Some err \<and> (err = 0 \<or> err = - 1)"
proof -
  have len: "libbpf_nla_len m p = Some (uint l - 4)"
    using assms(2) by (simp add: libbpf_nla_len_def)
  have "\<exists>c. load8 m (nat (int (libbpf_nla_data p) + (uint l - 4) - 1)) = Some c"
    using assms(3,4) by (auto simp: load8_def libbpf_nla_data_def nat_less_iff)
  then show ?thesis
    using assms(1,5) len by (auto simp: validate_nla_def Let_def nla_type_bounds)
qed

lemma nla_ok_defined:
  assumes "remaining \<notin> {0..<4} \<Longrightarrow> p + 2 \<le> length m"
  shows "\<exists>b. nla_ok m p remaining = Some b"
proof (cases "remaining \<in> {0..<4}")
  case True
  then have "remaining = 0 \<or> remaining = 1 \<or> remaining = 2 \<or> remaining = 3" by auto
  then have "(of_int remaining :: u64) < 4" by auto
  then show ?thesis by (auto simp: nla_ok_def)
next
  case False
  with assms have "\<exists>l. load16 m p = Some l" by (simp add: load16_def)
  then show ?thesis by (auto simp: nla_ok_def)
qed

text \<open>A stream whose length is a multiple of four is parsed without reading past its end. Otherwise
  the padding of the last attribute may lead five bytes further.\<close>

definition nla_slack :: "int \<Rightarrow> int" where
  "nla_slack len = (if 4 dvd len then 0 else 5)"

lemma nla_parse_attr_total:
  assumes "load16 m p = Some l" and "4 \<le> uint l" and "int p + uint l \<le> int head + len"
    and "int head + len \<le> int (length m)" and "head \<le> p"
    and "policy = None \<or> nat maxtype < length (the policy)" and "index_ok m head len maxtype tb"
  shows "\<exists>err tb'. nla_parse_attr m maxtype policy p tb = Some (err, tb') \<and>
     (err = 0 \<or> err = - 1) \<and> index_ok m head len maxtype tb'"
proof -
  have inside: "int p + uint l \<le> int (length m)" using assms(3,4) by linarith
  then have "p + 4 \<le> length m" using assms(2) by linarith
  then obtain type where type: "nla_type m p = Some type"
    by (auto simp: nla_type_def load16_def)
  have attr: "attr_in m head len type p"
    using type assms by (simp add: attr_in_def)
  have "\<exists>err. (case policy of None \<Rightarrow> Some 0 | Some pol \<Rightarrow> validate_nla m p maxtype pol) = Some err \<and>
      (err = 0 \<or> err = - 1)"
    using validate_nla_total [OF type assms(1,2) inside, of maxtype] assms(6)
    by (cases policy) auto
  then show ?thesis
    using index_ok_set [OF assms(7) attr nla_type_bounds [OF type]] assms(7) type
    by (auto simp: nla_parse_attr_def not_less)
qed

lemma nla_ok_in_slack:
  assumes "int head + len + nla_slack len \<le> int (length m)"
    and "int p + remaining = int head + len" "- 4 < remaining" "4 dvd len - remaining"
  shows "\<exists>b. nla_ok m p remaining = Some b"
proof (rule nla_ok_defined)
  assume out: "remaining \<notin> {0..<4}"
  show "p + 2 \<le> length m"
  proof (cases "4 dvd len")
    case True
    with assms(4) have "4 dvd remaining" by presburger
    with assms(3) out have "4 \<le> remaining" by (auto elim!: dvdE)
    with assms(1,2) show ?thesis by (simp add: nla_slack_def split: if_splits)
  next
    case False
    with out assms(1-3) show ?thesis by (auto simp: nla_slack_def)
  qed
qed

lemma nla_parse_loop_total:
  assumes "int head + len + nla_slack len \<le> int (length m)"
    and "policy = None \<or> nat maxtype < length (the policy)"
    and "head \<le> p" "int p + remaining = int head + len" "- 4 < remaining" "4 dvd len - remaining"
    and "index_ok m head len maxtype tb"
  shows "\<exists>err tb'. nla_parse_loop m maxtype policy p remaining tb = Some (err, tb') \<and>
     (err = 0 \<or> err = - 1) \<and> index_ok m head len maxtype tb'"
  using assms
proof (induction m maxtype policy p remaining tb rule: nla_parse_loop.induct)
  case (1 m maxtype policy p remaining tb)
  note prems = "1.prems"
  obtain b where b: "nla_ok m p remaining = Some b"
    using nla_ok_in_slack [OF prems(1,4-6)] by blast
  show ?case
  proof (cases b)
    case False
    with b prems(7) show ?thesis by (simp add: nla_parse_loop.simps)
  next
    case True
    with b have ok: "nla_ok m p remaining = Some True" by simp
    then obtain l where l: "load16 m p = Some l" "4 \<le> uint l" "uint l \<le> remaining"
      by (rule nla_ok_True)
    obtain p' r' where nxt: "nla_next m p remaining = Some (p', r')"
      and r': "r' = remaining - NLA_ALIGN (uint l)"
      using l(1) by (simp add: nla_next_def Let_def)
    note step = nla_next_step [OF ok nxt]
    have dvd: "4 dvd len - r'"
      using prems(6) NLA_ALIGN_bounds(3) [of "uint l"] unfolding r' by presburger
    have room: "int p + uint l \<le> int head + len" "int head + len \<le> int (length m)"
      using prems(1,4) l(3) by (simp_all add: nla_slack_def split: if_splits)
    obtain err tb' where attr: "nla_parse_attr m maxtype policy p tb = Some (err, tb')"
        "err = 0 \<or> err = - 1" "index_ok m head len maxtype tb'"
      using nla_parse_attr_total [OF l(1,2) room prems(3,2,7)] by blast
    have "\<exists>err tb''. nla_parse_loop m maxtype policy p' r' tb' = Some (err, tb'') \<and>
        (err = 0 \<or> err = - 1) \<and> index_ok m head len maxtype tb''" if "\<not> err < 0"
      by (rule "1.IH" [OF b _ attr(1) refl that nxt refl])
         (use True prems attr(3) step dvd in auto)
    with attr(2,3) show ?thesis by (auto simp: nla_parse_loop_step [OF ok attr(1) nxt])
  qed
qed

lemma index_ok_empty: "index_ok m head len maxtype (replicate (nat (maxtype + 1)) None)"
  by (simp add: index_ok_def)

text \<open>C21. The parser ends on every stream and never faults when the buffer holds the stream (and, for a
  stream whose length is not a multiple of four, five bytes more). What it returns is well formed: one
  entry per type, each NULL or an attribute of that type that lies inside the stream.\<close>

theorem nla_parse_safe:
  assumes "0 \<le> len" and "int head + len + nla_slack len \<le> int (length m)"
    and "policy = None \<or> nat maxtype < length (the policy)"
  shows "\<exists>err tb. libbpf_nla_parse m maxtype head len policy = Some (err, tb) \<and>
    (err = 0 \<or> err = - 1) \<and> index_ok m head len maxtype tb"
  unfolding libbpf_nla_parse_def
  by (rule nla_parse_loop_total) (use assms in \<open>auto intro: index_ok_empty\<close>)

theorem nla_parse_safe_witness:
  "\<exists>err tb. libbpf_nla_parse [5, 0, 1, 0, 7, 0, 0, 0, 9, 9] 1 0 5 (Some (take 2 extack_policy)) = Some (err, tb) \<and>
    (err = 0 \<or> err = - 1) \<and> index_ok [5, 0, 1, 0, 7, 0, 0, 0, 9, 9] 0 5 1 tb"
  using nla_parse_safe [of 5 0 "[5, 0, 1, 0, 7, 0, 0, 0, 9, 9]" "Some (take 2 extack_policy)" 1]
  by (simp add: nla_slack_def extack_policy_def)

section \<open>Encoding\<close>

text \<open>The format of a stream: attributes as pairs of type and payload, written out with their header
  and padding.\<close>

type_synonym attr = "u16 \<times> bytes"

definition nla_pad :: "nat \<Rightarrow> nat" where
  "nla_pad n = (4 - n mod 4) mod 4"

definition attr_hdr :: "attr \<Rightarrow> bytes" where
  "attr_hdr a =
     (let l = of_nat (length (snd a) + 4) in [lo8 l, hi8 l] @ [lo8 (fst a), hi8 (fst a)])"

definition enc_attr :: "attr \<Rightarrow> bytes" where
  "enc_attr a = attr_hdr a @ snd a @ replicate (nla_pad (length (snd a))) 0"

definition enc_attrs :: "attr list \<Rightarrow> bytes" where
  "enc_attrs as = concat (map enc_attr as)"

definition attr_fits :: "attr \<Rightarrow> bool" where
  "attr_fits a \<longleftrightarrow> length (snd a) + 4 < 65536"

definition attr_type :: "attr \<Rightarrow> nat" where
  "attr_type a = unat (fst a AND NOT 0xC000)"

lemma enc_attrs_simps [simp]:
  "enc_attrs [] = []" "enc_attrs (a # as) = enc_attr a @ enc_attrs as"
  by (simp_all add: enc_attrs_def)

lemma length_attr_hdr [simp]: "length (attr_hdr a) = 4"
  by (simp add: attr_hdr_def Let_def)

lemma length_enc_attr: "length (enc_attr a) = length (snd a) + 4 + nla_pad (length (snd a))"
  by (simp add: enc_attr_def)

lemma nla_pad_align: "n + nla_pad n = (n + 3) div 4 * 4"
proof -
  define q r where "q = n div 4" and "r = n mod 4"
  have n: "n = 4 * q + r" and "r < 4" by (simp_all add: q_def r_def)
  then consider "r = 0" | "r = 1" | "r = 2" | "r = 3" by linarith
  then show ?thesis
    unfolding nla_pad_def n by cases simp_all
qed

lemma length_enc_attr_mult: "length (enc_attr a) = (length (snd a) + 7) div 4 * 4"
proof -
  have "(n + 7) div 4 * 4 = (n + 3) div 4 * 4 + (4 :: nat)" for n by presburger
  then show ?thesis
    using nla_pad_align [of "length (snd a)"] by (simp add: length_enc_attr)
qed

lemma length_enc_attr_align: "int (length (enc_attr a)) = NLA_ALIGN (int (length (snd a) + 4))"
  by (simp add: length_enc_attr_mult NLA_ALIGN_eq zdiv_int)

lemma dvd_length_enc_attrs: "4 dvd length (enc_attrs as)"
proof (induction as)
  case (Cons a as)
  have "4 dvd length (enc_attr a)" by (simp add: length_enc_attr_mult)
  with Cons show ?case by simp
qed simp

lemma load16_attr_hdr:
  "load16 (pre @ attr_hdr a @ post) (length pre) = Some (of_nat (length (snd a) + 4))"
  unfolding attr_hdr_def Let_def append_assoc by (rule load16_le) (rule refl)

lemma nla_type_attr_hdr:
  "nla_type (pre @ attr_hdr a @ post) (length pre) = Some (int (attr_type a))"
proof -
  define l :: u16 where "l = of_nat (length (snd a) + 4)"
  have "load16 ((pre @ [lo8 l, hi8 l]) @ [lo8 (fst a), hi8 (fst a)] @ post) (length pre + 2) =
      Some (fst a)"
    by (rule load16_le) simp
  then show ?thesis
    unfolding nla_type_def attr_type_def attr_hdr_def Let_def l_def [symmetric] append_assoc
    by simp
qed

lemma uint_attr_len: "attr_fits a \<Longrightarrow> uint (of_nat (length (snd a) + 4) :: u16) = int (length (snd a) + 4)"
  using unat_of_nat_eq [of "length (snd a) + 4", where 'a = 16]
  by (simp add: attr_fits_def uint_nat)

lemma nla_ok_attr_hdr:
  assumes "attr_fits a" and "int (length (snd a)) + 4 \<le> remaining" and "remaining < 2 ^ 63"
  shows "nla_ok (pre @ attr_hdr a @ post) (length pre) remaining = Some True"
proof -
  have "uint (of_int remaining :: u64) = remaining"
    using assms(2,3) by (simp add: uint_word_of_int_eq take_bit_int_eq_self_iff)
  then have "\<not> (of_int remaining :: u64) < 4"
    using assms(2) by (simp add: word_less_def)
  then show ?thesis
    using assms uint_attr_len [OF assms(1)] by (simp add: nla_ok_def load16_attr_hdr)
qed

lemma nla_next_attr_hdr:
  assumes "attr_fits a"
  shows "nla_next (pre @ attr_hdr a @ post) (length pre) remaining =
    Some (length pre + length (enc_attr a), remaining - int (length (enc_attr a)))"
  using length_enc_attr_align [of a] uint_attr_len [OF assms]
  by (simp add: nla_next_def load16_attr_hdr Let_def)

lemma nla_parse_attr_hdr:
  assumes "length tb = nat (maxtype + 1)"
  shows "nla_parse_attr (pre @ attr_hdr a @ post) maxtype None (length pre) tb =
    Some (0, if int (attr_type a) \<le> maxtype then tb[attr_type a := Some (length pre)] else tb)"
  using assms by (auto simp: nla_parse_attr_def nla_type_attr_hdr tb_set_def)

text \<open>The index a stream should give: the offset of the last attribute of each type.\<close>

primrec attr_index :: "int \<Rightarrow> ptr \<Rightarrow> attr list \<Rightarrow> nla_index \<Rightarrow> nla_index" where
  "attr_index maxtype p [] tb = tb"
| "attr_index maxtype p (a # as) tb =
     attr_index maxtype (p + length (enc_attr a)) as
       (if int (attr_type a) \<le> maxtype then tb[attr_type a := Some p] else tb)"

lemma nla_parse_loop_enc:
  assumes "\<forall>a \<in> set as. attr_fits a" and "length (enc_attrs as) < 2 ^ 63"
    and "length tb = nat (maxtype + 1)"
  shows "nla_parse_loop (pre @ enc_attrs as @ post) maxtype None (length pre)
      (int (length (enc_attrs as))) tb = Some (0, attr_index maxtype (length pre) as tb)"
  using assms
proof (induction as arbitrary: pre tb)
  case Nil
  then show ?case by (simp add: nla_parse_loop.simps nla_ok_def)
next
  case (Cons a as)
  let ?m = "pre @ enc_attr a @ enc_attrs as @ post"
  let ?rem = "int (length (enc_attrs (a # as)))"
  let ?tb = "if int (attr_type a) \<le> maxtype then tb[attr_type a := Some (length pre)] else tb"
  have fits: "attr_fits a" using Cons.prems(1) by simp
  have ok: "nla_ok ?m (length pre) ?rem = Some True"
    using Cons.prems(2) unfolding enc_attr_def append_assoc
    by (intro nla_ok_attr_hdr fits) (simp_all add: length_enc_attr)
  have attr: "nla_parse_attr ?m maxtype None (length pre) tb = Some (0, ?tb)"
    using Cons.prems(3) unfolding enc_attr_def append_assoc by (rule nla_parse_attr_hdr)
  have nxt: "nla_next ?m (length pre) ?rem =
      Some (length (pre @ enc_attr a), int (length (enc_attrs as)))"
    using nla_next_attr_hdr [OF fits, of pre _ ?rem] by (simp add: enc_attr_def)
  have "nla_parse_loop ((pre @ enc_attr a) @ enc_attrs as @ post) maxtype None
      (length (pre @ enc_attr a)) (int (length (enc_attrs as))) ?tb =
      Some (0, attr_index maxtype (length (pre @ enc_attr a)) as ?tb)"
    by (rule Cons.IH) (use Cons.prems in simp_all)
  then have "nla_parse_loop ?m maxtype None (length pre) ?rem tb =
      Some (0, attr_index maxtype (length (pre @ enc_attr a)) as ?tb)"
    by (simp only: nla_parse_loop_step [OF ok attr nxt] append_assoc) simp
  then show ?case by simp
qed

lemma nla_parse_enc:
  assumes "\<forall>a \<in> set as. attr_fits a" and "length (enc_attrs as) < 2 ^ 63"
  shows "libbpf_nla_parse (pre @ enc_attrs as @ post) maxtype (length pre)
      (int (length (enc_attrs as))) None =
    Some (0, attr_index maxtype (length pre) as (replicate (nat (maxtype + 1)) None))"
  unfolding libbpf_nla_parse_def by (rule nla_parse_loop_enc) (use assms in simp_all)

text \<open>The payload of an entry of the index.\<close>

definition attr_value :: "bytes \<Rightarrow> ptr option \<Rightarrow> bytes option" where
  "attr_value m e = do {
     p \<leftarrow> e;
     n \<leftarrow> libbpf_nla_len m p;
     if n < 0 then None else load_bytes m (libbpf_nla_data p) (nat n) }"

lemma attr_value_enc_attr:
  assumes "attr_fits a"
  shows "attr_value (pre @ enc_attr a @ post) (Some (length pre)) = Some (snd a)"
proof -
  have "libbpf_nla_len (pre @ enc_attr a @ post) (length pre) = Some (int (length (snd a)))"
    using uint_attr_len [OF assms] by (simp add: libbpf_nla_len_def enc_attr_def load16_attr_hdr)
  then show ?thesis
    by (simp add: attr_value_def load_bytes_def libbpf_nla_data_def length_enc_attr)
       (simp add: enc_attr_def)
qed

definition attr_map :: "attr list \<Rightarrow> nat \<Rightarrow> bytes option" where
  "attr_map as = map_of (rev (map (\<lambda>a. (attr_type a, snd a)) as))"

lemma attr_map_simps [simp]:
  "attr_map [] t = None"
  "attr_map (a # as) t =
     (case attr_map as t of None \<Rightarrow> if t = attr_type a then Some (snd a) else None | Some d \<Rightarrow> Some d)"
  by (simp_all add: attr_map_def map_add_def split: option.split)

lemma attr_index_value:
  assumes "\<forall>a \<in> set as. attr_fits a" and "length tb = nat (maxtype + 1)" and "t < length tb"
  shows "attr_value (pre @ enc_attrs as @ post) (attr_index maxtype (length pre) as tb ! t) =
    (case attr_map as t of
       None \<Rightarrow> attr_value (pre @ enc_attrs as @ post) (tb ! t)
     | Some d \<Rightarrow> Some d)"
  using assms
proof (induction as arbitrary: pre tb)
  case (Cons a as)
  let ?m = "pre @ enc_attr a @ enc_attrs as @ post"
  define tb' where
    "tb' = (if int (attr_type a) \<le> maxtype then tb[attr_type a := Some (length pre)] else tb)"
  have "attr_value ?m (attr_index maxtype (length (pre @ enc_attr a)) as tb' ! t) =
      (case attr_map as t of None \<Rightarrow> attr_value ?m (tb' ! t) | Some d \<Rightarrow> Some d)"
    using Cons.IH [of tb' "pre @ enc_attr a", unfolded append_assoc] Cons.prems
    by (simp add: tb'_def)
  moreover have "attr_value ?m (tb' ! t) =
      (if t = attr_type a then Some (snd a) else attr_value ?m (tb ! t))"
    using Cons.prems attr_value_enc_attr [of a pre "enc_attrs as @ post"]
    by (auto simp: tb'_def nth_list_update)
  ultimately show ?case by (auto simp: tb'_def [symmetric] split: option.split)
qed simp

lemma attr_index_None:
  assumes "length tb = nat (maxtype + 1)" and "t < length tb"
  shows "attr_index maxtype p as tb ! t = None \<longleftrightarrow> tb ! t = None \<and> attr_map as t = None"
  using assms by (induction as arbitrary: p tb) (auto simp: nth_list_update split: option.splits)

lemma nla_parse_lookup:
  assumes "\<forall>a \<in> set as. attr_fits a" and "length (enc_attrs as) < 2 ^ 31"
  obtains tb where "libbpf_nla_parse (pre @ enc_attrs as @ post) maxtype (length pre)
        (int (length (enc_attrs as))) None = Some (0, tb)"
    and "\<And>t. int t \<le> maxtype \<Longrightarrow> attr_value (pre @ enc_attrs as @ post) (tb ! t) = attr_map as t"
    and "\<And>t. int t \<le> maxtype \<Longrightarrow> tb ! t = None \<longleftrightarrow> attr_map as t = None"
proof
  let ?tb = "replicate (nat (maxtype + 1)) None :: nla_index"
  show "libbpf_nla_parse (pre @ enc_attrs as @ post) maxtype (length pre) (int (length (enc_attrs as))) None =
      Some (0, attr_index maxtype (length pre) as ?tb)"
    using assms by (intro nla_parse_enc) simp_all
  show "attr_value (pre @ enc_attrs as @ post) (attr_index maxtype (length pre) as ?tb ! t) = attr_map as t"
    if "int t \<le> maxtype" for t
    using attr_index_value [OF assms(1), of ?tb maxtype t pre post] that
    by (auto simp: attr_value_def split: option.split)
  show "attr_index maxtype (length pre) as ?tb ! t = None \<longleftrightarrow> attr_map as t = None"
    if "int t \<le> maxtype" for t
    using attr_index_None [of ?tb maxtype t "length pre" as] that by auto
qed

text \<open>C20. Round trip: a stream written in the format is parsed back to the map from types to the payload
  of the last attribute of that type, wherever it lies in a buffer; unknown types are ignored and the
  two flag bits of a type are masked off.\<close>

theorem nla_parse_roundtrip:
  assumes "\<forall>a \<in> set as. attr_fits a" and "length (enc_attrs as) < 2 ^ 31"
  shows "\<exists>tb. libbpf_nla_parse (pre @ enc_attrs as @ post) maxtype (length pre)
        (int (length (enc_attrs as))) None = Some (0, tb) \<and>
      (\<forall>t. int t \<le> maxtype \<longrightarrow> attr_value (pre @ enc_attrs as @ post) (tb ! t) = attr_map as t)"
  by (rule nla_parse_lookup [OF assms]) blast

theorem nla_parse_roundtrip_witness:
  "\<exists>tb. libbpf_nla_parse ([9, 9] @ enc_attrs [(1, [7]), (0x8002, [1, 2, 3, 4, 5]), (1, [8, 8])] @ [3]) 2
        2 (int (length (enc_attrs [(1, [7]), (0x8002, [1, 2, 3, 4, 5]), (1, [8, 8])]))) None =
      Some (0, tb) \<and>
    attr_value ([9, 9] @ enc_attrs [(1, [7]), (0x8002, [1, 2, 3, 4, 5]), (1, [8, 8])] @ [3]) (tb ! 1) =
      Some [8, 8]"
proof -
  let ?as = "[(1, [7]), (0x8002, [1, 2, 3, 4, 5]), (1, [8, 8])] :: attr list"
  have fits: "\<forall>a \<in> set ?as. attr_fits a" and len: "length (enc_attrs ?as) < 2 ^ 31"
    by (simp_all add: attr_fits_def length_enc_attr nla_pad_def)
  have map: "attr_map ?as 1 = Some [8, 8]" and l2: "length [9, 9 :: u8] = 2"
    by (simp_all add: attr_type_def)
  from nla_parse_roundtrip [OF fits len, of "[9, 9]" "[3]" 2, unfolded l2]
  obtain tb where "libbpf_nla_parse ([9, 9] @ enc_attrs ?as @ [3]) 2 2 (int (length (enc_attrs ?as))) None =
      Some (0, tb)" "attr_value ([9, 9] @ enc_attrs ?as @ [3]) (tb ! 1) = attr_map ?as 1"
    by fastforce
  with map show ?thesis by metis
qed

text \<open>Reading the value of an entry: a nested stream, a byte, a 32-bit number.\<close>

lemma attr_valueE:
  assumes "attr_value m e = Some d"
  obtains p where "e = Some p" and "libbpf_nla_len m p = Some (int (length d))"
    and "m = take (p + 4) m @ d @ drop (p + 4 + length d) m" and "length (take (p + 4) m) = p + 4"
proof -
  obtain p n where p: "e = Some p" "libbpf_nla_len m p = Some n" "0 \<le> n"
      "load_bytes m (p + 4) (nat n) = Some d"
    using assms by (auto simp: attr_value_def bind_eq_Some_conv libbpf_nla_data_def split: if_splits)
  then have d: "d = take (nat n) (drop (p + 4) m)" "p + 4 + nat n \<le> length m"
    by (auto simp: load_bytes_def split: if_splits)
  then have len: "length d = nat n" by simp
  show ?thesis
  proof (rule that [OF p(1)])
    show "libbpf_nla_len m p = Some (int (length d))" using p(2,3) len by simp
    have "d @ drop (p + 4 + length d) m = drop (p + 4) m"
      using append_take_drop_id [of "nat n" "drop (p + 4) m"] d(1) len
      by (simp add: drop_drop add.commute)
    then have "take (p + 4) m @ d @ drop (p + 4 + length d) m = take (p + 4) m @ drop (p + 4) m"
      by (rule arg_cong)
    then show "m = take (p + 4) m @ d @ drop (p + 4 + length d) m" by simp
    show "length (take (p + 4) m) = p + 4" using d(2) by simp
  qed
qed

lemma nla_parse_nested_lookup:
  assumes "attr_value m e = Some (enc_attrs as)" and "\<forall>a \<in> set as. attr_fits a"
    and "length (enc_attrs as) < 2 ^ 31"
  obtains p tb where "e = Some p" and "libbpf_nla_parse_nested m maxtype p None = Some (0, tb)"
    and "\<And>t. int t \<le> maxtype \<Longrightarrow> attr_value m (tb ! t) = attr_map as t"
    and "\<And>t. int t \<le> maxtype \<Longrightarrow> tb ! t = None \<longleftrightarrow> attr_map as t = None"
proof -
  obtain p where p: "e = Some p" "libbpf_nla_len m p = Some (int (length (enc_attrs as)))"
      "m = take (p + 4) m @ enc_attrs as @ drop (p + 4 + length (enc_attrs as)) m"
      "length (take (p + 4) m) = p + 4"
    using assms(1) by (rule attr_valueE)
  obtain tb where tb: "libbpf_nla_parse m maxtype (p + 4) (int (length (enc_attrs as))) None = Some (0, tb)"
      "\<And>t. int t \<le> maxtype \<Longrightarrow> attr_value m (tb ! t) = attr_map as t"
      "\<And>t. int t \<le> maxtype \<Longrightarrow> tb ! t = None \<longleftrightarrow> attr_map as t = None"
    by (rule nla_parse_lookup [OF assms(2,3), of "take (p + 4) m" "drop (p + 4 + length (enc_attrs as)) m" maxtype,
          unfolded p(3) [symmetric] p(4)]) blast
  show ?thesis
    by (rule that [OF p(1) _ tb(2,3)]) (simp_all add: libbpf_nla_parse_nested_def p(2) libbpf_nla_data_def tb(1))
qed

lemma getattr_u8_value:
  "attr_value m (Some p) = Some d \<Longrightarrow> d \<noteq> [] \<Longrightarrow> libbpf_nla_getattr_u8 m p = Some (hd d)"
  by (erule attr_valueE)
     (metis append_Cons libbpf_nla_data_def libbpf_nla_getattr_u8_def list.collapse load8_at option.inject)

lemma getattr_u32_value:
  "attr_value m (Some p) = Some (bytes32 w) \<Longrightarrow> libbpf_nla_getattr_u32 m p = Some w"
  by (erule attr_valueE)
     (metis libbpf_nla_data_def libbpf_nla_getattr_u32_def load32_le option.inject)

section \<open>Reading past the end\<close>

text \<open>A stream that ends with an attribute whose padding is missing drives \<^verbatim>\<open>remaining\<close> below
  zero, which the comparison in \<^verbatim>\<open>nla_ok\<close> takes for a large number: the length field of the next
  attribute is read past the end of the stream. When the stream fills the buffer the read is outside it.\<close>

theorem nla_parse_overread:
  assumes "length d mod 4 \<noteq> 0" and "length d < 65532"
  shows "libbpf_nla_parse (attr_hdr (t, d) @ d) maxtype 0 (int (length d) + 4) None = None"
proof -
  let ?m = "[] @ attr_hdr (t, d) @ d" and ?rem = "int (length d) + 4"
  let ?tb = "replicate (nat (maxtype + 1)) None :: nla_index"
  have fits: "attr_fits (t, d)" using assms(2) by (simp add: attr_fits_def)
  define e where "e = length (enc_attr (t, d))"
  have e: "e = (length d + 7) div 4 * 4" "length d + 4 < e" "e < length d + 8"
    unfolding e_def length_enc_attr_mult snd_conv using assms(1) by (simp, presburger, presburger)
  have ok: "nla_ok ?m (length ([] :: bytes)) ?rem = Some True"
    using assms(2) by (intro nla_ok_attr_hdr fits) simp_all
  note attr = nla_parse_attr_hdr [of ?tb maxtype "[]" "(t, d)" d]
  have nxt: "nla_next ?m (length ([] :: bytes)) ?rem = Some (e, ?rem - int e)"
    using nla_next_attr_hdr [OF fits, of "[]" d ?rem] by (simp add: e_def)
  have "?rem - int e \<in> {- 3 .. - 1}" using e(2,3) by auto
  then have "?rem - int e = - 3 \<or> ?rem - int e = - 2 \<or> ?rem - int e = - 1" by auto
  then have "\<not> (of_int (?rem - int e) :: u64) < 4" by (elim disjE) (simp_all only:, simp_all)
  moreover have "load16 ?m e = None" using e(2) by simp
  ultimately have "nla_ok ?m e (?rem - int e) = None"
    by (simp only: nla_ok_def if_False bind.bind_lzero)
  then have "nla_parse_loop ?m maxtype None e (?rem - int e) tb = None" for tb
    by (simp add: nla_parse_loop.simps)
  then show ?thesis
    using nla_parse_loop_step [OF ok attr nxt] by (simp add: libbpf_nla_parse_def)
qed

theorem nla_parse_overread_witness:
  "libbpf_nla_parse (attr_hdr (1, [65]) @ [65]) 3 0 5 None = None"
  using nla_parse_overread [of "[65]" 1 3] by simp

text \<open>The bytes past the end have no influence all the same: with a negative \<^verbatim>\<open>remaining\<close> the last
  comparison of \<^verbatim>\<open>nla_ok\<close> fails whatever the length field says.\<close>

lemma load16_prefix: "take n m = take n m' \<Longrightarrow> a + 2 \<le> n \<Longrightarrow> n \<le> length m \<Longrightarrow> n \<le> length m' \<Longrightarrow>
    load16 m a = load16 m' a"
  and load8_prefix: "take n m = take n m' \<Longrightarrow> a < n \<Longrightarrow> n \<le> length m \<Longrightarrow> n \<le> length m' \<Longrightarrow>
    load8 m a = load8 m' a"
  unfolding load16_def load8_def
  using nth_take [of a n m] nth_take [of a n m'] nth_take [of "a + 1" n m] nth_take [of "a + 1" n m']
  by auto

lemma nla_parse_attr_prefix:
  assumes "take n m = take n m'" "n \<le> length m" "n \<le> length m'"
    and "load16 m p = Some l" "4 \<le> uint l" "int p + uint l \<le> int n"
  shows "nla_parse_attr m maxtype policy p tb = nla_parse_attr m' maxtype policy p tb"
proof -
  have p4: "p + 4 \<le> n" using assms(5,6) by linarith
  have type: "nla_type m p = nla_type m' p"
    using p4 load16_prefix [OF assms(1) _ assms(2,3), of "p + 2"] by (simp add: nla_type_def)
  have l': "load16 m' p = Some l"
    using p4 load16_prefix [OF assms(1) _ assms(2,3), of p] assms(4) by simp
  have "nat (int (libbpf_nla_data p) + (uint l - 4) - 1) < n"
    using assms(5,6) by (simp add: libbpf_nla_data_def nat_less_iff)
  then have "load8 m (nat (int (libbpf_nla_data p) + (uint l - 4) - 1)) =
      load8 m' (nat (int (libbpf_nla_data p) + (uint l - 4) - 1))"
    by (rule load8_prefix [OF assms(1) _ assms(2,3)])
  moreover have "libbpf_nla_len m p = Some (uint l - 4)" "libbpf_nla_len m' p = Some (uint l - 4)"
    using assms(4) l' by (simp_all add: libbpf_nla_len_def)
  ultimately have "validate_nla m p maxtype pol = validate_nla m' p maxtype pol" for pol
    by (cases "nla_type m' p") (simp_all add: validate_nla_def type Let_def)
  then show ?thesis by (cases "nla_type m' p"; cases policy) (simp_all add: nla_parse_attr_def type)
qed

lemma nla_ok_prefix:
  assumes "take n m = take n m'" "n + 5 \<le> length m" "n + 5 \<le> length m'"
    and "int p + remaining = int n" "- 4 < remaining"
  shows "nla_ok m p remaining = nla_ok m' p remaining"
proof (cases "4 \<le> remaining")
  case True
  then show ?thesis
    using load16_prefix [OF assms(1), of p] assms by (simp add: nla_ok_def)
next
  case False
  have *: "nla_ok x p remaining = Some False" if "n + 5 \<le> length x" for x
  proof -
    have "remaining \<notin> {0..<4} \<Longrightarrow> p + 2 \<le> length x" using that assms(4,5) False by auto
    from nla_ok_defined [OF this] obtain b where "nla_ok x p remaining = Some b" by blast
    with False show ?thesis by (cases b) (auto elim: nla_ok_True)
  qed
  show ?thesis using * assms(2,3) by simp
qed

lemma nla_parse_loop_prefix:
  assumes "take n m = take n m'" "n + 5 \<le> length m" "n + 5 \<le> length m'"
    and "int p + remaining = int n" "- 4 < remaining"
  shows "nla_parse_loop m maxtype policy p remaining tb = nla_parse_loop m' maxtype policy p remaining tb"
  using assms
proof (induction m maxtype policy p remaining tb rule: nla_parse_loop.induct)
  case (1 m maxtype policy p remaining tb)
  note prems = "1.prems"
  note ok = nla_ok_prefix [OF prems]
  show ?case
  proof (cases "nla_ok m p remaining = Some True")
    case False
    then show ?thesis
      using ok by (auto simp: nla_parse_loop.simps split: option.split bool.split)
  next
    case True
    then obtain l where l: "load16 m p = Some l" "4 \<le> uint l" "uint l \<le> remaining"
      by (rule nla_ok_True)
    have "load16 m' p = load16 m p"
      using load16_prefix [OF prems(1), of p] prems(2-4) l(2,3) by simp
    then have nxt: "nla_next m' p remaining = nla_next m p remaining" by (simp add: nla_next_def)
    have attr: "nla_parse_attr m' maxtype policy p tb = nla_parse_attr m maxtype policy p tb"
      using nla_parse_attr_prefix [OF prems(1) _ _ l(1,2)] prems(2-4) l(3) by simp
    have IH: "nla_parse_loop m maxtype policy p' r' tb' = nla_parse_loop m' maxtype policy p' r' tb'"
      if "nla_parse_attr m maxtype policy p tb = Some (err, tb')" "\<not> err < 0"
        "nla_next m p remaining = Some (p', r')" for err tb' p' r'
      using nla_next_step [OF True that(3)] prems
      by (intro "1.IH" [OF True refl that(1) refl that(2,3) refl]) auto
    show ?thesis
      using True ok IH
      by (auto simp: nla_parse_loop.simps [of _ _ _ p] attr nxt split: option.split)
  qed
qed

text \<open>The parser sees only the stream: two buffers that agree on it give the same index, whatever they
  hold after it.\<close>

theorem nla_parse_tail_irrelevant:
  assumes "take (head + len) m = take (head + len) m'"
    and "head + len + 5 \<le> length m" "head + len + 5 \<le> length m'"
  shows "libbpf_nla_parse m maxtype head (int len) policy = libbpf_nla_parse m' maxtype head (int len) policy"
  unfolding libbpf_nla_parse_def
  by (rule nla_parse_loop_prefix [OF assms]) simp_all

theorem nla_parse_tail_irrelevant_witness:
  "libbpf_nla_parse [5, 0, 1, 0, 7, 1, 2, 3, 4, 5] 3 0 (int 5) None =
   libbpf_nla_parse [5, 0, 1, 0, 7, 255, 255, 255, 255, 255, 0] 3 0 (int 5) None"
  by (rule nla_parse_tail_irrelevant) (simp_all add: numeral_eq_Suc)

text \<open>The length of the attributes after an error message is taken from the start of the message, 16
  bytes too early, although they start after its header: with a capped message and no attribute at all
  the 16 bytes that follow the message in the buffer are taken for attributes, and a string left there
  by an earlier message is printed as the kernel's.\<close>

theorem errormsg_reads_past_message:
  "libbpf_nla_dump_errormsg
     (bytes32 36 @ [2, 0, 0, 3] @ bytes32 1 @ bytes32 7 @ bytes32 (- 22) @ replicate 16 0 @
      enc_attr (1, [111, 108, 100, 0]) @ replicate 8 0) 0 =
   Some (0, [KernelError (Some 40)])"
  by code_simp

end
