(* ===== verification/Netlink.thy ===== *)
theory Netlink
  imports Nlattr
begin

text \<open>
  The netlink client of libbpf, \<^verbatim>\<open>libbpf/src/netlink.c\<close>: opening a route socket, the receive loop
  over multipart answers, the request that attaches an XDP program to an interface, and the dumps of
  links, classes, queueing disciplines and filters. The operating system is the record
  \<open>netlink_sys\<close>: the results of the socket calls, and for each request that is sent the list of
  results of the \<^verbatim>\<open>recv\<close> calls that follow. A \<^verbatim>\<open>recv\<close> beyond that list blocks, which is
  \<^term>\<open>None\<close>. Functions return their result with the list of socket operations they made.
\<close>

section \<open>Definitions\<close>

subsection \<open>The operating system\<close>

record netlink_sys =
  nl_socket :: "int + int"
  nl_setsockopt :: int
  nl_bind :: "int option"
  nl_getsockname :: "int + (u32 \<times> nat)"
  nl_send :: "bytes \<Rightarrow> int option"
  nl_recv :: "bytes \<Rightarrow> (int + bytes) list"
  nl_stack :: bytes
  nl_time :: u32

text \<open>\<^term>\<open>Inl\<close> and \<^term>\<open>Some\<close> of a call that only reports failure carry \<^verbatim>\<open>errno\<close>;
  \<open>nl_getsockname\<close> gives the port and the length of the address; \<open>nl_stack\<close> is what the
  receive buffer holds before the first \<^verbatim>\<open>recv\<close>.\<close>

datatype nl_effect = NlOpen int | NlSend int bytes | NlClose int

definition LIBBPF_ERRNO__INTERNAL :: int where
  "LIBBPF_ERRNO__INTERNAL = 4004"

definition LIBBPF_ERRNO__WRNGPID :: int where
  "LIBBPF_ERRNO__WRNGPID = 4011"

definition LIBBPF_ERRNO__INVSEQ :: int where
  "LIBBPF_ERRNO__INVSEQ = 4012"

definition LIBBPF_ERRNO__NLPARSE :: int where
  "LIBBPF_ERRNO__NLPARSE = 4013"

text \<open>\<^verbatim>\<open>struct sockaddr_nl\<close> is 12 bytes. A failed \<^verbatim>\<open>setsockopt\<close> is only reported.\<close>

definition libbpf_netlink_open :: "netlink_sys \<Rightarrow> (int + (int \<times> u32)) \<times> nl_effect list" where
  "libbpf_netlink_open sys =
     (case nl_socket sys of
        Inl errno \<Rightarrow> (Inl (- errno), [])
      | Inr sock \<Rightarrow>
          (case nl_bind sys of
             Some errno \<Rightarrow> (Inl (- errno), [NlOpen sock, NlClose sock])
           | None \<Rightarrow>
               (case nl_getsockname sys of
                  Inl errno \<Rightarrow> (Inl (- errno), [NlOpen sock, NlClose sock])
                | Inr (nl_pid, addrlen) \<Rightarrow>
                    if addrlen \<noteq> 12
                    then (Inl (- LIBBPF_ERRNO__INTERNAL), [NlOpen sock, NlClose sock])
                    else (Inr (sock, nl_pid), [NlOpen sock]))))"

subsection \<open>Messages\<close>

text \<open>The macros of \<^verbatim>\<open>linux/netlink.h\<close>. A header is the length (32 bits at 0), type (16 at 4),
  flags (16 at 6), sequence number (32 at 8) and port (32 at 12).\<close>

definition NLMSG_ALIGN :: "u32 \<Rightarrow> u32" where
  "NLMSG_ALIGN len = (len + 3) AND NOT 3"

definition NLMSG_OK :: "bytes \<Rightarrow> ptr \<Rightarrow> int \<Rightarrow> bool option" where
  "NLMSG_OK m nh len =
     (if len < 16 then Some False
      else do { l \<leftarrow> load32 m nh; Some (16 \<le> l \<and> l \<le> of_int len) })"

definition NLMSG_NEXT :: "bytes \<Rightarrow> ptr \<Rightarrow> int \<Rightarrow> (ptr \<times> int) option" where
  "NLMSG_NEXT m nh len = do {
     l \<leftarrow> load32 m nh;
     Some (nh + unat (NLMSG_ALIGN l), sint (of_int len - NLMSG_ALIGN l)) }"

definition NLM_F_REQUEST :: u16 where "NLM_F_REQUEST = 0x01"

definition NLM_F_MULTI :: u16 where "NLM_F_MULTI = 0x02"

definition NLM_F_ACK :: u16 where "NLM_F_ACK = 0x04"

definition NLM_F_DUMP :: u16 where "NLM_F_DUMP = 0x300"

definition NLMSG_ERROR :: u16 where "NLMSG_ERROR = 2"

definition NLMSG_DONE :: u16 where "NLMSG_DONE = 3"

text \<open>A handler of messages with the state \<open>'c\<close> behind its cookie: it reads the message at an
  offset of the buffer.\<close>

type_synonym 'c dump_nlmsg = "bytes \<Rightarrow> ptr \<Rightarrow> 'c \<Rightarrow> (int \<times> 'c) option"

text \<open>The body of the inner loop of \<^verbatim>\<open>bpf_netlink_recv\<close>: \<^term>\<open>Inl\<close> leaves the function with
  a result, \<^term>\<open>Inr\<close> goes on to the next message with the value of \<^verbatim>\<open>multipart\<close>.\<close>

definition nlmsg_body ::
  "bytes \<Rightarrow> u32 \<Rightarrow> u32 \<Rightarrow> 'c dump_nlmsg option \<Rightarrow> ptr \<Rightarrow> bool \<Rightarrow> 'c \<Rightarrow>
   ((int \<times> 'c) + (bool \<times> 'c)) option" where
  "nlmsg_body m nl_pid seq fn nh multipart c = do {
     pid \<leftarrow> load32 m (nh + 12);
     if pid \<noteq> nl_pid then Some (Inl (- LIBBPF_ERRNO__WRNGPID, c))
     else do {
       s \<leftarrow> load32 m (nh + 8);
       if s \<noteq> seq then Some (Inl (- LIBBPF_ERRNO__INVSEQ, c))
       else do {
         flags \<leftarrow> load16 m (nh + 6);
         let multipart = (multipart \<or> flags AND NLM_F_MULTI \<noteq> 0);
         type \<leftarrow> load16 m (nh + 4);
         if type = NLMSG_ERROR then do {
           error \<leftarrow> load32 m (nh + 16);
           if error = 0 then Some (Inr (multipart, c))
           else do {
             _ \<leftarrow> libbpf_nla_dump_errormsg m nh;
             Some (Inl (sint error, c)) } }
         else if type = NLMSG_DONE then Some (Inl (0, c))
         else (case fn of
             None \<Rightarrow> Some (Inr (multipart, c))
           | Some f \<Rightarrow> do {
               (ret, c') \<leftarrow> f m nh c;
               Some (if ret \<noteq> 0 then Inl (ret, c') else Inr (multipart, c')) }) } } }"

lemma NLMSG_ALIGN_mult: "NLMSG_ALIGN w = push_bit 2 (drop_bit 2 (w + 3))"
proof -
  have "NLMSG_ALIGN w = (w + 3) AND NOT (mask 2)"
    by (simp add: NLMSG_ALIGN_def mask_eq_exp_minus_1)
  also have "\<dots> = push_bit 2 (drop_bit 2 (w + 3))"
    by (rule bit_word_eqI) (auto simp: bit_and_iff bit_not_iff bit_mask_iff bit_push_bit_iff bit_drop_bit_eq)
  finally show ?thesis .
qed

lemma unat_NLMSG_ALIGN:
  assumes "unat w < 2 ^ 31"
  shows "unat (NLMSG_ALIGN w) = (unat w + 3) div 4 * 4"
proof -
  have w3: "unat (w + 3) = unat w + 3"
    using assms by (simp add: unat_word_ariths)
  have "unat (drop_bit 2 (w + 3)) = (unat w + 3) div 4"
    by (simp add: drop_bit_eq_div unat_div_distrib w3)
  then have "unat (push_bit 2 (drop_bit 2 (w + 3))) = (unat w + 3) div 4 * 4 mod 2 ^ 32"
    by (simp add: push_bit_eq_mult unat_word_ariths)
  also have "\<dots> = (unat w + 3) div 4 * 4"
    using assms by (intro mod_less) simp
  finally show ?thesis by (simp only: NLMSG_ALIGN_mult)
qed

lemma NLMSG_OK_True:
  assumes "NLMSG_OK m nh len = Some True" and "len < 2147483648"
  obtains l where "load32 m nh = Some l" "16 \<le> unat l" "unat l \<le> nat len"
proof -
  obtain l where l: "load32 m nh = Some l" "16 \<le> l" "l \<le> of_int len" "16 \<le> len"
    using assms(1) by (auto simp: NLMSG_OK_def bind_eq_Some_conv split: if_splits)
  have "unat (of_nat (nat len) :: u32) = nat len"
    using assms(2) by (intro unat_of_nat_eq) simp
  moreover have "of_int len = (of_nat (nat len) :: u32)" using l(4) by simp
  moreover have "unat (16 :: u32) = 16" by simp
  ultimately have "16 \<le> unat l" "unat l \<le> nat len"
    using l(2,3) by (metis word_le_nat_alt)+
  with l(1) show ?thesis by (rule that)
qed

lemma NLMSG_NEXT_eq:
  assumes "load32 m nh = Some l" "16 \<le> unat l" "unat l \<le> nat len" "len < 2147483648"
  shows "NLMSG_NEXT m nh len =
    Some (nh + (unat l + 3) div 4 * 4, len - int ((unat l + 3) div 4 * 4))"
proof -
  define a where "a = (unat l + 3) div 4 * 4"
  have small: "unat l < 2 ^ 31" using assms(3,4) by simp
  have a: "unat l \<le> a" "a \<le> unat l + 3" unfolding a_def by presburger+
  have al: "NLMSG_ALIGN l = of_nat a"
    using unat_NLMSG_ALIGN [OF small] by (metis a_def of_nat_unat ucast_id)
  have "- 2147483648 \<le> len - int a" "len - int a < 2147483648"
    using a assms(2-4) by linarith+
  then have "sint (of_int (len - int a) :: u32) = len - int a"
    unfolding sint_sbintrunc' by (simp add: signed_take_bit_int_eq_self_iff)
  then show ?thesis
    using unat_NLMSG_ALIGN [OF small] by (simp add: NLMSG_NEXT_def assms(1) a_def [symmetric] al)
qed

lemma NLMSG_NEXT_less:
  assumes "NLMSG_OK m nh len = Some True" and "NLMSG_NEXT m nh len = Some (nh', len')"
  shows "nat len' < nat len"
proof (cases "len < 2147483648")
  case True
  from assms(1) True obtain l where l: "load32 m nh = Some l" "16 \<le> unat l" "unat l \<le> nat len"
    by (rule NLMSG_OK_True)
  have "unat l \<le> (unat l + 3) div 4 * 4" by presburger
  moreover have "len' = len - int ((unat l + 3) div 4 * 4)"
    using assms(2) NLMSG_NEXT_eq [OF l True] by simp
  ultimately show ?thesis using l(2,3) by linarith
next
  case False
  have "len' < 2147483648"
    using assms(2) sint_lt [where 'a = 32] by (auto simp: NLMSG_NEXT_def bind_eq_Some_conv)
  with False show ?thesis by simp
qed

function nlmsg_loop ::
  "bytes \<Rightarrow> u32 \<Rightarrow> u32 \<Rightarrow> 'c dump_nlmsg option \<Rightarrow> ptr \<Rightarrow> int \<Rightarrow> bool \<Rightarrow> 'c \<Rightarrow>
   ((int \<times> 'c) + (bool \<times> 'c)) option" where
  "nlmsg_loop m nl_pid seq fn nh len multipart c =
     (case NLMSG_OK m nh len of
        None \<Rightarrow> None
      | Some False \<Rightarrow> Some (Inr (multipart, c))
      | Some True \<Rightarrow>
          (case nlmsg_body m nl_pid seq fn nh multipart c of
             None \<Rightarrow> None
           | Some (Inl r) \<Rightarrow> Some (Inl r)
           | Some (Inr (multipart', c')) \<Rightarrow>
               (case NLMSG_NEXT m nh len of
                  None \<Rightarrow> None
                | Some (nh', len') \<Rightarrow> nlmsg_loop m nl_pid seq fn nh' len' multipart' c')))"
  by pat_completeness auto

termination
  by (relation "measure (\<lambda>(m, nl_pid, seq, fn, nh, len, multipart, c). nat len)")
     (auto dest: NLMSG_NEXT_less)

declare nlmsg_loop.simps [simp del]

lemma nlmsg_loop_end [simp]: "nlmsg_loop m nl_pid seq fn nh 0 mp c = Some (Inr (mp, c))"
  by (simp add: nlmsg_loop.simps NLMSG_OK_def)

text \<open>The outer loop of \<^verbatim>\<open>bpf_netlink_recv\<close>: each \<^verbatim>\<open>recv\<close> overwrites the start of the
  4096-byte buffer and leaves the rest.\<close>

fun netlink_recv_loop ::
  "bytes \<Rightarrow> u32 \<Rightarrow> u32 \<Rightarrow> 'c dump_nlmsg option \<Rightarrow> (int + bytes) list \<Rightarrow> 'c \<Rightarrow> (int \<times> 'c) option" where
  "netlink_recv_loop buf nl_pid seq fn [] c = None"
| "netlink_recv_loop buf nl_pid seq fn (Inl errno # rs) c = Some (- errno, c)"
| "netlink_recv_loop buf nl_pid seq fn (Inr d # rs) c =
     (let d = take 4096 d; buf = d @ drop (length d) buf in
      if d = [] then Some (0, c)
      else do {
        r \<leftarrow> nlmsg_loop buf nl_pid seq fn 0 (int (length d)) False c;
        case r of
          Inl ret \<Rightarrow> Some ret
        | Inr (multipart, c') \<Rightarrow>
            if multipart then netlink_recv_loop buf nl_pid seq fn rs c' else Some (0, c') })"

definition bpf_netlink_recv ::
  "netlink_sys \<Rightarrow> bytes \<Rightarrow> u32 \<Rightarrow> u32 \<Rightarrow> 'c dump_nlmsg option \<Rightarrow> 'c \<Rightarrow> (int \<times> 'c) option" where
  "bpf_netlink_recv sys req nl_pid seq fn c =
     netlink_recv_loop (nl_stack sys) nl_pid seq fn (nl_recv sys req) c"

subsection \<open>Attaching a program\<close>

definition RTM_SETLINK :: u16 where "RTM_SETLINK = 19"

definition IFLA_XDP :: u16 where "IFLA_XDP = 43"

definition IFLA_XDP_FD :: u16 where "IFLA_XDP_FD = 1"

definition IFLA_XDP_FLAGS :: u16 where "IFLA_XDP_FLAGS = 3"

definition NLA_F_NESTED :: u16 where "NLA_F_NESTED = 0x8000"

text \<open>Appending an attribute with a 32-bit value to the nested attribute at \<open>nla\<close>, the two blocks
  of \<^verbatim>\<open>bpf_set_link_xdp_fd\<close> for the program and for the flags.\<close>

definition add_nested_u32 :: "bytes \<Rightarrow> ptr \<Rightarrow> u16 \<Rightarrow> u32 \<Rightarrow> bytes option" where
  "add_nested_u32 m nla type v = do {
     l \<leftarrow> load16 m nla;
     let nla_xdp = nla + unat l;
     m \<leftarrow> store16 m (nla_xdp + 2) type;
     m \<leftarrow> store16 m nla_xdp 8;
     m \<leftarrow> store_bytes m (nla_xdp + 4) (bytes32 v);
     x \<leftarrow> load16 m nla_xdp;
     l \<leftarrow> load16 m nla;
     store16 m nla (l + x) }"

text \<open>The request: header (16 bytes), \<^verbatim>\<open>struct ifinfomsg\<close> (16 bytes, family at 0 and index at
  4) and room for 64 bytes of attributes.\<close>

definition xdp_request_base :: "u32 \<Rightarrow> bytes option" where
  "xdp_request_base ifindex = do {
     let req = replicate 96 0;
     req \<leftarrow> store32 req 0 32;
     req \<leftarrow> store16 req 6 (NLM_F_REQUEST OR NLM_F_ACK);
     req \<leftarrow> store16 req 4 RTM_SETLINK;
     req \<leftarrow> store32 req 12 0;
     req \<leftarrow> store32 req 8 1;
     req \<leftarrow> store8 req 16 0;
     store32 req 20 ifindex }"

definition xdp_request :: "u32 \<Rightarrow> u32 \<Rightarrow> u32 \<Rightarrow> bytes option" where
  "xdp_request ifindex fd flags = do {
     req \<leftarrow> xdp_request_base ifindex;
     len \<leftarrow> load32 req 0;
     let nla = unat (NLMSG_ALIGN len);
     req \<leftarrow> store16 req (nla + 2) (NLA_F_NESTED OR IFLA_XDP);
     req \<leftarrow> store16 req nla 4;
     req \<leftarrow> add_nested_u32 req nla IFLA_XDP_FD fd;
     req \<leftarrow> (if flags \<noteq> 0 then add_nested_u32 req nla IFLA_XDP_FLAGS flags else Some req);
     l \<leftarrow> load16 req nla;
     len \<leftarrow> load32 req 0;
     store32 req 0 (len + of_int (NLA_ALIGN (uint l))) }"

definition bpf_set_link_xdp_fd ::
  "netlink_sys \<Rightarrow> u32 \<Rightarrow> u32 \<Rightarrow> u32 \<Rightarrow> (int \<times> nl_effect list) option" where
  "bpf_set_link_xdp_fd sys ifindex fd flags =
     (case libbpf_netlink_open sys of
        (Inl err, es) \<Rightarrow> Some (err, es)
      | (Inr (sock, nl_pid), es) \<Rightarrow> do {
          req \<leftarrow> xdp_request ifindex fd flags;
          len \<leftarrow> load32 req 0;
          msg \<leftarrow> load_bytes req 0 (unat len);
          (case nl_send sys msg of
             Some errno \<Rightarrow> Some (- errno, es @ [NlSend sock msg, NlClose sock])
           | None \<Rightarrow> do {
               (ret, _) \<leftarrow> bpf_netlink_recv sys msg nl_pid 1 None ();
               Some (ret, es @ [NlSend sock msg, NlClose sock]) }) })"

subsection \<open>Dumps\<close>

text \<open>A callback of type \<^verbatim>\<open>libbpf_dump_nlmsg_t\<close>: the buffer, the offset of the payload header,
  the attribute index, and the state behind the cookie.\<close>

type_synonym 'c dump_callback = "bytes \<Rightarrow> ptr \<Rightarrow> nla_index \<Rightarrow> 'c \<Rightarrow> (int \<times> 'c) option"

definition IFLA_MAX :: int where "IFLA_MAX = 53"

text \<open>\<^verbatim>\<open>__dump_link_nlmsg\<close>; \<^verbatim>\<open>struct ifinfomsg\<close> is 16 bytes.\<close>

definition dump_link_nlmsg :: "'c dump_callback \<Rightarrow> 'c dump_nlmsg" where
  "dump_link_nlmsg cb m nlh c = do {
     let ifi = nlh + 16;
     l \<leftarrow> load32 m nlh;
     let len = sint (l - 32);
     (ret, tb) \<leftarrow> libbpf_nla_parse m IFLA_MAX (ifi + 16) len None;
     if ret \<noteq> 0 then Some (- LIBBPF_ERRNO__NLPARSE, c) else cb m ifi tb c }"

text \<open>\<^verbatim>\<open>__dump_class_nlmsg\<close>, \<^verbatim>\<open>__dump_qdisc_nlmsg\<close> and \<^verbatim>\<open>__dump_filter_nlmsg\<close>;
  \<^verbatim>\<open>struct tcmsg\<close> is 20 bytes. \<^verbatim>\<open>TCA_MAX\<close> comes from the kernel headers of the build.\<close>

definition dump_class_nlmsg :: "int \<Rightarrow> 'c dump_callback \<Rightarrow> 'c dump_nlmsg" where
  "dump_class_nlmsg tca_max cb m nlh c = do {
     let t = nlh + 16;
     l \<leftarrow> load32 m nlh;
     let len = sint (l - 36);
     (ret, tb) \<leftarrow> libbpf_nla_parse m tca_max (t + 20) len None;
     if ret \<noteq> 0 then Some (- LIBBPF_ERRNO__NLPARSE, c) else cb m t tb c }"

definition dump_qdisc_nlmsg :: "int \<Rightarrow> 'c dump_callback \<Rightarrow> 'c dump_nlmsg" where
  "dump_qdisc_nlmsg tca_max cb m nlh c = do {
     let t = nlh + 16;
     l \<leftarrow> load32 m nlh;
     let len = sint (l - 36);
     (ret, tb) \<leftarrow> libbpf_nla_parse m tca_max (t + 20) len None;
     if ret \<noteq> 0 then Some (- LIBBPF_ERRNO__NLPARSE, c) else cb m t tb c }"

definition dump_filter_nlmsg :: "int \<Rightarrow> 'c dump_callback \<Rightarrow> 'c dump_nlmsg" where
  "dump_filter_nlmsg tca_max cb m nlh c = do {
     let t = nlh + 16;
     l \<leftarrow> load32 m nlh;
     let len = sint (l - 36);
     (ret, tb) \<leftarrow> libbpf_nla_parse m tca_max (t + 20) len None;
     if ret \<noteq> 0 then Some (- LIBBPF_ERRNO__NLPARSE, c) else cb m t tb c }"

text \<open>The bytes of the structures the dump requests are made of.\<close>

definition nlmsghdr_bytes :: "u32 \<Rightarrow> u16 \<Rightarrow> u16 \<Rightarrow> u32 \<Rightarrow> u32 \<Rightarrow> bytes" where
  "nlmsghdr_bytes len type flags seq pid =
     bytes32 len @ [lo8 type, hi8 type] @ [lo8 flags, hi8 flags] @ bytes32 seq @ bytes32 pid"

definition ifinfomsg_bytes :: "u8 \<Rightarrow> u32 \<Rightarrow> bytes" where
  "ifinfomsg_bytes family ifindex = [family, 0, 0, 0] @ bytes32 ifindex @ replicate 8 0"

definition tcmsg_bytes :: "u32 \<Rightarrow> u32 \<Rightarrow> bytes" where
  "tcmsg_bytes ifindex parent =
     [0, 0, 0, 0] @ bytes32 ifindex @ bytes32 0 @ bytes32 parent @ bytes32 0"

text \<open>Sending a dump request and receiving the answer, as the four dump functions do; the caller's
  callback runs on every message.\<close>

definition nl_request ::
  "netlink_sys \<Rightarrow> int \<Rightarrow> u32 \<Rightarrow> bytes \<Rightarrow> 'c dump_nlmsg \<Rightarrow> 'c \<Rightarrow> (int \<times> 'c \<times> nl_effect list) option" where
  "nl_request sys sock nl_pid req fn c =
     (case nl_send sys req of
        Some errno \<Rightarrow> Some (- errno, c, [NlSend sock req])
      | None \<Rightarrow> do {
          (ret, c') \<leftarrow> bpf_netlink_recv sys req nl_pid (nl_time sys) (Some fn) c;
          Some (ret, c', [NlSend sock req]) })"

definition libbpf_nl_get_link ::
  "netlink_sys \<Rightarrow> int \<Rightarrow> u32 \<Rightarrow> 'c dump_callback \<Rightarrow> 'c \<Rightarrow> (int \<times> 'c \<times> nl_effect list) option" where
  "libbpf_nl_get_link sys sock nl_pid cb c =
     nl_request sys sock nl_pid
       (nlmsghdr_bytes 32 18 (NLM_F_DUMP OR NLM_F_REQUEST) (nl_time sys) 0 @
        ifinfomsg_bytes 17 0)
       (dump_link_nlmsg cb) c"

definition libbpf_nl_get_class ::
  "netlink_sys \<Rightarrow> int \<Rightarrow> int \<Rightarrow> u32 \<Rightarrow> u32 \<Rightarrow> 'c dump_callback \<Rightarrow> 'c \<Rightarrow>
   (int \<times> 'c \<times> nl_effect list) option" where
  "libbpf_nl_get_class sys tca_max sock nl_pid ifindex cb c =
     nl_request sys sock nl_pid
       (nlmsghdr_bytes 36 42 (NLM_F_DUMP OR NLM_F_REQUEST) (nl_time sys) 0 @ tcmsg_bytes ifindex 0)
       (dump_class_nlmsg tca_max cb) c"

definition libbpf_nl_get_qdisc ::
  "netlink_sys \<Rightarrow> int \<Rightarrow> int \<Rightarrow> u32 \<Rightarrow> u32 \<Rightarrow> 'c dump_callback \<Rightarrow> 'c \<Rightarrow>
   (int \<times> 'c \<times> nl_effect list) option" where
  "libbpf_nl_get_qdisc sys tca_max sock nl_pid ifindex cb c =
     nl_request sys sock nl_pid
       (nlmsghdr_bytes 36 38 (NLM_F_DUMP OR NLM_F_REQUEST) (nl_time sys) 0 @ tcmsg_bytes ifindex 0)
       (dump_qdisc_nlmsg tca_max cb) c"

definition libbpf_nl_get_filter ::
  "netlink_sys \<Rightarrow> int \<Rightarrow> int \<Rightarrow> u32 \<Rightarrow> u32 \<Rightarrow> u32 \<Rightarrow> 'c dump_callback \<Rightarrow> 'c \<Rightarrow>
   (int \<times> 'c \<times> nl_effect list) option" where
  "libbpf_nl_get_filter sys tca_max sock nl_pid ifindex handle cb c =
     nl_request sys sock nl_pid
       (nlmsghdr_bytes 36 46 (NLM_F_DUMP OR NLM_F_REQUEST) (nl_time sys) 0 @
        tcmsg_bytes ifindex handle)
       (dump_filter_nlmsg tca_max cb) c"

subsection \<open>Querying the attached program\<close>

record xdp_link_info =
  prog_id :: u32
  drv_prog_id :: u32
  hw_prog_id :: u32
  skb_prog_id :: u32
  attach_mode :: u8

record xdp_id_md =
  md_ifindex :: u32
  md_flags :: u32
  md_info :: xdp_link_info

definition XDP_ATTACHED_NONE :: u8 where "XDP_ATTACHED_NONE = 0"

definition XDP_ATTACHED_MULTI :: u8 where "XDP_ATTACHED_MULTI = 4"

definition XDP_FLAGS_MASK :: u32 where "XDP_FLAGS_MASK = 0xF"

definition XDP_FLAGS_SKB_MODE :: u32 where "XDP_FLAGS_SKB_MODE = 2"

definition XDP_FLAGS_DRV_MODE :: u32 where "XDP_FLAGS_DRV_MODE = 4"

definition XDP_FLAGS_HW_MODE :: u32 where "XDP_FLAGS_HW_MODE = 8"

text \<open>The four assignments of program ids: an absent attribute leaves the field.\<close>

definition u32_attr :: "bytes \<Rightarrow> ptr option \<Rightarrow> u32 \<Rightarrow> u32 option" where
  "u32_attr m e v = (case e of None \<Rightarrow> Some v | Some p \<Rightarrow> libbpf_nla_getattr_u32 m p)"

text \<open>Indices into \<^verbatim>\<open>xdp_tb\<close>: attached 2, program id 4, driver 5, skb 6, hardware 7.\<close>

definition get_xdp_info :: "xdp_id_md dump_callback" where
  "get_xdp_info m msg tb xdp_id = do {
     ifi_index \<leftarrow> load32 m (msg + 4);
     if md_ifindex xdp_id \<noteq> 0 \<and> md_ifindex xdp_id \<noteq> ifi_index then Some (0, xdp_id)
     else (case tb ! unat IFLA_XDP of
         None \<Rightarrow> Some (0, xdp_id)
       | Some xdp \<Rightarrow> do {
           (ret, xdp_tb) \<leftarrow> libbpf_nla_parse_nested m 7 xdp None;
           if ret \<noteq> 0 then Some (ret, xdp_id)
           else (case xdp_tb ! 2 of
               None \<Rightarrow> Some (0, xdp_id)
             | Some att \<Rightarrow> do {
                 mode \<leftarrow> libbpf_nla_getattr_u8 m att;
                 let info = (md_info xdp_id)\<lparr>attach_mode := mode\<rparr>;
                 if mode = XDP_ATTACHED_NONE then Some (0, xdp_id\<lparr>md_info := info\<rparr>)
                 else do {
                   a \<leftarrow> u32_attr m (xdp_tb ! 4) (prog_id info);
                   b \<leftarrow> u32_attr m (xdp_tb ! 6) (skb_prog_id info);
                   d \<leftarrow> u32_attr m (xdp_tb ! 5) (drv_prog_id info);
                   e \<leftarrow> u32_attr m (xdp_tb ! 7) (hw_prog_id info);
                   Some (0, xdp_id\<lparr>md_info := info\<lparr>prog_id := a, skb_prog_id := b,
                     drv_prog_id := d, hw_prog_id := e\<rparr>\<rparr>) } }) }) }"

text \<open>\<^verbatim>\<open>struct xdp_link_info\<close> in memory, 20 bytes with its padding.\<close>

definition xdp_link_info_bytes :: "xdp_link_info \<Rightarrow> bytes" where
  "xdp_link_info_bytes i =
     bytes32 (prog_id i) @ bytes32 (drv_prog_id i) @ bytes32 (hw_prog_id i) @
     bytes32 (skb_prog_id i) @ [attach_mode i, 0, 0, 0]"

definition zero_info :: xdp_link_info where
  "zero_info = \<lparr>prog_id = 0, drv_prog_id = 0, hw_prog_id = 0, skb_prog_id = 0, attach_mode = 0\<rparr>"

text \<open>The contents written to the caller's \<^verbatim>\<open>info\<close> come with the result; on an error it is not
  written.\<close>

definition bpf_get_link_xdp_info ::
  "netlink_sys \<Rightarrow> u32 \<Rightarrow> nat \<Rightarrow> u32 \<Rightarrow> (int \<times> bytes option \<times> nl_effect list) option" where
  "bpf_get_link_xdp_info sys ifindex info_size flags =
     (if flags AND NOT XDP_FLAGS_MASK \<noteq> 0 \<or> info_size = 0 then Some (- 22, None, [])
      else let flags = flags AND (XDP_FLAGS_SKB_MODE OR XDP_FLAGS_DRV_MODE OR XDP_FLAGS_HW_MODE);
               mask = flags - 1 in
        if flags \<noteq> 0 \<and> flags AND mask \<noteq> 0 then Some (- 22, None, [])
        else (case libbpf_netlink_open sys of
            (Inl err, es) \<Rightarrow> Some (err, None, es)
          | (Inr (sock, nl_pid), es) \<Rightarrow> do {
              (ret, xdp_id, es') \<leftarrow> libbpf_nl_get_link sys sock nl_pid get_xdp_info
                \<lparr>md_ifindex = ifindex, md_flags = flags, md_info = zero_info\<rparr>;
              let info = xdp_link_info_bytes (md_info xdp_id);
              let sz = min info_size (length info);
              Some (ret, if ret = 0 then Some (take sz info @ replicate (info_size - sz) 0) else None,
                es @ es' @ [NlClose sock]) }))"

definition get_xdp_id :: "xdp_link_info \<Rightarrow> u32 \<Rightarrow> u32" where
  "get_xdp_id info flags =
     (if attach_mode info \<noteq> XDP_ATTACHED_MULTI then prog_id info
      else if flags AND XDP_FLAGS_DRV_MODE \<noteq> 0 then drv_prog_id info
      else if flags AND XDP_FLAGS_HW_MODE \<noteq> 0 then hw_prog_id info
      else if flags AND XDP_FLAGS_SKB_MODE \<noteq> 0 then skb_prog_id info
      else 0)"

definition xdp_link_info_of :: "bytes \<Rightarrow> xdp_link_info option" where
  "xdp_link_info_of m = do {
     a \<leftarrow> load32 m 0; b \<leftarrow> load32 m 4; c \<leftarrow> load32 m 8; d \<leftarrow> load32 m 12; e \<leftarrow> load8 m 16;
     Some \<lparr>prog_id = a, drv_prog_id = b, hw_prog_id = c, skb_prog_id = d, attach_mode = e\<rparr> }"

definition bpf_get_link_xdp_id ::
  "netlink_sys \<Rightarrow> u32 \<Rightarrow> u32 \<Rightarrow> (int \<times> u32 option \<times> nl_effect list) option" where
  "bpf_get_link_xdp_id sys ifindex flags = do {
     (ret, info, es) \<leftarrow> bpf_get_link_xdp_info sys ifindex 20 flags;
     (case info of
        Some b \<Rightarrow> if ret = 0 then do { i \<leftarrow> xdp_link_info_of b; Some (ret, Some (get_xdp_id i flags), es) }
                  else Some (ret, None, es)
      | None \<Rightarrow> Some (ret, None, es)) }"

section \<open>The attach request\<close>

lemma enc_attr_u32: "enc_attr (type, bytes32 v) = [lo8 8, hi8 8] @ [lo8 type, hi8 type] @ bytes32 v"
  by (simp add: enc_attr_def attr_hdr_def nla_pad_def)

lemma store_bytes_at:
  "length xs = n \<Longrightarrow> length zs = length bs \<Longrightarrow> store_bytes (xs @ zs @ ys) n bs = Some (xs @ bs @ ys)"
  by (simp add: store_bytes_def)

lemma add_nested_u32_enc:
  assumes "length pre = n" and "length body + 4 < 65536"
  shows "add_nested_u32 (pre @ attr_hdr (t, body) @ body @ replicate (r + 8) 0) n type v =
    Some (pre @ attr_hdr (t, body @ enc_attr (type, bytes32 v)) @ body @ enc_attr (type, bytes32 v) @
      replicate r 0)"
proof -
  define l :: u16 where "l = of_nat (length body + 4)"
  let ?T = "[lo8 t, hi8 t]" and ?Y = "[lo8 type, hi8 type]"
  define a where "a = n + 4 + length body"
  have a: "n + unat l = a"
    using unat_of_nat_eq [of "length body + 4", where 'a = 16] assms(2) by (simp add: a_def l_def)
  have hdr: "attr_hdr (t, body) = [lo8 l, hi8 l] @ ?T"
    by (simp add: attr_hdr_def Let_def l_def)
  have hdr': "attr_hdr (t, body @ enc_attr (type, bytes32 v)) = [lo8 (l + 8), hi8 (l + 8)] @ ?T"
    by (simp add: attr_hdr_def Let_def l_def enc_attr_u32 add.commute)
  have z: "replicate (r + 8) (0 :: u8) = [0, 0] @ [0, 0] @ [0, 0, 0, 0] @ replicate r 0"
    by (simp add: numeral_eq_Suc)
  have s1: "load16 (pre @ [lo8 l, hi8 l] @ ys) n = Some l" for ys
    by (rule load16_le) (rule assms(1))
  have s2: "store16 (pre @ [lo8 l, hi8 l] @ ?T @ body @ [0, 0] @ [0, 0] @ ys) (a + 2) type =
      Some (pre @ [lo8 l, hi8 l] @ ?T @ body @ [0, 0] @ ?Y @ ys)" for ys
    using store16_le [of "pre @ [lo8 l, hi8 l] @ ?T @ body @ [0, 0]" "a + 2" 0 0 ys type] assms(1)
    by (simp add: a_def)
  have s3: "store16 (pre @ [lo8 l, hi8 l] @ ?T @ body @ [0, 0] @ ys) a 8 =
      Some (pre @ [lo8 l, hi8 l] @ ?T @ body @ [lo8 8, hi8 8] @ ys)" for ys
    using store16_le [of "pre @ [lo8 l, hi8 l] @ ?T @ body" a 0 0 ys 8] assms(1)
    by (simp add: a_def)
  have s4: "store_bytes (pre @ [lo8 l, hi8 l] @ ?T @ body @ [lo8 8, hi8 8] @ ?Y @ [0, 0, 0, 0] @ ys)
      (a + 4) (bytes32 v) =
      Some (pre @ [lo8 l, hi8 l] @ ?T @ body @ [lo8 8, hi8 8] @ ?Y @ bytes32 v @ ys)" for ys
    using store_bytes_at [of "pre @ [lo8 l, hi8 l] @ ?T @ body @ [lo8 8, hi8 8] @ ?Y" "a + 4"
        "[0, 0, 0, 0]" "bytes32 v" ys] assms(1)
    by (simp add: a_def)
  have s5: "load16 (pre @ [lo8 l, hi8 l] @ ?T @ body @ [lo8 8, hi8 8] @ ys) a = Some 8" for ys
    using load16_le [of "pre @ [lo8 l, hi8 l] @ ?T @ body" a 8 ys] assms(1)
    by (simp add: a_def)
  have s6: "store16 (pre @ [lo8 l, hi8 l] @ ys) n (l + 8) = Some (pre @ [lo8 (l + 8), hi8 (l + 8)] @ ys)" for ys
    by (rule store16_le) (rule assms(1))
  show ?thesis
    unfolding add_nested_u32_def hdr hdr' z append_assoc Let_def
    by (simp only: s1 s2 s3 s4 s5 s6 a bind.bind_lunit enc_attr_u32 append_assoc)
qed

lemma xdp_request_base_eq:
  "xdp_request_base ifindex =
   Some (nlmsghdr_bytes 32 RTM_SETLINK (NLM_F_REQUEST OR NLM_F_ACK) 1 0 @ ifinfomsg_bytes 0 ifindex @
     replicate 64 0)"
proof -
  have z: "replicate 96 (0 :: u8) =
      [0, 0, 0, 0] @ [0, 0] @ [0, 0] @ [0, 0, 0, 0] @ [0, 0, 0, 0] @ 0 # [0, 0, 0] @ [0, 0, 0, 0] @
      replicate 8 0 @ replicate 64 0"
    by (simp add: numeral_eq_Suc)
  define R :: bytes where "R = replicate 64 0"
  have u: "(x # xs)[numeral v := y] = x # xs[numeral v - 1 := y]" for x y v and xs :: bytes
    by (simp add: numeral_eq_Suc)
  show ?thesis
    unfolding xdp_request_base_def z Let_def nlmsghdr_bytes_def ifinfomsg_bytes_def R_def [symmetric]
    by (simp add: store32_def store16_def store8_def store_bytes_def u) (simp add: bytes32_def numeral_eq_Suc)
qed

text \<open>The attributes of the request: the program, and the flags unless there are none.\<close>

definition xdp_attrs :: "u32 \<Rightarrow> u32 \<Rightarrow> attr list" where
  "xdp_attrs fd flags =
     (IFLA_XDP_FD, bytes32 fd) # (if flags \<noteq> 0 then [(IFLA_XDP_FLAGS, bytes32 flags)] else [])"

definition xdp_message :: "u32 \<Rightarrow> u32 \<Rightarrow> u32 \<Rightarrow> bytes" where
  "xdp_message ifindex fd flags =
     nlmsghdr_bytes (if flags \<noteq> 0 then 52 else 44) RTM_SETLINK (NLM_F_REQUEST OR NLM_F_ACK) 1 0 @
     ifinfomsg_bytes 0 ifindex @
     enc_attr (NLA_F_NESTED OR IFLA_XDP, enc_attrs (xdp_attrs fd flags))"

lemma length_nlmsghdr_bytes [simp]: "length (nlmsghdr_bytes len type flags seq pid) = 16"
  and length_ifinfomsg_bytes [simp]: "length (ifinfomsg_bytes family ifindex) = 16"
  by (simp_all add: nlmsghdr_bytes_def ifinfomsg_bytes_def)

lemma load32_nlmsghdr: "load32 (nlmsghdr_bytes len type flags seq pid @ ys) 0 = Some len"
  using load32_le [of "[]" 0 len] by (simp add: nlmsghdr_bytes_def)

lemma store32_nlmsghdr:
  "store32 (nlmsghdr_bytes len type flags seq pid @ ys) 0 len' =
   Some (nlmsghdr_bytes len' type flags seq pid @ ys)"
  using store32_le [of "[]" 0 "bytes32 len" _ len'] by (simp add: nlmsghdr_bytes_def)

lemma xdp_request_nested:
  "do { req \<leftarrow> add_nested_u32 (pre @ attr_hdr (t, []) @ replicate 60 0) (length pre) IFLA_XDP_FD fd;
        if flags \<noteq> 0 then add_nested_u32 req (length pre) IFLA_XDP_FLAGS flags else Some req } =
   Some (pre @ enc_attr (t, enc_attrs (xdp_attrs fd flags)) @ replicate (if flags \<noteq> 0 then 44 else 52) 0)"
  using add_nested_u32_enc [OF refl, of "[]" pre t 52 IFLA_XDP_FD fd]
    add_nested_u32_enc [OF refl, of "enc_attr (IFLA_XDP_FD, bytes32 fd)" pre t 44 IFLA_XDP_FLAGS flags]
  by (simp add: xdp_attrs_def enc_attr_def [of "(t, _)"] nla_pad_def length_enc_attr)

lemma xdp_request_eq:
  "xdp_request ifindex fd flags =
   Some (xdp_message ifindex fd flags @ replicate (if flags \<noteq> 0 then 44 else 52) 0)"
proof -
  let ?H = "\<lambda>len. nlmsghdr_bytes len RTM_SETLINK (NLM_F_REQUEST OR NLM_F_ACK) 1 0"
  let ?pre = "?H 32 @ ifinfomsg_bytes 0 ifindex"
  let ?t = "NLA_F_NESTED OR IFLA_XDP"
  let ?e = "enc_attr (?t, enc_attrs (xdp_attrs fd flags))"
  let ?z = "replicate (if flags \<noteq> 0 then 44 else 52) 0 :: bytes"
  have al: "unat (NLMSG_ALIGN 32) = length ?pre" by (simp add: NLMSG_ALIGN_def)
  have z: "replicate 64 (0 :: u8) = [0, 0] @ [0, 0] @ replicate 60 0" by (simp add: numeral_eq_Suc)
  have s1: "store16 (?pre @ [0, 0] @ [0, 0] @ ys) (length ?pre + 2) ?t =
      Some (?pre @ [0, 0] @ [lo8 ?t, hi8 ?t] @ ys)" for ys
    using store16_le [of "?pre @ [0, 0]" "length ?pre + 2" 0 0 ys ?t] by simp
  have s2: "store16 (?pre @ [0, 0] @ ys) (length ?pre) 4 = Some (?pre @ [lo8 4, hi8 4] @ ys)" for ys
    by (rule store16_le) (rule refl)
  have h: "[lo8 4, hi8 4] @ [lo8 ?t, hi8 ?t] @ ys = attr_hdr (?t, []) @ ys" for ys
    by (simp add: attr_hdr_def)
  have len: "length (enc_attrs (xdp_attrs fd flags)) = (if flags \<noteq> 0 then 16 else 8)"
    by (simp add: xdp_attrs_def length_enc_attr nla_pad_def)
  have l: "load16 (?pre @ ?e @ ?z) (length ?pre) = Some (if flags \<noteq> 0 then 20 else 12)"
    using load16_attr_hdr [of ?pre "(?t, enc_attrs (xdp_attrs fd flags))"] len
    by (simp add: enc_attr_def [of "(?t, _)"])
  have base: "xdp_request_base ifindex = Some (?pre @ replicate 64 0)"
    by (simp add: xdp_request_base_eq)
  have nested: "add_nested_u32 (?pre @ attr_hdr (?t, []) @ replicate 60 0) (length ?pre) IFLA_XDP_FD fd \<bind>
      (\<lambda>req. (if flags \<noteq> 0 then add_nested_u32 req (length ?pre) IFLA_XDP_FLAGS flags else Some req) \<bind> f) =
      f (?pre @ ?e @ ?z)" for f :: "bytes \<Rightarrow> bytes option"
    using xdp_request_nested [of ?pre ?t fd flags] by (simp flip: bind_assoc)
  have hd: "load32 (?pre @ ys) 0 = Some 32" "store32 (?pre @ ys) 0 n = Some (?H n @ ifinfomsg_bytes 0 ifindex @ ys)" for ys n
    by (simp_all add: load32_nlmsghdr store32_nlmsghdr)
  have "xdp_request ifindex fd flags =
      store32 (?pre @ ?e @ ?z) 0 (32 + of_int (NLA_ALIGN (uint (if flags \<noteq> 0 then 20 else 12 :: u16))))"
    unfolding xdp_request_def base z
    by (simp only: bind.bind_lunit Let_def hd al s1 s2 h nested l)
  then show ?thesis
    unfolding hd by (simp add: xdp_message_def NLA_ALIGN_def)
qed

section \<open>Message streams\<close>

text \<open>A message as the kernel writes it, and its bytes with their padding.\<close>

record nlmsg =
  nm_type :: u16
  nm_flags :: u16
  nm_seq :: u32
  nm_pid :: u32
  nm_payload :: bytes

definition nlmsg_hdr :: "nlmsg \<Rightarrow> bytes" where
  "nlmsg_hdr x =
     nlmsghdr_bytes (of_nat (16 + length (nm_payload x))) (nm_type x) (nm_flags x) (nm_seq x) (nm_pid x)"

definition enc_nlmsg :: "nlmsg \<Rightarrow> bytes" where
  "enc_nlmsg x = nlmsg_hdr x @ nm_payload x @ replicate (nla_pad (length (nm_payload x))) 0"

definition enc_nlmsgs :: "nlmsg list \<Rightarrow> bytes" where
  "enc_nlmsgs xs = concat (map enc_nlmsg xs)"

lemma enc_nlmsgs_simps [simp]:
  "enc_nlmsgs [] = []" "enc_nlmsgs (x # xs) = enc_nlmsg x @ enc_nlmsgs xs"
  "enc_nlmsgs (xs @ ys) = enc_nlmsgs xs @ enc_nlmsgs ys"
  by (simp_all add: enc_nlmsgs_def)

lemma nlmsghdr_fields:
  assumes "n = length pre" and m_def: "m = pre @ nlmsghdr_bytes len type flags seq pid @ post"
  shows "load32 m n = Some len" and "load16 m (n + 4) = Some type" and "load16 m (n + 6) = Some flags"
    and "load32 m (n + 8) = Some seq" and "load32 m (n + 12) = Some pid"
  using load32_le [of pre n len]
    load16_le [of "pre @ bytes32 len" "n + 4" type]
    load16_le [of "pre @ bytes32 len @ [lo8 type, hi8 type]" "n + 6" flags]
    load32_le [of "pre @ bytes32 len @ [lo8 type, hi8 type] @ [lo8 flags, hi8 flags]" "n + 8" seq]
    load32_le [of "pre @ bytes32 len @ [lo8 type, hi8 type] @ [lo8 flags, hi8 flags] @ bytes32 seq" "n + 12" pid]
  by (simp_all add: m_def assms(1) nlmsghdr_bytes_def)

lemma length_enc_nlmsg: "length (enc_nlmsg x) = 16 + length (nm_payload x) + nla_pad (length (nm_payload x))"
  by (simp add: enc_nlmsg_def nlmsg_hdr_def)

lemma length_enc_nlmsg_mult: "length (enc_nlmsg x) = (16 + length (nm_payload x) + 3) div 4 * 4"
proof -
  have "(16 + n + 3) div 4 * 4 = (n + 3) div 4 * 4 + (16 :: nat)" for n by presburger
  then show ?thesis
    using nla_pad_align [of "length (nm_payload x)"] by (simp add: length_enc_nlmsg)
qed

lemma nlmsg_in_stream:
  assumes "length (enc_nlmsg x) \<le> nat len" "len < 2147483648" and m_def: "m = pre @ enc_nlmsg x @ post"
  shows "NLMSG_OK m (length pre) len = Some True"
    and "NLMSG_NEXT m (length pre) len = Some (length (pre @ enc_nlmsg x), len - int (length (enc_nlmsg x)))"
proof -
  let ?l = "of_nat (16 + length (nm_payload x)) :: u32"
  have l: "load32 m (length pre) = Some ?l"
    unfolding m_def enc_nlmsg_def nlmsg_hdr_def append_assoc by (rule nlmsghdr_fields(1) [OF refl refl])
  have le: "16 + length (nm_payload x) \<le> nat len"
    using assms(1) by (simp add: length_enc_nlmsg)
  have ul: "unat ?l = 16 + length (nm_payload x)"
    using le assms(2) by (intro unat_of_nat_eq) simp
  have "unat (of_nat (nat len) :: u32) = nat len"
    using assms(2) by (intro unat_of_nat_eq) simp
  moreover have len16: "16 \<le> len" using le by linarith
  ultimately have "?l \<le> of_int len" "16 \<le> ?l"
    using le ul by (simp_all add: word_le_nat_alt)
  with l len16 show "NLMSG_OK m (length pre) len = Some True"
    by (simp add: NLMSG_OK_def)
  have "unat ?l \<le> nat len" "16 \<le> unat ?l" using le ul by simp_all
  from NLMSG_NEXT_eq [OF l this(2,1) assms(2)]
  show "NLMSG_NEXT m (length pre) len = Some (length (pre @ enc_nlmsg x), len - int (length (enc_nlmsg x)))"
    by (simp only: ul length_enc_nlmsg_mult length_append)
qed

text \<open>The messages of a dump: data messages, marked as parts of a multipart answer, and the message
  that ends it.\<close>

definition data_msg :: "u32 \<Rightarrow> u32 \<Rightarrow> nlmsg \<Rightarrow> bool" where
  "data_msg pid seq x \<longleftrightarrow>
     nm_pid x = pid \<and> nm_seq x = seq \<and> nm_flags x AND NLM_F_MULTI \<noteq> 0 \<and>
     nm_type x \<noteq> NLMSG_ERROR \<and> nm_type x \<noteq> NLMSG_DONE"

definition done_msg :: "u32 \<Rightarrow> u32 \<Rightarrow> nlmsg \<Rightarrow> bool" where
  "done_msg pid seq x \<longleftrightarrow> nm_pid x = pid \<and> nm_seq x = seq \<and> nm_type x = NLMSG_DONE"

text \<open>What a dump should compute: the handler runs on every record in order, and the first result
  that is not zero ends it.\<close>

primrec dump_result :: "('x \<Rightarrow> 'c \<Rightarrow> int \<times> 'c) \<Rightarrow> 'x list \<Rightarrow> 'c \<Rightarrow> int \<times> 'c" where
  "dump_result h [] c = (0, c)"
| "dump_result h (x # xs) c =
     (let (ret, c') = h x c in if ret \<noteq> 0 then (ret, c') else dump_result h xs c')"

lemma dump_result_append:
  "dump_result h (xs @ ys) c =
     (let (ret, c') = dump_result h xs c in if ret \<noteq> 0 then (ret, c') else dump_result h ys c')"
  by (induction xs arbitrary: c) (auto simp: Let_def split: prod.split)

text \<open>The contract between the receive loop and a handler: a record of the kind it is for, written as a
  message anywhere in the buffer, is handled without fault, and the result depends on the record only.\<close>

locale nlmsg_handler =
  fixes fn :: "'c dump_nlmsg"
    and msg :: "'x \<Rightarrow> nlmsg"
    and rec_ok :: "'x \<Rightarrow> bool"
    and h :: "'x \<Rightarrow> 'c \<Rightarrow> int \<times> 'c"
  assumes handles: "rec_ok x \<Longrightarrow> length (enc_nlmsg (msg x)) \<le> 4096 \<Longrightarrow>
    fn (pre @ enc_nlmsg (msg x) @ post) (length pre) c = Some (h x c)"
begin

lemma body_data:
  assumes "rec_ok x" "data_msg pid seq (msg x)" "length (enc_nlmsg (msg x)) \<le> 4096"
  shows "nlmsg_body (pre @ enc_nlmsg (msg x) @ post) pid seq (Some fn) (length pre) mp c =
    Some (let (ret, c') = h x c in if ret \<noteq> 0 then Inl (ret, c') else Inr (True, c'))"
  using assms(2) handles [OF assms(1,3), of pre post c]
  by (simp add: nlmsg_body_def data_msg_def enc_nlmsg_def nlmsg_hdr_def nlmsghdr_fields [OF refl]
      split: prod.split)

lemma loop_data:
  assumes "\<forall>x \<in> set xs. rec_ok x \<and> data_msg pid seq (msg x)" and "length (enc_nlmsgs (map msg xs @ ys)) \<le> 4096"
  shows "nlmsg_loop (pre @ enc_nlmsgs (map msg xs @ ys) @ post) pid seq (Some fn) (length pre)
      (int (length (enc_nlmsgs (map msg xs @ ys)))) mp c =
    (let (ret, c') = dump_result h xs c in
     if ret \<noteq> 0 then Some (Inl (ret, c'))
     else nlmsg_loop (pre @ enc_nlmsgs (map msg xs @ ys) @ post) pid seq (Some fn)
       (length pre + length (enc_nlmsgs (map msg xs))) (int (length (enc_nlmsgs ys))) (mp \<or> xs \<noteq> []) c')"
  using assms
proof (induction xs arbitrary: pre mp c)
  case (Cons x xs)
  let ?m = "pre @ enc_nlmsg (msg x) @ enc_nlmsgs (map msg xs @ ys) @ post"
  let ?len = "int (length (enc_nlmsgs (map msg (x # xs) @ ys)))"
  have x: "rec_ok x" "data_msg pid seq (msg x)" "length (enc_nlmsg (msg x)) \<le> 4096" using Cons.prems by simp_all
  have stream: "NLMSG_OK ?m (length pre) ?len = Some True"
    "NLMSG_NEXT ?m (length pre) ?len = Some (length (pre @ enc_nlmsg (msg x)), int (length (enc_nlmsgs (map msg xs @ ys))))"
    using nlmsg_in_stream [OF _ _ refl, of "msg x" ?len pre "enc_nlmsgs (map msg xs @ ys) @ post"] Cons.prems(2) by simp_all
  note body = body_data [OF x, of pre "enc_nlmsgs (map msg xs @ ys) @ post" mp c]
  obtain ret c' where h: "h x c = (ret, c')" by fastforce
  show ?case
  proof (cases "ret = 0")
    case True
    have "nlmsg_loop ?m pid seq (Some fn) (length pre) ?len mp c =
        nlmsg_loop ?m pid seq (Some fn) (length (pre @ enc_nlmsg (msg x))) (int (length (enc_nlmsgs (map msg xs @ ys)))) True c'"
      by (subst nlmsg_loop.simps) (simp only: stream body h True, simp)
    then show ?thesis
      using Cons.IH [of "pre @ enc_nlmsg (msg x)" True c'] Cons.prems h True
      by (simp add: add.assoc split: prod.split)
  next
    case False
    have "nlmsg_loop ?m pid seq (Some fn) (length pre) ?len mp c = Some (Inl (ret, c'))"
      by (subst nlmsg_loop.simps) (simp only: stream body h, simp add: False)
    with h False show ?thesis by simp
  qed
qed simp

lemma loop_done:
  assumes "\<forall>x \<in> set xs. rec_ok x \<and> data_msg pid seq (msg x)" and "done_msg pid seq d"
    and "length (enc_nlmsgs (map msg xs @ d # ys)) \<le> 4096"
  shows "nlmsg_loop (pre @ enc_nlmsgs (map msg xs @ d # ys) @ post) pid seq (Some fn) (length pre)
      (int (length (enc_nlmsgs (map msg xs @ d # ys)))) mp c = Some (Inl (dump_result h xs c))"
proof -
  let ?m = "(pre @ enc_nlmsgs (map msg xs)) @ enc_nlmsg d @ enc_nlmsgs ys @ post"
  let ?len = "int (length (enc_nlmsgs (d # ys)))"
  have ok: "NLMSG_OK ?m (length (pre @ enc_nlmsgs (map msg xs))) ?len = Some True"
    using nlmsg_in_stream(1) [OF _ _ refl, of d ?len "pre @ enc_nlmsgs (map msg xs)" "enc_nlmsgs ys @ post"] assms(3)
    by simp
  have body: "nlmsg_body ?m pid seq (Some fn) (length (pre @ enc_nlmsgs (map msg xs))) mp c' = Some (Inl (0, c'))"
    for mp c'
    using assms(2) by (simp add: nlmsg_body_def done_msg_def enc_nlmsg_def nlmsg_hdr_def Let_def
        nlmsghdr_fields [OF refl, of _ "pre @ enc_nlmsgs (map msg xs)", simplified] NLMSG_DONE_def NLMSG_ERROR_def)
  have "nlmsg_loop ?m pid seq (Some fn) (length (pre @ enc_nlmsgs (map msg xs))) ?len mp c' = Some (Inl (0, c'))"
    for mp c'
    by (subst nlmsg_loop.simps) (simp only: ok body, simp)
  then show ?thesis
    using loop_data [OF assms(1,3), of pre post mp c] by (simp split: prod.split)
qed

text \<open>However the kernel cuts a dump into buffers, the receive loop computes its result.\<close>

lemma recv_dump:
  assumes "concat mss = map msg xs @ [d]" and "\<forall>x \<in> set xs. rec_ok x \<and> data_msg pid seq (msg x)" and "done_msg pid seq d"
    and "\<forall>ms \<in> set mss. ms \<noteq> [] \<and> length (enc_nlmsgs ms) \<le> 4096"
  shows "netlink_recv_loop buf pid seq (Some fn) (map (\<lambda>ms. Inr (enc_nlmsgs ms)) mss @ rs) c = Some (dump_result h xs c)"
  using assms
proof (induction mss arbitrary: xs buf c)
  case (Cons ms mss)
  let ?d = "enc_nlmsgs ms"
  have ms: "ms \<noteq> []" "length ?d \<le> 4096" using Cons.prems(4) by simp_all
  then have d: "take 4096 ?d = ?d" "?d \<noteq> []"
    by (simp, cases ms) (simp_all add: enc_nlmsg_def nlmsg_hdr_def nlmsghdr_bytes_def bytes32_def)
  show ?case
  proof (cases "mss = []")
    case True
    with Cons.prems(1) have "ms = map msg xs @ [d]" by simp
    then show ?thesis
      using loop_done [OF Cons.prems(2,3), of "[]" "[]" "drop (length ?d) buf" False c] ms d
      by (auto simp: Let_def)
  next
    case False
    then have "concat mss \<noteq> []" using Cons.prems(4) by (auto simp: neq_Nil_conv)
    then obtain ys d' where ys: "concat mss = ys @ [d']" by (metis rev_exhaust)
    with Cons.prems(1) have "map msg xs = ms @ ys" "d' = d" by simp_all
    then obtain xs' xs'' where xs: "xs = xs' @ xs''" "ms = map msg xs'" "ys = map msg xs''" "d' = d"
      by (auto simp: map_eq_append_conv)
    obtain ret c' where r: "dump_result h xs' c = (ret, c')" by fastforce
    have "nlmsg_loop (?d @ drop (length ?d) buf) pid seq (Some fn) 0 (int (length ?d)) False c =
        (if ret \<noteq> 0 then Some (Inl (ret, c')) else Some (Inr (True, c')))"
      using loop_data [of xs' pid seq "[]" "[]" "drop (length ?d) buf" False c] Cons.prems(2) xs ms r
      by simp
    moreover have "netlink_recv_loop buf' pid seq (Some fn) (map (\<lambda>ms. Inr (enc_nlmsgs ms)) mss @ rs) c' =
        Some (dump_result h xs'' c')" for buf'
      by (rule Cons.IH) (use ys xs Cons.prems in simp_all)
    ultimately show ?thesis
      using d r by (auto simp: xs dump_result_append Let_def)
  qed
qed simp

end

section \<open>The dump of links\<close>

text \<open>An interface as the kernel reports it: the fields of \<^verbatim>\<open>struct ifinfomsg\<close> before and after
  the index, the attributes, and the attributes nested in \<^verbatim>\<open>IFLA_XDP\<close>.\<close>

record link =
  ifi_head :: bytes
  ifi_index :: u32
  ifi_tail :: bytes
  link_attrs :: "attr list"
  link_xdp :: "attr list option"

definition link_msg :: "u32 \<Rightarrow> u32 \<Rightarrow> link \<Rightarrow> nlmsg" where
  "link_msg pid seq l =
     \<lparr>nm_type = 16, nm_flags = NLM_F_MULTI, nm_seq = seq, nm_pid = pid,
      nm_payload = ifi_head l @ bytes32 (ifi_index l) @ ifi_tail l @ enc_attrs (link_attrs l)\<rparr>"

text \<open>The documented content: the mode is a byte, the program ids are 32-bit numbers.\<close>

definition xdp_attrs_ok :: "attr list \<Rightarrow> bool" where
  "xdp_attrs_ok as \<longleftrightarrow>
     (\<forall>a \<in> set as. attr_fits a) \<and> length (enc_attrs as) < 2 ^ 31 \<and>
     attr_map as 2 \<noteq> Some [] \<and>
     (\<forall>t \<in> {4, 5, 6, 7}. \<forall>d. attr_map as t = Some d \<longrightarrow> length d = 4)"

definition link_ok :: "link \<Rightarrow> bool" where
  "link_ok l \<longleftrightarrow>
     length (ifi_head l) = 4 \<and> length (ifi_tail l) = 8 \<and> (\<forall>a \<in> set (link_attrs l). attr_fits a) \<and>
     attr_map (link_attrs l) (unat IFLA_XDP) = map_option enc_attrs (link_xdp l) \<and>
     (\<forall>as. link_xdp l = Some as \<longrightarrow> xdp_attrs_ok as)"

text \<open>What the attributes say of the attached programs; fields without an attribute keep their value.\<close>

definition u32_of :: "bytes \<Rightarrow> u32" where
  "u32_of d = le32 (d ! 0) (d ! 1) (d ! 2) (d ! 3)"

definition xdp_info_of :: "attr list \<Rightarrow> xdp_link_info \<Rightarrow> xdp_link_info" where
  "xdp_info_of as i =
     (case attr_map as 2 of
        None \<Rightarrow> i
      | Some d \<Rightarrow>
          if hd d = XDP_ATTACHED_NONE then i\<lparr>attach_mode := hd d\<rparr>
          else let val = (\<lambda>t v. case attr_map as t of None \<Rightarrow> v | Some d \<Rightarrow> u32_of d) in
            \<lparr>prog_id = val 4 (prog_id i), drv_prog_id = val 5 (drv_prog_id i),
             hw_prog_id = val 7 (hw_prog_id i), skb_prog_id = val 6 (skb_prog_id i),
             attach_mode = hd d\<rparr>)"

definition link_handler :: "link \<Rightarrow> xdp_id_md \<Rightarrow> int \<times> xdp_id_md" where
  "link_handler l c =
     (0, if md_ifindex c \<noteq> 0 \<and> md_ifindex c \<noteq> ifi_index l then c
         else (case link_xdp l of None \<Rightarrow> c | Some as \<Rightarrow> c\<lparr>md_info := xdp_info_of as (md_info c)\<rparr>))"

lemma bytes32_u32_of: "length d = 4 \<Longrightarrow> bytes32 (u32_of d) = d"
  by (auto simp: u32_of_def bytes32_le32 numeral_eq_Suc length_Suc_conv)

lemma u32_attr_value:
  assumes "attr_value m e = v" and "e = None \<longleftrightarrow> v = None" and "\<And>d. v = Some d \<Longrightarrow> length d = 4"
  shows "u32_attr m e w = Some (case v of None \<Rightarrow> w | Some d \<Rightarrow> u32_of d)"
proof (cases e)
  case (Some p)
  with assms obtain d where d: "v = Some d" "length d = 4" by auto
  then have "attr_value m (Some p) = Some (bytes32 (u32_of d))"
    using assms(1) Some by (simp add: bytes32_u32_of)
  then show ?thesis using Some d by (simp add: u32_attr_def getattr_u32_value)
qed (use assms in \<open>simp add: u32_attr_def\<close>)

lemma get_xdp_info_eq:
  assumes "load32 m (p + 4) = Some (ifi_index l)"
    and "attr_value m (tb ! unat IFLA_XDP) = map_option enc_attrs (link_xdp l)"
    and "tb ! unat IFLA_XDP = None \<longleftrightarrow> link_xdp l = None"
    and "\<And>as. link_xdp l = Some as \<Longrightarrow> xdp_attrs_ok as"
  shows "get_xdp_info m p tb c = Some (link_handler l c)"
proof (cases "link_xdp l")
  case None
  with assms show ?thesis by (simp add: get_xdp_info_def link_handler_def)
next
  case (Some as)
  note ok = assms(4) [OF Some, unfolded xdp_attrs_ok_def]
  obtain q xtb where q: "tb ! unat IFLA_XDP = Some q" "libbpf_nla_parse_nested m 7 q None = Some (0, xtb)"
    and val: "\<And>t. int t \<le> 7 \<Longrightarrow> attr_value m (xtb ! t) = attr_map as t"
    and none: "\<And>t. int t \<le> 7 \<Longrightarrow> xtb ! t = None \<longleftrightarrow> attr_map as t = None"
    using nla_parse_nested_lookup [of m "tb ! unat IFLA_XDP" as 7] assms(2) Some ok by auto
  have ids: "u32_attr m (xtb ! t) w = Some (case attr_map as t of None \<Rightarrow> w | Some d \<Rightarrow> u32_of d)"
    if "t \<in> {4, 5, 6, 7}" for t w
    using that ok by (intro u32_attr_value val none) auto
  show ?thesis
  proof (cases "xtb ! 2")
    case None
    then have "attr_map as 2 = None" using none [of 2] by simp
    then show ?thesis
      using None q Some assms(1) by (simp add: get_xdp_info_def link_handler_def xdp_info_of_def)
  next
    case (Some att)
    then obtain d where d: "attr_map as 2 = Some d" "d \<noteq> []" using none [of 2] ok by auto
    then have "libbpf_nla_getattr_u8 m att = Some (hd d)"
      using val [of 2] Some by (intro getattr_u8_value) auto
    then show ?thesis
      using Some d q \<open>link_xdp l = Some as\<close> assms(1)
      by (simp add: get_xdp_info_def link_handler_def xdp_info_of_def ids Let_def)
  qed
qed

text \<open>Every dump handler starts in the same way: the attributes follow a header in the payload, and are
  parsed to an index that represents them.\<close>

lemma payload_index:
  assumes "nm_payload x = hdr @ enc_attrs as" "\<forall>a \<in> set as. attr_fits a" "length (enc_nlmsg x) \<le> 4096"
    and m: "m = pre @ enc_nlmsg x @ post"
  obtains l tb where "load32 m (length pre) = Some l"
    and "sint (l - of_nat (16 + length hdr)) = int (length (enc_attrs as))"
    and "libbpf_nla_parse m maxtype (length pre + (16 + length hdr)) (int (length (enc_attrs as))) None =
      Some (0, tb)"
    and "\<And>t. int t \<le> maxtype \<Longrightarrow> attr_value m (tb ! t) = attr_map as t"
    and "\<And>t. int t \<le> maxtype \<Longrightarrow> tb ! t = None \<longleftrightarrow> attr_map as t = None"
proof -
  let ?pre = "pre @ nlmsg_hdr x @ hdr"
  let ?post = "replicate (nla_pad (length (nm_payload x))) 0 @ post"
  define n where "n = length (enc_attrs as)"
  define l :: u32 where "l = of_nat (16 + length (nm_payload x))"
  have m': "m = ?pre @ enc_attrs as @ ?post" by (simp add: m enc_nlmsg_def assms(1))
  have p: "length ?pre = length pre + (16 + length hdr)" by (simp add: nlmsg_hdr_def)
  have n: "n \<le> 4096" using assms(1,3) by (simp add: length_enc_nlmsg n_def)
  have len: "load32 m (length pre) = Some l"
    unfolding l_def m enc_nlmsg_def nlmsg_hdr_def append_assoc by (rule nlmsghdr_fields(1) [OF refl refl])
  have "sint (of_int (int n) :: u32) = int n"
    unfolding sint_sbintrunc' using n by (simp add: signed_take_bit_int_eq_self_iff)
  moreover have "l - of_nat (16 + length hdr) = of_int (int n)" by (simp add: l_def assms(1) n_def)
  ultimately have sint: "sint (l - of_nat (16 + length hdr)) = int n" by simp
  obtain tb where "libbpf_nla_parse m maxtype (length pre + (16 + length hdr)) (int n) None = Some (0, tb)"
      "\<And>t. int t \<le> maxtype \<Longrightarrow> attr_value m (tb ! t) = attr_map as t"
      "\<And>t. int t \<le> maxtype \<Longrightarrow> tb ! t = None \<longleftrightarrow> attr_map as t = None"
    unfolding n_def
    by (rule nla_parse_lookup [OF assms(2), of ?pre ?post maxtype, unfolded m' [symmetric] p])
       (use n in \<open>simp add: n_def, blast\<close>)
  then show ?thesis using that len sint unfolding n_def by blast
qed

lemma dump_link_handles:
  assumes "link_ok l" and "length (enc_nlmsg (link_msg pid seq l)) \<le> 4096"
  shows "dump_link_nlmsg get_xdp_info (pre @ enc_nlmsg (link_msg pid seq l) @ post) (length pre) c =
    Some (link_handler l c)"
proof -
  let ?p = "length pre"
  let ?ifi = "ifi_head l @ bytes32 (ifi_index l) @ ifi_tail l"
  define m where "m = pre @ enc_nlmsg (link_msg pid seq l) @ post"
  note ok = assms(1) [unfolded link_ok_def]
  have pay: "nm_payload (link_msg pid seq l) = ?ifi @ enc_attrs (link_attrs l)"
    by (simp add: link_msg_def)
  have p32: "16 + length ?ifi = 32" using ok by simp
  have fits: "\<forall>a \<in> set (link_attrs l). attr_fits a" using ok by blast
  obtain w tb where w: "load32 m ?p = Some w" "sint (w - of_nat 32) = int (length (enc_attrs (link_attrs l)))"
      "libbpf_nla_parse m IFLA_MAX (?p + 32) (int (length (enc_attrs (link_attrs l)))) None = Some (0, tb)"
    and tb: "\<And>t. int t \<le> IFLA_MAX \<Longrightarrow> attr_value m (tb ! t) = attr_map (link_attrs l) t"
      "\<And>t. int t \<le> IFLA_MAX \<Longrightarrow> tb ! t = None \<longleftrightarrow> attr_map (link_attrs l) t = None"
    by (rule payload_index [OF pay fits assms(2) m_def, of IFLA_MAX, unfolded p32]) blast
  have "m = (pre @ nlmsg_hdr (link_msg pid seq l) @ ifi_head l) @ bytes32 (ifi_index l) @ ifi_tail l @
      enc_attrs (link_attrs l) @ replicate (nla_pad (length (nm_payload (link_msg pid seq l)))) 0 @ post"
    by (simp add: m_def enc_nlmsg_def pay)
  then have idx: "load32 m (?p + 16 + 4) = Some (ifi_index l)"
    using ok by (simp only: load32_le) (subst load32_le, simp_all add: nlmsg_hdr_def)
  have "get_xdp_info m (?p + 16) tb c = Some (link_handler l c)"
    using idx tb [of "unat IFLA_XDP"] ok
    by (intro get_xdp_info_eq) (auto simp: IFLA_XDP_def IFLA_MAX_def)
  then show ?thesis
    using w by (simp add: dump_link_nlmsg_def m_def [symmetric] add.commute [of 32 "length pre"])
qed

interpretation link_dump: nlmsg_handler "dump_link_nlmsg get_xdp_info" "link_msg pid seq" link_ok link_handler
  for pid seq
  by unfold_locales (rule dump_link_handles)

lemma data_link_msg: "data_msg pid seq (link_msg pid seq l)"
  by (simp add: data_msg_def link_msg_def NLM_F_MULTI_def NLMSG_ERROR_def NLMSG_DONE_def)

section \<open>The query\<close>

text \<open>A system on which the socket calls succeed, and one that answers a dump request with the given
  interfaces, cut into buffers in any way.\<close>

definition nl_ready :: "netlink_sys \<Rightarrow> int \<Rightarrow> u32 \<Rightarrow> bool" where
  "nl_ready sys sock pid \<longleftrightarrow>
     nl_socket sys = Inr sock \<and> nl_bind sys = None \<and> nl_getsockname sys = Inr (pid, 12) \<and>
     (\<forall>req. nl_send sys req = None)"

definition dumps_links :: "netlink_sys \<Rightarrow> u32 \<Rightarrow> link list \<Rightarrow> bool" where
  "dumps_links sys pid links \<longleftrightarrow>
     (\<exists>mss d. concat mss = map (link_msg pid (nl_time sys)) links @ [d] \<and> done_msg pid (nl_time sys) d \<and>
        (\<forall>ms \<in> set mss. ms \<noteq> [] \<and> length (enc_nlmsgs ms) \<le> 4096) \<and>
        (\<forall>req. nl_recv sys req = map (\<lambda>ms. Inr (enc_nlmsgs ms)) mss))"

text \<open>The program attached to an interface in the mode the flags ask for.\<close>

definition link_xdp_id :: "link \<Rightarrow> u32 \<Rightarrow> u32" where
  "link_xdp_id l flags =
     (case link_xdp l of
        None \<Rightarrow> 0
      | Some as \<Rightarrow>
          (case attr_map as 2 of
             None \<Rightarrow> 0
           | Some d \<Rightarrow>
               let val = (\<lambda>t. case attr_map as t of None \<Rightarrow> 0 | Some d \<Rightarrow> u32_of d) in
               if hd d = XDP_ATTACHED_NONE then 0
               else if hd d \<noteq> XDP_ATTACHED_MULTI then val 4
               else if flags AND XDP_FLAGS_DRV_MODE \<noteq> 0 then val 5
               else if flags AND XDP_FLAGS_HW_MODE \<noteq> 0 then val 7
               else if flags AND XDP_FLAGS_SKB_MODE \<noteq> 0 then val 6
               else 0))"

lemma link_xdp_id_eq:
  "get_xdp_id (case link_xdp l of None \<Rightarrow> zero_info | Some as \<Rightarrow> xdp_info_of as zero_info) flags =
   link_xdp_id l flags"
  by (auto simp: link_xdp_id_def get_xdp_id_def xdp_info_of_def zero_info_def Let_def
      XDP_ATTACHED_MULTI_def XDP_ATTACHED_NONE_def split: option.split)

lemma dump_result_other:
  "\<forall>x \<in> set ls. ifi_index x \<noteq> md_ifindex c \<Longrightarrow> md_ifindex c \<noteq> 0 \<Longrightarrow> dump_result link_handler ls c = (0, c)"
  by (induction ls) (auto simp: link_handler_def)

lemma dump_result_link:
  assumes "distinct (map ifi_index ls)" "l \<in> set ls" "ifi_index l = md_ifindex c" "md_ifindex c \<noteq> 0"
  shows "dump_result link_handler ls c = link_handler l c"
proof -
  obtain xs ys where ls: "ls = xs @ l # ys" using assms(2) by (metis split_list)
  have c': "md_ifindex (snd (link_handler l c)) = md_ifindex c"
    by (simp add: link_handler_def split: option.split)
  have other: "\<forall>x \<in> set xs \<union> set ys. ifi_index x \<noteq> md_ifindex c"
    using assms(1) unfolding ls assms(3) [symmetric] by (auto simp: image_iff)
  have xs: "dump_result link_handler xs c = (0, c)"
    using other assms(4) by (intro dump_result_other) auto
  have ys: "dump_result link_handler ys (snd (link_handler l c)) = (0, snd (link_handler l c))"
    using other assms(4) c' by (intro dump_result_other) auto
  show ?thesis
    using xs ys by (simp add: ls dump_result_append) (simp add: link_handler_def)
qed

lemma xdp_link_info_roundtrip: "xdp_link_info_of (xdp_link_info_bytes i) = Some i"
  using load32_le [of "[]" 0 "prog_id i"] load32_le [of "bytes32 (prog_id i)" 4 "drv_prog_id i"]
    load32_le [of "bytes32 (prog_id i) @ bytes32 (drv_prog_id i)" 8 "hw_prog_id i"]
    load32_le [of "bytes32 (prog_id i) @ bytes32 (drv_prog_id i) @ bytes32 (hw_prog_id i)" 12 "skb_prog_id i"]
    load8_at [of "bytes32 (prog_id i) @ bytes32 (drv_prog_id i) @ bytes32 (hw_prog_id i) @ bytes32 (skb_prog_id i)" 16]
  by (simp add: xdp_link_info_of_def xdp_link_info_bytes_def)

lemma single_mode_ok:
  fixes f :: u32
  assumes "f \<in> {0, 2, 4, 8}"
  shows "\<not> (f \<noteq> 0 \<and> f AND (f - 1) \<noteq> 0)"
  using assms by (elim insertE) simp_all

lemma nl_ready_open:
  "nl_ready sys sock pid \<Longrightarrow> libbpf_netlink_open sys = (Inr (sock, pid), [NlOpen sock])"
  by (simp add: nl_ready_def libbpf_netlink_open_def)

lemma get_link_dump:
  assumes "nl_ready sys sock pid" "dumps_links sys pid links" "\<forall>x \<in> set links. link_ok x"
  shows "\<exists>req. libbpf_nl_get_link sys sock pid get_xdp_info c =
    (let (ret, c') = dump_result link_handler links c in Some (ret, c', [NlSend sock req]))"
proof -
  obtain mss d where mss: "concat mss = map (link_msg pid (nl_time sys)) links @ [d]"
      "done_msg pid (nl_time sys) d" "\<forall>ms \<in> set mss. ms \<noteq> [] \<and> length (enc_nlmsgs ms) \<le> 4096"
      "\<And>req. nl_recv sys req = map (\<lambda>ms. Inr (enc_nlmsgs ms)) mss"
    using assms(2) by (auto simp: dumps_links_def)
  have "bpf_netlink_recv sys req pid (nl_time sys) (Some (dump_link_nlmsg get_xdp_info)) c =
      Some (dump_result link_handler links c)" for req
    using link_dump.recv_dump [OF mss(1) _ mss(2,3), of "nl_stack sys" "[]" c] assms(3) mss(4)
    by (simp add: bpf_netlink_recv_def data_link_msg)
  then show ?thesis
    using assms(1) by (simp add: libbpf_nl_get_link_def nl_request_def nl_ready_def split: prod.split)
qed

lemma get_link_id_eq:
  assumes "nl_ready sys sock pid" and "dumps_links sys pid links"
    and "distinct (map ifi_index links)" and "\<forall>x \<in> set links. link_ok x"
    and "l \<in> set links" and "ifi_index l \<noteq> 0"
    and "flags AND NOT XDP_FLAGS_MASK = 0" and "flags AND 14 \<in> {0, 2, 4, 8}"
  shows "\<exists>req. bpf_get_link_xdp_id sys (ifi_index l) flags =
    Some (0, Some (link_xdp_id l flags), [NlOpen sock, NlSend sock req, NlClose sock])"
proof -
  let ?c = "\<lparr>md_ifindex = ifi_index l, md_flags = flags AND 14, md_info = zero_info\<rparr>"
  let ?i = "case link_xdp l of None \<Rightarrow> zero_info | Some as \<Rightarrow> xdp_info_of as zero_info"
  have modes: "XDP_FLAGS_SKB_MODE OR XDP_FLAGS_DRV_MODE OR XDP_FLAGS_HW_MODE = 14"
    by (simp add: XDP_FLAGS_SKB_MODE_def XDP_FLAGS_DRV_MODE_def XDP_FLAGS_HW_MODE_def)
  have len: "length (xdp_link_info_bytes i) = 20" for i by (simp add: xdp_link_info_bytes_def)
  have "dump_result link_handler links ?c = link_handler l ?c"
    by (rule dump_result_link) (use assms in simp_all)
  also have "\<dots> = (0, ?c\<lparr>md_info := ?i\<rparr>)"
    by (simp add: link_handler_def split: option.split)
  finally obtain req where
    "libbpf_nl_get_link sys sock pid get_xdp_info ?c = Some (0, ?c\<lparr>md_info := ?i\<rparr>, [NlSend sock req])"
    using get_link_dump [OF assms(1,2,4), of ?c] by auto
  then have "bpf_get_link_xdp_info sys (ifi_index l) 20 flags =
      Some (0, Some (xdp_link_info_bytes ?i), [NlOpen sock, NlSend sock req, NlClose sock])"
    using assms(7) single_mode_ok [OF assms(8)]
    by (simp add: bpf_get_link_xdp_info_def modes nl_ready_open [OF assms(1)] Let_def len)
  then show ?thesis
    by (auto simp: bpf_get_link_xdp_id_def xdp_link_info_roundtrip link_xdp_id_eq)
qed

text \<open>C12. The query gives the program of the interface, whatever other interfaces exist and however the
  kernel cuts its answer; the socket is opened and closed once.\<close>

theorem get_link_xdp_id_correct:
  assumes "nl_ready sys sock pid" and "dumps_links sys pid links"
    and "distinct (map ifi_index links)" and "\<forall>x \<in> set links. link_ok x"
    and "l \<in> set links" and "ifi_index l \<noteq> 0"
    and "flags AND NOT XDP_FLAGS_MASK = 0" and "flags AND 14 \<in> {0, 2, 4, 8}"
  shows "\<exists>req. bpf_get_link_xdp_id sys (ifi_index l) flags =
    Some (0, Some (link_xdp_id l flags), [NlOpen sock, NlSend sock req, NlClose sock])"
  using assms by (rule get_link_id_eq)

text \<open>Two interfaces in two buffers; the second has a program in two modes.\<close>

definition demo_links :: "link list" where
  "demo_links =
     [\<lparr>ifi_head = replicate 4 0, ifi_index = 1, ifi_tail = replicate 8 0, link_attrs = [(3, [108, 111, 0])],
       link_xdp = None\<rparr>,
      \<lparr>ifi_head = replicate 4 0, ifi_index = 2, ifi_tail = replicate 8 0,
       link_attrs = [(NLA_F_NESTED OR IFLA_XDP, enc_attrs [(2, [4]), (5, bytes32 17), (6, bytes32 23)])],
       link_xdp = Some [(2, [4]), (5, bytes32 17), (6, bytes32 23)]\<rparr>]"

definition demo_done :: nlmsg where
  "demo_done = \<lparr>nm_type = NLMSG_DONE, nm_flags = NLM_F_MULTI, nm_seq = 99, nm_pid = 7, nm_payload = bytes32 0\<rparr>"

definition demo_netlink :: netlink_sys where
  "demo_netlink =
     \<lparr>nl_socket = Inr 5, nl_setsockopt = 0, nl_bind = None, nl_getsockname = Inr (7, 12), nl_send = (\<lambda>_. None),
      nl_recv = (\<lambda>_. map (\<lambda>ms. Inr (enc_nlmsgs ms))
        [[link_msg 7 99 (demo_links ! 0)], [link_msg 7 99 (demo_links ! 1), demo_done]]),
      nl_stack = replicate 4096 0, nl_time = 99\<rparr>"

lemma demo_links_ok: "\<forall>x \<in> set demo_links. link_ok x"
  by (simp add: demo_links_def link_ok_def xdp_attrs_ok_def attr_fits_def length_enc_attr nla_pad_def
      attr_type_def IFLA_XDP_def NLA_F_NESTED_def)

lemma demo_dumps: "dumps_links demo_netlink 7 demo_links"
  unfolding dumps_links_def
  by (rule exI [of _ "[[link_msg 7 99 (demo_links ! 0)], [link_msg 7 99 (demo_links ! 1), demo_done]]"],
      rule exI [of _ demo_done])
     (simp add: demo_netlink_def demo_links_def demo_done_def done_msg_def length_enc_nlmsg link_msg_def
      length_enc_attr nla_pad_def)

theorem get_link_xdp_id_correct_witness:
  "\<exists>req. bpf_get_link_xdp_id demo_netlink 2 XDP_FLAGS_SKB_MODE =
    Some (0, Some 23, [NlOpen 5, NlSend 5 req, NlClose 5])"
proof -
  have ready: "nl_ready demo_netlink 5 7" by (simp add: nl_ready_def demo_netlink_def)
  have "distinct (map ifi_index demo_links)" "demo_links ! 1 \<in> set demo_links"
    "ifi_index (demo_links ! 1) \<noteq> 0"
    by (simp_all add: demo_links_def)
  moreover have "XDP_FLAGS_SKB_MODE AND NOT XDP_FLAGS_MASK = 0" "XDP_FLAGS_SKB_MODE AND 14 \<in> {0, 2, 4, 8}"
    by (simp_all add: XDP_FLAGS_SKB_MODE_def XDP_FLAGS_MASK_def)
  moreover have "link_xdp_id (demo_links ! 1) XDP_FLAGS_SKB_MODE = 23" "ifi_index (demo_links ! 1) = 2"
    by code_simp+
  ultimately show ?thesis
    using get_link_xdp_id_correct [OF ready demo_dumps, of "demo_links ! 1" XDP_FLAGS_SKB_MODE] demo_links_ok
    by simp
qed

section \<open>Attaching\<close>

text \<open>The kernel's view of an attach request, read with the parser of the library: the interface, the
  program and the flags.\<close>

definition decode_set_link :: "bytes \<Rightarrow> (u32 \<times> u32 \<times> u32 option) option" where
  "decode_set_link msg = do {
     len \<leftarrow> load32 msg 0;
     type \<leftarrow> load16 msg 4;
     ifindex \<leftarrow> load32 msg 20;
     (ret, tb) \<leftarrow> libbpf_nla_parse msg IFLA_MAX 32 (sint (len - 32)) None;
     if type \<noteq> RTM_SETLINK \<or> ret \<noteq> 0 \<or> unat len \<noteq> length msg then None
     else do {
       xdp \<leftarrow> tb ! unat IFLA_XDP;
       (ret, xdp_tb) \<leftarrow> libbpf_nla_parse_nested msg 7 xdp None;
       fd \<leftarrow> xdp_tb ! 1 \<bind> libbpf_nla_getattr_u32 msg;
       if ret \<noteq> 0 then None
       else (case xdp_tb ! 3 of
           None \<Rightarrow> Some (ifindex, fd, None)
         | Some p \<Rightarrow> do { f \<leftarrow> libbpf_nla_getattr_u32 msg p; Some (ifindex, fd, Some f) }) } }"

text \<open>The acknowledgement of a request: an error message. The client does not ask for capped
  acknowledgements, so one with an error repeats the whole request, and one without has its header only.
  A message of the driver, which would follow as attributes and which the client prints, is not part of
  it.\<close>

definition ack_nlmsg :: "u32 \<Rightarrow> u32 \<Rightarrow> bytes \<Rightarrow> nlmsg" where
  "ack_nlmsg pid error req =
     \<lparr>nm_type = NLMSG_ERROR, nm_flags = (if error = 0 then NLM_F_CAPPED else 0), nm_seq = 1, nm_pid = pid,
      nm_payload = bytes32 error @ (if error = 0 then take 16 req else req)\<rparr>"

definition ack_msg :: "u32 \<Rightarrow> u32 \<Rightarrow> bytes \<Rightarrow> bytes" where
  "ack_msg pid error req = enc_nlmsg (ack_nlmsg pid error req)"

definition set_link_nlmsg :: "u32 \<Rightarrow> u32 \<Rightarrow> u32 \<Rightarrow> nlmsg" where
  "set_link_nlmsg ifindex fd flags =
     \<lparr>nm_type = RTM_SETLINK, nm_flags = NLM_F_REQUEST OR NLM_F_ACK, nm_seq = 1, nm_pid = 0,
      nm_payload = ifinfomsg_bytes 0 ifindex @
        enc_attrs [(NLA_F_NESTED OR IFLA_XDP, enc_attrs (xdp_attrs fd flags))]\<rparr>"

lemma xdp_message_nlmsg: "xdp_message ifindex fd flags = enc_nlmsg (set_link_nlmsg ifindex fd flags)"
  by (simp add: xdp_message_def set_link_nlmsg_def enc_nlmsg_def nlmsg_hdr_def xdp_attrs_def length_enc_attr nla_pad_def)

lemma length_xdp_message: "length (xdp_message ifindex fd flags) = (if flags \<noteq> 0 then 52 else 44)"
  by (simp add: xdp_message_def xdp_attrs_def length_enc_attr nla_pad_def)

lemma xdp_message_header:
  "load32 (xdp_message ifindex fd flags) 0 = Some (if flags \<noteq> 0 then 52 else 44)"
  "load16 (xdp_message ifindex fd flags) 4 = Some RTM_SETLINK"
  "load32 (xdp_message ifindex fd flags) 20 = Some ifindex"
proof -
  show "load32 (xdp_message ifindex fd flags) 0 = Some (if flags \<noteq> 0 then 52 else 44)"
    by (simp add: xdp_message_def load32_nlmsghdr)
  show "load16 (xdp_message ifindex fd flags) 4 = Some RTM_SETLINK"
    using nlmsghdr_fields(2) [of 0 "[]"] by (simp add: xdp_message_def)
  show "load32 (xdp_message ifindex fd flags) 20 = Some ifindex"
    using load32_le [of "nlmsghdr_bytes len t f s p @ [0, 0, 0, 0]" 20 ifindex for len t f s p]
    by (simp add: xdp_message_def ifinfomsg_bytes_def)
qed

lemma xdp_attrs_lookup:
  assumes "attr_value m e = Some (enc_attrs (xdp_attrs fd flags))"
  obtains p xtb q where "e = Some p" and "libbpf_nla_parse_nested m 7 p None = Some (0, xtb)"
    and "xtb ! 1 = Some q" and "libbpf_nla_getattr_u32 m q = Some fd"
    and "if flags \<noteq> 0 then \<exists>r. xtb ! 3 = Some r \<and> libbpf_nla_getattr_u32 m r = Some flags
         else xtb ! 3 = None"
proof -
  let ?as = "xdp_attrs fd flags"
  have "\<forall>a \<in> set ?as. attr_fits a" "length (enc_attrs ?as) < 2 ^ 31"
    by (simp_all add: xdp_attrs_def attr_fits_def length_enc_attr nla_pad_def)
  with assms obtain p xtb where p: "e = Some p" "libbpf_nla_parse_nested m 7 p None = Some (0, xtb)"
    and xval: "\<And>t. int t \<le> 7 \<Longrightarrow> attr_value m (xtb ! t) = attr_map ?as t"
    and xnone: "\<And>t. int t \<le> 7 \<Longrightarrow> xtb ! t = None \<longleftrightarrow> attr_map ?as t = None"
    by (rule nla_parse_nested_lookup [where maxtype = 7]) blast
  have maps: "attr_map ?as 1 = Some (bytes32 fd)"
    "attr_map ?as 3 = (if flags \<noteq> 0 then Some (bytes32 flags) else None)"
    by (simp_all add: xdp_attrs_def attr_type_def IFLA_XDP_FD_def IFLA_XDP_FLAGS_def)
  obtain q where "xtb ! 1 = Some q" using xnone [of 1] maps(1) by auto
  with xval [of 1] maps(1) have q: "xtb ! 1 = Some q" "libbpf_nla_getattr_u32 m q = Some fd"
    by (auto intro!: getattr_u32_value)
  have "if flags \<noteq> 0 then \<exists>r. xtb ! 3 = Some r \<and> libbpf_nla_getattr_u32 m r = Some flags else xtb ! 3 = None"
    using xval [of 3] xnone [of 3] maps(2) by (auto intro: getattr_u32_value)
  with p q show ?thesis by (rule that)
qed

lemma decode_xdp_message:
  "decode_set_link (xdp_message ifindex fd flags) =
   Some (ifindex, fd, if flags \<noteq> 0 then Some flags else None)"
proof -
  let ?m = "xdp_message ifindex fd flags"
  let ?x = "set_link_nlmsg ifindex fd flags"
  let ?nest = "[(NLA_F_NESTED OR IFLA_XDP, enc_attrs (xdp_attrs fd flags))]"
  have pay: "nm_payload ?x = ifinfomsg_bytes 0 ifindex @ enc_attrs ?nest"
    by (simp add: set_link_nlmsg_def)
  have fits: "\<forall>a \<in> set ?nest. attr_fits a"
    by (simp add: attr_fits_def xdp_attrs_def length_enc_attr nla_pad_def)
  have small: "length (enc_nlmsg ?x) \<le> 4096"
    using length_xdp_message [of ifindex fd flags] by (simp add: xdp_message_nlmsg split: if_splits)
  have m: "?m = [] @ enc_nlmsg ?x @ []" by (simp add: xdp_message_nlmsg)
  have p32: "16 + length (ifinfomsg_bytes 0 ifindex) = 32" by simp
  obtain w tb where w: "load32 ?m 0 = Some w" "sint (w - 32) = int (length (enc_attrs ?nest))"
      "libbpf_nla_parse ?m IFLA_MAX 32 (int (length (enc_attrs ?nest))) None = Some (0, tb)"
    and tb: "\<And>t. int t \<le> IFLA_MAX \<Longrightarrow> attr_value ?m (tb ! t) = attr_map ?nest t"
    by (rule payload_index [OF pay fits small m, of IFLA_MAX, unfolded p32 list.size add_0 of_nat_numeral]) blast
  have "attr_value ?m (tb ! unat IFLA_XDP) = Some (enc_attrs (xdp_attrs fd flags))"
    using tb [of "unat IFLA_XDP"] by (simp add: IFLA_XDP_def IFLA_MAX_def NLA_F_NESTED_def attr_type_def)
  then obtain p xtb q where p: "tb ! unat IFLA_XDP = Some p"
      "libbpf_nla_parse_nested ?m 7 p None = Some (0, xtb)"
      "xtb ! 1 = Some q" "libbpf_nla_getattr_u32 ?m q = Some fd"
      "if flags \<noteq> 0 then \<exists>r. xtb ! 3 = Some r \<and> libbpf_nla_getattr_u32 ?m r = Some flags else xtb ! 3 = None"
    by (rule xdp_attrs_lookup)
  show ?thesis
    using w p xdp_message_header [of ifindex fd flags] length_xdp_message [of ifindex fd flags]
    by (auto simp: decode_set_link_def split: if_splits)
qed

lemma ack_body:
  "nlmsg_body (ack_msg pid error req @ post) pid 1 None 0 False () =
   Some (if error = 0 then Inr (False, ()) else Inl (sint error, ()))"
proof -
  let ?x = "ack_nlmsg pid error req"
  let ?m = "ack_msg pid error req @ post"
  let ?h = "nlmsghdr_bytes (of_nat (16 + length (nm_payload ?x))) NLMSG_ERROR (if error = 0 then NLM_F_CAPPED else 0) 1 pid"
  obtain rest where m: "?m = [] @ ?h @ bytes32 error @ rest"
    by (simp add: ack_msg_def ack_nlmsg_def enc_nlmsg_def nlmsg_hdr_def)
  note fields = nlmsghdr_fields [of 0, OF _ m, simplified]
  have "load32 ?m 16 = Some error"
    using load32_le [of ?h 16 error] by (simp add: m)
  with fields show ?thesis
    by (simp add: nlmsg_body_def libbpf_nla_dump_errormsg_def NLM_F_CAPPED_def NLM_F_ACK_TLVS_def NLM_F_MULTI_def
        Let_def)
qed

lemma recv_ack:
  assumes "length req \<le> 4000"
  shows "netlink_recv_loop buf pid 1 None (Inr (ack_msg pid error req) # rs) () = Some (sint error, ())"
proof -
  let ?d = "ack_msg pid error req"
  let ?m = "?d @ drop (length ?d) buf"
  have len: "length ?d \<le> 4096" "?d \<noteq> []"
    using assms by (auto simp: ack_msg_def ack_nlmsg_def length_enc_nlmsg nla_pad_def enc_nlmsg_def nlmsg_hdr_def
        nlmsghdr_bytes_def)
  have stream: "NLMSG_OK ?m 0 (int (length ?d)) = Some True" "NLMSG_NEXT ?m 0 (int (length ?d)) = Some (length ?d, 0)"
    using nlmsg_in_stream [of "ack_nlmsg pid error req" "int (length ?d)" ?m "[]" "drop (length ?d) buf"] len
    by (simp_all add: ack_msg_def)
  have "nlmsg_loop ?m pid 1 None 0 (int (length ?d)) False () =
      Some (if error = 0 then Inr (False, ()) else Inl (sint error, ()))"
    by (subst nlmsg_loop.simps) (simp only: stream ack_body, simp)
  moreover have "take 4096 ?d = ?d" using len by simp
  ultimately show ?thesis using len(2) by simp
qed

lemma set_link_eq:
  assumes "nl_ready sys sock pid"
    and "nl_recv sys (xdp_message ifindex fd flags) = [Inr (ack_msg pid error (xdp_message ifindex fd flags))]"
  shows "bpf_set_link_xdp_fd sys ifindex fd flags =
    Some (sint error, [NlOpen sock, NlSend sock (xdp_message ifindex fd flags), NlClose sock])"
proof -
  let ?msg = "xdp_message ifindex fd flags"
  let ?z = "replicate (if flags \<noteq> 0 then 44 else 52) 0 :: bytes"
  have "load32 (?msg @ ?z) 0 = Some (if flags \<noteq> 0 then 52 else 44)"
    by (simp add: xdp_message_def load32_nlmsghdr)
  moreover have "load_bytes (?msg @ ?z) 0 (unat (if flags \<noteq> 0 then 52 else 44 :: u32)) = Some ?msg"
    using length_xdp_message [of ifindex fd flags] by (simp add: load_bytes_def)
  moreover have "bpf_netlink_recv sys ?msg pid 1 None () = Some (sint error, ())"
    using length_xdp_message [of ifindex fd flags]
    unfolding bpf_netlink_recv_def assms(2) by (intro recv_ack) simp
  ultimately show ?thesis
    using nl_ready_open [OF assms(1)] assms(1)
    by (simp add: bpf_set_link_xdp_fd_def xdp_request_eq nl_ready_def)
qed

text \<open>C19. Attaching a program: the request that is sent names the interface, the program and the flags,
  read back with the parser of the library; the result is the kernel's answer, zero or a negative
  error; the socket is closed.\<close>

theorem set_link_xdp_fd_correct:
  assumes "nl_ready sys sock pid" and "\<And>req. nl_recv sys req = [Inr (ack_msg pid error req)]"
  shows "\<exists>req. bpf_set_link_xdp_fd sys ifindex fd flags =
      Some (sint error, [NlOpen sock, NlSend sock req, NlClose sock]) \<and>
    decode_set_link req = Some (ifindex, fd, if flags \<noteq> 0 then Some flags else None)"
  using set_link_eq [OF assms(1,2), of ifindex fd flags] decode_xdp_message [of ifindex fd flags] by blast

theorem set_link_xdp_fd_correct_witness:
  "\<exists>req. bpf_set_link_xdp_fd (demo_netlink\<lparr>nl_recv := \<lambda>req. [Inr (ack_msg 7 (- 16) req)]\<rparr>) 2 9 4 =
      Some (- 16, [NlOpen 5, NlSend 5 req, NlClose 5]) \<and> decode_set_link req = Some (2, 9, Some 4)"
  using set_link_xdp_fd_correct [of "demo_netlink\<lparr>nl_recv := \<lambda>req. [Inr (ack_msg 7 (- 16) req)]\<rparr>" 5 7 "- 16" 2 9 4]
  by (simp add: nl_ready_def demo_netlink_def)

section \<open>Error paths\<close>

text \<open>The sockets that are open after a list of operations.\<close>

fun sockets_left :: "nl_effect list \<Rightarrow> int list \<Rightarrow> int list" where
  "sockets_left [] ss = ss"
| "sockets_left (NlOpen s # es) ss = sockets_left es (s # ss)"
| "sockets_left (NlClose s # es) ss = sockets_left es (remove1 s ss)"
| "sockets_left (NlSend s msg # es) ss = sockets_left es ss"

definition no_socket_left :: "nl_effect list \<Rightarrow> bool" where
  "no_socket_left es \<longleftrightarrow> sockets_left es [] = []"

lemma netlink_open_effects:
  obtains err where "libbpf_netlink_open sys = (Inl err, [])"
  | err sock where "libbpf_netlink_open sys = (Inl err, [NlOpen sock, NlClose sock])"
  | sock pid where "libbpf_netlink_open sys = (Inr (sock, pid), [NlOpen sock])"
  unfolding libbpf_netlink_open_def
  by (cases "nl_socket sys"; cases "nl_bind sys"; cases "nl_getsockname sys";
      cases "\<exists>pid. nl_getsockname sys = Inr (pid, 12)") auto

lemma nl_request_effects:
  "nl_request sys sock pid req fn c = Some (ret, c', es) \<Longrightarrow> es = [NlSend sock req]"
  by (auto simp: nl_request_def bind_eq_Some_conv split: option.splits)

lemma get_link_info_effects:
  "bpf_get_link_xdp_info sys ifindex info_size flags = Some (ret, info, es) \<Longrightarrow> no_socket_left es"
  by (rule netlink_open_effects [of sys])
     (auto simp: bpf_get_link_xdp_info_def libbpf_nl_get_link_def no_socket_left_def bind_eq_Some_conv Let_def
      dest!: nl_request_effects split: if_splits)

text \<open>C33. No call leaves a socket open, whichever of the socket calls fails and whatever the kernel sends.\<close>

theorem netlink_no_socket_leak:
  "(case bpf_set_link_xdp_fd sys ifindex fd flags of None \<Rightarrow> True | Some (_, es) \<Rightarrow> no_socket_left es) \<and>
   (case bpf_get_link_xdp_id sys ifindex flags of None \<Rightarrow> True | Some (_, _, es) \<Rightarrow> no_socket_left es)"
proof
  show "case bpf_set_link_xdp_fd sys ifindex fd flags of None \<Rightarrow> True | Some (_, es) \<Rightarrow> no_socket_left es"
    by (rule netlink_open_effects [of sys])
       (auto simp: bpf_set_link_xdp_fd_def no_socket_left_def bind_eq_Some_conv split: option.split)
  show "case bpf_get_link_xdp_id sys ifindex flags of None \<Rightarrow> True | Some (_, _, es) \<Rightarrow> no_socket_left es"
    by (auto simp: bpf_get_link_xdp_id_def bind_eq_Some_conv dest!: get_link_info_effects
        split: option.split option.splits if_splits)
qed

lemma two_modes:
  fixes flags :: u32
  assumes "flags AND 14 \<notin> {0, 2, 4, 8}"
  shows "flags AND 14 \<noteq> 0 \<and> (flags AND 14) AND ((flags AND 14) - 1) \<noteq> 0"
proof -
  define f where "f = flags AND 14"
  have "f \<le> 14" unfolding f_def by (rule word_and_le1)
  then have "unat f \<le> 14" by (simp add: word_le_nat_alt)
  then obtain k where k: "f = of_nat k" "k \<le> 14"
    by (metis of_nat_unat ucast_id)
  have "f AND 14 = f" by (simp add: f_def ac_simps)
  moreover have "k \<in> {0, 1, 2, 3, 4, 5, 6, 7, 8, 9, 10, 11, 12, 13, 14}"
    using k(2) unfolding insert_iff empty_iff by presburger
  ultimately show ?thesis
    using assms unfolding f_def [symmetric] k(1) by (elim insertE) simp_all
qed

text \<open>Flags with an unknown bit or more than one mode, and an empty result, are refused before a socket
  is opened; everything else opens one.\<close>

theorem get_link_info_einval:
  "(flags AND NOT XDP_FLAGS_MASK \<noteq> 0 \<or> info_size = 0 \<or> flags AND 14 \<notin> {0, 2, 4, 8}) =
   (\<forall>sys. bpf_get_link_xdp_info sys ifindex info_size flags = Some (- 22, None, []))"
proof -
  have modes: "XDP_FLAGS_SKB_MODE OR XDP_FLAGS_DRV_MODE OR XDP_FLAGS_HW_MODE = 14"
    by (simp add: XDP_FLAGS_SKB_MODE_def XDP_FLAGS_DRV_MODE_def XDP_FLAGS_HW_MODE_def)
  show ?thesis
  proof (cases "flags AND NOT XDP_FLAGS_MASK \<noteq> 0 \<or> info_size = 0 \<or> flags AND 14 \<notin> {0, 2, 4, 8}")
    case True
    then have "bpf_get_link_xdp_info sys ifindex info_size flags = Some (- 22, None, [])" for sys
      using two_modes [of flags] by (auto simp: bpf_get_link_xdp_info_def modes Let_def)
    with True show ?thesis by blast
  next
    case False
    then have single: "flags AND 14 \<in> {0, 2, 4, 8}" by blast
    have "bpf_get_link_xdp_info (demo_netlink\<lparr>nl_socket := Inl 97\<rparr>) ifindex info_size flags = Some (- 97, None, [])"
      using False single_mode_ok [OF single]
      by (simp add: bpf_get_link_xdp_info_def modes Let_def libbpf_netlink_open_def)
    then have "bpf_get_link_xdp_info (demo_netlink\<lparr>nl_socket := Inl 97\<rparr>) ifindex info_size flags \<noteq>
        Some (- 22, None, [])" by simp
    with False show ?thesis by blast
  qed
qed

text \<open>A message that does not fit into the receive buffer is cut by \<^verbatim>\<open>recv\<close>, which the loop does
  not notice: the header announces more than there is, so the message is skipped, and because
  \<^verbatim>\<open>multipart\<close> was not set the answer is taken to be complete.\<close>

lemma recv_oversized:
  assumes "4080 < length (nm_payload x)" "length (nm_payload x) < 2000000000"
  shows "netlink_recv_loop buf pid seq fn (Inr (enc_nlmsg x) # rs) c = Some (0, c)"
proof -
  let ?d = "take 4096 (enc_nlmsg x)"
  have len: "length ?d = 4096" using assms(1) by (simp add: length_enc_nlmsg)
  have d: "?d @ drop 4096 buf = [] @ nlmsg_hdr x @ (take 4080 (nm_payload x) @ drop 4096 buf)"
    using assms(1) by (simp add: enc_nlmsg_def nlmsg_hdr_def)
  let ?l = "of_nat (16 + length (nm_payload x)) :: u32"
  have "load32 (?d @ drop 4096 buf) 0 = Some ?l"
    unfolding d nlmsg_hdr_def by (rule nlmsghdr_fields(1) [OF _ refl]) simp
  moreover have "\<not> ?l \<le> of_int 4096"
    using assms unat_of_nat_eq [of "16 + length (nm_payload x)", where 'a = 32]
    by (simp add: word_le_nat_alt)
  ultimately have "NLMSG_OK (?d @ drop 4096 buf) 0 4096 = Some False" by (simp add: NLMSG_OK_def)
  then have "nlmsg_loop (?d @ drop 4096 buf) pid seq fn 0 4096 False c = Some (Inr (False, c))"
    by (subst nlmsg_loop.simps) simp
  moreover have "?d \<noteq> []" using len by auto
  ultimately show ?thesis using len by (simp add: Let_def del: take_eq_Nil take_eq_Nil2)
qed

text \<open>The query then reports that no program is attached to the interface, as a success.\<close>

theorem oversized_link_hides_program:
  assumes "nl_ready sys sock pid" and "4080 < length (nm_payload (link_msg pid (nl_time sys) l))"
    and "length (nm_payload (link_msg pid (nl_time sys) l)) < 2000000000"
    and "\<And>req. nl_recv sys req = Inr (enc_nlmsg (link_msg pid (nl_time sys) l)) # rs"
  shows "\<exists>req. bpf_get_link_xdp_id sys ifindex 0 =
    Some (0, Some 0, [NlOpen sock, NlSend sock req, NlClose sock])"
proof -
  have "bpf_netlink_recv sys req pid (nl_time sys) fn c = Some (0, c)" for req fn and c :: xdp_id_md
    unfolding bpf_netlink_recv_def assms(4) by (rule recv_oversized [OF assms(2,3)])
  moreover have "length (xdp_link_info_bytes zero_info) = 20" by (simp add: xdp_link_info_bytes_def)
  ultimately have "\<exists>req. bpf_get_link_xdp_info sys ifindex 20 0 =
      Some (0, Some (xdp_link_info_bytes zero_info), [NlOpen sock, NlSend sock req, NlClose sock])"
    using assms(1) by (simp add: bpf_get_link_xdp_info_def nl_ready_open [OF assms(1)] libbpf_nl_get_link_def
        nl_request_def nl_ready_def)
  then show ?thesis
    by (auto simp: bpf_get_link_xdp_id_def xdp_link_info_roundtrip get_xdp_id_def zero_info_def XDP_ATTACHED_MULTI_def)
qed

text \<open>An interface whose description needs more than a page, with program 42 attached.\<close>

definition demo_big_link :: link where
  "demo_big_link =
     \<lparr>ifi_head = replicate 4 0, ifi_index = 2, ifi_tail = replicate 8 0,
      link_attrs = [(22, replicate 8000 0), (IFLA_XDP, enc_attrs [(2, [1]), (4, bytes32 42)])],
      link_xdp = Some [(2, [1]), (4, bytes32 42)]\<rparr>"

theorem oversized_link_hides_program_witness:
  "link_xdp_id demo_big_link 0 = 42 \<and>
   (\<exists>req. bpf_get_link_xdp_id (demo_netlink\<lparr>nl_recv := \<lambda>_. [Inr (enc_nlmsg (link_msg 7 99 demo_big_link))]\<rparr>) 2 0 =
      Some (0, Some 0, [NlOpen 5, NlSend 5 req, NlClose 5]))"
proof
  show "link_xdp_id demo_big_link 0 = 42"
    by (simp add: link_xdp_id_def demo_big_link_def attr_type_def u32_of_def bytes32_def le32_def
        XDP_ATTACHED_NONE_def XDP_ATTACHED_MULTI_def)
  have "length (nm_payload (link_msg 7 99 demo_big_link)) = 8040"
    by (simp add: link_msg_def demo_big_link_def length_enc_attr nla_pad_def)
  then show "\<exists>req. bpf_get_link_xdp_id
      (demo_netlink\<lparr>nl_recv := \<lambda>_. [Inr (enc_nlmsg (link_msg 7 99 demo_big_link))]\<rparr>) 2 0 =
      Some (0, Some 0, [NlOpen 5, NlSend 5 req, NlClose 5])"
    by (intro oversized_link_hides_program [where pid = 7 and l = demo_big_link and rs = "[]"])
       (simp_all add: nl_ready_def demo_netlink_def)
qed

section \<open>Dumps of classes, queueing disciplines and filters\<close>

text \<open>The three handlers give the callback an index that represents the attributes of the message.\<close>

theorem tc_dump_index:
  assumes "nm_payload x = t @ enc_attrs as" "length t = 20" "\<forall>a \<in> set as. attr_fits a"
    and "length (enc_nlmsg x) \<le> 4096" and "m = pre @ enc_nlmsg x @ post"
    and "dump \<in> {dump_class_nlmsg, dump_qdisc_nlmsg, dump_filter_nlmsg}"
  shows "\<exists>tb. dump tca_max cb m (length pre) c = cb m (length pre + 16) tb c \<and>
    (\<forall>i. int i \<le> tca_max \<longrightarrow> attr_value m (tb ! i) = attr_map as i)"
proof -
  have p36: "16 + length t = 36" using assms(2) by simp
  obtain l tb where l: "load32 m (length pre) = Some l" "sint (l - 36) = int (length (enc_attrs as))"
      "libbpf_nla_parse m tca_max (length pre + 36) (int (length (enc_attrs as))) None = Some (0, tb)"
    and tb: "\<And>i. int i \<le> tca_max \<Longrightarrow> attr_value m (tb ! i) = attr_map as i"
    by (rule payload_index [OF assms(1,3-5), of tca_max, unfolded p36 of_nat_numeral]) blast
  have "dump tca_max cb m (length pre) c = cb m (length pre + 16) tb c"
    using assms(6) l
    by (auto simp: dump_class_nlmsg_def dump_qdisc_nlmsg_def dump_filter_nlmsg_def add.commute [of 36 "length pre"])
  with tb show ?thesis by blast
qed

theorem tc_dump_index_witness:
  "\<exists>tb. dump_qdisc_nlmsg 15 (\<lambda>m p tb c. Some (0, tb ! 1 # c))
      (enc_nlmsg \<lparr>nm_type = 36, nm_flags = 2, nm_seq = 1, nm_pid = 7,
         nm_payload = replicate 20 0 @ enc_attrs [(1, [102, 113, 0])]\<rparr>) 0 [] = Some (0, [tb ! 1]) \<and>
    attr_value (enc_nlmsg \<lparr>nm_type = 36, nm_flags = 2, nm_seq = 1, nm_pid = 7,
         nm_payload = replicate 20 0 @ enc_attrs [(1, [102, 113, 0])]\<rparr>) (tb ! 1) = Some [102, 113, 0]"
proof -
  let ?as = "[(1, [102, 113, 0])] :: attr list"
  let ?x = "\<lparr>nm_type = 36, nm_flags = 2, nm_seq = 1, nm_pid = 7, nm_payload = replicate 20 0 @ enc_attrs ?as\<rparr>"
  have "attr_map ?as 1 = Some [102, 113, 0]" by (simp add: attr_type_def)
  moreover have "length (enc_nlmsg ?x) \<le> 4096"
    by (simp add: length_enc_nlmsg length_enc_attr nla_pad_def)
  ultimately show ?thesis
    using tc_dump_index [of ?x "replicate 20 0" ?as "enc_nlmsg ?x" "[]" "[]" dump_qdisc_nlmsg 15
        "\<lambda>m p tb c. Some (0, tb ! 1 # c)" "[]"]
    by (auto simp: attr_fits_def simp del: enc_attrs_simps attr_map_simps)
qed

end
