(* ===== verification/LinkAttach.thy ===== *)
theory LinkAttach
  imports CommonUser Netlink
begin

text \<open>
  Attaching over netlink. The function that \<^verbatim>\<open>common_user_bpf_xdp.c\<close> calls to change the
  program of an interface is the netlink client of libbpf. Here a kernel answers the request that the
  client really sends: it decodes it, acts on the interface that the request names and acknowledges it.
  Its state \<open>ds\<close> has a device for every interface; \<open>dev\<close> is what setting a program does to one of
  them.
\<close>

definition kernel_step :: "'d set_link \<Rightarrow> (u32 \<Rightarrow> 'd) \<Rightarrow> bytes \<Rightarrow> int \<times> (u32 \<Rightarrow> 'd)" where
  "kernel_step dev ds req =
     (case decode_set_link req of
        None \<Rightarrow> (- 22, ds)
      | Some (ifi, fd, flags) \<Rightarrow>
          let (err, d) = dev (ds ifi) (sint fd) (case flags of None \<Rightarrow> 0 | Some f \<Rightarrow> f) in (err, ds(ifi := d)))"

definition netlink_set_link :: "netlink_sys \<Rightarrow> u32 \<Rightarrow> u32 \<Rightarrow> 'd set_link \<Rightarrow> (u32 \<Rightarrow> 'd) set_link" where
  "netlink_set_link nls pid ifi dev ds fd flags =
     (case bpf_set_link_xdp_fd
             (nls\<lparr>nl_recv := \<lambda>req. [Inr (ack_msg pid (of_int (fst (kernel_step dev ds req))) req)]\<rparr>)
             ifi (of_int fd) flags of
        Some (ret, [NlOpen _, NlSend _ req, NlClose _]) \<Rightarrow> (ret, snd (kernel_step dev ds req))
      | _ \<Rightarrow> (- 1, ds))"

text \<open>An operation on the device of one interface, as one on all of them.\<close>

definition on_interface :: "u32 \<Rightarrow> (u32 \<Rightarrow> 'd) \<Rightarrow> int \<times> 'd \<Rightarrow> int \<times> (u32 \<Rightarrow> 'd)" where
  "on_interface ifi ds r = (fst r, ds(ifi := snd r))"

lemma on_interface_simps [simp]:
  "fst (on_interface ifi ds r) = fst r" "snd (on_interface ifi ds r) = ds(ifi := snd r)"
  by (simp_all add: on_interface_def)

lemma netlink_set_link_eq:
  assumes "nl_ready nls sock pid" and "fd \<in> {- 2147483648..<2147483648}"
    and "fst (dev (ds ifi) fd flags) \<in> {- 2147483648..<2147483648}"
  shows "netlink_set_link nls pid ifi dev ds fd flags = on_interface ifi ds (dev (ds ifi) fd flags)"
proof -
  let ?msg = "xdp_message ifi (of_int fd) flags"
  let ?nls = "nls\<lparr>nl_recv := \<lambda>req. [Inr (ack_msg pid (of_int (fst (kernel_step dev ds req))) req)]\<rparr>"
  have step: "kernel_step dev ds ?msg = on_interface ifi ds (dev (ds ifi) fd flags)"
    using decode_xdp_message [of ifi "of_int fd" flags] sint_of_int_range [OF assms(2)]
    by (simp add: kernel_step_def on_interface_def split: prod.split)
  have "nl_ready ?nls sock pid" using assms(1) by (simp add: nl_ready_def)
  from set_link_eq [OF this, of ifi "of_int fd" flags "of_int (fst (kernel_step dev ds ?msg))"]
  have "bpf_set_link_xdp_fd ?nls ifi (of_int fd) flags =
      Some (fst (dev (ds ifi) fd flags), [NlOpen sock, NlSend sock ?msg, NlClose sock])"
    using sint_of_int_range [OF assms(3)] by (simp add: step)
  then show ?thesis by (simp add: netlink_set_link_def step on_interface_def)
qed

text \<open>C10. The loader attaches a program through the netlink client with the same result as if it called
  the kernel directly, and the same effect on the device of the interface that was asked for, while the
  devices of all other interfaces stay as they are: interface, program and flags pass through the encoding
  of each request (up to three: the attempt, the removal in the other mode, the second attempt), and the
  error code through that of the answers.\<close>

theorem attach_over_netlink:
  assumes "nl_ready nls sock pid" and "0 \<le> fd" "fd < 2147483648"
    and "\<And>d fd flags. fst (dev d fd flags) \<in> {- 2147483648..<2147483648}"
  shows "xdp_link_attach (netlink_set_link nls pid ifi dev) ds flags fd =
    on_interface ifi ds (xdp_link_attach dev (ds ifi) flags fd)"
proof -
  have "netlink_set_link nls pid ifi dev ds' fd flags' = on_interface ifi ds' (dev (ds' ifi) fd flags')"
    "netlink_set_link nls pid ifi dev ds' (- 1) flags' = on_interface ifi ds' (dev (ds' ifi) (- 1) flags')"
    for ds' flags' using assms by (auto intro!: netlink_set_link_eq)
  then show ?thesis by (simp add: xdp_link_attach_def Let_def on_interface_def split: prod.split)
qed

definition two_slots :: "u32 \<Rightarrow> (u32 \<times> int) option" where
  "two_slots = (\<lambda>_. None)(2 := Some (2, 5), 3 := Some (2, 6))"

theorem attach_over_netlink_witness:
  "xdp_link_attach (netlink_set_link demo_netlink 7 2 slot_link) two_slots 4 9 =
    (0, two_slots(2 := Some (4, 9)))"
proof -
  have "xdp_link_attach (netlink_set_link demo_netlink 7 2 slot_link) two_slots 4 9 =
      on_interface 2 two_slots (xdp_link_attach slot_link (two_slots 2) 4 9)"
    by (rule attach_over_netlink [where sock = 5])
       (auto simp: nl_ready_def demo_netlink_def slot_link_def Let_def split: option.split)
  also have "xdp_link_attach slot_link (two_slots 2) 4 9 = (0, Some (4, 9))"
    by (simp add: two_slots_def xdp_link_attach_def slot_link_def opposite_mode_def)
  finally show ?thesis by (simp add: on_interface_def)
qed

text \<open>The query over netlink: the kernel reports the interfaces \<open>links d\<close>, one in each buffer.\<close>

definition done_nlmsg :: "u32 \<Rightarrow> u32 \<Rightarrow> nlmsg" where
  "done_nlmsg pid seq =
     \<lparr>nm_type = NLMSG_DONE, nm_flags = NLM_F_MULTI, nm_seq = seq, nm_pid = pid, nm_payload = bytes32 0\<rparr>"

definition reporting :: "netlink_sys \<Rightarrow> u32 \<Rightarrow> link list \<Rightarrow> netlink_sys" where
  "reporting nls pid links =
     nls\<lparr>nl_recv := \<lambda>_. map (\<lambda>l. Inr (enc_nlmsg (link_msg pid (nl_time nls) l))) links @
       [Inr (enc_nlmsg (done_nlmsg pid (nl_time nls)))]\<rparr>"

definition netlink_get_id :: "netlink_sys \<Rightarrow> u32 \<Rightarrow> u32 \<Rightarrow> ('d \<Rightarrow> link list) \<Rightarrow> 'd \<Rightarrow> u32 \<Rightarrow> int \<times> u32" where
  "netlink_get_id nls pid ifi links d flags =
     (case bpf_get_link_xdp_id (reporting nls pid (links d)) ifi flags of
        Some (ret, Some i, _) \<Rightarrow> (ret, i)
      | Some (ret, None, _) \<Rightarrow> (ret, 0)
      | None \<Rightarrow> (- 1, 0))"

lemma reporting_dumps:
  assumes "\<forall>l \<in> set links. length (enc_nlmsg (link_msg pid (nl_time nls) l)) \<le> 4096"
  shows "dumps_links (reporting nls pid links) pid links"
  unfolding dumps_links_def
  by (rule exI [of _ "map (\<lambda>l. [link_msg pid (nl_time nls) l]) links @ [[done_nlmsg pid (nl_time nls)]]"],
      rule exI [of _ "done_nlmsg pid (nl_time nls)"])
     (use assms in \<open>auto simp: reporting_def done_msg_def done_nlmsg_def length_enc_nlmsg nla_pad_def o_def\<close>)

lemma netlink_get_id_eq:
  assumes "nl_ready nls sock pid" and "\<forall>x \<in> set (links d). link_ok x"
    and "\<forall>x \<in> set (links d). length (enc_nlmsg (link_msg pid (nl_time nls) x)) \<le> 4096"
    and "distinct (map ifi_index (links d))" and "l \<in> set (links d)" and "ifi_index l = ifi" "ifi \<noteq> 0"
    and "flags AND NOT Netlink.XDP_FLAGS_MASK = 0" "flags AND 14 \<in> {0, 2, 4, 8}"
  shows "netlink_get_id nls pid ifi links d flags = (0, link_xdp_id l flags)"
proof -
  have "nl_ready (reporting nls pid (links d)) sock pid"
    using assms(1) by (simp add: nl_ready_def reporting_def)
  from get_link_id_eq [OF this reporting_dumps [OF assms(3)] assms(4,2,5) _ assms(8,9)] assms(6,7)
  show ?thesis by (auto simp: netlink_get_id_def)
qed

text \<open>C11. Detaching through the netlink client is detaching with a direct view of the device: for flags
  within the mask of XDP flags that name at most one mode, and an interface that the kernel reports, the
  check for the expected program sees the program reported for that interface, and the request removes
  it from that interface and from no other.\<close>

theorem detach_over_netlink:
  assumes "nl_ready nls sock pid" and "\<And>d fd flags. fst (dev d fd flags) \<in> {- 2147483648..<2147483648}"
    and "\<forall>x \<in> set (links ds). link_ok x \<and> length (enc_nlmsg (link_msg pid (nl_time nls) x)) \<le> 4096"
    and "distinct (map ifi_index (links ds))" and "l \<in> set (links ds)" and "ifi_index l = ifi" "ifi \<noteq> 0"
    and "flags AND NOT Netlink.XDP_FLAGS_MASK = 0" "flags AND 14 \<in> {0, 2, 4, 8}"
  shows "xdp_link_detach (netlink_set_link nls pid ifi dev) (netlink_get_id nls pid ifi links) ds flags expected =
    on_interface ifi ds (xdp_link_detach dev (\<lambda>_ flags. (0, link_xdp_id l flags)) (ds ifi) flags expected)"
proof -
  have "netlink_get_id nls pid ifi links ds flags = (0, link_xdp_id l flags)"
    by (rule netlink_get_id_eq [where sock = sock]) (use assms in auto)
  moreover have "netlink_set_link nls pid ifi dev ds (- 1) flags = on_interface ifi ds (dev (ds ifi) (- 1) flags)"
    using assms(1,2) by (auto intro!: netlink_set_link_eq)
  ultimately show ?thesis by (simp add: xdp_link_detach_def on_interface_def split: prod.split)
qed

theorem detach_over_netlink_witness:
  "xdp_link_detach (netlink_set_link demo_netlink 7 2 slot_link)
     (netlink_get_id demo_netlink 7 2 (\<lambda>_. demo_links)) two_slots 2 23 = (0, two_slots(2 := None))"
proof -
  have "xdp_link_detach (netlink_set_link demo_netlink 7 2 slot_link)
      (netlink_get_id demo_netlink 7 2 (\<lambda>_. demo_links)) two_slots 2 23 =
      on_interface 2 two_slots (xdp_link_detach slot_link (\<lambda>_ flags. (0, link_xdp_id (demo_links ! 1) flags)) (two_slots 2) 2 23)"
  proof (rule detach_over_netlink [where sock = 5])
    show "\<forall>x \<in> set demo_links. link_ok x \<and> length (enc_nlmsg (link_msg 7 (nl_time demo_netlink) x)) \<le> 4096"
      using demo_links_ok
      by (simp add: demo_links_def length_enc_nlmsg link_msg_def length_enc_attr nla_pad_def)
  qed (auto simp: nl_ready_def demo_netlink_def slot_link_def demo_links_def Netlink.XDP_FLAGS_MASK_def Let_def
      split: option.split)
  moreover have "link_xdp_id (demo_links ! 1) 2 = 23" by code_simp
  moreover have "two_slots 2 = Some (2, 5)" by (simp add: two_slots_def)
  ultimately show ?thesis by (simp add: xdp_link_detach_def slot_link_def on_interface_def)
qed

end
