(* ===== verification/Hashmap.thy ===== *)
theory Hashmap
  imports Prelude "HOL-Library.Multiset"
begin

text \<open>
  The hash map of libbpf, \<^verbatim>\<open>libbpf/src/hashmap.c\<close> and \<^verbatim>\<open>hashmap.h\<close>, and its clients that
  count names (\<^verbatim>\<open>btf_dump.c\<close>) and compare types (\<^verbatim>\<open>btf.c\<close>). A chain of
  \<^verbatim>\<open>struct hashmap_entry\<close> is the list of its keys and values, a pointer to the link that leads to
  an entry is its position in the chain. The hash and comparison functions are taken with their context
  applied. Following the bucket pointer after it was freed is \<^term>\<open>None\<close>. Whether an allocation
  succeeds is an argument.
\<close>

section \<open>Definitions\<close>

text \<open>\<^verbatim>\<open>h >> (64 - bits)\<close>: for \<open>bits = 0\<close> the shift is by the width of the type, which C
  leaves undefined and the processor takes modulo 64.\<close>

definition hash_bits :: "u64 \<Rightarrow> nat \<Rightarrow> u64" where
  "hash_bits h bits = drop_bit ((64 - bits) mod 64) (h * 11400714819323198485)"

datatype ('k, 'v) buckets = NoBuckets | Buckets "('k \<times> 'v) list list" | FreedBuckets

record ('k, 'v) hashmap =
  hash_fn :: "'k \<Rightarrow> u64"
  equal_fn :: "'k \<Rightarrow> 'k \<Rightarrow> bool"
  buckets :: "('k, 'v) buckets"
  cap :: nat
  cap_bits :: nat
  sz :: nat

definition hashmap__init :: "('k \<Rightarrow> u64) \<Rightarrow> ('k \<Rightarrow> 'k \<Rightarrow> bool) \<Rightarrow> ('k, 'v) hashmap" where
  "hashmap__init hash equal =
     \<lparr>hash_fn = hash, equal_fn = equal, buckets = NoBuckets, cap = 0, cap_bits = 0, sz = 0\<rparr>"

text \<open>\<^verbatim>\<open>hashmap__new\<close>: \<^term>\<open>Inl\<close> is the error pointer.\<close>

definition hashmap__new ::
  "bool \<Rightarrow> ('k \<Rightarrow> u64) \<Rightarrow> ('k \<Rightarrow> 'k \<Rightarrow> bool) \<Rightarrow> int + ('k, 'v) hashmap" where
  "hashmap__new alloc hash equal = (if \<not> alloc then Inl (- 12) else Inr (hashmap__init hash equal))"

text \<open>\<^verbatim>\<open>free(map->buckets)\<close>: freeing NULL does nothing, freeing twice is \<^term>\<open>None\<close>. The pointer
  keeps its value.\<close>

definition free_buckets :: "('k, 'v) buckets \<Rightarrow> ('k, 'v) buckets option" where
  "free_buckets b =
     (case b of NoBuckets \<Rightarrow> Some NoBuckets | Buckets _ \<Rightarrow> Some FreedBuckets | FreedBuckets \<Rightarrow> None)"

definition hashmap__clear :: "('k, 'v) hashmap \<Rightarrow> ('k, 'v) hashmap option" where
  "hashmap__clear m = do {
     b \<leftarrow> free_buckets (buckets m);
     Some (m\<lparr>buckets := b, cap := 0, cap_bits := 0, sz := 0\<rparr>) }"

text \<open>\<^verbatim>\<open>hashmap__free\<close>; nothing is left of the map.\<close>

definition hashmap__free :: "('k, 'v) hashmap option \<Rightarrow> unit option" where
  "hashmap__free m =
     (case m of None \<Rightarrow> Some () | Some m \<Rightarrow> do { _ \<leftarrow> hashmap__clear m; Some () })"

definition hashmap__size :: "('k, 'v) hashmap \<Rightarrow> nat" where
  "hashmap__size m = sz m"

definition hashmap__capacity :: "('k, 'v) hashmap \<Rightarrow> nat" where
  "hashmap__capacity m = cap m"

definition hashmap_needs_to_grow :: "('k, 'v) hashmap \<Rightarrow> bool" where
  "hashmap_needs_to_grow m \<longleftrightarrow> cap m = 0 \<or> (sz m + 1) * 4 div 3 > cap m"

text \<open>\<^verbatim>\<open>&buckets[h]\<close>, a position in the bucket array.\<close>

definition bucket_at :: "('k \<times> 'v) list list \<Rightarrow> u64 \<Rightarrow> ('k \<times> 'v) list option" where
  "bucket_at bs h = (if unat h < length bs then Some (bs ! unat h) else None)"

definition hashmap_add_entry ::
  "('k \<times> 'v) list list \<Rightarrow> u64 \<Rightarrow> 'k \<times> 'v \<Rightarrow> ('k \<times> 'v) list list option" where
  "hashmap_add_entry bs h e = do { c \<leftarrow> bucket_at bs h; Some (bs[unat h := e # c]) }"

definition hashmap_del_entry :: "('k \<times> 'v) list \<Rightarrow> nat \<Rightarrow> ('k \<times> 'v) list" where
  "hashmap_del_entry c i = take i c @ drop (Suc i) c"

text \<open>The loop over all entries, bucket after bucket, each chain from its head.\<close>

fun move_entries ::
  "('k \<Rightarrow> u64) \<Rightarrow> nat \<Rightarrow> ('k \<times> 'v) list \<Rightarrow> ('k \<times> 'v) list list \<Rightarrow> ('k \<times> 'v) list list option" where
  "move_entries hash bits [] bs = Some bs"
| "move_entries hash bits (e # es) bs = do {
     bs' \<leftarrow> hashmap_add_entry bs (hash_bits (hash (fst e)) bits) e;
     move_entries hash bits es bs' }"

text \<open>The entries the loop visits; with no bucket array the capacity is 0 and it visits none. Its counter
  \<^verbatim>\<open>bkt\<close> is an \<^verbatim>\<open>int\<close> that is compared with the capacity, a \<^verbatim>\<open>size_t\<close>: with \<open>2 ^ 31\<close> buckets
  or more it overflows, which is \<^term>\<open>None\<close>.\<close>

definition all_entries :: "('k, 'v) hashmap \<Rightarrow> ('k \<times> 'v) list option" where
  "all_entries m =
     (if cap m = 0 then Some []
      else if 2 ^ 31 \<le> cap m then None
      else case buckets m of
          Buckets bs \<Rightarrow> if cap m \<le> length bs then Some (concat (take (cap m) bs)) else None
        | _ \<Rightarrow> None)"

text \<open>\<^verbatim>\<open>calloc\<close> fails when the size in bytes does not fit a \<^verbatim>\<open>size_t\<close>.\<close>

definition hashmap_grow :: "bool \<Rightarrow> ('k, 'v) hashmap \<Rightarrow> (int \<times> ('k, 'v) hashmap) option" where
  "hashmap_grow alloc m =
     (let new_cap_bits = (if cap_bits m + 1 < 2 then 2 else cap_bits m + 1);
          new_cap = 2 ^ new_cap_bits in
      if \<not> alloc \<or> 2 ^ 64 \<le> new_cap * 8 then Some (- 12, m)
      else do {
        es \<leftarrow> all_entries m;
        new_buckets \<leftarrow> move_entries (hash_fn m) new_cap_bits es (replicate new_cap []);
        _ \<leftarrow> free_buckets (buckets m);
        Some (0, m\<lparr>cap := new_cap, cap_bits := new_cap_bits, buckets := Buckets new_buckets\<rparr>) })"

text \<open>The position of the first matching entry in a chain.\<close>

fun find_chain :: "('k \<Rightarrow> 'k \<Rightarrow> bool) \<Rightarrow> 'k \<Rightarrow> ('k \<times> 'v) list \<Rightarrow> nat option" where
  "find_chain equal key [] = None"
| "find_chain equal key (e # es) =
     (if equal (fst e) key then Some 0 else map_option Suc (find_chain equal key es))"

text \<open>\<^verbatim>\<open>hashmap_find_entry\<close>: the inner option is its result, with the position of the entry in the
  chain of its bucket.\<close>

definition hashmap_find_entry :: "('k, 'v) hashmap \<Rightarrow> 'k \<Rightarrow> u64 \<Rightarrow> nat option option" where
  "hashmap_find_entry m key hash =
     (case buckets m of
        NoBuckets \<Rightarrow> Some None
      | FreedBuckets \<Rightarrow> None
      | Buckets bs \<Rightarrow> do { c \<leftarrow> bucket_at bs hash; Some (find_chain (equal_fn m) key c) })"

definition chain_of :: "('k, 'v) hashmap \<Rightarrow> u64 \<Rightarrow> ('k \<times> 'v) list" where
  "chain_of m h = (case buckets m of Buckets bs \<Rightarrow> bs ! unat h | _ \<Rightarrow> [])"

definition set_chain :: "('k, 'v) hashmap \<Rightarrow> u64 \<Rightarrow> ('k \<times> 'v) list \<Rightarrow> ('k, 'v) hashmap" where
  "set_chain m h c =
     (case buckets m of Buckets bs \<Rightarrow> m\<lparr>buckets := Buckets (bs[unat h := c])\<rparr> | _ \<Rightarrow> m)"

datatype hashmap_insert_strategy = HASHMAP_ADD | HASHMAP_SET | HASHMAP_UPDATE | HASHMAP_APPEND

text \<open>The last part of \<^verbatim>\<open>hashmap__insert\<close>: grow, allocate the entry, link it. The flags say whether
  \<^verbatim>\<open>calloc\<close> and \<^verbatim>\<open>malloc\<close> succeed.\<close>

definition insert_new ::
  "bool \<Rightarrow> bool \<Rightarrow> ('k, 'v) hashmap \<Rightarrow> 'k \<Rightarrow> 'v \<Rightarrow> (int \<times> ('k, 'v) hashmap) option" where
  "insert_new calloc_ok malloc_ok m key value = do {
     (err, m) \<leftarrow> (if hashmap_needs_to_grow m then hashmap_grow calloc_ok m else Some (0, m));
     if err \<noteq> 0 then Some (err, m)
     else if \<not> malloc_ok then Some (- 12, m)
     else let h = hash_bits (hash_fn m key) (cap_bits m) in
       (case buckets m of
          Buckets bs \<Rightarrow> do {
            bs' \<leftarrow> hashmap_add_entry bs h (key, value);
            Some (0, m\<lparr>buckets := Buckets bs', sz := sz m + 1\<rparr>) }
        | _ \<Rightarrow> None) }"

text \<open>\<^verbatim>\<open>hashmap__insert\<close> with the result, what is stored through \<^verbatim>\<open>old_key\<close> and
  \<^verbatim>\<open>old_value\<close>, and the map.\<close>

definition hashmap__insert ::
  "bool \<Rightarrow> bool \<Rightarrow> ('k, 'v) hashmap \<Rightarrow> 'k \<Rightarrow> 'v \<Rightarrow> hashmap_insert_strategy \<Rightarrow>
   (int \<times> ('k \<times> 'v) option \<times> ('k, 'v) hashmap) option" where
  "hashmap__insert calloc_ok malloc_ok m key value strategy =
     (let h = hash_bits (hash_fn m key) (cap_bits m) in do {
        found \<leftarrow> (if strategy \<noteq> HASHMAP_APPEND then hashmap_find_entry m key h else Some None);
        (case found of
           Some i \<Rightarrow>
             let old = chain_of m h ! i in
             if strategy = HASHMAP_ADD then Some (- 17, Some old, m)
             else Some (0, Some old, set_chain m h ((chain_of m h)[i := (key, value)]))
         | None \<Rightarrow>
             if strategy = HASHMAP_UPDATE then Some (- 2, None, m)
             else do {
               (ret, m') \<leftarrow> insert_new calloc_ok malloc_ok m key value;
               Some (ret, None, m') }) })"

definition hashmap__add ::
  "bool \<Rightarrow> bool \<Rightarrow> ('k, 'v) hashmap \<Rightarrow> 'k \<Rightarrow> 'v \<Rightarrow> (int \<times> ('k, 'v) hashmap) option" where
  "hashmap__add calloc_ok malloc_ok m key value = do {
     (ret, _, m) \<leftarrow> hashmap__insert calloc_ok malloc_ok m key value HASHMAP_ADD;
     Some (ret, m) }"

definition hashmap__set ::
  "bool \<Rightarrow> bool \<Rightarrow> ('k, 'v) hashmap \<Rightarrow> 'k \<Rightarrow> 'v \<Rightarrow> (int \<times> ('k \<times> 'v) option \<times> ('k, 'v) hashmap) option" where
  "hashmap__set calloc_ok malloc_ok m key value =
     hashmap__insert calloc_ok malloc_ok m key value HASHMAP_SET"

definition hashmap__update ::
  "bool \<Rightarrow> bool \<Rightarrow> ('k, 'v) hashmap \<Rightarrow> 'k \<Rightarrow> 'v \<Rightarrow> (int \<times> ('k \<times> 'v) option \<times> ('k, 'v) hashmap) option" where
  "hashmap__update calloc_ok malloc_ok m key value =
     hashmap__insert calloc_ok malloc_ok m key value HASHMAP_UPDATE"

definition hashmap__append ::
  "bool \<Rightarrow> bool \<Rightarrow> ('k, 'v) hashmap \<Rightarrow> 'k \<Rightarrow> 'v \<Rightarrow> (int \<times> ('k, 'v) hashmap) option" where
  "hashmap__append calloc_ok malloc_ok m key value = do {
     (ret, _, m) \<leftarrow> hashmap__insert calloc_ok malloc_ok m key value HASHMAP_APPEND;
     Some (ret, m) }"

definition hashmap__find :: "('k, 'v) hashmap \<Rightarrow> 'k \<Rightarrow> 'v option option" where
  "hashmap__find m key =
     (let h = hash_bits (hash_fn m key) (cap_bits m) in do {
        found \<leftarrow> hashmap_find_entry m key h;
        Some (map_option (\<lambda>i. snd (chain_of m h ! i)) found) })"

definition hashmap__delete ::
  "('k, 'v) hashmap \<Rightarrow> 'k \<Rightarrow> (('k \<times> 'v) option \<times> ('k, 'v) hashmap) option" where
  "hashmap__delete m key =
     (let h = hash_bits (hash_fn m key) (cap_bits m) in do {
        found \<leftarrow> hashmap_find_entry m key h;
        (case found of
           None \<Rightarrow> Some (None, m)
         | Some i \<Rightarrow>
             Some (Some (chain_of m h ! i),
               (set_chain m h (hashmap_del_entry (chain_of m h) i))\<lparr>sz := sz m - 1\<rparr>)) })"

subsection \<open>Keys of the clients\<close>

text \<open>\<^verbatim>\<open>btf_dump.c\<close> uses strings: a C string is the list of its characters before the final NUL.
  \<^verbatim>\<open>char\<close> is signed.\<close>

definition str_hash_fn :: "u8 list \<Rightarrow> u64" where
  "str_hash_fn s = foldl (\<lambda>h c. h * 31 + scast c) 0 s"

definition str_equal_fn :: "u8 list \<Rightarrow> u8 list \<Rightarrow> bool" where
  "str_equal_fn a b \<longleftrightarrow> a = b"

text \<open>\<^verbatim>\<open>btf.c\<close> uses numbers.\<close>

definition btf_dedup_identity_hash_fn :: "u64 \<Rightarrow> u64" where
  "btf_dedup_identity_hash_fn k = k"

definition btf_dedup_collision_hash_fn :: "u64 \<Rightarrow> u64" where
  "btf_dedup_collision_hash_fn k = 0"

definition btf_dedup_equal_fn :: "u64 \<Rightarrow> u64 \<Rightarrow> bool" where
  "btf_dedup_equal_fn k1 k2 \<longleftrightarrow> k1 = k2"

definition btf_dedup_table_add ::
  "bool \<Rightarrow> bool \<Rightarrow> (u64, u32) hashmap \<Rightarrow> u64 \<Rightarrow> u32 \<Rightarrow> (int \<times> (u64, u32) hashmap) option" where
  "btf_dedup_table_add calloc_ok malloc_ok dedup_table hash type_id =
     hashmap__append calloc_ok malloc_ok dedup_table hash type_id"

text \<open>\<^verbatim>\<open>btf_dump_name_dups\<close>: the number of times a name was seen, kept in a map.\<close>

definition btf_dump_name_dups ::
  "bool \<Rightarrow> bool \<Rightarrow> (u8 list, u64) hashmap \<Rightarrow> u8 list \<Rightarrow> (u64 \<times> (u8 list, u64) hashmap) option" where
  "btf_dump_name_dups calloc_ok malloc_ok name_map orig_name = do {
     r \<leftarrow> hashmap__find name_map orig_name;
     let dup_cnt = (case r of None \<Rightarrow> 0 | Some n \<Rightarrow> n) + 1;
     (_, _, m) \<leftarrow> hashmap__set calloc_ok malloc_ok name_map orig_name dup_cnt;
     Some (dup_cnt, m) }"

section \<open>The invariant\<close>

text \<open>The bucket of a key.\<close>

definition bucket_of :: "('k, 'v) hashmap \<Rightarrow> 'k \<Rightarrow> nat" where
  "bucket_of m key = unat (hash_bits (hash_fn m key) (cap_bits m))"

text \<open>A map is empty and has no buckets, or has a power of two of them, with every entry in the bucket
  of its key, and as many entries as its size says.\<close>

definition hashmap_ok :: "('k, 'v) hashmap \<Rightarrow> bool" where
  "hashmap_ok m \<longleftrightarrow>
     (case buckets m of
        NoBuckets \<Rightarrow> cap m = 0 \<and> cap_bits m = 0 \<and> sz m = 0
      | FreedBuckets \<Rightarrow> False
      | Buckets bs \<Rightarrow>
          0 < cap_bits m \<and> cap_bits m \<le> 31 \<and> cap m = 2 ^ cap_bits m \<and> length bs = cap m \<and>
          sz m = length (concat bs) \<and>
          (\<forall>i < cap m. \<forall>e \<in> set (bs ! i). bucket_of m (fst e) = i))"

lemma hash_bits_less:
  assumes "0 < b" "b \<le> 60"
  shows "unat (hash_bits h b) < 2 ^ b"
proof -
  have "unat (drop_bit (64 - b) w) < 2 ^ b" for w :: u64
  proof -
    have w: "unat w < 2 ^ 64" by (rule less_le_trans [OF unsigned_less]) simp
    also have "(2 :: nat) ^ 64 = 2 ^ b * 2 ^ (64 - b)"
      using assms(2) by (simp flip: power_add)
    finally have "unat w div 2 ^ (64 - b) < 2 ^ b" by (simp add: less_mult_imp_div_less)
    then show ?thesis by (subst unsigned_drop_bit_eq) (use w in \<open>simp add: drop_bit_eq_div take_bit_nat_eq_self\<close>)
  qed
  then show ?thesis using assms by (simp add: hash_bits_def)
qed

lemma hashmap_init_ok [simp]: "hashmap_ok (hashmap__init hash equal)"
  by (simp add: hashmap_ok_def hashmap__init_def)

lemma hashmap_ok_cases:
  assumes "hashmap_ok m"
  obtains "buckets m = NoBuckets" "cap m = 0" "cap_bits m = 0" "sz m = 0"
  | bs where "buckets m = Buckets bs" "0 < cap_bits m" "cap_bits m \<le> 31" "cap m = 2 ^ cap_bits m"
      "length bs = cap m" "sz m = length (concat bs)"
      "\<And>i e. i < cap m \<Longrightarrow> e \<in> set (bs ! i) \<Longrightarrow> bucket_of m (fst e) = i"
      "\<And>key. bucket_of m key < length bs"
  using assms unfolding hashmap_ok_def bucket_of_def
  by (cases "buckets m") (auto simp: hash_bits_less)

text \<open>The entries that match a key, from the head of the chain.\<close>

definition matching :: "('k, 'v) hashmap \<Rightarrow> 'k \<Rightarrow> ('k \<times> 'v) list" where
  "matching m key =
     (case buckets m of
        Buckets bs \<Rightarrow> filter (\<lambda>e. equal_fn m (fst e) key) (bs ! bucket_of m key)
      | _ \<Rightarrow> [])"

lemma find_chain_eq:
  "find_chain equal key c = (if filter (\<lambda>e. equal (fst e) key) c = [] then None
     else Some (length (takeWhile (\<lambda>e. \<not> equal (fst e) key) c)))"
  by (induction c) auto

lemma find_chain_Some:
  "find_chain equal key c = Some i \<Longrightarrow>
   i < length c \<and> c ! i = hd (filter (\<lambda>e. equal (fst e) key) c) \<and> equal (fst (c ! i)) key \<and>
   (\<forall>j < i. \<not> equal (fst (c ! j)) key)"
  by (induction c arbitrary: i) (auto simp: nth_Cons split: if_splits nat.splits)

lemma find_entry_eq:
  assumes "hashmap_ok m"
  shows "hashmap_find_entry m key (hash_bits (hash_fn m key) (cap_bits m)) =
    Some (find_chain (equal_fn m) key (chain_of m (hash_bits (hash_fn m key) (cap_bits m))))"
  using assms
proof (cases rule: hashmap_ok_cases)
  case (2 bs)
  then show ?thesis
    using 2(8) [of key] by (simp add: hashmap_find_entry_def bucket_at_def chain_of_def bucket_of_def)
qed (simp add: hashmap_find_entry_def chain_of_def)

lemma matching_chain:
  assumes "hashmap_ok m"
  shows "matching m key =
    filter (\<lambda>e. equal_fn m (fst e) key) (chain_of m (hash_bits (hash_fn m key) (cap_bits m)))"
  using assms by (cases rule: hashmap_ok_cases) (simp_all add: matching_def chain_of_def bucket_of_def)

text \<open>A lookup never faults and gives the first entry that matches.\<close>

lemma hashmap_find_eq:
  assumes "hashmap_ok m"
  shows "hashmap__find m key = Some (case matching m key of [] \<Rightarrow> None | e # _ \<Rightarrow> Some (snd e))"
proof (cases "find_chain (equal_fn m) key (chain_of m (hash_bits (hash_fn m key) (cap_bits m)))")
  case None
  then show ?thesis
    using find_entry_eq [OF assms, of key] matching_chain [OF assms, of key]
    by (simp add: hashmap__find_def find_chain_eq split: if_splits)
next
  case (Some i)
  then show ?thesis
    using find_entry_eq [OF assms, of key] matching_chain [OF assms, of key] find_chain_Some [OF Some]
    by (auto simp: hashmap__find_def neq_Nil_conv find_chain_eq filter_empty_conv split: if_splits list.split)
qed

section \<open>Growing\<close>

definition entries :: "('k, 'v) hashmap \<Rightarrow> ('k \<times> 'v) list" where
  "entries m = (case buckets m of Buckets bs \<Rightarrow> concat bs | _ \<Rightarrow> [])"

lemma mset_concat_update:
  assumes "i < length bs"
  shows "mset (concat (bs[i := c])) + mset (bs ! i) = mset (concat bs) + mset c"
proof -
  have "bs = take i bs @ bs ! i # drop (Suc i) bs" using assms by (rule id_take_nth_drop)
  then have "mset (concat bs) = mset (concat (take i bs)) + mset (bs ! i) + mset (concat (drop (Suc i) bs))"
    by (metis concat.simps(2) concat_append mset_append union_assoc)
  moreover have "mset (concat (bs[i := c])) =
      mset (concat (take i bs)) + mset c + mset (concat (drop (Suc i) bs))"
    using assms by (simp add: upd_conv_take_nth_drop)
  ultimately show ?thesis by simp
qed

lemma move_entries_eq:
  assumes "0 < bits" "bits \<le> 60" "length bs = 2 ^ bits"
  shows "\<exists>bs'. move_entries hash bits es bs = Some bs' \<and> length bs' = length bs \<and>
    mset (concat bs') = mset es + mset (concat bs) \<and>
    (\<forall>i < length bs. bs' ! i = rev (filter (\<lambda>e. unat (hash_bits (hash (fst e)) bits) = i) es) @ bs ! i)"
  using assms(3)
proof (induction es arbitrary: bs)
  case (Cons e es)
  define h where "h = unat (hash_bits (hash (fst e)) bits)"
  have h: "h < length bs" using hash_bits_less [OF assms(1,2)] Cons.prems by (simp add: h_def)
  let ?bs = "bs[h := e # bs ! h]"
  have add: "hashmap_add_entry bs (hash_bits (hash (fst e)) bits) e = Some ?bs"
    using h by (simp add: hashmap_add_entry_def bucket_at_def h_def)
  have "mset (concat ?bs) = add_mset e (mset (concat bs))"
    using mset_concat_update [OF h, of "e # bs ! h"] by simp
  moreover have "length ?bs = 2 ^ bits" using Cons.prems by simp
  ultimately show ?case
    using Cons.IH [of ?bs] add by (auto simp: nth_list_update h_def)
qed simp

lemma filter_concat_single:
  assumes "j < length bs" and "\<And>i. i < length bs \<Longrightarrow> i \<noteq> j \<Longrightarrow> filter P (bs ! i) = []"
  shows "filter P (concat bs) = filter P (bs ! j)"
  using assms
proof (induction bs arbitrary: j)
  case (Cons b bs)
  show ?case
  proof (cases j)
    case 0
    have "filter P (concat bs) = []"
      using Cons.prems(2) [of "Suc i" for i] 0
      by (force simp: filter_empty_conv in_set_conv_nth set_concat)
    with 0 show ?thesis by simp
  next
    case (Suc k)
    have "filter P b = []" using Cons.prems(2) [of 0] Suc by simp
    moreover have "filter P (concat bs) = filter P (bs ! k)"
      using Cons.prems(1) Cons.prems(2) [of "Suc i" for i] Suc by (intro Cons.IH) simp_all
    ultimately show ?thesis using Suc by simp
  qed
qed simp

text \<open>The maps of a key type.\<close>

definition keyed :: "('k \<Rightarrow> u64) \<Rightarrow> ('k \<Rightarrow> 'k \<Rightarrow> bool) \<Rightarrow> ('k, 'v) hashmap \<Rightarrow> bool" where
  "keyed hash equal m \<longleftrightarrow> hashmap_ok m \<and> hash_fn m = hash \<and> equal_fn m = equal"

text \<open>The map as a function, and maps in which no two entries have equal keys.\<close>

definition lookup :: "('k, 'v) hashmap \<Rightarrow> 'k \<Rightarrow> 'v option" where
  "lookup m key = (case matching m key of [] \<Rightarrow> None | e # _ \<Rightarrow> Some (snd e))"

definition unique_keys :: "('k, 'v) hashmap \<Rightarrow> bool" where
  "unique_keys m \<longleftrightarrow> (\<forall>key. length (matching m key) \<le> 1)"

text \<open>What the clients promise of their keys: the comparison is an equivalence, and equal keys have the
  same hash.\<close>

locale hash_keys =
  fixes hash :: "'k \<Rightarrow> u64"
    and equal :: "'k \<Rightarrow> 'k \<Rightarrow> bool"
  assumes equal_refl: "equal k k"
    and equal_sym: "equal a b \<Longrightarrow> equal b a"
    and equal_trans: "equal a b \<Longrightarrow> equal b c \<Longrightarrow> equal a c"
    and equal_hash: "equal a b \<Longrightarrow> hash a = hash b"
begin

lemma matching_entries:
  assumes "keyed hash equal m"
  shows "matching m key = filter (\<lambda>e. equal (fst e) key) (entries m)"
proof -
  from assms have "hashmap_ok m" and fns: "hash_fn m = hash" "equal_fn m = equal"
    by (auto simp: keyed_def)
  from this(1) show ?thesis
  proof (cases rule: hashmap_ok_cases)
    case (2 bs)
    have "filter (\<lambda>e. equal (fst e) key) (bs ! i) = []" if "i < length bs" "i \<noteq> bucket_of m key" for i
      using that 2(5,7) by (fastforce simp: filter_empty_conv bucket_of_def fns dest: equal_hash)
    then have "filter (\<lambda>e. equal (fst e) key) (concat bs) =
        filter (\<lambda>e. equal (fst e) key) (bs ! bucket_of m key)"
      using 2(8) by (intro filter_concat_single) auto
    then show ?thesis by (simp add: matching_def entries_def 2(1) fns)
  qed (simp_all add: matching_def entries_def)
qed

text \<open>Growing keeps the entries and reverses the order of those that match a key.\<close>

lemma grow_ok:
  assumes "keyed hash equal m" and "cap_bits m < 31"
  shows "\<exists>m'. hashmap_grow True m = Some (0, m') \<and> keyed hash equal m' \<and> sz m' = sz m \<and>
    buckets m' \<noteq> NoBuckets \<and> mset (entries m') = mset (entries m) \<and>
    (\<forall>key. matching m' key = rev (matching m key))"
proof -
  define nb where "nb = (if cap_bits m + 1 < 2 then 2 else cap_bits m + 1)"
  have nb: "0 < nb" "nb \<le> 60" "nb \<le> 31" using assms(2) by (auto simp: nb_def)
  have "(2 :: nat) ^ cap_bits m < 2 ^ 31" using assms(2) by (rule power_strict_increasing) simp
  then have small: "\<not> 2147483648 \<le> (2 :: nat) ^ cap_bits m" by simp
  have ok: "hashmap_ok m" and fns: "hash_fn m = hash" "equal_fn m = equal"
    using assms(1) by (auto simp: keyed_def)
  have all: "all_entries m = Some (entries m)" "\<exists>b. free_buckets (buckets m) = Some b" "sz m = length (entries m)"
    using ok small by (cases rule: hashmap_ok_cases; simp add: all_entries_def entries_def free_buckets_def)+
  obtain bs where bs: "move_entries hash nb (entries m) (replicate (2 ^ nb) []) = Some bs"
      "length bs = 2 ^ nb" "mset (concat bs) = mset (entries m)"
      "\<And>i. i < 2 ^ nb \<Longrightarrow>
        bs ! i = rev (filter (\<lambda>e. unat (hash_bits (hash (fst e)) nb) = i) (entries m))"
    using move_entries_eq [OF nb(1,2), of "replicate (2 ^ nb) []" hash "entries m"] by auto
  define m' where "m' = m\<lparr>cap := 2 ^ nb, cap_bits := nb, buckets := Buckets bs\<rparr>"
  have "(2 :: nat) ^ nb \<le> 2 ^ 60" using nb(2) by (rule power_increasing) simp
  then have "\<not> 2 ^ 64 \<le> (2 :: nat) ^ nb * 8" by simp
  then have grow: "hashmap_grow True m = Some (0, m')"
    unfolding hashmap_grow_def Let_def nb_def [symmetric] using all(1,2) bs(1) by (auto simp: fns m'_def)
  have sizes: "sz m = length (concat bs)" using all(3) mset_eq_length [OF bs(3)] by simp
  have keyed': "keyed hash equal m'"
    unfolding keyed_def hashmap_ok_def m'_def using nb bs(2,4) sizes fns by (auto simp: bucket_of_def)
  have "matching m' key = rev (matching m key)" for key
  proof -
    have "hash_bits (hash key) nb = hash_bits (hash (fst e)) nb" if "equal (fst e) key" for e :: "'k \<times> 'v"
      using equal_hash [OF that] by simp
    then have "filter (\<lambda>e. equal (fst e) key) (bs ! bucket_of m' key) =
        rev (filter (\<lambda>e. equal (fst e) key) (entries m))"
      using bs(4) [of "bucket_of m' key"] hash_bits_less [OF nb(1,2), of "hash key"]
      by (auto simp: m'_def bucket_of_def fns rev_filter [symmetric] intro!: filter_cong)
    then show ?thesis
      by (simp add: matching_entries [OF assms(1)]) (simp add: matching_def m'_def fns)
  qed
  with grow keyed' bs(3) show ?thesis
    by (intro exI [of _ m']) (simp add: entries_def m'_def)
qed

text \<open>Replacing the chain of one bucket.\<close>

lemma set_bucket:
  assumes "keyed hash equal m" and "buckets m = Buckets bs" and "h = bucket_of m key"
    and "\<forall>e \<in> set c. bucket_of m (fst e) = h" and "n + length (bs ! h) = sz m + length c"
  defines "m' \<equiv> m\<lparr>buckets := Buckets (bs[h := c]), sz := n\<rparr>"
  shows "keyed hash equal m'"
    and "matching m' k = (if bucket_of m k = h then filter (\<lambda>e. equal (fst e) k) c else matching m k)"
proof -
  have ok: "hashmap_ok m" and fns: "hash_fn m = hash" "equal_fn m = equal"
    using assms(1) by (auto simp: keyed_def)
  from ok have facts: "0 < cap_bits m" "cap_bits m \<le> 31" "cap m = 2 ^ cap_bits m" "length bs = cap m"
      "sz m = length (concat bs)" "\<And>i e. i < cap m \<Longrightarrow> e \<in> set (bs ! i) \<Longrightarrow> bucket_of m (fst e) = i"
      "\<And>key. bucket_of m key < length bs"
    by (cases rule: hashmap_ok_cases; simp add: assms(2))+
  have bkt: "bucket_of m' k = bucket_of m k" for k by (simp add: bucket_of_def m'_def)
  have "length (concat (bs[h := c])) + length (bs ! h) = length (concat bs) + length c"
    using mset_concat_update [of h bs c] facts(7) assms(3) by (metis size_mset size_union)
  then have "n = length (concat (bs[h := c]))" using assms(5) facts(5) by simp
  moreover have "bucket_of m (fst e) = i" if "i < cap m" "e \<in> set (bs[h := c] ! i)" for i e
    using that facts(4,6) assms(4) by (cases "i = h") auto
  ultimately have "hashmap_ok m'"
    using facts bkt unfolding hashmap_ok_def by (simp add: m'_def)
  then show "keyed hash equal m'" using fns by (simp add: keyed_def m'_def)
  show "matching m' k = (if bucket_of m k = h then filter (\<lambda>e. equal (fst e) k) c else matching m k)"
    unfolding matching_def using bkt facts(7) [of k] assms(2) fns by (auto simp: m'_def nth_list_update)
qed

lemma same_bucket: "keyed hash equal m \<Longrightarrow> equal a b \<Longrightarrow> bucket_of m a = bucket_of m b"
  using equal_hash [of a b] by (simp add: keyed_def bucket_of_def)

lemma keyed_bucket:
  assumes "keyed hash equal m" "buckets m = Buckets bs" "e \<in> set (bs ! bucket_of m key)"
  shows "bucket_of m (fst e) = bucket_of m key"
  using assms(1) [unfolded keyed_def, THEN conjunct1] assms(2,3)
  by (cases rule: hashmap_ok_cases) auto

text \<open>Linking a new entry at the head of its chain.\<close>

lemma link_entry:
  assumes "keyed hash equal m" and "buckets m = Buckets bs" and h_def: "h = bucket_of m key"
    and m'_def: "m' = m\<lparr>buckets := Buckets (bs[h := (key, v) # bs ! h]), sz := sz m + 1\<rparr>"
  shows "hashmap_add_entry bs (hash_bits (hash_fn m key) (cap_bits m)) (key, v) =
      Some (bs[h := (key, v) # bs ! h])"
    and "keyed hash equal m'"
    and "matching m' k = (if equal key k then [(key, v)] else []) @ matching m k"
proof -
  have len: "h < length bs"
    using assms(1) [unfolded keyed_def, THEN conjunct1] assms(2) by (cases rule: hashmap_ok_cases) (auto simp: h_def)
  then show "hashmap_add_entry bs (hash_bits (hash_fn m key) (cap_bits m)) (key, v) =
      Some (bs[h := (key, v) # bs ! h])"
    by (simp add: hashmap_add_entry_def bucket_at_def h_def bucket_of_def)
  have c: "\<forall>e \<in> set ((key, v) # bs ! h). bucket_of m (fst e) = h"
    using keyed_bucket [OF assms(1,2)] by (auto simp: h_def)
  note upd = set_bucket [OF assms(1,2), of h key "(key, v) # bs ! h" "sz m + 1", OF h_def c, folded m'_def]
  show "keyed hash equal m'" by (rule upd(1)) simp
  have "equal_fn m = equal" using assms(1) by (simp add: keyed_def)
  then show "matching m' k = (if equal key k then [(key, v)] else []) @ matching m k"
    using upd(2) [of k] same_bucket [OF assms(1), of key k]
    by (auto simp: h_def matching_def [of m] assms(2))
qed

lemma grow_phase:
  assumes "keyed hash equal m" and "cap_bits m < 31"
  shows "\<exists>err m1. (if hashmap_needs_to_grow m then hashmap_grow calloc_ok m else Some (0, m)) = Some (err, m1) \<and>
    keyed hash equal m1 \<and> sz m1 = sz m \<and>
    (err = 0 \<and> buckets m1 \<noteq> NoBuckets \<and>
       (\<forall>k. matching m1 k = (if hashmap_needs_to_grow m then rev (matching m k) else matching m k)) \<or>
     err = - 12 \<and> m1 = m \<and> \<not> calloc_ok)"
proof (cases "hashmap_needs_to_grow m")
  case False
  have "hashmap_ok m" using assms(1) by (simp add: keyed_def)
  then have "buckets m \<noteq> NoBuckets"
    using False by (cases rule: hashmap_ok_cases) (auto simp: hashmap_needs_to_grow_def)
  with False assms show ?thesis by simp
next
  case True
  show ?thesis
  proof (cases calloc_ok)
    case alloc: True
    with grow_ok [OF assms] True show ?thesis by auto
  next
    case False
    then have "hashmap_grow calloc_ok m = Some (- 12, m)" by (simp add: hashmap_grow_def Let_def)
    with True False assms show ?thesis by auto
  qed
qed

lemma insert_new_ok:
  assumes "keyed hash equal m" and "cap_bits m < 31"
  shows "\<exists>ret m'. insert_new calloc_ok malloc_ok m key v = Some (ret, m') \<and> keyed hash equal m' \<and>
    (ret = 0 \<and> sz m' = sz m + 1 \<and>
       (\<forall>k. matching m' k = (if equal key k then [(key, v)] else []) @
          (if hashmap_needs_to_grow m then rev (matching m k) else matching m k)) \<or>
     ret = - 12 \<and> sz m' = sz m \<and> \<not> (calloc_ok \<and> malloc_ok) \<and>
       (\<forall>k. matching m' k = matching m k \<or> matching m' k = rev (matching m k)))"
proof -
  obtain err m1 where m1: "(if hashmap_needs_to_grow m then hashmap_grow calloc_ok m else Some (0, m)) = Some (err, m1)"
      "keyed hash equal m1" "sz m1 = sz m"
      "err = 0 \<and> buckets m1 \<noteq> NoBuckets \<and>
         (\<forall>k. matching m1 k = (if hashmap_needs_to_grow m then rev (matching m k) else matching m k)) \<or>
       err = - 12 \<and> m1 = m \<and> \<not> calloc_ok"
    using grow_phase [OF assms, of calloc_ok] by blast
  show ?thesis
  proof (cases "err = 0 \<and> malloc_ok")
    case True
    have "hashmap_ok m1" using m1(2) by (simp add: keyed_def)
    then obtain bs where bs: "buckets m1 = Buckets bs"
      using m1(4) True by (cases rule: hashmap_ok_cases) auto
    note link = link_entry [OF m1(2) bs refl refl, of key v]
    show ?thesis
      using True m1(1,3,4) bs link unfolding insert_new_def by (simp add: Let_def)
  next
    case False
    then have "insert_new calloc_ok malloc_ok m key v = Some (- 12, m1)"
      using m1(1,4) unfolding insert_new_def by auto
    with False m1(2-4) show ?thesis by auto
  qed
qed

text \<open>A chain around the first entry that matches a key, as any other key sees it.\<close>

lemma split_first:
  assumes "find_chain equal key c = Some i"
  shows "filter (\<lambda>e. equal (fst e) k) c = filter (\<lambda>e. equal (fst e) k) (take i c) @
      (if equal key k then [c ! i] else []) @ filter (\<lambda>e. equal (fst e) k) (drop (Suc i) c)"
    and "equal key k \<Longrightarrow> filter (\<lambda>e. equal (fst e) k) (take i c) = []"
proof -
  note i = find_chain_Some [OF assms]
  have hit: "equal (fst (c ! i)) k \<longleftrightarrow> equal key k"
    using i equal_trans equal_sym by blast
  have "filter (\<lambda>e. equal (fst e) k) c = filter (\<lambda>e. equal (fst e) k) (take i c @ c ! i # drop (Suc i) c)"
    using i by (subst id_take_nth_drop [of i c]) simp_all
  also have "\<dots> = filter (\<lambda>e. equal (fst e) k) (take i c) @
      (if equal key k then [c ! i] else []) @ filter (\<lambda>e. equal (fst e) k) (drop (Suc i) c)"
    by (simp only: filter_append filter.simps hit append_Cons append_Nil split: if_split) simp
  finally show "filter (\<lambda>e. equal (fst e) k) c = filter (\<lambda>e. equal (fst e) k) (take i c) @
      (if equal key k then [c ! i] else []) @ filter (\<lambda>e. equal (fst e) k) (drop (Suc i) c)" .
  have "\<not> equal (fst e) k" if k: "equal key k" and e: "e \<in> set (take i c)" for e
  proof -
    obtain j where "j < i" "e = c ! j" using e by (auto simp: in_set_conv_nth)
    then have "\<not> equal (fst e) key" using i by blast
    with k show ?thesis using equal_sym equal_trans by blast
  qed
  then show "filter (\<lambda>e. equal (fst e) k) (take i c) = []" if "equal key k"
    using that by (simp add: filter_empty_conv)
qed

lemma filter_update_first:
  assumes "find_chain equal key c = Some i"
  shows "filter (\<lambda>e. equal (fst e) k) (c[i := (key, v)]) =
    (if equal key k then (key, v) # tl (filter (\<lambda>e. equal (fst e) k) c) else filter (\<lambda>e. equal (fst e) k) c)"
  unfolding split_first(1) [OF assms, of k]
  using find_chain_Some [OF assms] split_first(2) [OF assms, of k]
  by (simp add: upd_conv_take_nth_drop)

lemma filter_delete_first:
  assumes "find_chain equal key c = Some i"
  shows "filter (\<lambda>e. equal (fst e) k) (hashmap_del_entry c i) =
    (if equal key k then tl (filter (\<lambda>e. equal (fst e) k) c) else filter (\<lambda>e. equal (fst e) k) c)"
  unfolding split_first(1) [OF assms, of k] hashmap_del_entry_def
  using split_first(2) [OF assms, of k] by simp

lemma found_entry:
  assumes "keyed hash equal m" and "matching m key \<noteq> []"
  obtains bs i where "buckets m = Buckets bs"
    and "hashmap_find_entry m key (hash_bits (hash_fn m key) (cap_bits m)) = Some (Some i)"
    and "chain_of m (hash_bits (hash_fn m key) (cap_bits m)) = bs ! bucket_of m key"
    and "find_chain equal key (bs ! bucket_of m key) = Some i"
    and "(bs ! bucket_of m key) ! i = hd (matching m key)"
proof -
  have ok: "hashmap_ok m" and fns: "equal_fn m = equal" using assms(1) by (auto simp: keyed_def)
  obtain bs where bs: "buckets m = Buckets bs"
    using assms(2) by (auto simp: matching_def split: buckets.splits)
  have chain: "chain_of m (hash_bits (hash_fn m key) (cap_bits m)) = bs ! bucket_of m key"
    by (simp add: chain_of_def bs bucket_of_def)
  have match: "matching m key = filter (\<lambda>e. equal (fst e) key) (bs ! bucket_of m key)"
    by (simp add: matching_def bs fns)
  then obtain i where i: "find_chain equal key (bs ! bucket_of m key) = Some i"
    using assms(2) find_chain_eq [of equal key "bs ! bucket_of m key"] by simp
  show ?thesis
    by (rule that [OF bs _ chain i]) (use find_entry_eq [OF ok, of key] find_chain_Some [OF i] i chain fns match in simp_all)
qed

lemma missing_entry:
  assumes "keyed hash equal m" and "matching m key = []"
  shows "hashmap_find_entry m key (hash_bits (hash_fn m key) (cap_bits m)) = Some None"
  using assms find_entry_eq [of m key] matching_chain [of m key]
  by (simp add: keyed_def find_chain_eq)

text \<open>The chain of a found entry can be replaced by one that other keys see unchanged.\<close>

lemma replace_chain:
  assumes "keyed hash equal m" and "buckets m = Buckets bs"
    and "\<forall>e \<in> set c. bucket_of m (fst e) = bucket_of m key"
    and "n + length (bs ! bucket_of m key) = sz m + length c"
    and "\<And>k. filter (\<lambda>e. equal (fst e) k) c = F k (filter (\<lambda>e. equal (fst e) k) (bs ! bucket_of m key))"
    and "\<And>k es. \<not> equal key k \<Longrightarrow> F k es = es"
  shows "keyed hash equal ((set_chain m (hash_bits (hash_fn m key) (cap_bits m)) c)\<lparr>sz := n\<rparr>)"
    and "matching ((set_chain m (hash_bits (hash_fn m key) (cap_bits m)) c)\<lparr>sz := n\<rparr>) k = F k (matching m k)"
proof -
  have m': "(set_chain m (hash_bits (hash_fn m key) (cap_bits m)) c)\<lparr>sz := n\<rparr> =
      m\<lparr>buckets := Buckets (bs[bucket_of m key := c]), sz := n\<rparr>"
    by (simp add: set_chain_def assms(2) bucket_of_def)
  note upd = set_bucket [OF assms(1,2) refl assms(3,4)]
  show "keyed hash equal ((set_chain m (hash_bits (hash_fn m key) (cap_bits m)) c)\<lparr>sz := n\<rparr>)"
    unfolding m' by (rule upd(1))
  have "matching m k = filter (\<lambda>e. equal (fst e) k) (bs ! bucket_of m k)"
    using assms(1) by (simp add: matching_def assms(2) keyed_def)
  then show "matching ((set_chain m (hash_bits (hash_fn m key) (cap_bits m)) c)\<lparr>sz := n\<rparr>) k = F k (matching m k)"
    unfolding m' upd(2) using assms(5,6) same_bucket [OF assms(1), of key k]
    by (cases "equal key k") auto
qed

lemma insert_found:
  assumes "keyed hash equal m" and "matching m key \<noteq> []" and "strategy = HASHMAP_SET \<or> strategy = HASHMAP_UPDATE"
  shows "\<exists>m'. hashmap__insert calloc_ok malloc_ok m key v strategy = Some (0, Some (hd (matching m key)), m') \<and>
    keyed hash equal m' \<and> sz m' = sz m \<and>
    (\<forall>k. matching m' k = (if equal key k then (key, v) # tl (matching m k) else matching m k))"
proof -
  obtain bs i where e: "buckets m = Buckets bs"
      "hashmap_find_entry m key (hash_bits (hash_fn m key) (cap_bits m)) = Some (Some i)"
      "chain_of m (hash_bits (hash_fn m key) (cap_bits m)) = bs ! bucket_of m key"
      "find_chain equal key (bs ! bucket_of m key) = Some i"
      "(bs ! bucket_of m key) ! i = hd (matching m key)"
    using found_entry [OF assms(1,2)] by blast
  define c where "c = (bs ! bucket_of m key)[i := (key, v)]"
  define m' where "m' = (set_chain m (hash_bits (hash_fn m key) (cap_bits m)) c)\<lparr>sz := sz m\<rparr>"
  have c: "\<forall>e \<in> set c. bucket_of m (fst e) = bucket_of m key"
    using keyed_bucket [OF assms(1) e(1)] set_update_subset_insert [of "bs ! bucket_of m key" i "(key, v)"]
    by (auto simp: c_def)
  have m': "m' = set_chain m (hash_bits (hash_fn m key) (cap_bits m)) c"
    by (simp add: m'_def set_chain_def e(1))
  have "hashmap__insert calloc_ok malloc_ok m key v strategy = Some (0, Some (hd (matching m key)), m')"
    using assms(3) e unfolding m' by (auto simp: hashmap__insert_def Let_def c_def)
  moreover note replace_chain [OF assms(1) e(1) c, of "sz m"
      "\<lambda>k es. if equal key k then (key, v) # tl es else es", folded m'_def]
  ultimately show ?thesis
    using filter_update_first [OF e(4)] by (simp add: c_def m'_def)
qed

lemma insert_missing:
  assumes "keyed hash equal m" and "strategy = HASHMAP_APPEND \<or> matching m key = []"
  shows "hashmap__insert calloc_ok malloc_ok m key v strategy =
    (if strategy = HASHMAP_UPDATE then Some (- 2, None, m)
     else do { (ret, m') \<leftarrow> insert_new calloc_ok malloc_ok m key v; Some (ret, None, m') })"
  using assms missing_entry [OF assms(1), of key] by (auto simp: hashmap__insert_def Let_def)

lemma insert_exists:
  assumes "keyed hash equal m" and "matching m key \<noteq> []"
  shows "hashmap__insert calloc_ok malloc_ok m key v HASHMAP_ADD = Some (- 17, Some (hd (matching m key)), m)"
  by (rule found_entry [OF assms]) (simp add: hashmap__insert_def Let_def)

lemma delete_found:
  assumes "keyed hash equal m" and "matching m key \<noteq> []"
  shows "\<exists>m'. hashmap__delete m key = Some (Some (hd (matching m key)), m') \<and> keyed hash equal m' \<and>
    sz m' + 1 = sz m \<and> (\<forall>k. matching m' k = (if equal key k then tl (matching m k) else matching m k))"
proof -
  obtain bs i where e: "buckets m = Buckets bs"
      "hashmap_find_entry m key (hash_bits (hash_fn m key) (cap_bits m)) = Some (Some i)"
      "chain_of m (hash_bits (hash_fn m key) (cap_bits m)) = bs ! bucket_of m key"
      "find_chain equal key (bs ! bucket_of m key) = Some i"
      "(bs ! bucket_of m key) ! i = hd (matching m key)"
    using found_entry [OF assms] by blast
  let ?c = "bs ! bucket_of m key"
  define c where "c = hashmap_del_entry ?c i"
  define m' where "m' = (set_chain m (hash_bits (hash_fn m key) (cap_bits m)) c)\<lparr>sz := sz m - 1\<rparr>"
  have len: "length c + 1 = length ?c"
    using find_chain_Some [OF e(4)] by (auto simp: c_def hashmap_del_entry_def)
  have "bucket_of m key < length bs" "sz m = length (concat bs)"
    using assms(1) [unfolded keyed_def, THEN conjunct1] e(1) by (cases rule: hashmap_ok_cases; simp)+
  then have "length ?c \<le> sz m"
    using mset_concat_update [of "bucket_of m key" bs "[]"] by (metis le_add2 size_mset size_union add.right_neutral mset.simps(1))
  then have sz: "sz m - 1 + length ?c = sz m + length c" "0 < sz m" using len by auto
  have c: "\<forall>e \<in> set c. bucket_of m (fst e) = bucket_of m key"
    using keyed_bucket [OF assms(1) e(1)] set_take_subset [of i ?c] set_drop_subset [of "Suc i" ?c]
    by (auto simp: c_def hashmap_del_entry_def)
  have "hashmap__delete m key = Some (Some (hd (matching m key)), m')"
    using e by (simp add: hashmap__delete_def Let_def c_def m'_def)
  moreover note replace_chain [OF assms(1) e(1) c sz(1),
      of "\<lambda>k es. if equal key k then tl es else es", folded m'_def]
  ultimately show ?thesis
    using filter_delete_first [OF e(4)] sz(2) by (simp add: c_def m'_def)
qed

text \<open>Maps with unique keys refine functions: the abstract map changes at the keys equal to the one
  given, and nowhere else.\<close>

lemma unique_length: "unique_keys m \<Longrightarrow> matching m key = [] \<or> (\<exists>e. matching m key = [e])"
  unfolding unique_keys_def by (erule allE [of _ key]) (cases "matching m key"; auto)

lemma unique_rev: "unique_keys m \<Longrightarrow> rev (matching m key) = matching m key"
  using unique_length [of m key] by auto

lemma unique_tl: "unique_keys m \<Longrightarrow> tl (matching m key) = []"
  using unique_length [of m key] by auto

lemma matching_equal:
  assumes "keyed hash equal m" "equal key k"
  shows "matching m k = matching m key"
  unfolding matching_entries [OF assms(1)] using assms(2) equal_sym equal_trans
  by (intro filter_cong) blast+

lemma set_refines:
  assumes "keyed hash equal m" and "unique_keys m" and "calloc_ok \<and> malloc_ok \<and> cap_bits m < 31"
  shows "\<exists>old m'. hashmap__insert calloc_ok malloc_ok m key v HASHMAP_SET = Some (0, old, m') \<and>
    keyed hash equal m' \<and> unique_keys m' \<and> sz m' = sz m + (if lookup m key = None then 1 else 0) \<and>
    (\<forall>k. lookup m' k = (if equal key k then Some v else lookup m k))"
proof (cases "matching m key = []")
  case True
  obtain m' where m': "insert_new calloc_ok malloc_ok m key v = Some (0, m')" "keyed hash equal m'"
      "sz m' = sz m + 1" "\<And>k. matching m' k = (if equal key k then [(key, v)] else []) @ matching m k"
    using insert_new_ok [OF assms(1), of calloc_ok malloc_ok key v] assms(3)
    by (auto simp: unique_rev [OF assms(2)])
  have "matching m k = []" if "equal key k" for k
    using matching_equal [OF assms(1) that] True by simp
  then have "unique_keys m'" using assms(2) by (auto simp: unique_keys_def m'(4))
  with m' True show ?thesis
    using insert_missing [OF assms(1), of HASHMAP_SET key] by (simp add: lookup_def)
next
  case False
  then obtain m' where m': "hashmap__insert calloc_ok malloc_ok m key v HASHMAP_SET =
        Some (0, Some (hd (matching m key)), m')" "keyed hash equal m'" "sz m' = sz m"
      "\<And>k. matching m' k = (if equal key k then [(key, v)] else matching m k)"
    using insert_found [OF assms(1), of key HASHMAP_SET calloc_ok malloc_ok v] unique_tl [OF assms(2)] by auto
  then have "unique_keys m'" using assms(2) by (auto simp: unique_keys_def)
  with m' False show ?thesis by (auto simp: lookup_def split: list.split)
qed

lemma delete_refines:
  assumes "keyed hash equal m" and "unique_keys m"
  shows "\<exists>old m'. hashmap__delete m key = Some (old, m') \<and> keyed hash equal m' \<and> unique_keys m' \<and>
    map_option snd old = lookup m key \<and> sz m' + (if lookup m key = None then 0 else 1) = sz m \<and>
    (\<forall>k. lookup m' k = (if equal key k then None else lookup m k))"
proof (cases "matching m key = []")
  case True
  have "matching m k = []" if "equal key k" for k
    using matching_equal [OF assms(1) that] True by simp
  with True show ?thesis
    using missing_entry [OF assms(1) True] assms by (simp add: hashmap__delete_def Let_def lookup_def)
next
  case False
  obtain m' where m': "hashmap__delete m key = Some (Some (hd (matching m key)), m')" "keyed hash equal m'"
      "sz m' + 1 = sz m" "\<And>k. matching m' k = (if equal key k then [] else matching m k)"
    using delete_found [OF assms(1) False] unique_tl [OF assms(2)] by auto
  then have "unique_keys m'" using assms(2) by (auto simp: unique_keys_def)
  with m' False show ?thesis by (auto simp: lookup_def split: list.split)
qed

lemma append_order:
  assumes "keyed hash equal m" and "calloc_ok \<and> malloc_ok \<and> cap_bits m < 31"
  shows "\<exists>m'. hashmap__insert calloc_ok malloc_ok m key v HASHMAP_APPEND = Some (0, None, m') \<and>
    keyed hash equal m' \<and> sz m' = sz m + 1 \<and>
    (\<forall>k. matching m' k = (if equal key k then [(key, v)] else []) @
       (if hashmap_needs_to_grow m then rev (matching m k) else matching m k))"
  using insert_new_ok [OF assms(1), of calloc_ok malloc_ok key v] assms(2)
    insert_missing [OF assms(1), of HASHMAP_APPEND key] by auto

lemma find_lookup: "keyed hash equal m \<Longrightarrow> hashmap__find m key = Some (lookup m key)"
  using hashmap_find_eq [of m key] by (simp add: keyed_def lookup_def)

lemma init_keyed: "keyed hash equal (hashmap__init hash equal)"
  "unique_keys (hashmap__init hash equal)" "lookup (hashmap__init hash equal) key = None"
  by (simp_all add: keyed_def hashmap__init_def hashmap_ok_def unique_keys_def matching_def lookup_def)

end

interpretation str_keys: hash_keys str_hash_fn str_equal_fn
  by unfold_locales (auto simp: str_equal_fn_def)

interpretation dedup_keys: hash_keys btf_dedup_identity_hash_fn btf_dedup_equal_fn
  by unfold_locales (auto simp: btf_dedup_equal_fn_def)

interpretation collision_keys: hash_keys btf_dedup_collision_hash_fn btf_dedup_equal_fn
  by unfold_locales (auto simp: btf_dedup_equal_fn_def)

section \<open>Properties of the clients\<close>

text \<open>C26. Setting and deleting names in a map that satisfies the invariant, holds no name twice and has
  fewer than \<open>2 ^ 31\<close> buckets, when the allocations succeed: the map is a function from strings, changed at
  the given name only, its size is the number of names, and it again holds no name twice. With duplicates
  an insertion that grows the table changes other lookups too, see \<open>append_growth_reverses\<close>.\<close>

theorem str_map_refines:
  assumes "keyed str_hash_fn str_equal_fn m" and "unique_keys m" and "cap_bits m < 31"
  shows "(\<exists>old m'. hashmap__set True True m key v = Some (0, old, m') \<and>
      keyed str_hash_fn str_equal_fn m' \<and> unique_keys m' \<and>
      (\<forall>k. hashmap__find m' k = (if k = key then Some (Some v) else hashmap__find m k)) \<and>
      hashmap__size m' = hashmap__size m + (if hashmap__find m key = Some None then 1 else 0)) \<and>
    (\<exists>old m'. hashmap__delete m key = Some (old, m') \<and>
      keyed str_hash_fn str_equal_fn m' \<and> unique_keys m' \<and>
      (\<forall>k. hashmap__find m' k = (if k = key then Some None else hashmap__find m k)) \<and>
      hashmap__size m' + (if hashmap__find m key = Some None then 0 else 1) = hashmap__size m)"
proof
  note find = str_keys.find_lookup
  obtain old m' where "hashmap__set True True m key v = Some (0, old, m')"
      "keyed str_hash_fn str_equal_fn m'" "unique_keys m'"
      "sz m' = sz m + (if lookup m key = None then 1 else 0)"
      "\<forall>k. lookup m' k = (if str_equal_fn key k then Some v else lookup m k)"
    using str_keys.set_refines [OF assms(1,2), of True True key v] assms(3) unfolding hashmap__set_def by blast
  then show "\<exists>old m'. hashmap__set True True m key v = Some (0, old, m') \<and>
      keyed str_hash_fn str_equal_fn m' \<and> unique_keys m' \<and>
      (\<forall>k. hashmap__find m' k = (if k = key then Some (Some v) else hashmap__find m k)) \<and>
      hashmap__size m' = hashmap__size m + (if hashmap__find m key = Some None then 1 else 0)"
    using find [OF assms(1)] by (auto simp: find str_equal_fn_def hashmap__size_def)
  obtain old m' where "hashmap__delete m key = Some (old, m')"
      "keyed str_hash_fn str_equal_fn m'" "unique_keys m'"
      "sz m' + (if lookup m key = None then 0 else 1) = sz m"
      "\<forall>k. lookup m' k = (if str_equal_fn key k then None else lookup m k)"
    using str_keys.delete_refines [OF assms(1,2), of key] by blast
  then show "\<exists>old m'. hashmap__delete m key = Some (old, m') \<and>
      keyed str_hash_fn str_equal_fn m' \<and> unique_keys m' \<and>
      (\<forall>k. hashmap__find m' k = (if k = key then Some None else hashmap__find m k)) \<and>
      hashmap__size m' + (if hashmap__find m key = Some None then 0 else 1) = hashmap__size m"
    using find [OF assms(1)] by (auto simp: find str_equal_fn_def hashmap__size_def)
qed

theorem str_map_refines_witness:
  "\<exists>old m'. hashmap__set True True (hashmap__init str_hash_fn str_equal_fn) [97] (5 :: nat) = Some (0, old, m') \<and>
    hashmap__find m' [97] = Some (Some 5) \<and> hashmap__find m' [98] = Some None"
proof -
  let ?m = "hashmap__init str_hash_fn str_equal_fn :: (u8 list, nat) hashmap"
  have m: "keyed str_hash_fn str_equal_fn ?m" "unique_keys ?m" "cap_bits ?m < 31"
    using str_keys.init_keyed by (auto simp: hashmap__init_def)
  have "hashmap__find ?m [98] = Some None"
    using str_keys.find_lookup [OF m(1)] str_keys.init_keyed(3) by simp
  then show ?thesis using str_map_refines [OF m, of "[97]" 5] by auto
qed

text \<open>Three entries for the key 0, the newest first.\<close>

definition demo_dedup :: "(u64, u32) hashmap" where
  "demo_dedup =
     \<lparr>hash_fn = btf_dedup_identity_hash_fn, equal_fn = btf_dedup_equal_fn,
      buckets = Buckets [[(0, 12), (0, 11), (0, 10)], [], [], []], cap = 4, cap_bits = 2, sz = 3\<rparr>"

lemma demo_dedup_keyed: "keyed btf_dedup_identity_hash_fn btf_dedup_equal_fn demo_dedup"
proof -
  have "fst e = (0 :: u64) \<and> i = 0"
    if "i < 4" "e \<in> set ([[(0, 12), (0, 11), (0, 10)], [], [], []] ! i)" for i and e :: "u64 \<times> u32"
    using that by (cases i rule: nat.exhaust; auto simp: nth_Cons' split: if_splits)
  then show ?thesis
    by (fastforce simp: keyed_def hashmap_ok_def demo_dedup_def bucket_of_def hash_bits_def
        btf_dedup_identity_hash_fn_def)
qed

text \<open>Clearing a map frees its buckets but keeps the pointer: every later lookup and insertion follows
  it, and a second call frees it again.\<close>

theorem clear_leaves_dangling:
  assumes "hashmap_ok m" and "0 < hashmap__size m"
  shows "\<exists>m'. hashmap__clear m = Some m' \<and> hashmap__size m' = 0 \<and> hashmap__find m' key = None \<and>
    hashmap__insert calloc_ok malloc_ok m' key v HASHMAP_SET = None \<and> hashmap__clear m' = None \<and>
    hashmap__free (Some m') = None"
  using assms
  by (cases rule: hashmap_ok_cases)
     (auto simp: hashmap__clear_def free_buckets_def hashmap__size_def hashmap__find_def hashmap_find_entry_def
       hashmap__insert_def hashmap__free_def Let_def)

theorem clear_leaves_dangling_witness:
  "\<exists>m'. hashmap__clear demo_dedup = Some m' \<and> hashmap__find m' 0 = None"
proof -
  have "hashmap_ok demo_dedup" "0 < hashmap__size demo_dedup"
    using demo_dedup_keyed by (simp_all add: keyed_def) (simp add: hashmap__size_def demo_dedup_def)
  then show ?thesis using clear_leaves_dangling [of demo_dedup 0 True True 5] by blast
qed

text \<open>With several entries for a key a lookup gives the newest, as the comment in
  \<^verbatim>\<open>hashmap.h\<close> says, until the table grows: an insertion under another key then reverses the
  chains, and the same lookup gives the oldest.\<close>

theorem append_growth_reverses:
  assumes "keyed btf_dedup_identity_hash_fn btf_dedup_equal_fn m" and "cap_bits m < 31"
    and "matching m k \<noteq> []" and "hashmap_needs_to_grow m" and "key \<noteq> k"
  shows "hashmap__find m k = Some (Some (snd (hd (matching m k)))) \<and>
    (\<exists>m'. btf_dedup_table_add True True m key v = Some (0, m') \<and>
       hashmap__find m' k = Some (Some (snd (last (matching m k)))))"
proof
  show "hashmap__find m k = Some (Some (snd (hd (matching m k))))"
    using dedup_keys.find_lookup [OF assms(1), of k] assms(3) by (simp add: lookup_def split: list.split)
  obtain m' where m': "hashmap__insert True True m key v HASHMAP_APPEND = Some (0, None, m')"
      "keyed btf_dedup_identity_hash_fn btf_dedup_equal_fn m'" "matching m' k = rev (matching m k)"
    using dedup_keys.append_order [OF assms(1), of True True key v] assms(2,4,5)
    by (auto simp: btf_dedup_equal_fn_def)
  have "hashmap__find m' k = Some (Some (snd (last (matching m k))))"
    using dedup_keys.find_lookup [OF m'(2), of k] assms(3) m'(3)
    by (cases "matching m k" rule: rev_cases) (simp_all add: lookup_def)
  moreover have "btf_dedup_table_add True True m key v = Some (0, m')"
    using m'(1) by (simp add: btf_dedup_table_add_def hashmap__append_def)
  ultimately show "\<exists>m'. btf_dedup_table_add True True m key v = Some (0, m') \<and>
       hashmap__find m' k = Some (Some (snd (last (matching m k))))" by blast
qed

theorem append_growth_reverses_witness:
  "hashmap__find demo_dedup 0 = Some (Some 12) \<and>
   (\<exists>m'. btf_dedup_table_add True True demo_dedup 1 20 = Some (0, m') \<and>
      hashmap__find m' 0 = Some (Some 10))"
proof -
  have "matching demo_dedup 0 = [(0, 12), (0, 11), (0, 10)]"
    by (simp add: matching_def demo_dedup_def bucket_of_def hash_bits_def btf_dedup_identity_hash_fn_def
        btf_dedup_equal_fn_def)
  moreover have "hashmap_needs_to_grow demo_dedup" "cap_bits demo_dedup < 31"
    by (simp_all add: hashmap_needs_to_grow_def demo_dedup_def)
  ultimately show ?thesis
    using append_growth_reverses [OF demo_dedup_keyed, of 0 1 20] by simp
qed

section \<open>Counting names\<close>

text \<open>The table is never more than four times as large as the number of names, so that it does not
  reach the size at which it cannot grow.\<close>

definition load_ok :: "('k, 'v) hashmap \<Rightarrow> bool" where
  "load_ok m \<longleftrightarrow> cap m \<le> 4 \<or> cap m \<le> 4 * sz m"

lemma load_cap_bits:
  assumes "hashmap_ok m" "load_ok m" "sz m < 2 ^ 29"
  shows "cap_bits m < 31"
  using assms(1)
proof (cases rule: hashmap_ok_cases)
  case (2 bs)
  have "(2 :: nat) ^ cap_bits m < 2 ^ 31" using assms(2,3) 2(4) by (simp add: load_ok_def) linarith
  then show ?thesis by (simp only: power_strict_increasing_iff)
qed simp

lemma grow_cap:
  assumes "hashmap_ok m" "hashmap_grow c m = Some (0, m')"
  shows "cap m' = max 4 (2 * cap m)" "sz m' = sz m"
proof -
  have "cap m' = 2 ^ (if cap_bits m + 1 < 2 then 2 else cap_bits m + 1) \<and> sz m' = sz m"
    using assms(2) by (auto simp: hashmap_grow_def Let_def bind_eq_Some_conv split: if_splits)
  moreover have "2 ^ (if cap_bits m + 1 < 2 then 2 else cap_bits m + 1) = max 4 (2 * cap m)"
    using assms(1)
  proof (cases rule: hashmap_ok_cases)
    case (2 bs)
    then have "(2 :: nat) ^ 1 \<le> 2 ^ cap_bits m" by (intro power_increasing) auto
    with 2 show ?thesis by simp
  qed simp
  ultimately show "cap m' = max 4 (2 * cap m)" "sz m' = sz m" by simp_all
qed

lemma insert_load:
  assumes "keyed str_hash_fn str_equal_fn m" "load_ok m"
    and "hashmap__insert c ml m key v HASHMAP_SET = Some (0, old, m')"
  shows "load_ok m'"
proof (cases "matching m key = []")
  case True
  have ok: "hashmap_ok m" using assms(1) by (simp add: keyed_def)
  have "insert_new c ml m key v = Some (0, m')"
    using assms(3) str_keys.insert_missing [OF assms(1), of HASHMAP_SET key] True
    by (auto simp: bind_eq_Some_conv)
  then obtain m1 where "(if hashmap_needs_to_grow m then hashmap_grow c m else Some (0, m)) = Some (0, m1)"
      "cap m' = cap m1" "sz m' = sz m1 + 1"
    unfolding insert_new_def bind_eq_Some_conv
    by (auto simp: Let_def bind_eq_Some_conv dest: arg_cong [where f = sz] split: if_splits buckets.splits)
  then show ?thesis
    using assms(2) grow_cap [OF ok, of c m1]
    by (auto simp: load_ok_def hashmap_needs_to_grow_def split: if_splits)
next
  case False
  then obtain bs i where "buckets m = Buckets bs"
    "hashmap_find_entry m key (hash_bits (hash_fn m key) (cap_bits m)) = Some (Some i)"
    using str_keys.found_entry [OF assms(1)] by metis
  then have "cap m' = cap m \<and> sz m' = sz m"
    using assms(3) by (auto simp: hashmap__insert_def Let_def set_chain_def)
  with assms(2) show ?thesis by (simp add: load_ok_def)
qed

text \<open>Resolving a list of names one after the other.\<close>

fun resolve_names :: "u8 list list \<Rightarrow> (u8 list, u64) hashmap \<Rightarrow> (u64 list \<times> (u8 list, u64) hashmap) option" where
  "resolve_names [] m = Some ([], m)"
| "resolve_names (n # ns) m = do {
     (c, m) \<leftarrow> btf_dump_name_dups True True m n;
     (cs, m) \<leftarrow> resolve_names ns m;
     Some (c # cs, m) }"

definition seen_before :: "u8 list list \<Rightarrow> (u8 list, u64) hashmap \<Rightarrow> bool" where
  "seen_before prev m \<longleftrightarrow>
     keyed str_hash_fn str_equal_fn m \<and> unique_keys m \<and> load_ok m \<and> sz m \<le> length prev \<and>
     (\<forall>k. lookup m k = (if k \<in> set prev then Some (of_nat (count_list prev k)) else None))"

lemma name_dups_step:
  assumes "seen_before prev m" and "length prev < 2 ^ 29"
  shows "\<exists>m'. btf_dump_name_dups True True m n = Some (of_nat (count_list (prev @ [n]) n), m') \<and>
    seen_before (prev @ [n]) m'"
proof -
  note s = assms(1) [unfolded seen_before_def]
  let ?c = "of_nat (count_list (prev @ [n]) n) :: u64"
  have bits: "cap_bits m < 31" using s assms(2) by (intro load_cap_bits) (auto simp: keyed_def)
  obtain old m' where m': "hashmap__insert True True m n ?c HASHMAP_SET = Some (0, old, m')"
      "keyed str_hash_fn str_equal_fn m'" "unique_keys m'" "sz m' \<le> sz m + 1"
      "\<forall>k. lookup m' k = (if str_equal_fn n k then Some ?c else lookup m k)"
    using str_keys.set_refines [of m True True n ?c] s bits by force
  have "hashmap__find m n = Some (if n \<in> set prev then Some (of_nat (count_list prev n)) else None)"
    using s str_keys.find_lookup [of m n] by simp
  then have "btf_dump_name_dups True True m n = Some (?c, m')"
    using m'(1) by (simp add: btf_dump_name_dups_def hashmap__set_def Let_def count_notin add.commute split: if_splits)
  moreover have "seen_before (prev @ [n]) m'"
    using s m' insert_load [OF _ _ m'(1)] unfolding seen_before_def by (auto simp: str_equal_fn_def)
  ultimately show ?thesis by blast
qed

lemma resolve_names_eq:
  assumes "seen_before prev m" and "length prev + length ns < 2 ^ 29"
  shows "\<exists>m'. resolve_names ns m =
    Some (map (\<lambda>i. of_nat (count_list (prev @ take (Suc i) ns) (ns ! i))) [0..<length ns], m')"
  using assms
proof (induction ns arbitrary: prev m)
  case (Cons n ns)
  obtain m1 where m1: "btf_dump_name_dups True True m n = Some (of_nat (count_list (prev @ [n]) n), m1)"
      "seen_before (prev @ [n]) m1"
    using name_dups_step [OF Cons.prems(1), of n] Cons.prems(2) by auto
  from Cons.IH [OF m1(2)] Cons.prems(2) obtain m' where
    "resolve_names ns m1 = Some (map (\<lambda>i. of_nat (count_list ((prev @ [n]) @ take (Suc i) ns) (ns ! i))) [0..<length ns], m')"
    by auto
  with m1(1) show ?case
    by (simp add: map_upt_Suc del: upt_Suc)
qed simp

text \<open>Each name is numbered with the times it occurred so far, the basis of the distinct suffixes
  \<^verbatim>\<open>btf_dump_resolve_name\<close> gives.\<close>

theorem resolve_names_counts:
  assumes "length ns < 2 ^ 29"
  shows "\<exists>m'. resolve_names ns (hashmap__init str_hash_fn str_equal_fn) =
    Some (map (\<lambda>i. of_nat (count_list (take (Suc i) ns) (ns ! i))) [0..<length ns], m')"
proof -
  have "seen_before [] (hashmap__init str_hash_fn str_equal_fn)"
    by (simp add: seen_before_def load_ok_def hashmap__init_def keyed_def hashmap_ok_def unique_keys_def
        matching_def lookup_def)
  from resolve_names_eq [OF this] assms show ?thesis by simp
qed

theorem resolve_names_counts_witness:
  "\<exists>m'. resolve_names [[97], [98], [97]] (hashmap__init str_hash_fn str_equal_fn) = Some ([1, 1, 2], m')"
  using resolve_names_counts [of "[[97], [98], [97]]"] by (simp add: upt_rec)

end
