(* ===== verification/Linfo.thy ===== *)
theory Linfo
  imports Prelude
begin

text \<open>
  Line information of loaded programs, \<^verbatim>\<open>libbpf/src/bpf_prog_linfo.c\<close>. The kernel describes a
  program by a table of line records and, for each record, the address of its machine code; the
  library copies both, splits the addresses by function and searches the tables.

  A block from \<^verbatim>\<open>malloc\<close> is the list of its bytes, a pointer into it an offset. Arrays of
  \<^verbatim>\<open>__u32\<close> are lists of cells; a cell that was not written yet is \<^term>\<open>None\<close>. Reading such a
  cell, following NULL and leaving a block have no result. Which allocations succeed is an argument.
\<close>

section \<open>Definitions\<close>

type_synonym u32_array = "u32 option list"

definition arr_get :: "'a list \<Rightarrow> u32 \<Rightarrow> 'a option" where
  "arr_get xs i = (if unat i < length xs then Some (xs ! unat i) else None)"

definition cell_get :: "u32_array option \<Rightarrow> u32 \<Rightarrow> u32 option" where
  "cell_get a i = do { xs \<leftarrow> a; c \<leftarrow> arr_get xs i; c }"

definition cell_set :: "u32_array option \<Rightarrow> u32 \<Rightarrow> u32 \<Rightarrow> u32_array option" where
  "cell_set a i v = do {
     xs \<leftarrow> a;
     if unat i < length xs then Some (xs[unat i := Some v]) else None }"

text \<open>The fields of \<^verbatim>\<open>struct bpf_prog_info\<close> that are read here. A user address is the memory it
  points to, a null address \<^term>\<open>None\<close>.\<close>

record bpf_prog_info =
  nr_line_info :: u32
  line_info :: "bytes option"
  line_info_rec_size :: u32
  nr_jited_ksyms :: u32
  jited_ksyms :: "u64 list option"
  nr_jited_func_lens :: u32
  jited_func_lens :: "u32 list option"
  nr_jited_line_info :: u32
  jited_line_info :: "bytes option"
  jited_line_info_rec_size :: u32

record bpf_prog_linfo =
  raw_linfo :: "bytes option"
  raw_jited_linfo :: "bytes option"
  nr_jited_linfo_per_func :: "u32_array option"
  jited_linfo_func_idx :: "u32_array option"
  nr_linfo :: u32
  nr_jited_func :: u32
  rec_size :: u32
  jited_rec_size :: u32

subsection \<open>Splitting the addresses by function\<close>

definition set_func_idx :: "bpf_prog_linfo \<Rightarrow> u32 \<Rightarrow> u32 \<Rightarrow> bpf_prog_linfo option" where
  "set_func_idx p f v = do {
     a \<leftarrow> cell_set (jited_linfo_func_idx p) f v;
     Some (p\<lparr>jited_linfo_func_idx := Some a\<rparr>) }"

definition set_per_func :: "bpf_prog_linfo \<Rightarrow> u32 \<Rightarrow> u32 \<Rightarrow> bpf_prog_linfo option" where
  "set_per_func p f v = do {
     a \<leftarrow> cell_set (nr_jited_linfo_per_func p) f v;
     Some (p\<lparr>nr_jited_linfo_per_func := Some a\<rparr>) }"

lemma set_func_idx_fields:
  "set_func_idx p f v = Some q \<Longrightarrow> nr_linfo q = nr_linfo p \<and> nr_jited_func q = nr_jited_func p \<and>
     rec_size q = rec_size p \<and> jited_rec_size q = jited_rec_size p \<and> raw_linfo q = raw_linfo p \<and>
     raw_jited_linfo q = raw_jited_linfo p \<and> nr_jited_linfo_per_func q = nr_jited_linfo_per_func p"
  by (auto simp: set_func_idx_def bind_eq_Some_conv)

lemma set_per_func_fields:
  "set_per_func p f v = Some q \<Longrightarrow> nr_linfo q = nr_linfo p \<and> nr_jited_func q = nr_jited_func p \<and>
     rec_size q = rec_size p \<and> jited_rec_size q = jited_rec_size p \<and> raw_linfo q = raw_linfo p \<and>
     raw_jited_linfo q = raw_jited_linfo p \<and> jited_linfo_func_idx q = jited_linfo_func_idx p"
  by (auto simp: set_per_func_def bind_eq_Some_conv)

text \<open>What follows the loop of \<^verbatim>\<open>dissect_jited_func\<close>.\<close>

definition dissect_end :: "bpf_prog_linfo \<Rightarrow> u32 \<Rightarrow> u32 \<Rightarrow> (int \<times> bpf_prog_linfo) option" where
  "dissect_end p prev_i f =
     (if f \<noteq> nr_jited_func p then Some (- 22, p)
      else do {
        p \<leftarrow> set_per_func p (nr_jited_func p - 1) (nr_linfo p - prev_i);
        Some (0, p) })"

lemma unat_Suc_less: "(i :: u32) < n \<Longrightarrow> unat (i + 1) = Suc (unat i)"
  using unat_u32_less [of n] by (simp add: unat_word_ariths word_less_nat_alt)

text \<open>The loop: \<open>raw\<close> is the record before the one that is looked at.\<close>

function dissect_loop ::
  "u64 list \<Rightarrow> u32 list \<Rightarrow> bpf_prog_linfo \<Rightarrow> ptr \<Rightarrow> u32 \<Rightarrow> u32 \<Rightarrow> u32 \<Rightarrow> (int \<times> bpf_prog_linfo) option"
where
  "dissect_loop ksym_func ksym_len p raw prev_i i f =
     (if i < nr_linfo p \<and> f < nr_jited_func p then do {
        m \<leftarrow> raw_jited_linfo p;
        last_jited_linfo \<leftarrow> load64 m raw;
        let raw' = raw + unat (jited_rec_size p);
        jited_linfo \<leftarrow> load64 m raw';
        kf \<leftarrow> arr_get ksym_func f;
        if kf = jited_linfo then do {
          q \<leftarrow> set_func_idx p f i;
          k0 \<leftarrow> arr_get ksym_func (f - 1);
          l0 \<leftarrow> arr_get ksym_len (f - 1);
          if last_jited_linfo - k0 + 1 > ucast l0 then Some (- 22, q)
          else do {
            r \<leftarrow> set_per_func q (f - 1) (i - prev_i);
            dissect_loop ksym_func ksym_len r raw' i (i + 1) (f + 1) } }
        else if jited_linfo \<le> last_jited_linfo then Some (- 22, p)
        else dissect_loop ksym_func ksym_len p raw' prev_i (i + 1) f }
      else dissect_end p prev_i f)"
  by pat_completeness auto

termination
  by (relation "measure (\<lambda>(ks, ls, p, raw, prev_i, i, f). unat (nr_linfo p) - unat i)")
    (auto simp: unat_Suc_less word_less_nat_alt dest!: set_func_idx_fields set_per_func_fields)

declare dissect_loop.simps [simp del]

definition dissect_jited_func ::
  "bpf_prog_linfo \<Rightarrow> u64 list \<Rightarrow> u32 list \<Rightarrow> (int \<times> bpf_prog_linfo) option" where
  "dissect_jited_func p ksym_func ksym_len = do {
     m \<leftarrow> raw_jited_linfo p;
     k0 \<leftarrow> arr_get ksym_func 0;
     jited_linfo \<leftarrow> load64 m 0;
     if k0 \<noteq> jited_linfo then Some (- 22, p)
     else do {
       p \<leftarrow> set_func_idx p 0 0;
       dissect_loop ksym_func ksym_len p 0 0 1 1 } }"

subsection \<open>Creating and freeing the tables\<close>

datatype linfo_block = ProgLinfo | RawLinfo | RawJitedLinfo | NrPerFunc | FuncIdx

text \<open>\<^verbatim>\<open>free\<close> of one of the pointers: nothing happens for NULL, and a block is freed once.\<close>

definition free_block :: "linfo_block \<Rightarrow> 'a option \<Rightarrow> linfo_block list \<Rightarrow> linfo_block list option" where
  "free_block b a live =
     (case a of
        None \<Rightarrow> Some live
      | Some _ \<Rightarrow> if b \<in> set live then Some (remove1 b live) else None)"

definition bpf_prog_linfo__free ::
  "bpf_prog_linfo option \<Rightarrow> linfo_block list \<Rightarrow> linfo_block list option" where
  "bpf_prog_linfo__free prog_linfo live =
     (case prog_linfo of
        None \<Rightarrow> Some live
      | Some p \<Rightarrow> do {
          live \<leftarrow> free_block RawLinfo (raw_linfo p) live;
          live \<leftarrow> free_block RawJitedLinfo (raw_jited_linfo p) live;
          live \<leftarrow> free_block NrPerFunc (nr_jited_linfo_per_func p) live;
          live \<leftarrow> free_block FuncIdx (jited_linfo_func_idx p) live;
          free_block ProgLinfo (Some p) live })"

text \<open>The label \<^verbatim>\<open>err_free\<close>.\<close>

definition err_free ::
  "bpf_prog_linfo \<Rightarrow> linfo_block list \<Rightarrow> (bpf_prog_linfo option \<times> linfo_block list) option" where
  "err_free p live = do {
     live \<leftarrow> bpf_prog_linfo__free (Some p) live;
     Some (None, live) }"

text \<open>The part that copies the machine code addresses.\<close>

definition new_jited ::
  "(linfo_block \<Rightarrow> bool) \<Rightarrow> bpf_prog_info \<Rightarrow> bpf_prog_linfo \<Rightarrow> linfo_block list \<Rightarrow>
   (bpf_prog_linfo option \<times> linfo_block list) option" where
  "new_jited alloc info p live = (
     let n = nr_jited_ksyms info;
         p = p\<lparr>nr_jited_func := n, jited_rec_size := jited_line_info_rec_size info\<rparr>;
         data_sz = (ucast (nr_linfo p) * ucast (jited_rec_size p) :: u64)
     in if \<not> alloc RawJitedLinfo then err_free p live
     else do {
       m \<leftarrow> jited_line_info info;
       raw \<leftarrow> load_bytes m 0 (unat data_sz);
       let p = p\<lparr>raw_jited_linfo := Some raw\<rparr>;
       let live = RawJitedLinfo # live;
       if \<not> alloc NrPerFunc then err_free p live
       else do {
         let p = p\<lparr>nr_jited_linfo_per_func := Some (replicate (unat n) None)\<rparr>;
         let live = NrPerFunc # live;
         if \<not> alloc FuncIdx then err_free p live
         else do {
           let p = p\<lparr>jited_linfo_func_idx := Some (replicate (unat n) None)\<rparr>;
           let live = FuncIdx # live;
           ks \<leftarrow> jited_ksyms info;
           ls \<leftarrow> jited_func_lens info;
           (ret, p) \<leftarrow> dissect_jited_func p ks ls;
           if ret \<noteq> 0 then err_free p live else Some (Some p, live) } } })"

definition bpf_prog_linfo__new ::
  "(linfo_block \<Rightarrow> bool) \<Rightarrow> bpf_prog_info \<Rightarrow> (bpf_prog_linfo option \<times> linfo_block list) option" where
  "bpf_prog_linfo__new alloc info = (
     if nr_line_info info = 0 then Some (None, [])
     else if line_info_rec_size info < 4 then Some (None, [])
     else if \<not> alloc ProgLinfo then Some (None, [])
     else let p = \<lparr>raw_linfo = None, raw_jited_linfo = None, nr_jited_linfo_per_func = None,
                   jited_linfo_func_idx = None, nr_linfo = nr_line_info info, nr_jited_func = 0,
                   rec_size = line_info_rec_size info, jited_rec_size = 0\<rparr>;
              data_sz = (ucast (nr_linfo p) * ucast (rec_size p) :: u64)
     in if \<not> alloc RawLinfo then err_free p [ProgLinfo]
     else do {
       m \<leftarrow> line_info info;
       raw \<leftarrow> load_bytes m 0 (unat data_sz);
       let p = p\<lparr>raw_linfo := Some raw\<rparr>;
       let live = [RawLinfo, ProgLinfo];
       if nr_jited_ksyms info = 0 \<or> jited_line_info info = None \<or>
          nr_jited_line_info info \<noteq> nr_line_info info \<or> jited_line_info_rec_size info < 8 \<or>
          nr_jited_func_lens info \<noteq> nr_jited_ksyms info \<or> jited_ksyms info = None \<or>
          jited_func_lens info = None
       then Some (Some p, live)
       else new_jited alloc info p live })"

subsection \<open>Searching\<close>

text \<open>The loops run over the \<open>n\<close> records that are left. The result is where \<^verbatim>\<open>raw_linfo\<close> stands when
  the loop ends.\<close>

primrec addr_loop :: "bytes \<Rightarrow> nat \<Rightarrow> nat \<Rightarrow> u64 \<Rightarrow> nat \<Rightarrow> ptr \<Rightarrow> ptr \<Rightarrow> ptr option" where
  "addr_loop m jited_rec rec addr 0 raw_jited raw = Some raw"
| "addr_loop m jited_rec rec addr (Suc n) raw_jited raw = do {
     a \<leftarrow> load64 m raw_jited;
     if addr < a then Some raw
     else addr_loop m jited_rec rec addr n (raw_jited + jited_rec) (raw + rec) }"

primrec insn_loop :: "bytes \<Rightarrow> nat \<Rightarrow> u32 \<Rightarrow> nat \<Rightarrow> ptr \<Rightarrow> ptr option" where
  "insn_loop m rec insn_off 0 raw = Some raw"
| "insn_loop m rec insn_off (Suc n) raw = do {
     a \<leftarrow> load32 m raw;
     if insn_off < a then Some raw else insn_loop m rec insn_off n (raw + rec) }"

text \<open>The searches return a pointer into \<^verbatim>\<open>raw_linfo\<close> or NULL, the inner \<^term>\<open>None\<close>. The
  product of index and record size is taken in 32 bits.\<close>

definition bpf_prog_linfo__lfind_addr_func ::
  "bpf_prog_linfo \<Rightarrow> u64 \<Rightarrow> u32 \<Rightarrow> u32 \<Rightarrow> ptr option option" where
  "bpf_prog_linfo__lfind_addr_func p addr func_idx nr_skip = (
     if func_idx \<ge> nr_jited_func p then Some None
     else do {
       n \<leftarrow> cell_get (nr_jited_linfo_per_func p) func_idx;
       if nr_skip \<ge> n then Some None
       else do {
         s \<leftarrow> cell_get (jited_linfo_func_idx p) func_idx;
         let start = s + nr_skip;
         m \<leftarrow> raw_jited_linfo p;
         let raw_jited = unat (start * jited_rec_size p);
         a \<leftarrow> load64 m raw_jited;
         if addr < a then Some None
         else do {
           raw \<leftarrow> addr_loop m (unat (jited_rec_size p)) (unat (rec_size p)) addr
                    (unat (n - nr_skip)) raw_jited (unat (start * rec_size p));
           Some (Some (raw - unat (rec_size p))) } } })"

definition bpf_prog_linfo__lfind :: "bpf_prog_linfo \<Rightarrow> u32 \<Rightarrow> u32 \<Rightarrow> ptr option option" where
  "bpf_prog_linfo__lfind p insn_off nr_skip = (
     if nr_skip \<ge> nr_linfo p then Some None
     else do {
       m \<leftarrow> raw_linfo p;
       let raw = unat (nr_skip * rec_size p);
       a \<leftarrow> load32 m raw;
       if insn_off < a then Some None
       else do {
         raw \<leftarrow> insn_loop m (unat (rec_size p)) insn_off (unat (nr_linfo p - nr_skip)) raw;
         Some (Some (raw - unat (rec_size p))) } })"

section \<open>Splitting as a function on lists\<close>

abbreviation cell :: "nat \<Rightarrow> u32 option" where
  "cell n \<equiv> Some (of_nat n)"

fun split_funcs :: "u64 \<Rightarrow> u64 list \<Rightarrow> u64 list \<Rightarrow> u64 list \<Rightarrow> u32 list \<Rightarrow> u64 list list option" where
  "split_funcs k0 cur [] xs ls = Some [cur @ xs]"
| "split_funcs k0 cur (k # ks) (x # xs) (l # ls) =
     (if k = x then
        if last cur - k0 + 1 > ucast l then None
        else map_option ((#) cur) (split_funcs k [x] ks xs ls)
      else if x \<le> last cur then None
      else split_funcs k0 (cur @ [x]) (k # ks) xs (l # ls))"
| "split_funcs k0 cur (k # ks) [] ls = None"
| "split_funcs k0 cur (k # ks) (x # xs) [] = None"

fun starts :: "nat \<Rightarrow> 'a list list \<Rightarrow> nat list" where
  "starts s [] = []"
| "starts s (f # fs) = s # starts (s + length f) fs"

lemma split_funcs_nonempty: "split_funcs k0 cur ks xs ls = Some fs \<Longrightarrow> fs \<noteq> []"
  by (induction k0 cur ks xs ls arbitrary: fs rule: split_funcs.induct) (auto split: if_splits)

lemma map_cell_starts: "fs \<noteq> [] \<Longrightarrow> map cell (starts s fs) = cell s # map cell (tl (starts s fs))"
  by (cases fs) simp_all

lemma arr_get_append [simp]:
  "length xs < 2 ^ 32 \<Longrightarrow> arr_get (xs @ x # ys) (of_nat (length xs)) = Some x"
  by (simp add: arr_get_def unat_of_nat_eq)

lemma cell_set_append:
  "length xs < 2 ^ 32 \<Longrightarrow>
   cell_set (Some (xs @ replicate (Suc k) None)) (of_nat (length xs)) v =
   Some (xs @ Some v # replicate k None)"
  by (simp add: cell_set_def unat_of_nat_eq list_update_append)

lemma of_nat_less_u32:
  "m < 2 ^ 32 \<Longrightarrow> n < 2 ^ 32 \<Longrightarrow> (of_nat m :: u32) < of_nat n \<longleftrightarrow> m < n"
  by (simp add: word_less_nat_alt unat_of_nat_eq)

lemma of_nat_eq_u32:
  "m < 2 ^ 32 \<Longrightarrow> n < 2 ^ 32 \<Longrightarrow> (of_nat m :: u32) = of_nat n \<longleftrightarrow> m = n"
  by (simp add: word_unat_eq_iff unat_of_nat_eq)

definition table64 :: "bytes \<Rightarrow> nat \<Rightarrow> u64 list \<Rightarrow> bool" where
  "table64 m r keys \<longleftrightarrow> (\<forall>i<length keys. load64 m (i * r) = Some (keys ! i))"

definition same_blocks :: "bpf_prog_linfo \<Rightarrow> bpf_prog_linfo \<Rightarrow> bool" where
  "same_blocks p q \<longleftrightarrow> (raw_linfo p = None) = (raw_linfo q = None) \<and>
     (raw_jited_linfo p = None) = (raw_jited_linfo q = None) \<and>
     (nr_jited_linfo_per_func p = None) = (nr_jited_linfo_per_func q = None) \<and>
     (jited_linfo_func_idx p = None) = (jited_linfo_func_idx q = None)"

text \<open>What the loop leaves, for the splitting that is left to do and the cells written so far.\<close>

definition dissected ::
  "bpf_prog_linfo \<Rightarrow> nat list \<Rightarrow> nat list \<Rightarrow> nat \<Rightarrow> u64 list list option \<Rightarrow>
   (int \<times> bpf_prog_linfo) option \<Rightarrow> bool" where
  "dissected p st ns s split out \<longleftrightarrow>
     (case split of
        None \<Rightarrow> \<exists>q. out = Some (- 22, q) \<and> same_blocks p q
      | Some fs \<Rightarrow> out = Some (0, p\<lparr>jited_linfo_func_idx := Some (map cell (st @ tl (starts s fs))),
                                nr_jited_linfo_per_func := Some (map cell (ns @ map length fs))\<rparr>))"

lemma dissect_loop_step:
  assumes "raw_jited_linfo p = Some m" and "load64 m raw = Some a"
    and "load64 m (raw + unat (jited_rec_size p)) = Some x" and "i < nr_linfo p" and "f < nr_jited_func p"
    and "arr_get ks f = Some k" and "arr_get ks (f - 1) = Some k0" and "arr_get ls (f - 1) = Some l"
  shows "dissect_loop ks ls p raw prev_i i f =
     (if k = x then do {
        q \<leftarrow> set_func_idx p f i;
        if a - k0 + 1 > ucast l then Some (- 22, q)
        else do {
          r \<leftarrow> set_per_func q (f - 1) (i - prev_i);
          dissect_loop ks ls r (raw + unat (jited_rec_size p)) i (i + 1) (f + 1) } }
      else if x \<le> a then Some (- 22, p)
      else dissect_loop ks ls p (raw + unat (jited_rec_size p)) prev_i (i + 1) f)"
  using assms by (subst dissect_loop.simps) (simp only: Option.bind.bind_lunit Let_def simp_thms if_True)

lemma table64_around:
  assumes "table64 m r (pre @ cur @ x # xs)" and "cur \<noteq> []"
  shows "load64 m ((length (pre @ cur) - 1) * r) = Some (last cur)"
    and "load64 m ((length (pre @ cur) - 1) * r + r) = Some x"
proof -
  obtain ys y where cur: "cur = ys @ [y]" using assms(2) by (cases cur rule: rev_cases) auto
  have nth: "(pre @ cur @ x # xs) ! length (pre @ ys) = last cur"
    "(pre @ cur @ x # xs) ! Suc (length (pre @ ys)) = x"
    by (simp_all add: cur nth_append)
  show "load64 m ((length (pre @ cur) - 1) * r) = Some (last cur)"
    using assms(1) nth(1) unfolding table64_def by (auto simp: cur)
  show "load64 m ((length (pre @ cur) - 1) * r + r) = Some x"
    using assms(1) [unfolded table64_def, rule_format, of "Suc (length (pre @ ys))"] nth(2)
    by (simp add: cur add.commute)
qed

lemma arr_get_around:
  assumes "length (kpre @ k0 # k # kr) < 2 ^ 32" and "length lpre = length kpre"
  shows "arr_get (kpre @ k0 # k # kr) (of_nat (Suc (length kpre))) = Some k"
    and "arr_get (kpre @ k0 # k # kr) (of_nat (Suc (length kpre)) - 1) = Some k0"
    and "arr_get (lpre @ l # lr) (of_nat (Suc (length kpre)) - 1) = Some l"
  using assms arr_get_append [of "kpre @ [k0]" k kr] arr_get_append [of kpre k0 "k # kr"]
    arr_get_append [of lpre l lr] by simp_all

lemma dissect_loop_split:
  assumes "raw_jited_linfo p = Some m" and "table64 m (unat (jited_rec_size p)) keys"
    and "nr_linfo p = of_nat (length keys)" and "length keys < 2 ^ 32"
    and "nr_jited_func p = of_nat (length ks)" and "length ks < 2 ^ 32" and "length ls = length ks"
    and "keys = pre @ cur @ xs" and "cur \<noteq> []"
    and "ks = kpre @ k0 # kr" and "ls = lpre @ lr" and "length lpre = length kpre"
    and "jited_linfo_func_idx p = Some (map cell st @ replicate (length kr) None)"
    and "length st = Suc (length kpre)"
    and "nr_jited_linfo_per_func p = Some (map cell ns @ replicate (Suc (length kr)) None)"
    and "length ns = length kpre"
  shows "dissected p st ns (length pre) (split_funcs k0 cur kr xs lr)
     (dissect_loop ks ls p ((length (pre @ cur) - 1) * unat (jited_rec_size p))
        (of_nat (length pre)) (of_nat (length (pre @ cur))) (of_nat (Suc (length kpre))))"
  using assms
proof (induction k0 cur kr xs lr arbitrary: p pre kpre lpre st ns rule: split_funcs.induct)
  case (1 k0 cur xs lr)
  have "dissect_end p (of_nat (length pre)) (of_nat (Suc (length kpre))) =
    Some (0, p\<lparr>nr_jited_linfo_per_func := Some (map cell (ns @ [length (cur @ xs)]))\<rparr>)"
    using 1 cell_set_append [of "map cell ns" 0 "of_nat (length (cur @ xs))"]
    by (simp add: dissect_end_def set_per_func_def)
  then show ?case using 1 by (subst dissect_loop.simps) (simp add: dissected_def)
next
  case (2 k0 cur k kr x xs l lr)
  let ?i = "length (pre @ cur)" and ?f = "Suc (length kpre)"
  let ?q = "p\<lparr>jited_linfo_func_idx := Some (map cell (st @ [?i]) @ replicate (length kr) None)\<rparr>"
  let ?r = "?q\<lparr>nr_jited_linfo_per_func := Some (map cell (ns @ [length cur]) @ replicate (Suc (length kr)) None)\<rparr>"
  let ?jr = "unat (jited_rec_size p)"
  let ?loop = "\<lambda>p raw prev i f. dissect_loop ks ls p raw (of_nat prev) (of_nat i) (of_nat f)"
  have raw: "(?i - 1) * ?jr + ?jr = ?i * ?jr" using 2(11) by (cases ?i) simp_all
  have idx: "set_func_idx p (of_nat ?f) (of_nat ?i) = Some ?q"
    using 2 cell_set_append [of "map cell st" "length kr" "of_nat ?i"] by (simp add: set_func_idx_def)
  have per: "set_per_func ?q (of_nat (length kpre)) (of_nat ?i - of_nat (length pre)) = Some ?r"
    using 2 cell_set_append [of "map cell ns" "Suc (length kr)" "of_nat (length cur)"]
    by (simp add: set_per_func_def)
  have lt: "(of_nat ?i :: u32) < nr_linfo p" "(of_nat ?f :: u32) < nr_jited_func p"
    using 2(5-13) by (simp_all add: of_nat_less_u32 del: of_nat_Suc of_nat_add)
  have tab: "table64 m (unat (jited_rec_size p)) (pre @ cur @ x # xs)" and
    kl: "length (kpre @ k0 # k # kr) < 2 ^ 32" using 2 by simp_all
  note step = dissect_loop_step [OF 2(3) table64_around [OF tab 2(11)] lt
      arr_get_around(1,2) [OF kl 2(14)] arr_get_around(3) [OF kl 2(14), of l lr], where prev_i = "of_nat (length pre)", folded 2(12,13)]
  show ?case
  proof (cases "k = x")
    case True
    show ?thesis
    proof (cases "last cur - k0 + 1 > ucast l")
      case True
      then show ?thesis using \<open>k = x\<close> 2(3-) step idx by (simp add: dissected_def same_blocks_def)
    next
      case False
      have "dissected ?r (st @ [?i]) (ns @ [length cur]) ?i (split_funcs k [x] kr xs lr)
          (?loop ?r (?i * ?jr) ?i (Suc ?i) (Suc ?f))"
        using 2(1) [OF True False, of ?r "pre @ cur" "kpre @ [k0]" "lpre @ [l]" "st @ [?i]" "ns @ [length cur]"]
          2(3-) True
        by simp
      moreover have "?loop p ((?i - 1) * ?jr) (length pre) ?i ?f = ?loop ?r (?i * ?jr) ?i (Suc ?i) (Suc ?f)"
        using step True False idx per raw by (simp add: ac_simps)
      ultimately show ?thesis using True False
        by (cases "split_funcs k [x] kr xs lr" rule: option.exhaust)
          (auto simp: dissected_def same_blocks_def 2 map_cell_starts split_funcs_nonempty)
    qed
  next
    case False
    show ?thesis
    proof (cases "x \<le> last cur")
      case True
      then show ?thesis using False step by (simp add: dissected_def same_blocks_def)
    next
      case gt: False
      have "?loop p ((?i - 1) * ?jr) (length pre) ?i ?f = ?loop p (?i * ?jr) (length pre) (Suc ?i) ?f"
        using step gt False raw by (simp add: add.commute)
      then show ?thesis using 2(2) [OF False gt, of p pre kpre lpre st ns] 2(3-) gt False by simp
    qed
  qed
qed (auto simp: dissected_def dissect_loop.simps dissect_end_def same_blocks_def of_nat_eq_u32 simp del: of_nat_Suc)

text \<open>The lines of each function: they begin with the address of the function, and, but for the last
  function, increase, do not reach the next function and stay within the length of the function.\<close>

fun funcs_ok :: "u64 list \<Rightarrow> u32 list \<Rightarrow> u64 list list \<Rightarrow> bool" where
  "funcs_ok [k] ls [f] \<longleftrightarrow> f \<noteq> [] \<and> hd f = k"
| "funcs_ok (k # k' # ks) (l # ls) (f # fs) \<longleftrightarrow>
     f \<noteq> [] \<and> hd f = k \<and> sorted_wrt (<) f \<and> k' \<notin> set (tl f) \<and> last f - k + 1 \<le> ucast l \<and>
     funcs_ok (k' # ks) ls fs"
| "funcs_ok _ _ _ \<longleftrightarrow> False"

definition split_table :: "u64 list \<Rightarrow> u64 list \<Rightarrow> u32 list \<Rightarrow> u64 list list option" where
  "split_table keys ks ls =
     (case (keys, ks) of
        (x # xs, k # kr) \<Rightarrow> if k \<noteq> x then None else split_funcs k [x] kr xs ls
      | _ \<Rightarrow> None)"

lemma funcs_ok_hd:
  "funcs_ok (k # ks) ls fs \<Longrightarrow> \<exists>ys gs. fs = (k # ys) # gs"
  by (cases "(k # ks, ls, fs)" rule: funcs_ok.cases) (auto simp: neq_Nil_conv)

lemma funcs_ok_length: "funcs_ok ks ls fs \<Longrightarrow> length fs = length ks"
  by (induction ks ls fs rule: funcs_ok.induct) auto

lemma sorted_wrt_snoc:
  "cur \<noteq> [] \<Longrightarrow> sorted_wrt (<) (cur @ [x :: 'a :: linorder]) \<longleftrightarrow> sorted_wrt (<) cur \<and> last cur < x"
  by (cases cur rule: rev_cases) (auto simp: sorted_wrt_append)

lemma tl_snoc: "cur \<noteq> [] \<Longrightarrow> tl (cur @ ys) = tl cur @ ys"
  by (cases cur) auto

lemma split_funcs_sound:
  "split_funcs k0 cur ks xs ls = Some fs \<Longrightarrow> cur \<noteq> [] \<Longrightarrow> hd cur = k0 \<Longrightarrow> sorted_wrt (<) cur \<Longrightarrow>
   (\<forall>k kr. ks = k # kr \<longrightarrow> k \<notin> set (tl cur)) \<Longrightarrow>
   concat fs = cur @ xs \<and> funcs_ok (k0 # ks) ls fs"
  by (induction k0 cur ks xs ls arbitrary: fs rule: split_funcs.induct)
    (auto simp: sorted_wrt_snoc tl_snoc not_less split: if_splits)

lemma split_funcs_complete:
  "funcs_ok (k0 # ks) ls (f # fs) \<Longrightarrow> concat (f # fs) = cur @ xs \<Longrightarrow> f = cur @ ys \<Longrightarrow> cur \<noteq> [] \<Longrightarrow>
   split_funcs k0 cur ks xs ls = Some (f # fs)"
proof (induction k0 cur ks xs ls arbitrary: f fs ys rule: split_funcs.induct)
  case (1 k0 cur xs ls)
  then show ?case by (cases fs) auto
next
  case (2 k0 cur k ks x xs l ls)
  from 2(3) obtain zs gs where fs: "fs = (k # zs) # gs" using funcs_ok_hd by fastforce
  show ?case
  proof (cases ys)
    case Nil
    then have "k = x" "f = cur" using 2(4,5) fs by auto
    then show ?thesis
      using 2(1) [of "k # zs" gs zs] 2(3,4) fs by auto
  next
    case (Cons y ys')
    then have "y = x" "x \<noteq> k" "last cur < x" using 2(3-6) 
      by (auto simp: sorted_wrt_append tl_snoc)
    then show ?thesis
      using 2(2) [of f fs ys'] 2(3-6) Cons by auto
  qed
next
  case (3 k0 cur k ks ls)
  from 3(1) obtain zs gs where "fs = (k # zs) # gs"
    by (cases ls) (auto dest: funcs_ok_hd)
  then show ?case using 3 by simp
qed simp

lemma split_table_iff:
  assumes "ks \<noteq> []"
  shows "split_table keys ks ls = Some fs \<longleftrightarrow> concat fs = keys \<and> funcs_ok ks ls fs" (is "?l \<longleftrightarrow> ?r")
proof -
  obtain k kr where ks: "ks = k # kr" using assms by (cases ks) auto
  show ?thesis
  proof
    assume ?l
    then obtain xs where "keys = k # xs" "split_funcs k [k] kr xs ls = Some fs"
      by (cases keys) (simp_all add: ks split_table_def split: if_splits)
    then show ?r using split_funcs_sound [of k "[k]" kr xs ls fs] by (simp add: ks)
  next
    assume ?r
    then obtain ys gs where fs: "fs = (k # ys) # gs" using ks funcs_ok_hd by blast
    have "funcs_ok (k # kr) ls ((k # ys) # gs)" using \<open>?r\<close> fs ks by blast
    then have "split_funcs k [k] kr (ys @ concat gs) ls = Some fs"
      unfolding fs by (rule split_funcs_complete) simp_all
    moreover have "keys = k # ys @ concat gs" using \<open>?r\<close> fs by simp
    ultimately show ?l by (simp add: ks split_table_def)
  qed
qed

lemma dissect_jited_func_split:
  assumes "raw_jited_linfo p = Some m" and "table64 m (unat (jited_rec_size p)) keys"
    and "nr_linfo p = of_nat (length keys)" and "length keys < 2 ^ 32" and "keys \<noteq> []"
    and "nr_jited_func p = of_nat (length ks)" and "length ks < 2 ^ 32" and "length ls = length ks"
    and "ks \<noteq> []" and "jited_linfo_func_idx p = Some (replicate (length ks) None)"
    and "nr_jited_linfo_per_func p = Some (replicate (length ks) None)"
  shows "case split_table keys ks ls of
      None \<Rightarrow> \<exists>q. dissect_jited_func p ks ls = Some (- 22, q) \<and> same_blocks p q
    | Some fs \<Rightarrow> dissect_jited_func p ks ls =
        Some (0, p\<lparr>jited_linfo_func_idx := Some (map cell (starts 0 fs)),
                   nr_jited_linfo_per_func := Some (map cell (map length fs))\<rparr>)"
proof -
  obtain x xs where keys: "keys = x # xs" using assms(5) by (cases keys) auto
  obtain k kr where ks: "ks = k # kr" using assms(9) by (cases ks) auto
  have first: "load64 m 0 = Some x" "arr_get ks 0 = Some k"
    using assms(2) by (auto simp: table64_def keys ks arr_get_def)
  let ?p = "p\<lparr>jited_linfo_func_idx := Some (map cell [0] @ replicate (length kr) None)\<rparr>"
  have idx: "set_func_idx p 0 0 = Some ?p"
    using assms(10) by (simp add: set_func_idx_def cell_set_def ks)
  have "dissected ?p [0] [] 0 (split_funcs k [x] kr xs ls) (dissect_loop ks ls ?p 0 0 1 1)"
    using dissect_loop_split [of ?p m keys ks ls "[]" "[x]" xs "[]" k kr "[]" ls "[0]" "[]"] assms
    by (simp add: keys ks)
  moreover have "dissect_jited_func p ks ls =
      (if k \<noteq> x then Some (- 22, p) else dissect_loop ks ls ?p 0 0 1 1)"
    using assms(1) first idx by (simp add: dissect_jited_func_def)
  ultimately show ?thesis
    using assms(10)
    by (auto simp: split_table_def keys ks dissected_def same_blocks_def map_cell_starts split_funcs_nonempty
        split: option.splits)
qed

section \<open>Searching as a function on lists\<close>

text \<open>The last position from \<open>skip\<close> on whose key is not greater.\<close>

definition nearest :: "'k::linorder list \<Rightarrow> nat \<Rightarrow> 'k \<Rightarrow> nat option" where
  "nearest xs skip a =
     (let is = filter (\<lambda>i. xs ! i \<le> a) [skip..<length xs] in if is = [] then None else Some (last is))"

definition run_length :: "'k::linorder list \<Rightarrow> 'k \<Rightarrow> nat" where
  "run_length xs a = length (takeWhile (\<lambda>x. x \<le> a) xs)"

lemma addr_loop_run:
  "(\<And>i. i < length xs \<Longrightarrow> load64 m (b + i * r) = Some (xs ! i)) \<Longrightarrow>
   addr_loop m r rec a (length xs) b raw = Some (raw + run_length xs a * rec)"
proof (induction xs arbitrary: b raw)
  case (Cons x xs)
  have "load64 m b = Some x" using Cons.prems [of 0] by simp
  moreover have "addr_loop m r rec a (length xs) (b + r) (raw + rec) =
      Some (raw + rec + run_length xs a * rec)"
    using Cons.prems [of "Suc i" for i] by (intro Cons.IH) (simp add: ac_simps)
  ultimately show ?case by (auto simp: run_length_def)
qed (simp add: run_length_def)

lemma insn_loop_run:
  "(\<And>i. i < length xs \<Longrightarrow> load32 m (b + i * rec) = Some (xs ! i)) \<Longrightarrow>
   insn_loop m rec a (length xs) b = Some (b + run_length xs a * rec)"
proof (induction xs arbitrary: b)
  case (Cons x xs)
  have "load32 m b = Some x" using Cons.prems [of 0] by simp
  moreover have "insn_loop m rec a (length xs) (b + rec) = Some (b + rec + run_length xs a * rec)"
    using Cons.prems [of "Suc i" for i] by (intro Cons.IH) (simp add: ac_simps)
  ultimately show ?case by (auto simp: run_length_def)
qed (simp add: run_length_def)

lemma run_length_le: "run_length xs a \<le> length xs"
  by (simp add: run_length_def length_takeWhile_le)

lemma less_run_length_iff:
  assumes "sorted xs" and "i < length xs"
  shows "i < run_length xs a \<longleftrightarrow> xs ! i \<le> a"
proof
  assume "i < run_length xs a"
  then show "xs ! i \<le> a"
    unfolding run_length_def by (metis nth_mem set_takeWhileD takeWhile_nth)
next
  assume le: "xs ! i \<le> a"
  show "i < run_length xs a"
  proof (rule ccontr)
    assume "\<not> ?thesis"
    then have "run_length xs a \<le> i" by simp
    then have "xs ! run_length xs a \<le> xs ! i" "run_length xs a < length xs"
      using assms by (auto intro: sorted_nth_mono)
    then show False
      using nth_length_takeWhile [of "\<lambda>x. x \<le> a" xs] le by (auto simp: run_length_def)
  qed
qed

lemma filter_less_upt: "s \<le> e \<Longrightarrow> e \<le> n \<Longrightarrow> filter (\<lambda>i. i < e) [s..<n] = [s..<e]"
  using upt_add_eq_append [of s e "n - e"] by (simp add: filter_empty_conv cong: filter_cong)

lemma nearest_run:
  assumes "sorted xs" and "skip < length xs"
  shows "nearest xs skip a =
     (if a < xs ! skip then None else Some (skip + run_length (drop skip xs) a - 1))"
proof -
  let ?r = "run_length (drop skip xs) a"
  have s: "sorted (drop skip xs)" using assms(1) by (rule sorted_wrt_drop)
  have "xs ! i \<le> a \<longleftrightarrow> i < skip + ?r" if "i \<in> set [skip..<length xs]" for i
  proof -
    have "i - skip < length (drop skip xs)" "skip \<le> i" using that by auto
    then show ?thesis using less_run_length_iff [OF s, of "i - skip" a] by (simp add: less_diff_conv2 add.commute)
  qed
  then have "filter (\<lambda>i. xs ! i \<le> a) [skip..<length xs] = filter (\<lambda>i. i < skip + ?r) [skip..<length xs]"
    by (rule filter_cong [OF refl])
  also have "\<dots> = [skip..<skip + ?r]"
    using run_length_le [of "drop skip xs" a] assms(2) by (intro filter_less_upt) auto
  finally have f: "filter (\<lambda>i. xs ! i \<le> a) [skip..<length xs] = [skip..<skip + ?r]" .
  have "0 < ?r \<longleftrightarrow> xs ! skip \<le> a" using less_run_length_iff [OF s, of 0 a] assms(2) by simp
  then show ?thesis unfolding nearest_def f by (cases ?r) (auto simp: not_less Let_def)
qed

section \<open>Well-formed information\<close>

definition covers :: "bytes option \<Rightarrow> u32 \<Rightarrow> u32 \<Rightarrow> bool" where
  "covers buf n r \<longleftrightarrow>
     (case buf of None \<Rightarrow> False | Some m \<Rightarrow> unat n * unat r \<le> length m \<and> unat n * unat r < 2 ^ 32)"

text \<open>The buffers are as large as the counts say, and below 4 GB.\<close>

definition info_ok :: "bpf_prog_info \<Rightarrow> bool" where
  "info_ok info \<longleftrightarrow>
     covers (line_info info) (nr_line_info info) (line_info_rec_size info) \<and>
     (jited_line_info info = None \<or>
      covers (jited_line_info info) (nr_jited_line_info info) (jited_line_info_rec_size info)) \<and>
     (case jited_ksyms info of None \<Rightarrow> True | Some ks \<Rightarrow> length ks = unat (nr_jited_ksyms info)) \<and>
     (case jited_func_lens info of None \<Rightarrow> True | Some ls \<Rightarrow> length ls = unat (nr_jited_func_lens info))"

definition has_lines :: "bpf_prog_info \<Rightarrow> bool" where
  "has_lines info \<longleftrightarrow> nr_line_info info \<noteq> 0 \<and> 4 \<le> line_info_rec_size info"

definition has_jited :: "bpf_prog_info \<Rightarrow> bool" where
  "has_jited info \<longleftrightarrow>
     nr_jited_ksyms info \<noteq> 0 \<and> jited_line_info info \<noteq> None \<and>
     nr_jited_line_info info = nr_line_info info \<and> 8 \<le> jited_line_info_rec_size info \<and>
     nr_jited_func_lens info = nr_jited_ksyms info \<and> jited_ksyms info \<noteq> None \<and>
     jited_func_lens info \<noteq> None"

definition info_addrs :: "bpf_prog_info \<Rightarrow> u64 list" where
  "info_addrs info =
     map (\<lambda>i. the (load64 (the (jited_line_info info)) (i * unat (jited_line_info_rec_size info))))
       [0..<unat (nr_line_info info)]"

definition info_insns :: "bpf_prog_info \<Rightarrow> u32 list" where
  "info_insns info =
     map (\<lambda>i. the (load32 (the (line_info info)) (i * unat (line_info_rec_size info))))
       [0..<unat (nr_line_info info)]"

lemma record_fits:
  assumes "n * r \<le> l" and "i < n" and "k \<le> r"
  shows "i * r + k \<le> (l :: nat)"
proof -
  have "i * r + k \<le> Suc i * r" using assms(3) by simp
  also have "\<dots> \<le> n * r" using assms(2) by (intro mult_le_mono1) simp
  finally show ?thesis using assms(1) by simp
qed

lemma load32_take: "a + 4 \<le> n \<Longrightarrow> load32 (take n m) a = load32 m a"
  by (simp add: load32_def)

lemma load64_take: "a + 8 \<le> n \<Longrightarrow> load64 (take n m) a = load64 m a"
  by (simp add: load64_def load32_take)

lemma load64_Some: "a + 8 \<le> length m \<Longrightarrow> load64 m a = Some (the (load64 m a))"
  by (auto simp: load64_def load32_def)

lemma data_size: "unat (n :: u32) * unat (r :: u32) < 2 ^ 32 \<Longrightarrow>
    unat (ucast n * ucast r :: u64) = unat n * unat r \<and> unat (n * r) = unat n * unat r"
  by (simp add: unat_word_ariths unat_ucast_up)

lemma info_addrs_table:
  assumes "covers (jited_line_info info) (nr_line_info info) (jited_line_info_rec_size info)"
    and "8 \<le> jited_line_info_rec_size info"
  shows "table64 (take (unat (nr_line_info info) * unat (jited_line_info_rec_size info))
            (the (jited_line_info info))) (unat (jited_line_info_rec_size info)) (info_addrs info)"
proof -
  have r: "8 \<le> unat (jited_line_info_rec_size info)" using assms(2) by (simp add: word_le_nat_alt)
  obtain m where m: "jited_line_info info = Some m"
    "unat (nr_line_info info) * unat (jited_line_info_rec_size info) \<le> length m"
    using assms(1) by (auto simp: covers_def split: option.splits)
  show ?thesis
    unfolding table64_def info_addrs_def
    using record_fits [OF order_refl _ r] record_fits [OF m(2) _ r]
    by (auto simp: m(1) load64_take intro: load64_Some)
qed


subsection \<open>The tables that are built\<close>

definition plain_linfo :: "bpf_prog_info \<Rightarrow> bpf_prog_linfo" where
  "plain_linfo info =
     \<lparr>raw_linfo = Some (take (unat (nr_line_info info) * unat (line_info_rec_size info)) (the (line_info info))),
      raw_jited_linfo = None, nr_jited_linfo_per_func = None, jited_linfo_func_idx = None,
      nr_linfo = nr_line_info info, nr_jited_func = 0, rec_size = line_info_rec_size info,
      jited_rec_size = 0\<rparr>"

definition jited_linfo :: "bpf_prog_info \<Rightarrow> u64 list list \<Rightarrow> bpf_prog_linfo" where
  "jited_linfo info fs = (plain_linfo info)
     \<lparr>raw_jited_linfo := Some (take (unat (nr_line_info info) * unat (jited_line_info_rec_size info))
        (the (jited_line_info info))),
      nr_jited_linfo_per_func := Some (map cell (map length fs)),
      jited_linfo_func_idx := Some (map cell (starts 0 fs)),
      nr_jited_func := nr_jited_ksyms info, jited_rec_size := jited_line_info_rec_size info\<rparr>"

lemma length_info_addrs: "length (info_addrs info) = unat (nr_line_info info)"
  by (simp add: info_addrs_def)

lemma new_plain:
  assumes "info_ok info" and "has_lines info" and "alloc ProgLinfo" and "alloc RawLinfo"
  shows "bpf_prog_linfo__new alloc info =
     (if has_jited info then new_jited alloc info (plain_linfo info) [RawLinfo, ProgLinfo]
      else Some (Some (plain_linfo info), [RawLinfo, ProgLinfo]))"
proof -
  obtain m where m: "line_info info = Some m"
    "unat (nr_line_info info) * unat (line_info_rec_size info) \<le> length m"
    "unat (nr_line_info info) * unat (line_info_rec_size info) < 2 ^ 32"
    using assms(1) by (auto simp: info_ok_def covers_def split: option.splits)
  have nj: "(nr_jited_ksyms info = 0 \<or> jited_line_info info = None \<or>
      nr_jited_line_info info \<noteq> nr_line_info info \<or> jited_line_info_rec_size info < 8 \<or>
      nr_jited_func_lens info \<noteq> nr_jited_ksyms info \<or> jited_ksyms info = None \<or>
      jited_func_lens info = None) \<longleftrightarrow> \<not> has_jited info"
    by (auto simp: has_jited_def not_le)
  have "nr_line_info info \<noteq> 0" "\<not> line_info_rec_size info < 4"
    using assms(2) by (auto simp: has_lines_def not_less)
  then show ?thesis
    using assms(3,4) m data_size [OF m(3)]
    unfolding bpf_prog_linfo__new_def nj by (simp add: load_bytes_def plain_linfo_def Let_def)
qed

lemma free_simps:
  "bpf_prog_linfo__free None live = Some live"
  "bpf_prog_linfo__free (Some p) live = do {
     live \<leftarrow> free_block RawLinfo (raw_linfo p) live;
     live \<leftarrow> free_block RawJitedLinfo (raw_jited_linfo p) live;
     live \<leftarrow> free_block NrPerFunc (nr_jited_linfo_per_func p) live;
     live \<leftarrow> free_block FuncIdx (jited_linfo_func_idx p) live;
     free_block ProgLinfo (Some p) live }"
  by (simp_all add: bpf_prog_linfo__free_def)

lemma free_block_simps [simp]:
  "free_block b None live = Some live"
  "free_block b (Some a) (b # live) = Some live"
  "b \<noteq> c \<Longrightarrow> free_block b (Some a) (c # live) = map_option ((#) c) (free_block b (Some a) live)"
  by (simp_all add: free_block_def)

definition fresh_jited :: "bpf_prog_info \<Rightarrow> bpf_prog_linfo" where
  "fresh_jited info = (jited_linfo info [])
     \<lparr>nr_jited_linfo_per_func := Some (replicate (unat (nr_jited_ksyms info)) None),
      jited_linfo_func_idx := Some (replicate (unat (nr_jited_ksyms info)) None)\<rparr>"

lemma dissect_fresh:
  assumes "info_ok info" and "has_lines info" and "has_jited info"
  shows "case split_table (info_addrs info) (the (jited_ksyms info)) (the (jited_func_lens info)) of
      None \<Rightarrow> \<exists>q. dissect_jited_func (fresh_jited info) (the (jited_ksyms info)) (the (jited_func_lens info)) =
                Some (- 22, q) \<and> same_blocks (fresh_jited info) q
    | Some fs \<Rightarrow> dissect_jited_func (fresh_jited info) (the (jited_ksyms info)) (the (jited_func_lens info)) =
                Some (0, jited_linfo info fs)"
proof -
  obtain ks ls m where some: "jited_ksyms info = Some ks" "jited_func_lens info = Some ls"
    "jited_line_info info = Some m" using assms(3) by (auto simp: has_jited_def)
  have len: "length ks = unat (nr_jited_ksyms info)" "length ls = length ks" "ks \<noteq> []"
    "length ks < 2 ^ 32"
    using assms(1,3) some unat_u32_less [of "nr_jited_ksyms info"]
      unat_gt_0 [of "nr_jited_ksyms info"] by (auto simp: info_ok_def has_jited_def)
  have tab: "table64 (take (unat (nr_line_info info) * unat (jited_line_info_rec_size info)) m)
      (unat (jited_line_info_rec_size info)) (info_addrs info)"
    using info_addrs_table [of info] assms(1,3) some by (auto simp: info_ok_def has_jited_def)
  have keys: "info_addrs info \<noteq> []" "length (info_addrs info) < 2 ^ 32"
    using assms(2) unat_u32_less [of "nr_line_info info"] length_info_addrs [of info]
      unat_gt_0 [of "nr_line_info info"] by (auto simp: has_lines_def)
  have "nr_linfo (fresh_jited info) = of_nat (length (info_addrs info))"
    "nr_jited_func (fresh_jited info) = of_nat (length ks)"
    by (simp_all add: fresh_jited_def jited_linfo_def plain_linfo_def length_info_addrs len)
  moreover have "raw_jited_linfo (fresh_jited info) =
      Some (take (unat (nr_line_info info) * unat (jited_line_info_rec_size info)) m)"
    "jited_rec_size (fresh_jited info) = jited_line_info_rec_size info"
    "jited_linfo_func_idx (fresh_jited info) = Some (replicate (length ks) None)"
    "nr_jited_linfo_per_func (fresh_jited info) = Some (replicate (length ks) None)"
    by (simp_all add: fresh_jited_def jited_linfo_def some len)
  moreover have "(fresh_jited info)\<lparr>jited_linfo_func_idx := Some (map cell (starts 0 fs)),
      nr_jited_linfo_per_func := Some (map cell (map length fs))\<rparr> = jited_linfo info fs" for fs
    by (simp add: fresh_jited_def jited_linfo_def)
  ultimately show ?thesis
    using dissect_jited_func_split [of "fresh_jited info" _ "info_addrs info" ks ls] tab keys len some
    by (auto split: option.splits)
qed

lemma new_jited_alloc:
  assumes "info_ok info" and "has_jited info" and "alloc RawJitedLinfo" and "alloc NrPerFunc" and "alloc FuncIdx"
  shows "new_jited alloc info (plain_linfo info) live = do {
     (ret, p) \<leftarrow> dissect_jited_func (fresh_jited info) (the (jited_ksyms info)) (the (jited_func_lens info));
     if ret \<noteq> 0 then err_free p (FuncIdx # NrPerFunc # RawJitedLinfo # live)
     else Some (Some p, FuncIdx # NrPerFunc # RawJitedLinfo # live) }"
proof -
  obtain ks ls m where some: "jited_ksyms info = Some ks" "jited_func_lens info = Some ls"
    "jited_line_info info = Some m" using assms(2) by (auto simp: has_jited_def)
  have m: "unat (nr_line_info info) * unat (jited_line_info_rec_size info) \<le> length m"
    "unat (nr_line_info info) * unat (jited_line_info_rec_size info) < 2 ^ 32"
    using assms(1,2) some by (auto simp: info_ok_def has_jited_def covers_def)
  show ?thesis
    using assms(3-) some m data_size [OF m(2)]
    by (simp add: new_jited_def load_bytes_def fresh_jited_def jited_linfo_def plain_linfo_def Let_def)
qed

lemma new_jited_fails:
  assumes "info_ok info" and "has_jited info" and "\<not> (alloc RawJitedLinfo \<and> alloc NrPerFunc \<and> alloc FuncIdx)"
  shows "new_jited alloc info (plain_linfo info) [RawLinfo, ProgLinfo] = Some (None, [])"
proof -
  obtain ks ls m where some: "jited_ksyms info = Some ks" "jited_func_lens info = Some ls"
    "jited_line_info info = Some m" using assms(2) by (auto simp: has_jited_def)
  have m: "unat (nr_line_info info) * unat (jited_line_info_rec_size info) \<le> length m"
    "unat (nr_line_info info) * unat (jited_line_info_rec_size info) < 2 ^ 32"
    using assms(1,2) some by (auto simp: info_ok_def has_jited_def covers_def)
  show ?thesis
    using assms(3) some m data_size [OF m(2)]
    by (auto simp: new_jited_def load_bytes_def err_free_def free_simps plain_linfo_def Let_def)
qed

lemma err_free_fresh:
  "same_blocks (fresh_jited info) q \<Longrightarrow>
   err_free q [FuncIdx, NrPerFunc, RawJitedLinfo, RawLinfo, ProgLinfo] = Some (None, [])"
  by (auto simp: same_blocks_def fresh_jited_def jited_linfo_def plain_linfo_def err_free_def free_simps)

definition splits_into :: "bpf_prog_info \<Rightarrow> u64 list list \<Rightarrow> bool" where
  "splits_into info fs \<longleftrightarrow> concat fs = info_addrs info \<and>
     funcs_ok (the (jited_ksyms info)) (the (jited_func_lens info)) fs"

lemma length_ksyms:
  "info_ok info \<Longrightarrow> has_jited info \<Longrightarrow> length (the (jited_ksyms info)) = unat (nr_jited_ksyms info)"
  by (auto simp: info_ok_def has_jited_def)

lemma splits_into_iff:
  assumes "info_ok info" and "has_jited info"
  shows "splits_into info fs \<longleftrightarrow>
     split_table (info_addrs info) (the (jited_ksyms info)) (the (jited_func_lens info)) = Some fs"
proof -
  have "the (jited_ksyms info) \<noteq> []"
    using assms length_ksyms [OF assms] unat_gt_0 [of "nr_jited_ksyms info"] by (auto simp: has_jited_def)
  then show ?thesis by (simp add: splits_into_def split_table_iff)
qed

lemma new_jited_result:
  assumes "info_ok info" and "has_lines info" and "has_jited info"
  shows "bpf_prog_linfo__new (\<lambda>_. True) info =
     (case split_table (info_addrs info) (the (jited_ksyms info)) (the (jited_func_lens info)) of
        None \<Rightarrow> Some (None, [])
      | Some fs \<Rightarrow> Some (Some (jited_linfo info fs), [FuncIdx, NrPerFunc, RawJitedLinfo, RawLinfo, ProgLinfo]))"
  using dissect_fresh [OF assms] new_plain [OF assms(1,2), of "\<lambda>_. True"]
    new_jited_alloc [OF assms(1,3), of "\<lambda>_. True"] assms(3) err_free_fresh
  by (auto split: option.splits)

text \<open>What can come out, whichever allocations fail.\<close>

lemma new_cases:
  assumes "info_ok info"
  obtains (null) "bpf_prog_linfo__new alloc info = Some (None, [])"
    | (plain) "has_lines info"
        "bpf_prog_linfo__new alloc info = Some (Some (plain_linfo info), [RawLinfo, ProgLinfo])"
    | (jited) fs where "has_lines info"
        "bpf_prog_linfo__new alloc info =
           Some (Some (jited_linfo info fs), [FuncIdx, NrPerFunc, RawJitedLinfo, RawLinfo, ProgLinfo])"
proof -
  consider (none) "\<not> has_lines info \<or> \<not> alloc ProgLinfo \<or> \<not> alloc RawLinfo"
    | (plain) "has_lines info" "alloc ProgLinfo" "alloc RawLinfo" "\<not> has_jited info"
    | (fail) "has_lines info" "alloc ProgLinfo" "alloc RawLinfo" "has_jited info"
        "\<not> (alloc RawJitedLinfo \<and> alloc NrPerFunc \<and> alloc FuncIdx)"
    | (full) "has_lines info" "has_jited info" "\<forall>b. alloc b"
    using linfo_block.exhaust by metis
  then show ?thesis
  proof cases
    case none
    then have "bpf_prog_linfo__new alloc info = Some (None, [])"
      by (auto simp: bpf_prog_linfo__new_def has_lines_def err_free_def free_simps Let_def not_le)
    then show ?thesis by (rule null)
  next
    case plain
    then show ?thesis using new_plain [OF assms, of alloc] that(2) by simp
  next
    case fail
    then show ?thesis
      using new_plain [OF assms, of alloc] new_jited_fails [OF assms, of alloc] null by simp
  next
    case full
    then have "alloc = (\<lambda>_. True)" by auto
    then show ?thesis using full new_jited_result [OF assms] that(1,3) by (auto split: option.splits)
  qed
qed

section \<open>Properties\<close>

lemma starts_append: "starts s (fs @ gs) = starts s fs @ starts (s + length (concat fs)) gs"
  by (induction fs arbitrary: s) (auto simp: ac_simps)

lemma length_starts [simp]: "length (starts s fs) = length fs"
  by (induction fs arbitrary: s) auto

lemma starts_nth: "g < length fs \<Longrightarrow> starts s fs ! g = s + length (concat (take g fs))"
proof (induction fs arbitrary: s g)
  case (Cons f fs)
  then show ?case by (cases g) simp_all
qed simp

lemma concat_segment:
  assumes "g < length fs"
  shows "concat fs = concat (take g fs) @ fs ! g @ concat (drop (Suc g) fs)"
  using id_take_nth_drop [OF assms] by (metis concat.simps(2) concat_append)

lemma cell_get_map:
  "g < length xs \<Longrightarrow> g < 2 ^ 32 \<Longrightarrow> cell_get (Some (map cell xs)) (of_nat g) = Some (of_nat (xs ! g))"
  by (simp add: cell_get_def arr_get_def unat_of_nat_eq)

lemma record_offset:
  assumes "i < unat n" and "unat n * unat (r :: u32) < 2 ^ 32"
  shows "unat (of_nat i * r) = i * unat r"
proof -
  have "i * unat r < 2 ^ 32" 
    by (rule le_less_trans [OF mult_le_mono1 [OF less_imp_le [OF assms(1)]] assms(2)])
  then have "unat (of_nat (i * unat r) :: u32) = i * unat r" by (intro unat_of_nat_eq) simp
  then show ?thesis by simp
qed

lemma run_offset: "0 < n \<Longrightarrow> (s + k) * r + n * r - r = (s + (k + n - Suc 0)) * (r :: nat)"
  by (cases n) (simp_all add: algebra_simps)

lemma jited_linfo_simps [simp]:
  "raw_linfo (jited_linfo info fs) = raw_linfo (plain_linfo info)"
  "nr_linfo (jited_linfo info fs) = nr_line_info info" "rec_size (jited_linfo info fs) = line_info_rec_size info"
  "nr_jited_func (jited_linfo info fs) = nr_jited_ksyms info"
  "jited_rec_size (jited_linfo info fs) = jited_line_info_rec_size info"
  "raw_jited_linfo (jited_linfo info fs) =
     Some (take (unat (nr_line_info info) * unat (jited_line_info_rec_size info)) (the (jited_line_info info)))"
  by (simp_all add: jited_linfo_def plain_linfo_def)

lemma lfind_addr_func_nearest:
  assumes "info_ok info" and "has_jited info" and "concat fs = info_addrs info"
    and "length fs = unat (nr_jited_ksyms info)" and "g < length fs" and "sorted (fs ! g)"
  shows "bpf_prog_linfo__lfind_addr_func (jited_linfo info fs) addr (of_nat g) skip =
     Some (map_option (\<lambda>i. (length (concat (take g fs)) + i) * unat (line_info_rec_size info))
             (nearest (fs ! g) (unat skip) addr))"
proof -
  let ?s = "length (concat (take g fs))" and ?n = "length (fs ! g)"
  let ?r = "unat (line_info_rec_size info)" and ?jr = "unat (jited_line_info_rec_size info)"
  let ?m = "take (unat (nr_line_info info) * ?jr) (the (jited_line_info info))"
  have g: "g < 2 ^ 32" "(of_nat g :: u32) < nr_jited_ksyms info"
    using assms(4,5) unat_u32_less [of "nr_jited_ksyms info"]
    by (auto simp: word_less_nat_alt unat_of_nat_eq)
  have seg: "info_addrs info = concat (take g fs) @ fs ! g @ concat (drop (Suc g) fs)"
    using concat_segment [OF assms(5)] assms(3) by simp
  have tot: "?s + ?n \<le> unat (nr_line_info info)"
    using seg length_info_addrs [of info] by simp
  have n32: "?n < 2 ^ 32" "?s < 2 ^ 32"
    using tot unat_u32_less [of "nr_line_info info"] by simp_all
  have get: "cell_get (nr_jited_linfo_per_func (jited_linfo info fs)) (of_nat g) = Some (of_nat ?n)"
    "cell_get (jited_linfo_func_idx (jited_linfo info fs)) (of_nat g) = Some (of_nat ?s)"
    using assms(5) g(1) cell_get_map [of g "map length fs"] cell_get_map [of g "starts 0 fs"]
    by (simp_all add: jited_linfo_def starts_nth)
  have le: "of_nat ?n \<le> skip \<longleftrightarrow> ?n \<le> unat skip"
    using n32 by (simp add: word_le_nat_alt unat_of_nat_eq)
  have cov: "unat (nr_line_info info) * ?r < 2 ^ 32" "unat (nr_line_info info) * ?jr < 2 ^ 32"
    using assms(1,2) by (auto simp: info_ok_def has_jited_def covers_def split: option.splits)
  have tab: "load64 ?m ((?s + i) * ?jr) = Some (fs ! g ! i)" if "i < ?n" for i
    using info_addrs_table [of info] assms(1,2) that
    by (auto simp: info_ok_def has_jited_def table64_def seg nth_append)
  show ?thesis
  proof (cases "?n \<le> unat skip")
    case True
    then show ?thesis
      using g get le
      by (simp add: bpf_prog_linfo__lfind_addr_func_def nearest_def not_le Let_def)
  next
    case False
    let ?k = "unat skip" and ?xs = "drop (unat skip) (fs ! g)"
    have start: "of_nat ?s + skip = of_nat (?s + ?k)" by simp
    have off: "unat ((of_nat ?s + skip) * rec_size (jited_linfo info fs)) = (?s + ?k) * ?r"
      "unat ((of_nat ?s + skip) * jited_rec_size (jited_linfo info fs)) = (?s + ?k) * ?jr"
      unfolding start using record_offset [of "?s + ?k" "nr_line_info info"] cov tot False
      by (simp_all del: of_nat_add)
    have cnt: "unat (of_nat ?n - skip) = length ?xs"
      using False n32 le by (simp add: unat_sub word_le_nat_alt unat_of_nat_eq)
    have read: "load64 ?m ((?s + ?k) * ?jr + i * ?jr) = Some (?xs ! i)" if "i < length ?xs" for i
      using tab [of "?k + i"] that by (simp add: add_mult_distrib add.assoc)
    have "addr_loop ?m ?jr ?r addr (length ?xs) ((?s + ?k) * ?jr) ((?s + ?k) * ?r) =
        Some ((?s + ?k) * ?r + run_length ?xs addr * ?r)"
      by (rule addr_loop_run) (rule read)
    then show ?thesis
      using False g get le off cnt tab [of ?k] nearest_run [OF assms(6), of ?k addr]
        less_run_length_iff [of ?xs 0 addr] sorted_wrt_drop [OF assms(6), of ?k]
      by (simp add: bpf_prog_linfo__lfind_addr_func_def not_le Let_def run_offset)
  qed
qed

lemma lfind_nearest:
  assumes "info_ok info" and "4 \<le> line_info_rec_size info" and "sorted (info_insns info)"
    and "raw_linfo p = raw_linfo (plain_linfo info)" and "nr_linfo p = nr_line_info info"
    and "rec_size p = line_info_rec_size info"
  shows "bpf_prog_linfo__lfind p off skip =
     Some (map_option (\<lambda>i. i * unat (line_info_rec_size info)) (nearest (info_insns info) (unat skip) off))"
proof -
  let ?n = "unat (nr_line_info info)" and ?r = "unat (line_info_rec_size info)" and ?k = "unat skip"
  let ?m = "take (?n * ?r) (the (line_info info))" and ?xs = "drop ?k (info_insns info)"
  have r: "4 \<le> ?r" using assms(2) by (simp add: word_le_nat_alt)
  have cov: "?n * ?r < 2 ^ 32" "?n * ?r \<le> length (the (line_info info))"
    using assms(1) by (auto simp: info_ok_def covers_def split: option.splits)
  have len: "length (info_insns info) = ?n" by (simp add: info_insns_def)
  have tab: "load32 ?m (i * ?r) = Some (info_insns info ! i)" if "i < ?n" for i
    using record_fits [OF order_refl that r] record_fits [OF cov(2) that r] that
    by (simp add: info_insns_def load32_take)
  show ?thesis
  proof (cases "?n \<le> ?k")
    case True
    then show ?thesis using assms(5) len
      by (simp add: bpf_prog_linfo__lfind_def nearest_def word_le_nat_alt)
  next
    case False
    have off: "unat (skip * line_info_rec_size info) = ?k * ?r"
      using record_offset [of ?k "nr_line_info info" "line_info_rec_size info"] cov(1) False by simp
    have lt: "skip < nr_line_info info" using False by (simp add: word_less_nat_alt)
    have cnt: "unat (nr_line_info info - skip) = length ?xs"
      using False len by (simp add: unat_sub word_le_nat_alt)
    have read: "load32 ?m (?k * ?r + i * ?r) = Some (?xs ! i)" if "i < length ?xs" for i
      using tab [of "?k + i"] that len by (simp add: add_mult_distrib add.assoc)
    have "insn_loop ?m ?r off (length ?xs) (?k * ?r) = Some (?k * ?r + run_length ?xs off * ?r)"
      by (rule insn_loop_run) (rule read)
    then show ?thesis
      using False lt off cnt len tab [of ?k] assms(4-) nearest_run [OF assms(3), of ?k off]
        less_run_length_iff [of ?xs 0 off] sorted_wrt_drop [OF assms(3), of ?k]
        run_offset [of "run_length ?xs off" 0 ?k ?r]
      by (simp add: bpf_prog_linfo__lfind_def Let_def plain_linfo_def not_less not_le)
  qed
qed

text \<open>C25. Line information from the kernel whose addresses split into functions is accepted, and
  searching an address in a function whose lines are sorted by address returns the record of the last line
  at or before it, not before the lines to skip; or NULL if there is none. The code accepts lines
  of the last function in any order, see \<open>last_function_unchecked\<close>; for those nothing is claimed.\<close>

theorem linfo_lookup_correct:
  assumes "info_ok info" and "has_lines info" and "has_jited info" and "splits_into info fs"
    and "g < length fs" and "sorted (fs ! g)"
  shows "\<exists>p live. bpf_prog_linfo__new (\<lambda>_. True) info = Some (Some p, live) \<and>
     (\<forall>addr skip. bpf_prog_linfo__lfind_addr_func p addr (of_nat g) skip =
        Some (map_option (\<lambda>i. (length (concat (take g fs)) + i) * unat (line_info_rec_size info))
                (nearest (fs ! g) (unat skip) addr)))"
proof -
  have "concat fs = info_addrs info" "length fs = unat (nr_jited_ksyms info)"
    using assms(4) funcs_ok_length length_ksyms [OF assms(1,3)] by (auto simp: splits_into_def)
  then show ?thesis
    using new_jited_result [OF assms(1-3)] splits_into_iff [OF assms(1,3)] assms(4)
      lfind_addr_func_nearest [OF assms(1,3) _ _ assms(5,6)] by auto
qed

definition sample_info :: "u32 list \<Rightarrow> u64 list \<Rightarrow> u32 list \<Rightarrow> bpf_prog_info" where
  "sample_info addrs ks ls =
     \<lparr>nr_line_info = of_nat (length addrs), line_info = Some (concat (map bytes32 addrs)),
      line_info_rec_size = 4, nr_jited_ksyms = of_nat (length ks), jited_ksyms = Some ks,
      nr_jited_func_lens = of_nat (length ls), jited_func_lens = Some ls,
      nr_jited_line_info = of_nat (length addrs),
      jited_line_info = Some (concat (map (\<lambda>a. bytes32 a @ bytes32 0) addrs)),
      jited_line_info_rec_size = 8\<rparr>"

definition two_funcs :: bpf_prog_info where
  "two_funcs = sample_info [100, 104, 200, 216] [100, 200] [8, 32]"

lemmas sample_simps = sample_info_def info_ok_def covers_def has_lines_def has_jited_def

lemma two_funcs_ok:
  "info_ok two_funcs" "has_lines two_funcs" "has_jited two_funcs"
  by (simp_all add: two_funcs_def sample_simps)

lemma two_funcs_split: "splits_into two_funcs [[100, 104], [200, 216]]"
  by code_simp

theorem linfo_lookup_correct_witness:
  "\<exists>p live. bpf_prog_linfo__new (\<lambda>_. True) two_funcs = Some (Some p, live) \<and>
     bpf_prog_linfo__lfind_addr_func p 210 1 0 = Some (Some 8)"
proof -
  obtain p live where new: "bpf_prog_linfo__new (\<lambda>_. True) two_funcs = Some (Some p, live)"
    and find: "\<forall>addr skip. bpf_prog_linfo__lfind_addr_func p addr (of_nat 1) skip =
      Some (map_option (\<lambda>i. (length (concat (take 1 [[100, 104], [200, 216 :: u64]])) + i) * unat (line_info_rec_size two_funcs))
         (nearest ([[100, 104], [200, 216]] ! 1) (unat skip) addr))"
    using linfo_lookup_correct [OF two_funcs_ok two_funcs_split, of 1] by auto
  have "nearest [200, 216 :: u64] 0 210 = Some 0" by code_simp
  then show ?thesis using new find [THEN spec, THEN spec, of 210 0] by (simp add: two_funcs_def sample_info_def)
qed

text \<open>The library accepts the line information exactly if it splits into functions, and then
  records where each begins and how many lines it has.\<close>

theorem linfo_new_exact:
  assumes "info_ok info" and "has_lines info" and "has_jited info"
  shows "if \<exists>fs. splits_into info fs
     then \<exists>fs p live. splits_into info fs \<and> bpf_prog_linfo__new (\<lambda>_. True) info = Some (Some p, live) \<and>
       jited_linfo_func_idx p = Some (map cell (starts 0 fs)) \<and>
       nr_jited_linfo_per_func p = Some (map cell (map length fs))
     else bpf_prog_linfo__new (\<lambda>_. True) info = Some (None, [])"
  using new_jited_result [OF assms] splits_into_iff [OF assms(1,3)]
  by (cases "split_table (info_addrs info) (the (jited_ksyms info)) (the (jited_func_lens info))")
    (auto simp: jited_linfo_def)

theorem linfo_new_exact_witness:
  "\<exists>p live. bpf_prog_linfo__new (\<lambda>_. True) two_funcs = Some (Some p, live)"
  using linfo_new_exact [OF two_funcs_ok] two_funcs_split by (auto split: if_splits)

text \<open>Whatever allocation fails, the library neither leaks nor frees twice.\<close>

theorem linfo_no_leak:
  assumes "info_ok info"
  shows "\<exists>p live. bpf_prog_linfo__new alloc info = Some (p, live) \<and> bpf_prog_linfo__free p live = Some []"
  using assms
  by (cases rule: new_cases [of info alloc])
    (auto simp: free_simps jited_linfo_def plain_linfo_def)

theorem linfo_no_leak_witness:
  "\<exists>p live. bpf_prog_linfo__new (\<lambda>b. b \<noteq> FuncIdx) two_funcs = Some (p, live) \<and>
     bpf_prog_linfo__free p live = Some []"
  by (rule linfo_no_leak [OF two_funcs_ok(1)])

text \<open>However the tables were built, searching an instruction returns the record of the last line that
  begins at or before it, not before the lines to skip; or NULL if there is none.\<close>

theorem linfo_lfind_correct:
  assumes "info_ok info" and "bpf_prog_linfo__new alloc info = Some (Some p, live)"
    and "sorted (info_insns info)"
  shows "bpf_prog_linfo__lfind p off skip =
     Some (map_option (\<lambda>i. i * unat (line_info_rec_size info)) (nearest (info_insns info) (unat skip) off))"
  using assms(1)
proof (cases rule: new_cases [of info alloc])
  case null
  then show ?thesis using assms(2) by simp
next
  case plain
  then show ?thesis using assms(2) lfind_nearest [OF assms(1) _ assms(3), of p off skip]
    by (auto simp: has_lines_def) (auto simp: plain_linfo_def)
next
  case (jited fs)
  then show ?thesis using assms(2) lfind_nearest [OF assms(1) _ assms(3), of p off skip]
    by (auto simp: has_lines_def)
qed

theorem linfo_lfind_correct_witness:
  "\<exists>p live. bpf_prog_linfo__new (\<lambda>_. True) two_funcs = Some (Some p, live) \<and>
     bpf_prog_linfo__lfind p 150 0 = Some (Some 4)"
proof -
  have new: "\<exists>p live. bpf_prog_linfo__new (\<lambda>_. True) two_funcs = Some (Some p, live)"
    using new_jited_result [OF two_funcs_ok] splits_into_iff [OF two_funcs_ok(1,3)] two_funcs_split by simp
  have insns: "info_insns two_funcs = [100, 104, 200, 216]" by code_simp
  have "nearest [100, 104, 200, 216 :: u32] 0 150 = Some 1" by code_simp
  then show ?thesis
    using new linfo_lfind_correct [OF two_funcs_ok(1), of "\<lambda>_. True" _ _ 150 0] insns
    by (auto simp: two_funcs_def sample_info_def)
qed

text \<open>The lines of the last function are not checked: with a single function, lines in any order
  and outside of the function are accepted.\<close>

theorem last_function_unchecked:
  assumes "info_ok info" and "has_lines info" and "has_jited info"
    and "jited_ksyms info = Some [hd (info_addrs info)]"
  shows "\<exists>p live. bpf_prog_linfo__new (\<lambda>_. True) info = Some (Some p, live) \<and>
     jited_linfo_func_idx p = Some [cell 0] \<and>
     nr_jited_linfo_per_func p = Some [cell (length (info_addrs info))]"
proof -
  have "info_addrs info \<noteq> []"
    using assms(2) length_info_addrs [of info] unat_gt_0 [of "nr_line_info info"] by (auto simp: has_lines_def)
  then have "split_table (info_addrs info) [hd (info_addrs info)] (the (jited_func_lens info)) =
      Some [info_addrs info]"
    using assms(4) by (cases "info_addrs info") (simp_all add: split_table_def)
  then show ?thesis using new_jited_result [OF assms(1-3)] assms(4) by (simp add: jited_linfo_def)
qed

definition unordered_lines :: bpf_prog_info where
  "unordered_lines = sample_info [100, 300, 200] [100] [1]"

theorem last_function_unchecked_witness:
  "\<exists>p live. bpf_prog_linfo__new (\<lambda>_. True) unordered_lines = Some (Some p, live) \<and>
     bpf_prog_linfo__lfind_addr_func p 250 0 0 = Some (Some 0) \<and>
     nearest (info_addrs unordered_lines) 0 250 = Some 2"
proof -
  have ok: "info_ok unordered_lines" "has_lines unordered_lines" "has_jited unordered_lines"
    by (simp_all add: unordered_lines_def sample_simps)
  have addrs: "info_addrs unordered_lines = [100, 300, 200]" by code_simp
  have ks: "jited_ksyms unordered_lines = Some [100]" by (simp add: unordered_lines_def sample_info_def)
  obtain p live where new: "bpf_prog_linfo__new (\<lambda>_. True) unordered_lines = Some (Some p, live)"
    using last_function_unchecked [OF ok] addrs ks by auto
  have "split_table [100, 300, 200] [100] (the (jited_func_lens unordered_lines)) = Some [[100, 300, 200]]"
    by (simp add: split_table_def)
  then have "p = jited_linfo unordered_lines [[100, 300, 200]]"
    using new new_jited_result [OF ok] addrs ks by simp
  moreover have "bpf_prog_linfo__lfind_addr_func (jited_linfo unordered_lines [[100, 300, 200]]) 250 0 0 = Some (Some 0)"
    by code_simp
  moreover have "nearest [100, 300, 200 :: u64] 0 250 = Some 2" by code_simp
  ultimately show ?thesis using new addrs by auto
qed

end
