(* ===== verification/Strerror.thy ===== *)
theory Strerror
  imports CommonParams Netlink
begin

text \<open>
  Descriptions of error codes, \<^verbatim>\<open>libbpf/src/libbpf_errno.c\<close> and
  \<^verbatim>\<open>libbpf/src/str_error.c\<close>. The function \<^verbatim>\<open>strerror_r\<close> of the C library is a parameter: it is
  given the code, the buffer and its size, and yields its result and the buffer. Printing the NULL
  pointer with \<^verbatim>\<open>%s\<close> and negating the smallest \<^verbatim>\<open>int\<close> have no result.
\<close>

section \<open>Definitions\<close>

definition ERRNO_START :: int where "ERRNO_START = 4000"
definition ERRNO_END :: int where "ERRNO_END = 4014"

definition ERRNO_OFFSET :: "int \<Rightarrow> nat" where
  "ERRNO_OFFSET e = nat (e - ERRNO_START)"

text \<open>The initialiser names thirteen of the fourteen codes; the entry of
  \<^verbatim>\<open>LIBBPF_ERRNO__LOAD\<close> stays NULL.\<close>

definition libbpf_strerror_table :: "string option list" where
  "libbpf_strerror_table =
     [Some ''Something wrong in libelf'',
      Some ''BPF object format invalid'',
      Some ([CHR 0x27] @ ''version'' @ [CHR 0x27] @ '' section incorrect or lost''),
      Some ''Endian mismatch'',
      Some ''Internal error in libbpf'',
      Some ''Relocation failed'',
      None,
      Some ''Kernel verifier blocks program loading'',
      Some ''Program too big'',
      Some ''Incorrect kernel version'',
      Some (''Kernel doesn'' @ [CHR 0x27] @ ''t support this program type''),
      Some ''Wrong pid in netlink message'',
      Some ''Invalid netlink sequence'',
      Some ''Incorrect netlink message parsing'']"

text \<open>\<^verbatim>\<open>%d\<close>.\<close>

fun dec_nat :: "nat \<Rightarrow> string" where
  "dec_nat n = (if n < 10 then [char_of (48 + n)] else dec_nat (n div 10) @ [char_of (48 + n mod 10)])"

declare dec_nat.simps [simp del]

definition dec_int :: "int \<Rightarrow> string" where
  "dec_int i = (if i < 0 then ''-'' @ dec_nat (nat (- i)) else dec_nat (nat i))"

text \<open>\<^verbatim>\<open>buf[size - 1] = 0\<close>.\<close>

definition terminate :: "char list \<Rightarrow> nat \<Rightarrow> char list option" where
  "terminate buf n = (if n - 1 < length buf then Some (buf[n - 1 := NUL]) else None)"

type_synonym strerror_r = "int \<Rightarrow> char list \<Rightarrow> nat \<Rightarrow> int \<times> char list"

definition neg_int :: "int \<Rightarrow> int option" where
  "neg_int e = (if e = - 2147483648 then None else Some (- e))"

definition libbpf_strerror ::
  "strerror_r \<Rightarrow> int \<Rightarrow> char list option \<Rightarrow> nat \<Rightarrow> (int \<times> char list option) option" where
  "libbpf_strerror strerror_r err buf n =
     (case buf of
        None \<Rightarrow> Some (- 1, None)
      | Some b \<Rightarrow>
          if n = 0 then Some (- 1, Some b)
          else do {
            err \<leftarrow> (if err > 0 then Some err else neg_int err);
            if err < ERRNO_START then do {
              let (ret, b) = strerror_r err b n;
              b \<leftarrow> terminate b n;
              Some (ret, Some b) }
            else if err < ERRNO_END then do {
              msg \<leftarrow> libbpf_strerror_table ! ERRNO_OFFSET err;
              b \<leftarrow> snprintf_at b 0 (int n) msg;
              b \<leftarrow> terminate b n;
              Some (0, Some b) }
            else do {
              b \<leftarrow> snprintf_at b 0 (int n) (''Unknown libbpf error '' @ dec_int err);
              b \<leftarrow> terminate b n;
              Some (- 1, Some b) } })"

text \<open>\<^verbatim>\<open>str_error.c\<close>; the pointer returned is the buffer.\<close>

definition libbpf_strerror_r :: "strerror_r \<Rightarrow> int \<Rightarrow> char list \<Rightarrow> nat \<Rightarrow> char list option" where
  "libbpf_strerror_r strerror_r err dst len = do {
     e \<leftarrow> (if err < 0 then neg_int err else Some err);
     let (ret, dst) = strerror_r e dst len;
     if ret \<noteq> 0
     then snprintf_at dst 0 (int len)
            (''ERROR: strerror_r('' @ dec_int err @ '')='' @ dec_int ret)
     else Some dst }"

section \<open>Properties\<close>

text \<open>\<^verbatim>\<open>strerror_r\<close> writes within the buffer; if it reports success, a terminated string.\<close>

definition strerror_r_ok :: "strerror_r \<Rightarrow> bool" where
  "strerror_r_ok f \<longleftrightarrow>
     (\<forall>e b n. 0 < n \<longrightarrow> n \<le> length b \<longrightarrow>
        length (snd (f e b n)) = length b \<and> (fst (f e b n) = 0 \<longrightarrow> NUL \<in> set (take n (snd (f e b n)))))"

definition described :: "int \<Rightarrow> string option" where
  "described e =
     (if ERRNO_START \<le> e \<and> e < ERRNO_END then libbpf_strerror_table ! ERRNO_OFFSET e else None)"

lemma snprintf_at_0:
  assumes "0 < n" and "n \<le> length b"
  shows "snprintf_at b 0 (int n) s =
     Some (take (n - 1) s @ NUL # drop (Suc (length (take (n - 1) s))) b)"
  using assms by (auto simp: snprintf_at_def Let_def nat_diff_distrib)


text \<open>Printing a message and terminating the buffer leaves the message, cut to the buffer.\<close>

lemma print_terminate:
  assumes "0 < n" and "n \<le> length b" and "NUL \<notin> set s"
  shows "\<exists>b'. do { b \<leftarrow> snprintf_at b 0 (int n) s; terminate b n } = Some b' \<and>
     length b' = length b \<and> c_string b' = Some (take (n - 1) s)"
proof -
  let ?t = "take (n - 1) s" and ?r = "drop (Suc (length (take (n - 1) s))) b"
  have len: "length ?t \<le> n - 1" by simp
  have "\<exists>r. (?t @ NUL # ?r)[n - 1 := NUL] = ?t @ NUL # r \<and> length r = length ?r"
    using len by (cases "n - 1 - length ?t") (auto simp: list_update_append)
  then obtain r where r: "(?t @ NUL # ?r)[n - 1 := NUL] = ?t @ NUL # r" "length r = length ?r" by blast
  have "NUL \<notin> set ?t" using assms(3) by (meson in_set_takeD)
  then have "c_string (?t @ NUL # r) = Some ?t" by (simp add: c_string_def takeWhile_NUL)
  moreover have "length (?t @ NUL # r) = length b" using assms(1,2) len r(2) by simp
  ultimately show ?thesis
    using assms(1,2) r(1) by (simp add: snprintf_at_0 terminate_def)
qed

lemma table_entry_no_NUL:
  "Some msg \<in> set libbpf_strerror_table \<Longrightarrow> NUL \<notin> set msg"
  unfolding libbpf_strerror_table_def by auto

lemma described_no_NUL:
  assumes "described e = Some msg"
  shows "NUL \<notin> set msg"
proof -
  have "ERRNO_OFFSET e < length libbpf_strerror_table"
    using assms
    by (auto simp: described_def ERRNO_START_def ERRNO_END_def ERRNO_OFFSET_def libbpf_strerror_table_def split: if_splits)
  then have "Some msg \<in> set libbpf_strerror_table"
    using assms by (auto simp: described_def in_set_conv_nth split: if_splits)
  then show ?thesis by (rule table_entry_no_NUL)
qed

text \<open>A code of the library, with either sign, yields its message, cut to the buffer, and 0.\<close>

lemma strerror_message:
  assumes "described (abs err) = Some msg" and "0 < n" and "n \<le> length b"
  shows "\<exists>b'. libbpf_strerror f err (Some b) n = Some (0, Some b') \<and> length b' = length b \<and>
     c_string b' = Some (take (n - 1) msg)"
proof -
  have range: "ERRNO_START \<le> abs err" "abs err < ERRNO_END"
    and entry: "libbpf_strerror_table ! ERRNO_OFFSET (abs err) = Some msg"
    using assms(1) by (auto simp: described_def split: if_splits)
  have "(if err > 0 then Some err else neg_int err) = Some (abs err)"
    using range by (auto simp: neg_int_def ERRNO_START_def ERRNO_END_def)
  then show ?thesis
    using print_terminate [OF assms(2,3) described_no_NUL [OF assms(1)]] assms(2) range entry
    by (auto simp: libbpf_strerror_def bind_eq_Some_conv)
qed

text \<open>The codes of the netlink client have messages.\<close>

lemma netlink_codes_described:
  "described LIBBPF_ERRNO__INTERNAL = Some ''Internal error in libbpf''"
  "described LIBBPF_ERRNO__WRNGPID = Some ''Wrong pid in netlink message''"
  "described LIBBPF_ERRNO__INVSEQ = Some ''Invalid netlink sequence''"
  "described LIBBPF_ERRNO__NLPARSE = Some ''Incorrect netlink message parsing''"
  by code_simp+

lemma described_None:
  assumes "ERRNO_START \<le> e" and "e < ERRNO_END"
  shows "described e = None \<longleftrightarrow> e = 4006"
proof -
  have "e \<in> set [4000..4013]"
    using assms unfolding ERRNO_START_def ERRNO_END_def set_upto by simp
  moreover have "\<forall>e \<in> set [4000..4013]. described e = None \<longleftrightarrow> e = 4006" by code_simp
  ultimately show ?thesis by (rule bspec [rotated])
qed

lemma terminate_Some:
  assumes "0 < n" and "n \<le> length b"
  shows "\<exists>b'. terminate b n = Some b' \<and> length b' = length b \<and> NUL \<in> set (take n b')"
proof -
  let ?b = "b[n - 1 := NUL]"
  have "take n ?b ! (n - 1) = NUL" "n - 1 < length (take n ?b)" using assms by simp_all
  then have "NUL \<in> set (take n ?b)" by (metis nth_mem)
  then show ?thesis using assms by (simp add: terminate_def)
qed

lemma snprintf_at_Some: "0 < n \<Longrightarrow> n \<le> length b \<Longrightarrow> \<exists>b'. snprintf_at b 0 (int n) s = Some b' \<and> length b' = length b"
  using snprintf_at_0 [of n b s] snprintf_at_len by fastforce

lemma dec_int_no_NUL: "NUL \<notin> set (dec_int i)"
proof -
  have digit: "char_of (48 + d) \<noteq> NUL" if "d < 10" for d :: nat
  proof
    assume "char_of (48 + d) = NUL"
    then have "of_char (char_of (48 + d) :: char) = (0 :: nat)" by simp
    then show False using that by (simp add: of_char_of)
  qed
  have "NUL \<notin> set (dec_nat n)" for n
  proof (induction n rule: dec_nat.induct)
    case (1 n)
    show ?case
    proof (cases "n < 10")
      case True
      then show ?thesis using digit [of n] by (subst dec_nat.simps) auto
    next
      case False
      then show ?thesis using 1 [OF False] digit [of "n mod 10"] by (subst dec_nat.simps) auto
    qed
  qed
  then show ?thesis by (simp add: dec_int_def)
qed

lemma strerror_unknown:
  assumes "ERRNO_END \<le> abs err" and "- 2147483648 < err" and "0 < n" and "n \<le> length b"
  shows "\<exists>b'. libbpf_strerror f err (Some b) n = Some (- 1, Some b') \<and> length b' = length b \<and>
     c_string b' = Some (take (n - 1) (''Unknown libbpf error '' @ dec_int (abs err)))"
proof -
  have e: "(if err > 0 then Some err else neg_int err) = Some (abs err)"
    using assms(2) by (auto simp: neg_int_def)
  have "NUL \<notin> set (''Unknown libbpf error '' @ dec_int (abs err))"
    using dec_int_no_NUL by simp
  from print_terminate [OF assms(3,4) this] e assms(1,3) show ?thesis
    by (auto simp: libbpf_strerror_def bind_eq_Some_conv ERRNO_START_def ERRNO_END_def)
qed

text \<open>C34. What a call with a buffer leaves behind, for every code. A code below the range of the library
  gets the text and result of the C library, with the last byte of the buffer cleared. A code of the
  library, of either sign, gives 0 and the message of the table, cut to the buffer, except for
  \<^verbatim>\<open>LIBBPF_ERRNO__LOAD\<close> (4006), which has no entry, so that a NULL pointer is printed. A code above the
  range gives -1 and the text that it is unknown. The smallest \<^verbatim>\<open>int\<close> cannot be negated.\<close>

theorem strerror_correct:
  assumes "strerror_r_ok f" and "0 < n" and "n \<le> length b" and "- 2147483648 \<le> err"
  shows "(if abs err = 4006 \<or> err = - 2147483648 then libbpf_strerror f err (Some b) n = None
     else if abs err < 4000
     then libbpf_strerror f err (Some b) n = Some (fst (f (abs err) b n), Some ((snd (f (abs err) b n))[n - 1 := NUL]))
     else \<exists>ret b' msg. libbpf_strerror f err (Some b) n = Some (ret, Some b') \<and> length b' = length b
        \<and> c_string b' = Some (take (n - 1) msg)
        \<and> (if abs err < 4014 then ret = 0 \<and> libbpf_strerror_table ! nat (abs err - 4000) = Some msg
           else ret = - 1 \<and> msg = ''Unknown libbpf error '' @ dec_int (abs err)))"
proof (cases "err = - 2147483648")
  case True
  then show ?thesis using assms(2) by (simp add: libbpf_strerror_def neg_int_def)
next
  case False
  then have e: "(if err > 0 then Some err else neg_int err) = Some (abs err)"
    by (auto simp: neg_int_def)
  consider "abs err < 4000" | "4000 \<le> abs err" "abs err < 4014" | "4014 \<le> abs err" by linarith
  then show ?thesis
  proof cases
    case 1
    have "length (snd (f (abs err) b n)) = length b" using assms(1-3) by (simp add: strerror_r_ok_def)
    then show ?thesis
      using 1 e assms(2,3) False by (auto simp: libbpf_strerror_def ERRNO_START_def terminate_def split: prod.split)
  next
    case 2
    then have d: "described (abs err) = libbpf_strerror_table ! nat (abs err - 4000)"
      by (simp add: described_def ERRNO_START_def ERRNO_END_def ERRNO_OFFSET_def)
    show ?thesis
    proof (cases "described (abs err)")
      case None
      then have "abs err = 4006" using described_None [of "abs err"] 2 by (simp add: ERRNO_START_def ERRNO_END_def)
      then show ?thesis
        using None d e assms(2) by (simp add: libbpf_strerror_def ERRNO_START_def ERRNO_END_def ERRNO_OFFSET_def)
    next
      case (Some msg)
      then have "abs err \<noteq> 4006" using described_None [of "abs err"] 2 by (auto simp: ERRNO_START_def ERRNO_END_def)
      then show ?thesis using strerror_message [OF Some assms(2,3), of f] Some d 2 False by auto
    qed
  next
    case 3
    then show ?thesis
      using strerror_unknown [of err n b f] assms(2-4) False by (auto simp: ERRNO_END_def)
  qed
qed

text \<open>A C library that always fails.\<close>

lemma strerror_r_ok_fail: "strerror_r_ok (\<lambda>e b n. (22, b))"
  by (simp add: strerror_r_ok_def)

theorem strerror_correct_witness:
  "libbpf_strerror (\<lambda>e b n. (22, b)) (- 4006) (Some (replicate 10 (CHR ''x''))) 10 = None \<and>
   libbpf_strerror (\<lambda>e b n. (22, b)) 5 (Some ''abc'') 3 = Some (22, Some (''ab'' @ [NUL])) \<and>
   (\<exists>b'. libbpf_strerror (\<lambda>e b n. (22, b)) (- 4011) (Some (replicate 10 (CHR ''x''))) 10 = Some (0, Some b') \<and>
      c_string b' = Some ''Wrong pid'') \<and>
   (\<exists>b'. libbpf_strerror (\<lambda>e b n. (22, b)) 5000 (Some (replicate 8 (CHR ''x''))) 8 = Some (- 1, Some b') \<and>
      c_string b' = Some ''Unknown'')"
  using strerror_correct [OF strerror_r_ok_fail, of 10 "replicate 10 (CHR ''x'')" "- 4006"]
    strerror_correct [OF strerror_r_ok_fail, of 3 "''abc''" 5]
    strerror_correct [OF strerror_r_ok_fail, of 10 "replicate 10 (CHR ''x'')" "- 4011"]
    strerror_correct [OF strerror_r_ok_fail, of 8 "replicate 8 (CHR ''x'')" 5000]
  by (auto simp: libbpf_strerror_table_def)

text \<open>The wrapper always leaves a terminated string, its own message if \<^verbatim>\<open>strerror_r\<close> fails.\<close>

theorem strerror_r_terminated:
  assumes "strerror_r_ok f" and "0 < n" and "n \<le> length b" and "- 2147483648 < err"
  shows "\<exists>b'. libbpf_strerror_r f err b n = Some b' \<and> length b' = length b \<and> NUL \<in> set b'"
proof -
  obtain ret c where c: "f (abs err) b n = (ret, c)" by (cases "f (abs err) b n")
  with assms(1-3) have len: "length c = length b" and zero: "ret = 0 \<Longrightarrow> NUL \<in> set c"
    unfolding strerror_r_ok_def by (metis snd_conv, metis fst_conv snd_conv in_set_takeD)
  have "(if err < 0 then neg_int err else Some err) = Some (abs err)"
    using assms(4) by (auto simp: neg_int_def)
  moreover have "\<exists>b'. snprintf_at c 0 (int n) s = Some b' \<and> length b' = length c \<and> NUL \<in> set b'" for s
    using snprintf_at_0 [of n c s] snprintf_at_Some [of n c s] assms(2,3) len by auto
  ultimately show ?thesis using c len zero by (auto simp: libbpf_strerror_r_def)
qed

theorem strerror_r_terminated_witness:
  "\<exists>b'. libbpf_strerror_r (\<lambda>e b n. (22, b)) (- 5) (replicate 30 (CHR ''x'')) 30 = Some b' \<and>
     length b' = 30 \<and> NUL \<in> set b'"
  using strerror_r_terminated [OF strerror_r_ok_fail, of 30 "replicate 30 (CHR ''x'')" "- 5"] by simp

end
