(* ===== verification/Btf.thy ===== *)
theory Btf
  imports Prelude
begin

text \<open>
  BTF type information, the first part of \<^verbatim>\<open>libbpf/src/btf.c\<close> with the accessors of
  \<^verbatim>\<open>btf.h\<close>: parsing of the binary format, lookup of types and names, and the size of a type.

  \<^verbatim>\<open>struct btf\<close> owns a copy of the data; a pointer into it is an offset, and reading outside of it
  has no result. The header has 24 bytes, so \<^verbatim>\<open>nohdr_data\<close> is the offset 24. The table of
  types is the list of its cells; a cell that \<^verbatim>\<open>realloc\<close> added and nothing was written to is
  \<^term>\<open>None\<close>. Which allocations succeed is an argument.
\<close>

section \<open>Definitions\<close>

subsection \<open>The object\<close>

text \<open>A \<^verbatim>\<open>struct btf_type *\<close>: the address of \<^verbatim>\<open>btf_void\<close> or a place in the data.\<close>

datatype type_ptr = BtfVoid | TypeAt ptr

record btf =
  btf_data :: bytes
  types :: "type_ptr option list"
  strings :: ptr
  nr_types :: u32
  types_size :: u32
  data_size :: u32
  btf_fd :: int

definition BTF_MAX_NR_TYPES :: u32 where "BTF_MAX_NR_TYPES = 0x7fffffff"
definition BTF_MAX_STR_OFFSET :: u32 where "BTF_MAX_STR_OFFSET = 0x7fffffff"

text \<open>Fields of \<^verbatim>\<open>struct btf_header\<close>.\<close>

definition hdr_type_off :: "btf \<Rightarrow> u32 option" where "hdr_type_off b = load32 (btf_data b) 8"
definition hdr_str_off :: "btf \<Rightarrow> u32 option" where "hdr_str_off b = load32 (btf_data b) 16"
definition hdr_str_len :: "btf \<Rightarrow> u32 option" where "hdr_str_len b = load32 (btf_data b) 20"

definition nohdr_data :: ptr where "nohdr_data = 24"

subsection \<open>Types\<close>

definition BTF_INFO_KIND :: "u32 \<Rightarrow> nat" where
  "BTF_INFO_KIND info = unat (drop_bit 24 info AND 0x0f)"

definition BTF_INFO_VLEN :: "u32 \<Rightarrow> nat" where
  "BTF_INFO_VLEN info = unat (info AND 0xffff)"

text \<open>The words of a type; \<^verbatim>\<open>btf_void\<close> is zero.\<close>

definition type_word :: "btf \<Rightarrow> type_ptr \<Rightarrow> nat \<Rightarrow> u32 option" where
  "type_word b t k =
     (case t of BtfVoid \<Rightarrow> if k < 12 then Some 0 else None | TypeAt p \<Rightarrow> load32 (btf_data b) (p + k))"

definition type_name_off :: "btf \<Rightarrow> type_ptr \<Rightarrow> u32 option" where
  "type_name_off b t = type_word b t 0"

definition type_info :: "btf \<Rightarrow> type_ptr \<Rightarrow> u32 option" where
  "type_info b t = type_word b t 4"

text \<open>The union of \<^verbatim>\<open>size\<close> and \<^verbatim>\<open>type\<close>.\<close>

definition size_or_type :: "btf \<Rightarrow> type_ptr \<Rightarrow> u32 option" where
  "size_or_type b t = type_word b t 8"

definition btf_kind :: "btf \<Rightarrow> type_ptr \<Rightarrow> nat option" where
  "btf_kind b t = map_option BTF_INFO_KIND (type_info b t)"

definition btf_vlen :: "btf \<Rightarrow> type_ptr \<Rightarrow> nat option" where
  "btf_vlen b t = map_option BTF_INFO_VLEN (type_info b t)"

abbreviation (input) "BTF_KIND_INT \<equiv> 1 :: nat"
abbreviation (input) "BTF_KIND_PTR \<equiv> 2 :: nat"
abbreviation (input) "BTF_KIND_ARRAY \<equiv> 3 :: nat"
abbreviation (input) "BTF_KIND_STRUCT \<equiv> 4 :: nat"
abbreviation (input) "BTF_KIND_UNION \<equiv> 5 :: nat"
abbreviation (input) "BTF_KIND_ENUM \<equiv> 6 :: nat"
abbreviation (input) "BTF_KIND_FWD \<equiv> 7 :: nat"
abbreviation (input) "BTF_KIND_TYPEDEF \<equiv> 8 :: nat"
abbreviation (input) "BTF_KIND_VOLATILE \<equiv> 9 :: nat"
abbreviation (input) "BTF_KIND_CONST \<equiv> 10 :: nat"
abbreviation (input) "BTF_KIND_RESTRICT \<equiv> 11 :: nat"
abbreviation (input) "BTF_KIND_FUNC \<equiv> 12 :: nat"
abbreviation (input) "BTF_KIND_FUNC_PROTO \<equiv> 13 :: nat"
abbreviation (input) "BTF_KIND_VAR \<equiv> 14 :: nat"
abbreviation (input) "BTF_KIND_DATASEC \<equiv> 15 :: nat"

text \<open>The bytes a type takes, by its kind and its number of members.\<close>

definition kind_size :: "nat \<Rightarrow> nat \<Rightarrow> int" where
  "kind_size kind vlen =
     (if kind \<in> {BTF_KIND_FWD, BTF_KIND_CONST, BTF_KIND_VOLATILE, BTF_KIND_RESTRICT, BTF_KIND_PTR,
                  BTF_KIND_TYPEDEF, BTF_KIND_FUNC} then 12
      else if kind = BTF_KIND_INT then 12 + 4
      else if kind = BTF_KIND_ENUM then 12 + int vlen * 8
      else if kind = BTF_KIND_ARRAY then 12 + 12
      else if kind = BTF_KIND_STRUCT \<or> kind = BTF_KIND_UNION then 12 + int vlen * 12
      else if kind = BTF_KIND_FUNC_PROTO then 12 + int vlen * 8
      else if kind = BTF_KIND_VAR then 12 + 4
      else if kind = BTF_KIND_DATASEC then 12 + int vlen * 12
      else - 22)"

definition btf_type_size :: "btf \<Rightarrow> type_ptr \<Rightarrow> int option" where
  "btf_type_size b t = do {
     vlen \<leftarrow> btf_vlen b t;
     kind \<leftarrow> btf_kind b t;
     Some (kind_size kind vlen) }"

subsection \<open>Parsing\<close>

definition write_cell :: "'a option list \<Rightarrow> nat \<Rightarrow> 'a \<Rightarrow> 'a option list option" where
  "write_cell xs i v = (if i < length xs then Some (xs[i := Some v]) else None)"

definition grow_types :: "btf \<Rightarrow> u32" where
  "grow_types b =
     (let expand_by = max (drop_bit 2 (types_size b)) 16
      in min BTF_MAX_NR_TYPES (types_size b + expand_by))"

definition btf_add_type :: "(u32 \<Rightarrow> bool) \<Rightarrow> btf \<Rightarrow> type_ptr \<Rightarrow> (int \<times> btf) option" where
  "btf_add_type alloc b t = do {
     (err, b) \<leftarrow>
       (if types_size b - nr_types b < 2 then
          if types_size b = BTF_MAX_NR_TYPES then Some (- 7, b)
          else let new_size = grow_types b in
            if \<not> alloc new_size then Some (- 12, b)
            else do {
              let cells = take (unat new_size) (types b @ replicate (unat new_size - length (types b)) None);
              cells \<leftarrow> (if nr_types b = 0 then write_cell cells 0 BtfVoid else Some cells);
              Some (0, b\<lparr>types := cells, types_size := new_size\<rparr>) }
        else Some (0, b));
     if err \<noteq> 0 then Some (err, b)
     else do {
       let n = nr_types b + 1;
       cells \<leftarrow> write_cell (types b) (unat n) t;
       Some (0, b\<lparr>types := cells, nr_types := n\<rparr>) } }"

definition btf_parse_hdr :: "btf \<Rightarrow> int option" where
  "btf_parse_hdr b =
     (if data_size b < 24 then Some (- 22)
      else do {
        magic \<leftarrow> load16 (btf_data b) 0;
        if magic \<noteq> 0xeB9F then Some (- 22)
        else do {
          version \<leftarrow> load8 (btf_data b) 2;
          if version \<noteq> 1 then Some (- 95)
          else do {
            flags \<leftarrow> load8 (btf_data b) 3;
            if flags \<noteq> 0 then Some (- 95)
            else do {
              let meta_left = data_size b - 24;
              if meta_left = 0 then Some (- 22)
              else do {
                type_off \<leftarrow> hdr_type_off b;
                if meta_left < type_off then Some (- 22)
                else do {
                  str_off \<leftarrow> hdr_str_off b;
                  if meta_left < str_off then Some (- 22)
                  else if type_off \<ge> str_off then Some (- 22)
                  else if type_off AND 2 \<noteq> 0 then Some (- 22)
                  else Some 0 } } } } } })"

definition btf_parse_str_sec :: "btf \<Rightarrow> (int \<times> btf) option" where
  "btf_parse_str_sec b = do {
     str_off \<leftarrow> hdr_str_off b;
     str_len \<leftarrow> hdr_str_len b;
     let start = nohdr_data + unat str_off;
     let end = start + unat str_len;
     if str_len = 0 \<or> str_len - 1 > BTF_MAX_STR_OFFSET then Some (- 22, b)
     else do {
       first \<leftarrow> load8 (btf_data b) start;
       if first \<noteq> 0 then Some (- 22, b)
       else do {
         last \<leftarrow> load8 (btf_data b) (end - 1);
         if last \<noteq> 0 then Some (- 22, b)
         else Some (0, b\<lparr>strings := start\<rparr>) } } }"

lemma kind_size_ge: "\<not> kind_size kind vlen < 0 \<Longrightarrow> 12 \<le> kind_size kind vlen"
  by (auto simp: kind_size_def split: if_splits)

lemma btf_type_size_ge: "btf_type_size b t = Some sz \<Longrightarrow> \<not> sz < 0 \<Longrightarrow> 12 \<le> sz"
  by (auto simp: btf_type_size_def bind_eq_Some_conv dest: kind_size_ge)

text \<open>The loop of \<^verbatim>\<open>btf_parse_type_sec\<close>.\<close>

function parse_type_loop :: "(u32 \<Rightarrow> bool) \<Rightarrow> btf \<Rightarrow> ptr \<Rightarrow> ptr \<Rightarrow> (int \<times> btf) option" where
  "parse_type_loop alloc b next_type end_type =
     (if next_type < end_type then do {
        type_size \<leftarrow> btf_type_size b (TypeAt next_type);
        if type_size < 0 then Some (type_size, b)
        else do {
          (err, b') \<leftarrow> btf_add_type alloc b (TypeAt next_type);
          if err \<noteq> 0 then Some (err, b')
          else parse_type_loop alloc b' (next_type + nat type_size) end_type } }
      else Some (0, b))"
  by pat_completeness auto
termination
  by (relation "measure (\<lambda>(alloc, b, next, e). e - next)") (auto dest: btf_type_size_ge)

declare parse_type_loop.simps [simp del]

definition btf_parse_type_sec :: "(u32 \<Rightarrow> bool) \<Rightarrow> btf \<Rightarrow> (int \<times> btf) option" where
  "btf_parse_type_sec alloc b = do {
     type_off \<leftarrow> hdr_type_off b;
     str_off \<leftarrow> hdr_str_off b;
     parse_type_loop alloc b (nohdr_data + unat type_off) (nohdr_data + unat str_off) }"

text \<open>What freeing does: the descriptor it closes and the blocks it releases.\<close>

datatype btf_release = CloseFd int | FreeData | FreeTypes | FreeBtf

definition btf__free :: "btf option \<Rightarrow> btf_release list" where
  "btf__free b =
     (case b of
        None \<Rightarrow> []
      | Some b \<Rightarrow> (if btf_fd b \<noteq> - 1 then [CloseFd (btf_fd b)] else []) @ [FreeData, FreeTypes, FreeBtf])"

definition fresh_btf :: "bytes \<Rightarrow> u32 \<Rightarrow> btf" where
  "fresh_btf d n =
     \<lparr>btf_data = d, types = [], strings = 0, nr_types = 0, types_size = 0, data_size = n, btf_fd = - 1\<rparr>"

text \<open>\<^verbatim>\<open>btf__new\<close>: \<open>calloc_ok\<close> and \<open>malloc_ok\<close> are the allocations of the object and of its
  copy of the data. The error comes with what was released.\<close>

definition btf__new ::
  "bool \<Rightarrow> bool \<Rightarrow> (u32 \<Rightarrow> bool) \<Rightarrow> bytes \<Rightarrow> u32 \<Rightarrow> ((int \<times> btf_release list) + btf) option" where
  "btf__new calloc_ok malloc_ok alloc d n =
     (if \<not> calloc_ok then Some (Inl (- 12, []))
      else if \<not> malloc_ok then Some (Inl (- 12, btf__free (Some (fresh_btf [] 0))))
      else do {
        copy \<leftarrow> load_bytes d 0 (unat n);
        let b = fresh_btf copy n;
        err \<leftarrow> btf_parse_hdr b;
        if err \<noteq> 0 then Some (Inl (err, btf__free (Some b)))
        else do {
          (err, b) \<leftarrow> btf_parse_str_sec b;
          if err \<noteq> 0 then Some (Inl (err, btf__free (Some b)))
          else do {
            (err, b) \<leftarrow> btf_parse_type_sec alloc b;
            if err \<noteq> 0 then Some (Inl (err, btf__free (Some b))) else Some (Inr b) } } })"

subsection \<open>Lookup\<close>

definition btf__get_nr_types :: "btf \<Rightarrow> u32" where
  "btf__get_nr_types b = nr_types b"

text \<open>The inner \<^term>\<open>None\<close> is NULL.\<close>

definition btf__type_by_id :: "btf \<Rightarrow> u32 \<Rightarrow> type_ptr option option" where
  "btf__type_by_id b type_id =
     (if type_id > nr_types b then Some None
      else if unat type_id < length (types b)
      then map_option Some (types b ! unat type_id) else None)"

definition btf_type_is_void :: "btf \<Rightarrow> type_ptr \<Rightarrow> bool option" where
  "btf_type_is_void b t =
     (if t = BtfVoid then Some True else map_option (\<lambda>k. k = BTF_KIND_FWD) (btf_kind b t))"

definition btf_type_is_void_or_null :: "btf \<Rightarrow> type_ptr option \<Rightarrow> bool option" where
  "btf_type_is_void_or_null b t = (case t of None \<Rightarrow> Some True | Some t \<Rightarrow> btf_type_is_void b t)"

text \<open>\<^verbatim>\<open>struct btf_array\<close> behind the type.\<close>

definition array_type :: "btf \<Rightarrow> type_ptr \<Rightarrow> u32 option" where
  "array_type b t = type_word b t 12"

definition array_nelems :: "btf \<Rightarrow> type_ptr \<Rightarrow> u32 option" where
  "array_nelems b t = type_word b t 20"

abbreviation (input) UINT32_MAX :: u32 where "UINT32_MAX \<equiv> 0xffffffff"

definition MAX_RESOLVE_DEPTH :: nat where "MAX_RESOLVE_DEPTH = 32"

text \<open>The loop of \<^verbatim>\<open>btf__resolve_size\<close> with the number of rounds that are left. \<^term>\<open>Inl\<close> is a
  return from within the loop, \<^term>\<open>Inr\<close> holds \<^verbatim>\<open>size\<close> and \<^verbatim>\<open>nelems\<close> after it.\<close>

primrec resolve_size_loop :: "btf \<Rightarrow> nat \<Rightarrow> type_ptr option \<Rightarrow> u32 \<Rightarrow> (int + int \<times> u32) option" where
  "resolve_size_loop b 0 t nelems = Some (Inr (- 1, nelems))"
| "resolve_size_loop b (Suc n) t nelems = do {
     void \<leftarrow> btf_type_is_void_or_null b t;
     if void then Some (Inr (- 1, nelems))
     else do {
       t \<leftarrow> t;
       kind \<leftarrow> btf_kind b t;
       if kind \<in> {BTF_KIND_INT, BTF_KIND_STRUCT, BTF_KIND_UNION, BTF_KIND_ENUM, BTF_KIND_DATASEC} then do {
         sz \<leftarrow> size_or_type b t;
         Some (Inr (uint sz, nelems)) }
       else if kind = BTF_KIND_PTR then Some (Inr (8, nelems))
       else if kind \<in> {BTF_KIND_TYPEDEF, BTF_KIND_VOLATILE, BTF_KIND_CONST, BTF_KIND_RESTRICT, BTF_KIND_VAR}
       then do {
         type_id \<leftarrow> size_or_type b t;
         t \<leftarrow> btf__type_by_id b type_id;
         resolve_size_loop b n t nelems }
       else if kind = BTF_KIND_ARRAY then do {
         m \<leftarrow> array_nelems b t;
         if nelems \<noteq> 0 \<and> m > UINT32_MAX div nelems then Some (Inl (- 7))
         else do {
           type_id \<leftarrow> array_type b t;
           t \<leftarrow> btf__type_by_id b type_id;
           resolve_size_loop b n t (nelems * m) } }
       else Some (Inl (- 22)) } }"

definition btf__resolve_size :: "btf \<Rightarrow> u32 \<Rightarrow> int option" where
  "btf__resolve_size b type_id = do {
     t \<leftarrow> btf__type_by_id b type_id;
     r \<leftarrow> resolve_size_loop b MAX_RESOLVE_DEPTH t 1;
     (case r of
        Inl err \<Rightarrow> Some err
      | Inr (sz, nelems) \<Rightarrow>
          if sz < 0 then Some (- 22)
          else if nelems \<noteq> 0 \<and> sz > uint (UINT32_MAX div nelems) then Some (- 7)
          else Some (uint nelems * sz)) }"

definition btf_is_mod :: "btf \<Rightarrow> type_ptr \<Rightarrow> bool option" where
  "btf_is_mod b t =
     map_option (\<lambda>k. k = BTF_KIND_VOLATILE \<or> k = BTF_KIND_CONST \<or> k = BTF_KIND_RESTRICT) (btf_kind b t)"

text \<open>The condition of the loop of \<^verbatim>\<open>btf__resolve_type\<close> after the one on \<^verbatim>\<open>depth\<close>.\<close>

definition resolves_further :: "btf \<Rightarrow> type_ptr option \<Rightarrow> bool option" where
  "resolves_further b t = do {
     void \<leftarrow> btf_type_is_void_or_null b t;
     if void then Some False
     else do {
       t \<leftarrow> t;
       modifier \<leftarrow> btf_is_mod b t;
       kind \<leftarrow> btf_kind b t;
       Some (modifier \<or> kind = BTF_KIND_TYPEDEF \<or> kind = BTF_KIND_VAR) } }"

primrec resolve_type_loop :: "btf \<Rightarrow> nat \<Rightarrow> u32 \<Rightarrow> type_ptr option \<Rightarrow> (nat \<times> u32 \<times> type_ptr option) option" where
  "resolve_type_loop b 0 type_id t = Some (0, type_id, t)"
| "resolve_type_loop b (Suc n) type_id t = do {
     more \<leftarrow> resolves_further b t;
     if \<not> more then Some (Suc n, type_id, t)
     else do {
       t \<leftarrow> t;
       type_id \<leftarrow> size_or_type b t;
       t \<leftarrow> btf__type_by_id b type_id;
       resolve_type_loop b n type_id t } }"

text \<open>The result is an \<^verbatim>\<open>int\<close>.\<close>

definition btf__resolve_type :: "btf \<Rightarrow> u32 \<Rightarrow> int option" where
  "btf__resolve_type b type_id = do {
     t \<leftarrow> btf__type_by_id b type_id;
     (left, type_id, t) \<leftarrow> resolve_type_loop b MAX_RESOLVE_DEPTH type_id t;
     if left = 0 then Some (- 22)
     else do {
       void \<leftarrow> btf_type_is_void_or_null b t;
       if void then Some (- 22) else Some (sint type_id) } }"

subsection \<open>Names\<close>

definition btf__name_by_offset :: "btf \<Rightarrow> u32 \<Rightarrow> ptr option option" where
  "btf__name_by_offset b offset = do {
     str_len \<leftarrow> hdr_str_len b;
     Some (if offset < str_len then Some (strings b + unat offset) else None) }"

text \<open>\<^verbatim>\<open>!strcmp(s, p)\<close> for a string \<open>s\<close> without its NUL and a pointer into the data; the
  comparison reads up to the first difference.\<close>

primrec str_eq :: "bytes \<Rightarrow> u8 list \<Rightarrow> ptr \<Rightarrow> bool option" where
  "str_eq m [] p = do { c \<leftarrow> load8 m p; Some (c = 0) }"
| "str_eq m (s # ss) p = do { c \<leftarrow> load8 m p; if c \<noteq> s then Some False else str_eq m ss (p + 1) }"

definition void_name :: "u8 list" where "void_name = [118, 111, 105, 100]"

primrec find_name_loop :: "btf \<Rightarrow> u8 list \<Rightarrow> nat \<Rightarrow> nat \<Rightarrow> int option" where
  "find_name_loop b type_name i 0 = Some (- 2)"
| "find_name_loop b type_name i (Suc n) = do {
     t \<leftarrow> (if i < length (types b) then types b ! i else None);
     off \<leftarrow> type_name_off b t;
     name \<leftarrow> btf__name_by_offset b off;
     hit \<leftarrow> (case name of None \<Rightarrow> Some False | Some p \<Rightarrow> str_eq (btf_data b) type_name p);
     if hit then Some (int i) else find_name_loop b type_name (Suc i) n }"

definition btf__find_by_name :: "btf \<Rightarrow> u8 list \<Rightarrow> int option" where
  "btf__find_by_name b type_name =
     (if type_name = void_name then Some 0
      else find_name_loop b type_name 1 (unat (nr_types b)))"

subsection \<open>Types of the keys and values of a map\<close>

text \<open>\<^verbatim>\<open>____btf_map_\<close>\<close>

definition container_prefix :: "u8 list" where
  "container_prefix = [95, 95, 95, 95, 98, 116, 102, 95, 109, 97, 112, 95]"

text \<open>\<^verbatim>\<open>snprintf\<close> into the buffer of 256 bytes: the length of the whole text and the part that
  fits.\<close>

definition container_name :: "u8 list \<Rightarrow> nat \<times> u8 list" where
  "container_name map_name =
     (let s = container_prefix @ map_name in (length s, take 255 s))"

text \<open>\<^verbatim>\<open>struct btf_member\<close> number \<open>i\<close>: its type.\<close>

definition member_type :: "btf \<Rightarrow> type_ptr \<Rightarrow> nat \<Rightarrow> u32 option" where
  "member_type b t i = type_word b t (12 + i * 12 + 4)"

text \<open>\<^term>\<open>Inr\<close> holds \<^verbatim>\<open>*key_type_id\<close> and \<^verbatim>\<open>*value_type_id\<close>.\<close>

definition btf__get_map_kv_tids :: "btf \<Rightarrow> u8 list \<Rightarrow> u32 \<Rightarrow> u32 \<Rightarrow> (int + u32 \<times> u32) option" where
  "btf__get_map_kv_tids b map_name expected_key_size expected_value_size = (
     let (len, name) = container_name map_name
     in if len = 256 then Some (Inl (- 22))
     else do {
       container_id \<leftarrow> btf__find_by_name b name;
       if container_id < 0 then Some (Inl container_id)
       else do {
         container_type \<leftarrow> btf__type_by_id b (of_int container_id);
         case container_type of
           None \<Rightarrow> Some (Inl (- 22))
         | Some t \<Rightarrow> do {
             kind \<leftarrow> btf_kind b t;
             vlen \<leftarrow> btf_vlen b t;
             if kind \<noteq> BTF_KIND_STRUCT \<or> vlen < 2 then Some (Inl (- 22))
             else do {
               key \<leftarrow> member_type b t 0;
               key_size \<leftarrow> btf__resolve_size b key;
               if key_size < 0 then Some (Inl key_size)
               else if uint expected_key_size \<noteq> key_size then Some (Inl (- 22))
               else do {
                 value \<leftarrow> member_type b t 1;
                 value_size \<leftarrow> btf__resolve_size b value;
                 if value_size < 0 then Some (Inl value_size)
                 else if uint expected_value_size \<noteq> value_size then Some (Inl (- 22))
                 else Some (Inr (key, value)) } } } } })"

subsection \<open>Loading into the kernel\<close>

text \<open>\<^verbatim>\<open>bpf_load_btf\<close> gives a descriptor, or \<^term>\<open>Inl\<close> of \<^verbatim>\<open>errno\<close>.\<close>

definition btf__load :: "bool \<Rightarrow> (bytes \<Rightarrow> u32 \<Rightarrow> int + int) \<Rightarrow> btf \<Rightarrow> int \<times> btf" where
  "btf__load malloc_ok bpf_load_btf b =
     (if btf_fd b \<ge> 0 then (- 17, b)
      else if \<not> malloc_ok then (- 12, b)
      else case bpf_load_btf (btf_data b) (data_size b) of
             Inl errno \<Rightarrow> (- errno, b\<lparr>btf_fd := - 1\<rparr>)
           | Inr fd \<Rightarrow> (0, b\<lparr>btf_fd := fd\<rparr>))"

definition btf__fd :: "btf \<Rightarrow> int" where "btf__fd b = btf_fd b"

definition btf__get_raw_data :: "btf \<Rightarrow> bytes \<times> u32" where
  "btf__get_raw_data b = (btf_data b, data_size b)"

section \<open>The table of types\<close>

text \<open>The object holds the types \<open>ts\<close>, numbered from 1.\<close>

definition type_table :: "btf \<Rightarrow> type_ptr list \<Rightarrow> bool" where
  "type_table b ts \<longleftrightarrow>
     nr_types b = of_nat (length ts) \<and> types_size b = of_nat (length (types b)) \<and>
     length (types b) \<le> 0x7fffffff \<and>
     (if types b = [] then ts = []
      else length ts < length (types b) \<and>
           take (Suc (length ts)) (types b) = Some BtfVoid # map Some ts)"

definition same_file :: "btf \<Rightarrow> btf \<Rightarrow> bool" where
  "same_file b b' \<longleftrightarrow> btf_data b' = btf_data b \<and> strings b' = strings b \<and>
     data_size b' = data_size b \<and> btf_fd b' = btf_fd b"

lemma unat_of_nat_31: "n \<le> 0x7fffffff \<Longrightarrow> unat (of_nat n :: u32) = n"
  by (rule unat_of_nat_eq) simp

lemma unat_min: "unat (min x y) = min (unat x) (unat (y :: u32))"
  by (simp add: min_def word_le_nat_alt)

lemma grow_types_bounds:
  assumes "types_size b = of_nat n" and "n \<le> 0x7fffffff"
  shows "unat (grow_types b) \<le> 0x7fffffff" and "min 0x7fffffff (n + 16) \<le> unat (grow_types b)"
proof -
  let ?e = "max (drop_bit 2 (types_size b)) 16"
  have d: "unat (drop_bit 2 (types_size b)) = n div 4"
    using assms by (simp add: drop_bit_eq_div unat_div unat_of_nat_31)
  have e: "unat ?e = max (n div 4) 16"
    using d by (simp add: max_def word_le_nat_alt)
  have sum: "unat (types_size b + ?e) = n + max (n div 4) 16"
    using assms e by (simp add: unat_word_ariths unat_of_nat_31)
  have m: "unat BTF_MAX_NR_TYPES = 0x7fffffff" by (simp add: BTF_MAX_NR_TYPES_def)
  have g: "unat (grow_types b) = min 0x7fffffff (n + max (n div 4) 16)"
    unfolding grow_types_def Let_def unat_min sum m ..
  show "unat (grow_types b) \<le> 0x7fffffff" "min 0x7fffffff (n + 16) \<le> unat (grow_types b)"
    unfolding g by simp_all
qed


lemma btf_add_type_table:
  assumes "type_table b ts" and "Suc (length ts) < 0x7fffffff"
  shows "\<exists>b'. btf_add_type (\<lambda>_. True) b t = Some (0, b') \<and> type_table b' (ts @ [t]) \<and> same_file b b'"
proof -
  let ?n = "length ts" and ?l = "length (types b)"
  have nr: "nr_types b = of_nat ?n" "types_size b = of_nat ?l" "?l \<le> 0x7fffffff" "?n \<le> ?l"
    using assms(1) by (auto simp: type_table_def split: if_splits)
  have diff: "types_size b - nr_types b < 2 \<longleftrightarrow> ?l - ?n < 2"
    using nr assms(2) by (simp add: word_less_nat_alt unat_sub word_le_nat_alt unat_of_nat_31)
  have n1: "unat (of_nat ?n + 1 :: u32) = Suc ?n"
    using unat_of_nat_31 [of "Suc ?n"] assms(2) by (simp add: add.commute)
  have add: "\<exists>b'. do {
       let n = nr_types c + 1;
       cells \<leftarrow> write_cell (types c) (unat n) t;
       Some (0 :: int, c\<lparr>types := cells, nr_types := n\<rparr>) } = Some (0, b') \<and>
       type_table b' (ts @ [t]) \<and> same_file b b'"
    if "type_table c ts" "same_file b c" "Suc ?n < length (types c)" for c
  proof -
    have "take (Suc ?n) (types c) = Some BtfVoid # map Some ts" "types c \<noteq> []"
      using that(1,3) by (auto simp: type_table_def split: if_splits)
    moreover have "take (Suc (Suc ?n)) ((types c)[Suc ?n := Some t]) = take (Suc ?n) (types c) @ [Some t]"
      using that(3) by (simp add: take_Suc_conv_app_nth)
    ultimately show ?thesis
      using that n1 by (auto simp: type_table_def same_file_def write_cell_def Let_def add.commute)
  qed
  show ?thesis
  proof (cases "?l - ?n < 2")
    case False
    then show ?thesis using add [of b] assms(1) diff
      by (simp add: btf_add_type_def same_file_def)
  next
    case True
    let ?s = "grow_types b"
    have big: "unat ?s \<le> 0x7fffffff" "Suc ?n < unat ?s" "?l \<le> unat ?s"
      using grow_types_bounds [OF nr(2,3)] assms(2) nr(3,4) by simp_all
    have nmax: "types_size b \<noteq> BTF_MAX_NR_TYPES"
    proof
      assume "types_size b = BTF_MAX_NR_TYPES"
      then have "unat (of_nat ?l :: u32) = 0x7fffffff" using nr(2) by (simp add: BTF_MAX_NR_TYPES_def)
      then show False using unat_of_nat_31 [OF nr(3)] True assms(2) by simp
    qed
    let ?cells = "types b @ replicate (unat ?s - ?l) None"
    have cells: "take (unat ?s) ?cells = ?cells" "length ?cells = unat ?s" using big(3) by simp_all
    let ?cs = "if nr_types b = 0 then ?cells[0 := Some BtfVoid] else ?cells"
    have cs: "(if nr_types b = 0 then write_cell ?cells 0 BtfVoid else Some ?cells) = Some ?cs"
      and lcs: "length ?cs = unat ?s"
      using cells(2) big(2) by (auto simp: write_cell_def)
    have "nr_types b = 0 \<longleftrightarrow> ts = []" using nr(1) unat_of_nat_31 [of ?n] assms(2) by fastforce
    moreover have "take (Suc 0) ((replicate (unat ?s) None)[0 := Some BtfVoid]) = [Some BtfVoid]"
      using big(2) by (cases "unat ?s") simp_all
    ultimately have "take (Suc ?n) ?cs = Some BtfVoid # map Some ts"
      using assms(1) big(2) cells(2)
      by (cases "types b") (auto simp: type_table_def split: if_splits)
    then have tab: "type_table (b\<lparr>types := ?cs, types_size := ?s\<rparr>) ts"
      using nr(1) lcs big by (auto simp: type_table_def)
    show ?thesis
      using add [OF tab] lcs big(2) cs cells True diff nmax
      by (cases "nr_types b = 0") (simp_all add: btf_add_type_def same_file_def Let_def)
  qed
qed


section \<open>Encoding\<close>

text \<open>A type with its three words and the data that follow them.\<close>

datatype btf_desc = BtfDesc (d_name: u32) (d_info: u32) (d_word: u32) (d_extra: bytes)

definition desc_ok :: "btf_desc \<Rightarrow> bool" where
  "desc_ok d \<longleftrightarrow>
     kind_size (BTF_INFO_KIND (d_info d)) (BTF_INFO_VLEN (d_info d)) = 12 + int (length (d_extra d))"

definition enc_desc :: "btf_desc \<Rightarrow> bytes" where
  "enc_desc d = bytes32 (d_name d) @ bytes32 (d_info d) @ bytes32 (d_word d) @ d_extra d"

definition enc_descs :: "btf_desc list \<Rightarrow> bytes" where
  "enc_descs ds = concat (map enc_desc ds)"

lemma enc_descs_simps [simp]:
  "enc_descs [] = []" "enc_descs (d # ds) = enc_desc d @ enc_descs ds"
  by (simp_all add: enc_descs_def)

lemma length_enc_desc: "length (enc_desc d) = 12 + length (d_extra d)"
  by (simp add: enc_desc_def)

primrec type_offs :: "ptr \<Rightarrow> btf_desc list \<Rightarrow> ptr list" where
  "type_offs p [] = []"
| "type_offs p (d # ds) = p # type_offs (p + length (enc_desc d)) ds"

lemma length_type_offs [simp]: "length (type_offs p ds) = length ds"
  by (induction ds arbitrary: p) simp_all

text \<open>The bytes at an address.\<close>

definition at :: "bytes \<Rightarrow> ptr \<Rightarrow> bytes \<Rightarrow> bool" where
  "at m p s \<longleftrightarrow> p + length s \<le> length m \<and> take (length s) (drop p m) = s"

lemma at_append: "length pre = p \<Longrightarrow> at (pre @ s @ post) p s"
  by (simp add: at_def)

lemma at_nth: "at m p s \<Longrightarrow> k < length s \<Longrightarrow> m ! (p + k) = s ! k"
  unfolding at_def by (metis (no_types, lifting) add_leD1 nth_drop nth_take)

lemma load32_at: "at m p s \<Longrightarrow> k + 4 \<le> length s \<Longrightarrow> load32 m (p + k) = load32 s k"
  using at_nth [of m p s k] at_nth [of m p s "k + 1"] at_nth [of m p s "k + 2"] at_nth [of m p s "k + 3"]
  by (auto simp: load32_def at_def add.assoc)

lemma load32_enc_desc:
  "load32 (enc_desc d) 0 = Some (d_name d)" "load32 (enc_desc d) 4 = Some (d_info d)"
  "load32 (enc_desc d) 8 = Some (d_word d)"
  "k + 4 \<le> length (d_extra d) \<Longrightarrow> load32 (enc_desc d) (12 + k) = load32 (d_extra d) k"
proof -
  show "load32 (enc_desc d) 0 = Some (d_name d)" "load32 (enc_desc d) 4 = Some (d_info d)"
    "load32 (enc_desc d) 8 = Some (d_word d)"
    unfolding enc_desc_def
    using load32_le [of "[]" 0] load32_le [of "bytes32 (d_name d)" 4]
      load32_le [of "bytes32 (d_name d) @ bytes32 (d_info d)" 8] by simp_all
  assume "k + 4 \<le> length (d_extra d)"
  moreover have "at (enc_desc d) 12 (d_extra d)"
    using at_append [of "bytes32 (d_name d) @ bytes32 (d_info d) @ bytes32 (d_word d)" 12 "d_extra d" "[]"]
    by (simp add: enc_desc_def)
  ultimately show "load32 (enc_desc d) (12 + k) = load32 (d_extra d) k" by (intro load32_at)
qed

lemma type_word_at:
  assumes "at (btf_data b) p (enc_desc d)"
  shows "type_name_off b (TypeAt p) = Some (d_name d)" "type_info b (TypeAt p) = Some (d_info d)"
    "size_or_type b (TypeAt p) = Some (d_word d)"
    "k + 4 \<le> length (d_extra d) \<Longrightarrow> type_word b (TypeAt p) (12 + k) = load32 (d_extra d) k"
  using load32_at [OF assms, of 0] load32_at [OF assms, of 4] load32_at [OF assms, of 8]
    load32_at [OF assms, of "12 + k"] load32_enc_desc(1-3) [of d] load32_enc_desc(4) [of k d]
  by (simp_all add: type_name_off_def type_info_def size_or_type_def type_word_def length_enc_desc)

lemma parse_type_loop_enc:
  assumes "type_table b ts" and "length ts + length ds + 1 < 0x7fffffff"
    and "btf_data b = pre @ enc_descs ds @ post" and "\<forall>d\<in>set ds. desc_ok d"
  shows "\<exists>b'. parse_type_loop (\<lambda>_. True) b (length pre) (length pre + length (enc_descs ds)) = Some (0, b') \<and>
     type_table b' (ts @ map TypeAt (type_offs (length pre) ds)) \<and> same_file b b'"
  using assms
proof (induction ds arbitrary: b ts pre)
  case Nil
  then show ?case by (simp add: parse_type_loop.simps same_file_def)
next
  case (Cons d ds)
  have d: "at (btf_data b) (length pre) (enc_desc d)"
    using Cons.prems(3) at_append [of pre "length pre" "enc_desc d"] by simp
  have sz: "btf_type_size b (TypeAt (length pre)) = Some (int (length (enc_desc d)))"
    using type_word_at(2) [OF d] Cons.prems(4)
    by (simp add: btf_type_size_def btf_vlen_def btf_kind_def desc_ok_def length_enc_desc)
  obtain b1 where b1: "btf_add_type (\<lambda>_. True) b (TypeAt (length pre)) = Some (0, b1)"
    "type_table b1 (ts @ [TypeAt (length pre)])" "same_file b b1"
    using btf_add_type_table [OF Cons.prems(1)] Cons.prems(2) by fastforce
  obtain b2 where b2: "parse_type_loop (\<lambda>_. True) b1 (length (pre @ enc_desc d))
      (length (pre @ enc_desc d) + length (enc_descs ds)) = Some (0, b2)"
    "type_table b2 ((ts @ [TypeAt (length pre)]) @ map TypeAt (type_offs (length (pre @ enc_desc d)) ds))"
    "same_file b1 b2"
    using Cons.IH [OF b1(2), of "pre @ enc_desc d"] Cons.prems(2-4) b1(3) by (auto simp: same_file_def)
  have "0 < length (enc_desc d)" by (simp add: length_enc_desc)
  then have "parse_type_loop (\<lambda>_. True) b (length pre) (length pre + length (enc_descs (d # ds))) = Some (0, b2)"
    using sz b1(1) b2(1) by (subst parse_type_loop.simps) (simp add: add.assoc)
  then show ?case using b2(2,3) b1(3) by (auto simp: same_file_def)
qed

text \<open>A file of types and strings, as a compiler writes it.\<close>

definition btf_hdr :: "nat \<Rightarrow> nat \<Rightarrow> bytes" where
  "btf_hdr type_len str_len =
     [0x9f, 0xeb, 1, 0] @ bytes32 24 @ bytes32 0 @ bytes32 (of_nat type_len) @
     bytes32 (of_nat type_len) @ bytes32 (of_nat str_len)"

definition btf_file :: "btf_desc list \<Rightarrow> bytes \<Rightarrow> bytes" where
  "btf_file ds strs = btf_hdr (length (enc_descs ds)) (length strs) @ enc_descs ds @ strs"

definition file_ok :: "btf_desc list \<Rightarrow> bytes \<Rightarrow> bool" where
  "file_ok ds strs \<longleftrightarrow>
     ds \<noteq> [] \<and> list_all desc_ok ds \<and> strs \<noteq> [] \<and> hd strs = 0 \<and> last strs = 0 \<and>
     length (btf_file ds strs) < 0x7fffffff"

text \<open>What an object holds: the types, their descriptions in the data, and the strings.\<close>

definition represents :: "btf \<Rightarrow> btf_desc list \<Rightarrow> bytes \<Rightarrow> bool" where
  "represents b ds strs \<longleftrightarrow>
     ds \<noteq> [] \<and> list_all desc_ok ds \<and> length ds < 0x7fffffff \<and>
     (\<exists>ps. length ps = length ds \<and> type_table b (map TypeAt ps) \<and>
        (\<forall>i<length ds. at (btf_data b) (ps ! i) (enc_desc (ds ! i)))) \<and>
     strs \<noteq> [] \<and> last strs = 0 \<and> length strs < 0x7fffffff \<and>
     hdr_str_len b = Some (of_nat (length strs)) \<and> at (btf_data b) (strings b) strs"

lemma length_btf_hdr [simp]: "length (btf_hdr t s) = 24"
  by (simp add: btf_hdr_def)

lemma btf_hdr_fields:
  "load16 (btf_hdr t s @ r) 0 = Some 0xeB9F" "load8 (btf_hdr t s @ r) 2 = Some 1"
  "load8 (btf_hdr t s @ r) 3 = Some 0" "load32 (btf_hdr t s @ r) 8 = Some 0"
  "load32 (btf_hdr t s @ r) 16 = Some (of_nat t)" "load32 (btf_hdr t s @ r) 20 = Some (of_nat s)"
proof -
  show "load16 (btf_hdr t s @ r) 0 = Some 0xeB9F" "load8 (btf_hdr t s @ r) 2 = Some 1"
    "load8 (btf_hdr t s @ r) 3 = Some 0"
    by (simp_all add: btf_hdr_def load16_def load8_def le16_def)
  let ?a = "[0x9f, 0xeb, 1, 0] @ bytes32 24"
  show "load32 (btf_hdr t s @ r) 8 = Some 0" "load32 (btf_hdr t s @ r) 16 = Some (of_nat t)"
    "load32 (btf_hdr t s @ r) 20 = Some (of_nat s)"
    using load32_le [of ?a 8 0] load32_le [of "?a @ bytes32 0 @ bytes32 (of_nat t)" 16 "of_nat t"]
      load32_le [of "?a @ bytes32 0 @ bytes32 (of_nat t) @ bytes32 (of_nat t)" 20 "of_nat s"]
    by (simp_all add: btf_hdr_def)
qed

lemma type_offs_at:
  "i < length ds \<Longrightarrow> at (pre @ enc_descs ds @ post) (type_offs (length pre) ds ! i) (enc_desc (ds ! i))"
proof (induction ds arbitrary: pre i)
  case (Cons d ds)
  then show ?case
    using Cons.IH [of "i - 1" "pre @ enc_desc d"] at_append [of pre "length pre" "enc_desc d"]
    by (cases i) simp_all
qed simp

lemma length_descs_le: "length ds \<le> length (enc_descs ds)"
  by (induction ds) (auto simp: length_enc_desc)

lemma type_table_fresh: "type_table (fresh_btf d n\<lparr>strings := s\<rparr>) []"
  by (simp add: type_table_def fresh_btf_def)

lemma btf_parse_hdr_file:
  assumes "f = btf_hdr t s @ r" and "0 < t" and "t \<le> length r" and "length f < 0x7fffffff"
  shows "btf_parse_hdr (fresh_btf f (of_nat (length f))) = Some 0"
proof -
  have len: "length f = 24 + length r" using assms(1) by simp
  have sz: "unat (of_nat (length f) :: u32) = length f" using assms(4) by (intro unat_of_nat_31) simp
  have meta: "unat (of_nat (length f) - 24 :: u32) = length r"
    using unat_of_nat_31 [of "length r"] assms(4) len by simp
  have ut: "unat (of_nat t :: u32) = t" using assms(3,4) len by (intro unat_of_nat_31) simp
  have "unat (of_nat (length f) - 24 :: u32) \<noteq> 0" unfolding meta using assms(2,3) by linarith
  then have "of_nat (length f) - 24 \<noteq> (0 :: u32)" by (metis unat_0)
  then show ?thesis
    using btf_hdr_fields [of t s r] assms(1-3) ut sz meta len
    by (simp add: btf_parse_hdr_def fresh_btf_def hdr_type_off_def hdr_str_off_def word_less_nat_alt
        word_le_nat_alt unat_gt_0 [symmetric] Let_def)
qed

lemma btf_new_file:
  assumes "file_ok ds strs"
  shows "\<exists>b. btf__new True True (\<lambda>_. True) (btf_file ds strs) (of_nat (length (btf_file ds strs))) =
     Some (Inr b) \<and> represents b ds strs \<and> btf_data b = btf_file ds strs"
proof -
  let ?f = "btf_file ds strs" and ?t = "length (enc_descs ds)" and ?s = "length strs"
  let ?b = "fresh_btf ?f (of_nat (length ?f))"
  have ok: "ds \<noteq> []" "\<forall>d\<in>set ds. desc_ok d" "strs \<noteq> []" "hd strs = 0" "last strs = 0" "length ?f < 0x7fffffff"
    using assms by (auto simp: file_ok_def list_all_iff)
  have len: "length ?f = 24 + ?t + ?s" by (simp add: btf_file_def)
  have t: "0 < ?t" using ok(1) length_descs_le [of ds] by (cases ds) auto
  have s: "0 < ?s" using ok(3) by simp
  have sz: "unat (of_nat (length ?f) :: u32) = length ?f" using ok(6) by (intro unat_of_nat_31) simp
  have fields: "load16 ?f 0 = Some 0xeB9F" "load8 ?f 2 = Some 1" "load8 ?f 3 = Some 0"
    "load32 ?f 8 = Some 0" "load32 ?f 16 = Some (of_nat ?t)" "load32 ?f 20 = Some (of_nat ?s)"
    using btf_hdr_fields [of ?t ?s "enc_descs ds @ strs"] by (simp_all add: btf_file_def)
  have ut: "unat (of_nat ?t :: u32) = ?t" "unat (of_nat ?s :: u32) = ?s"
    using ok(6) len by (simp_all add: unat_of_nat_31)
  have hdr: "btf_parse_hdr ?b = Some 0"
    using btf_parse_hdr_file [of ?f ?t ?s "enc_descs ds @ strs"] t ok(6) by (simp add: btf_file_def)
  have atf: "at ?f (24 + ?t) strs"
    using at_append [of "btf_hdr ?t ?s @ enc_descs ds" "24 + ?t" strs "[]"] by (simp add: btf_file_def)
  have ends: "load8 ?f (24 + ?t) = Some 0" "load8 ?f (24 + ?t + ?s - 1) = Some 0"
    using at_nth [OF atf, of 0] at_nth [OF atf, of "?s - 1"] ok(3-5) s len
    by (simp_all add: load8_def hd_conv_nth last_conv_nth)
  let ?b1 = "?b\<lparr>strings := 24 + ?t\<rparr>"
  have small: "\<not> of_nat ?s - 1 > BTF_MAX_STR_OFFSET" "(of_nat ?s :: u32) \<noteq> 0"
    using unat_of_nat_31 [of "?s - 1"] ut(2) ok(6) len s
    by (auto simp: word_less_nat_alt BTF_MAX_STR_OFFSET_def of_nat_diff)
  have str: "btf_parse_str_sec ?b = Some (0, ?b1)"
    using fields ends ut small
    by (simp add: btf_parse_str_sec_def fresh_btf_def hdr_str_off_def hdr_str_len_def nohdr_data_def Let_def)
  obtain b where b: "parse_type_loop (\<lambda>_. True) ?b1 24 (24 + ?t) = Some (0, b)"
    "type_table b (map TypeAt (type_offs 24 ds))" "same_file ?b1 b"
    using parse_type_loop_enc [of ?b1 "[]" ds "btf_hdr ?t ?s" strs] type_table_fresh [where d = ?f]
      ok(2,6) len length_descs_le [of ds] s
    by (auto simp: btf_file_def fresh_btf_def)
  have "btf_parse_type_sec (\<lambda>_. True) ?b1 = Some (0, b)"
    using fields ut b(1)
    by (simp add: btf_parse_type_sec_def fresh_btf_def hdr_type_off_def hdr_str_off_def nohdr_data_def)
  moreover have "load_bytes ?f 0 (unat (of_nat (length ?f) :: u32)) = Some ?f" unfolding sz by (simp add: load_bytes_def)
  ultimately have "btf__new True True (\<lambda>_. True) ?f (of_nat (length ?f)) = Some (Inr b)"
    using hdr str by (simp add: btf__new_def)
  moreover have "btf_data b = ?f" "strings b = 24 + ?t" using b(3) by (simp_all add: same_file_def fresh_btf_def)
  moreover have "at ?f (type_offs 24 ds ! i) (enc_desc (ds ! i))" if "i < length ds" for i
    using type_offs_at [OF that, of "btf_hdr ?t ?s" strs] by (simp add: btf_file_def)
  then have "represents b ds strs"
    unfolding represents_def
    using ok calculation(2,3) b(2) atf fields(6) len length_descs_le [of ds] s
    by (auto simp: list_all_iff hdr_str_len_def intro!: exI [of _ "type_offs 24 ds"])
  ultimately show ?thesis by blast
qed

section \<open>Sizes\<close>

abbreviation desc_kind :: "btf_desc \<Rightarrow> nat" where
  "desc_kind d \<equiv> BTF_INFO_KIND (d_info d)"

definition desc_of :: "btf_desc list \<Rightarrow> u32 \<Rightarrow> btf_desc option" where
  "desc_of ds type_id =
     (if 0 < unat type_id \<and> unat type_id \<le> length ds then Some (ds ! (unat type_id - 1)) else None)"

text \<open>The size of a type as a number, following at most \<open>n\<close> references.\<close>

primrec c_sizeof :: "btf_desc list \<Rightarrow> nat \<Rightarrow> u32 \<Rightarrow> nat option" where
  "c_sizeof ds 0 type_id = None"
| "c_sizeof ds (Suc n) type_id = do {
     d \<leftarrow> desc_of ds type_id;
     if desc_kind d \<in> {BTF_KIND_INT, BTF_KIND_STRUCT, BTF_KIND_UNION, BTF_KIND_ENUM, BTF_KIND_DATASEC}
     then Some (unat (d_word d))
     else if desc_kind d = BTF_KIND_PTR then Some 8
     else if desc_kind d \<in> {BTF_KIND_TYPEDEF, BTF_KIND_VOLATILE, BTF_KIND_CONST, BTF_KIND_RESTRICT, BTF_KIND_VAR}
     then c_sizeof ds n (d_word d)
     else if desc_kind d = BTF_KIND_ARRAY then do {
       elem \<leftarrow> load32 (d_extra d) 0;
       nelems \<leftarrow> load32 (d_extra d) 8;
       map_option (\<lambda>s. unat nelems * s) (c_sizeof ds n elem) }
     else None }"

lemma type_by_id_represents:
  assumes "represents b ds strs"
  shows "unat tid = 0 \<Longrightarrow> btf__type_by_id b tid = Some (Some BtfVoid)"
    and "length ds < unat tid \<Longrightarrow> btf__type_by_id b tid = Some None"
    and "desc_of ds tid = Some d \<Longrightarrow>
      \<exists>p. btf__type_by_id b tid = Some (Some (TypeAt p)) \<and> at (btf_data b) p (enc_desc d) \<and> desc_ok d"
proof -
  obtain ps where ps: "length ps = length ds" "type_table b (map TypeAt ps)"
    "\<forall>i<length ds. at (btf_data b) (ps ! i) (enc_desc (ds ! i))"
    and ds: "ds \<noteq> []" "list_all desc_ok ds" "length ds < 0x7fffffff"
    using assms by (auto simp: represents_def)
  have nr: "unat (nr_types b) = length ds"
    using ps ds(3) by (auto simp: type_table_def unat_of_nat_31)
  have cells: "length ds < length (types b)"
    "take (Suc (length ds)) (types b) = Some BtfVoid # map (Some \<circ> TypeAt) ps"
    using ps ds(1) by (auto simp: type_table_def split: if_splits)
  have nth: "types b ! i = (Some BtfVoid # map (Some \<circ> TypeAt) ps) ! i" if "i \<le> length ds" for i
    using that cells by (metis le_imp_less_Suc nth_take)
  show "btf__type_by_id b tid = Some (Some BtfVoid)" if "unat tid = 0"
    using that nth [of 0] cells(1) nr by (auto simp: btf__type_by_id_def word_less_nat_alt)
  show "btf__type_by_id b tid = Some None" if "length ds < unat tid"
    using that nr by (simp add: btf__type_by_id_def word_less_nat_alt)
  show "\<exists>p. btf__type_by_id b tid = Some (Some (TypeAt p)) \<and> at (btf_data b) p (enc_desc d) \<and> desc_ok d"
    if "desc_of ds tid = Some d"
  proof -
    have tid: "0 < unat tid" "unat tid \<le> length ds" "d = ds ! (unat tid - 1)"
      using that by (auto simp: desc_of_def split: if_splits)
    then have "types b ! unat tid = Some (TypeAt (ps ! (unat tid - 1)))"
      using nth [of "unat tid"] ps(1) by (cases "unat tid") simp_all
    then show ?thesis
      using tid nr cells(1) ps(3) ds(2) by (auto simp: btf__type_by_id_def word_less_nat_alt list_all_length)
  qed
qed

lemma type_by_id_total:
  assumes "represents b ds strs"
  shows "\<exists>t. btf__type_by_id b tid = Some t"
  using type_by_id_represents [OF assms, of tid]
  by (cases "desc_of ds tid") (auto simp: desc_of_def split: if_splits)

lemma array_extra:
  assumes "desc_ok d" and "desc_kind d = BTF_KIND_ARRAY"
  obtains elem nelems where "load32 (d_extra d) 0 = Some elem" "load32 (d_extra d) 8 = Some nelems"
proof -
  have "length (d_extra d) = 12" using assms by (simp add: desc_ok_def kind_size_def)
  then show ?thesis using that by (cases "load32 (d_extra d) 0"; cases "load32 (d_extra d) 8") auto
qed

lemma kind_at:
  assumes "at (btf_data b) p (enc_desc d)"
  shows "btf_kind b (TypeAt p) = Some (desc_kind d)"
    and "btf_type_is_void_or_null b (Some (TypeAt p)) = Some (desc_kind d = BTF_KIND_FWD)"
  using type_word_at [OF assms]
  by (simp_all add: btf_kind_def btf_type_is_void_or_null_def btf_type_is_void_def)

text \<open>How the loop ends, with the product so far.\<close>

definition resolved :: "nat \<Rightarrow> nat option \<Rightarrow> (int + int \<times> u32) \<Rightarrow> bool" where
  "resolved n sz r \<longleftrightarrow>
     (case r of
        Inl e \<Rightarrow> e = - 22 \<and> sz = None \<or> e = - 7 \<and> (\<forall>k. sz = Some k \<longrightarrow> k = 0 \<or> n * k > 0xffffffff)
      | Inr (s, m) \<Rightarrow> if s < 0 then sz = None else (\<exists>k. sz = Some k \<and> int n * int k = uint m * s))"

lemma resolved_scale:
  assumes "resolved (n * c) sz r"
  shows "resolved n (map_option (\<lambda>s. c * s) sz) r"
proof (cases sz)
  case None
  then show ?thesis using assms by (auto simp: resolved_def split: sum.splits if_splits)
next
  case (Some k)
  have "n * c * k = n * (c * k)" by (rule mult.assoc)
  then show ?thesis
    using assms Some by (cases r) (auto simp: resolved_def mult.assoc)
qed

lemma max_div_less:
  assumes "(m :: u32) \<noteq> 0"
  shows "unat (0xffffffff div m) < j \<longleftrightarrow> 0xffffffff < unat m * j"
proof -
  have "0 < unat m" using assms by (simp add: unat_gt_0)
  moreover have "unat (0xffffffff div m) = 0xffffffff div unat m" by (simp add: unat_div)
  ultimately show ?thesis by (simp add: div_less_iff_less_mult mult.commute)
qed

lemma uint_less_int_iff: "uint (w :: u32) < int j \<longleftrightarrow> unat w < j"
  using of_nat_less_iff [of "unat w" j, where 'a = int] by simp

lemma over_iff: "(m :: u32) \<noteq> 0 \<Longrightarrow> k > 0xffffffff div m \<longleftrightarrow> 0xffffffff < unat m * unat k"
  using max_div_less [of m "unat k"] by (simp add: word_less_nat_alt)

lemma unat_mult_fits: "unat m * unat k < 2 ^ 32 \<Longrightarrow> unat (m * k :: u32) = unat m * unat k"
  by (simp add: unat_word_ariths)

lemma resolved_array:
  assumes "resolved (unat (m * nelems :: u32)) sz r"
  shows "resolved (unat m) (map_option (\<lambda>s. unat nelems * s) sz)
     (if m \<noteq> 0 \<and> nelems > 0xffffffff div m then Inl (- 7) else r)"
proof (cases "m \<noteq> 0 \<and> nelems > 0xffffffff div m")
  case True
  then have big: "0xffffffff < unat m * unat nelems" using over_iff by blast
  have "unat nelems * k = 0 \<or> 0xffffffff < unat m * (unat nelems * k)" for k
    using big by (cases k) (auto intro: less_le_trans simp: mult.assoc [symmetric])
  then show ?thesis using True unfolding resolved_def by (cases sz) simp_all
next
  case False
  then have "unat m * unat nelems \<le> 0xffffffff" using over_iff [of m nelems] by (cases "m = 0") auto
  then have "unat (m * nelems) = unat m * unat nelems" by (intro unat_mult_fits) simp
  then show ?thesis using assms resolved_scale False by auto
qed

lemma resolve_size_loop_sizeof:
  assumes "represents b ds strs" and "btf__type_by_id b tid = Some t"
  shows "\<exists>r. resolve_size_loop b n t m = Some r \<and> resolved (unat m) (c_sizeof ds n tid) r"
  using assms(2)
proof (induction n arbitrary: tid t m)
  case 0
  then show ?case by (simp add: resolved_def)
next
  case (Suc n)
  show ?case
  proof (cases "desc_of ds tid")
    case None
    then have "unat tid = 0 \<or> length ds < unat tid" by (auto simp: desc_of_def split: if_splits)
    then have "t = Some BtfVoid \<or> t = None"
      using type_by_id_represents(1,2) [OF assms(1), of tid] Suc.prems by auto
    then show ?thesis
      using None by (auto simp: btf_type_is_void_or_null_def btf_type_is_void_def resolved_def)
  next
    case (Some d)
    then obtain p where p: "t = Some (TypeAt p)" "at (btf_data b) p (enc_desc d)" "desc_ok d"
      using type_by_id_represents(3) [OF assms(1), of tid d] Suc.prems by auto
    note w = type_word_at [OF p(2)] kind_at [OF p(2)]
    consider (scalar) "desc_kind d \<in> {BTF_KIND_INT, BTF_KIND_STRUCT, BTF_KIND_UNION, BTF_KIND_ENUM, BTF_KIND_DATASEC}"
      | (ptr) "desc_kind d = BTF_KIND_PTR"
      | (ref) "desc_kind d \<in> {BTF_KIND_TYPEDEF, BTF_KIND_VOLATILE, BTF_KIND_CONST, BTF_KIND_RESTRICT, BTF_KIND_VAR}"
      | (array) "desc_kind d = BTF_KIND_ARRAY"
      | (other) "desc_kind d \<notin> {BTF_KIND_INT, BTF_KIND_STRUCT, BTF_KIND_UNION, BTF_KIND_ENUM, BTF_KIND_DATASEC,
          BTF_KIND_PTR, BTF_KIND_TYPEDEF, BTF_KIND_VOLATILE, BTF_KIND_CONST, BTF_KIND_RESTRICT, BTF_KIND_VAR,
          BTF_KIND_ARRAY}"
      by blast
    then show ?thesis
    proof cases
      case scalar
      then have "desc_kind d \<noteq> BTF_KIND_FWD" by auto
      then have "resolve_size_loop b (Suc n) t m = Some (Inr (uint (d_word d), m))"
        "c_sizeof ds (Suc n) tid = Some (unat (d_word d))"
        using scalar w p(1) Some by simp_all
      then show ?thesis by (simp add: resolved_def)
    next
      case ptr
      then show ?thesis using w p(1) Some by (simp add: resolved_def)
    next
      case ref
      obtain t' where "btf__type_by_id b (d_word d) = Some t'"
        using type_by_id_total [OF assms(1)] by blast
      moreover have "desc_kind d \<noteq> BTF_KIND_FWD" "desc_kind d \<noteq> BTF_KIND_PTR"
        "desc_kind d \<notin> {BTF_KIND_INT, BTF_KIND_STRUCT, BTF_KIND_UNION, BTF_KIND_ENUM, BTF_KIND_DATASEC}"
        using ref by auto
      ultimately have "resolve_size_loop b (Suc n) t m = resolve_size_loop b n t' m"
        "c_sizeof ds (Suc n) tid = c_sizeof ds n (d_word d)"
        using ref w p(1) Some by simp_all
      then show ?thesis using Suc.IH [OF \<open>btf__type_by_id b (d_word d) = Some t'\<close>, of m] by simp
    next
      case array
      obtain elem nelems where a: "load32 (d_extra d) 0 = Some elem" "load32 (d_extra d) 8 = Some nelems"
        using array_extra [OF p(3) array] .
      have len: "length (d_extra d) = 12" using p(3) array by (simp add: desc_ok_def kind_size_def)
      obtain t' where t': "btf__type_by_id b elem = Some t'"
        using type_by_id_total [OF assms(1)] by blast
      let ?over = "m \<noteq> 0 \<and> nelems > 0xffffffff div m"
      have loop: "resolve_size_loop b (Suc n) t m =
          (if ?over then Some (Inl (- 7)) else resolve_size_loop b n t' (m * nelems))"
        and sizeof: "c_sizeof ds (Suc n) tid = map_option (\<lambda>s. unat nelems * s) (c_sizeof ds n elem)"
        using array w(1-3,5,6) w(4) [of 0] w(4) [of 8] a t' p(1) Some len
        by (simp_all add: array_nelems_def array_type_def)
      obtain r where "resolve_size_loop b n t' (m * nelems) = Some r"
        "resolved (unat (m * nelems)) (c_sizeof ds n elem) r" using Suc.IH [OF t', of "m * nelems"] by blast
      then have "resolve_size_loop b (Suc n) t m =
          Some (if ?over then Inl (- 7) else r)" using loop by simp
      then show ?thesis using resolved_array \<open>resolved _ _ r\<close> unfolding sizeof by blast
    next
      case other
      then show ?thesis using w p(1) Some by (cases "desc_kind d = BTF_KIND_FWD") (simp_all add: resolved_def)
    qed
  qed
qed


lemma resolve_size_cases:
  assumes "represents b ds strs"
  shows "\<exists>r. btf__resolve_size b tid = Some r \<and>
     (case c_sizeof ds 32 tid of
        None \<Rightarrow> r \<in> {- 22, - 7}
      | Some k \<Rightarrow> if k > 0xffffffff then r = - 7 else if k = 0 then r \<in> {0, - 7} else r = int k)"
proof -
  obtain t where t: "btf__type_by_id b tid = Some t" using type_by_id_total [OF assms] by blast
  obtain r where r: "resolve_size_loop b 32 t 1 = Some r" "resolved 1 (c_sizeof ds 32 tid) r"
    using resolve_size_loop_sizeof [OF assms t, of 32 1] by auto
  show ?thesis
  proof (cases r)
    case (Inl e)
    then show ?thesis using t r
      by (auto simp: btf__resolve_size_def MAX_RESOLVE_DEPTH_def resolved_def split: option.split)
  next
    case (Inr sm)
    obtain s m where sm: "sm = (s, m)" by force
    show ?thesis
    proof (cases "s < 0")
      case True
      then show ?thesis using t r Inr sm
        by (simp add: btf__resolve_size_def MAX_RESOLVE_DEPTH_def resolved_def)
    next
      case False
      then obtain k where k: "c_sizeof ds 32 tid = Some k" "int k = uint m * s"
        using r(2) Inr sm by (auto simp: resolved_def)
      have over: "m \<noteq> 0 \<and> s > uint (0xffffffff div m) \<longleftrightarrow> 0xffffffff < k"
      proof (cases "m = 0")
        case True
        then show ?thesis using k(2) by simp
      next
        case m: False
        obtain j where j: "s = int j" using False by (metis not_less zero_le_imp_eq_int)
        have "uint (0xffffffff div m) < s \<longleftrightarrow> unat (0xffffffff div m) < j"
          unfolding j by (rule uint_less_int_iff)
        moreover have "k = unat m * j"
          using k(2) of_nat_eq_iff [of k "unat m * j", where 'a = int] by (simp add: j)
        ultimately show ?thesis using m max_div_less [OF m, of j] by blast
      qed
      then have "btf__resolve_size b tid = Some (if k > 0xffffffff then - 7 else int k)"
        using t r(1) Inr sm False k(2) by (simp add: btf__resolve_size_def MAX_RESOLVE_DEPTH_def)
      then show ?thesis using k(1) by simp
    qed
  qed
qed


lemma resolve_size_eq:
  "represents b ds strs \<Longrightarrow> c_sizeof ds 32 tid = Some k \<Longrightarrow> 0 < k \<Longrightarrow> k \<le> 0xffffffff \<Longrightarrow>
   btf__resolve_size b tid = Some (int k)"
  using resolve_size_cases [of b ds strs tid] by auto

section \<open>References and names\<close>

definition is_ref :: "btf_desc \<Rightarrow> bool" where
  "is_ref d \<longleftrightarrow>
     desc_kind d \<in> {BTF_KIND_TYPEDEF, BTF_KIND_VOLATILE, BTF_KIND_CONST, BTF_KIND_RESTRICT, BTF_KIND_VAR}"

text \<open>The type behind typedefs, modifiers and variables, within \<open>n\<close> steps.\<close>

primrec strip_refs :: "btf_desc list \<Rightarrow> nat \<Rightarrow> u32 \<Rightarrow> u32 option" where
  "strip_refs ds 0 tid = None"
| "strip_refs ds (Suc n) tid = do {
     d \<leftarrow> desc_of ds tid;
     if desc_kind d = BTF_KIND_FWD then None
     else if is_ref d then strip_refs ds n (d_word d) else Some tid }"

lemma resolves_further_at:
  assumes "at (btf_data b) p (enc_desc d)"
  shows "resolves_further b (Some (TypeAt p)) = Some (is_ref d)"
  using kind_at [OF assms] by (auto simp: resolves_further_def btf_is_mod_def is_ref_def)

lemma resolve_type_loop_strip:
  assumes "represents b ds strs" and "btf__type_by_id b tid = Some t"
  shows "\<exists>left tid' t'. resolve_type_loop b n tid t = Some (left, tid', t') \<and>
     (case strip_refs ds n tid of
        None \<Rightarrow> left = 0 \<or> btf_type_is_void_or_null b t' = Some True
      | Some x \<Rightarrow> left \<noteq> 0 \<and> tid' = x \<and> unat x \<le> length ds \<and> btf_type_is_void_or_null b t' = Some False)"
  using assms(2)
proof (induction n arbitrary: tid t)
  case 0
  then show ?case by simp
next
  case (Suc n)
  show ?case
  proof (cases "desc_of ds tid")
    case None
    then have "t = Some BtfVoid \<or> t = None"
      using type_by_id_represents(1,2) [OF assms(1), of tid] Suc.prems by (auto simp: desc_of_def split: if_splits)
    then have "btf_type_is_void_or_null b t = Some True"
      by (auto simp: btf_type_is_void_or_null_def btf_type_is_void_def)
    then show ?thesis using None by (simp add: resolves_further_def)
  next
    case (Some d)
    then obtain p where p: "t = Some (TypeAt p)" "at (btf_data b) p (enc_desc d)"
      using type_by_id_represents(3) [OF assms(1), of tid d] Suc.prems by auto
    note w = type_word_at(3) [OF p(2)] kind_at(2) [OF p(2)] resolves_further_at [OF p(2)]
    have le: "unat tid \<le> length ds" using Some by (auto simp: desc_of_def split: if_splits)
    show ?thesis
    proof (cases "is_ref d")
      case True
      then have "desc_kind d \<noteq> BTF_KIND_FWD" by (auto simp: is_ref_def)
      moreover obtain t' where "btf__type_by_id b (d_word d) = Some t'"
        using type_by_id_total [OF assms(1)] by blast
      ultimately show ?thesis using True w p(1) Some Suc.IH [of "d_word d" t'] by simp
    next
      case False
      then show ?thesis using w p(1) Some le by simp
    qed
  qed
qed

lemma sint_small:
  assumes "unat (x :: u32) < 0x7fffffff"
  shows "sint x = int (unat x)"
proof -
  have "- 2147483648 \<le> uint x" by (rule order_trans [of _ 0]) simp_all
  moreover have "uint x < 2147483648" using uint_less_int_iff [of x 2147483648] assms by simp
  ultimately have "uint x \<in> {- 2147483648..<2147483648}" by simp
  from sint_of_int_range [OF this] show ?thesis by simp
qed

text \<open>Resolving a type follows its typedefs, modifiers and variables to the end, or fails.\<close>

lemma resolve_type_eq:
  assumes "represents b ds strs"
  shows "btf__resolve_type b tid =
     Some (case strip_refs ds 32 tid of None \<Rightarrow> - 22 | Some x \<Rightarrow> int (unat x))"
proof -
  obtain t where t: "btf__type_by_id b tid = Some t" using type_by_id_total [OF assms] by blast
  obtain left tid' t' where r: "resolve_type_loop b 32 tid t = Some (left, tid', t')"
    "case strip_refs ds 32 tid of
        None \<Rightarrow> left = 0 \<or> btf_type_is_void_or_null b t' = Some True
      | Some x \<Rightarrow> left \<noteq> 0 \<and> tid' = x \<and> unat x \<le> length ds \<and> btf_type_is_void_or_null b t' = Some False"
    using resolve_type_loop_strip [OF assms t, of 32] by blast
  have small: "length ds < 0x7fffffff" using assms by (simp add: represents_def)
  show ?thesis
  proof (cases "strip_refs ds 32 tid")
    case None
    then show ?thesis using t r by (auto simp: btf__resolve_type_def MAX_RESOLVE_DEPTH_def)
  next
    case (Some x)
    then have "unat x < 0x7fffffff" using r(2) small by simp
    then have "sint x = int (unat x)" by (rule sint_small)
    then show ?thesis using t r Some by (simp add: btf__resolve_type_def MAX_RESOLVE_DEPTH_def)
  qed
qed


definition name_of :: "bytes \<Rightarrow> u32 \<Rightarrow> u8 list option" where
  "name_of strs off =
     (if unat off < length strs then Some (takeWhile (\<lambda>c. c \<noteq> 0) (drop (unat off) strs)) else None)"

lemma at_drop: "at m p s \<Longrightarrow> k < length s \<Longrightarrow> at m (p + k) (drop k s)"
  unfolding at_def by (simp add: drop_take add.commute) (metis drop_drop drop_take)

lemma str_eq_at:
  "at m p s \<Longrightarrow> 0 \<in> set s \<Longrightarrow> 0 \<notin> set nm \<Longrightarrow> str_eq m nm p = Some (nm = takeWhile (\<lambda>c. c \<noteq> 0) s)"
proof (induction nm arbitrary: p s)
  case Nil
  then obtain c s' where "s = c # s'" by (cases s) auto
  then show ?case using Nil(1) at_nth [of m p s 0] by (auto simp: load8_def at_def)
next
  case (Cons n nm)
  then obtain c s' where s: "s = c # s'" by (cases s) auto
  have c: "load8 m p = Some c" using Cons.prems(1) at_nth [of m p s 0] s by (simp add: load8_def at_def)
  show ?case
  proof (cases "c = n")
    case True
    then have "at m (p + 1) s'" "0 \<in> set s'"
      using Cons.prems s by (auto simp: at_def drop_Suc tl_drop [symmetric] take_tl)
    then show ?thesis using Cons.IH [of "p + 1" s'] Cons.prems(3) True c s by auto
  next
    case False
    then show ?thesis using c s by auto
  qed
qed

lemma name_compare:
  assumes "represents b ds strs" and "0 \<notin> set nm"
  shows "\<exists>name. btf__name_by_offset b off = Some name \<and>
     (case name of None \<Rightarrow> Some False | Some p \<Rightarrow> str_eq (btf_data b) nm p) = Some (name_of strs off = Some nm)"
proof -
  have s: "strs \<noteq> []" "last strs = 0" "length strs < 0x7fffffff" "hdr_str_len b = Some (of_nat (length strs))"
    "at (btf_data b) (strings b) strs" using assms(1) by (auto simp: represents_def)
  have less: "off < of_nat (length strs) \<longleftrightarrow> unat off < length strs"
    using s(3) by (simp add: word_less_nat_alt unat_of_nat_31)
  show ?thesis
  proof (cases "unat off < length strs")
    case True
    have "at (btf_data b) (strings b + unat off) (drop (unat off) strs)"
      using s(5) True at_drop by blast
    moreover have "0 \<in> set (drop (unat off) strs)"
      using s(1,2) True by (metis drop_eq_Nil last_drop last_in_set leD)
    ultimately show ?thesis
      using str_eq_at [OF _ _ assms(2)] True less s(4) by (auto simp: btf__name_by_offset_def name_of_def)
  next
    case False
    then show ?thesis using less s(4) by (simp add: btf__name_by_offset_def name_of_def)
  qed
qed


lemma nr_types_represents: "represents b ds strs \<Longrightarrow> unat (nr_types b) = length ds"
  by (auto simp: represents_def type_table_def unat_of_nat_31)

lemma nth_type:
  assumes "represents b ds strs" and "i < length ds"
  shows "\<exists>p. Suc i < length (types b) \<and> types b ! Suc i = Some (TypeAt p) \<and> at (btf_data b) p (enc_desc (ds ! i))"
proof -
  have small: "length ds < 0x7fffffff" using assms(1) by (simp add: represents_def)
  have u: "unat (of_nat (Suc i) :: u32) = Suc i" using assms(2) small by (intro unat_of_nat_31) simp
  then have "desc_of ds (of_nat (Suc i)) = Some (ds ! i)" unfolding desc_of_def u using assms(2) by simp
  then obtain p where "btf__type_by_id b (of_nat (Suc i)) = Some (Some (TypeAt p))"
    "at (btf_data b) p (enc_desc (ds ! i))" using type_by_id_represents(3) [OF assms(1)] by blast
  then show ?thesis unfolding btf__type_by_id_def u by (auto split: if_splits)
qed

definition first_named :: "btf_desc list \<Rightarrow> bytes \<Rightarrow> u8 list \<Rightarrow> nat option" where
  "first_named ds strs nm = find (\<lambda>i. name_of strs (d_name (ds ! i)) = Some nm) [0..<length ds]"

lemma find_name_loop_find:
  assumes "represents b ds strs" and "0 \<notin> set nm" and "i + n = length ds"
  shows "find_name_loop b nm (Suc i) n =
     Some (case find (\<lambda>i. name_of strs (d_name (ds ! i)) = Some nm) [i..<length ds] of
             None \<Rightarrow> - 2 | Some j \<Rightarrow> int (Suc j))"
  using assms(3)
proof (induction n arbitrary: i)
  case 0
  then show ?case by simp
next
  case (Suc n)
  then have i: "i < length ds" by simp
  then obtain p where p: "Suc i < length (types b)" "types b ! Suc i = Some (TypeAt p)"
    "at (btf_data b) p (enc_desc (ds ! i))" using nth_type [OF assms(1)] by blast
  obtain name where "btf__name_by_offset b (d_name (ds ! i)) = Some name"
    "(case name of None \<Rightarrow> Some False | Some p \<Rightarrow> str_eq (btf_data b) nm p) =
       Some (name_of strs (d_name (ds ! i)) = Some nm)"
    using name_compare [OF assms(1,2)] by blast
  then show ?case
    using p i type_word_at(1) [OF p(3)] Suc.IH [of "Suc i"] Suc.prems by (simp add: upt_conv_Cons)
qed

lemma find_by_name_eq:
  assumes "represents b ds strs" and "0 \<notin> set nm" and "nm \<noteq> void_name"
  shows "btf__find_by_name b nm =
     Some (case first_named ds strs nm of None \<Rightarrow> - 2 | Some i \<Rightarrow> int (Suc i))"
  using find_name_loop_find [OF assms(1,2), of 0 "length ds"] assms(3) nr_types_represents [OF assms(1)]
  by (simp add: btf__find_by_name_def first_named_def)

lemma member_type_at:
  assumes "at (btf_data b) p (enc_desc d)" and "desc_ok d" and "desc_kind d = BTF_KIND_STRUCT"
    and "i < BTF_INFO_VLEN (d_info d)"
  shows "member_type b (TypeAt p) i = load32 (d_extra d) (i * 12 + 4)"
    and "load32 (d_extra d) (i * 12 + 4) \<noteq> None"
proof -
  have "length (d_extra d) = BTF_INFO_VLEN (d_info d) * 12"
    using assms(2,3) by (simp add: desc_ok_def kind_size_def)
  moreover have "Suc i * 12 \<le> BTF_INFO_VLEN (d_info d) * 12" using assms(4) by (intro mult_le_mono1) simp
  ultimately have "i * 12 + 4 + 4 \<le> length (d_extra d)" by simp
  then show "member_type b (TypeAt p) i = load32 (d_extra d) (i * 12 + 4)"
    "load32 (d_extra d) (i * 12 + 4) \<noteq> None"
    using type_word_at(4) [OF assms(1), of "i * 12 + 4"] by (simp_all add: member_type_def add.assoc del: load32_None) (simp add: load32_def)
qed

section \<open>Properties\<close>

text \<open>C23. Parsing the file of a list of types gives an object that numbers them from 1 and returns the words
  of each.\<close>

theorem btf_parse_roundtrip:
  assumes "file_ok ds strs"
  shows "\<exists>b. btf__new True True (\<lambda>_. True) (btf_file ds strs) (of_nat (length (btf_file ds strs))) = Some (Inr b) \<and>
     unat (btf__get_nr_types b) = length ds \<and>
     (\<forall>tid d. desc_of ds tid = Some d \<longrightarrow> (\<exists>t. btf__type_by_id b tid = Some (Some t) \<and>
        type_name_off b t = Some (d_name d) \<and> type_info b t = Some (d_info d) \<and>
        size_or_type b t = Some (d_word d) \<and>
        (\<forall>k. k + 4 \<le> length (d_extra d) \<longrightarrow> type_word b t (12 + k) = load32 (d_extra d) k)))"
proof -
  obtain b where b: "btf__new True True (\<lambda>_. True) (btf_file ds strs) (of_nat (length (btf_file ds strs))) =
      Some (Inr b)" "represents b ds strs"
    using btf_new_file [OF assms] by blast
  have "\<exists>t. btf__type_by_id b tid = Some (Some t) \<and>
        type_name_off b t = Some (d_name d) \<and> type_info b t = Some (d_info d) \<and>
        size_or_type b t = Some (d_word d) \<and>
        (\<forall>k. k + 4 \<le> length (d_extra d) \<longrightarrow> type_word b t (12 + k) = load32 (d_extra d) k)"
    if d: "desc_of ds tid = Some d" for tid d
  proof -
    obtain p where p: "btf__type_by_id b tid = Some (Some (TypeAt p))" "at (btf_data b) p (enc_desc d)"
      using type_by_id_represents(3) [OF b(2) d] by blast
    then show ?thesis using type_word_at [OF p(2)] by blast
  qed
  then show ?thesis using b nr_types_represents [OF b(2)] by (auto simp: btf__get_nr_types_def)
qed

definition demo_types :: "btf_desc list" where
  "demo_types =
     [BtfDesc 1 0x01000000 4 (bytes32 32),
      BtfDesc 0 0x03000000 0 (bytes32 1 @ bytes32 1 @ bytes32 10),
      BtfDesc 5 0x04000002 44 (bytes32 0 @ bytes32 1 @ bytes32 0 @ bytes32 0 @ bytes32 2 @ bytes32 32)]"

definition demo_strs :: bytes where
  "demo_strs = [0, 105, 110, 116, 0] @ container_prefix @ [109, 0]"

lemma demo_file_ok: "file_ok demo_types demo_strs"
  by (simp add: file_ok_def demo_types_def demo_strs_def container_prefix_def desc_ok_def kind_size_def
      BTF_INFO_KIND_def BTF_INFO_VLEN_def btf_file_def length_enc_desc)

theorem btf_parse_roundtrip_witness:
  "\<exists>b. btf__new True True (\<lambda>_. True) (btf_file demo_types demo_strs)
      (of_nat (length (btf_file demo_types demo_strs))) = Some (Inr b) \<and> unat (btf__get_nr_types b) = 3"
  using btf_parse_roundtrip [OF demo_file_ok] by (auto simp: demo_types_def)

text \<open>The types of keys and values that a map names by its container structure are found, if their sizes
  are the expected ones.\<close>

theorem map_kv_tids_correct:
  assumes "represents b ds strs" and "0 \<notin> set map_name" and "length map_name \<le> 243"
    and "first_named ds strs (container_prefix @ map_name) = Some i"
    and "desc_kind (ds ! i) = BTF_KIND_STRUCT" and "2 \<le> BTF_INFO_VLEN (d_info (ds ! i))"
    and "load32 (d_extra (ds ! i)) 4 = Some key" and "load32 (d_extra (ds ! i)) 16 = Some val"
    and "c_sizeof ds 32 key = Some ksz" and "0 < ksz" and "ksz \<le> 0xffffffff"
    and "c_sizeof ds 32 val = Some vsz" and "0 < vsz" and "vsz \<le> 0xffffffff"
  shows "btf__get_map_kv_tids b map_name ek ev =
     Some (if unat ek = ksz \<and> unat ev = vsz then Inr (key, val) else Inl (- 22))"
proof -
  let ?nm = "container_prefix @ map_name"
  have i: "i < length ds" using assms(4) by (auto simp: first_named_def find_Some_iff)
  have find: "btf__find_by_name b ?nm = Some (int (Suc i))"
    using find_by_name_eq [OF assms(1), of ?nm] assms(2,4)
    by (simp add: container_prefix_def void_name_def)
  have small: "length ds < 0x7fffffff" "list_all desc_ok ds" using assms(1) by (simp_all add: represents_def)
  have u: "unat (of_nat (Suc i) :: u32) = Suc i" using i small(1) by (intro unat_of_nat_31) simp
  have "desc_of ds (of_nat (Suc i)) = Some (ds ! i)" unfolding desc_of_def u using i by simp
  then obtain p where p: "btf__type_by_id b (of_nat (Suc i)) = Some (Some (TypeAt p))"
    "at (btf_data b) p (enc_desc (ds ! i))" using type_by_id_represents(3) [OF assms(1)] by blast
  have ok: "desc_ok (ds ! i)" using small(2) i by (simp add: list_all_length)
  have mem: "member_type b (TypeAt p) 0 = Some key" "member_type b (TypeAt p) 1 = Some val"
    using member_type_at(1) [OF p(2) ok assms(5)] assms(6-8) by simp_all
  have res: "btf__resolve_size b key = Some (int ksz)" "btf__resolve_size b val = Some (int vsz)"
    using resolve_size_eq [OF assms(1) assms(9)] resolve_size_eq [OF assms(1) assms(12)] assms by simp_all
  have vl: "btf_vlen b (TypeAt p) = Some (BTF_INFO_VLEN (d_info (ds ! i)))"
    using type_word_at(2) [OF p(2)] by (simp add: btf_vlen_def)
  have "container_name map_name = (length ?nm, ?nm)" "length ?nm \<noteq> 256"
    using assms(3) by (simp_all add: container_name_def container_prefix_def Let_def)
  moreover have "(uint ek = int ksz) = (unat ek = ksz)" "(uint ev = int vsz) = (unat ev = vsz)"
    by (metis of_nat_eq_iff of_nat_unat)+
  ultimately show ?thesis
    using find p(1) mem res vl kind_at(1) [OF p(2)] assms(5,6)
    by (simp add: btf__get_map_kv_tids_def Let_def)
qed


theorem map_kv_tids_correct_witness:
  "\<exists>b. represents b demo_types demo_strs \<and> btf__get_map_kv_tids b [109] 4 40 = Some (Inr (1, 2))"
proof -
  obtain b where b: "represents b demo_types demo_strs" using btf_new_file [OF demo_file_ok] by blast
  have "first_named demo_types demo_strs (container_prefix @ [109]) = Some 2" by code_simp
  moreover have "c_sizeof demo_types 32 1 = Some 4" "c_sizeof demo_types 32 2 = Some 40"
    "load32 (d_extra (demo_types ! 2)) 4 = Some 1" "load32 (d_extra (demo_types ! 2)) 16 = Some 2"
    "BTF_INFO_KIND (d_info (demo_types ! 2)) = 4" "BTF_INFO_VLEN (d_info (demo_types ! 2)) = 2"
    by code_simp+
  ultimately have "btf__get_map_kv_tids b [109] 4 40 = Some (Inr (1, 2))"
    using map_kv_tids_correct [OF b, of "[109]" 2 1 2 4 40 4 40] by simp
  then show ?thesis using b by blast
qed

text \<open>C22. The size of every type of a file is the number that its types define, if that is positive and
  fits into 32 bits; the error \<^verbatim>\<open>E2BIG\<close> if it is too large; and an error if the types define no size
  within the depth limit. For the size 0 the result is 0, or \<^verbatim>\<open>E2BIG\<close> if an intermediate product
  overflows before the factor 0.\<close>

theorem resolve_size_correct:
  assumes "file_ok ds strs"
  shows "\<exists>b. btf__new True True (\<lambda>_. True) (btf_file ds strs) (of_nat (length (btf_file ds strs))) = Some (Inr b) \<and>
     (\<forall>tid. \<exists>r. btf__resolve_size b tid = Some r \<and>
        (case c_sizeof ds 32 tid of
           None \<Rightarrow> r \<in> {- 22, - 7}
         | Some k \<Rightarrow> if k > 0xffffffff then r = - 7 else if k = 0 then r \<in> {0, - 7} else r = int k))"
  using btf_new_file [OF assms] resolve_size_cases by blast

theorem resolve_size_correct_witness:
  "\<exists>b. btf__new True True (\<lambda>_. True) (btf_file demo_types demo_strs)
      (of_nat (length (btf_file demo_types demo_strs))) = Some (Inr b) \<and> btf__resolve_size b 2 = Some 40"
proof -
  have "c_sizeof demo_types 32 2 = Some 40" by code_simp
  moreover obtain b where "btf__new True True (\<lambda>_. True) (btf_file demo_types demo_strs)
      (of_nat (length (btf_file demo_types demo_strs))) = Some (Inr b)"
    and "\<exists>r. btf__resolve_size b 2 = Some r \<and>
      (case c_sizeof demo_types 32 2 of
         None \<Rightarrow> r \<in> {- 22, - 7}
       | Some k \<Rightarrow> if k > 0xffffffff then r = - 7 else if k = 0 then r \<in> {0, - 7} else r = int k)"
    using resolve_size_correct [OF demo_file_ok] by blast
  ultimately show ?thesis by auto
qed

text \<open>The search for a name gives the first type that has it.\<close>

theorem find_by_name_correct:
  assumes "file_ok ds strs"
  shows "\<exists>b. btf__new True True (\<lambda>_. True) (btf_file ds strs) (of_nat (length (btf_file ds strs))) = Some (Inr b) \<and>
     (\<forall>nm. 0 \<notin> set nm \<longrightarrow> nm \<noteq> void_name \<longrightarrow>
        btf__find_by_name b nm = Some (case first_named ds strs nm of None \<Rightarrow> - 2 | Some i \<Rightarrow> int (Suc i)))"
  using btf_new_file [OF assms] find_by_name_eq by blast

theorem find_by_name_correct_witness:
  "\<exists>b. btf__new True True (\<lambda>_. True) (btf_file demo_types demo_strs)
      (of_nat (length (btf_file demo_types demo_strs))) = Some (Inr b) \<and>
     btf__find_by_name b [105, 110, 116] = Some 1"
proof -
  have "first_named demo_types demo_strs [105, 110, 116] = Some 0" by code_simp
  then show ?thesis using find_by_name_correct [OF demo_file_ok] by (force simp: void_name_def)
qed

text \<open>The length of the string section is not checked against the size of the data: a header that claims
  more strings than there are makes the parser read behind its copy of the data.\<close>

theorem btf_strings_overread:
  assumes "file_ok ds strs" and "length strs < claimed" and "claimed \<le> 0x7fffffff"
  shows "btf__new True True (\<lambda>_. True) (btf_hdr (length (enc_descs ds)) claimed @ enc_descs ds @ strs)
     (of_nat (length (btf_file ds strs))) = None"
proof -
  let ?t = "length (enc_descs ds)"
  let ?f = "btf_hdr ?t claimed @ enc_descs ds @ strs"
  have ok: "ds \<noteq> []" "strs \<noteq> []" "hd strs = 0" "length ?f < 0x7fffffff" and len: "length ?f = length (btf_file ds strs)"
    using assms(1) by (auto simp: file_ok_def btf_file_def)
  have t: "0 < ?t" using ok(1) length_descs_le [of ds] by (cases ds) auto
  have sz: "unat (of_nat (length ?f) :: u32) = length ?f" using ok(4) by (intro unat_of_nat_31) simp
  have ut: "unat (of_nat ?t :: u32) = ?t" "unat (of_nat claimed :: u32) = claimed"
    using ok(4) assms(3) by (simp_all add: unat_of_nat_31)
  have small: "\<not> of_nat claimed - 1 > BTF_MAX_STR_OFFSET" "(of_nat claimed :: u32) \<noteq> 0"
    using unat_of_nat_31 [of "claimed - 1"] ut(2) assms(2,3)
    by (auto simp: word_less_nat_alt BTF_MAX_STR_OFFSET_def of_nat_diff)
  have hdr: "btf_parse_hdr (fresh_btf ?f (of_nat (length ?f))) = Some 0"
    using btf_parse_hdr_file [of ?f ?t claimed "enc_descs ds @ strs"] t ok(4) by simp
  have "load8 ?f (24 + ?t) = Some 0"
    using ok(2,3) by (cases strs) (simp_all add: load8_def nth_append)
  moreover have "load8 ?f (23 + (?t + claimed)) = None" using assms(2) by (simp add: load8_def)
  ultimately have "btf_parse_str_sec (fresh_btf ?f (of_nat (length ?f))) = None"
    using btf_hdr_fields [of ?t claimed "enc_descs ds @ strs"] ut small
    by (simp add: btf_parse_str_sec_def fresh_btf_def hdr_str_off_def hdr_str_len_def nohdr_data_def Let_def
        del: load8_None)
  moreover have "load_bytes ?f 0 (unat (of_nat (length ?f) :: u32)) = Some ?f" unfolding sz by (simp add: load_bytes_def)
  ultimately show ?thesis
    using hdr unfolding len by (simp add: btf__new_def)
qed

theorem btf_strings_overread_witness:
  "btf__new True True (\<lambda>_. True) (btf_hdr (length (enc_descs demo_types)) 1000 @ enc_descs demo_types @ demo_strs)
     (of_nat (length (btf_file demo_types demo_strs))) = None"
  by (rule btf_strings_overread [OF demo_file_ok]) (simp_all add: demo_strs_def container_prefix_def)

text \<open>A last type may be cut short: the parser accepts it, and asking for its size reads behind the
  data.\<close>

definition cut_array :: bytes where
  "cut_array = btf_hdr 12 1 @ bytes32 0 @ bytes32 0x03000000 @ bytes32 0 @ [0]"

theorem btf_type_overrun:
  "\<exists>b. btf__new True True (\<lambda>_. True) cut_array 37 = Some (Inr b) \<and> btf__resolve_size b 1 = None"
proof -
  have "case btf__new True True (\<lambda>_. True) cut_array 37 of
      Some (Inr b) \<Rightarrow> btf__resolve_size b 1 = None | _ \<Rightarrow> False"
    by code_simp
  then show ?thesis by (auto split: option.splits sum.splits)
qed

end
