(* ===== verification/BtfExt.thy ===== *)
theory BtfExt
  imports Btf
begin

text \<open>
  The section \<^verbatim>\<open>.BTF.ext\<close>, \<^verbatim>\<open>libbpf/src/btf.c\<close>: function and line information by section of
  the program. The parser checks that the records fill their part of the data; relocation copies the
  records of one section and turns their byte offsets into instruction numbers. As in \<open>Btf\<close>, pointers
  are offsets into the copy of the data.
\<close>

section \<open>Definitions\<close>

record btf_ext_info =
  ext_info :: ptr
  ext_rec_size :: u32
  ext_len :: u32

record btf_ext =
  ext_data :: bytes
  func_info :: btf_ext_info
  line_info :: btf_ext_info
  field_reloc_info :: btf_ext_info
  ext_data_size :: u32

definition no_info :: btf_ext_info where
  "no_info = \<lparr>ext_info = 0, ext_rec_size = 0, ext_len = 0\<rparr>"

text \<open>The loop over the sections in \<^verbatim>\<open>btf_ext_setup_info\<close>; the sum of header and records is taken in 64
  bits and does not overflow.\<close>

function ext_sec_loop :: "bytes \<Rightarrow> u32 \<Rightarrow> ptr \<Rightarrow> nat \<Rightarrow> int option" where
  "ext_sec_loop m record_size sinfo info_left =
     (if info_left = 0 then Some 0
      else if info_left < 8 then Some (- 22)
      else do {
        num_records \<leftarrow> load32 m (sinfo + 4);
        if num_records = 0 then Some (- 22)
        else let total_record_size = 8 + unat num_records * unat record_size
          in if info_left < total_record_size then Some (- 22)
          else ext_sec_loop m record_size (sinfo + total_record_size) (info_left - total_record_size) })"
  by pat_completeness auto
termination
  by (relation "measure (\<lambda>(m, r, s, n). n)") auto

declare ext_sec_loop.simps [simp del]

text \<open>\<open>off\<close>, \<open>len\<close> and \<open>min_rec_size\<close> are the fields of
  \<^verbatim>\<open>struct btf_ext_sec_setup_param\<close>; the result has the new contents of \<^verbatim>\<open>ext_info\<close>.\<close>

definition btf_ext_setup_info ::
  "btf_ext \<Rightarrow> u32 \<Rightarrow> u32 \<Rightarrow> u32 \<Rightarrow> btf_ext_info \<Rightarrow> (int \<times> btf_ext_info) option" where
  "btf_ext_setup_info e off len min_rec_size old =
     (if len = 0 then Some (0, old)
      else if off AND 3 \<noteq> 0 then Some (- 22, old)
      else do {
        hdr_len \<leftarrow> load32 (ext_data e) 4;
        let info = unat hdr_len + unat off;
        if unat (ext_data_size e) < info + unat len then Some (- 22, old)
        else if len < 4 then Some (- 22, old)
        else do {
          record_size \<leftarrow> load32 (ext_data e) info;
          if record_size < min_rec_size \<or> record_size AND 3 \<noteq> 0 then Some (- 22, old)
          else if len - 4 = 0 then Some (- 22, old)
          else do {
            err \<leftarrow> ext_sec_loop (ext_data e) record_size (info + 4) (unat (len - 4));
            if err \<noteq> 0 then Some (err, old)
            else Some (0, \<lparr>ext_info = info + 4, ext_rec_size = record_size, ext_len = len - 4\<rparr>) } } })"

definition btf_ext_setup_func_info :: "btf_ext \<Rightarrow> (int \<times> btf_ext) option" where
  "btf_ext_setup_func_info e = do {
     off \<leftarrow> load32 (ext_data e) 8;
     len \<leftarrow> load32 (ext_data e) 12;
     (err, i) \<leftarrow> btf_ext_setup_info e off len 8 (func_info e);
     Some (err, e\<lparr>func_info := i\<rparr>) }"

definition btf_ext_setup_line_info :: "btf_ext \<Rightarrow> (int \<times> btf_ext) option" where
  "btf_ext_setup_line_info e = do {
     off \<leftarrow> load32 (ext_data e) 16;
     len \<leftarrow> load32 (ext_data e) 20;
     (err, i) \<leftarrow> btf_ext_setup_info e off len 16 (line_info e);
     Some (err, e\<lparr>line_info := i\<rparr>) }"

definition btf_ext_setup_field_reloc :: "btf_ext \<Rightarrow> (int \<times> btf_ext) option" where
  "btf_ext_setup_field_reloc e = do {
     off \<leftarrow> load32 (ext_data e) 24;
     len \<leftarrow> load32 (ext_data e) 28;
     (err, i) \<leftarrow> btf_ext_setup_info e off len 16 (field_reloc_info e);
     Some (err, e\<lparr>field_reloc_info := i\<rparr>) }"

definition btf_ext_parse_hdr :: "bytes \<Rightarrow> u32 \<Rightarrow> int option" where
  "btf_ext_parse_hdr d n =
     (if n < 8 then Some (- 22)
      else do {
        hdr_len \<leftarrow> load32 d 4;
        if n < hdr_len then Some (- 22)
        else do {
          magic \<leftarrow> load16 d 0;
          if magic \<noteq> 0xeB9F then Some (- 22)
          else do {
            version \<leftarrow> load8 d 2;
            if version \<noteq> 1 then Some (- 95)
            else do {
              flags \<leftarrow> load8 d 3;
              if flags \<noteq> 0 then Some (- 95)
              else if n = hdr_len then Some (- 22)
              else Some 0 } } } })"

text \<open>The set-up calls of \<^verbatim>\<open>btf_ext__new\<close>.\<close>

definition ext_setup :: "btf_ext \<Rightarrow> (int \<times> btf_ext) option" where
  "ext_setup e = do {
     hdr_len \<leftarrow> load32 (ext_data e) 4;
     if hdr_len < 24 then Some (0, e)
     else do {
       (err, e) \<leftarrow> btf_ext_setup_func_info e;
       if err \<noteq> 0 then Some (err, e)
       else do {
         (err, e) \<leftarrow> btf_ext_setup_line_info e;
         if err \<noteq> 0 then Some (err, e)
         else if hdr_len < 32 then Some (0, e)
         else btf_ext_setup_field_reloc e } } }"

definition fresh_ext :: "bytes \<Rightarrow> u32 \<Rightarrow> btf_ext" where
  "fresh_ext d n =
     \<lparr>ext_data = d, func_info = no_info, line_info = no_info, field_reloc_info = no_info, ext_data_size = n\<rparr>"

datatype ext_release = FreeExtData | FreeExt

definition btf_ext__free :: "btf_ext option \<Rightarrow> ext_release list" where
  "btf_ext__free e = (case e of None \<Rightarrow> [] | Some _ \<Rightarrow> [FreeExtData, FreeExt])"

text \<open>As for \<^verbatim>\<open>btf__new\<close>, an error comes with what was released.\<close>

definition btf_ext__new ::
  "bool \<Rightarrow> bool \<Rightarrow> bytes \<Rightarrow> u32 \<Rightarrow> ((int \<times> ext_release list) + btf_ext) option" where
  "btf_ext__new calloc_ok malloc_ok d n = do {
     err \<leftarrow> btf_ext_parse_hdr d n;
     if err \<noteq> 0 then Some (Inl (err, []))
     else if \<not> calloc_ok then Some (Inl (- 12, []))
     else if \<not> malloc_ok then Some (Inl (- 12, btf_ext__free (Some (fresh_ext [] n))))
     else do {
       copy \<leftarrow> load_bytes d 0 (unat n);
       (err, e) \<leftarrow> ext_setup (fresh_ext copy n);
       if err \<noteq> 0 then Some (Inl (err, btf_ext__free (Some e))) else Some (Inr e) } }"

subsection \<open>Relocation\<close>

text \<open>The loop that adjusts the instruction offsets of the copied records, from record \<open>i\<close> on.\<close>

primrec adjust_loop :: "bytes \<Rightarrow> u32 \<Rightarrow> nat \<Rightarrow> u32 \<Rightarrow> nat \<Rightarrow> nat \<Rightarrow> bytes option" where
  "adjust_loop d insns_cnt existing rec i 0 = Some d"
| "adjust_loop d insns_cnt existing rec i (Suc n) = do {
     let p = existing + unat (of_nat i * rec);
     insn_off \<leftarrow> load32 d p;
     d \<leftarrow> store32 d p (insn_off div 8 + insns_cnt);
     adjust_loop d insns_cnt existing rec (Suc i) n }"

text \<open>Copying the records of the section at \<open>sinfo\<close> behind the records there are. The buffer has to hold
  those \<open>cnt\<close> records, and the size of the new one is a sum in 32 bits.\<close>

definition copy_records ::
  "bool \<Rightarrow> bytes \<Rightarrow> u32 \<Rightarrow> ptr \<Rightarrow> u32 \<Rightarrow> u32 \<Rightarrow> bytes \<Rightarrow> u32 \<Rightarrow> (int \<times> bytes \<times> u32) option" where
  "copy_records realloc_ok m record_size sinfo num insns_cnt info cnt = (
     let records_len = num * record_size;
         existing_len = cnt * record_size
     in if \<not> realloc_ok then Some (- 12, info, cnt)
     else if length info < unat existing_len \<or> 2 ^ 32 \<le> unat existing_len + unat records_len then None
     else do {
       recs \<leftarrow> load_bytes m (sinfo + 8) (unat records_len);
       d \<leftarrow> adjust_loop (take (unat existing_len) info @ recs) insns_cnt (unat existing_len)
              record_size 0 (unat num);
       Some (0, d, cnt + num) })"

text \<open>The loop of \<^verbatim>\<open>btf_ext_reloc_info\<close>; \<open>remain\<close> counts in 64 bits. A name offset outside of the
  strings makes \<^verbatim>\<open>strcmp\<close> follow NULL.\<close>

function reloc_loop ::
  "btf \<Rightarrow> bool \<Rightarrow> bytes \<Rightarrow> u32 \<Rightarrow> u8 list \<Rightarrow> u32 \<Rightarrow> bytes \<Rightarrow> u32 \<Rightarrow> ptr \<Rightarrow> u64 \<Rightarrow> (int \<times> bytes \<times> u32) option"
where
  "reloc_loop b realloc_ok m record_size sec_name insns_cnt info cnt sinfo remain =
     (if remain > 0 then do {
        num \<leftarrow> load32 m (sinfo + 4);
        name_off \<leftarrow> load32 m sinfo;
        name \<leftarrow> btf__name_by_offset b name_off;
        p \<leftarrow> name;
        same \<leftarrow> str_eq (btf_data b) sec_name p;
        if \<not> same
        then reloc_loop b realloc_ok m record_size sec_name insns_cnt info cnt
               (sinfo + 8 + unat (num * record_size)) (remain - ucast (8 + num * record_size))
        else copy_records realloc_ok m record_size sinfo num insns_cnt info cnt }
      else Some (- 2, info, cnt))"
  by pat_completeness auto
termination
  by (relation "measure (\<lambda>(b, k, m, r, s, n, i, c, p, q). length m - p)") (auto simp: load32_def split: if_splits)

declare reloc_loop.simps [simp del]

definition btf_ext_reloc_info ::
  "btf \<Rightarrow> bytes \<Rightarrow> btf_ext_info \<Rightarrow> bool \<Rightarrow> u8 list \<Rightarrow> u32 \<Rightarrow> bytes \<Rightarrow> u32 \<Rightarrow> (int \<times> bytes \<times> u32) option" where
  "btf_ext_reloc_info b m i realloc_ok sec_name insns_cnt info cnt =
     reloc_loop b realloc_ok m (ext_rec_size i) sec_name insns_cnt info cnt (ext_info i) (ucast (ext_len i))"

definition btf_ext__reloc_func_info ::
  "btf \<Rightarrow> btf_ext \<Rightarrow> bool \<Rightarrow> u8 list \<Rightarrow> u32 \<Rightarrow> bytes \<Rightarrow> u32 \<Rightarrow> (int \<times> bytes \<times> u32) option" where
  "btf_ext__reloc_func_info b e = btf_ext_reloc_info b (ext_data e) (func_info e)"

definition btf_ext__reloc_line_info ::
  "btf \<Rightarrow> btf_ext \<Rightarrow> bool \<Rightarrow> u8 list \<Rightarrow> u32 \<Rightarrow> bytes \<Rightarrow> u32 \<Rightarrow> (int \<times> bytes \<times> u32) option" where
  "btf_ext__reloc_line_info b e = btf_ext_reloc_info b (ext_data e) (line_info e)"

definition btf_ext__func_info_rec_size :: "btf_ext \<Rightarrow> u32" where
  "btf_ext__func_info_rec_size e = ext_rec_size (func_info e)"

definition btf_ext__line_info_rec_size :: "btf_ext \<Rightarrow> u32" where
  "btf_ext__line_info_rec_size e = ext_rec_size (line_info e)"

definition btf_ext__get_raw_data :: "btf_ext \<Rightarrow> bytes \<times> u32" where
  "btf_ext__get_raw_data e = (ext_data e, ext_data_size e)"

section \<open>Encoding\<close>

text \<open>A section: the offset of its name and its records.\<close>

type_synonym ext_sec = "u32 \<times> bytes list"

definition enc_sec :: "ext_sec \<Rightarrow> bytes" where
  "enc_sec s = bytes32 (fst s) @ bytes32 (of_nat (length (snd s))) @ concat (snd s)"

definition enc_secs :: "ext_sec list \<Rightarrow> bytes" where
  "enc_secs ss = concat (map enc_sec ss)"

definition sec_ok :: "nat \<Rightarrow> ext_sec \<Rightarrow> bool" where
  "sec_ok r s \<longleftrightarrow> snd s \<noteq> [] \<and> list_all (\<lambda>x. length x = r) (snd s)"

lemma enc_secs_simps [simp]: "enc_secs [] = []" "enc_secs (s # ss) = enc_sec s @ enc_secs ss"
  by (simp_all add: enc_secs_def)

lemma length_concat_records: "list_all (\<lambda>x. length x = r) rs \<Longrightarrow> length (concat rs) = length rs * r"
  by (induction rs) auto

lemma length_enc_sec: "sec_ok r s \<Longrightarrow> length (enc_sec s) = 8 + length (snd s) * r"
  by (simp add: enc_sec_def sec_ok_def length_concat_records)

lemma at_append_iff: "at m p (s @ t) \<longleftrightarrow> at m p s \<and> at m (p + length s) t"
proof
  assume a: "at m p (s @ t)"
  have "take (length s) (drop p m) = take (length s) (take (length (s @ t)) (drop p m))" by simp
  also have "\<dots> = s" using a by (simp add: at_def)
  finally have "at m p s" using a by (simp add: at_def)
  moreover have "at m (p + length s) t"
    using a at_drop [OF a, of "length s"] by (cases "t = []") (simp_all add: at_def)
  ultimately show "at m p s \<and> at m (p + length s) t" ..
next
  assume a: "at m p s \<and> at m (p + length s) t"
  then show "at m p (s @ t)" by (auto simp: at_def take_add add.commute)
qed

lemma load32_sec:
  assumes "at m p (enc_sec s)"
  shows "load32 m p = Some (fst s)" "load32 m (p + 4) = Some (of_nat (length (snd s)))"
proof -
  have "load32 (enc_sec s) 0 = Some (fst s)" "load32 (enc_sec s) 4 = Some (of_nat (length (snd s)))"
    using load32_le [of "[]" 0 "fst s"] load32_le [of "bytes32 (fst s)" 4] by (simp_all add: enc_sec_def)
  then show "load32 m p = Some (fst s)" "load32 m (p + 4) = Some (of_nat (length (snd s)))"
    using load32_at [OF assms, of 0] load32_at [OF assms, of 4] by (simp_all add: enc_sec_def)
qed

lemma ext_sec_loop_enc:
  assumes "at m p (enc_secs ss)" and "list_all (sec_ok (unat r)) ss" and "length (enc_secs ss) < 2 ^ 32" and "4 \<le> unat r"
  shows "ext_sec_loop m r p (length (enc_secs ss)) = Some 0"
  using assms
proof (induction ss arbitrary: p)
  case Nil
  then show ?case by (simp add: ext_sec_loop.simps)
next
  case (Cons s ss)
  have at: "at m p (enc_sec s)" "at m (p + length (enc_sec s)) (enc_secs ss)"
    using Cons.prems(1) by (simp_all add: at_append_iff)
  have len: "length (enc_sec s) = 8 + length (snd s) * unat r" using Cons.prems(2) length_enc_sec by simp
  have "length (snd s) * 1 \<le> length (snd s) * unat r" using Cons.prems(4) by (intro mult_le_mono2) linarith
  moreover have "length (snd s) * unat r < 2 ^ 32" using Cons.prems(3) len by simp
  ultimately have "length (snd s) < 2 ^ 32" by linarith
  then have n: "unat (of_nat (length (snd s)) :: u32) = length (snd s)" "0 < length (snd s)"
    using Cons.prems(2) by (simp_all add: unat_of_nat_eq sec_ok_def)
  then have "(of_nat (length (snd s)) :: u32) \<noteq> 0" by (metis less_numeral_extra(3) unat_0)
  then show ?case
    using Cons.IH [OF at(2)] Cons.prems(2-4) load32_sec(2) [OF at(1)] n len
    by (subst ext_sec_loop.simps) (simp add: Let_def)
qed


section \<open>Relocation\<close>

text \<open>A record with its byte offset turned into an instruction number.\<close>

definition adjusted :: "u32 \<Rightarrow> bytes \<Rightarrow> bytes" where
  "adjusted insns_cnt x = bytes32 (the (load32 x 0) div 8 + insns_cnt) @ drop 4 x"

lemma record_word:
  assumes "4 \<le> length x"
  shows "x = bytes32 (the (load32 x 0)) @ drop 4 x"
proof -
  obtain y r where xr: "x = y @ r" "length y = 4" using split_list_at [OF assms] .
  then obtain a b c d where "y = [a, b, c, d]"
    by (auto simp: length_Suc_conv eval_nat_numeral)
  then show ?thesis using xr by (simp add: load32_def bytes32_le32)
qed

lemma adjust_record:
  assumes "4 \<le> length x" and "length pre = k"
  shows "load32 (pre @ x @ post) k = Some (the (load32 x 0))"
    and "store32 (pre @ x @ post) k (the (load32 x 0) div 8 + c) = Some (pre @ adjusted c x @ post)"
proof -
  let ?w = "the (load32 x 0)"
  have x: "pre @ x @ post = pre @ bytes32 ?w @ drop 4 x @ post"
    using record_word [OF assms(1)] by (metis append.assoc)
  show "load32 (pre @ x @ post) k = Some ?w" unfolding x by (rule load32_le [OF assms(2)])
  show "store32 (pre @ x @ post) k (?w div 8 + c) = Some (pre @ adjusted c x @ post)"
    unfolding x adjusted_def using store32_le [OF assms(2), of "bytes32 ?w" "drop 4 x @ post"] by simp
qed

lemma length_adjusted: "4 \<le> length x \<Longrightarrow> length (adjusted c x) = length x"
  by (simp add: adjusted_def)

lemma records_size:
  assumes "n * unat r < 2 ^ 32" and "4 \<le> unat (r :: u32)"
  shows "unat (of_nat n * r) = n * unat r" and "unat (of_nat n :: u32) = n"
proof -
  have "n * 1 \<le> n * unat r" using assms(2) by (intro mult_le_mono2) linarith
  then have "n < 2 ^ 32" using assms(1) by linarith
  then show n: "unat (of_nat n :: u32) = n" by (simp add: unat_of_nat_eq)
  show "unat (of_nat n * r) = n * unat r"
    using assms(1) unat_mult_fits [of "of_nat n" r] unfolding n by blast
qed

lemma adjust_loop_map:
  assumes "list_all (\<lambda>x. length x = unat r) (xs @ rs)" and "4 \<le> unat r"
    and "length (xs @ rs) * unat r < 2 ^ 32"
  shows "adjust_loop (pre @ concat xs @ concat rs) c (length pre) r (length xs) (length rs) =
     Some (pre @ concat xs @ concat (map (adjusted c) rs))"
  using assms(1,3)
proof (induction rs arbitrary: xs)
  case Nil
  then show ?case by simp
next
  case (Cons x rs)
  have x: "4 \<le> length x" using Cons.prems assms(2) by auto
  have "length xs * unat r < 2 ^ 32" using Cons.prems(2) by (simp add: algebra_simps)
  then have k: "length (pre @ concat xs) = length pre + unat (of_nat (length xs) * r)"
    using Cons.prems(1) length_concat_records [of "unat r" xs] records_size(1) assms(2) by auto
  have "list_all (\<lambda>x. length x = unat r) ((xs @ [adjusted c x]) @ rs)"
    using Cons.prems(1) length_adjusted [OF x] by simp
  moreover have "length ((xs @ [adjusted c x]) @ rs) * unat r < 2 ^ 32" using Cons.prems(2) by simp
  ultimately show ?case
    using Cons.IH [of "xs @ [adjusted c x]"]
      adjust_record(1) [OF x k, of "concat rs"] adjust_record(2) [OF x k, of "concat rs" c] by simp
qed

lemma name_compare_valid:
  assumes "represents b ds strs" and "0 \<notin> set nm" and "unat off < length strs"
  shows "\<exists>p. btf__name_by_offset b off = Some (Some p) \<and>
     str_eq (btf_data b) nm p = Some (name_of strs off = Some nm)"
proof -
  obtain name where n: "btf__name_by_offset b off = Some name"
    "(case name of None \<Rightarrow> Some False | Some p \<Rightarrow> str_eq (btf_data b) nm p) = Some (name_of strs off = Some nm)"
    using name_compare [OF assms(1,2)] by blast
  have "hdr_str_len b = Some (of_nat (length strs))" "length strs < 0x7fffffff"
    using assms(1) by (auto simp: represents_def)
  then have "name \<noteq> None"
    using n(1) assms(3) by (auto simp: btf__name_by_offset_def word_less_nat_alt unat_of_nat_31)
  then show ?thesis using n by auto
qed

lemma load_bytes_at: "at m p s \<Longrightarrow> load_bytes m p (length s) = Some s"
  by (simp add: load_bytes_def at_def)

lemma copy_records_enc:
  assumes "at m p (enc_sec s)" and "sec_ok (unat r) s" and "4 \<le> unat r"
    and "length info = unat cnt * unat r" and "length info + length (enc_sec s) < 2 ^ 32"
  shows "copy_records True m r p (of_nat (length (snd s))) k info cnt =
     Some (0, info @ concat (map (adjusted k) (snd s)), cnt + of_nat (length (snd s)))"
proof -
  have len: "length (enc_sec s) = 8 + length (snd s) * unat r" using length_enc_sec [OF assms(2)] .
  then have n: "unat (of_nat (length (snd s)) * r) = length (snd s) * unat r"
    "unat (of_nat (length (snd s)) :: u32) = length (snd s)"
    using records_size [of "length (snd s)" r] assms(3,5) by simp_all
  have e: "unat (cnt * r) = length info" using unat_mult_fits [of cnt r] assms(4,5) by simp
  have recs: "list_all (\<lambda>x. length x = unat r) (snd s)" using assms(2) by (simp add: sec_ok_def)
  have "at m (p + 8) (concat (snd s))"
    using assms(1) by (simp add: enc_sec_def at_append_iff add.assoc)
  from load_bytes_at [OF this] have "load_bytes m (p + 8) (length (snd s) * unat r) = Some (concat (snd s))"
    by (simp add: length_concat_records [OF recs])
  moreover have "adjust_loop (info @ concat (snd s)) k (length info) r 0 (length (snd s)) =
      Some (info @ concat (map (adjusted k) (snd s)))"
    using adjust_loop_map [of r "[]" "snd s" info k] recs assms(3,5) len by simp
  ultimately show ?thesis using n e assms(5) len by (simp add: copy_records_def Let_def)
qed

definition named_sec :: "bytes \<Rightarrow> u8 list \<Rightarrow> ext_sec list \<Rightarrow> ext_sec option" where
  "named_sec strs nm ss = find (\<lambda>s. name_of strs (fst s) = Some nm) ss"

lemma reloc_loop_enc:
  assumes "represents b ds strs" and "0 \<notin> set nm" and "4 \<le> unat r"
    and "at m p (enc_secs ss)" and "list_all (sec_ok (unat r)) ss"
    and "list_all (\<lambda>s. unat (fst s) < length strs) ss"
    and "length info = unat cnt * unat r" and "length info + length (enc_secs ss) < 2 ^ 32"
  shows "reloc_loop b True m r nm k info cnt p (of_nat (length (enc_secs ss))) =
     Some (case named_sec strs nm ss of
             None \<Rightarrow> (- 2, info, cnt)
           | Some s \<Rightarrow> (0, info @ concat (map (adjusted k) (snd s)), cnt + of_nat (length (snd s))))"
  using assms(4-)
proof (induction ss arbitrary: p)
  case Nil
  then show ?case by (simp add: reloc_loop.simps named_sec_def)
next
  case (Cons s ss)
  have at: "at m p (enc_sec s)" "at m (p + length (enc_sec s)) (enc_secs ss)"
    using Cons.prems(1) by (simp_all add: at_append_iff)
  have ok: "sec_ok (unat r) s" using Cons.prems(2) by simp
  have len: "length (enc_sec s) = 8 + length (snd s) * unat r" using length_enc_sec [OF ok] .
  have small: "length info + length (enc_sec s) < 2 ^ 32" using Cons.prems(5) by simp
  have n: "unat (of_nat (length (snd s)) * r) = length (snd s) * unat r"
    using records_size [of "length (snd s)" r] assms(3) small len by simp
  have "(of_nat (length (enc_secs (s # ss))) :: u64) \<noteq> 0"
  proof -
    have "unat (of_nat (length (enc_secs (s # ss))) :: u64) = length (enc_secs (s # ss))"
      using Cons.prems(5) by (intro unat_of_nat_eq) simp
    then show ?thesis using len by (metis add_gr_0 length_append enc_secs_simps(2) unat_0 zero_less_numeral less_numeral_extra(3))
  qed
  then have pos: "(0 :: u64) < of_nat (length (enc_secs (s # ss)))" by (simp add: word_neq_0_conv)
  have "8 + of_nat (length (snd s)) * r = (of_nat (length (enc_sec s)) :: u32)" using len by simp
  then have "ucast (8 + of_nat (length (snd s)) * r) = (of_nat (length (enc_sec s)) :: u64)"
    using ucast_of_nat_u64 [of "length (enc_sec s)"] small by simp
  then have rest: "of_nat (length (enc_secs (s # ss))) - ucast (8 + of_nat (length (snd s)) * r) =
      (of_nat (length (enc_secs ss)) :: u64)" by simp
  obtain q where q: "btf__name_by_offset b (fst s) = Some (Some q)"
    "str_eq (btf_data b) nm q = Some (name_of strs (fst s) = Some nm)"
    using name_compare_valid [OF assms(1,2)] Cons.prems(3) by auto
  have step: "reloc_loop b True m r nm k info cnt p (of_nat (length (enc_secs (s # ss)))) =
      (if name_of strs (fst s) = Some nm
       then copy_records True m r p (of_nat (length (snd s))) k info cnt
       else reloc_loop b True m r nm k info cnt (p + length (enc_sec s)) (of_nat (length (enc_secs ss))))"
    using pos load32_sec [OF at(1)] q rest n len
    by (subst reloc_loop.simps) (simp add: add.assoc del: of_nat_add enc_secs_simps)
  show ?case
  proof (cases "name_of strs (fst s) = Some nm")
    case True
    then show ?thesis
      using step copy_records_enc [OF at(1) ok assms(3) Cons.prems(4) small] by (simp add: named_sec_def)
  next
    case False
    then show ?thesis
      using step Cons.IH [OF at(2)] Cons.prems(2-5) by (simp add: named_sec_def)
  qed
qed


section \<open>Files\<close>

text \<open>One part of the data: the size of the records and the sections.\<close>

definition enc_part :: "u32 \<Rightarrow> ext_sec list \<Rightarrow> bytes" where
  "enc_part r ss = bytes32 r @ enc_secs ss"

definition part_ok :: "bytes \<Rightarrow> nat \<Rightarrow> u32 \<Rightarrow> ext_sec list \<Rightarrow> bool" where
  "part_ok strs min_size r ss \<longleftrightarrow>
     ss \<noteq> [] \<and> list_all (sec_ok (unat r)) ss \<and> list_all (\<lambda>s. unat (fst s) < length strs) ss \<and>
     min_size \<le> unat r \<and> r AND 3 = 0"

definition ext_file :: "u32 \<Rightarrow> ext_sec list \<Rightarrow> u32 \<Rightarrow> ext_sec list \<Rightarrow> bytes" where
  "ext_file rf fs rl ls =
     [0x9f, 0xeb, 1, 0] @ bytes32 24 @ bytes32 0 @ bytes32 (of_nat (length (enc_part rf fs))) @
     bytes32 (of_nat (length (enc_part rf fs))) @ bytes32 (of_nat (length (enc_part rl ls))) @
     enc_part rf fs @ enc_part rl ls"

definition ext_file_ok :: "bytes \<Rightarrow> u32 \<Rightarrow> ext_sec list \<Rightarrow> u32 \<Rightarrow> ext_sec list \<Rightarrow> bool" where
  "ext_file_ok strs rf fs rl ls \<longleftrightarrow>
     part_ok strs 8 rf fs \<and> part_ok strs 16 rl ls \<and> length (ext_file rf fs rl ls) < 2 ^ 32 \<and>
     of_nat (length (enc_part rf fs)) AND (3 :: u32) = 0"

lemma length_secs_pos:
  assumes "part_ok strs k r ss"
  shows "0 < length (enc_secs ss)"
  using assms by (cases ss) (auto simp: part_ok_def enc_sec_def)

lemma setup_info_enc:
  assumes "part_ok strs k r ss" and "4 \<le> k" and "k < 2 ^ 32" and "load32 (ext_data e) 4 = Some h"
    and "at (ext_data e) (unat h + unat off) (enc_part r ss)" and "off AND 3 = 0"
    and "unat h + unat off + length (enc_part r ss) \<le> unat (ext_data_size e)"
  shows "btf_ext_setup_info e off (of_nat (length (enc_part r ss))) (of_nat k) old =
     Some (0, \<lparr>ext_info = unat h + unat off + 4, ext_rec_size = r, ext_len = of_nat (length (enc_secs ss))\<rparr>)"
proof -
  let ?p = "unat h + unat off" and ?n = "length (enc_secs ss)"
  have len: "length (enc_part r ss) = 4 + ?n" by (simp add: enc_part_def)
  have u: "unat (of_nat (4 + ?n) :: u32) = 4 + ?n" "unat (of_nat ?n :: u32) = ?n"
    using assms(7) len unat_u32_less [of "ext_data_size e"] by (simp_all add: unat_of_nat_eq del: of_nat_add)
  have pos: "0 < ?n" using length_secs_pos [OF assms(1)] .
  have nz: "(of_nat (4 + ?n) :: u32) \<noteq> 0" "(of_nat ?n :: u32) \<noteq> 0" "\<not> (of_nat (4 + ?n) :: u32) < 4"
    using u pos by (metis add_gr_0 less_numeral_extra(3) unat_0, metis less_numeral_extra(3) unat_0,
      simp add: word_less_nat_alt del: of_nat_add)
  have at: "at (ext_data e) ?p (bytes32 r)" "at (ext_data e) (?p + 4) (enc_secs ss)"
    using assms(5) by (simp_all add: enc_part_def at_append_iff)
  have r: "load32 (ext_data e) ?p = Some r"
    using load32_at [OF at(1), of 0] load32_le [of "[]" 0 r "[]"] by simp
  have "unat (of_nat k :: u32) = k" using assms(3) by (simp add: unat_of_nat_eq)
  then have min: "\<not> r < of_nat k" "4 \<le> unat r"
    using assms(1,2) by (simp_all add: part_ok_def word_less_nat_alt)
  have loop: "ext_sec_loop (ext_data e) r (?p + 4) ?n = Some 0"
    using ext_sec_loop_enc [OF at(2)] assms(1) u(2) min(2) unat_u32_less [of "of_nat ?n"] by (simp add: part_ok_def)
  have "of_nat (4 + ?n) - 4 = (of_nat ?n :: u32)" by simp
  then show ?thesis
    unfolding len using nz assms(1,4,6,7) r min(1) loop u len
    by (simp add: btf_ext_setup_info_def part_ok_def Let_def del: of_nat_add)
qed


lemma ext_file_fields:
  "load16 (ext_file rf fs rl ls) 0 = Some 0xeB9F" "load8 (ext_file rf fs rl ls) 2 = Some 1"
  "load8 (ext_file rf fs rl ls) 3 = Some 0" "load32 (ext_file rf fs rl ls) 4 = Some 24"
  "load32 (ext_file rf fs rl ls) 8 = Some 0"
  "load32 (ext_file rf fs rl ls) 12 = Some (of_nat (length (enc_part rf fs)))"
  "load32 (ext_file rf fs rl ls) 16 = Some (of_nat (length (enc_part rf fs)))"
  "load32 (ext_file rf fs rl ls) 20 = Some (of_nat (length (enc_part rl ls)))"
proof -
  let ?a = "[0x9f, 0xeb, 1, 0] :: bytes" and ?f = "bytes32 (of_nat (length (enc_part rf fs)))"
  show "load16 (ext_file rf fs rl ls) 0 = Some 0xeB9F" "load8 (ext_file rf fs rl ls) 2 = Some 1"
    "load8 (ext_file rf fs rl ls) 3 = Some 0"
    by (simp_all add: ext_file_def load16_def load8_def le16_def)
  show "load32 (ext_file rf fs rl ls) 4 = Some 24" "load32 (ext_file rf fs rl ls) 8 = Some 0"
    "load32 (ext_file rf fs rl ls) 12 = Some (of_nat (length (enc_part rf fs)))"
    "load32 (ext_file rf fs rl ls) 16 = Some (of_nat (length (enc_part rf fs)))"
    "load32 (ext_file rf fs rl ls) 20 = Some (of_nat (length (enc_part rl ls)))"
    using load32_le [of ?a 4 24] load32_le [of "?a @ bytes32 24" 8 0] load32_le [of "?a @ bytes32 24 @ bytes32 0" 12]
      load32_le [of "?a @ bytes32 24 @ bytes32 0 @ ?f" 16] load32_le [of "?a @ bytes32 24 @ bytes32 0 @ ?f @ ?f" 20]
    by (simp_all add: ext_file_def)
qed

lemma ext_file_parts:
  "at (ext_file rf fs rl ls) 24 (enc_part rf fs)"
  "at (ext_file rf fs rl ls) (24 + length (enc_part rf fs)) (enc_part rl ls)"
proof -
  let ?h = "[0x9f, 0xeb, 1, 0] @ bytes32 24 @ bytes32 0 @ bytes32 (of_nat (length (enc_part rf fs))) @
     bytes32 (of_nat (length (enc_part rf fs))) @ bytes32 (of_nat (length (enc_part rl ls)))"
  show "at (ext_file rf fs rl ls) 24 (enc_part rf fs)"
    "at (ext_file rf fs rl ls) (24 + length (enc_part rf fs)) (enc_part rl ls)"
    using at_append [of ?h 24 "enc_part rf fs" "enc_part rl ls"]
      at_append [of "?h @ enc_part rf fs" "24 + length (enc_part rf fs)" "enc_part rl ls" "[]"]
    by (simp_all add: ext_file_def)
qed

lemma ext_new_file:
  assumes "ext_file_ok strs rf fs rl ls"
  shows "\<exists>e. btf_ext__new True True (ext_file rf fs rl ls) (of_nat (length (ext_file rf fs rl ls))) = Some (Inr e) \<and>
     ext_data e = ext_file rf fs rl ls \<and>
     func_info e = \<lparr>ext_info = 28, ext_rec_size = rf, ext_len = of_nat (length (enc_secs fs))\<rparr> \<and>
     line_info e = \<lparr>ext_info = 28 + length (enc_part rf fs), ext_rec_size = rl,
       ext_len = of_nat (length (enc_secs ls))\<rparr>"
proof -
  let ?f = "ext_file rf fs rl ls"
  let ?e = "fresh_ext ?f (of_nat (length ?f))"
  have fresh: "ext_data ?e = ?f" "ext_data_size ?e = of_nat (length ?f)" "func_info ?e = no_info"
    "line_info ?e = no_info" by (simp_all add: fresh_ext_def)
  have ok: "part_ok strs 8 rf fs" "part_ok strs 16 rl ls" "length ?f < 2 ^ 32"
    "of_nat (length (enc_part rf fs)) AND (3 :: u32) = 0"
    using assms by (auto simp: ext_file_ok_def)
  have len: "length ?f = 24 + length (enc_part rf fs) + length (enc_part rl ls)" by (simp add: ext_file_def)
  have u: "unat (of_nat (length ?f) :: u32) = length ?f"
    "unat (of_nat (length (enc_part rf fs)) :: u32) = length (enc_part rf fs)"
    using ok(3) len by (simp_all add: unat_of_nat_eq del: of_nat_add)
  have big: "4 \<le> length (enc_part rf fs)" by (simp add: enc_part_def)
  have "(of_nat (length ?f) :: u32) \<noteq> 24"
  proof
    assume a: "of_nat (length ?f) = (24 :: u32)"
    have "unat (of_nat (length ?f) :: u32) = 24" unfolding a by simp
    then show False using u(1) len big by linarith
  qed
  moreover have "\<not> (of_nat (length ?f) :: u32) < 8" "\<not> (of_nat (length ?f) :: u32) < 24"
    using u(1) len by (auto simp: word_less_nat_alt)
  ultimately have hdr: "btf_ext_parse_hdr ?f (of_nat (length ?f)) = Some 0"
    using ext_file_fields [of rf fs rl ls] by (simp add: btf_ext_parse_hdr_def)
  let ?fi = "\<lparr>ext_info = 28, ext_rec_size = rf, ext_len = of_nat (length (enc_secs fs))\<rparr>"
  have fi: "btf_ext_setup_info ?e 0 (of_nat (length (enc_part rf fs))) 8 no_info = Some (0, ?fi)"
    using setup_info_enc [OF ok(1), of ?e 24 0 no_info] ext_file_fields(4) [of rf fs rl ls]
      ext_file_parts(1) [of rf fs rl ls] u(1) len fresh by simp
  let ?li = "\<lparr>ext_info = 28 + length (enc_part rf fs), ext_rec_size = rl, ext_len = of_nat (length (enc_secs ls))\<rparr>"
  have li: "btf_ext_setup_info (?e\<lparr>func_info := ?fi\<rparr>) (of_nat (length (enc_part rf fs)))
      (of_nat (length (enc_part rl ls))) 16 no_info = Some (0, ?li)"
    using setup_info_enc [OF ok(2), of "?e\<lparr>func_info := ?fi\<rparr>" 24 "of_nat (length (enc_part rf fs))" no_info]
      ext_file_fields(4) [of rf fs rl ls] ext_file_parts(2) [of rf fs rl ls] u len ok(4) fresh by simp
  have "ext_setup ?e = Some (0, ?e\<lparr>func_info := ?fi, line_info := ?li\<rparr>)"
    using fi li ext_file_fields [of rf fs rl ls] fresh
    by (simp add: ext_setup_def btf_ext_setup_func_info_def btf_ext_setup_line_info_def)
  moreover have "load_bytes ?f 0 (unat (of_nat (length ?f) :: u32)) = Some ?f" unfolding u by (simp add: load_bytes_def)
  ultimately show ?thesis using hdr fresh by (simp add: btf_ext__new_def)
qed

section \<open>Properties\<close>

text \<open>What the relocation should give.\<close>

definition relocated :: "bytes \<Rightarrow> u8 list \<Rightarrow> ext_sec list \<Rightarrow> u32 \<Rightarrow> bytes \<Rightarrow> u32 \<Rightarrow> int \<times> bytes \<times> u32" where
  "relocated strs nm ss k info cnt =
     (case named_sec strs nm ss of
        None \<Rightarrow> (- 2, info, cnt)
      | Some s \<Rightarrow> (0, info @ concat (map (adjusted k) (snd s)), cnt + of_nat (length (snd s))))"

text \<open>C24. The records that the relocation copies for a section of the program are those of the first section
  of that name, behind the ones there were, with instruction numbers for byte offsets.\<close>

theorem reloc_info_correct:
  assumes "file_ok ds strs" and "ext_file_ok strs rf fs rl ls"
  shows "\<exists>b e. btf__new True True (\<lambda>_. True) (btf_file ds strs) (of_nat (length (btf_file ds strs))) = Some (Inr b) \<and>
     btf_ext__new True True (ext_file rf fs rl ls) (of_nat (length (ext_file rf fs rl ls))) = Some (Inr e) \<and>
     (\<forall>nm k info cnt. 0 \<notin> set nm \<longrightarrow> length info = unat cnt * unat rf \<longrightarrow>
        length info + length (enc_secs fs) < 2 ^ 32 \<longrightarrow>
        btf_ext__reloc_func_info b e True nm k info cnt = Some (relocated strs nm fs k info cnt)) \<and>
     (\<forall>nm k info cnt. 0 \<notin> set nm \<longrightarrow> length info = unat cnt * unat rl \<longrightarrow>
        length info + length (enc_secs ls) < 2 ^ 32 \<longrightarrow>
        btf_ext__reloc_line_info b e True nm k info cnt = Some (relocated strs nm ls k info cnt))"
proof -
  obtain b where b: "btf__new True True (\<lambda>_. True) (btf_file ds strs) (of_nat (length (btf_file ds strs))) = Some (Inr b)"
    "represents b ds strs" using btf_new_file [OF assms(1)] by blast
  obtain e where e: "btf_ext__new True True (ext_file rf fs rl ls) (of_nat (length (ext_file rf fs rl ls))) = Some (Inr e)"
    "ext_data e = ext_file rf fs rl ls"
    "func_info e = \<lparr>ext_info = 28, ext_rec_size = rf, ext_len = of_nat (length (enc_secs fs))\<rparr>"
    "line_info e = \<lparr>ext_info = 28 + length (enc_part rf fs), ext_rec_size = rl,
       ext_len = of_nat (length (enc_secs ls))\<rparr>"
    using ext_new_file [OF assms(2)] by blast
  have ok: "part_ok strs 8 rf fs" "part_ok strs 16 rl ls" using assms(2) by (auto simp: ext_file_ok_def)
  have at: "at (ext_data e) 28 (enc_secs fs)" "at (ext_data e) (28 + length (enc_part rf fs)) (enc_secs ls)"
    using ext_file_parts [of rf fs rl ls] e(2)
    by (simp_all add: enc_part_def at_append_iff)
  have func: "btf_ext__reloc_func_info b e True nm k info cnt = Some (relocated strs nm fs k info cnt)"
    if "0 \<notin> set nm" "length info = unat cnt * unat rf" "length info + length (enc_secs fs) < 2 ^ 32" for nm k info cnt
    using reloc_loop_enc [OF b(2) that(1) _ at(1) _ _ that(2,3), of k] ok(1) e(3) that(3)
      ucast_of_nat_u64 [of "length (enc_secs fs)"]
    by (simp add: btf_ext__reloc_func_info_def btf_ext_reloc_info_def relocated_def part_ok_def)
  have line: "btf_ext__reloc_line_info b e True nm k info cnt = Some (relocated strs nm ls k info cnt)"
    if "0 \<notin> set nm" "length info = unat cnt * unat rl" "length info + length (enc_secs ls) < 2 ^ 32" for nm k info cnt
    using reloc_loop_enc [OF b(2) that(1) _ at(2) _ _ that(2,3), of k] ok(2) e(4) that(3)
      ucast_of_nat_u64 [of "length (enc_secs ls)"]
    by (simp add: btf_ext__reloc_line_info_def btf_ext_reloc_info_def relocated_def part_ok_def)
  show ?thesis using b(1) e(1) func line by blast
qed


text \<open>A section named by the string at offset 1 of the demonstration file, with one record of each kind:
  byte offset 16, instruction 2.\<close>

definition demo_funcs :: "ext_sec list" where
  "demo_funcs = [(1, [bytes32 16 @ bytes32 1])]"

definition demo_lines :: "ext_sec list" where
  "demo_lines = [(1, [bytes32 16 @ bytes32 0 @ bytes32 0 @ bytes32 0])]"

lemma demo_ext_ok: "ext_file_ok demo_strs 8 demo_funcs 16 demo_lines"
  by (simp add: ext_file_ok_def part_ok_def sec_ok_def demo_funcs_def demo_lines_def demo_strs_def
      ext_file_def enc_part_def enc_sec_def container_prefix_def)

theorem reloc_info_correct_witness:
  "\<exists>b e. btf_ext__new True True (ext_file 8 demo_funcs 16 demo_lines)
       (of_nat (length (ext_file 8 demo_funcs 16 demo_lines))) = Some (Inr e) \<and>
     btf_ext__reloc_func_info b e True [105, 110, 116] 100 [] 0 = Some (0, bytes32 102 @ bytes32 1, 1)"
proof -
  obtain b e where e: "btf_ext__new True True (ext_file 8 demo_funcs 16 demo_lines)
       (of_nat (length (ext_file 8 demo_funcs 16 demo_lines))) = Some (Inr e)"
    and r: "\<forall>nm k info cnt. 0 \<notin> set nm \<longrightarrow> length info = unat cnt * unat (8 :: u32) \<longrightarrow>
        length info + length (enc_secs demo_funcs) < 2 ^ 32 \<longrightarrow>
        btf_ext__reloc_func_info b e True nm k info cnt = Some (relocated demo_strs nm demo_funcs k info cnt)"
    using reloc_info_correct [OF demo_file_ok demo_ext_ok] by blast
  have "relocated demo_strs [105, 110, 116] demo_funcs 100 [] 0 = (0, bytes32 102 @ bytes32 1, 1)" by code_simp
  moreover have "length (enc_secs demo_funcs) < 2 ^ 32" by (simp add: demo_funcs_def enc_sec_def)
  ultimately have "btf_ext__reloc_func_info b e True [105, 110, 116] 100 [] 0 = Some (0, bytes32 102 @ bytes32 1, 1)"
    using r [rule_format, of "[105, 110, 116]" "[]" 0 100] by simp
  then show ?thesis using e by blast
qed

text \<open>The name of a section is not checked: an offset outside of the strings, which the parser accepts,
  makes the relocation compare with NULL.\<close>

theorem reloc_null_name:
  assumes "represents b ds strs" and "at m p (enc_secs (s # ss))" and "length strs \<le> unat (fst s)"
    and "ext_info i = p" and "0 < ext_len i" and "ext_data e = m" and "func_info e = i"
  shows "btf_ext__reloc_func_info b e realloc_ok nm k info cnt = None"
proof -
  have "at m p (enc_sec s)" using assms(2) by (simp add: at_append_iff)
  note f = load32_sec [OF this]
  have "hdr_str_len b = Some (of_nat (length strs))" "length strs < 0x7fffffff"
    using assms(1) by (auto simp: represents_def)
  then have "btf__name_by_offset b (fst s) = Some None"
    using assms(3) by (simp add: btf__name_by_offset_def word_less_nat_alt unat_of_nat_31)
  moreover have "(0 :: u64) < ucast (ext_len i)"
    using assms(5) by (metis ucast_u32_u64_eq_0 word_gt_0)
  ultimately show ?thesis
    using f assms(4,6,7) unfolding btf_ext__reloc_func_info_def btf_ext_reloc_info_def
    by (subst reloc_loop.simps) simp
qed

end
