(* ===== verification/BpfSys.thy ===== *)
theory BpfSys
  imports Prelude "HOL-Library.AList"
begin

text \<open>
  The system call layer of libbpf, \<^verbatim>\<open>libbpf/src/bpf.c\<close>. Every function fills in a
  \<^verbatim>\<open>union bpf_attr\<close>, 112 bytes whose layout (\<^verbatim>\<open>linux/bpf.h\<close>) depends on the command, and hands
  it to the kernel; loading a program is repeated as the kernel's answers suggest.

  The kernel is a parameter: it takes the command, the union, the memory of the process and its own
  state, and returns what the system call gives with the new contents of all three. The memory is a map
  from the addresses of blocks to their bytes; NULL is 0. A write outside of a block, and a loop that
  does not end, is \<^term>\<open>None\<close>.
\<close>

section \<open>Definitions\<close>

subsection \<open>The system call\<close>

datatype bpf_cmd =
    BPF_MAP_CREATE | BPF_MAP_LOOKUP_ELEM | BPF_MAP_UPDATE_ELEM | BPF_MAP_DELETE_ELEM
  | BPF_MAP_GET_NEXT_KEY | BPF_PROG_LOAD | BPF_OBJ_PIN | BPF_OBJ_GET | BPF_PROG_ATTACH
  | BPF_PROG_DETACH | BPF_PROG_TEST_RUN | BPF_PROG_GET_NEXT_ID | BPF_MAP_GET_NEXT_ID
  | BPF_PROG_GET_FD_BY_ID | BPF_MAP_GET_FD_BY_ID | BPF_OBJ_GET_INFO_BY_FD | BPF_PROG_QUERY
  | BPF_RAW_TRACEPOINT_OPEN | BPF_BTF_LOAD | BPF_BTF_GET_FD_BY_ID | BPF_TASK_FD_QUERY
  | BPF_MAP_LOOKUP_AND_DELETE_ELEM | BPF_MAP_FREEZE | BPF_BTF_GET_NEXT_ID

type_synonym user_mem = "u64 \<Rightarrow> bytes option"

record 'k proc =
  pr_kern :: 'k
  pr_errno :: int
  pr_mem :: user_mem

type_synonym 'k bpf_kernel = "bpf_cmd \<Rightarrow> bytes \<Rightarrow> user_mem \<Rightarrow> 'k \<Rightarrow> int \<times> bytes \<times> user_mem \<times> 'k"

text \<open>\<^verbatim>\<open>syscall\<close>: a result from -4095 to -1 is an error code.\<close>

definition sys_bpf :: "'k bpf_kernel \<Rightarrow> bpf_cmd \<Rightarrow> bytes \<Rightarrow> 'k proc \<Rightarrow> int \<times> bytes \<times> 'k proc" where
  "sys_bpf sys cmd attr s =
     (let (r, attr', m, k) = sys cmd attr (pr_mem s) (pr_kern s);
          s' = s\<lparr>pr_mem := m, pr_kern := k\<rparr>
      in if - 4095 \<le> r \<and> r < 0 then (- 1, attr', s'\<lparr>pr_errno := - r\<rparr>) else (r, attr', s'))"

partial_function (option) sys_bpf_prog_load ::
  "'k bpf_kernel \<Rightarrow> bytes \<Rightarrow> 'k proc \<Rightarrow> (int \<times> bytes \<times> 'k proc) option" where
  "sys_bpf_prog_load sys attr s =
     (case sys_bpf sys BPF_PROG_LOAD attr s of
        (fd, attr', s') \<Rightarrow>
          if fd < 0 \<and> pr_errno s' = 11 then sys_bpf_prog_load sys attr' s' else Some (fd, attr', s'))"

text \<open>A zeroed union with some fields set, and the call.\<close>

definition zero_attr :: bytes where
  "zero_attr = replicate 112 0"

definition bpf_call ::
  "'k bpf_kernel \<Rightarrow> bpf_cmd \<Rightarrow> (nat \<times> bytes) list \<Rightarrow> 'k proc \<Rightarrow> int \<times> bytes \<times> 'k proc" where
  "bpf_call sys cmd fs s = sys_bpf sys cmd (set_fields zero_attr fs) s"

definition bpf_result ::
  "'k bpf_kernel \<Rightarrow> bpf_cmd \<Rightarrow> (nat \<times> bytes) list \<Rightarrow> 'k proc \<Rightarrow> int \<times> 'k proc" where
  "bpf_result sys cmd fs s = (case bpf_call sys cmd fs s of (r, _, s') \<Rightarrow> (r, s'))"

text \<open>The conversion of an \<^verbatim>\<open>int\<close> to \<^verbatim>\<open>__u32\<close>.\<close>

abbreviation int32 :: "int \<Rightarrow> bytes" where
  "int32 i \<equiv> bytes32 (of_int i)"

subsection \<open>Creating maps\<close>

record bpf_create_map_attr =
  cm_name :: "bytes option"
  cm_map_type :: u32
  cm_map_flags :: u32
  cm_key_size :: u32
  cm_value_size :: u32
  cm_max_entries :: u32
  cm_numa_node :: u32
  cm_btf_fd :: u32
  cm_btf_key_type_id :: u32
  cm_btf_value_type_id :: u32
  cm_map_ifindex :: u32
  cm_inner_map_fd :: u32

definition BPF_OBJ_NAME_LEN :: nat where "BPF_OBJ_NAME_LEN = 16"
definition BPF_F_NUMA_NODE :: u32 where "BPF_F_NUMA_NODE = 4"

text \<open>What is copied of a name, without its NUL.\<close>

definition obj_name :: "bytes option \<Rightarrow> bytes" where
  "obj_name name =
     (case name of None \<Rightarrow> [] | Some nm \<Rightarrow> take (min (length nm) (BPF_OBJ_NAME_LEN - 1)) nm)"

definition bpf_create_map_xattr ::
  "'k bpf_kernel \<Rightarrow> bpf_create_map_attr \<Rightarrow> 'k proc \<Rightarrow> int \<times> 'k proc" where
  "bpf_create_map_xattr sys a =
     bpf_result sys BPF_MAP_CREATE
       [(0, bytes32 (cm_map_type a)), (4, bytes32 (cm_key_size a)), (8, bytes32 (cm_value_size a)),
        (12, bytes32 (cm_max_entries a)), (16, bytes32 (cm_map_flags a)), (28, obj_name (cm_name a)),
        (24, bytes32 (cm_numa_node a)), (48, bytes32 (cm_btf_fd a)), (52, bytes32 (cm_btf_key_type_id a)),
        (56, bytes32 (cm_btf_value_type_id a)), (44, bytes32 (cm_map_ifindex a)),
        (20, bytes32 (cm_inner_map_fd a))]"

definition no_map_attr :: bpf_create_map_attr where
  "no_map_attr = \<lparr>cm_name = None, cm_map_type = 0, cm_map_flags = 0, cm_key_size = 0, cm_value_size = 0,
     cm_max_entries = 0, cm_numa_node = 0, cm_btf_fd = 0, cm_btf_key_type_id = 0,
     cm_btf_value_type_id = 0, cm_map_ifindex = 0, cm_inner_map_fd = 0\<rparr>"

definition bpf_create_map_node ::
  "'k bpf_kernel \<Rightarrow> u32 \<Rightarrow> bytes option \<Rightarrow> int \<Rightarrow> int \<Rightarrow> int \<Rightarrow> u32 \<Rightarrow> int \<Rightarrow> 'k proc \<Rightarrow> int \<times> 'k proc" where
  "bpf_create_map_node sys map_type name key_size value_size max_entries map_flags node =
     (let a = no_map_attr\<lparr>cm_name := name, cm_map_type := map_type, cm_map_flags := map_flags,
            cm_key_size := of_int key_size, cm_value_size := of_int value_size,
            cm_max_entries := of_int max_entries\<rparr>;
          a = (if node \<ge> 0
               then a\<lparr>cm_numa_node := of_int node, cm_map_flags := cm_map_flags a OR BPF_F_NUMA_NODE\<rparr>
               else a)
      in bpf_create_map_xattr sys a)"

definition bpf_create_map ::
  "'k bpf_kernel \<Rightarrow> u32 \<Rightarrow> int \<Rightarrow> int \<Rightarrow> int \<Rightarrow> u32 \<Rightarrow> 'k proc \<Rightarrow> int \<times> 'k proc" where
  "bpf_create_map sys map_type key_size value_size max_entries map_flags =
     bpf_create_map_xattr sys (no_map_attr\<lparr>cm_map_type := map_type, cm_map_flags := map_flags,
       cm_key_size := of_int key_size, cm_value_size := of_int value_size,
       cm_max_entries := of_int max_entries\<rparr>)"

definition bpf_create_map_name ::
  "'k bpf_kernel \<Rightarrow> u32 \<Rightarrow> bytes option \<Rightarrow> int \<Rightarrow> int \<Rightarrow> int \<Rightarrow> u32 \<Rightarrow> 'k proc \<Rightarrow> int \<times> 'k proc" where
  "bpf_create_map_name sys map_type name key_size value_size max_entries map_flags =
     bpf_create_map_xattr sys (no_map_attr\<lparr>cm_name := name, cm_map_type := map_type,
       cm_map_flags := map_flags, cm_key_size := of_int key_size, cm_value_size := of_int value_size,
       cm_max_entries := of_int max_entries\<rparr>)"

definition bpf_create_map_in_map_node ::
  "'k bpf_kernel \<Rightarrow> u32 \<Rightarrow> bytes option \<Rightarrow> int \<Rightarrow> int \<Rightarrow> int \<Rightarrow> u32 \<Rightarrow> int \<Rightarrow> 'k proc \<Rightarrow> int \<times> 'k proc" where
  "bpf_create_map_in_map_node sys map_type name key_size inner_map_fd max_entries map_flags node =
     bpf_result sys BPF_MAP_CREATE
       ([(0, bytes32 map_type), (4, int32 key_size), (8, bytes32 4), (20, int32 inner_map_fd),
         (12, int32 max_entries), (16, bytes32 map_flags), (28, obj_name name)] @
        (if node \<ge> 0 then [(16, bytes32 (map_flags OR BPF_F_NUMA_NODE)), (24, int32 node)] else []))"

definition bpf_create_map_in_map ::
  "'k bpf_kernel \<Rightarrow> u32 \<Rightarrow> bytes option \<Rightarrow> int \<Rightarrow> int \<Rightarrow> int \<Rightarrow> u32 \<Rightarrow> 'k proc \<Rightarrow> int \<times> 'k proc" where
  "bpf_create_map_in_map sys map_type name key_size inner_map_fd max_entries map_flags =
     bpf_create_map_in_map_node sys map_type name key_size inner_map_fd max_entries map_flags (- 1)"

subsection \<open>Loading programs\<close>

text \<open>\<^verbatim>\<open>malloc\<close>: the address of a new block and what it happens to hold, or \<^term>\<open>None\<close>.\<close>

type_synonym allocator = "nat \<Rightarrow> user_mem \<Rightarrow> (u64 \<times> bytes) option"

definition free_mem :: "u64 \<Rightarrow> user_mem \<Rightarrow> user_mem" where
  "free_mem p m = (if p = 0 then m else m(p := None))"

definition poke8 :: "user_mem \<Rightarrow> u64 \<Rightarrow> u8 \<Rightarrow> user_mem option" where
  "poke8 m p v = do { d \<leftarrow> m p; d' \<leftarrow> store8 d 0 v; Some (m(p \<mapsto> d')) }"

text \<open>The body of the loop of \<^verbatim>\<open>alloc_zero_tailing_info\<close>, for record \<open>i\<close>.\<close>

definition copy_head :: "bytes \<Rightarrow> nat \<Rightarrow> nat \<Rightarrow> nat \<Rightarrow> bytes \<Rightarrow> bytes option" where
  "copy_head src actual expected i buf = do {
     r \<leftarrow> load_bytes src (i * actual) expected;
     buf \<leftarrow> store_bytes buf (i * actual) r;
     if actual < expected then None
     else store_bytes buf (i * actual + expected) (replicate (actual - expected) 0) }"

text \<open>The result is 0 if there is no memory; the counter of the loop is an \<^verbatim>\<open>int\<close>.\<close>

definition alloc_zero_tailing_info ::
  "allocator \<Rightarrow> u64 \<Rightarrow> u32 \<Rightarrow> u32 \<Rightarrow> u32 \<Rightarrow> 'k proc \<Rightarrow> (u64 \<times> 'k proc) option" where
  "alloc_zero_tailing_info alloc orecord cnt actual expected s =
     (case alloc (unat actual * unat cnt) (pr_mem s) of
        None \<Rightarrow> Some (0, s\<lparr>pr_errno := 12\<rparr>)
      | Some (info, junk) \<Rightarrow>
          if cnt = 0 then Some (info, s\<lparr>pr_mem := (pr_mem s)(info \<mapsto> junk)\<rparr>)
          else if 2 ^ 31 \<le> unat cnt then None
          else do {
            src \<leftarrow> pr_mem s orecord;
            d \<leftarrow> for_upto (unat cnt) (copy_head src (unat actual) (unat expected)) junk;
            Some (info, s\<lparr>pr_mem := (pr_mem s)(info \<mapsto> d)\<rparr>) })"

record bpf_load_program_attr =
  lp_prog_type :: u32
  lp_expected_attach_type :: u32
  lp_name :: "bytes option"
  lp_insns :: u64
  lp_insns_cnt :: u64
  lp_license :: u64
  lp_kern_version :: u32
  lp_ifindex_or_btf_id :: u32
  lp_prog_btf_fd :: u32
  lp_func_info_rec_size :: u32
  lp_func_info :: u64
  lp_func_info_cnt :: u32
  lp_line_info_rec_size :: u32
  lp_line_info :: u64
  lp_line_info_cnt :: u32
  lp_log_level :: u32
  lp_prog_flags :: u32

definition BPF_PROG_TYPE_TRACING :: u32 where "BPF_PROG_TYPE_TRACING = 26"

text \<open>The union that \<^verbatim>\<open>bpf_load_program_xattr\<close> fills in; \<open>log_sz\<close> is cut to 32 bits.\<close>

definition load_fields :: "bpf_load_program_attr \<Rightarrow> u64 \<Rightarrow> u64 \<Rightarrow> (nat \<times> bytes) list" where
  "load_fields a log_buf log_sz =
     [(0, bytes32 (lp_prog_type a)), (68, bytes32 (lp_expected_attach_type a)),
      (if lp_prog_type a = BPF_PROG_TYPE_TRACING then 108 else 64, bytes32 (lp_ifindex_or_btf_id a)),
      (4, bytes32 (ucast (lp_insns_cnt a))), (8, bytes64 (lp_insns a)), (16, bytes64 (lp_license a)),
      (24, bytes32 (lp_log_level a)),
      (32, bytes64 (if lp_log_level a \<noteq> 0 then log_buf else 0)),
      (28, bytes32 (if lp_log_level a \<noteq> 0 then ucast log_sz else 0)),
      (40, bytes32 (lp_kern_version a)), (72, bytes32 (lp_prog_btf_fd a)),
      (76, bytes32 (lp_func_info_rec_size a)), (88, bytes32 (lp_func_info_cnt a)),
      (80, bytes64 (lp_func_info a)), (92, bytes32 (lp_line_info_rec_size a)),
      (104, bytes32 (lp_line_info_cnt a)), (96, bytes64 (lp_line_info a)),
      (48, obj_name (lp_name a)), (44, bytes32 (lp_prog_flags a))]"

text \<open>The loop that loads again with corrected records. The first component of the result says whether
  the code jumped to \<^verbatim>\<open>done\<close>.\<close>

function correct_loop ::
  "'k bpf_kernel \<Rightarrow> allocator \<Rightarrow> bpf_load_program_attr \<Rightarrow> int \<Rightarrow> u64 \<Rightarrow> u64 \<Rightarrow> bytes \<Rightarrow> 'k proc \<Rightarrow>
   (bool \<times> int \<times> u64 \<times> u64 \<times> bytes \<times> 'k proc) option"
where
  "correct_loop sys alloc a fd finfo linfo attr s =
     (if pr_errno s = 7 \<and> (finfo = 0 \<or> linfo = 0) then do {
        func_cnt \<leftarrow> load32 attr 88;
        func_rec \<leftarrow> load32 attr 76;
        line_cnt \<leftarrow> load32 attr 104;
        line_rec \<leftarrow> load32 attr 92;
        if finfo = 0 \<and> func_cnt \<noteq> 0 \<and> func_rec < lp_func_info_rec_size a then do {
          (finfo', s) \<leftarrow> alloc_zero_tailing_info alloc (lp_func_info a) (lp_func_info_cnt a)
                          (lp_func_info_rec_size a) func_rec s;
          if finfo' = 0 then Some (True, fd, 0, linfo, attr, s)
          else do {
            let attr = set_fields attr [(80, bytes64 finfo'), (76, bytes32 (lp_func_info_rec_size a))];
            (fd, attr, s) \<leftarrow> sys_bpf_prog_load sys attr s;
            if fd \<ge> 0 then Some (True, fd, finfo', linfo, attr, s)
            else correct_loop sys alloc a fd finfo' linfo attr s } }
        else if linfo = 0 \<and> line_cnt \<noteq> 0 \<and> line_rec < lp_line_info_rec_size a then do {
          (linfo', s) \<leftarrow> alloc_zero_tailing_info alloc (lp_line_info a) (lp_line_info_cnt a)
                          (lp_line_info_rec_size a) line_rec s;
          if linfo' = 0 then Some (True, fd, finfo, 0, attr, s)
          else do {
            let attr = set_fields attr [(96, bytes64 linfo'), (92, bytes32 (lp_line_info_rec_size a))];
            (fd, attr, s) \<leftarrow> sys_bpf_prog_load sys attr s;
            if fd \<ge> 0 then Some (True, fd, finfo, linfo', attr, s)
            else correct_loop sys alloc a fd finfo linfo' attr s } }
        else Some (False, fd, finfo, linfo, attr, s) }
      else Some (False, fd, finfo, linfo, attr, s))"
  by pat_completeness auto
termination
  by (relation "measure (\<lambda>(sys, alloc, a, fd, f, l, attr, s). of_bool (f = 0) + of_bool (l = 0))") auto

declare correct_loop.simps [simp del]

text \<open>The release of the copies at \<^verbatim>\<open>done\<close>.\<close>

definition load_done :: "int \<Rightarrow> u64 \<Rightarrow> u64 \<Rightarrow> 'k proc \<Rightarrow> int \<times> 'k proc" where
  "load_done fd finfo linfo s = (fd, s\<lparr>pr_mem := free_mem linfo (free_mem finfo (pr_mem s))\<rparr>)"

definition bpf_load_program_xattr ::
  "'k bpf_kernel \<Rightarrow> allocator \<Rightarrow> bpf_load_program_attr option \<Rightarrow> u64 \<Rightarrow> u64 \<Rightarrow> 'k proc \<Rightarrow>
   (int \<times> 'k proc) option" where
  "bpf_load_program_xattr sys alloc load_attr log_buf log_sz s =
     (case load_attr of
        None \<Rightarrow> Some (- 22, s)
      | Some a \<Rightarrow>
          if (log_buf = 0) \<noteq> (log_sz = 0) then Some (- 22, s)
          else if lp_log_level a > 7 \<or> lp_log_level a \<noteq> 0 \<and> log_buf = 0 then Some (- 22, s)
          else do {
            (fd, attr, s) \<leftarrow> sys_bpf_prog_load sys (set_fields zero_attr (load_fields a log_buf log_sz)) s;
            if fd \<ge> 0 then Some (fd, s)
            else do {
              (is_done, fd, finfo, linfo, attr, s) \<leftarrow> correct_loop sys alloc a fd 0 0 attr s;
              if is_done \<or> lp_log_level a \<noteq> 0 \<or> log_buf = 0 then Some (load_done fd finfo linfo s)
              else do {
                let attr = set_fields attr [(32, bytes64 log_buf), (28, bytes32 (ucast log_sz)), (24, bytes32 1)];
                m \<leftarrow> poke8 (pr_mem s) log_buf 0;
                (fd, attr, s) \<leftarrow> sys_bpf_prog_load sys attr (s\<lparr>pr_mem := m\<rparr>);
                Some (load_done fd finfo linfo s) } } })"

definition bpf_load_program ::
  "'k bpf_kernel \<Rightarrow> allocator \<Rightarrow> u32 \<Rightarrow> u64 \<Rightarrow> u64 \<Rightarrow> u64 \<Rightarrow> u32 \<Rightarrow> u64 \<Rightarrow> u64 \<Rightarrow> 'k proc \<Rightarrow>
   (int \<times> 'k proc) option" where
  "bpf_load_program sys alloc type insns insns_cnt license kern_version log_buf log_sz s =
     bpf_load_program_xattr sys alloc
       (Some \<lparr>lp_prog_type = type, lp_expected_attach_type = 0, lp_name = None, lp_insns = insns,
          lp_insns_cnt = insns_cnt, lp_license = license, lp_kern_version = kern_version,
          lp_ifindex_or_btf_id = 0, lp_prog_btf_fd = 0, lp_func_info_rec_size = 0, lp_func_info = 0,
          lp_func_info_cnt = 0, lp_line_info_rec_size = 0, lp_line_info = 0, lp_line_info_cnt = 0,
          lp_log_level = 0, lp_prog_flags = 0\<rparr>) log_buf log_sz s"

definition bpf_verify_program ::
  "'k bpf_kernel \<Rightarrow> u32 \<Rightarrow> u64 \<Rightarrow> u64 \<Rightarrow> u32 \<Rightarrow> u64 \<Rightarrow> u32 \<Rightarrow> u64 \<Rightarrow> u64 \<Rightarrow> int \<Rightarrow> 'k proc \<Rightarrow>
   (int \<times> 'k proc) option" where
  "bpf_verify_program sys type insns insns_cnt prog_flags license kern_version log_buf log_sz log_level s = do {
     m \<leftarrow> poke8 (pr_mem s) log_buf 0;
     (fd, attr, s) \<leftarrow> sys_bpf_prog_load sys
       (set_fields zero_attr
         [(0, bytes32 type), (4, bytes32 (ucast insns_cnt)), (8, bytes64 insns), (16, bytes64 license),
          (32, bytes64 log_buf), (28, bytes32 (ucast log_sz)), (24, int32 log_level),
          (40, bytes32 kern_version), (44, bytes32 prog_flags)]) (s\<lparr>pr_mem := m\<rparr>);
     Some (fd, s) }"

subsection \<open>Elements of maps\<close>

definition bpf_map_update_elem :: "'k bpf_kernel \<Rightarrow> int \<Rightarrow> u64 \<Rightarrow> u64 \<Rightarrow> u64 \<Rightarrow> 'k proc \<Rightarrow> int \<times> 'k proc" where
  "bpf_map_update_elem sys fd key val flags =
     bpf_result sys BPF_MAP_UPDATE_ELEM [(0, int32 fd), (8, bytes64 key), (16, bytes64 val), (24, bytes64 flags)]"

definition bpf_map_lookup_elem :: "'k bpf_kernel \<Rightarrow> int \<Rightarrow> u64 \<Rightarrow> u64 \<Rightarrow> 'k proc \<Rightarrow> int \<times> 'k proc" where
  "bpf_map_lookup_elem sys fd key val =
     bpf_result sys BPF_MAP_LOOKUP_ELEM [(0, int32 fd), (8, bytes64 key), (16, bytes64 val)]"

definition bpf_map_lookup_elem_flags :: "'k bpf_kernel \<Rightarrow> int \<Rightarrow> u64 \<Rightarrow> u64 \<Rightarrow> u64 \<Rightarrow> 'k proc \<Rightarrow> int \<times> 'k proc" where
  "bpf_map_lookup_elem_flags sys fd key val flags =
     bpf_result sys BPF_MAP_LOOKUP_ELEM [(0, int32 fd), (8, bytes64 key), (16, bytes64 val), (24, bytes64 flags)]"

definition bpf_map_lookup_and_delete_elem :: "'k bpf_kernel \<Rightarrow> int \<Rightarrow> u64 \<Rightarrow> u64 \<Rightarrow> 'k proc \<Rightarrow> int \<times> 'k proc" where
  "bpf_map_lookup_and_delete_elem sys fd key val =
     bpf_result sys BPF_MAP_LOOKUP_AND_DELETE_ELEM [(0, int32 fd), (8, bytes64 key), (16, bytes64 val)]"

definition bpf_map_delete_elem :: "'k bpf_kernel \<Rightarrow> int \<Rightarrow> u64 \<Rightarrow> 'k proc \<Rightarrow> int \<times> 'k proc" where
  "bpf_map_delete_elem sys fd key =
     bpf_result sys BPF_MAP_DELETE_ELEM [(0, int32 fd), (8, bytes64 key)]"

definition bpf_map_get_next_key :: "'k bpf_kernel \<Rightarrow> int \<Rightarrow> u64 \<Rightarrow> u64 \<Rightarrow> 'k proc \<Rightarrow> int \<times> 'k proc" where
  "bpf_map_get_next_key sys fd key next_key =
     bpf_result sys BPF_MAP_GET_NEXT_KEY [(0, int32 fd), (8, bytes64 key), (16, bytes64 next_key)]"

definition bpf_map_freeze :: "'k bpf_kernel \<Rightarrow> int \<Rightarrow> 'k proc \<Rightarrow> int \<times> 'k proc" where
  "bpf_map_freeze sys fd =
     bpf_result sys BPF_MAP_FREEZE [(0, int32 fd)]"

subsection \<open>Objects\<close>

definition bpf_obj_pin :: "'k bpf_kernel \<Rightarrow> int \<Rightarrow> u64 \<Rightarrow> 'k proc \<Rightarrow> int \<times> 'k proc" where
  "bpf_obj_pin sys fd pathname =
     bpf_result sys BPF_OBJ_PIN [(0, bytes64 pathname), (8, int32 fd)]"

definition bpf_obj_get :: "'k bpf_kernel \<Rightarrow> u64 \<Rightarrow> 'k proc \<Rightarrow> int \<times> 'k proc" where
  "bpf_obj_get sys pathname =
     bpf_result sys BPF_OBJ_GET [(0, bytes64 pathname)]"

definition bpf_prog_attach :: "'k bpf_kernel \<Rightarrow> int \<Rightarrow> int \<Rightarrow> u32 \<Rightarrow> u32 \<Rightarrow> 'k proc \<Rightarrow> int \<times> 'k proc" where
  "bpf_prog_attach sys prog_fd target_fd type flags =
     bpf_result sys BPF_PROG_ATTACH [(0, int32 target_fd), (4, int32 prog_fd), (8, bytes32 type), (12, bytes32 flags)]"

definition bpf_prog_detach :: "'k bpf_kernel \<Rightarrow> int \<Rightarrow> u32 \<Rightarrow> 'k proc \<Rightarrow> int \<times> 'k proc" where
  "bpf_prog_detach sys target_fd type =
     bpf_result sys BPF_PROG_DETACH [(0, int32 target_fd), (8, bytes32 type)]"

definition bpf_prog_detach2 :: "'k bpf_kernel \<Rightarrow> int \<Rightarrow> int \<Rightarrow> u32 \<Rightarrow> 'k proc \<Rightarrow> int \<times> 'k proc" where
  "bpf_prog_detach2 sys prog_fd target_fd type =
     bpf_result sys BPF_PROG_DETACH [(0, int32 target_fd), (4, int32 prog_fd), (8, bytes32 type)]"

text \<open>An output parameter that may be NULL.\<close>

definition if_out :: "bool \<Rightarrow> 'a \<Rightarrow> 'a option" where
  "if_out given v = (if given then Some v else None)"

text \<open>The results are the return value, \<^verbatim>\<open>*attach_flags\<close> and \<^verbatim>\<open>*prog_cnt\<close>.\<close>

definition bpf_prog_query ::
  "'k bpf_kernel \<Rightarrow> int \<Rightarrow> u32 \<Rightarrow> u32 \<Rightarrow> bool \<Rightarrow> u64 \<Rightarrow> u32 \<Rightarrow> 'k proc \<Rightarrow>
   (int \<times> u32 option \<times> u32 \<times> 'k proc) option" where
  "bpf_prog_query sys target_fd type query_flags want_flags prog_ids prog_cnt s =
     (case bpf_call sys BPF_PROG_QUERY
        [(0, int32 target_fd), (4, bytes32 type), (8, bytes32 query_flags), (24, bytes32 prog_cnt),
         (16, bytes64 prog_ids)] s of
        (ret, attr, s) \<Rightarrow> do {
          attach_flags \<leftarrow> load32 attr 12;
          prog_cnt \<leftarrow> load32 attr 24;
          Some (ret, if_out want_flags attach_flags, prog_cnt, s) })"

definition bpf_prog_test_run ::
  "'k bpf_kernel \<Rightarrow> int \<Rightarrow> int \<Rightarrow> u64 \<Rightarrow> u32 \<Rightarrow> u64 \<Rightarrow> bool \<Rightarrow> bool \<Rightarrow> bool \<Rightarrow> 'k proc \<Rightarrow>
   (int \<times> u32 option \<times> u32 option \<times> u32 option \<times> 'k proc) option" where
  "bpf_prog_test_run sys prog_fd repeat data sz data_out want_size want_retval want_duration s =
     (case bpf_call sys BPF_PROG_TEST_RUN
        [(0, int32 prog_fd), (16, bytes64 data), (24, bytes64 data_out), (8, bytes32 sz),
         (32, int32 repeat)] s of
        (ret, attr, s) \<Rightarrow> do {
          size_out \<leftarrow> load32 attr 12;
          retval \<leftarrow> load32 attr 4;
          duration \<leftarrow> load32 attr 36;
          Some (ret, if_out want_size size_out, if_out want_retval retval, if_out want_duration duration, s) })"

record bpf_prog_test_run_attr =
  tr_prog_fd :: int
  tr_repeat :: int
  tr_data_in :: u64
  tr_data_size_in :: u32
  tr_data_out :: u64
  tr_data_size_out :: u32
  tr_retval :: u32
  tr_duration :: u32
  tr_ctx_in :: u64
  tr_ctx_size_in :: u32
  tr_ctx_out :: u64
  tr_ctx_size_out :: u32

definition bpf_prog_test_run_xattr ::
  "'k bpf_kernel \<Rightarrow> bpf_prog_test_run_attr \<Rightarrow> 'k proc \<Rightarrow> (int \<times> bpf_prog_test_run_attr \<times> 'k proc) option" where
  "bpf_prog_test_run_xattr sys t s =
     (if tr_data_out t = 0 \<and> tr_data_size_out t > 0 then Some (- 22, t, s)
      else case bpf_call sys BPF_PROG_TEST_RUN
        [(0, int32 (tr_prog_fd t)), (16, bytes64 (tr_data_in t)), (24, bytes64 (tr_data_out t)),
         (8, bytes32 (tr_data_size_in t)), (12, bytes32 (tr_data_size_out t)), (48, bytes64 (tr_ctx_in t)),
         (56, bytes64 (tr_ctx_out t)), (40, bytes32 (tr_ctx_size_in t)), (44, bytes32 (tr_ctx_size_out t)),
         (32, int32 (tr_repeat t))] s of
        (ret, attr, s) \<Rightarrow> do {
          data_size_out \<leftarrow> load32 attr 12;
          ctx_size_out \<leftarrow> load32 attr 44;
          retval \<leftarrow> load32 attr 4;
          duration \<leftarrow> load32 attr 36;
          Some (ret, t\<lparr>tr_data_size_out := data_size_out, tr_ctx_size_out := ctx_size_out,
                       tr_retval := retval, tr_duration := duration\<rparr>, s) })"

text \<open>\<^verbatim>\<open>*next_id\<close> is written if the call succeeds.\<close>

definition bpf_obj_get_next_id ::
  "'k bpf_kernel \<Rightarrow> u32 \<Rightarrow> u32 \<Rightarrow> bpf_cmd \<Rightarrow> 'k proc \<Rightarrow> (int \<times> u32 \<times> 'k proc) option" where
  "bpf_obj_get_next_id sys start_id next_id cmd s =
     (case bpf_call sys cmd [(0, bytes32 start_id)] s of
        (err, attr, s) \<Rightarrow> if err = 0 then do { n \<leftarrow> load32 attr 4; Some (err, n, s) } else Some (err, next_id, s))"

definition bpf_prog_get_next_id :: "'k bpf_kernel \<Rightarrow> u32 \<Rightarrow> u32 \<Rightarrow> 'k proc \<Rightarrow> (int \<times> u32 \<times> 'k proc) option" where
  "bpf_prog_get_next_id sys start_id next_id = bpf_obj_get_next_id sys start_id next_id BPF_PROG_GET_NEXT_ID"

definition bpf_map_get_next_id :: "'k bpf_kernel \<Rightarrow> u32 \<Rightarrow> u32 \<Rightarrow> 'k proc \<Rightarrow> (int \<times> u32 \<times> 'k proc) option" where
  "bpf_map_get_next_id sys start_id next_id = bpf_obj_get_next_id sys start_id next_id BPF_MAP_GET_NEXT_ID"

definition bpf_btf_get_next_id :: "'k bpf_kernel \<Rightarrow> u32 \<Rightarrow> u32 \<Rightarrow> 'k proc \<Rightarrow> (int \<times> u32 \<times> 'k proc) option" where
  "bpf_btf_get_next_id sys start_id next_id = bpf_obj_get_next_id sys start_id next_id BPF_BTF_GET_NEXT_ID"

definition bpf_prog_get_fd_by_id :: "'k bpf_kernel \<Rightarrow> u32 \<Rightarrow> 'k proc \<Rightarrow> int \<times> 'k proc" where
  "bpf_prog_get_fd_by_id sys obj_id =
     bpf_result sys BPF_PROG_GET_FD_BY_ID [(0, bytes32 obj_id)]"

definition bpf_map_get_fd_by_id :: "'k bpf_kernel \<Rightarrow> u32 \<Rightarrow> 'k proc \<Rightarrow> int \<times> 'k proc" where
  "bpf_map_get_fd_by_id sys obj_id =
     bpf_result sys BPF_MAP_GET_FD_BY_ID [(0, bytes32 obj_id)]"

definition bpf_btf_get_fd_by_id :: "'k bpf_kernel \<Rightarrow> u32 \<Rightarrow> 'k proc \<Rightarrow> int \<times> 'k proc" where
  "bpf_btf_get_fd_by_id sys obj_id =
     bpf_result sys BPF_BTF_GET_FD_BY_ID [(0, bytes32 obj_id)]"

definition bpf_obj_get_info_by_fd ::
  "'k bpf_kernel \<Rightarrow> int \<Rightarrow> u64 \<Rightarrow> u32 \<Rightarrow> 'k proc \<Rightarrow> (int \<times> u32 \<times> 'k proc) option" where
  "bpf_obj_get_info_by_fd sys prog_fd info info_len s =
     (case bpf_call sys BPF_OBJ_GET_INFO_BY_FD
        [(0, int32 prog_fd), (4, bytes32 info_len), (8, bytes64 info)] s of
        (err, attr, s) \<Rightarrow> if err = 0 then do { n \<leftarrow> load32 attr 4; Some (err, n, s) } else Some (err, info_len, s))"

definition bpf_raw_tracepoint_open :: "'k bpf_kernel \<Rightarrow> u64 \<Rightarrow> int \<Rightarrow> 'k proc \<Rightarrow> int \<times> 'k proc" where
  "bpf_raw_tracepoint_open sys name prog_fd =
     bpf_result sys BPF_RAW_TRACEPOINT_OPEN [(0, bytes64 name), (8, int32 prog_fd)]"

text \<open>One round of \<^verbatim>\<open>bpf_load_btf\<close>.\<close>

definition load_btf_round ::
  "'k bpf_kernel \<Rightarrow> u64 \<Rightarrow> u32 \<Rightarrow> bool \<Rightarrow> bytes \<Rightarrow> 'k proc \<Rightarrow> int \<times> bytes \<times> 'k proc" where
  "load_btf_round sys log_buf log_buf_size do_log attr s =
     sys_bpf sys BPF_BTF_LOAD
       (if do_log \<and> log_buf \<noteq> 0 \<and> log_buf_size \<noteq> 0
        then set_fields attr [(24, bytes32 1), (20, bytes32 log_buf_size), (8, bytes64 log_buf)] else attr) s"

definition bpf_load_btf ::
  "'k bpf_kernel \<Rightarrow> u64 \<Rightarrow> u32 \<Rightarrow> u64 \<Rightarrow> u32 \<Rightarrow> bool \<Rightarrow> 'k proc \<Rightarrow> int \<times> 'k proc" where
  "bpf_load_btf sys btf btf_size log_buf log_buf_size do_log s =
     (let (fd, attr, s) = load_btf_round sys log_buf log_buf_size do_log
            (set_fields zero_attr [(0, bytes64 btf), (16, bytes32 btf_size)]) s
      in if fd = - 1 \<and> \<not> do_log \<and> log_buf \<noteq> 0 \<and> log_buf_size \<noteq> 0
         then (case load_btf_round sys log_buf log_buf_size True attr s of (fd, _, s) \<Rightarrow> (fd, s))
         else (fd, s))"

record task_fd_info =
  tq_buf_len :: u32
  tq_prog_id :: u32
  tq_fd_type :: u32
  tq_probe_offset :: u64
  tq_probe_addr :: u64

definition bpf_task_fd_query ::
  "'k bpf_kernel \<Rightarrow> int \<Rightarrow> int \<Rightarrow> u32 \<Rightarrow> u64 \<Rightarrow> u32 \<Rightarrow> 'k proc \<Rightarrow> (int \<times> task_fd_info \<times> 'k proc) option" where
  "bpf_task_fd_query sys pid fd flags buf buf_len s =
     (case bpf_call sys BPF_TASK_FD_QUERY
        [(0, int32 pid), (4, int32 fd), (8, bytes32 flags), (16, bytes64 buf), (12, bytes32 buf_len)] s of
        (err, attr, s) \<Rightarrow> do {
          n \<leftarrow> load32 attr 12;
          prog_id \<leftarrow> load32 attr 24;
          fd_type \<leftarrow> load32 attr 28;
          probe_offset \<leftarrow> load64 attr 32;
          probe_addr \<leftarrow> load64 attr 40;
          Some (err, \<lparr>tq_buf_len = n, tq_prog_id = prog_id, tq_fd_type = fd_type,
                      tq_probe_offset = probe_offset, tq_probe_addr = probe_addr\<rparr>, s) })"

section \<open>Requests\<close>

lemma length_zero_attr [simp]: "length zero_attr = 112"
  by (simp add: zero_attr_def)

lemma name_end [simp]: "k + 15 \<le> j \<Longrightarrow> k + length (obj_name nm) \<le> j"
  by (cases nm) (auto simp: obj_name_def BPF_OBJ_NAME_LEN_def)

lemma length_obj_name: "length (obj_name nm) \<le> 15"
  by (cases nm) (auto simp: obj_name_def BPF_OBJ_NAME_LEN_def)

lemma load_zero_attr [simp]:
  "a + 4 \<le> 112 \<Longrightarrow> load32 zero_attr a = Some 0" "a + 8 \<le> 112 \<Longrightarrow> load64 zero_attr a = Some 0"
  by (simp_all add: load64_def load32_def zero_attr_def le32_def)

text \<open>The result of a call that the kernel answers with \<open>r\<close>.\<close>

definition sys_result :: "int \<Rightarrow> 'k proc \<Rightarrow> int \<times> 'k proc" where
  "sys_result r s = (if - 4095 \<le> r \<and> r < 0 then (- 1, s\<lparr>pr_errno := - r\<rparr>) else (r, s))"

lemma bpf_result_eq:
  assumes "sys cmd (set_fields zero_attr fs) (pr_mem s) (pr_kern s) = (r, attr, m, k)"
  shows "bpf_result sys cmd fs s = sys_result r (s\<lparr>pr_mem := m, pr_kern := k\<rparr>)"
  using assms by (simp add: bpf_result_def bpf_call_def sys_bpf_def sys_result_def Let_def)

subsection \<open>Creating maps\<close>

text \<open>What the kernel reads from the union: the fields, and the name up to its NUL.\<close>

definition decode_create :: "bytes \<Rightarrow> bpf_create_map_attr" where
  "decode_create attr = \<lparr>cm_name = Some (takeWhile (\<lambda>c. c \<noteq> 0) (take 16 (drop 28 attr))),
     cm_map_type = the (load32 attr 0), cm_map_flags = the (load32 attr 16),
     cm_key_size = the (load32 attr 4), cm_value_size = the (load32 attr 8),
     cm_max_entries = the (load32 attr 12), cm_numa_node = the (load32 attr 24),
     cm_btf_fd = the (load32 attr 48), cm_btf_key_type_id = the (load32 attr 52),
     cm_btf_value_type_id = the (load32 attr 56), cm_map_ifindex = the (load32 attr 44),
     cm_inner_map_fd = the (load32 attr 20)\<rparr>"

text \<open>A kernel that creates maps by \<open>f\<close>.\<close>

definition creates_maps :: "'k bpf_kernel \<Rightarrow> (bpf_create_map_attr \<Rightarrow> 'k \<Rightarrow> int \<times> 'k) \<Rightarrow> bool" where
  "creates_maps sys f \<longleftrightarrow>
     (\<forall>attr m k. length attr = 112 \<longrightarrow>
        sys BPF_MAP_CREATE attr m k = (case f (decode_create attr) k of (r, k') \<Rightarrow> (r, attr, m, k')))"

definition created ::
  "(bpf_create_map_attr \<Rightarrow> 'k \<Rightarrow> int \<times> 'k) \<Rightarrow> bpf_create_map_attr \<Rightarrow> 'k proc \<Rightarrow> int \<times> 'k proc" where
  "created f a s = (case f a (pr_kern s) of (r, k) \<Rightarrow> sys_result r (s\<lparr>pr_kern := k\<rparr>))"

definition name_ok :: "bytes option \<Rightarrow> bool" where
  "name_ok nm \<longleftrightarrow> (case nm of None \<Rightarrow> True | Some n \<Rightarrow> 0 \<notin> set n)"

lemma sent_name:
  assumes "name_ok nm"
  shows "takeWhile (\<lambda>c. c \<noteq> 0) (obj_name nm @ replicate (16 - length (obj_name nm)) 0) = obj_name nm"
proof -
  have "\<forall>c\<in>set (obj_name nm). c \<noteq> 0"
    using assms by (auto simp: name_ok_def obj_name_def split: option.splits dest: in_set_takeD)
  then show ?thesis by (simp add: takeWhile_append2 takeWhile_replicate)
qed

lemma created_eq:
  assumes "creates_maps sys f" and "length (set_fields zero_attr fs) = 112"
    and "decode_create (set_fields zero_attr fs) = a"
  shows "bpf_result sys BPF_MAP_CREATE fs s = created f a s"
proof -
  obtain r k where "f a (pr_kern s) = (r, k)" by fastforce
  then show ?thesis
    using assms bpf_result_eq [of sys BPF_MAP_CREATE fs s r "set_fields zero_attr fs" "pr_mem s" k]
    by (simp add: creates_maps_def created_def)
qed

lemmas read_fields = load_put_other take_drop_put_other take_drop_put_same

lemma drop_zero_attr: "take 16 (drop 28 zero_attr) = replicate 16 0" "take 16 (drop 48 zero_attr) = replicate 16 0"
  by (simp_all add: zero_attr_def)

lemma obj_name_fits [simp]: "length (obj_name nm) \<le> 16"
  using length_obj_name [of nm] by simp

lemma xattr_created:
  assumes "creates_maps sys f" and "name_ok (cm_name a)"
  shows "bpf_create_map_xattr sys a s = created f (a\<lparr>cm_name := Some (obj_name (cm_name a))\<rparr>) s"
  unfolding bpf_create_map_xattr_def
  by (rule created_eq [OF assms(1)])
     (simp_all add: decode_create_def read_fields sent_name [OF assms(2)] drop_zero_attr)

lemma in_map_created:
  assumes "creates_maps sys f" and "name_ok nm"
  shows "bpf_create_map_in_map_node sys ty nm ks inner n flags node s =
      created f (no_map_attr\<lparr>cm_name := Some (obj_name nm), cm_map_type := ty, cm_key_size := of_int ks,
        cm_value_size := 4, cm_max_entries := of_int n, cm_inner_map_fd := of_int inner,
        cm_map_flags := if node \<ge> 0 then flags OR BPF_F_NUMA_NODE else flags,
        cm_numa_node := if node \<ge> 0 then of_int node else 0\<rparr>) s"
  unfolding bpf_create_map_in_map_node_def
  by (rule created_eq [OF assms(1)])
     (simp_all add: decode_create_def read_fields sent_name [OF assms(2)] drop_zero_attr no_map_attr_def)

text \<open>C17. A map is created with the attributes that were given, its name cut to 15 characters, whichever of the
  functions is used; a node is passed on only if it is not negative.\<close>

theorem create_map_request:
  assumes "creates_maps sys f" and "name_ok (cm_name a)" and "name_ok nm"
  shows "bpf_create_map_xattr sys a s = created f (a\<lparr>cm_name := Some (obj_name (cm_name a))\<rparr>) s \<and>
    bpf_create_map_node sys ty nm ks vs n flags node s =
      created f (no_map_attr\<lparr>cm_name := Some (obj_name nm), cm_map_type := ty, cm_key_size := of_int ks,
        cm_value_size := of_int vs, cm_max_entries := of_int n,
        cm_map_flags := if node \<ge> 0 then flags OR BPF_F_NUMA_NODE else flags,
        cm_numa_node := if node \<ge> 0 then of_int node else 0\<rparr>) s \<and>
    bpf_create_map_in_map_node sys ty nm ks inner n flags node s =
      created f (no_map_attr\<lparr>cm_name := Some (obj_name nm), cm_map_type := ty, cm_key_size := of_int ks,
        cm_value_size := 4, cm_max_entries := of_int n, cm_inner_map_fd := of_int inner,
        cm_map_flags := if node \<ge> 0 then flags OR BPF_F_NUMA_NODE else flags,
        cm_numa_node := if node \<ge> 0 then of_int node else 0\<rparr>) s"
  using xattr_created [OF assms(1,2)] in_map_created [OF assms(1,3)] assms(3)
  by (auto simp: bpf_create_map_node_def xattr_created [OF assms(1)] no_map_attr_def)

definition count_maps :: "nat bpf_kernel" where
  "count_maps cmd attr m k =
     (if cmd = BPF_MAP_CREATE \<and> cm_name (decode_create attr) = Some (replicate 15 97) then (int k + 3, attr, m, Suc k)
      else (- 22, attr, m, k))"

theorem create_map_request_witness:
  "fst (bpf_create_map_node count_maps 1 (Some (replicate 20 97)) 4 8 16 0 0
     \<lparr>pr_kern = 0, pr_errno = 0, pr_mem = Map.empty\<rparr>) = 3"
proof -
  let ?f = "\<lambda>a k. if cm_name a = Some (replicate 15 97) then (int k + 3, Suc k) else (- 22, k)"
  have "creates_maps count_maps ?f" by (simp add: creates_maps_def count_maps_def)
  note * = create_map_request [OF this, of no_map_attr "Some (replicate 20 97)"]
  have "name_ok (cm_name no_map_attr)" "name_ok (Some (replicate 20 97))"
    by (simp_all add: name_ok_def no_map_attr_def)
  with * show ?thesis by (simp add: created_def sys_result_def obj_name_def BPF_OBJ_NAME_LEN_def)
qed

subsection \<open>Elements of maps\<close>

text \<open>Hash maps in the kernel: sizes of keys and values, the number of elements there is room for, and the
  elements; the state is the table of descriptors. \<open>map_syscall\<close> is the documented behaviour of the
  three commands.\<close>

record kmap =
  km_key_size :: nat
  km_value_size :: nat
  km_max_entries :: nat
  km_elems :: "(bytes \<times> bytes) list"

type_synonym fd_table = "u32 \<Rightarrow> kmap option"

definition km_update :: "kmap \<Rightarrow> bytes \<Rightarrow> bytes \<Rightarrow> u64 \<Rightarrow> int \<times> kmap" where
  "km_update M key v flags =
     (if flags > 2 then (- 22, M)
      else if map_of (km_elems M) key \<noteq> None then
        if flags = 1 then (- 17, M) else (0, M\<lparr>km_elems := AList.update key v (km_elems M)\<rparr>)
      else if flags = 2 then (- 2, M)
      else if km_max_entries M \<le> length (km_elems M) then (- 7, M)
      else (0, M\<lparr>km_elems := AList.update key v (km_elems M)\<rparr>))"

definition km_delete :: "kmap \<Rightarrow> bytes \<Rightarrow> int \<times> kmap" where
  "km_delete M key =
     (if map_of (km_elems M) key = None then (- 2, M)
      else (0, M\<lparr>km_elems := AList.delete key (km_elems M)\<rparr>))"

definition map_syscall :: "fd_table bpf_kernel" where
  "map_syscall cmd attr m k =
     (case k (the (load32 attr 0)) of
        None \<Rightarrow> (- 9, attr, m, k)
      | Some M \<Rightarrow>
     (case m (the (load64 attr 8)) \<bind> (\<lambda>d. load_bytes d 0 (km_key_size M)) of
        None \<Rightarrow> (- 14, attr, m, k)
      | Some key \<Rightarrow>
     let fd = the (load32 attr 0); vp = the (load64 attr 16);
         buf = m vp \<bind> (\<lambda>d. if km_value_size M \<le> length d then Some d else None) in
     (case cmd of
        BPF_MAP_LOOKUP_ELEM \<Rightarrow>
          (case map_of (km_elems M) key of
             None \<Rightarrow> (- 2, attr, m, k)
           | Some v \<Rightarrow> (case buf of
                None \<Rightarrow> (- 14, attr, m, k)
              | Some d \<Rightarrow> (0, attr, m(vp \<mapsto> v @ drop (km_value_size M) d), k)))
      | BPF_MAP_UPDATE_ELEM \<Rightarrow>
          (case buf of
             None \<Rightarrow> (- 14, attr, m, k)
           | Some d \<Rightarrow>
               (case km_update M key (take (km_value_size M) d) (the (load64 attr 24)) of
                  (r, M') \<Rightarrow> (r, attr, m, k(fd \<mapsto> M'))))
      | BPF_MAP_DELETE_ELEM \<Rightarrow> (case km_delete M key of (r, M') \<Rightarrow> (r, attr, m, k(fd \<mapsto> M')))
      | _ \<Rightarrow> (- 22, attr, m, k))))"

definition serves_maps :: "fd_table bpf_kernel \<Rightarrow> bool" where
  "serves_maps sys \<longleftrightarrow>
     list_all (\<lambda>cmd. sys cmd = map_syscall cmd) [BPF_MAP_LOOKUP_ELEM, BPF_MAP_UPDATE_ELEM, BPF_MAP_DELETE_ELEM]"

text \<open>The block at \<open>p\<close> begins with \<open>key\<close>.\<close>

definition holds_bytes :: "user_mem \<Rightarrow> u64 \<Rightarrow> bytes \<Rightarrow> bool" where
  "holds_bytes m p bs \<longleftrightarrow> (\<exists>d. m p = Some d \<and> load_bytes d 0 (length bs) = Some bs)"

lemma update_elem_eq:
  assumes "serves_maps sys" and "pr_kern s (of_int fd) = Some M" and "holds_bytes (pr_mem s) kp key"
    and "holds_bytes (pr_mem s) vp v" and "length key = km_key_size M" and "length v = km_value_size M"
    and "km_update M key v flags = (r, M')"
  shows "bpf_map_update_elem sys fd kp vp flags s =
     sys_result r (s\<lparr>pr_kern := (pr_kern s)(of_int fd \<mapsto> M')\<rparr>)"
proof -
  obtain d where d: "pr_mem s vp = Some d" "km_value_size M \<le> length d" "take (km_value_size M) d = v"
    using assms(4,6) by (auto simp: holds_bytes_def load_bytes_def split: if_splits)
  show ?thesis
    unfolding bpf_map_update_elem_def using assms d
    by (subst bpf_result_eq) (auto simp: serves_maps_def map_syscall_def read_fields holds_bytes_def Let_def)
qed

lemma lookup_elem_eq:
  assumes "serves_maps sys" and "pr_kern s (of_int fd) = Some M" and "holds_bytes (pr_mem s) kp key"
    and "pr_mem s vp = Some d" and "km_value_size M \<le> length d" and "length key = km_key_size M"
  shows "bpf_map_lookup_elem sys fd kp vp s =
     (case map_of (km_elems M) key of
        None \<Rightarrow> (- 1, s\<lparr>pr_errno := 2\<rparr>)
      | Some v \<Rightarrow> (0, s\<lparr>pr_mem := (pr_mem s)(vp \<mapsto> v @ drop (km_value_size M) d)\<rparr>))"
  unfolding bpf_map_lookup_elem_def bpf_result_def bpf_call_def sys_bpf_def using assms
  by (auto simp: serves_maps_def map_syscall_def read_fields holds_bytes_def Let_def split: option.splits)

lemma delete_elem_eq:
  assumes "serves_maps sys" and "pr_kern s (of_int fd) = Some M" and "holds_bytes (pr_mem s) kp key"
    and "length key = km_key_size M" and "km_delete M key = (r, M')"
  shows "bpf_map_delete_elem sys fd kp s = sys_result r (s\<lparr>pr_kern := (pr_kern s)(of_int fd \<mapsto> M')\<rparr>)"
  unfolding bpf_map_delete_elem_def using assms
  by (subst bpf_result_eq) (auto simp: serves_maps_def map_syscall_def read_fields holds_bytes_def Let_def)

lemma km_update_any:
  assumes "map_of (km_elems M) key \<noteq> None \<or> length (km_elems M) < km_max_entries M"
  shows "km_update M key v 0 = (0, M\<lparr>km_elems := AList.update key v (km_elems M)\<rparr>)"
  using assms by (auto simp: km_update_def)

text \<open>After an update a lookup finds the new value under its key and the old ones under the others; after
  a deletion it finds nothing.\<close>

theorem map_update_lookup_delete:
  assumes "serves_maps sys" and "pr_kern s (of_int fd) = Some M"
    and "holds_bytes (pr_mem s) kp key" and "length key = km_key_size M"
    and "holds_bytes (pr_mem s) vp v" and "length v = km_value_size M"
    and "map_of (km_elems M) key \<noteq> None \<or> length (km_elems M) < km_max_entries M"
    and "holds_bytes (pr_mem s) kp' key'" and "length key' = km_key_size M"
    and "pr_mem s bp = Some d" and "km_value_size M \<le> length d"
  shows "\<exists>s1 s2. bpf_map_update_elem sys fd kp vp 0 s = (0, s1) \<and>
     bpf_map_lookup_elem sys fd kp' bp s1 =
       (case (if key' = key then Some v else map_of (km_elems M) key') of
          None \<Rightarrow> (- 1, s1\<lparr>pr_errno := 2\<rparr>)
        | Some w \<Rightarrow> (0, s1\<lparr>pr_mem := (pr_mem s)(bp \<mapsto> w @ drop (km_value_size M) d)\<rparr>)) \<and>
     bpf_map_delete_elem sys fd kp s1 = (0, s2) \<and>
     bpf_map_lookup_elem sys fd kp bp s2 = (- 1, s2\<lparr>pr_errno := 2\<rparr>)"
proof -
  let ?M1 = "M\<lparr>km_elems := AList.update key v (km_elems M)\<rparr>"
  let ?s1 = "s\<lparr>pr_kern := (pr_kern s)(of_int fd \<mapsto> ?M1)\<rparr>"
  let ?M2 = "?M1\<lparr>km_elems := AList.delete key (km_elems ?M1)\<rparr>"
  let ?s2 = "?s1\<lparr>pr_kern := (pr_kern ?s1)(of_int fd \<mapsto> ?M2)\<rparr>"
  have "bpf_map_update_elem sys fd kp vp 0 s = (0, ?s1)"
    using update_elem_eq [OF assms(1-3,5,4,6) km_update_any [OF assms(7)]] by (simp add: sys_result_def)
  moreover have "map_of (km_elems ?M1) key' = (if key' = key then Some v else map_of (km_elems M) key')"
    by (simp add: update_conv')
  then have "bpf_map_lookup_elem sys fd kp' bp ?s1 =
       (case (if key' = key then Some v else map_of (km_elems M) key') of
          None \<Rightarrow> (- 1, ?s1\<lparr>pr_errno := 2\<rparr>)
        | Some w \<Rightarrow> (0, ?s1\<lparr>pr_mem := (pr_mem s)(bp \<mapsto> w @ drop (km_value_size M) d)\<rparr>))"
    using lookup_elem_eq [OF assms(1), of ?s1 fd ?M1 kp' key' bp d] assms(8-11) by (simp split: option.split)
  moreover have "bpf_map_delete_elem sys fd kp ?s1 = (0, ?s2)"
    using delete_elem_eq [OF assms(1), of ?s1 fd ?M1 kp key 0 ?M2] assms(3,4)
    by (simp add: km_delete_def update_conv' sys_result_def)
  moreover have "bpf_map_lookup_elem sys fd kp bp ?s2 = (- 1, ?s2\<lparr>pr_errno := 2\<rparr>)"
    using lookup_elem_eq [OF assms(1), of ?s2 fd ?M2 kp key bp d] assms(3,4,10,11)
    by (simp add: delete_conv')
  ultimately show ?thesis by blast
qed

definition demo_map :: kmap where
  "demo_map = \<lparr>km_key_size = 1, km_value_size = 2, km_max_entries = 8, km_elems = [([7], [70, 71])]\<rparr>"

definition demo_map_proc :: "fd_table proc" where
  "demo_map_proc = \<lparr>pr_kern = [3 \<mapsto> demo_map], pr_errno = 0,
     pr_mem = [0x10 \<mapsto> [5], 0x20 \<mapsto> [50, 51], 0x30 \<mapsto> [7], 0x40 \<mapsto> [0, 0, 9]]\<rparr>"

theorem map_update_lookup_delete_witness:
  "\<exists>s1 s2. bpf_map_update_elem map_syscall 3 0x10 0x20 0 demo_map_proc = (0, s1) \<and>
     fst (bpf_map_lookup_elem map_syscall 3 0x30 0x40 s1) = 0 \<and>
     pr_mem (snd (bpf_map_lookup_elem map_syscall 3 0x30 0x40 s1)) 0x40 = Some [70, 71, 9] \<and>
     bpf_map_delete_elem map_syscall 3 0x10 s1 = (0, s2) \<and>
     bpf_map_lookup_elem map_syscall 3 0x10 0x40 s2 = (- 1, s2\<lparr>pr_errno := 2\<rparr>)"
proof -
  have "serves_maps map_syscall" by (simp add: serves_maps_def)
  from map_update_lookup_delete [OF this, of demo_map_proc 3 demo_map "0x10" "[5]" "0x20" "[50, 51]"
    "0x30" "[7]" "0x40" "[0, 0, 9]"]
  show ?thesis
    by (auto simp: demo_map_proc_def demo_map_def holds_bytes_def load_bytes_def)
qed

section \<open>Loading\<close>

subsection \<open>Interrupted loads\<close>

text \<open>One call, whether it asks to be repeated, and the union and process it leaves.\<close>

definition load_outcome :: "'k bpf_kernel \<Rightarrow> bytes \<times> 'k proc \<Rightarrow> int \<times> bytes \<times> 'k proc" where
  "load_outcome sys x = sys_bpf sys BPF_PROG_LOAD (fst x) (snd x)"

definition load_again :: "'k bpf_kernel \<Rightarrow> bytes \<times> 'k proc \<Rightarrow> bool" where
  "load_again sys x = (case load_outcome sys x of (fd, _, s) \<Rightarrow> fd < 0 \<and> pr_errno s = 11)"

definition load_next :: "'k bpf_kernel \<Rightarrow> bytes \<times> 'k proc \<Rightarrow> bytes \<times> 'k proc" where
  "load_next sys x = snd (load_outcome sys x)"

lemma prog_load_unfold:
  "sys_bpf_prog_load sys attr s =
     (if load_again sys (attr, s)
      then sys_bpf_prog_load sys (fst (load_next sys (attr, s))) (snd (load_next sys (attr, s)))
      else Some (load_outcome sys (attr, s)))"
  by (subst sys_bpf_prog_load.simps)
     (auto simp: load_again_def load_next_def load_outcome_def split: prod.split)

lemma prog_load_once: "\<not> load_again sys (attr, s) \<Longrightarrow> sys_bpf_prog_load sys attr s = Some (load_outcome sys (attr, s))"
  by (subst prog_load_unfold) simp

lemma prog_load_after:
  assumes "\<forall>i<n. load_again sys ((load_next sys ^^ i) x)" and "\<not> load_again sys ((load_next sys ^^ n) x)"
  shows "sys_bpf_prog_load sys (fst x) (snd x) = Some (load_outcome sys ((load_next sys ^^ n) x))"
  using assms
proof (induction n arbitrary: x)
  case 0
  then show ?case by (simp add: prog_load_once)
next
  case (Suc n)
  have "load_again sys x" using Suc.prems(1) by (metis funpow_0 zero_less_Suc)
  moreover have "\<forall>i<n. load_again sys ((load_next sys ^^ i) (load_next sys x))"
    using Suc.prems(1) by (metis Suc_less_eq funpow_Suc_right comp_apply)
  moreover have "\<not> load_again sys ((load_next sys ^^ n) (load_next sys x))"
    using Suc.prems(2) by (simp add: funpow_swap1)
  ultimately show ?case
    using Suc.IH [of "load_next sys x"] prog_load_unfold [of sys "fst x" "snd x"] by (simp add: funpow_swap1)
qed

lemma prog_load_first:
  assumes "sys_bpf_prog_load sys attr s = Some r"
  shows "\<exists>n. (\<forall>i<n. load_again sys ((load_next sys ^^ i) (attr, s))) \<and>
     \<not> load_again sys ((load_next sys ^^ n) (attr, s)) \<and> r = load_outcome sys ((load_next sys ^^ n) (attr, s))"
proof -
  have "\<exists>n. \<not> load_again sys ((load_next sys ^^ n) (attr, s))"
  proof (rule sys_bpf_prog_load.raw_induct [OF _ assms, of "\<lambda>sys attr s r. \<exists>n. \<not> load_again sys ((load_next sys ^^ n) (attr, s))"])
    fix f :: "'a bpf_kernel \<Rightarrow> bytes \<Rightarrow> 'a proc \<Rightarrow> (int \<times> bytes \<times> 'a proc) option"
    fix sys attr s r
    assume ih: "\<And>sys attr s r. f sys attr s = Some r \<Longrightarrow> \<exists>n. \<not> load_again sys ((load_next sys ^^ n) (attr, s))"
      and eq: "(case sys_bpf sys BPF_PROG_LOAD attr s of
        (fd, attr', s') \<Rightarrow> if fd < 0 \<and> pr_errno s' = 11 then f sys attr' s' else Some (fd, attr', s')) = Some r"
    obtain fd attr' s' where o: "sys_bpf sys BPF_PROG_LOAD attr s = (fd, attr', s')" by (metis prod_cases3)
    show "\<exists>n. \<not> load_again sys ((load_next sys ^^ n) (attr, s))"
    proof (cases "fd < 0 \<and> pr_errno s' = 11")
      case True
      then obtain n where "\<not> load_again sys ((load_next sys ^^ n) (attr', s'))"
        using ih [of sys attr' s' r] eq o by auto
      then have "\<not> load_again sys ((load_next sys ^^ Suc n) (attr, s))"
        using o by (simp add: funpow_swap1 load_next_def load_outcome_def)
      then show ?thesis ..
    next
      case False
      then have "\<not> load_again sys ((load_next sys ^^ 0) (attr, s))" using o by (simp add: load_again_def load_outcome_def)
      then show ?thesis ..
    qed
  qed
  then obtain j where "\<not> load_again sys ((load_next sys ^^ j) (attr, s))" ..
  from ex_least_nat_le [of "\<lambda>n. \<not> load_again sys ((load_next sys ^^ n) (attr, s))", OF this]
  obtain n where "\<forall>i<n. load_again sys ((load_next sys ^^ i) (attr, s))"
    and "\<not> load_again sys ((load_next sys ^^ n) (attr, s))" by blast
  then show ?thesis using prog_load_after [of n sys "(attr, s)"] assms by auto
qed

text \<open>C15. Loading returns exactly if the kernel answers at last with something other than
  \<^verbatim>\<open>EAGAIN\<close>, and then returns the first such answer.\<close>

theorem prog_load_returns_iff:
  "sys_bpf_prog_load sys attr s = Some r \<longleftrightarrow>
     (\<exists>n. (\<forall>i<n. load_again sys ((load_next sys ^^ i) (attr, s))) \<and>
       \<not> load_again sys ((load_next sys ^^ n) (attr, s)) \<and> r = load_outcome sys ((load_next sys ^^ n) (attr, s)))"
proof
  assume "sys_bpf_prog_load sys attr s = Some r"
  then show "\<exists>n. (\<forall>i<n. load_again sys ((load_next sys ^^ i) (attr, s))) \<and>
       \<not> load_again sys ((load_next sys ^^ n) (attr, s)) \<and> r = load_outcome sys ((load_next sys ^^ n) (attr, s))"
    by (rule prog_load_first)
next
  assume "\<exists>n. (\<forall>i<n. load_again sys ((load_next sys ^^ i) (attr, s))) \<and>
       \<not> load_again sys ((load_next sys ^^ n) (attr, s)) \<and> r = load_outcome sys ((load_next sys ^^ n) (attr, s))"
  then show "sys_bpf_prog_load sys attr s = Some r" using prog_load_after [of _ sys "(attr, s)"] by auto
qed

definition busy_twice :: "nat bpf_kernel" where
  "busy_twice cmd attr m k = (if k < 2 then (- 11, attr, m, Suc k) else (5, attr, m, k))"

theorem prog_load_returns_iff_witness:
  "sys_bpf_prog_load busy_twice zero_attr \<lparr>pr_kern = 0, pr_errno = 0, pr_mem = Map.empty\<rparr> =
     Some (5, zero_attr, \<lparr>pr_kern = 2, pr_errno = 11, pr_mem = Map.empty\<rparr>)"
  by (subst prog_load_returns_iff)
     (rule exI [of _ 2],
      simp add: numeral_2_eq_2 less_Suc_eq load_again_def load_next_def load_outcome_def sys_bpf_def busy_twice_def Let_def)

subsection \<open>Copies with zeroed tails\<close>

text \<open>The kernel writes to the blocks of the process and does not add or remove any.\<close>

definition same_blocks :: "user_mem \<Rightarrow> user_mem \<Rightarrow> bool" where
  "same_blocks m m' \<longleftrightarrow> (\<forall>p. map_option length (m' p) = map_option length (m p))"

definition kernel_ok :: "'k bpf_kernel \<Rightarrow> bool" where
  "kernel_ok sys \<longleftrightarrow> (\<forall>cmd attr m k. case sys cmd attr m k of
     (r, attr', m', k') \<Rightarrow> - 4095 \<le> r \<and> length attr' = length attr \<and> same_blocks m m')"

text \<open>The kernel does not ask for a repetition for ever.\<close>

definition answers_at_last :: "'k bpf_kernel \<Rightarrow> bool" where
  "answers_at_last sys \<longleftrightarrow> (\<forall>x. \<exists>n. \<not> load_again sys ((load_next sys ^^ n) x))"

definition alloc_ok :: "allocator \<Rightarrow> bool" where
  "alloc_ok alloc \<longleftrightarrow> (\<forall>n m p d. alloc n m = Some (p, d) \<longrightarrow> p \<noteq> 0 \<and> m p = None \<and> length d = n)"

lemma same_blocks_refl [simp]: "same_blocks m m"
  by (simp add: same_blocks_def)

lemma same_blocks_trans: "same_blocks m m' \<Longrightarrow> same_blocks m' m'' \<Longrightarrow> same_blocks m m''"
  by (simp add: same_blocks_def)

lemma load_outcome_ok:
  assumes "kernel_ok sys"
  shows "length (fst (snd (load_outcome sys x))) = length (fst x)"
    and "same_blocks (pr_mem (snd x)) (pr_mem (snd (snd (load_outcome sys x))))"
proof -
  obtain r attr' m k where r: "sys BPF_PROG_LOAD (fst x) (pr_mem (snd x)) (pr_kern (snd x)) = (r, attr', m, k)"
    by (metis prod_cases4)
  then have "length attr' = length (fst x)" "same_blocks (pr_mem (snd x)) m"
    using assms unfolding kernel_ok_def by (metis (mono_tags, lifting) case_prod_conv)+
  with r show "length (fst (snd (load_outcome sys x))) = length (fst x)"
    and "same_blocks (pr_mem (snd x)) (pr_mem (snd (snd (load_outcome sys x))))"
    by (simp_all add: load_outcome_def sys_bpf_def Let_def)
qed

lemma load_next_ok:
  assumes "kernel_ok sys"
  shows "length (fst ((load_next sys ^^ n) x)) = length (fst x) \<and> same_blocks (pr_mem (snd x)) (pr_mem (snd ((load_next sys ^^ n) x)))"
proof (induction n)
  case (Suc n)
  have "(load_next sys ^^ Suc n) x = snd (load_outcome sys ((load_next sys ^^ n) x))" by (simp add: load_next_def [of sys "(load_next sys ^^ n) x"])
  with Suc show ?case
    using load_outcome_ok [OF assms, of "(load_next sys ^^ n) x"] same_blocks_trans by (auto simp del: funpow.simps)
qed simp

lemma prog_load_total:
  assumes "kernel_ok sys" and "answers_at_last sys"
  shows "\<exists>fd attr' s'. sys_bpf_prog_load sys attr s = Some (fd, attr', s') \<and>
     length attr' = length attr \<and> same_blocks (pr_mem s) (pr_mem s')"
proof -
  obtain j where "\<not> load_again sys ((load_next sys ^^ j) (attr, s))" using assms(2) unfolding answers_at_last_def by blast
  from ex_least_nat_le [of "\<lambda>n. \<not> load_again sys ((load_next sys ^^ n) (attr, s))", OF this]
  obtain n where n: "\<forall>i<n. load_again sys ((load_next sys ^^ i) (attr, s))"
    and "\<not> load_again sys ((load_next sys ^^ n) (attr, s))" by blast
  then have "sys_bpf_prog_load sys attr s = Some (load_outcome sys ((load_next sys ^^ n) (attr, s)))"
    using prog_load_after [of n sys "(attr, s)"] by simp
  moreover have "length (fst (snd (load_outcome sys ((load_next sys ^^ n) (attr, s))))) = length attr"
    "same_blocks (pr_mem s) (pr_mem (snd (snd (load_outcome sys ((load_next sys ^^ n) (attr, s))))))"
    using load_outcome_ok [OF assms(1), of "(load_next sys ^^ n) (attr, s)"] load_next_ok [OF assms(1), of n "(attr, s)"]
      same_blocks_trans by auto
  ultimately show ?thesis by (cases "load_outcome sys ((load_next sys ^^ n) (attr, s))") auto
qed

definition zero_tailed :: "bytes \<Rightarrow> nat \<Rightarrow> nat \<Rightarrow> nat \<Rightarrow> bytes" where
  "zero_tailed src actual expected n =
     concat (map (\<lambda>i. take expected (drop (i * actual) src) @ replicate (actual - expected) 0) [0..<n])"

lemma length_zero_tailed:
  assumes "expected \<le> actual" and "n * actual \<le> length src"
  shows "length (zero_tailed src actual expected n) = n * actual"
  using assms(2)
proof (induction n)
  case 0
  then show ?case by (simp add: zero_tailed_def)
next
  case (Suc n)
  have "n * actual + expected \<le> length src" using Suc.prems assms(1) by simp
  then show ?case using Suc assms(1) by (simp add: zero_tailed_def)
qed

lemma zero_tailed_Suc:
  "zero_tailed src actual expected (Suc n) =
     zero_tailed src actual expected n @ take expected (drop (n * actual) src) @ replicate (actual - expected) 0"
  by (simp add: zero_tailed_def)

lemma copy_heads:
  assumes "expected \<le> actual" and "n * actual \<le> length src" and "n * actual \<le> length junk"
  shows "for_upto n (copy_head src actual expected) junk =
     Some (zero_tailed src actual expected n @ drop (n * actual) junk)"
  using assms(2,3)
proof (induction n)
  case 0
  then show ?case by (simp add: zero_tailed_def)
next
  case (Suc n)
  let ?z = "zero_tailed src actual expected n" and ?r = "take expected (drop (n * actual) src)"
  have len: "length ?z = n * actual" using length_zero_tailed [OF assms(1)] Suc.prems by simp
  have r: "length ?r = expected" using Suc.prems assms(1) by simp
  have "load_bytes src (n * actual) expected = Some ?r"
    using Suc.prems assms(1) by (simp add: load_bytes_def)
  moreover have "store_bytes (?z @ drop (n * actual) junk) (n * actual) ?r =
      Some (?z @ ?r @ drop (n * actual + expected) junk)"
    using len r Suc.prems assms(1) by (simp add: store_bytes_def add.commute)
  moreover have "store_bytes (?z @ ?r @ drop (n * actual + expected) junk) (n * actual + expected)
       (replicate (actual - expected) 0) =
      Some (?z @ ?r @ replicate (actual - expected) 0 @ drop (Suc n * actual) junk)"
    using len r Suc.prems assms(1) by (simp add: store_bytes_def add.commute)
  ultimately show ?case using Suc assms(1) by (simp add: copy_head_def zero_tailed_Suc)
qed

text \<open>Records of the program that may be copied.\<close>

definition records_ok :: "user_mem \<Rightarrow> u64 \<Rightarrow> u32 \<Rightarrow> u32 \<Rightarrow> bool" where
  "records_ok m p cnt rec \<longleftrightarrow>
     cnt \<noteq> 0 \<longrightarrow> unat cnt < 2 ^ 31 \<and> (\<exists>src. m p = Some src \<and> unat cnt * unat rec \<le> length src)"

lemma alloc_zero_tailing:
  assumes "alloc_ok alloc" and "records_ok (pr_mem s) orecord cnt actual" and "expected \<le> actual"
  shows "\<exists>p s'. alloc_zero_tailing_info alloc orecord cnt actual expected s = Some (p, s') \<and>
     (if p = 0 then pr_mem s' = pr_mem s
      else pr_mem s p = None \<and> (\<exists>d. pr_mem s' = (pr_mem s)(p \<mapsto> d) \<and>
        (cnt \<noteq> 0 \<longrightarrow> d = zero_tailed (the (pr_mem s orecord)) (unat actual) (unat expected) (unat cnt))))"
proof (cases "alloc (unat actual * unat cnt) (pr_mem s)")
  case None
  then show ?thesis by (simp add: alloc_zero_tailing_info_def)
next
  case (Some pj)
  then obtain p junk where pj: "alloc (unat actual * unat cnt) (pr_mem s) = Some (p, junk)" by (cases pj) auto
  then have p: "p \<noteq> 0" "pr_mem s p = None" "length junk = unat cnt * unat actual"
    using assms(1) unfolding alloc_ok_def by (metis mult.commute)+
  show ?thesis
  proof (cases "cnt = 0")
    case True
    then show ?thesis using pj p by (auto simp: alloc_zero_tailing_info_def)
  next
    case False
    then obtain src where src: "pr_mem s orecord = Some src" "unat cnt * unat actual \<le> length src" "unat cnt < 2 ^ 31"
      using assms(2) by (auto simp: records_ok_def)
    have "unat expected \<le> unat actual" using assms(3) by (simp add: word_le_nat_alt)
    from copy_heads [OF this, of "unat cnt" src junk] show ?thesis
      using False pj p src by (simp add: alloc_zero_tailing_info_def)
  qed
qed

text \<open>The memory is that of the caller and the copies.\<close>

definition with_copies :: "user_mem \<Rightarrow> u64 \<Rightarrow> u64 \<Rightarrow> user_mem \<Rightarrow> bool" where
  "with_copies m0 f l m \<longleftrightarrow>
     (\<forall>p. if p \<noteq> 0 \<and> (p = f \<or> p = l) then m0 p = None \<and> m p \<noteq> None
          else map_option length (m p) = map_option length (m0 p))"

lemma with_copiesD:
  assumes "with_copies m0 f l m"
  shows "p \<noteq> 0 \<Longrightarrow> p = f \<or> p = l \<Longrightarrow> m0 p = None \<and> m p \<noteq> None"
    and "m0 p \<noteq> None \<Longrightarrow> map_option length (m p) = map_option length (m0 p)"
    and "m p = None \<Longrightarrow> m0 p = None"
  using assms [unfolded with_copies_def, rule_format, of p] by (auto split: if_splits)

lemma with_copies_same: "with_copies m0 f l m \<Longrightarrow> same_blocks m m' \<Longrightarrow> with_copies m0 f l m'"
  unfolding with_copies_def same_blocks_def by (metis option.map_disc_iff)

lemma with_copies_start: "with_copies m 0 0 m"
  by (simp add: with_copies_def)

lemma with_copies_done: "with_copies m0 f l m \<Longrightarrow> same_blocks m0 (free_mem l (free_mem f m))"
  unfolding with_copies_def same_blocks_def free_mem_def by (auto split: if_splits)

lemma with_copies_new:
  assumes "with_copies m0 f l m" and "m p = None" and "p \<noteq> 0"
  shows "f = 0 \<Longrightarrow> with_copies m0 p l (m(p \<mapsto> d))" and "l = 0 \<Longrightarrow> with_copies m0 f p (m(p \<mapsto> d))"
  using assms with_copiesD(3) [OF assms(1,2)] spec [OF assms(1) [unfolded with_copies_def], of f]
    spec [OF assms(1) [unfolded with_copies_def], of l]
  by (auto simp: with_copies_def)

lemma records_ok_copies:
  "with_copies m0 f l m \<Longrightarrow> records_ok m0 p cnt rec \<Longrightarrow> records_ok m p cnt rec"
  using with_copiesD(2) [of m0 f l m p] by (auto simp: records_ok_def)

lemma load_again_step:
  assumes "kernel_ok sys" and "answers_at_last sys" and "with_copies m0 f l (pr_mem s)" and "length attr = 112"
  obtains fd attr' s' where "sys_bpf_prog_load sys attr s = Some (fd, attr', s')" and "length attr' = 112"
    and "with_copies m0 f l (pr_mem s')"
  using prog_load_total [OF assms(1,2), of attr s] with_copies_same [OF assms(3)] assms(4) that by metis

text \<open>The rounds of the loop.\<close>

lemma correct_loop_stop:
  assumes "\<not> (pr_errno s = 7 \<and> (finfo = 0 \<or> linfo = 0))"
  shows "correct_loop sys alloc a fd finfo linfo attr s = Some (False, fd, finfo, linfo, attr, s)"
  by (subst correct_loop.simps) (rule if_not_P [OF assms])

lemma correct_loop_none:
  assumes "pr_errno s = 7" and "load32 attr 88 = Some fc" and "load32 attr 76 = Some fr" and "load32 attr 104 = Some lc"
    and "load32 attr 92 = Some lr" and "\<not> (finfo = 0 \<and> fc \<noteq> 0 \<and> fr < lp_func_info_rec_size a)"
    and "\<not> (linfo = 0 \<and> lc \<noteq> 0 \<and> lr < lp_line_info_rec_size a)"
  shows "correct_loop sys alloc a fd finfo linfo attr s = Some (False, fd, finfo, linfo, attr, s)"
  by (subst correct_loop.simps)
     (simp only: assms(1-5) Option.bind.simps if_not_P [OF assms(6)] if_not_P [OF assms(7)] if_cancel)

lemma correct_loop_func:
  assumes "pr_errno s = 7" and "load32 attr 88 = Some fc" and "load32 attr 76 = Some fr" and "load32 attr 104 = Some lc"
    and "load32 attr 92 = Some lr" and "fc \<noteq> 0" and "fr < lp_func_info_rec_size a"
    and "alloc_zero_tailing_info alloc (lp_func_info a) (lp_func_info_cnt a) (lp_func_info_rec_size a) fr s = Some (p, s1)"
  shows "correct_loop sys alloc a fd 0 linfo attr s =
     (if p = 0 then Some (True, fd, 0, linfo, attr, s1)
      else do {
        (fd, attr, s) \<leftarrow> sys_bpf_prog_load sys
          (set_fields attr [(80, bytes64 p), (76, bytes32 (lp_func_info_rec_size a))]) s1;
        if fd \<ge> 0 then Some (True, fd, p, linfo, attr, s) else correct_loop sys alloc a fd p linfo attr s })"
  using assms by (subst correct_loop.simps) simp

lemma correct_loop_line:
  assumes "pr_errno s = 7" and "load32 attr 88 = Some fc" and "load32 attr 76 = Some fr" and "load32 attr 104 = Some lc"
    and "load32 attr 92 = Some lr" and "lc \<noteq> 0" and "lr < lp_line_info_rec_size a"
    and "\<not> (finfo = 0 \<and> fc \<noteq> 0 \<and> fr < lp_func_info_rec_size a)"
    and "alloc_zero_tailing_info alloc (lp_line_info a) (lp_line_info_cnt a) (lp_line_info_rec_size a) lr s = Some (p, s1)"
  shows "correct_loop sys alloc a fd finfo 0 attr s =
     (if p = 0 then Some (True, fd, finfo, 0, attr, s1)
      else do {
        (fd, attr, s) \<leftarrow> sys_bpf_prog_load sys
          (set_fields attr [(96, bytes64 p), (92, bytes32 (lp_line_info_rec_size a))]) s1;
        if fd \<ge> 0 then Some (True, fd, finfo, p, attr, s) else correct_loop sys alloc a fd finfo p attr s })"
  using assms by (subst correct_loop.simps) auto

lemma alloc_copy:
  assumes "alloc_ok alloc" and "with_copies m0 f l (pr_mem s)" and "records_ok m0 orecord cnt actual" and "expected < actual"
  obtains p s1 where "alloc_zero_tailing_info alloc orecord cnt actual expected s = Some (p, s1)"
    and "p = 0 \<Longrightarrow> pr_mem s1 = pr_mem s" and "p \<noteq> 0 \<Longrightarrow> f = 0 \<Longrightarrow> with_copies m0 p l (pr_mem s1)"
    and "p \<noteq> 0 \<Longrightarrow> l = 0 \<Longrightarrow> with_copies m0 f p (pr_mem s1)"
proof -
  obtain p s1 where p: "alloc_zero_tailing_info alloc orecord cnt actual expected s = Some (p, s1)"
    "p = 0 \<Longrightarrow> pr_mem s1 = pr_mem s" "p \<noteq> 0 \<Longrightarrow> pr_mem s p = None \<and> (\<exists>d. pr_mem s1 = (pr_mem s)(p \<mapsto> d))"
    using alloc_zero_tailing [OF assms(1) records_ok_copies [OF assms(2,3)] less_imp_le [OF assms(4)]] by metis
  show thesis by (rule that [OF p(1,2)]) (use p(3) with_copies_new [OF assms(2)] in auto)
qed

lemma correct_loop_total:
  assumes "kernel_ok sys" and "answers_at_last sys" and "alloc_ok alloc"
    and "records_ok m0 (lp_func_info a) (lp_func_info_cnt a) (lp_func_info_rec_size a)"
    and "records_ok m0 (lp_line_info a) (lp_line_info_cnt a) (lp_line_info_rec_size a)"
    and "length attr = 112" and "with_copies m0 finfo linfo (pr_mem s)"
  shows "\<exists>dn fd' f l attr' s'. correct_loop sys alloc a fd finfo linfo attr s = Some (dn, fd', f, l, attr', s') \<and>
     length attr' = 112 \<and> with_copies m0 f l (pr_mem s')"
  using assms(6,7)
proof (induction "of_bool (finfo = 0) + of_bool (linfo = 0) :: nat" arbitrary: fd finfo linfo attr s rule: less_induct)
  case less
  note attr = less.prems(1) and copies = less.prems(2)
  obtain fc fr lc lr where fields: "load32 attr 88 = Some fc" "load32 attr 76 = Some fr"
    "load32 attr 104 = Some lc" "load32 attr 92 = Some lr" using attr by (simp add: load32_def)
  consider (stop) "\<not> (pr_errno s = 7 \<and> (finfo = 0 \<or> linfo = 0))"
    | (func) "pr_errno s = 7" "finfo = 0" "fc \<noteq> 0" "fr < lp_func_info_rec_size a"
    | (line) "pr_errno s = 7" "linfo = 0" "lc \<noteq> 0" "lr < lp_line_info_rec_size a"
        "\<not> (finfo = 0 \<and> fc \<noteq> 0 \<and> fr < lp_func_info_rec_size a)"
    | (none) "pr_errno s = 7" "\<not> (finfo = 0 \<and> fc \<noteq> 0 \<and> fr < lp_func_info_rec_size a)"
        "\<not> (linfo = 0 \<and> lc \<noteq> 0 \<and> lr < lp_line_info_rec_size a)"
    by blast
  then show ?case
  proof cases
    case stop
    then show ?thesis using attr copies correct_loop_stop by blast
  next
    case none
    then show ?thesis using attr copies correct_loop_none [OF none(1) fields none(2,3)] by blast
  next
    case func
    obtain p s1 where p: "alloc_zero_tailing_info alloc (lp_func_info a) (lp_func_info_cnt a)
        (lp_func_info_rec_size a) fr s = Some (p, s1)"
      "p = 0 \<Longrightarrow> pr_mem s1 = pr_mem s" "p \<noteq> 0 \<Longrightarrow> with_copies m0 p linfo (pr_mem s1)"
      using alloc_copy [OF assms(3) copies assms(4) func(4)] func(2) by metis
    let ?attr = "set_fields attr [(80, bytes64 p), (76, bytes32 (lp_func_info_rec_size a))]"
    have "length ?attr = 112" using attr by simp
    then have "p \<noteq> 0 \<Longrightarrow> \<exists>fd2 attr2 s2. sys_bpf_prog_load sys ?attr s1 = Some (fd2, attr2, s2) \<and>
        length attr2 = 112 \<and> with_copies m0 p linfo (pr_mem s2)"
      using load_again_step [OF assms(1,2) p(3)] by metis
    then show ?thesis
      using less.hyps [of p linfo] func(2) attr copies p(2) correct_loop_func [OF func(1) fields func(3,4) p(1), of sys fd linfo]
      by (cases "p = 0") fastforce+
  next
    case line
    obtain p s1 where p: "alloc_zero_tailing_info alloc (lp_line_info a) (lp_line_info_cnt a)
        (lp_line_info_rec_size a) lr s = Some (p, s1)"
      "p = 0 \<Longrightarrow> pr_mem s1 = pr_mem s" "p \<noteq> 0 \<Longrightarrow> with_copies m0 finfo p (pr_mem s1)"
      using alloc_copy [OF assms(3) copies assms(5) line(4)] line(2) by metis
    let ?attr = "set_fields attr [(96, bytes64 p), (92, bytes32 (lp_line_info_rec_size a))]"
    have "length ?attr = 112" using attr by simp
    then have "p \<noteq> 0 \<Longrightarrow> \<exists>fd2 attr2 s2. sys_bpf_prog_load sys ?attr s1 = Some (fd2, attr2, s2) \<and>
        length attr2 = 112 \<and> with_copies m0 finfo p (pr_mem s2)"
      using load_again_step [OF assms(1,2) p(3)] by metis
    then show ?thesis
      using less.hyps [of finfo p] line(2) attr copies p(2) correct_loop_line [OF line(1) fields line(3-5) p(1), of sys fd]
      by (cases "p = 0") fastforce+
  qed
qed

lemma length_load_attr: "length (set_fields zero_attr (load_fields a log_buf log_sz)) = 112"
  using length_set_fields [of zero_attr "load_fields a log_buf log_sz"] by (simp add: load_fields_def del: set_fields_simps)

lemma poke8_copies:
  assumes "with_copies m0 f l m" and "m0 p = Some d" and "d \<noteq> []"
  shows "\<exists>m'. poke8 m p v = Some m' \<and> with_copies m0 f l m'"
proof -
  have "m0 p \<noteq> None" using assms(2) by simp
  from with_copiesD(2) [OF assms(1) this] obtain e where e: "m p = Some e" "length e = length d"
    unfolding assms(2) by auto
  have "0 < length e" using e(2) assms(3) by simp
  then have "poke8 m p v = Some (m(p \<mapsto> e[0 := v]))" using e(1) by (simp add: poke8_def store8_def)
  moreover have "same_blocks m (m(p \<mapsto> e[0 := v]))" using e(1) by (simp add: same_blocks_def)
  then have "with_copies m0 f l (m(p \<mapsto> e[0 := v]))" by (rule with_copies_same [OF assms(1)])
  ultimately show ?thesis by (intro exI conjI)
qed

lemma log_retry:
  assumes "kernel_ok sys" and "answers_at_last sys" and "with_copies m0 f l (pr_mem s)" and "m0 log_buf = Some d"
    and "d \<noteq> []" and "length attr = 112"
  shows "\<exists>m fd attr' s'. poke8 (pr_mem s) log_buf 0 = Some m \<and>
     sys_bpf_prog_load sys (set_fields attr [(32, bytes64 log_buf), (28, bytes32 (ucast log_sz)), (24, bytes32 1)])
       (s\<lparr>pr_mem := m\<rparr>) = Some (fd, attr', s') \<and> with_copies m0 f l (pr_mem s')"
proof -
  let ?attr = "set_fields attr [(32, bytes64 log_buf), (28, bytes32 (ucast log_sz)), (24, bytes32 1)]"
  obtain m where m: "poke8 (pr_mem s) log_buf 0 = Some m" "with_copies m0 f l m"
    using poke8_copies [OF assms(3-5)] by blast
  have "length ?attr = 112" using assms(6) by simp
  moreover have "with_copies m0 f l (pr_mem (s\<lparr>pr_mem := m\<rparr>))" using m(2) by simp
  ultimately obtain fd attr' s' where "sys_bpf_prog_load sys ?attr (s\<lparr>pr_mem := m\<rparr>) = Some (fd, attr', s')"
    "with_copies m0 f l (pr_mem s')"
    using load_again_step [OF assms(1,2)] by metis
  with m(1) show ?thesis by blast
qed

text \<open>C14. Loading a program returns and gives back all memory it allocated, whichever allocation fails and
  whatever the kernel answers, any number of times, as long as it does not ask for a repetition
  (\<^verbatim>\<open>EAGAIN\<close>) for ever and neither adds nor removes blocks of the process; the records and the log buffer
  of the caller are blocks of memory.\<close>

theorem load_program_no_leak:
  assumes "kernel_ok sys" and "answers_at_last sys" and "alloc_ok alloc"
    and "records_ok (pr_mem s) (lp_func_info a) (lp_func_info_cnt a) (lp_func_info_rec_size a)"
    and "records_ok (pr_mem s) (lp_line_info a) (lp_line_info_cnt a) (lp_line_info_rec_size a)"
    and "log_buf \<noteq> 0 \<longrightarrow> (\<exists>d. pr_mem s log_buf = Some d \<and> d \<noteq> [])"
  shows "\<exists>r s'. bpf_load_program_xattr sys alloc (Some a) log_buf log_sz s = Some (r, s') \<and>
     same_blocks (pr_mem s) (pr_mem s')"
proof -
  let ?attr = "set_fields zero_attr (load_fields a log_buf log_sz)"
  obtain fd attr1 s1 where first: "sys_bpf_prog_load sys ?attr s = Some (fd, attr1, s1)" "length attr1 = 112"
    "with_copies (pr_mem s) 0 0 (pr_mem s1)"
    by (rule load_again_step [OF assms(1,2) with_copies_start length_load_attr])
  obtain dn fd2 f l attr2 s2 where c: "correct_loop sys alloc a fd 0 0 attr1 s1 = Some (dn, fd2, f, l, attr2, s2)"
    "length attr2 = 112" "with_copies (pr_mem s) f l (pr_mem s2)"
    using correct_loop_total [OF assms(1-5) first(2,3)] by blast
  have start: "same_blocks (pr_mem s) (pr_mem s1)" using with_copies_done [OF first(3)] by (simp add: free_mem_def)
  note unfold = bpf_load_program_xattr_def load_done_def first(1) c(1)
  show ?thesis
  proof (cases "dn \<or> lp_log_level a \<noteq> 0 \<or> log_buf = 0")
    case True
    then show ?thesis using start with_copies_done [OF c(3)] by (auto simp: unfold simp del: set_fields_simps)
  next
    case False
    then obtain d where "pr_mem s log_buf = Some d" "d \<noteq> []" using assms(6) by auto
    from log_retry [OF assms(1,2) c(3) this c(2), of log_sz] obtain m fd3 attr3 s3 where
      "poke8 (pr_mem s2) log_buf 0 = Some m"
      "sys_bpf_prog_load sys (set_fields attr2 [(32, bytes64 log_buf), (28, bytes32 (ucast log_sz)), (24, bytes32 1)])
         (s2\<lparr>pr_mem := m\<rparr>) = Some (fd3, attr3, s3)" "with_copies (pr_mem s) f l (pr_mem s3)" by blast
    then show ?thesis using False start with_copies_done by (simp add: unfold del: set_fields_simps)
  qed
qed

text \<open>Three places for blocks, which hold what was there before.\<close>

definition demo_alloc :: allocator where
  "demo_alloc n m = map_option (\<lambda>p. (p, replicate n 0xaa)) (find (\<lambda>p. m p = None) [0x1000, 0x2000, 0x3000])"

lemma demo_alloc_ok: "alloc_ok demo_alloc"
  by (auto simp: alloc_ok_def demo_alloc_def split: if_splits)

definition demo_prog :: bpf_load_program_attr where
  "demo_prog = \<lparr>lp_prog_type = 6, lp_expected_attach_type = 0, lp_name = Some [97, 98], lp_insns = 0x500,
     lp_insns_cnt = 2, lp_license = 0x600, lp_kern_version = 0, lp_ifindex_or_btf_id = 0, lp_prog_btf_fd = 4,
     lp_func_info_rec_size = 12, lp_func_info = 0x100, lp_func_info_cnt = 1, lp_line_info_rec_size = 16,
     lp_line_info = 0, lp_line_info_cnt = 0, lp_log_level = 0, lp_prog_flags = 0\<rparr>"

definition demo_proc :: "'k \<Rightarrow> 'k proc" where
  "demo_proc k = \<lparr>pr_kern = k, pr_errno = 0,
     pr_mem = [0x100 \<mapsto> [16, 0, 0, 0, 1, 0, 0, 0, 9, 9, 9, 9], 0x200 \<mapsto> [7]]\<rparr>"

lemma demo_records:
  "records_ok (pr_mem (demo_proc k)) (lp_func_info demo_prog) (lp_func_info_cnt demo_prog) (lp_func_info_rec_size demo_prog)"
  "records_ok (pr_mem (demo_proc k)) (lp_line_info demo_prog) (lp_line_info_cnt demo_prog) (lp_line_info_rec_size demo_prog)"
  by (simp_all add: records_ok_def demo_prog_def demo_proc_def)

text \<open>A kernel that first asks for a repetition, then finds the records too long, and accepts the program
  once a copy of them is in memory.\<close>

definition shy_kernel :: "nat bpf_kernel" where
  "shy_kernel cmd attr m k =
     (if k = 0 then (- 11, attr, m, 1)
      else if k = 1 then (- 7, if length attr = 112 then set_fields attr [(76, bytes32 8)] else attr, m, 2)
      else if m 0x1000 \<noteq> None then (5, attr, m, 3) else (- 22, attr, m, k))"

lemma shy_kernel_ok: "kernel_ok shy_kernel" "answers_at_last shy_kernel"
proof -
  show "kernel_ok shy_kernel" by (simp add: kernel_ok_def shy_kernel_def)
  have "\<not> load_again shy_kernel x" if "pr_kern (snd x) \<noteq> 0" for x
    using that by (auto simp: load_again_def load_outcome_def sys_bpf_def shy_kernel_def Let_def)
  moreover have "pr_kern (snd (load_next shy_kernel x)) = 1" if "pr_kern (snd x) = 0" for x
    using that by (simp add: load_next_def load_outcome_def sys_bpf_def shy_kernel_def Let_def)
  ultimately have "\<not> load_again shy_kernel ((load_next shy_kernel ^^ (if pr_kern (snd x) = 0 then 1 else 0)) x)" for x
    by simp
  then show "answers_at_last shy_kernel" unfolding answers_at_last_def by blast
qed

lemma shy_loads:
  "pr_kern s = 0 \<Longrightarrow> length attr = 112 \<Longrightarrow> sys_bpf_prog_load shy_kernel attr s =
     Some (- 1, set_fields attr [(76, bytes32 8)], s\<lparr>pr_errno := 7, pr_kern := 2\<rparr>)"
  "pr_kern s = 2 \<Longrightarrow> pr_mem s 0x1000 \<noteq> None \<Longrightarrow> sys_bpf_prog_load shy_kernel attr s = Some (5, attr, s\<lparr>pr_kern := 3\<rparr>)"
  by (subst prog_load_unfold, simp add: load_again_def load_next_def load_outcome_def sys_bpf_def shy_kernel_def Let_def
        del: set_fields_simps,
      (subst prog_load_unfold, simp add: load_again_def load_next_def load_outcome_def sys_bpf_def shy_kernel_def Let_def
        del: set_fields_simps)?)+

theorem load_program_no_leak_witness:
  "\<exists>s'. bpf_load_program_xattr shy_kernel demo_alloc (Some demo_prog) 0x200 1 (demo_proc 0) = Some (5, s') \<and>
     same_blocks (pr_mem (demo_proc (0 :: nat))) (pr_mem s')"
proof -
  let ?attr = "set_fields (set_fields zero_attr (load_fields demo_prog 0x200 1)) [(76, bytes32 8)]"
  let ?s = "(demo_proc (0 :: nat))\<lparr>pr_errno := 7, pr_kern := 2\<rparr>"
  have "load32 ?attr 88 = Some 1 \<and> load32 ?attr 76 = Some 8 \<and> load32 ?attr 104 = Some 0 \<and> load32 ?attr 92 = Some 16"
    by code_simp
  moreover obtain s1 where a: "alloc_zero_tailing_info demo_alloc 0x100 1 12 8 ?s = Some (0x1000, s1)"
    "pr_kern s1 = 2" "pr_mem s1 0x1000 \<noteq> None"
  proof -
    have "demo_alloc 12 (pr_mem ?s) = Some (0x1000, replicate 12 0xaa)" by (simp add: demo_alloc_def demo_proc_def)
    moreover obtain d where "for_upto 1 (copy_head [16, 0, 0, 0, 1, 0, 0, 0, 9, 9, 9, 9] 12 8) (replicate 12 0xaa) = Some d"
      using copy_heads [of 8 12 1 "[16, 0, 0, 0, 1, 0, 0, 0, 9, 9, 9, 9]" "replicate 12 0xaa"] by simp
    ultimately show thesis
      by (intro that [of "?s\<lparr>pr_mem := (pr_mem ?s)(0x1000 \<mapsto> d)\<rparr>"])
         (simp_all add: alloc_zero_tailing_info_def, simp add: demo_proc_def)
  qed
  ultimately have "\<exists>s'. bpf_load_program_xattr shy_kernel demo_alloc (Some demo_prog) 0x200 1 (demo_proc 0) = Some (5, s')"
    using correct_loop_func [of ?s ?attr 1 8 0 16 demo_prog demo_alloc "0x1000" s1 shy_kernel "- 1" 0] shy_loads(1) [of "demo_proc 0"] shy_loads(2) [of s1]
      length_load_attr [of demo_prog "0x200" 1]
    by (simp add: bpf_load_program_xattr_def load_done_def demo_prog_def demo_proc_def del: set_fields_simps)
  moreover have "\<exists>r s'. bpf_load_program_xattr shy_kernel demo_alloc (Some demo_prog) 0x200 1 (demo_proc 0) = Some (r, s') \<and>
     same_blocks (pr_mem (demo_proc (0 :: nat))) (pr_mem s')"
    by (rule load_program_no_leak [OF shy_kernel_ok demo_alloc_ok demo_records]) (simp add: demo_proc_def)
  ultimately show ?thesis by auto
qed

end
