(* ===== verification/BpfLoad.thy ===== *)
theory BpfLoad
  imports BpfSys
begin

text \<open>
  Loading a program into a kernel that knows less about function and line records than the compiler
  that wrote them. Such a kernel refuses records whose unknown part is not zero with
  \<^verbatim>\<open>E2BIG\<close> and writes the size it knows into the union; \<^verbatim>\<open>bpf_load_program_xattr\<close> then
  loads copies of the records with that part zeroed. What the kernel decides in the end is its verdict on
  the program and the known parts of the records that the caller gave.
\<close>

section \<open>The kernel\<close>

text \<open>What the kernel reads of a program, apart from records and log.\<close>

definition decode_load :: "bytes \<Rightarrow> bpf_load_program_attr" where
  "decode_load attr = (let type = the (load32 attr 0) in
     \<lparr>lp_prog_type = type, lp_expected_attach_type = the (load32 attr 68),
      lp_name = Some (takeWhile (\<lambda>c. c \<noteq> 0) (take 16 (drop 48 attr))),
      lp_insns = the (load64 attr 8), lp_insns_cnt = ucast (the (load32 attr 4)),
      lp_license = the (load64 attr 16), lp_kern_version = the (load32 attr 40),
      lp_ifindex_or_btf_id = the (load32 attr (if type = BPF_PROG_TYPE_TRACING then 108 else 64)),
      lp_prog_btf_fd = the (load32 attr 72), lp_func_info_rec_size = 0, lp_func_info = 0,
      lp_func_info_cnt = the (load32 attr 88), lp_line_info_rec_size = 0, lp_line_info = 0,
      lp_line_info_cnt = the (load32 attr 104), lp_log_level = 0, lp_prog_flags = the (load32 attr 44)\<rparr>)"

text \<open>Records: whether one has a byte other than 0 behind the part of \<open>known\<close> bytes, and those parts.\<close>

definition tail_set :: "user_mem \<Rightarrow> u64 \<Rightarrow> nat \<Rightarrow> nat \<Rightarrow> nat \<Rightarrow> bool" where
  "tail_set m p n rec known =
     (case m p of
        None \<Rightarrow> False
      | Some d \<Rightarrow> list_ex (\<lambda>i. list_ex (\<lambda>b. b \<noteq> 0) (drop known (take rec (drop (i * rec) d)))) [0..<n])"

definition heads :: "user_mem \<Rightarrow> u64 \<Rightarrow> nat \<Rightarrow> nat \<Rightarrow> nat \<Rightarrow> bytes list" where
  "heads m p n rec known =
     (case m p of None \<Rightarrow> [] | Some d \<Rightarrow> map (\<lambda>i. take known (take rec (drop (i * rec) d))) [0..<n])"

text \<open>A kernel that knows \<open>fk\<close> and \<open>lk\<close> bytes of function and line records. The verdict does not
  depend on the log, and a program that is refused changes nothing.\<close>

definition func_tail :: "bytes \<Rightarrow> user_mem \<Rightarrow> u32 \<Rightarrow> bool" where
  "func_tail attr m fk =
     tail_set m (the (load64 attr 80)) (unat (the (load32 attr 88))) (unat (the (load32 attr 76))) (unat fk)"

definition line_tail :: "bytes \<Rightarrow> user_mem \<Rightarrow> u32 \<Rightarrow> bool" where
  "line_tail attr m lk =
     tail_set m (the (load64 attr 96)) (unat (the (load32 attr 104))) (unat (the (load32 attr 92))) (unat lk)"

type_synonym 'k verdict = "bpf_load_program_attr \<Rightarrow> bytes list \<Rightarrow> bytes list \<Rightarrow> 'k \<Rightarrow> int \<times> 'k"

definition judge :: "'k verdict \<Rightarrow> u32 \<Rightarrow> u32 \<Rightarrow> bytes \<Rightarrow> user_mem \<Rightarrow> 'k \<Rightarrow> int \<times> 'k" where
  "judge verdict fk lk attr m = verdict (decode_load attr)
     (heads m (the (load64 attr 80)) (unat (the (load32 attr 88))) (unat (the (load32 attr 76))) (unat fk))
     (heads m (the (load64 attr 96)) (unat (the (load32 attr 104))) (unat (the (load32 attr 92))) (unat lk))"

definition load_syscall :: "u32 \<Rightarrow> u32 \<Rightarrow> 'k verdict \<Rightarrow> bytes \<Rightarrow> user_mem \<Rightarrow> 'k \<Rightarrow> int \<times> bytes \<times> user_mem \<times> 'k" where
  "load_syscall fk lk verdict attr m k =
     (if func_tail attr m fk then (- 7, set_fields attr [(76, bytes32 fk)], m, k)
      else if line_tail attr m lk then (- 7, set_fields attr [(92, bytes32 lk)], m, k)
      else (case judge verdict fk lk attr m k of (r, k') \<Rightarrow> (r, attr, m, k')))"

definition loads_programs :: "'k bpf_kernel \<Rightarrow> u32 \<Rightarrow> u32 \<Rightarrow> 'k verdict \<Rightarrow> bool" where
  "loads_programs sys fk lk verdict \<longleftrightarrow>
     sys BPF_PROG_LOAD = load_syscall fk lk verdict \<and>
     (\<forall>a fs ls k. case verdict a fs ls k of (r, k') \<Rightarrow> - 4095 \<le> r \<and> r \<noteq> - 11 \<and> (r < 0 \<longrightarrow> k' = k))"

section \<open>The union\<close>

text \<open>The union describes the program \<open>a\<close>, with the given sizes and places of records.\<close>

definition describes :: "bpf_load_program_attr \<Rightarrow> u32 \<Rightarrow> u64 \<Rightarrow> u32 \<Rightarrow> u64 \<Rightarrow> bytes \<Rightarrow> bool" where
  "describes a fr fp lr lp attr \<longleftrightarrow>
     length attr = 112 \<and>
     decode_load attr = a\<lparr>lp_name := Some (obj_name (lp_name a)), lp_insns_cnt := ucast (ucast (lp_insns_cnt a) :: u32),
       lp_func_info := 0, lp_func_info_rec_size := 0, lp_line_info := 0, lp_line_info_rec_size := 0, lp_log_level := 0\<rparr> \<and>
     load32 attr 76 = Some fr \<and> load64 attr 80 = Some fp \<and> load32 attr 88 = Some (lp_func_info_cnt a) \<and>
     load32 attr 92 = Some lr \<and> load64 attr 96 = Some lp \<and> load32 attr 104 = Some (lp_line_info_cnt a)"

lemma load_fields_fit: "fields_fit (length zero_attr) (load_fields a log_buf log_sz)"
  by (simp add: fields_fit_def load_fields_def)

lemma name_apart [simp]: "j + 15 \<le> k \<Longrightarrow> \<not> k < j + length (obj_name nm)"
  using length_obj_name [of nm] by simp

lemmas load_attr32 = load32_once [OF load_fields_fit] and load_attr64 = load64_once [OF load_fields_fit]

lemma load_attr_words:
  "load32 (set_fields zero_attr (load_fields a lb ls)) 0 = Some (lp_prog_type a)"
  "load32 (set_fields zero_attr (load_fields a lb ls)) 4 = Some (ucast (lp_insns_cnt a))"
  "load32 (set_fields zero_attr (load_fields a lb ls)) 40 = Some (lp_kern_version a)"
  "load32 (set_fields zero_attr (load_fields a lb ls)) 44 = Some (lp_prog_flags a)"
  "load32 (set_fields zero_attr (load_fields a lb ls)) 68 = Some (lp_expected_attach_type a)"
  "load32 (set_fields zero_attr (load_fields a lb ls)) 72 = Some (lp_prog_btf_fd a)"
  "load32 (set_fields zero_attr (load_fields a lb ls)) 76 = Some (lp_func_info_rec_size a)"
  "load32 (set_fields zero_attr (load_fields a lb ls)) 88 = Some (lp_func_info_cnt a)"
  "load32 (set_fields zero_attr (load_fields a lb ls)) 92 = Some (lp_line_info_rec_size a)"
  "load32 (set_fields zero_attr (load_fields a lb ls)) 104 = Some (lp_line_info_cnt a)"
  "load32 (set_fields zero_attr (load_fields a lb ls)) (if lp_prog_type a = BPF_PROG_TYPE_TRACING then 108 else 64) = Some (lp_ifindex_or_btf_id a)"
  by (rule load_attr32; simp add: load_fields_def touches_def)+

lemma load_attr_pointers:
  "load64 (set_fields zero_attr (load_fields a lb ls)) 8 = Some (lp_insns a)"
  "load64 (set_fields zero_attr (load_fields a lb ls)) 16 = Some (lp_license a)"
  "load64 (set_fields zero_attr (load_fields a lb ls)) 80 = Some (lp_func_info a)"
  "load64 (set_fields zero_attr (load_fields a lb ls)) 96 = Some (lp_line_info a)"
  by (rule load_attr64; simp add: load_fields_def touches_def)+

lemma load_attr_name:
  assumes "name_ok (lp_name a)"
  shows "takeWhile (\<lambda>c. c \<noteq> 0) (take 16 (drop 48 (set_fields zero_attr (load_fields a lb ls)))) = obj_name (lp_name a)"
proof (cases "obj_name (lp_name a) = []")
  case True
  then have "filter (touches 48 16) (load_fields a lb ls) = []" by (simp add: load_fields_def touches_def)
  from unwritten [OF load_fields_fit this] show ?thesis by (simp add: drop_zero_attr True takeWhile_replicate)
next
  case False
  then have "filter (touches 48 16) (load_fields a lb ls) = [(48, obj_name (lp_name a))]"
    by (simp add: load_fields_def touches_def)
  from written_once [OF load_fields_fit this] show ?thesis by (simp add: drop_zero_attr sent_name [OF assms])
qed

lemma describes_first:
  assumes "name_ok (lp_name a)"
  shows "describes a (lp_func_info_rec_size a) (lp_func_info a) (lp_line_info_rec_size a) (lp_line_info a)
     (set_fields zero_attr (load_fields a lb ls))"
  unfolding describes_def decode_load_def Let_def
  by (simp add: load_attr_words load_attr_pointers load_attr_name [OF assms] length_load_attr del: set_fields_simps)

lemma decode_load_put:
  assumes "length attr = 112"
    and "24 \<le> k \<and> k + length bs \<le> 40 \<or> 76 \<le> k \<and> k + length bs \<le> 88 \<or> 92 \<le> k \<and> k + length bs \<le> 104"
  shows "decode_load (put_field attr (k, bs)) = decode_load attr"
proof -
  have fit: "k + length bs \<le> length attr" using assms by auto
  have w: "load32 (put_field attr (k, bs)) j = load32 attr j"
    if "j + 4 \<le> 24 \<or> 40 \<le> j \<and> j + 4 \<le> 76 \<or> 88 \<le> j \<and> j + 4 \<le> 92 \<or> 104 \<le> j" for j
    by (rule load32_put_other [OF fit]) (use assms(2) that in linarith)
  have p: "load64 (put_field attr (k, bs)) j = load64 attr j" if "j + 8 \<le> 24" for j
    by (rule load64_put_other [OF fit]) (use assms(2) that in linarith)
  have "take 16 (drop 48 (put_field attr (k, bs))) = take 16 (drop 48 attr)"
    by (rule take_drop_put_other [OF fit]) (use assms(2) in linarith)
  then show ?thesis by (simp add: decode_load_def w p)
qed

lemma describes_fields:
  assumes "describes a fr fp lr lp attr"
  shows "describes a x fp lr lp (set_fields attr [(76, bytes32 x)])"
    and "describes a fr fp x lp (set_fields attr [(92, bytes32 x)])"
    and "describes a x q lr lp (set_fields attr [(80, bytes64 q), (76, bytes32 x)])"
    and "describes a fr fp x q (set_fields attr [(96, bytes64 q), (92, bytes32 x)])"
    and "describes a fr fp lr lp (set_fields attr [(32, bytes64 v), (28, bytes32 w), (24, bytes32 y)])"
  using assms by (simp_all add: describes_def decode_load_put read_fields)

lemma describesD:
  assumes "describes a fr fp lr lp attr"
  shows "load32 attr 88 = Some (lp_func_info_cnt a)" and "load32 attr 76 = Some fr"
    and "load32 attr 104 = Some (lp_line_info_cnt a)" and "load32 attr 92 = Some lr"
    and "load64 attr 80 = Some fp" and "load64 attr 96 = Some lp"
  using assms by (simp_all add: describes_def)

lemma describes_reads:
  assumes "describes a fr fp lr lp attr"
  shows "the (load32 attr 76) = fr" "the (load64 attr 80) = fp" "the (load32 attr 88) = lp_func_info_cnt a"
    "the (load32 attr 92) = lr" "the (load64 attr 96) = lp" "the (load32 attr 104) = lp_line_info_cnt a"
  using describesD [OF assms] by simp_all

section \<open>Records\<close>

lemma zero_tailed_record:
  assumes "e \<le> r" and "n * r \<le> length src" and "i < n"
  shows "take r (drop (i * r) (zero_tailed src r e n)) = take e (drop (i * r) src) @ replicate (r - e) 0"
  using assms(2,3)
proof (induction n)
  case (Suc n)
  have len: "length (zero_tailed src r e n) = n * r" using length_zero_tailed [OF assms(1)] Suc.prems by simp
  have rec: "length (take e (drop (n * r) src) @ replicate (r - e) 0) = r" using Suc.prems assms(1) by simp
  show ?case
  proof (cases "i = n")
    case True
    have "take r (take e (drop (n * r) src) @ replicate (r - e) 0) = take e (drop (n * r) src) @ replicate (r - e) 0"
      by (rule take_all) (simp only: rec)
    then show ?thesis using True len by (simp add: zero_tailed_Suc del: take_append)
  next
    case False
    then have "Suc i * r \<le> n * r" using Suc.prems by (intro mult_le_mono1) simp
    then show ?thesis using False Suc len by (simp add: zero_tailed_Suc)
  qed
qed simp

lemma tail_set_copy:
  assumes "e \<le> r" and "n * r \<le> length src"
  shows "\<not> tail_set (m(p \<mapsto> zero_tailed src r e n)) p n r e"
  using zero_tailed_record [OF assms] assms by (auto simp: tail_set_def list_ex_iff)

lemma heads_copy:
  assumes "e \<le> r" and "n * r \<le> length src" and "m q = Some src"
  shows "heads (m(p \<mapsto> zero_tailed src r e n)) p n r e = heads m q n r e"
proof -
  have "take e (take r (drop (i * r) (zero_tailed src r e n))) = take e (take r (drop (i * r) src))" if "i < n" for i
  proof -
    have "Suc i * r \<le> n * r" using that by (intro mult_le_mono1) simp
    then have "length (take e (drop (i * r) src)) = e" using assms(1,2) by simp
    then show ?thesis using zero_tailed_record [OF assms(1,2) that] assms(1) by (simp add: min_def)
  qed
  then show ?thesis using assms(3) by (simp add: heads_def)
qed

lemma tail_set_bounds: "tail_set m p n r e \<Longrightarrow> 0 < n \<and> e < r"
  by (auto simp: tail_set_def list_ex_iff split: option.splits) (metis in_set_dropD in_set_takeD drop_all length_take min.cobounded2 le_trans empty_iff list.set(1) not_le)

lemma other_block [simp]:
  "q \<noteq> p \<Longrightarrow> tail_set (m(q \<mapsto> d)) p n r e = tail_set m p n r e" "q \<noteq> p \<Longrightarrow> heads (m(q \<mapsto> d)) p n r e = heads m p n r e"
  by (simp_all add: tail_set_def heads_def)

section \<open>Rounds\<close>

text \<open>The union has the sizes that the caller gave, and the kernel finds in the memory records without
  tails whose known parts are those of the caller's records in \<open>m0\<close>. Clearing the log does not disturb
  them.\<close>

definition func_clean :: "u32 \<Rightarrow> bpf_load_program_attr \<Rightarrow> user_mem \<Rightarrow> user_mem \<Rightarrow> u64 \<Rightarrow> bool" where
  "func_clean fk a m0 m p \<longleftrightarrow>
     (let n = unat (lp_func_info_cnt a); r = unat (lp_func_info_rec_size a)
      in \<not> tail_set m p n r (unat fk) \<and> heads m p n r (unat fk) = heads m0 (lp_func_info a) n r (unat fk))"

definition line_clean :: "u32 \<Rightarrow> bpf_load_program_attr \<Rightarrow> user_mem \<Rightarrow> user_mem \<Rightarrow> u64 \<Rightarrow> bool" where
  "line_clean lk a m0 m p \<longleftrightarrow>
     (let n = unat (lp_line_info_cnt a); r = unat (lp_line_info_rec_size a)
      in \<not> tail_set m p n r (unat lk) \<and> heads m p n r (unat lk) = heads m0 (lp_line_info a) n r (unat lk))"

text \<open>The program as the kernel should see it, and its verdict.\<close>

definition program_verdict ::
  "'k verdict \<Rightarrow> u32 \<Rightarrow> u32 \<Rightarrow> bpf_load_program_attr \<Rightarrow> user_mem \<Rightarrow> 'k \<Rightarrow> int \<times> 'k" where
  "program_verdict verdict fk lk a m = verdict
     (a\<lparr>lp_name := Some (obj_name (lp_name a)), lp_insns_cnt := ucast (ucast (lp_insns_cnt a) :: u32),
       lp_func_info := 0, lp_func_info_rec_size := 0, lp_line_info := 0, lp_line_info_rec_size := 0, lp_log_level := 0\<rparr>)
     (heads m (lp_func_info a) (unat (lp_func_info_cnt a)) (unat (lp_func_info_rec_size a)) (unat fk))
     (heads m (lp_line_info a) (unat (lp_line_info_cnt a)) (unat (lp_line_info_rec_size a)) (unat lk))"

lemma verdict_ok:
  assumes "loads_programs sys fk lk verdict" and "verdict a fs ls k = (r, k')"
  shows "- 4095 \<le> r" and "r \<noteq> - 11" and "r < 0 \<Longrightarrow> k' = k"
proof -
  have "case verdict a fs ls k of (r, k') \<Rightarrow> - 4095 \<le> r \<and> r \<noteq> - 11 \<and> (r < 0 \<longrightarrow> k' = k)"
    using assms(1) by (simp add: loads_programs_def)
  then show "- 4095 \<le> r" "r \<noteq> - 11" "r < 0 \<Longrightarrow> k' = k" using assms(2) by simp_all
qed

lemma load_round_clean:
  assumes "loads_programs sys fk lk verdict"
    and "describes a (lp_func_info_rec_size a) fp (lp_line_info_rec_size a) lp attr"
    and "func_clean fk a m0 (pr_mem s) fp" and "line_clean lk a m0 (pr_mem s) lp"
    and "program_verdict verdict fk lk a m0 (pr_kern s) = (r, k)"
  shows "sys_bpf_prog_load sys attr s =
     Some (if r < 0 then (- 1, attr, s\<lparr>pr_errno := - r\<rparr>) else (r, attr, s\<lparr>pr_kern := k\<rparr>))"
proof -
  have v: "- 4095 \<le> r" "r \<noteq> - 11" "r < 0 \<Longrightarrow> k = pr_kern s"
    using verdict_ok [OF assms(1) assms(5) [unfolded program_verdict_def]] by blast+
  note d = describes_reads [OF assms(2)]
  have t: "\<not> func_tail attr (pr_mem s) fk" "\<not> line_tail attr (pr_mem s) lk"
    using assms(3,4) unfolding func_tail_def line_tail_def d func_clean_def line_clean_def Let_def by blast+
  have "judge verdict fk lk attr (pr_mem s) = program_verdict verdict fk lk a m0"
    using assms(2-4) unfolding judge_def program_verdict_def describes_def d func_clean_def line_clean_def Let_def by metis
  then have "sys BPF_PROG_LOAD attr (pr_mem s) (pr_kern s) = (r, attr, pr_mem s, k)"
    using assms(1,5) t by (simp add: loads_programs_def load_syscall_def)
  then have o: "load_outcome sys (attr, s) =
      (if r < 0 then (- 1, attr, s\<lparr>pr_errno := - r\<rparr>) else (r, attr, s\<lparr>pr_kern := k\<rparr>))"
    using v by (auto simp: load_outcome_def sys_bpf_def Let_def)
  then have "\<not> load_again sys (attr, s)" using v by (simp add: load_again_def)
  then show ?thesis unfolding o [symmetric] by (rule prog_load_once)
qed

lemma load_round_func_tail:
  assumes "loads_programs sys fk lk verdict" and "describes a fr fp lr lp attr"
    and "tail_set (pr_mem s) fp (unat (lp_func_info_cnt a)) (unat fr) (unat fk)"
  shows "sys_bpf_prog_load sys attr s = Some (- 1, set_fields attr [(76, bytes32 fk)], s\<lparr>pr_errno := 7\<rparr>)"
proof -
  have "func_tail attr (pr_mem s) fk" using assms(3) by (simp add: func_tail_def describes_reads [OF assms(2)])
  then have o: "load_outcome sys (attr, s) = (- 1, set_fields attr [(76, bytes32 fk)], s\<lparr>pr_errno := 7\<rparr>)"
    using assms(1) by (simp add: load_outcome_def sys_bpf_def loads_programs_def load_syscall_def Let_def del: set_fields_simps)
  then have "\<not> load_again sys (attr, s)" by (simp add: load_again_def)
  then show ?thesis unfolding o [symmetric] by (rule prog_load_once)
qed

lemma load_round_line_tail:
  assumes "loads_programs sys fk lk verdict" and "describes a fr fp lr lp attr"
    and "\<not> tail_set (pr_mem s) fp (unat (lp_func_info_cnt a)) (unat fr) (unat fk)"
    and "tail_set (pr_mem s) lp (unat (lp_line_info_cnt a)) (unat lr) (unat lk)"
  shows "sys_bpf_prog_load sys attr s = Some (- 1, set_fields attr [(92, bytes32 lk)], s\<lparr>pr_errno := 7\<rparr>)"
proof -
  have "\<not> func_tail attr (pr_mem s) fk" "line_tail attr (pr_mem s) lk"
    using assms(3,4) by (simp_all add: func_tail_def line_tail_def describes_reads [OF assms(2)])
  then have o: "load_outcome sys (attr, s) = (- 1, set_fields attr [(92, bytes32 lk)], s\<lparr>pr_errno := 7\<rparr>)"
    using assms(1) by (simp add: load_outcome_def sys_bpf_def loads_programs_def load_syscall_def Let_def del: set_fields_simps)
  then have "\<not> load_again sys (attr, s)" by (simp add: load_again_def)
  then show ?thesis unfolding o [symmetric] by (rule prog_load_once)
qed

text \<open>There is memory for the next block, and for the next two.\<close>

definition can_alloc :: "allocator \<Rightarrow> user_mem \<Rightarrow> bool" where
  "can_alloc alloc m \<longleftrightarrow> alloc_ok alloc \<and> (\<forall>n. alloc n m \<noteq> None)"

definition can_alloc2 :: "allocator \<Rightarrow> user_mem \<Rightarrow> bool" where
  "can_alloc2 alloc m \<longleftrightarrow> can_alloc alloc m \<and> (\<forall>p d. m p = None \<longrightarrow> can_alloc alloc (m(p \<mapsto> d)))"

lemma alloc_succeeds:
  assumes "can_alloc alloc (pr_mem s)" and "cnt \<noteq> 0" and "unat cnt < 2 ^ 31" and "pr_mem s q = Some src"
    and "unat cnt * unat actual \<le> length src" and "expected \<le> actual"
  obtains p where "p \<noteq> 0" and "pr_mem s p = None"
    and "alloc_zero_tailing_info alloc q cnt actual expected s =
      Some (p, s\<lparr>pr_mem := (pr_mem s)(p \<mapsto> zero_tailed src (unat actual) (unat expected) (unat cnt))\<rparr>)"
proof -
  obtain p junk where pj: "alloc (unat actual * unat cnt) (pr_mem s) = Some (p, junk)"
    using assms(1) unfolding can_alloc_def by (metis not_None_eq surj_pair)
  then have p: "p \<noteq> 0" "pr_mem s p = None" "length junk = unat cnt * unat actual"
    using assms(1) unfolding can_alloc_def alloc_ok_def by (metis mult.commute)+
  have "unat expected \<le> unat actual" using assms(6) by (simp add: word_le_nat_alt)
  from copy_heads [OF this, of "unat cnt" src junk] show thesis
    using that [OF p(1,2)] assms(2-5) pj p(3) by (simp add: alloc_zero_tailing_info_def)
qed

text \<open>The union and the memory \<open>m\<close> describe the caller's program with the caller's records of \<open>m0\<close> or
  copies of them, and the log buffer \<open>lb\<close> is apart from them.\<close>

definition ready ::
  "u32 \<Rightarrow> u32 \<Rightarrow> bpf_load_program_attr \<Rightarrow> user_mem \<Rightarrow> u64 \<Rightarrow> u64 \<Rightarrow> u64 \<Rightarrow> bytes \<Rightarrow> user_mem \<Rightarrow> bool" where
  "ready fk lk a m0 lb fp lp attr m \<longleftrightarrow>
     describes a (lp_func_info_rec_size a) fp (lp_line_info_rec_size a) lp attr \<and>
     heads m fp (unat (lp_func_info_cnt a)) (unat (lp_func_info_rec_size a)) (unat fk) =
       heads m0 (lp_func_info a) (unat (lp_func_info_cnt a)) (unat (lp_func_info_rec_size a)) (unat fk) \<and>
     heads m lp (unat (lp_line_info_cnt a)) (unat (lp_line_info_rec_size a)) (unat lk) =
       heads m0 (lp_line_info a) (unat (lp_line_info_cnt a)) (unat (lp_line_info_rec_size a)) (unat lk) \<and>
     (lp_func_info_cnt a \<noteq> 0 \<longrightarrow> m fp \<noteq> None) \<and> (lp_line_info_cnt a \<noteq> 0 \<longrightarrow> m lp \<noteq> None) \<and>
     (lb \<noteq> 0 \<longrightarrow> fp \<noteq> lb \<and> lp \<noteq> lb \<and> m lb = m0 lb \<and> m0 lb \<noteq> None)"

definition func_bad :: "u32 \<Rightarrow> bpf_load_program_attr \<Rightarrow> user_mem \<Rightarrow> u64 \<Rightarrow> bool" where
  "func_bad fk a m p = tail_set m p (unat (lp_func_info_cnt a)) (unat (lp_func_info_rec_size a)) (unat fk)"

definition line_bad :: "u32 \<Rightarrow> bpf_load_program_attr \<Rightarrow> user_mem \<Rightarrow> u64 \<Rightarrow> bool" where
  "line_bad lk a m p = tail_set m p (unat (lp_line_info_cnt a)) (unat (lp_line_info_rec_size a)) (unat lk)"

text \<open>Loading, and the rest of the loop.\<close>

definition load_rest ::
  "'k bpf_kernel \<Rightarrow> allocator \<Rightarrow> bpf_load_program_attr \<Rightarrow> u64 \<Rightarrow> u64 \<Rightarrow> bytes \<Rightarrow> 'k proc \<Rightarrow>
   (bool \<times> int \<times> u64 \<times> u64 \<times> bytes \<times> 'k proc) option" where
  "load_rest sys alloc a f l attr s = do {
     (fd, attr, s) \<leftarrow> sys_bpf_prog_load sys attr s;
     if fd \<ge> 0 then Some (True, fd, f, l, attr, s) else correct_loop sys alloc a fd f l attr s }"

text \<open>The outcome with verdict \<open>r\<close> and new state \<open>k\<close> of the kernel.\<close>

definition settled ::
  "u32 \<Rightarrow> u32 \<Rightarrow> bpf_load_program_attr \<Rightarrow> user_mem \<Rightarrow> u64 \<Rightarrow> int \<Rightarrow> 'k \<Rightarrow>
   (bool \<times> int \<times> u64 \<times> u64 \<times> bytes \<times> 'k proc) option \<Rightarrow> bool" where
  "settled fk lk a m0 lb r k res \<longleftrightarrow>
     (\<exists>f l attr s fp lp. res = Some (0 \<le> r, if r < 0 then - 1 else r, f, l, attr, s) \<and>
        pr_kern s = k \<and> (r < 0 \<longrightarrow> pr_errno s = - r) \<and> ready fk lk a m0 lb fp lp attr (pr_mem s) \<and>
        \<not> func_bad fk a (pr_mem s) fp \<and> \<not> line_bad lk a (pr_mem s) lp)"

lemma ready_clean:
  assumes "ready fk lk a m0 lb fp lp attr m" and "\<not> func_bad fk a m fp" and "\<not> line_bad lk a m lp"
  shows "func_clean fk a m0 m fp" and "line_clean lk a m0 m lp"
  using assms by (simp_all add: ready_def func_clean_def line_clean_def func_bad_def line_bad_def Let_def)

lemma settled_clean:
  assumes "loads_programs sys fk lk verdict" and "ready fk lk a m0 lb fp lp attr (pr_mem s)"
    and "\<not> func_bad fk a (pr_mem s) fp" and "\<not> line_bad lk a (pr_mem s) lp"
    and "program_verdict verdict fk lk a m0 (pr_kern s) = (r, k)"
  shows "settled fk lk a m0 lb r k (load_rest sys alloc a f l attr s)"
proof -
  have d: "describes a (lp_func_info_rec_size a) fp (lp_line_info_rec_size a) lp attr" using assms(2) by (simp add: ready_def)
  note round = load_round_clean [OF assms(1) d ready_clean [OF assms(2-4)] assms(5)]
  have k: "r < 0 \<Longrightarrow> k = pr_kern s"
    using verdict_ok(3) [OF assms(1) assms(5) [unfolded program_verdict_def]] .
  have "correct_loop sys alloc a (- 1) f l attr (s\<lparr>pr_errno := - r\<rparr>) = Some (False, - 1, f, l, attr, s\<lparr>pr_errno := - r\<rparr>)"
  proof (cases "r = - 7")
    case True
    then show ?thesis by (intro correct_loop_none [OF _ describesD(1-4) [OF d]]) simp_all
  next
    case False
    then show ?thesis by (intro correct_loop_stop) simp
  qed
  then have "load_rest sys alloc a f l attr s =
      Some (0 \<le> r, if r < 0 then - 1 else r, f, l, attr, if r < 0 then s\<lparr>pr_errno := - r\<rparr> else s\<lparr>pr_kern := k\<rparr>)"
    using round by (simp add: load_rest_def)
  then show ?thesis
    unfolding settled_def using k assms(2-4)
    by (intro exI [of _ f] exI [of _ l] exI [of _ attr] exI [of _ "if r < 0 then s\<lparr>pr_errno := - r\<rparr> else s\<lparr>pr_kern := k\<rparr>"]
        exI [of _ fp] exI [of _ lp]) simp
qed

lemma fresh_block:
  assumes "m p = None" and "n \<noteq> 0 \<Longrightarrow> m q \<noteq> None"
  shows "tail_set (m(p \<mapsto> d)) q n r e = tail_set m q n r e" and "heads (m(p \<mapsto> d)) q n r e = heads m q n r e"
proof -
  have "tail_set (m(p \<mapsto> d)) q n r e = tail_set m q n r e \<and> heads (m(p \<mapsto> d)) q n r e = heads m q n r e"
  proof (cases "q = p")
    case True
    then have "n = 0" using assms by metis
    then show ?thesis by (simp add: tail_set_def heads_def split: option.split)
  qed simp
  then show "tail_set (m(p \<mapsto> d)) q n r e = tail_set m q n r e" "heads (m(p \<mapsto> d)) q n r e = heads m q n r e" by simp_all
qed

lemma ready_line_copy:
  assumes "ready fk lk a m0 lb fp (lp_line_info a) attr m" and "m p = None" and "p \<noteq> 0"
    and "m (lp_line_info a) = Some src"
    and "unat (lp_line_info_cnt a) * unat (lp_line_info_rec_size a) \<le> length src" and "lk \<le> lp_line_info_rec_size a"
    and "describes a (lp_func_info_rec_size a) fp (lp_line_info_rec_size a) p attr'"
    and "m' = m(p \<mapsto> zero_tailed src (unat (lp_line_info_rec_size a)) (unat lk) (unat (lp_line_info_cnt a)))"
  shows "ready fk lk a m0 lb fp p attr' m'" and "\<not> line_bad lk a m' p" and "func_bad fk a m' fp = func_bad fk a m fp"
proof -
  have le: "unat lk \<le> unat (lp_line_info_rec_size a)" using assms(6) by (simp add: word_le_nat_alt)
  have f: "unat (lp_func_info_cnt a) \<noteq> 0 \<Longrightarrow> m fp \<noteq> None" using assms(1) by (auto simp: ready_def unat_eq_0)
  have lb: "lb \<noteq> 0 \<Longrightarrow> p \<noteq> lb" using assms(1,2) by (auto simp: ready_def)
  note fresh = fresh_block [OF assms(2) f, simplified]
  show "\<not> line_bad lk a m' p" using tail_set_copy [OF le assms(5)] by (simp add: line_bad_def assms(8))
  show "func_bad fk a m' fp = func_bad fk a m fp" using fresh by (simp add: func_bad_def assms(8))
  show "ready fk lk a m0 lb fp p attr' m'"
    using assms(1,7) heads_copy [OF le assms(5), of m "lp_line_info a" p] assms(4) fresh lb unfolding ready_def assms(8) by auto
qed

lemma settled_line:
  assumes "loads_programs sys fk lk verdict" and "ready fk lk a m0 lb fp (lp_line_info a) attr (pr_mem s)"
    and "\<not> func_bad fk a (pr_mem s) fp" and "line_bad lk a (pr_mem s) (lp_line_info a)" and "can_alloc alloc (pr_mem s)"
    and "records_ok (pr_mem s) (lp_line_info a) (lp_line_info_cnt a) (lp_line_info_rec_size a)"
    and "program_verdict verdict fk lk a m0 (pr_kern s) = (r, k)"
  shows "settled fk lk a m0 lb r k (load_rest sys alloc a f 0 attr s)"
proof -
  let ?r = "lp_line_info_rec_size a" and ?n = "lp_line_info_cnt a" and ?s = "s\<lparr>pr_errno := 7\<rparr>"
  have d: "describes a (lp_func_info_rec_size a) fp ?r (lp_line_info a) attr" using assms(2) by (simp add: ready_def)
  note round = load_round_line_tail [OF assms(1) d assms(3) [unfolded func_bad_def] assms(4) [unfolded line_bad_def]]
  have b: "?n \<noteq> 0" "lk < ?r"
    using tail_set_bounds [OF assms(4) [unfolded line_bad_def]] by (auto simp: word_less_nat_alt)
  then obtain src where src: "pr_mem ?s (lp_line_info a) = Some src" "unat ?n * unat ?r \<le> length src" "unat ?n < 2 ^ 31"
    using assms(6) by (auto simp: records_ok_def)
  have room: "can_alloc alloc (pr_mem ?s)" using assms(5) by simp
  obtain p where p: "p \<noteq> 0" "pr_mem ?s p = None"
    "alloc_zero_tailing_info alloc (lp_line_info a) ?n ?r lk ?s =
      Some (p, ?s\<lparr>pr_mem := (pr_mem ?s)(p \<mapsto> zero_tailed src (unat ?r) (unat lk) (unat ?n))\<rparr>)"
    by (rule alloc_succeeds [OF room b(1) src(3,1,2) less_imp_le [OF b(2)]])
  let ?attr = "set_fields attr [(92, bytes32 lk)]"
  let ?attr' = "set_fields ?attr [(96, bytes64 p), (92, bytes32 ?r)]"
  let ?s' = "?s\<lparr>pr_mem := (pr_mem ?s)(p \<mapsto> zero_tailed src (unat ?r) (unat lk) (unat ?n))\<rparr>"
  have d1: "describes a (lp_func_info_rec_size a) fp lk (lp_line_info a) ?attr" by (rule describes_fields(2) [OF d])
  have "correct_loop sys alloc a (- 1) f 0 ?attr ?s = load_rest sys alloc a f p ?attr' ?s'"
    using correct_loop_line [OF _ describesD(1-4) [OF d1] b _ p(3), of f sys "- 1"] p(1)
    by (simp add: load_rest_def del: set_fields_simps)
  then have "load_rest sys alloc a f 0 attr s = load_rest sys alloc a f p ?attr' ?s'"
    by (subst load_rest_def) (simp add: round del: set_fields_simps)
  moreover have "settled fk lk a m0 lb r k (load_rest sys alloc a f p ?attr' ?s')"
    using ready_line_copy [OF assms(2) _ p(1) _ src(2) less_imp_le [OF b(2)] describes_fields(4) [OF d1], of "pr_mem ?s'"]
      settled_clean [OF assms(1), of a m0 lb fp p ?attr' ?s' r k alloc f p] p(2) src(1) assms(3,7)
    by (simp del: set_fields_simps)
  ultimately show ?thesis by simp
qed

lemma ready_func_copy:
  assumes "ready fk lk a m0 lb (lp_func_info a) lp attr m" and "m p = None" and "p \<noteq> 0"
    and "m (lp_func_info a) = Some src"
    and "unat (lp_func_info_cnt a) * unat (lp_func_info_rec_size a) \<le> length src" and "fk \<le> lp_func_info_rec_size a"
    and "describes a (lp_func_info_rec_size a) p (lp_line_info_rec_size a) lp attr'"
    and "m' = m(p \<mapsto> zero_tailed src (unat (lp_func_info_rec_size a)) (unat fk) (unat (lp_func_info_cnt a)))"
  shows "ready fk lk a m0 lb p lp attr' m'" and "\<not> func_bad fk a m' p" and "line_bad lk a m' lp = line_bad lk a m lp"
proof -
  have le: "unat fk \<le> unat (lp_func_info_rec_size a)" using assms(6) by (simp add: word_le_nat_alt)
  have l: "unat (lp_line_info_cnt a) \<noteq> 0 \<Longrightarrow> m lp \<noteq> None" using assms(1) by (auto simp: ready_def unat_eq_0)
  have lb: "lb \<noteq> 0 \<Longrightarrow> p \<noteq> lb" using assms(1,2) by (auto simp: ready_def)
  note fresh = fresh_block [OF assms(2) l, simplified]
  show "\<not> func_bad fk a m' p" using tail_set_copy [OF le assms(5)] by (simp add: func_bad_def assms(8))
  show "line_bad lk a m' lp = line_bad lk a m lp" using fresh by (simp add: line_bad_def assms(8))
  show "ready fk lk a m0 lb p lp attr' m'"
    using assms(1,7) heads_copy [OF le assms(5), of m "lp_func_info a" p] assms(4) fresh lb
    unfolding ready_def assms(8) by auto
qed

lemma settled_func_clean:
  assumes "loads_programs sys fk lk verdict" and "ready fk lk a m0 lb fp (lp_line_info a) attr (pr_mem s)"
    and "\<not> func_bad fk a (pr_mem s) fp" and "can_alloc alloc (pr_mem s)"
    and "records_ok (pr_mem s) (lp_line_info a) (lp_line_info_cnt a) (lp_line_info_rec_size a)"
    and "program_verdict verdict fk lk a m0 (pr_kern s) = (r, k)"
  shows "settled fk lk a m0 lb r k (load_rest sys alloc a f 0 attr s)"
  using settled_clean [OF assms(1-3) _ assms(6)] settled_line [OF assms(1-3) _ assms(4-6)] by blast

lemma settled_func:
  assumes "loads_programs sys fk lk verdict"
    and "ready fk lk a m0 lb (lp_func_info a) (lp_line_info a) attr (pr_mem s)" and "can_alloc2 alloc (pr_mem s)"
    and "records_ok (pr_mem s) (lp_func_info a) (lp_func_info_cnt a) (lp_func_info_rec_size a)"
    and "records_ok (pr_mem s) (lp_line_info a) (lp_line_info_cnt a) (lp_line_info_rec_size a)"
    and "program_verdict verdict fk lk a m0 (pr_kern s) = (r, k)"
    and "func_bad fk a (pr_mem s) (lp_func_info a)"
  shows "settled fk lk a m0 lb r k (load_rest sys alloc a 0 0 attr s)"
proof -
  let ?r = "lp_func_info_rec_size a" and ?n = "lp_func_info_cnt a" and ?s = "s\<lparr>pr_errno := 7\<rparr>"
  have d: "describes a ?r (lp_func_info a) (lp_line_info_rec_size a) (lp_line_info a) attr" using assms(2) by (simp add: ready_def)
  note round = load_round_func_tail [OF assms(1) d assms(7) [unfolded func_bad_def]]
  have b: "?n \<noteq> 0" "fk < ?r"
    using tail_set_bounds [OF assms(7) [unfolded func_bad_def]] by (auto simp: word_less_nat_alt)
  then obtain src where src: "pr_mem ?s (lp_func_info a) = Some src" "unat ?n * unat ?r \<le> length src" "unat ?n < 2 ^ 31"
    using assms(4) by (auto simp: records_ok_def)
  have room: "can_alloc alloc (pr_mem ?s)" using assms(3) by (simp add: can_alloc2_def)
  obtain p where p: "p \<noteq> 0" "pr_mem ?s p = None"
    "alloc_zero_tailing_info alloc (lp_func_info a) ?n ?r fk ?s =
      Some (p, ?s\<lparr>pr_mem := (pr_mem ?s)(p \<mapsto> zero_tailed src (unat ?r) (unat fk) (unat ?n))\<rparr>)"
    by (rule alloc_succeeds [OF room b(1) src(3,1,2) less_imp_le [OF b(2)]])
  let ?attr = "set_fields attr [(76, bytes32 fk)]"
  let ?attr' = "set_fields ?attr [(80, bytes64 p), (76, bytes32 ?r)]"
  let ?s' = "?s\<lparr>pr_mem := (pr_mem ?s)(p \<mapsto> zero_tailed src (unat ?r) (unat fk) (unat ?n))\<rparr>"
  have d1: "describes a fk (lp_func_info a) (lp_line_info_rec_size a) (lp_line_info a) ?attr" by (rule describes_fields(1) [OF d])
  have "correct_loop sys alloc a (- 1) 0 0 ?attr ?s = load_rest sys alloc a p 0 ?attr' ?s'"
    using correct_loop_func [OF _ describesD(1-4) [OF d1] b p(3), of sys "- 1" 0] p(1)
    by (simp add: load_rest_def del: set_fields_simps)
  then have eq: "load_rest sys alloc a 0 0 attr s = load_rest sys alloc a p 0 ?attr' ?s'"
    by (subst load_rest_def) (simp add: round del: set_fields_simps)
  have "can_alloc alloc (pr_mem ?s')" using assms(3) p(2) by (simp add: can_alloc2_def)
  moreover have "records_ok (pr_mem ?s') (lp_line_info a) (lp_line_info_cnt a) (lp_line_info_rec_size a)"
    using assms(5) p(2) by (auto simp: records_ok_def)
  ultimately have "settled fk lk a m0 lb r k (load_rest sys alloc a p 0 ?attr' ?s')"
    using ready_func_copy [OF assms(2) _ p(1) _ src(2) less_imp_le [OF b(2)] describes_fields(3) [OF d1], of "pr_mem ?s'"]
      settled_func_clean [OF assms(1), of a m0 lb p ?attr' ?s' alloc r k p] p(2) src(1) assms(6)
    by (simp del: set_fields_simps)
  then show ?thesis using eq by simp
qed

section \<open>Loading\<close>

lemma load_program_rest:
  assumes "(log_buf = 0) = (log_sz = 0)" and "lp_log_level a \<le> 7" and "lp_log_level a \<noteq> 0 \<longrightarrow> log_buf \<noteq> 0"
  shows "bpf_load_program_xattr sys alloc (Some a) log_buf log_sz s = do {
     (dn, fd, f, l, attr, s) \<leftarrow> load_rest sys alloc a 0 0 (set_fields zero_attr (load_fields a log_buf log_sz)) s;
     if dn \<or> lp_log_level a \<noteq> 0 \<or> log_buf = 0 then Some (load_done fd f l s)
     else do {
       m \<leftarrow> poke8 (pr_mem s) log_buf 0;
       (fd, attr, s) \<leftarrow> sys_bpf_prog_load sys
         (set_fields attr [(32, bytes64 log_buf), (28, bytes32 (ucast log_sz)), (24, bytes32 1)]) (s\<lparr>pr_mem := m\<rparr>);
       Some (load_done fd f l s) } }"
proof (cases "sys_bpf_prog_load sys (set_fields zero_attr (load_fields a log_buf log_sz)) s")
  case None
  then show ?thesis using assms by (auto simp: bpf_load_program_xattr_def load_rest_def simp del: set_fields_simps)
next
  case (Some x)
  obtain fd attr s1 where "x = (fd, attr, s1)" by (metis prod_cases3)
  then show ?thesis
    using assms Some
    by (cases "fd \<ge> 0") (auto simp: bpf_load_program_xattr_def load_rest_def load_done_def free_mem_def Let_def cong: if_cong simp del: set_fields_simps)
qed

lemma log_round:
  assumes "loads_programs sys fk lk verdict" and "ready fk lk a m0 lb fp lp attr (pr_mem s)"
    and "\<not> func_bad fk a (pr_mem s) fp" and "\<not> line_bad lk a (pr_mem s) lp"
    and "program_verdict verdict fk lk a m0 (pr_kern s) = (r, k)" and "r < 0" and "lb \<noteq> 0" and "m0 lb \<noteq> Some []"
  shows "\<exists>m. poke8 (pr_mem s) lb 0 = Some m \<and>
     sys_bpf_prog_load sys (set_fields attr [(32, bytes64 lb), (28, bytes32 w), (24, bytes32 1)]) (s\<lparr>pr_mem := m\<rparr>) =
       Some (- 1, set_fields attr [(32, bytes64 lb), (28, bytes32 w), (24, bytes32 1)], s\<lparr>pr_mem := m, pr_errno := - r\<rparr>)"
proof -
  let ?attr = "set_fields attr [(32, bytes64 lb), (28, bytes32 w), (24, bytes32 1)]"
  have rd: "describes a (lp_func_info_rec_size a) fp (lp_line_info_rec_size a) lp attr" "fp \<noteq> lb" "lp \<noteq> lb"
    "pr_mem s lb = m0 lb" "m0 lb \<noteq> None" using assms(2,7) by (simp_all add: ready_def)
  obtain d where d: "pr_mem s lb = Some d" "0 < length d" using rd(4,5) assms(8) by auto
  let ?m = "(pr_mem s)(lb \<mapsto> d[0 := 0])"
  have poke: "poke8 (pr_mem s) lb 0 = Some ?m" using d by (simp add: poke8_def store8_def)
  have clean: "func_clean fk a m0 (pr_mem (s\<lparr>pr_mem := ?m\<rparr>)) fp" "line_clean lk a m0 (pr_mem (s\<lparr>pr_mem := ?m\<rparr>)) lp"
    using ready_clean [OF assms(2-4)] rd(2,3) by (simp_all add: func_clean_def line_clean_def Let_def)
  have "program_verdict verdict fk lk a m0 (pr_kern (s\<lparr>pr_mem := ?m\<rparr>)) = (r, k)" using assms(5) by simp
  from load_round_clean [OF assms(1) describes_fields(5) [OF rd(1)] clean this] show ?thesis
    using poke assms(6) by (simp del: set_fields_simps)
qed

text \<open>C13. Loading a program into a kernel that knows less of the records than the program has gives the
  verdict of the kernel on the program and the known parts of its records: the descriptor, or -1 with the
  error in \<^verbatim>\<open>errno\<close>.\<close>

theorem load_program_adapts:
  assumes "loads_programs sys fk lk verdict" and "can_alloc2 alloc (pr_mem s)" and "name_ok (lp_name a)"
    and "records_ok (pr_mem s) (lp_func_info a) (lp_func_info_cnt a) (lp_func_info_rec_size a)"
    and "records_ok (pr_mem s) (lp_line_info a) (lp_line_info_cnt a) (lp_line_info_rec_size a)"
    and "(log_buf = 0) = (log_sz = 0)" and "lp_log_level a \<le> 7" and "lp_log_level a \<noteq> 0 \<longrightarrow> log_buf \<noteq> 0"
    and "log_buf \<noteq> 0 \<longrightarrow> log_buf \<noteq> lp_func_info a \<and> log_buf \<noteq> lp_line_info a \<and>
      (\<exists>d. pr_mem s log_buf = Some d \<and> d \<noteq> [])"
    and "program_verdict verdict fk lk a (pr_mem s) (pr_kern s) = (r, k)"
  shows "\<exists>s'. bpf_load_program_xattr sys alloc (Some a) log_buf log_sz s = Some (if r < 0 then - 1 else r, s') \<and>
     pr_kern s' = k \<and> (r < 0 \<longrightarrow> pr_errno s' = - r)"
proof -
  let ?attr = "set_fields zero_attr (load_fields a log_buf log_sz)" and ?m = "pr_mem s"
  have "ready fk lk a ?m log_buf (lp_func_info a) (lp_line_info a) ?attr ?m"
    using describes_first [OF assms(3)] assms(4,5,9) by (auto simp: ready_def records_ok_def)
  then have "settled fk lk a ?m log_buf r k (load_rest sys alloc a 0 0 ?attr s)"
    using settled_func [OF assms(1) _ assms(2,4,5,10)] settled_func_clean [OF assms(1) _ _ _ assms(5,10)]
      assms(2) [unfolded can_alloc2_def] by blast
  then obtain f l attr s2 fp lp where
    rest: "load_rest sys alloc a 0 0 ?attr s = Some (0 \<le> r, if r < 0 then - 1 else r, f, l, attr, s2)"
    and s2: "pr_kern s2 = k" "r < 0 \<longrightarrow> pr_errno s2 = - r"
    and rd: "ready fk lk a ?m log_buf fp lp attr (pr_mem s2)" "\<not> func_bad fk a (pr_mem s2) fp" "\<not> line_bad lk a (pr_mem s2) lp"
    unfolding settled_def by blast
  note unfold = load_program_rest [OF assms(6-8), of sys alloc s] rest
  show ?thesis
  proof (cases "0 \<le> r \<or> lp_log_level a \<noteq> 0 \<or> log_buf = 0")
    case True
    then show ?thesis using s2 by (auto simp: unfold load_done_def simp del: set_fields_simps)
  next
    case False
    then have "k = pr_kern s" using verdict_ok(3) [OF assms(1) assms(10) [unfolded program_verdict_def]] by simp
    then have "program_verdict verdict fk lk a ?m (pr_kern s2) = (r, k)" using assms(10) s2(1) by simp
    from log_round [OF assms(1) rd this, of "ucast log_sz"] show ?thesis
      using False assms(9) s2(1) by (auto simp: unfold load_done_def simp del: set_fields_simps)
  qed
qed

definition demo_verdict :: "nat verdict" where
  "demo_verdict a fs ls k = (if fs = [[16, 0, 0, 0, 1, 0, 0, 0]] then (5, Suc k) else (- 22, k))"

definition old_kernel :: "nat bpf_kernel" where
  "old_kernel cmd = (if cmd = BPF_PROG_LOAD then load_syscall 8 16 demo_verdict else (\<lambda>attr m k. (- 22, attr, m, k)))"

theorem load_program_adapts_witness:
  "tail_set (pr_mem (demo_proc (0 :: nat))) 0x100 1 12 8 \<and>
   (\<exists>s'. bpf_load_program_xattr old_kernel demo_alloc (Some demo_prog) 0x200 1 (demo_proc 0) = Some (5, s') \<and> pr_kern s' = 1)"
proof -
  have "loads_programs old_kernel 8 16 demo_verdict" by (auto simp: loads_programs_def old_kernel_def demo_verdict_def)
  moreover have "can_alloc2 demo_alloc (pr_mem (demo_proc (0 :: nat)))"
    using demo_alloc_ok by (simp add: can_alloc2_def can_alloc_def demo_alloc_def demo_proc_def)
  moreover have "program_verdict demo_verdict 8 16 demo_prog (pr_mem (demo_proc 0)) (pr_kern (demo_proc 0)) = (5, 1)"
    by (simp add: program_verdict_def demo_verdict_def heads_def demo_prog_def demo_proc_def)
  ultimately have "\<exists>s'. bpf_load_program_xattr old_kernel demo_alloc (Some demo_prog) 0x200 1 (demo_proc 0) =
      Some (if (5 :: int) < 0 then - 1 else 5, s') \<and> pr_kern s' = 1 \<and> ((5 :: int) < 0 \<longrightarrow> pr_errno s' = - 5)"
    by (intro load_program_adapts [OF _ _ _ demo_records]) (simp_all add: name_ok_def demo_prog_def demo_proc_def)
  moreover have "tail_set (pr_mem (demo_proc (0 :: nat))) 0x100 1 12 8" by (simp add: tail_set_def demo_proc_def)
  ultimately show ?thesis by simp
qed

end
