(* ===== verification/BtfKernel.thy ===== *)
theory BtfKernel
  imports Btf BpfSys
begin

text \<open>
  Types in the kernel: \<^verbatim>\<open>btf__get_from_id\<close> of \<^verbatim>\<open>libbpf/src/btf.c\<close> on top of the system call layer.
  It asks the kernel for the data of an object, with a buffer of 4096 bytes first and with one of the
  right size if that was too small, and parses them. Data loaded with \<^verbatim>\<open>bpf_load_btf\<close> are found
  again under their number.
\<close>

section \<open>Definitions\<close>

text \<open>The local \<^verbatim>\<open>struct bpf_btf_info\<close>, at the address \<open>ip\<close>: pointer, size and number.\<close>

definition btf_info_bytes :: "u64 \<Rightarrow> u32 \<Rightarrow> u32 \<Rightarrow> bytes" where
  "btf_info_bytes btf btf_size i = bytes64 btf @ bytes32 btf_size @ bytes32 i"

text \<open>At \<^verbatim>\<open>exit_free\<close>; \<open>close_fd\<close> is what closing a descriptor does to the kernel.\<close>

definition from_id_exit ::
  "(int \<Rightarrow> 'k \<Rightarrow> 'k) \<Rightarrow> u64 \<Rightarrow> int \<Rightarrow> u64 \<Rightarrow> int \<Rightarrow> btf option \<Rightarrow> 'k proc \<Rightarrow> int \<times> btf option \<times> 'k proc" where
  "from_id_exit close_fd ip obj_fd ptr err b s =
     (err, b, s\<lparr>pr_mem := (free_mem ptr (pr_mem s))(ip := None), pr_kern := close_fd obj_fd (pr_kern s)\<rparr>)"

text \<open>After the queries.\<close>

definition from_id_parse ::
  "(int \<Rightarrow> 'k \<Rightarrow> 'k) \<Rightarrow> (bytes \<Rightarrow> u32 \<Rightarrow> ((int \<times> btf_release list) + btf) option) \<Rightarrow> u64 \<Rightarrow> int \<Rightarrow> u64 \<Rightarrow> u32 \<Rightarrow>
   int \<Rightarrow> 'k proc \<Rightarrow> (int \<times> btf option \<times> 'k proc) option" where
  "from_id_parse close_fd parse ip obj_fd ptr last_size err s = do {
     info \<leftarrow> pr_mem s ip;
     btf_size \<leftarrow> load32 info 8;
     if err \<noteq> 0 \<or> btf_size > last_size
     then Some (from_id_exit close_fd ip obj_fd ptr (pr_errno s) None s)
     else do {
       p \<leftarrow> load64 info 0;
       d \<leftarrow> pr_mem s p;
       r \<leftarrow> parse d btf_size;
       Some (case r of
               Inl (e, _) \<Rightarrow> from_id_exit close_fd ip obj_fd ptr e None s
             | Inr b \<Rightarrow> from_id_exit close_fd ip obj_fd ptr 0 (Some b) s) } }"

text \<open>\<open>parse\<close> is \<^verbatim>\<open>btf__new\<close> with the outcome of its allocations. \<^verbatim>\<open>realloc\<close> gives back the old
  block, and the contents of the new one are overwritten at once.\<close>

definition btf__get_from_id ::
  "'k bpf_kernel \<Rightarrow> (int \<Rightarrow> 'k \<Rightarrow> 'k) \<Rightarrow> allocator \<Rightarrow>
   (bytes \<Rightarrow> u32 \<Rightarrow> ((int \<times> btf_release list) + btf) option) \<Rightarrow> u64 \<Rightarrow> u32 \<Rightarrow> 'k proc \<Rightarrow>
   (int \<times> btf option \<times> 'k proc) option" where
  "btf__get_from_id sys close_fd alloc parse ip obj_id s = do {
     let s = s\<lparr>pr_mem := (pr_mem s)(ip \<mapsto> btf_info_bytes 0 0 0)\<rparr>;
     let (obj_fd, s) = bpf_btf_get_fd_by_id sys obj_id s;
     if obj_fd < 0 then Some (0, None, s\<lparr>pr_mem := (pr_mem s)(ip := None)\<rparr>)
     else case alloc 4096 (pr_mem s) of
       None \<Rightarrow> Some (from_id_exit close_fd ip obj_fd 0 (- 12) None s)
     | Some (ptr, _) \<Rightarrow> do {
         info \<leftarrow> pr_mem s ip;
         let s = s\<lparr>pr_mem := (pr_mem s)(ptr \<mapsto> replicate 4096 0,
                     ip \<mapsto> set_fields info [(8, bytes32 4096), (0, bytes64 ptr)])\<rparr>;
         (err, len, s) \<leftarrow> bpf_obj_get_info_by_fd sys obj_fd ip 16 s;
         info \<leftarrow> pr_mem s ip;
         btf_size \<leftarrow> load32 info 8;
         if err = 0 \<and> btf_size > 4096 then
           (case alloc (unat btf_size) ((pr_mem s)(ptr := None)) of
              None \<Rightarrow> Some (from_id_exit close_fd ip obj_fd ptr (- 12) None s)
            | Some (temp_ptr, _) \<Rightarrow> do {
                let s = s\<lparr>pr_mem := (pr_mem s)(ptr := None, temp_ptr \<mapsto> replicate (unat btf_size) 0,
                            ip \<mapsto> set_fields info [(0, bytes64 temp_ptr)])\<rparr>;
                (err, len, s) \<leftarrow> bpf_obj_get_info_by_fd sys obj_fd ip len s;
                from_id_parse close_fd parse ip obj_fd temp_ptr btf_size err s })
         else from_id_parse close_fd parse ip obj_fd ptr 4096 err s } }"

section \<open>The kernel\<close>

text \<open>Objects in the kernel, numbered from 1, and the descriptors of the process. \<open>btf_syscall\<close> is the
  documented behaviour of the three commands; \<open>valid\<close> is the check of the data.\<close>

record btf_kern =
  bk_objs :: "bytes list"
  bk_fds :: "(u32 \<times> u32) list"
  bk_next :: nat

definition bk_open :: "u32 \<Rightarrow> btf_kern \<Rightarrow> btf_kern" where
  "bk_open i k = k\<lparr>bk_fds := (of_nat (bk_next k), i) # bk_fds k, bk_next := Suc (bk_next k)\<rparr>"

definition bk_close :: "int \<Rightarrow> btf_kern \<Rightarrow> btf_kern" where
  "bk_close fd k = k\<lparr>bk_fds := AList.delete (of_int fd) (bk_fds k)\<rparr>"

definition bk_obj :: "btf_kern \<Rightarrow> u32 \<Rightarrow> bytes option" where
  "bk_obj k i = (if 0 < unat i \<and> unat i \<le> length (bk_objs k) then Some (bk_objs k ! (unat i - 1)) else None)"

definition btf_syscall :: "(bytes \<Rightarrow> bool) \<Rightarrow> btf_kern bpf_kernel" where
  "btf_syscall valid cmd attr m k =
     (case cmd of
        BPF_BTF_LOAD \<Rightarrow>
          (case m (the (load64 attr 0)) \<bind> (\<lambda>d. load_bytes d 0 (unat (the (load32 attr 16)))) of
             None \<Rightarrow> (- 14, attr, m, k)
           | Some d \<Rightarrow>
               if valid d then (int (bk_next k), attr, m,
                 bk_open (of_nat (Suc (length (bk_objs k)))) (k\<lparr>bk_objs := bk_objs k @ [d]\<rparr>))
               else (- 22, attr, m, k))
      | BPF_BTF_GET_FD_BY_ID \<Rightarrow>
          (case bk_obj k (the (load32 attr 0)) of
             None \<Rightarrow> (- 2, attr, m, k)
           | Some _ \<Rightarrow> (int (bk_next k), attr, m, bk_open (the (load32 attr 0)) k))
      | BPF_OBJ_GET_INFO_BY_FD \<Rightarrow>
          (case (map_of (bk_fds k) (the (load32 attr 0)) \<bind>
                  (\<lambda>i. map_option (Pair i) (bk_obj k i)), m (the (load64 attr 8))) of
             (Some (i, d), Some info) \<Rightarrow>
               (case (load64 info 0, load32 info 8) of
                  (Some p, Some n) \<Rightarrow>
                    (case m p of
                       Some u \<Rightarrow>
                         let c = min (unat n) (length d) in
                         if c \<le> length u
                         then (0, attr, m(p \<mapsto> take c d @ drop c u,
                                 the (load64 attr 8) \<mapsto> btf_info_bytes p (of_nat (length d)) i), k)
                         else (- 14, attr, m, k)
                     | None \<Rightarrow> (- 14, attr, m, k))
                | _ \<Rightarrow> (- 14, attr, m, k))
           | (None, _) \<Rightarrow> (- 9, attr, m, k)
           | _ \<Rightarrow> (- 14, attr, m, k))
      | _ \<Rightarrow> (- 22, attr, m, k))"

definition serves_btf :: "btf_kern bpf_kernel \<Rightarrow> (bytes \<Rightarrow> bool) \<Rightarrow> bool" where
  "serves_btf sys valid \<longleftrightarrow>
     list_all (\<lambda>cmd. sys cmd = btf_syscall valid cmd) [BPF_BTF_LOAD, BPF_BTF_GET_FD_BY_ID, BPF_OBJ_GET_INFO_BY_FD]"

section \<open>Calls\<close>

lemma btf_info_fields [simp]:
  "load64 (btf_info_bytes p n i) 0 = Some p" "load32 (btf_info_bytes p n i) 8 = Some n"
  "set_fields (btf_info_bytes q c i) [(8, bytes32 n), (0, bytes64 p)] = btf_info_bytes p n i"
  "set_fields (btf_info_bytes q n i) [(0, bytes64 p)] = btf_info_bytes p n i"
proof -
  show "load32 (btf_info_bytes p n i) 8 = Some n"
    using load32_le [of "bytes64 p" 8 n "bytes32 i"] by (simp add: btf_info_bytes_def)
  have "load64 (put_field (btf_info_bytes p n i) (0, bytes64 p)) 0 = Some p"
    by (rule load64_put_same) (simp add: btf_info_bytes_def)
  then show "load64 (btf_info_bytes p n i) 0 = Some p" by (simp add: put_field_def btf_info_bytes_def)
  show "set_fields (btf_info_bytes q c i) [(8, bytes32 n), (0, bytes64 p)] = btf_info_bytes p n i"
    "set_fields (btf_info_bytes q n i) [(0, bytes64 p)] = btf_info_bytes p n i"
    by (simp_all add: put_field_def btf_info_bytes_def)
qed

lemma get_fd_eq:
  assumes "serves_btf sys valid" and "bk_obj (pr_kern s) i = Some d"
  shows "bpf_btf_get_fd_by_id sys i s = (int (bk_next (pr_kern s)), s\<lparr>pr_kern := bk_open i (pr_kern s)\<rparr>)"
  unfolding bpf_btf_get_fd_by_id_def
  using assms by (subst bpf_result_eq) (auto simp: serves_btf_def btf_syscall_def sys_result_def)

lemma get_info_eq:
  assumes "serves_btf sys valid" and "map_of (bk_fds (pr_kern s)) (of_int fd) = Some i"
    and "bk_obj (pr_kern s) i = Some d" and "pr_mem s ip = Some (btf_info_bytes p n j)"
    and "pr_mem s p = Some u" and "unat n \<le> length u"
  shows "bpf_obj_get_info_by_fd sys fd ip len s =
     Some (0, len, s\<lparr>pr_mem := (pr_mem s)(p \<mapsto> take (min (unat n) (length d)) d @ drop (min (unat n) (length d)) u,
       ip \<mapsto> btf_info_bytes p (of_nat (length d)) i)\<rparr>)"
  using assms
  by (simp add: bpf_obj_get_info_by_fd_def bpf_call_def sys_bpf_def serves_btf_def btf_syscall_def read_fields Let_def)

lemma btf_new_prefix:
  assumes "length d < 2 ^ 32"
  shows "btf__new c mo al (d @ pad) (of_nat (length d)) = btf__new c mo al d (of_nat (length d))"
proof -
  have "unat (of_nat (length d) :: u32) = length d" using assms by (simp add: unat_of_nat_eq)
  then show ?thesis by (simp add: btf__new_def load_bytes_def)
qed

text \<open>The outcome of parsing \<open>d\<close>, as \<^verbatim>\<open>btf__get_from_id\<close> returns it.\<close>

definition parsed :: "((int \<times> btf_release list) + btf) \<Rightarrow> int \<times> btf option" where
  "parsed r = (case r of Inl (e, _) \<Rightarrow> (e, None) | Inr b \<Rightarrow> (0, Some b))"

lemma from_id_parse_eq:
  assumes "pr_mem s ip = Some (btf_info_bytes p (of_nat (length d)) i)" and "of_nat (length d) \<le> last_size"
    and "pr_mem s p = Some (d @ pad)" and "length d < 2 ^ 32"
    and "btf__new c mo al d (of_nat (length d)) = Some r" and "parsed r = (e, b)"
  shows "from_id_parse close_fd (btf__new c mo al) ip fd ptr last_size 0 s = Some (from_id_exit close_fd ip fd ptr e b s)"
  using assms btf_new_prefix [OF assms(4)]
  by (auto simp: from_id_parse_def parsed_def not_less split: sum.splits prod.splits)

text \<open>Memory can be allocated beside the blocks of \<open>m\<close> and one more.\<close>

definition room_beside :: "allocator \<Rightarrow> user_mem \<Rightarrow> u64 \<Rightarrow> bool" where
  "room_beside alloc m ip \<longleftrightarrow>
     alloc_ok alloc \<and> (\<forall>n m'. dom m' \<subseteq> insert ip (dom m) \<longrightarrow> alloc n m' \<noteq> None)"

lemma room_besideD:
  assumes "room_beside alloc m ip" and "dom m' \<subseteq> insert ip (dom m)"
  obtains p junk where "alloc n m' = Some (p, junk)" and "p \<noteq> 0" and "m' p = None"
proof -
  have "alloc n m' \<noteq> None" using assms by (simp add: room_beside_def)
  then obtain p junk where "alloc n m' = Some (p, junk)" by auto
  then show thesis using that assms(1) unfolding room_beside_def alloc_ok_def by blast
qed

lemma exit_restores:
  assumes "m ip = None" and "m ptr = None" and "ptr \<noteq> 0" and "of_nat (bk_next k) \<notin> fst ` set (bk_fds k)"
    and "pr_mem s' = m(ptr \<mapsto> x, ip \<mapsto> y)" and "pr_kern s' = bk_open i k"
  shows "from_id_exit bk_close ip (int (bk_next k)) ptr e b s' =
     (e, b, s'\<lparr>pr_mem := m, pr_kern := k\<lparr>bk_next := Suc (bk_next k)\<rparr>\<rparr>)"
proof -
  have "(free_mem ptr (pr_mem s'))(ip := None) = m"
    using assms(1-3,5) by (auto simp: free_mem_def fun_eq_iff)
  moreover have "bk_close (int (bk_next k)) (bk_open i k) = k\<lparr>bk_next := Suc (bk_next k)\<rparr>"
    using assms(4) by (simp add: bk_close_def bk_open_def delete_idem)
  ultimately show ?thesis using assms(6) by (simp add: from_id_exit_def)
qed

lemma bk_obj_open [simp]: "bk_obj (bk_open j k) i = bk_obj k i"
  by (simp add: bk_obj_def bk_open_def)

lemma get_from_id_eq:
  assumes "serves_btf sys valid" and "bk_obj (pr_kern s) i = Some d" and "length d < 2 ^ 32"
    and "of_nat (bk_next (pr_kern s)) \<notin> fst ` set (bk_fds (pr_kern s))"
    and "pr_mem s ip = None" and "room_beside alloc (pr_mem s) ip"
    and "btf__new c mo al d (of_nat (length d)) = Some r" and "parsed r = (e, b)"
  shows "btf__get_from_id sys bk_close alloc (btf__new c mo al) ip i s =
     Some (e, b, s\<lparr>pr_kern := (pr_kern s)\<lparr>bk_next := Suc (bk_next (pr_kern s))\<rparr>\<rparr>)"
proof -
  let ?k = "pr_kern s" and ?m = "pr_mem s" and ?n = "of_nat (length d) :: u32"
  let ?fd = "int (bk_next ?k)" and ?k1 = "bk_open i ?k"
  have un: "unat ?n = length d" using assms(3) by (simp add: unat_of_nat_eq)
  have fd: "map_of (bk_fds ?k1) (of_int ?fd) = Some i" "bk_obj ?k1 i = Some d"
    using assms(2) by simp_all (simp add: bk_open_def)
  obtain ptr junk where ptr: "alloc 4096 (?m(ip \<mapsto> btf_info_bytes 0 0 0)) = Some (ptr, junk)" "ptr \<noteq> 0"
    "(?m(ip \<mapsto> btf_info_bytes 0 0 0)) ptr = None"
    by (rule room_besideD [OF assms(6), of "?m(ip \<mapsto> btf_info_bytes 0 0 0)" 4096]) auto
  then have p: "ptr \<noteq> ip" "?m ptr = None" by (auto split: if_splits)
  let ?s2 = "s\<lparr>pr_kern := ?k1, pr_mem := ?m(ptr \<mapsto> replicate 4096 0, ip \<mapsto> btf_info_bytes ptr 4096 0)\<rparr>"
  let ?c = "min 4096 (length d)"
  let ?s3 = "s\<lparr>pr_kern := ?k1, pr_mem := ?m(ptr \<mapsto> take ?c d @ drop ?c (replicate 4096 0), ip \<mapsto> btf_info_bytes ptr ?n i)\<rparr>"
  have first: "bpf_obj_get_info_by_fd sys ?fd ip 16 ?s2 = Some (0, 16, ?s3)"
    using get_info_eq [OF assms(1), of ?s2 ?fd i d ip ptr 4096 0 "replicate 4096 0" 16] fd p(1) by (simp add: fun_upd_twist [of ip])
  note start = get_fd_eq [OF assms(1), of "s\<lparr>pr_mem := ?m(ip \<mapsto> btf_info_bytes 0 0 0)\<rparr>" i d] assms(2) ptr(1) first
  show ?thesis
  proof (cases "length d \<le> 4096")
    case True
    have "take ?c d @ drop ?c (replicate 4096 0) = d @ replicate (4096 - length d) 0" using True by simp
    then have "from_id_parse bk_close (btf__new c mo al) ip ?fd ptr 4096 0 ?s3 = Some (from_id_exit bk_close ip ?fd ptr e b ?s3)"
      using True un p(1) by (intro from_id_parse_eq [OF _ _ _ assms(3,7,8)]) (auto simp: word_le_nat_alt)
    moreover have "\<not> ?n > 4096" using True un by (simp add: word_less_nat_alt)
    ultimately show ?thesis
      using exit_restores [OF assms(5) p(2) ptr(2) assms(4), of ?s3] start p(1)
      by (simp add: btf__get_from_id_def del: set_fields_simps)
  next
    case False
    have m: "?m(ptr := None) = ?m" using p(2) by auto
    obtain q junk' where q: "alloc (unat ?n) (?m(ip \<mapsto> btf_info_bytes ptr ?n i, ptr := None)) = Some (q, junk')" "q \<noteq> 0"
      "(?m(ip \<mapsto> btf_info_bytes ptr ?n i, ptr := None)) q = None"
      by (rule room_besideD [OF assms(6), of "?m(ip \<mapsto> btf_info_bytes ptr ?n i, ptr := None)" "unat ?n"]) auto
    then have q': "q \<noteq> ip" "?m q = None" using p by (auto split: if_splits)
    let ?s4 = "s\<lparr>pr_kern := ?k1, pr_mem := ?m(q \<mapsto> replicate (length d) 0, ip \<mapsto> btf_info_bytes q ?n i)\<rparr>"
    let ?s5 = "s\<lparr>pr_kern := ?k1, pr_mem := ?m(q \<mapsto> d, ip \<mapsto> btf_info_bytes q ?n i)\<rparr>"
    have "bpf_obj_get_info_by_fd sys ?fd ip 16 ?s4 = Some (0, 16, ?s5)"
      using get_info_eq [OF assms(1), of ?s4 ?fd i d ip q ?n i "replicate (length d) 0" 16] fd q'(1) un
      by (simp add: fun_upd_twist [of ip])
    moreover have "from_id_parse bk_close (btf__new c mo al) ip ?fd q ?n 0 ?s5 = Some (from_id_exit bk_close ip ?fd q e b ?s5)"
      using q'(1) by (intro from_id_parse_eq [OF _ _ _ assms(3,7,8), where pad = "[]"]) auto
    moreover have "?n > 4096" using False un by (simp add: word_less_nat_alt)
    ultimately show ?thesis
      using exit_restores [OF assms(5) q'(2) q(2) assms(4), of ?s5] start q(1) p(1) un m
      by (simp add: btf__get_from_id_def del: set_fields_simps)
  qed
qed

lemma load_btf_eq:
  assumes "serves_btf sys valid" and "holds_bytes (pr_mem s) p d" and "length d < 2 ^ 32" and "valid d"
  shows "bpf_load_btf sys p (of_nat (length d)) lb ls do_log s =
     (int (bk_next (pr_kern s)), s\<lparr>pr_kern := bk_open (of_nat (Suc (length (bk_objs (pr_kern s)))))
       ((pr_kern s)\<lparr>bk_objs := bk_objs (pr_kern s) @ [d]\<rparr>)\<rparr>)"
proof -
  obtain u where u: "pr_mem s p = Some u" "load_bytes u 0 (length d) = Some d" using assms(2) by (auto simp: holds_bytes_def)
  have "unat (of_nat (length d) :: u32) = length d" using assms(3) by (simp add: unat_of_nat_eq)
  then show ?thesis
    using assms(1,4) u
    by (simp add: bpf_load_btf_def load_btf_round_def sys_bpf_def serves_btf_def btf_syscall_def read_fields Let_def)
qed

section \<open>Properties\<close>

text \<open>C16. Types that are loaded into the kernel and asked for by their number are the same types, whether they
  fit into the first buffer or not; memory and descriptors are given back.\<close>

theorem btf_load_from_id:
  assumes "serves_btf sys valid" and "file_ok ds strs" and "valid (btf_file ds strs)"
    and "holds_bytes (pr_mem s) p (btf_file ds strs)" and "length (bk_objs (pr_kern s)) < 2 ^ 32 - 1"
    and "of_nat (Suc (bk_next (pr_kern s))) \<notin> insert (of_nat (bk_next (pr_kern s))) (fst ` set (bk_fds (pr_kern s)))"
    and "pr_mem s ip = None" and "room_beside alloc (pr_mem s) ip"
  shows "\<exists>s1 b s2. bpf_load_btf sys p (of_nat (length (btf_file ds strs))) lb ls do_log s = (int (bk_next (pr_kern s)), s1) \<and>
     btf__get_from_id sys bk_close alloc (btf__new True True (\<lambda>_. True)) ip (of_nat (Suc (length (bk_objs (pr_kern s))))) s1 =
       Some (0, Some b, s2) \<and>
     represents b ds strs \<and> pr_mem s2 = pr_mem s \<and> bk_fds (pr_kern s2) = bk_fds (pr_kern s1)"
proof -
  let ?f = "btf_file ds strs" and ?k = "pr_kern s"
  let ?i = "of_nat (Suc (length (bk_objs ?k))) :: u32"
  let ?s1 = "s\<lparr>pr_kern := bk_open ?i (?k\<lparr>bk_objs := bk_objs ?k @ [?f]\<rparr>)\<rparr>"
  have len: "length ?f < 2 ^ 32" using assms(2) by (simp add: file_ok_def)
  obtain b where b: "btf__new True True (\<lambda>_. True) ?f (of_nat (length ?f)) = Some (Inr b)" "represents b ds strs"
    using btf_new_file [OF assms(2)] by blast
  have "unat ?i = Suc (length (bk_objs ?k))" using assms(5) by (intro unat_of_nat_eq) simp
  then have "bk_obj (pr_kern ?s1) ?i = Some ?f" by (simp add: bk_obj_def bk_open_def del: of_nat_Suc)
  moreover have "of_nat (bk_next (pr_kern ?s1)) \<notin> fst ` set (bk_fds (pr_kern ?s1))"
    using assms(6) by (simp add: bk_open_def)
  ultimately have "btf__get_from_id sys bk_close alloc (btf__new True True (\<lambda>_. True)) ip ?i ?s1 =
      Some (0, Some b, ?s1\<lparr>pr_kern := (pr_kern ?s1)\<lparr>bk_next := Suc (bk_next (pr_kern ?s1))\<rparr>\<rparr>)"
    using get_from_id_eq [OF assms(1) _ len _ _ _ b(1), of ?s1 ?i ip alloc 0 "Some b"] assms(7,8) by (simp add: parsed_def)
  then show ?thesis using load_btf_eq [of sys valid s p ?f lb ls do_log] assms(1,3,4) len b(2) by auto
qed

text \<open>An error of the query is returned as a positive number, unlike every other error.\<close>

theorem get_from_id_positive_error:
  assumes "\<And>attr m k. sys BPF_BTF_GET_FD_BY_ID attr m k = (int fd, attr, m, k)"
    and "\<And>attr m k. sys BPF_OBJ_GET_INFO_BY_FD attr m k = (- e, attr, m, k)" and "0 < e" and "e \<le> 4095"
    and "pr_mem s ip = None" and "room_beside alloc (pr_mem s) ip"
  shows "\<exists>s'. btf__get_from_id sys close_fd alloc parse ip i s = Some (e, None, s') \<and>
     pr_mem s' = pr_mem s \<and> pr_kern s' = close_fd (int fd) (pr_kern s)"
proof -
  let ?m = "(pr_mem s)(ip \<mapsto> btf_info_bytes 0 0 0)"
  obtain ptr junk where ptr: "alloc 4096 ?m = Some (ptr, junk)" "ptr \<noteq> 0" "?m ptr = None"
    by (rule room_besideD [OF assms(6), of ?m 4096]) auto
  then have p: "ptr \<noteq> ip" "pr_mem s ptr = None" by (auto split: if_splits)
  have fd: "bpf_btf_get_fd_by_id sys i t = (int fd, t)" for t
    using assms(1) by (simp add: bpf_btf_get_fd_by_id_def bpf_result_def bpf_call_def sys_bpf_def Let_def)
  have info: "bpf_obj_get_info_by_fd sys (int fd) ip 16 t = Some (- 1, 16, t\<lparr>pr_errno := e\<rparr>)" for t
    using assms(2-4) by (simp add: bpf_obj_get_info_by_fd_def bpf_call_def sys_bpf_def Let_def)
  have "(free_mem ptr ((pr_mem s)(ptr \<mapsto> x, ip \<mapsto> y)))(ip := None) = pr_mem s" for x y
    using p assms(5) ptr(2) by (auto simp: free_mem_def fun_eq_iff)
  then show ?thesis
    using ptr(1) p(1) fd info
    by (simp add: btf__get_from_id_def from_id_parse_def from_id_exit_def del: set_fields_simps)
qed

definition beside_alloc :: "u64 list \<Rightarrow> allocator" where
  "beside_alloc ps n m = map_option (\<lambda>p. (p, replicate n 0xaa)) (find (\<lambda>p. p \<noteq> 0 \<and> m p = None) ps)"

lemma beside_alloc_ok: "alloc_ok (beside_alloc ps)"
  by (auto simp: alloc_ok_def beside_alloc_def find_Some_iff)

lemma beside_alloc_room:
  assumes "q \<in> set ps" and "q \<noteq> 0" and "m q = None" and "q \<noteq> ip"
  shows "room_beside (beside_alloc ps) m ip"
  using assms beside_alloc_ok by (auto simp: room_beside_def beside_alloc_def find_None_iff)

definition demo_btf_proc :: "btf_kern proc" where
  "demo_btf_proc = \<lparr>pr_kern = \<lparr>bk_objs = [[1, 2, 3]], bk_fds = [(3, 1)], bk_next = 4\<rparr>, pr_errno = 0,
     pr_mem = [0x100 \<mapsto> btf_file demo_types demo_strs]\<rparr>"

theorem btf_load_from_id_witness:
  "\<exists>s1 b s2. bpf_load_btf (btf_syscall (\<lambda>d. hd d = 0x9f)) 0x100 (of_nat (length (btf_file demo_types demo_strs))) 0 0 False
       demo_btf_proc = (4, s1) \<and>
     btf__get_from_id (btf_syscall (\<lambda>d. hd d = 0x9f)) bk_close (beside_alloc [0x1000]) (btf__new True True (\<lambda>_. True)) 0x200 2 s1 =
       Some (0, Some b, s2) \<and> represents b demo_types demo_strs \<and> pr_mem s2 = pr_mem demo_btf_proc"
proof -
  let ?sys = "btf_syscall (\<lambda>d. hd d = 0x9f)"
  have "serves_btf ?sys (\<lambda>d. hd d = 0x9f)" by (simp add: serves_btf_def)
  moreover have "hd (btf_file demo_types demo_strs) = 0x9f" by (simp add: btf_file_def btf_hdr_def)
  moreover have "room_beside (beside_alloc [0x1000]) (pr_mem demo_btf_proc) 0x200"
    by (rule beside_alloc_room [of "0x1000"]) (simp_all add: demo_btf_proc_def)
  moreover have "holds_bytes (pr_mem demo_btf_proc) 0x100 (btf_file demo_types demo_strs)"
    by (simp add: holds_bytes_def demo_btf_proc_def load_bytes_def)
  moreover have "length (bk_objs (pr_kern demo_btf_proc)) < 2 ^ 32 - 1" "pr_mem demo_btf_proc 0x200 = None"
    "of_nat (Suc (bk_next (pr_kern demo_btf_proc))) \<notin>
      insert (of_nat (bk_next (pr_kern demo_btf_proc))) (fst ` set (bk_fds (pr_kern demo_btf_proc)))"
    by (simp_all add: demo_btf_proc_def)
  ultimately have "\<exists>s1 b s2. bpf_load_btf ?sys 0x100 (of_nat (length (btf_file demo_types demo_strs))) 0 0 False demo_btf_proc =
      (int (bk_next (pr_kern demo_btf_proc)), s1) \<and>
     btf__get_from_id ?sys bk_close (beside_alloc [0x1000]) (btf__new True True (\<lambda>_. True)) 0x200
       (of_nat (Suc (length (bk_objs (pr_kern demo_btf_proc))))) s1 = Some (0, Some b, s2) \<and>
     represents b demo_types demo_strs \<and> pr_mem s2 = pr_mem demo_btf_proc \<and> bk_fds (pr_kern s2) = bk_fds (pr_kern s1)"
    by (intro btf_load_from_id [OF _ demo_file_ok])
  moreover have "int (bk_next (pr_kern demo_btf_proc)) = 4" "of_nat (Suc (length (bk_objs (pr_kern demo_btf_proc)))) = (2 :: u32)"
    by (simp_all add: demo_btf_proc_def)
  ultimately show ?thesis by metis
qed

end
