(* ===== verification/ObjPin.thy ===== *)
theory ObjPin
  imports Main "HOL-Library.Multiset"
begin

text \<open>
  Pinning of maps and programs in the BPF file system, from \<^verbatim>\<open>libbpf/src/libbpf.c\<close>: an object pins
  all its maps and programs, or none: when one fails, those pinned before it are unpinned again. Proved:
  this atomicity, that unpinning undoes pinning, and two consequences of the way the code goes back (pins
  made earlier are lost, and a path that failed sticks to its map).

  The file system and \<^verbatim>\<open>strdup\<close> are parameters (\<open>fs_ops\<close>) on a state \<open>'k\<close>; an operation gives 0 or
  the value of \<^verbatim>\<open>errno\<close>, which is taken to survive the messages that the code prints before it reads it. The arrays of maps and programs of an object are lists, of which only
  the fields that pinning uses are kept; \<^verbatim>\<open>bpf_map__get_pin_path\<close> and \<^verbatim>\<open>bpf_map__is_pinned\<close> are the
  selectors. Paths of programs are not NULL.
\<close>

section \<open>Definitions\<close>

record 'k fs_ops =
  fs_dup :: "'k \<Rightarrow> bool \<times> 'k"
  fs_mkdir :: "string \<Rightarrow> 'k \<Rightarrow> int \<times> 'k"
  fs_statfs :: "string \<Rightarrow> 'k \<Rightarrow> int + int"
  fs_unlink :: "string \<Rightarrow> 'k \<Rightarrow> int \<times> 'k"
  fs_rmdir :: "string \<Rightarrow> 'k \<Rightarrow> int \<times> 'k"
  fs_obj_pin :: "int \<Rightarrow> string \<Rightarrow> 'k \<Rightarrow> int \<times> 'k"

record pin_map =
  pm_fd :: int
  pm_name :: string
  pm_pin_path :: "string option"
  pm_pinned :: bool

record pin_prog =
  pp_idx :: int
  pp_pin_name :: string
  pp_nr :: int
  pp_fds :: "int list"

record pin_object =
  po_loaded :: bool
  po_text_shndx :: int
  po_has_pseudo_calls :: bool
  po_maps :: "pin_map list"
  po_programs :: "pin_prog list"

definition PATH_MAX :: nat where "PATH_MAX = 4096"
definition BPF_FS_MAGIC :: int where "BPF_FS_MAGIC = 0xcafe4a11"

text \<open>\<^verbatim>\<open>dirname\<close> of the C library.\<close>

definition strip_slashes :: "string \<Rightarrow> string" where
  "strip_slashes p = rev (dropWhile (\<lambda>c. c = CHR ''/'') (rev p))"

definition dirname :: "string \<Rightarrow> string" where
  "dirname p =
     (let q = strip_slashes p in
      if q = [] then (if p = [] then ''.'' else ''/'')
      else if CHR ''/'' \<notin> set q then ''.''
      else let r = strip_slashes (rev (dropWhile (\<lambda>c. c \<noteq> CHR ''/'') (rev q)))
           in if r = [] then ''/'' else r)"

definition make_parent_dir :: "'k fs_ops \<Rightarrow> string \<Rightarrow> 'k \<Rightarrow> int \<times> 'k" where
  "make_parent_dir fs path k =
     (let (ok, k) = fs_dup fs k in
      if \<not> ok then (- 12, k)
      else let (e, k) = fs_mkdir fs (dirname path) k in (if e \<noteq> 0 \<and> e \<noteq> 17 then - e else 0, k))"

definition check_path :: "'k fs_ops \<Rightarrow> string option \<Rightarrow> 'k \<Rightarrow> int \<times> 'k" where
  "check_path fs path k =
     (case path of
        None \<Rightarrow> (- 22, k)
      | Some p \<Rightarrow>
          let (ok, k) = fs_dup fs k in
          if \<not> ok then (- 12, k)
          else case fs_statfs fs (dirname p) k of
                 Inl e \<Rightarrow> (- e, k)
               | Inr ty \<Rightarrow> (if ty \<noteq> BPF_FS_MAGIC then - 22 else 0, k))"

text \<open>The value of an operation of the file system as the code returns it.\<close>

definition neg_errno :: "int \<times> 'k \<Rightarrow> int \<times> 'k" where
  "neg_errno r = (- fst r, snd r)"

subsection \<open>Programs\<close>

definition bpf_program__pin_instance ::
  "'k fs_ops \<Rightarrow> pin_prog option \<Rightarrow> string \<Rightarrow> int \<Rightarrow> 'k \<Rightarrow> int \<times> 'k" where
  "bpf_program__pin_instance fs prog path instance k =
     (let (err, k) = make_parent_dir fs path k in
      if err \<noteq> 0 then (err, k)
      else let (err, k) = check_path fs (Some path) k in
      if err \<noteq> 0 then (err, k)
      else case prog of
        None \<Rightarrow> (- 22, k)
      | Some p \<Rightarrow>
          if instance < 0 \<or> instance \<ge> pp_nr p then (- 22, k)
          else neg_errno (fs_obj_pin fs (pp_fds p ! nat instance) path k))"

definition bpf_program__unpin_instance ::
  "'k fs_ops \<Rightarrow> pin_prog option \<Rightarrow> string \<Rightarrow> int \<Rightarrow> 'k \<Rightarrow> int \<times> 'k" where
  "bpf_program__unpin_instance fs prog path instance k =
     (let (err, k) = check_path fs (Some path) k in
      if err \<noteq> 0 then (err, k)
      else case prog of
        None \<Rightarrow> (- 22, k)
      | Some p \<Rightarrow>
          if instance < 0 \<or> instance \<ge> pp_nr p then (- 22, k)
          else neg_errno (fs_unlink fs path k))"

text \<open>
  \<^verbatim>\<open>snprintf(buf, PATH_MAX, "%s/%s", path, name)\<close> and the checks of its length that follow it
  everywhere: the error, or the path. A length beyond an \<^verbatim>\<open>int\<close> is a negative result.
\<close>

definition join_checked :: "string \<Rightarrow> string \<Rightarrow> int + string" where
  "join_checked path name =
     (let s = path @ ''/'' @ name in
      if length s > 2147483647 then Inl (- 22)
      else if length s \<ge> PATH_MAX then Inl (- 36)
      else Inr s)"

text \<open>\<^verbatim>\<open>%d\<close> of a number that is not negative.\<close>

fun decimal :: "nat \<Rightarrow> string" where
  "decimal n = (if n < 10 then [char_of (48 + n)] else decimal (n div 10) @ [char_of (48 + n mod 10)])"

declare decimal.simps [simp del]

text \<open>The loop at \<^verbatim>\<open>err_unpin\<close>, for the instances below \<open>i\<close>, downwards.\<close>

primrec unpin_instances_below :: "'k fs_ops \<Rightarrow> pin_prog \<Rightarrow> string \<Rightarrow> nat \<Rightarrow> 'k \<Rightarrow> 'k" where
  "unpin_instances_below fs p path 0 k = k"
| "unpin_instances_below fs p path (Suc i) k =
     (let k = (case join_checked path (decimal i) of
                 Inl _ \<Rightarrow> k
               | Inr buf \<Rightarrow> snd (bpf_program__unpin_instance fs (Some p) buf (int i) k))
      in unpin_instances_below fs p path i k)"

text \<open>The loop of \<^verbatim>\<open>bpf_program__pin\<close> from instance \<open>i\<close>, with \<open>n\<close> instances to go.\<close>

primrec pin_instances :: "'k fs_ops \<Rightarrow> pin_prog \<Rightarrow> string \<Rightarrow> nat \<Rightarrow> nat \<Rightarrow> 'k \<Rightarrow> int \<times> 'k" where
  "pin_instances fs p path i 0 k = (0, k)"
| "pin_instances fs p path i (Suc n) k =
     (let (err, k) = (case join_checked path (decimal i) of
                        Inl e \<Rightarrow> (e, k)
                      | Inr buf \<Rightarrow> bpf_program__pin_instance fs (Some p) buf (int i) k)
      in if err \<noteq> 0 then (err, snd (fs_rmdir fs path (unpin_instances_below fs p path i k)))
         else pin_instances fs p path (Suc i) n k)"

definition bpf_program__pin :: "'k fs_ops \<Rightarrow> pin_prog option \<Rightarrow> string \<Rightarrow> 'k \<Rightarrow> int \<times> 'k" where
  "bpf_program__pin fs prog path k =
     (let (err, k) = make_parent_dir fs path k in
      if err \<noteq> 0 then (err, k)
      else let (err, k) = check_path fs (Some path) k in
      if err \<noteq> 0 then (err, k)
      else case prog of
        None \<Rightarrow> (- 22, k)
      | Some p \<Rightarrow>
          if pp_nr p \<le> 0 then (- 22, k)
          else if pp_nr p = 1 then bpf_program__pin_instance fs prog path 0 k
          else pin_instances fs p path 0 (nat (pp_nr p)) k)"

primrec unpin_instances :: "'k fs_ops \<Rightarrow> pin_prog \<Rightarrow> string \<Rightarrow> nat \<Rightarrow> nat \<Rightarrow> 'k \<Rightarrow> int \<times> 'k" where
  "unpin_instances fs p path i 0 k = neg_errno (fs_rmdir fs path k)"
| "unpin_instances fs p path i (Suc n) k =
     (case join_checked path (decimal i) of
        Inl e \<Rightarrow> (e, k)
      | Inr buf \<Rightarrow>
          let (err, k) = bpf_program__unpin_instance fs (Some p) buf (int i) k in
          if err \<noteq> 0 then (err, k) else unpin_instances fs p path (Suc i) n k)"

definition bpf_program__unpin :: "'k fs_ops \<Rightarrow> pin_prog option \<Rightarrow> string \<Rightarrow> 'k \<Rightarrow> int \<times> 'k" where
  "bpf_program__unpin fs prog path k =
     (let (err, k) = check_path fs (Some path) k in
      if err \<noteq> 0 then (err, k)
      else case prog of
        None \<Rightarrow> (- 22, k)
      | Some p \<Rightarrow>
          if pp_nr p \<le> 0 then (- 22, k)
          else if pp_nr p = 1 then bpf_program__unpin_instance fs prog path 0 k
          else unpin_instances fs p path 0 (nat (pp_nr p)) k)"

subsection \<open>Maps\<close>

text \<open>\<^verbatim>\<open>bpf_map__pin\<close> and \<^verbatim>\<open>bpf_map__unpin\<close> on a pointer that is not NULL.\<close>

definition pin_at :: "'k fs_ops \<Rightarrow> pin_map \<Rightarrow> string \<Rightarrow> 'k \<Rightarrow> int \<times> pin_map \<times> 'k" where
  "pin_at fs m p k =
     (let (err, k) = make_parent_dir fs p k in
      if err \<noteq> 0 then (err, m, k)
      else let (err, k) = check_path fs (Some p) k in
      if err \<noteq> 0 then (err, m, k)
      else let (e, k) = fs_obj_pin fs (pm_fd m) p k in
      if e \<noteq> 0 then (- e, m, k)
      else (0, m\<lparr>pm_pinned := True\<rparr>, k))"

definition map_pin :: "'k fs_ops \<Rightarrow> pin_map \<Rightarrow> string option \<Rightarrow> 'k \<Rightarrow> int \<times> pin_map \<times> 'k" where
  "map_pin fs m path k =
     (case pm_pin_path m of
        Some p \<Rightarrow>
          if path \<noteq> None \<and> path \<noteq> Some p then (- 22, m, k)
          else if pm_pinned m then (0, m, k)
          else pin_at fs m p k
      | None \<Rightarrow>
          (case path of
             None \<Rightarrow> (- 22, m, k)
           | Some p \<Rightarrow>
               if pm_pinned m then (- 17, m, k)
               else let (ok, k) = fs_dup fs k in
               if \<not> ok then (- 12, m, k)
               else pin_at fs (m\<lparr>pm_pin_path := Some p\<rparr>) p k))"

definition unpin_at :: "'k fs_ops \<Rightarrow> pin_map \<Rightarrow> string \<Rightarrow> 'k \<Rightarrow> int \<times> pin_map \<times> 'k" where
  "unpin_at fs m p k =
     (let (err, k) = check_path fs (Some p) k in
      if err \<noteq> 0 then (err, m, k)
      else let (e, k) = fs_unlink fs p k in
      if e \<noteq> 0 then (- e, m, k)
      else (0, m\<lparr>pm_pinned := False\<rparr>, k))"

definition map_unpin :: "'k fs_ops \<Rightarrow> pin_map \<Rightarrow> string option \<Rightarrow> 'k \<Rightarrow> int \<times> pin_map \<times> 'k" where
  "map_unpin fs m path k =
     (case pm_pin_path m of
        Some p \<Rightarrow> if path \<noteq> None \<and> path \<noteq> Some p then (- 22, m, k) else unpin_at fs m p k
      | None \<Rightarrow> (case path of None \<Rightarrow> (- 22, m, k) | Some p \<Rightarrow> unpin_at fs m p k))"

definition bpf_map__pin ::
  "'k fs_ops \<Rightarrow> pin_map option \<Rightarrow> string option \<Rightarrow> 'k \<Rightarrow> int \<times> pin_map option \<times> 'k" where
  "bpf_map__pin fs mp path k =
     (case mp of
        None \<Rightarrow> (- 22, None, k)
      | Some m \<Rightarrow> let (err, m, k) = map_pin fs m path k in (err, Some m, k))"

definition bpf_map__unpin ::
  "'k fs_ops \<Rightarrow> pin_map option \<Rightarrow> string option \<Rightarrow> 'k \<Rightarrow> int \<times> pin_map option \<times> 'k" where
  "bpf_map__unpin fs mp path k =
     (case mp of
        None \<Rightarrow> (- 22, None, k)
      | Some m \<Rightarrow> let (err, m, k) = map_unpin fs m path k in (err, Some m, k))"

definition bpf_map__set_pin_path :: "'k fs_ops \<Rightarrow> pin_map \<Rightarrow> string option \<Rightarrow> 'k \<Rightarrow> int \<times> pin_map \<times> 'k" where
  "bpf_map__set_pin_path fs m path k =
     (case path of
        None \<Rightarrow> (0, m\<lparr>pm_pin_path := None\<rparr>, k)
      | Some p \<Rightarrow>
          let (ok, k) = fs_dup fs k in
          if \<not> ok then (- 12, m, k) else (0, m\<lparr>pm_pin_path := Some p\<rparr>, k))"

subsection \<open>Objects\<close>

text \<open>
  The argument of \<^verbatim>\<open>bpf_map__pin\<close> and \<^verbatim>\<open>bpf_map__unpin\<close> in the loops over the maps: \<open>None\<close> when the map
  is passed over, an error, or the path, which is NULL when the one of the map is meant.
\<close>

definition map_target :: "string option \<Rightarrow> pin_map \<Rightarrow> (int + string option) option" where
  "map_target path m =
     (case path of
        Some dir \<Rightarrow> Some (case join_checked dir (pm_name m) of Inl e \<Rightarrow> Inl e | Inr s \<Rightarrow> Inr (Some s))
      | None \<Rightarrow> if pm_pin_path m = None then None else Some (Inr None))"

text \<open>
  \<^verbatim>\<open>err_unpin_maps\<close>: the maps before the failing one, the last first. Results of \<^verbatim>\<open>bpf_map__unpin\<close>
  are ignored.
\<close>

fun unpin_back :: "'k fs_ops \<Rightarrow> pin_map list \<Rightarrow> 'k \<Rightarrow> pin_map list \<times> 'k" where
  "unpin_back fs [] k = ([], k)"
| "unpin_back fs (m # ms) k =
     (let (m, k) = (if pm_pin_path m = None then (m, k)
                    else let (err, m, k) = map_unpin fs m None k in (m, k));
          (ms, k) = unpin_back fs ms k
      in (m # ms, k))"

text \<open>The loop of \<^verbatim>\<open>bpf_object__pin_maps\<close>: \<open>prev\<close> holds the maps already passed, the last first.\<close>

fun pin_maps_from ::
  "'k fs_ops \<Rightarrow> string option \<Rightarrow> pin_map list \<Rightarrow> pin_map list \<Rightarrow> 'k \<Rightarrow> int \<times> pin_map list \<times> 'k" where
  "pin_maps_from fs path prev [] k = (0, rev prev, k)"
| "pin_maps_from fs path prev (m # ms) k =
     (case map_target path m of
        None \<Rightarrow> pin_maps_from fs path (m # prev) ms k
      | Some t \<Rightarrow>
          let (err, m, k) = (case t of Inl e \<Rightarrow> (e, m, k) | Inr p \<Rightarrow> map_pin fs m p k)
          in if err \<noteq> 0 then let (prev, k) = unpin_back fs prev k in (err, rev prev @ m # ms, k)
             else pin_maps_from fs path (m # prev) ms k)"

definition bpf_object__pin_maps ::
  "'k fs_ops \<Rightarrow> pin_object option \<Rightarrow> string option \<Rightarrow> 'k \<Rightarrow> int \<times> pin_object option \<times> 'k" where
  "bpf_object__pin_maps fs obj path k =
     (case obj of
        None \<Rightarrow> (- 2, None, k)
      | Some ob \<Rightarrow>
          if \<not> po_loaded ob then (- 2, Some ob, k)
          else let (err, ms, k) = pin_maps_from fs path [] (po_maps ob) k
               in (err, Some (ob\<lparr>po_maps := ms\<rparr>), k))"

fun unpin_maps_all ::
  "'k fs_ops \<Rightarrow> string option \<Rightarrow> pin_map list \<Rightarrow> 'k \<Rightarrow> int \<times> pin_map list \<times> 'k" where
  "unpin_maps_all fs path [] k = (0, [], k)"
| "unpin_maps_all fs path (m # ms) k =
     (let (err, m, k) = (case map_target path m of
                           None \<Rightarrow> (0, m, k)
                         | Some (Inl e) \<Rightarrow> (e, m, k)
                         | Some (Inr p) \<Rightarrow> map_unpin fs m p k)
      in if err \<noteq> 0 then (err, m # ms, k)
         else let (err, ms, k) = unpin_maps_all fs path ms k in (err, m # ms, k))"

definition bpf_object__unpin_maps ::
  "'k fs_ops \<Rightarrow> pin_object option \<Rightarrow> string option \<Rightarrow> 'k \<Rightarrow> int \<times> pin_object option \<times> 'k" where
  "bpf_object__unpin_maps fs obj path k =
     (case obj of
        None \<Rightarrow> (- 2, None, k)
      | Some ob \<Rightarrow>
          let (err, ms, k) = unpin_maps_all fs path (po_maps ob) k
          in (err, Some (ob\<lparr>po_maps := ms\<rparr>), k))"

text \<open>
  \<^verbatim>\<open>bpf_program__next\<close> and \<^verbatim>\<open>bpf_program__prev\<close> pass over the section that only holds functions called
  by the others; the programs they visit, in order.
\<close>

definition bpf_program__is_function_storage :: "pin_prog \<Rightarrow> pin_object \<Rightarrow> bool" where
  "bpf_program__is_function_storage p ob \<longleftrightarrow> pp_idx p = po_text_shndx ob \<and> po_has_pseudo_calls ob"

definition each_program :: "pin_object \<Rightarrow> pin_prog list" where
  "each_program ob = filter (\<lambda>p. \<not> bpf_program__is_function_storage p ob) (po_programs ob)"

fun unpin_progs_back :: "'k fs_ops \<Rightarrow> string \<Rightarrow> pin_prog list \<Rightarrow> 'k \<Rightarrow> 'k" where
  "unpin_progs_back fs path [] k = k"
| "unpin_progs_back fs path (p # ps) k =
     (let k = (case join_checked path (pp_pin_name p) of
                 Inl _ \<Rightarrow> k
               | Inr buf \<Rightarrow> snd (bpf_program__unpin fs (Some p) buf k))
      in unpin_progs_back fs path ps k)"

fun pin_progs_from ::
  "'k fs_ops \<Rightarrow> string \<Rightarrow> pin_prog list \<Rightarrow> pin_prog list \<Rightarrow> 'k \<Rightarrow> int \<times> 'k" where
  "pin_progs_from fs path prev [] k = (0, k)"
| "pin_progs_from fs path prev (p # ps) k =
     (let (err, k) = (case join_checked path (pp_pin_name p) of
                        Inl e \<Rightarrow> (e, k)
                      | Inr buf \<Rightarrow> bpf_program__pin fs (Some p) buf k)
      in if err \<noteq> 0 then (err, unpin_progs_back fs path prev k)
         else pin_progs_from fs path (p # prev) ps k)"

definition bpf_object__pin_programs ::
  "'k fs_ops \<Rightarrow> pin_object option \<Rightarrow> string \<Rightarrow> 'k \<Rightarrow> int \<times> 'k" where
  "bpf_object__pin_programs fs obj path k =
     (case obj of
        None \<Rightarrow> (- 2, k)
      | Some ob \<Rightarrow> if \<not> po_loaded ob then (- 2, k) else pin_progs_from fs path [] (each_program ob) k)"

fun unpin_progs_all :: "'k fs_ops \<Rightarrow> string \<Rightarrow> pin_prog list \<Rightarrow> 'k \<Rightarrow> int \<times> 'k" where
  "unpin_progs_all fs path [] k = (0, k)"
| "unpin_progs_all fs path (p # ps) k =
     (let (err, k) = (case join_checked path (pp_pin_name p) of
                        Inl e \<Rightarrow> (e, k)
                      | Inr buf \<Rightarrow> bpf_program__unpin fs (Some p) buf k)
      in if err \<noteq> 0 then (err, k) else unpin_progs_all fs path ps k)"

definition bpf_object__unpin_programs ::
  "'k fs_ops \<Rightarrow> pin_object option \<Rightarrow> string \<Rightarrow> 'k \<Rightarrow> int \<times> 'k" where
  "bpf_object__unpin_programs fs obj path k =
     (case obj of None \<Rightarrow> (- 2, k) | Some ob \<Rightarrow> unpin_progs_all fs path (each_program ob) k)"

definition bpf_object__pin ::
  "'k fs_ops \<Rightarrow> pin_object option \<Rightarrow> string \<Rightarrow> 'k \<Rightarrow> int \<times> pin_object option \<times> 'k" where
  "bpf_object__pin fs obj path k =
     (let (err, obj, k) = bpf_object__pin_maps fs obj (Some path) k in
      if err \<noteq> 0 then (err, obj, k)
      else let (err, k) = bpf_object__pin_programs fs obj path k in
      if err \<noteq> 0 then let (_, obj, k) = bpf_object__unpin_maps fs obj (Some path) k in (err, obj, k)
      else (0, obj, k))"

section \<open>The contract of the file system\<close>

text \<open>
  \<open>view k\<close> are the objects pinned in the state \<open>k\<close>, by path. What the undoing relies on: there is memory
  for \<^verbatim>\<open>strdup\<close> (the code that goes back copies each path again), directories are no pins, \<^verbatim>\<open>BPF_OBJ_PIN\<close> creates a file that was not there or changes nothing, a pin
  is on the BPF file system and can be removed.
\<close>

definition bpffs_ok :: "'k fs_ops \<Rightarrow> ('k \<Rightarrow> string \<rightharpoonup> int) \<Rightarrow> bool" where
  "bpffs_ok fs view \<longleftrightarrow>
     (\<forall>k. fst (fs_dup fs k) \<and> view (snd (fs_dup fs k)) = view k)
     \<and> (\<forall>d k. view (snd (fs_mkdir fs d k)) = view k)
     \<and> (\<forall>d k. view (snd (fs_rmdir fs d k)) = view k)
     \<and> (\<forall>fd p k. fst (fs_obj_pin fs fd p k) = 0 \<and> view k p = None
                 \<and> view (snd (fs_obj_pin fs fd p k)) = (view k)(p \<mapsto> fd)
               \<or> fst (fs_obj_pin fs fd p k) \<noteq> 0 \<and> view (snd (fs_obj_pin fs fd p k)) = view k)
     \<and> (\<forall>p k. view k p \<noteq> None \<longrightarrow> fs_statfs fs (dirname p) k = Inr BPF_FS_MAGIC \<and> fst (fs_unlink fs p k) = 0
               \<and> view (snd (fs_unlink fs p k)) = (view k)(p := None))"

text \<open>The pins \<open>ps\<close> have been added to \<open>v\<close>, which held none at their paths.\<close>

definition laid :: "(string \<rightharpoonup> int) \<Rightarrow> (string \<times> int) list \<Rightarrow> (string \<rightharpoonup> int) \<Rightarrow> bool" where
  "laid v ps v' \<longleftrightarrow> distinct (map fst ps) \<and> (\<forall>q \<in> set ps. v (fst q) = None) \<and> v' = v ++ map_of ps"

lemma laid_Nil [simp]: "laid v [] v' \<longleftrightarrow> v' = v"
  by (auto simp: laid_def)

lemma laid_pin: "laid v ps v' \<Longrightarrow> v' p = None \<Longrightarrow> laid v ((p, fd) # ps) (v'(p \<mapsto> fd))"
  by (auto simp: laid_def map_add_None map_of_eq_None_iff)

lemma laid_mset: "laid v ps v' \<Longrightarrow> mset ps = mset qs \<Longrightarrow> laid v qs v'"
  unfolding laid_def
  by (metis map_of_inject_set mset_eq_imp_distinct_iff mset_map set_mset_mset)

lemma laid_unpin: "laid v ((p, fd) # ps) v' \<Longrightarrow> v' p = Some fd \<and> laid v ps (v'(p := None))"
  by (auto simp: laid_def map_add_def fun_eq_iff map_of_eq_None_iff image_iff split: option.splits if_splits)

lemma laid_append: "laid v ps v1 \<Longrightarrow> laid v1 qs v2 \<Longrightarrow> laid v (qs @ ps) v2"
  by (auto simp: laid_def map_add_None map_of_eq_None_iff disjoint_iff image_iff)

lemma laid_split: "laid v (qs @ ps) v2 \<Longrightarrow> laid (v ++ map_of ps) qs v2 \<and> laid v ps (v ++ map_of ps)"
  by (auto simp: laid_def map_add_None map_of_eq_None_iff)

text \<open>One file.\<close>

lemma dup_view:
  assumes "bpffs_ok fs view" "fs_dup fs k = (ok, k')"
  shows "ok \<and> view k' = view k"
proof -
  have "\<forall>k. fst (fs_dup fs k) \<and> view (snd (fs_dup fs k)) = view k" using assms(1) by (simp add: bpffs_ok_def)
  from this [rule_format, of k] assms(2) show ?thesis by simp
qed

lemma mkdir_view:
  assumes "bpffs_ok fs view" "fs_mkdir fs d k = (e, k')"
  shows "view k' = view k"
proof -
  have "\<forall>d k. view (snd (fs_mkdir fs d k)) = view k" using assms(1) by (simp add: bpffs_ok_def)
  from this [rule_format, of d k] assms(2) show ?thesis by simp
qed

lemma make_parent_dir_view:
  assumes "bpffs_ok fs view"
  shows "view (snd (make_parent_dir fs p k)) = view k"
proof -
  obtain ok k1 where 1: "fs_dup fs k = (ok, k1)" by fastforce
  obtain e k2 where 2: "fs_mkdir fs (dirname p) k1 = (e, k2)" by fastforce
  show ?thesis using 1 2 dup_view [OF assms 1] mkdir_view [OF assms 2] by (simp add: make_parent_dir_def)
qed

lemma check_path_view:
  assumes "bpffs_ok fs view"
  shows "view (snd (check_path fs q k)) = view k"
proof -
  obtain ok k1 where 1: "fs_dup fs k = (ok, k1)" by fastforce
  show ?thesis using 1 dup_view [OF assms 1] by (simp add: check_path_def split: option.splits sum.splits)
qed

lemma pinned_file:
  assumes "bpffs_ok fs view" "view k p = Some fd"
  shows "fs_statfs fs (dirname p) k = Inr BPF_FS_MAGIC" "fst (fs_unlink fs p k) = 0"
    "view (snd (fs_unlink fs p k)) = (view k)(p := None)"
proof -
  have "\<forall>p k. view k p \<noteq> None \<longrightarrow> fs_statfs fs (dirname p) k = Inr BPF_FS_MAGIC \<and> fst (fs_unlink fs p k) = 0
      \<and> view (snd (fs_unlink fs p k)) = (view k)(p := None)"
    using assms(1) unfolding bpffs_ok_def by blast
  from this [rule_format, of k p] assms(2)
  show "fs_statfs fs (dirname p) k = Inr BPF_FS_MAGIC" "fst (fs_unlink fs p k) = 0"
    "view (snd (fs_unlink fs p k)) = (view k)(p := None)" by simp_all
qed

lemma check_path_pinned:
  assumes "bpffs_ok fs view" "view k p = Some fd"
  shows "\<exists>k'. check_path fs (Some p) k = (0, k') \<and> view k' = view k"
proof -
  obtain ok k' where k': "fs_dup fs k = (ok, k')" by fastforce
  with dup_view [OF assms(1) k'] pinned_file(1) [OF assms(1), of k' p] assms(2) show ?thesis
    by (simp add: check_path_def)
qed

lemma obj_pin_cases:
  assumes "bpffs_ok fs view" "fs_obj_pin fs fd p k = (e, k')"
  shows "e = 0 \<and> view k p = None \<and> view k' = (view k)(p \<mapsto> fd) \<or> e \<noteq> 0 \<and> view k' = view k"
proof -
  have "\<forall>fd p k. fst (fs_obj_pin fs fd p k) = 0 \<and> view k p = None
                 \<and> view (snd (fs_obj_pin fs fd p k)) = (view k)(p \<mapsto> fd)
               \<or> fst (fs_obj_pin fs fd p k) \<noteq> 0 \<and> view (snd (fs_obj_pin fs fd p k)) = view k"
    using assms(1) unfolding bpffs_ok_def by blast
  from this [rule_format, of fd p k] assms(2) show ?thesis by simp
qed

lemma unlink_pinned:
  assumes "bpffs_ok fs view" "view k p = Some fd"
  shows "\<exists>k'. fs_unlink fs p k = (0, k') \<and> view k' = (view k)(p := None)"
  using pinned_file(2,3) [OF assms] by (cases "fs_unlink fs p k") simp

lemma pin_instance_cases:
  assumes fs: "bpffs_ok fs view" and r: "bpf_program__pin_instance fs (Some p) path i k = (err, k')"
  shows "err \<noteq> 0 \<and> view k' = view k
    \<or> err = 0 \<and> view k path = None \<and> view k' = (view k)(path \<mapsto> pp_fds p ! nat i)"
proof -
  obtain e1 k1 where 1: "make_parent_dir fs path k = (e1, k1)" by fastforce
  obtain e2 k2 where 2: "check_path fs (Some path) k1 = (e2, k2)" by fastforce
  obtain e3 k3 where 3: "fs_obj_pin fs (pp_fds p ! nat i) path k2 = (e3, k3)" by fastforce
  have "view k1 = view k" "view k2 = view k"
    using make_parent_dir_view [OF fs, of path k] check_path_view [OF fs, of "Some path" k1] 1 2 by auto
  with obj_pin_cases [OF fs 3] r 1 2 3 show ?thesis
    by (auto simp: bpf_program__pin_instance_def neg_errno_def split: if_splits)
qed

lemma unpin_instance_pinned:
  assumes fs: "bpffs_ok fs view" and v: "view k path = Some fd" and i: "0 \<le> i" "i < pp_nr p"
  shows "\<exists>k'. bpf_program__unpin_instance fs (Some p) path i k = (0, k') \<and> view k' = (view k)(path := None)"
proof -
  obtain k1 where 1: "check_path fs (Some path) k = (0, k1)" "view k1 = view k"
    using check_path_pinned [OF fs v] by auto
  then obtain k2 where "fs_unlink fs path k1 = (0, k2)" "view k2 = (view k)(path := None)"
    using unlink_pinned [OF fs, of k1 path fd] v by auto
  with 1 i show ?thesis by (simp add: bpf_program__unpin_instance_def neg_errno_def)
qed

section \<open>All instances of a program, or none\<close>

lemma join_checked_Inr: "join_checked path name = Inr s \<longleftrightarrow> s = path @ ''/'' @ name \<and> length s < PATH_MAX"
  by (auto simp: join_checked_def Let_def PATH_MAX_def)

lemma join_checked_fits: "length (path @ ''/'' @ name) < PATH_MAX \<Longrightarrow> join_checked path name = Inr (path @ ''/'' @ name)"
  by (simp add: join_checked_Inr)

lemma join_checked_Inl: "join_checked path name = Inl e \<Longrightarrow> e \<noteq> 0 \<and> \<not> length (path @ ''/'' @ name) < PATH_MAX"
  by (auto simp: join_checked_def Let_def PATH_MAX_def split: if_splits)

text \<open>The pins of the first instances, the last first.\<close>

primrec inst_pins :: "pin_prog \<Rightarrow> string \<Rightarrow> nat \<Rightarrow> (string \<times> int) list" where
  "inst_pins p path 0 = []"
| "inst_pins p path (Suc i) = (path @ ''/'' @ decimal i, pp_fds p ! i) # inst_pins p path i"

definition insts_fit :: "string \<Rightarrow> nat \<Rightarrow> bool" where
  "insts_fit path n \<longleftrightarrow> (\<forall>j < n. length (path @ ''/'' @ decimal j) < PATH_MAX)"

lemma insts_fit_Suc: "insts_fit path (Suc i) \<longleftrightarrow> insts_fit path i \<and> length (path @ ''/'' @ decimal i) < PATH_MAX"
  by (auto simp: insts_fit_def less_Suc_eq)

lemma unpin_below:
  assumes fs: "bpffs_ok fs view" and "int i \<le> pp_nr p" "insts_fit path i" "laid v (inst_pins p path i) (view k)"
  shows "view (unpin_instances_below fs p path i k) = v"
  using assms(2-)
proof (induction i arbitrary: k)
  case (Suc i)
  let ?q = "path @ ''/'' @ decimal i"
  have q: "view k ?q = Some (pp_fds p ! i)" "laid v (inst_pins p path i) ((view k)(?q := None))"
    using laid_unpin Suc.prems(3) by force+
  have j: "join_checked path (decimal i) = Inr ?q"
    using Suc.prems(2) by (intro join_checked_fits) (simp add: insts_fit_Suc)
  obtain k' where k': "bpf_program__unpin_instance fs (Some p) ?q (int i) k = (0, k')" "view k' = (view k)(?q := None)"
    using unpin_instance_pinned [OF fs q(1), of "int i" p] Suc.prems(1) by auto
  have "view (unpin_instances_below fs p path i k') = v"
    using Suc.prems(1,2) q(2) by (intro Suc.IH) (simp_all add: insts_fit_Suc k'(2) del: fun_upd_apply)
  then show ?case using j k'(1) by simp
qed auto

lemma pin_instances_spec:
  assumes fs: "bpffs_ok fs view"
  shows "int (i + n) \<le> pp_nr p \<Longrightarrow> insts_fit path i \<Longrightarrow> laid v (inst_pins p path i) (view k) \<Longrightarrow>
    pin_instances fs p path i n k = (err, k') \<Longrightarrow>
    err = 0 \<and> insts_fit path (i + n) \<and> laid v (inst_pins p path (i + n)) (view k') \<or> err \<noteq> 0 \<and> view k' = v"
proof (induction n arbitrary: i k)
  case (Suc n)
  define q where "q = path @ ''/'' @ decimal i"
  define r where "r = (case join_checked path (decimal i) of Inl e \<Rightarrow> (e, k)
      | Inr buf \<Rightarrow> bpf_program__pin_instance fs (Some p) buf (int i) k)"
  obtain e k1 where r1: "r = (e, k1)" by fastforce
  have cases: "e \<noteq> 0 \<and> view k1 = view k
      \<or> e = 0 \<and> length q < PATH_MAX \<and> view k q = None \<and> view k1 = (view k)(q \<mapsto> pp_fds p ! i)"
  proof (cases "join_checked path (decimal i)")
    case (Inl a)
    then show ?thesis using r1 join_checked_Inl [OF Inl] by (auto simp: r_def)
  next
    case (Inr s)
    then have "s = q" "length q < PATH_MAX" by (auto simp: join_checked_Inr q_def)
    with Inr r1 pin_instance_cases [OF fs, of p q "int i" k] show ?thesis by (auto simp: r_def)
  qed
  show ?case
  proof (cases "e = 0")
    case True
    with cases have c: "length q < PATH_MAX" "view k q = None" "view k1 = (view k)(q \<mapsto> pp_fds p ! i)" by auto
    then have "laid v (inst_pins p path (Suc i)) (view k1)"
      using laid_pin [OF Suc.prems(3)] by (simp add: q_def)
    then show ?thesis
      using Suc.IH [of "Suc i" k1] Suc.prems(1,2,4) c(1) r1 True by (simp add: r_def insts_fit_Suc q_def)
  next
    case False
    then have "k' = snd (fs_rmdir fs path (unpin_instances_below fs p path i k1))" "err = e"
      using Suc.prems(4) r1 by (simp_all add: r_def)
    moreover have "view (unpin_instances_below fs p path i k1) = v"
      using unpin_below [OF fs] Suc.prems(1,2,3) cases False by simp
    ultimately show ?thesis using fs False by (simp add: bpffs_ok_def)
  qed
qed simp

definition prog_pins :: "string \<Rightarrow> pin_prog \<Rightarrow> (string \<times> int) list" where
  "prog_pins path p = (if pp_nr p = 1 then [(path, pp_fds p ! 0)] else inst_pins p path (nat (pp_nr p)))"

lemma program_pin_cases:
  assumes fs: "bpffs_ok fs view" and r: "bpf_program__pin fs (Some p) path k = (err, k')"
  shows "err = 0 \<and> 0 < pp_nr p \<and> laid (view k) (prog_pins path p) (view k') \<or> err \<noteq> 0 \<and> view k' = view k"
proof -
  obtain e1 k1 where 1: "make_parent_dir fs path k = (e1, k1)" by fastforce
  obtain e2 k2 where 2: "check_path fs (Some path) k1 = (e2, k2)" by fastforce
  have v: "view k1 = view k" "view k2 = view k"
    using make_parent_dir_view [OF fs, of path k] check_path_view [OF fs, of "Some path" k1] 1 2 by auto
  show ?thesis
  proof (cases "e1 \<noteq> 0 \<or> e2 \<noteq> 0 \<or> pp_nr p \<le> 0")
    case True
    then show ?thesis using r 1 2 v by (auto simp: bpf_program__pin_def split: if_splits)
  next
    case False
    show ?thesis
    proof (cases "pp_nr p = 1")
      case True
      have "laid (view k) [(path, fd)] ((view k)(path \<mapsto> fd))" if "view k path = None" for fd
        using laid_pin [of "view k" "[]"] that by simp
      then show ?thesis using False True r 1 2 v pin_instance_cases [OF fs, of p path 0 k2 err k']
        by (auto simp: bpf_program__pin_def prog_pins_def)
    next
      case nr: False
      have "pin_instances fs p path 0 (nat (pp_nr p)) k2 = (err, k')"
        using False nr r 1 2 by (simp add: bpf_program__pin_def)
      from pin_instances_spec [OF fs _ _ _ this, of "view k"] False nr v(2) show ?thesis
        by (auto simp: prog_pins_def insts_fit_def)
    qed
  qed
qed

section \<open>All maps of an object, or none\<close>

text \<open>The pins the maps of a list stand for.\<close>

definition map_pin_of :: "pin_map \<Rightarrow> (string \<times> int) list" where
  "map_pin_of m = (case pm_pin_path m of Some p \<Rightarrow> if pm_pinned m then [(p, pm_fd m)] else [] | None \<Rightarrow> [])"

definition map_pins :: "pin_map list \<Rightarrow> (string \<times> int) list" where
  "map_pins ms = concat (map map_pin_of ms)"

lemma map_pins_Nil [simp]: "map_pins [] = []"
  by (simp add: map_pins_def)

lemma map_pins_Cons: "map_pins (m # ms) = map_pin_of m @ map_pins ms"
  by (simp add: map_pins_def)

lemma mset_map_pins_rev: "mset (map_pins (rev ms)) = mset (map_pins ms)"
  by (simp add: map_pins_def mset_concat rev_map [symmetric])

text \<open>A map after it was pinned under \<open>path\<close>, and after it was unpinned.\<close>

definition place :: "string option \<Rightarrow> pin_map \<Rightarrow> pin_map" where
  "place path m =
     (case path of
        Some dir \<Rightarrow> m\<lparr>pm_pin_path := Some (dir @ ''/'' @ pm_name m), pm_pinned := True\<rparr>
      | None \<Rightarrow> m\<lparr>pm_pinned := pm_pin_path m \<noteq> None\<rparr>)"

text \<open>A map after an attempt that was undone: only its path may have been set.\<close>

definition undone :: "string option \<Rightarrow> pin_map \<Rightarrow> pin_map \<Rightarrow> bool" where
  "undone path m m' \<longleftrightarrow>
     \<not> pm_pinned m' \<and> (m' = m \<or> (\<exists>dir. path = Some dir \<and> m' = m\<lparr>pm_pin_path := Some (dir @ ''/'' @ pm_name m)\<rparr>))"

lemma undone_same: "\<not> pm_pinned m \<Longrightarrow> undone path m m"
  by (simp add: undone_def)

lemma undone_place: "\<not> pm_pinned m \<Longrightarrow> undone path m ((place path m)\<lparr>pm_pinned := False\<rparr>)"
  by (cases m) (auto simp: undone_def place_def split: option.split)

lemma undone_all_same: "\<forall>m \<in> set ms. \<not> pm_pinned m \<Longrightarrow> list_all2 (undone path) ms ms"
  by (simp add: list_all2_conv_all_nth undone_same)

lemma undone_all_place:
  "\<forall>m \<in> set ms. \<not> pm_pinned m \<Longrightarrow> list_all2 (undone path) ms (map (\<lambda>m. (place path m)\<lparr>pm_pinned := False\<rparr>) ms)"
  by (simp add: list_all2_conv_all_nth undone_place)

definition fits :: "string option \<Rightarrow> pin_map \<Rightarrow> bool" where
  "fits path m \<longleftrightarrow> (\<forall>dir. path = Some dir \<longrightarrow> length (dir @ ''/'' @ pm_name m) < PATH_MAX)"

lemma pin_at_cases:
  assumes fs: "bpffs_ok fs view" and r: "pin_at fs m p k = (err, m', k')"
  shows "err = 0 \<and> m' = m\<lparr>pm_pinned := True\<rparr> \<and> view k p = None \<and> view k' = (view k)(p \<mapsto> pm_fd m)
    \<or> err \<noteq> 0 \<and> m' = m \<and> view k' = view k"
proof -
  obtain e1 k1 where 1: "make_parent_dir fs p k = (e1, k1)" by fastforce
  obtain e2 k2 where 2: "check_path fs (Some p) k1 = (e2, k2)" by fastforce
  obtain e3 k3 where 3: "fs_obj_pin fs (pm_fd m) p k2 = (e3, k3)" by fastforce
  have "view k1 = view k" "view k2 = view k"
    using make_parent_dir_view [OF fs, of p k] check_path_view [OF fs, of "Some p" k1] 1 2 by auto
  with obj_pin_cases [OF fs 3] r 1 2 3 show ?thesis
    by (auto simp: pin_at_def split: if_splits)
qed

lemma map_pin_cases:
  assumes fs: "bpffs_ok fs view" and np: "\<not> pm_pinned m" and r: "map_pin fs m path k = (err, m', k')"
  shows "err = 0 \<and> (\<exists>p. (path = Some p \<or> path = None \<and> pm_pin_path m = Some p)
      \<and> m' = m\<lparr>pm_pin_path := Some p, pm_pinned := True\<rparr> \<and> view k p = None \<and> view k' = (view k)(p \<mapsto> pm_fd m))
    \<or> err \<noteq> 0 \<and> (m' = m \<or> (\<exists>p. path = Some p \<and> m' = m\<lparr>pm_pin_path := Some p\<rparr>)) \<and> view k' = view k"
proof (cases "pm_pin_path m")
  case None
  obtain ok k1 where 1: "fs_dup fs k = (ok, k1)" by fastforce
  from dup_view [OF fs 1] 1 None np r show ?thesis
    by (auto simp: map_pin_def split: option.splits if_splits dest!: pin_at_cases [OF fs])
next
  case (Some p)
  then have "m\<lparr>pm_pin_path := Some p\<rparr> = m" by simp
  with Some np r show ?thesis
    by (auto simp: map_pin_def split: if_splits dest!: pin_at_cases [OF fs])
qed

lemma map_unpin_pinned:
  assumes fs: "bpffs_ok fs view" and m: "pm_pin_path m = Some p" and path: "path = None \<or> path = Some p"
    and v: "view k p = Some fd"
  shows "\<exists>k'. map_unpin fs m path k = (0, m\<lparr>pm_pinned := False\<rparr>, k') \<and> view k' = (view k)(p := None)"
proof -
  obtain k1 where 1: "check_path fs (Some p) k = (0, k1)" "view k1 = view k"
    using check_path_pinned [OF fs v] by auto
  then obtain k2 where "fs_unlink fs p k1 = (0, k2)" "view k2 = (view k)(p := None)"
    using unlink_pinned [OF fs, of k1 p fd] v by auto
  with 1 m path show ?thesis by (auto simp: map_unpin_def unpin_at_def)
qed

lemma unpin_back_spec:
  assumes fs: "bpffs_ok fs view"
  shows "\<forall>m \<in> set ms. pm_pinned m = (pm_pin_path m \<noteq> None) \<Longrightarrow> laid v (map_pins ms) (view k) \<Longrightarrow>
    unpin_back fs ms k = (ms', k') \<Longrightarrow> view k' = v \<and> ms' = map (\<lambda>m. m\<lparr>pm_pinned := False\<rparr>) ms"
proof (induction ms arbitrary: k ms' k')
  case (Cons m ms)
  obtain ms1 k1 where r: "unpin_back fs (m # ms) k = (m\<lparr>pm_pinned := False\<rparr> # ms1, k1)"
    "view k1 = v" "ms1 = map (\<lambda>m. m\<lparr>pm_pinned := False\<rparr>) ms"
  proof (cases "pm_pin_path m")
    case None
    then have "m\<lparr>pm_pinned := False\<rparr> = m" using Cons.prems(1) by simp
    with None Cons.IH [of k] Cons.prems(1,2) that show ?thesis
      by (cases "unpin_back fs ms k") (simp add: map_pins_Cons map_pin_of_def)
  next
    case (Some p)
    then have "laid v ((p, pm_fd m) # map_pins ms) (view k)"
      using Cons.prems by (simp add: map_pins_Cons map_pin_of_def)
    from laid_unpin [OF this] obtain k2 where k2: "map_unpin fs m None k = (0, m\<lparr>pm_pinned := False\<rparr>, k2)"
      "laid v (map_pins ms) (view k2)"
      using map_unpin_pinned [OF fs Some, of None k "pm_fd m"] by auto
    with Some Cons.IH [of k2] Cons.prems(1) that show ?thesis
      by (cases "unpin_back fs ms k2") simp
  qed
  then show ?case using Cons.prems(3) by simp
qed simp

lemma map_step_cases:
  assumes fs: "bpffs_ok fs view" and np: "\<not> pm_pinned m" and t: "map_target path m = Some t"
    and r: "(case t of Inl e \<Rightarrow> (e, m, k) | Inr p \<Rightarrow> map_pin fs m p k) = (e, m1, k1)"
  shows "e = 0 \<and> (\<exists>p. m1 = place path m \<and> pm_pin_path m1 = Some p \<and> fits path m \<and> view k p = None
      \<and> view k1 = (view k)(p \<mapsto> pm_fd m))
    \<or> e \<noteq> 0 \<and> undone path m m1 \<and> view k1 = view k"
proof (cases t)
  case (Inl e')
  then have "e' \<noteq> 0"
    using t by (auto simp: map_target_def split: option.splits sum.splits if_splits dest: join_checked_Inl)
  with Inl r np show ?thesis by (simp add: undone_same)
next
  case (Inr q)
  then have q: "fits path m \<and> (\<forall>p. q = Some p \<or> q = None \<and> pm_pin_path m = Some p \<longrightarrow>
      place path m = m\<lparr>pm_pin_path := Some p, pm_pinned := True\<rparr>)
    \<and> (\<forall>p. q = Some p \<longrightarrow> undone path m (m\<lparr>pm_pin_path := Some p\<rparr>))"
    using t np by (auto simp: map_target_def place_def fits_def undone_def join_checked_Inr split: option.splits sum.splits if_splits)
  from Inr r have "map_pin fs m q k = (e, m1, k1)" by simp
  from map_pin_cases [OF fs np this] q undone_same [OF np] show ?thesis by fastforce
qed

lemma pin_maps_from_spec:
  assumes fs: "bpffs_ok fs view"
  shows "prev = map (place path) ps \<Longrightarrow> \<forall>m \<in> set ps. \<not> pm_pinned m \<Longrightarrow> \<forall>m \<in> set ms. \<not> pm_pinned m \<Longrightarrow>
    laid v (map_pins prev) (view k) \<Longrightarrow> pin_maps_from fs path prev ms k = (err, ms', k') \<Longrightarrow>
    err = 0 \<and> ms' = rev prev @ map (place path) ms \<and> (\<forall>m \<in> set ms. fits path m) \<and> laid v (map_pins (rev ms')) (view k')
    \<or> err \<noteq> 0 \<and> list_all2 (undone path) (rev ps @ ms) ms' \<and> view k' = v"
proof (induction ms arbitrary: prev ps k)
  case (Cons m ms)
  have inv: "\<forall>m \<in> set prev. pm_pinned m = (pm_pin_path m \<noteq> None)"
    using Cons.prems(1) by (auto simp: place_def split: option.splits)
  show ?case
  proof (cases "map_target path m")
    case None
    then have "path = None" "pm_pin_path m = None" by (auto simp: map_target_def split: option.splits if_splits)
    moreover from this have "place path m = m" using Cons.prems(3) by (simp add: place_def)
    ultimately show ?thesis
      using Cons.IH [of "m # prev" "m # ps" k] Cons.prems None by (simp add: map_pins_Cons map_pin_of_def fits_def)
  next
    case (Some t)
    obtain e m1 k1 where s: "(case t of Inl e \<Rightarrow> (e, m, k) | Inr p \<Rightarrow> map_pin fs m p k) = (e, m1, k1)"
      using prod_cases3 by blast
    have step: "e = 0 \<and> (\<exists>p. m1 = place path m \<and> pm_pin_path m1 = Some p \<and> fits path m \<and> view k p = None
          \<and> view k1 = (view k)(p \<mapsto> pm_fd m))
        \<or> e \<noteq> 0 \<and> undone path m m1 \<and> view k1 = view k"
      using map_step_cases [OF fs _ Some s] Cons.prems(3) by simp
    show ?thesis
    proof (cases "e = 0")
      case True
      with step obtain p where p: "m1 = place path m" "pm_pin_path m1 = Some p" "fits path m" "view k p = None"
        "view k1 = (view k)(p \<mapsto> pm_fd m)" by auto
      then have m1: "pm_pinned m1" "pm_fd m1 = pm_fd m" by (auto simp: place_def split: option.splits)
      have "laid v (map_pins (m1 # prev)) (view k1)"
        using laid_pin [OF Cons.prems(4) p(4)] p m1 by (simp add: map_pins_Cons map_pin_of_def)
      moreover have "pin_maps_from fs path (m1 # prev) ms k1 = (err, ms', k')"
        using Cons.prems(5) Some s True by simp
      ultimately show ?thesis
        using Cons.IH [of "m1 # prev" "m # ps" k1] Cons.prems(1,2,3) p(1,3) by simp
    next
      case False
      obtain prev' k2 where b: "unpin_back fs prev k1 = (prev', k2)" by fastforce
      have "view k2 = v \<and> prev' = map (\<lambda>m. m\<lparr>pm_pinned := False\<rparr>) prev"
        using unpin_back_spec [OF fs inv _ b] Cons.prems(4) step False by simp
      then have "view k2 = v" "list_all2 (undone path) ps prev'"
        using undone_all_place [OF Cons.prems(2)] Cons.prems(1) by (simp_all add: o_def)
      moreover have "list_all2 (undone path) ms ms" using Cons.prems(3) by (simp add: undone_all_same)
      ultimately show ?thesis using Cons.prems(5) Some s False b step
        by (auto intro!: list_all2_appendI)
    qed
  qed
qed auto

lemma unpin_maps_all_spec:
  assumes fs: "bpffs_ok fs view"
  shows "\<forall>m \<in> set ms. fits path m \<Longrightarrow> laid v (map_pins (map (place path) ms)) (view k) \<Longrightarrow>
    \<exists>k'. unpin_maps_all fs path (map (place path) ms) k = (0, map (\<lambda>m. (place path m)\<lparr>pm_pinned := False\<rparr>) ms, k')
      \<and> view k' = v"
proof (induction ms arbitrary: k)
  case (Cons m ms)
  let ?m = "place path m"
  have "\<exists>k1. (case map_target path ?m of None \<Rightarrow> (0, ?m, k) | Some (Inl e) \<Rightarrow> (e, ?m, k)
        | Some (Inr p) \<Rightarrow> map_unpin fs ?m p k) = (0, ?m\<lparr>pm_pinned := False\<rparr>, k1)
      \<and> laid v (map_pins (map (place path) ms)) (view k1)"
  proof (cases "pm_pin_path ?m")
    case None
    then have "path = None" "\<not> pm_pinned ?m" by (auto simp: place_def split: option.splits)
    then show ?thesis using None Cons.prems(2) by (simp add: map_target_def map_pins_Cons map_pin_of_def)
  next
    case (Some p)
    then have t: "\<exists>q. map_target path ?m = Some (Inr q) \<and> (q = None \<or> q = Some p)"
      using Cons.prems(1) by (auto simp: map_target_def place_def fits_def join_checked_fits split: option.splits)
    have "pm_pinned ?m" using Some by (auto simp: place_def split: option.splits)
    then have "laid v ((p, pm_fd ?m) # map_pins (map (place path) ms)) (view k)"
      using Cons.prems(2) Some by (simp add: map_pins_Cons map_pin_of_def)
    from laid_unpin [OF this] t show ?thesis
      using map_unpin_pinned [OF fs Some, of _ k "pm_fd ?m"] by fastforce
  qed
  then obtain k1 where k1: "(case map_target path ?m of None \<Rightarrow> (0, ?m, k) | Some (Inl e) \<Rightarrow> (e, ?m, k)
        | Some (Inr p) \<Rightarrow> map_unpin fs ?m p k) = (0, ?m\<lparr>pm_pinned := False\<rparr>, k1)"
      "laid v (map_pins (map (place path) ms)) (view k1)" by blast
  with Cons.IH [of k1] Cons.prems(1) show ?case by auto
qed simp

lemma object_pin_maps_cases:
  assumes fs: "bpffs_ok fs view" and np: "\<forall>m \<in> set (po_maps ob). \<not> pm_pinned m"
    and r: "bpf_object__pin_maps fs (Some ob) path k = (err, obj, k')"
  shows "err = 0 \<and> po_loaded ob \<and> obj = Some (ob\<lparr>po_maps := map (place path) (po_maps ob)\<rparr>)
      \<and> (\<forall>m \<in> set (po_maps ob). fits path m) \<and> laid (view k) (map_pins (map (place path) (po_maps ob))) (view k')
    \<or> err \<noteq> 0 \<and> (\<exists>ms. obj = Some (ob\<lparr>po_maps := ms\<rparr>) \<and> list_all2 (undone path) (po_maps ob) ms) \<and> view k' = view k"
proof (cases "po_loaded ob")
  case False
  then have "obj = Some (ob\<lparr>po_maps := po_maps ob\<rparr>)" "err \<noteq> 0" "k' = k"
    using r by (auto simp: bpf_object__pin_maps_def)
  then show ?thesis using undone_all_same [OF np] by blast
next
  case True
  obtain e ms k1 where p: "pin_maps_from fs path [] (po_maps ob) k = (e, ms, k1)" using prod_cases3 by blast
  with True r have "obj = Some (ob\<lparr>po_maps := ms\<rparr>)" "err = e" "k' = k1"
    by (simp_all add: bpf_object__pin_maps_def)
  moreover from pin_maps_from_spec [OF fs _ _ np _ p, of "[]" "view k"]
  have "e = 0 \<and> ms = map (place path) (po_maps ob) \<and> (\<forall>m \<in> set (po_maps ob). fits path m)
      \<and> laid (view k) (map_pins (rev ms)) (view k1)
    \<or> e \<noteq> 0 \<and> list_all2 (undone path) (po_maps ob) ms \<and> view k1 = view k" by simp
  ultimately show ?thesis using True laid_mset [OF _ mset_map_pins_rev] by blast
qed

lemma object_unpin_maps_pinned:
  assumes fs: "bpffs_ok fs view" and f: "\<forall>m \<in> set ms. fits path m" and ms: "po_maps ob = map (place path) ms"
    and l: "laid v (map_pins (po_maps ob)) (view k)"
  shows "\<exists>k'. bpf_object__unpin_maps fs (Some ob) path k
      = (0, Some (ob\<lparr>po_maps := map (\<lambda>m. (place path m)\<lparr>pm_pinned := False\<rparr>) ms\<rparr>), k') \<and> view k' = v"
  using unpin_maps_all_spec [OF fs f, of v k] l ms by (auto simp: bpf_object__unpin_maps_def)

section \<open>All programs of an object, or none\<close>

text \<open>Programs without a preprocessor have one instance.\<close>

definition progs_pins :: "string \<Rightarrow> pin_prog list \<Rightarrow> (string \<times> int) list" where
  "progs_pins path ps = map (\<lambda>p. (path @ ''/'' @ pp_pin_name p, pp_fds p ! 0)) ps"

definition prog_ready :: "string \<Rightarrow> pin_prog \<Rightarrow> bool" where
  "prog_ready path p \<longleftrightarrow> pp_nr p = 1 \<and> length (path @ ''/'' @ pp_pin_name p) < PATH_MAX"

lemma program_unpin_pinned:
  assumes fs: "bpffs_ok fs view" and nr: "pp_nr p = 1" and v: "view k path = Some fd"
  shows "\<exists>k'. bpf_program__unpin fs (Some p) path k = (0, k') \<and> view k' = (view k)(path := None)"
proof -
  obtain k1 where 1: "check_path fs (Some path) k = (0, k1)" "view k1 = view k"
    using check_path_pinned [OF fs v] by auto
  with unpin_instance_pinned [OF fs, of k1 path fd 0 p] v nr show ?thesis
    by (simp add: bpf_program__unpin_def)
qed

lemma unpin_progs_back_spec:
  assumes fs: "bpffs_ok fs view"
  shows "\<forall>p \<in> set ps. prog_ready path p \<Longrightarrow> laid v (progs_pins path ps) (view k) \<Longrightarrow>
    view (unpin_progs_back fs path ps k) = v"
proof (induction ps arbitrary: k)
  case (Cons p ps)
  let ?q = "path @ ''/'' @ pp_pin_name p"
  have "laid v ((?q, pp_fds p ! 0) # progs_pins path ps) (view k)"
    using Cons.prems(2) by (simp add: progs_pins_def)
  from laid_unpin [OF this] obtain k1 where "bpf_program__unpin fs (Some p) ?q k = (0, k1)"
    "laid v (progs_pins path ps) (view k1)"
    using program_unpin_pinned [OF fs, of p k ?q "pp_fds p ! 0"] Cons.prems(1) by (auto simp: prog_ready_def)
  moreover have "join_checked path (pp_pin_name p) = Inr ?q"
    using Cons.prems(1) by (intro join_checked_fits) (simp add: prog_ready_def)
  ultimately show ?case using Cons.IH [of k1] Cons.prems(1) by simp
qed (simp add: progs_pins_def)

lemma prog_step_cases:
  assumes fs: "bpffs_ok fs view" and nr: "pp_nr p \<le> 1"
    and r: "(case join_checked path (pp_pin_name p) of Inl e \<Rightarrow> (e, k)
        | Inr buf \<Rightarrow> bpf_program__pin fs (Some p) buf k) = (err, k')"
  shows "err = 0 \<and> prog_ready path p \<and> laid (view k) (progs_pins path [p]) (view k') \<or> err \<noteq> 0 \<and> view k' = view k"
proof (cases "join_checked path (pp_pin_name p)")
  case (Inl e)
  then show ?thesis using r join_checked_Inl [OF Inl] by simp
next
  case (Inr s)
  then have "s = path @ ''/'' @ pp_pin_name p" "length s < PATH_MAX" by (auto simp: join_checked_Inr)
  with program_pin_cases [OF fs, of p s k err k'] r Inr nr show ?thesis
    by (auto simp: prog_ready_def progs_pins_def prog_pins_def)
qed

lemma pin_progs_from_spec:
  assumes fs: "bpffs_ok fs view"
  shows "\<forall>p \<in> set prev. prog_ready path p \<Longrightarrow> \<forall>p \<in> set ps. pp_nr p \<le> 1 \<Longrightarrow>
    laid v (progs_pins path prev) (view k) \<Longrightarrow> pin_progs_from fs path prev ps k = (err, k') \<Longrightarrow>
    err = 0 \<and> (\<forall>p \<in> set ps. prog_ready path p) \<and> laid v (progs_pins path (rev ps @ prev)) (view k')
    \<or> err \<noteq> 0 \<and> view k' = v"
proof (induction ps arbitrary: prev k)
  case (Cons p ps)
  obtain e k1 where s: "(case join_checked path (pp_pin_name p) of Inl e \<Rightarrow> (e, k)
      | Inr buf \<Rightarrow> bpf_program__pin fs (Some p) buf k) = (e, k1)" by fastforce
  from prog_step_cases [OF fs _ s] Cons.prems(2)
  have step: "e = 0 \<and> prog_ready path p \<and> laid (view k) (progs_pins path [p]) (view k1) \<or> e \<noteq> 0 \<and> view k1 = view k"
    by simp
  show ?case
  proof (cases "e = 0")
    case True
    with step laid_append [OF Cons.prems(3)] have "laid v (progs_pins path (p # prev)) (view k1)"
      by (fastforce simp: progs_pins_def)
    then show ?thesis using Cons.IH [of "p # prev" k1] Cons.prems s step True by simp
  next
    case False
    with unpin_progs_back_spec [OF fs Cons.prems(1), of v k1] Cons.prems(3,4) s step show ?thesis by simp
  qed
qed simp

lemma object_pin_programs_cases:
  assumes fs: "bpffs_ok fs view" and nr: "\<forall>p \<in> set (each_program ob). pp_nr p \<le> 1"
    and r: "bpf_object__pin_programs fs (Some ob) path k = (err, k')"
  shows "err = 0 \<and> laid (view k) (progs_pins path (each_program ob)) (view k') \<or> err \<noteq> 0 \<and> view k' = view k"
proof (cases "po_loaded ob")
  case True
  then have "pin_progs_from fs path [] (each_program ob) k = (err, k')"
    using r by (simp add: bpf_object__pin_programs_def)
  from pin_progs_from_spec [OF fs _ nr _ this, of "view k"] show ?thesis
    by (auto simp: progs_pins_def rev_map [symmetric] elim: laid_mset)
next
  case False
  then show ?thesis using r by (auto simp: bpf_object__pin_programs_def)
qed

section \<open>Theorems\<close>

text \<open>
  A file system for the witnesses: the state is the list of pins; the directory \<^verbatim>\<open>/b\<close> is on the BPF
  file system, as is any that holds a pin, and no pin can be created at \<open>bad\<close>.
\<close>

definition toy_fs :: "string \<Rightarrow> (string \<times> int) list fs_ops" where
  "toy_fs bad =
     \<lparr>fs_dup = (\<lambda>k. (True, k)),
      fs_mkdir = (\<lambda>d k. (17, k)),
      fs_statfs = (\<lambda>d k. if d = ''/b'' \<or> d \<in> set (map (dirname \<circ> fst) k) then Inr BPF_FS_MAGIC else Inr 0),
      fs_unlink = (\<lambda>p k. if map_of k p = None then (2, k) else (0, filter (\<lambda>q. fst q \<noteq> p) k)),
      fs_rmdir = (\<lambda>d k. (0, k)),
      fs_obj_pin = (\<lambda>fd p k. if p = bad then (1, k) else if map_of k p = None then (0, (p, fd) # k) else (17, k))\<rparr>"

lemma map_of_filter_key: "map_of (filter (\<lambda>q. fst q \<noteq> p) k) = (map_of k)(p := None)"
  by (induction k) (auto simp: fun_eq_iff)

lemma toy_fs_ok: "bpffs_ok (toy_fs bad) map_of"
  by (auto simp: bpffs_ok_def toy_fs_def map_of_filter_key image_iff dest!: map_of_SomeD bspec)

lemma pass_pinned:
  "\<forall>m \<in> set ps. pm_pinned m \<and> pm_pin_path m \<noteq> None \<Longrightarrow>
    pin_maps_from fs None prev (ps @ ms) k = pin_maps_from fs None (rev ps @ prev) ms k"
  by (induction ps arbitrary: prev) (auto simp: map_target_def map_pin_def)

text \<open>C18. Pinning an object is atomic. For an object none of whose maps is pinned and whose programs have
  at most one instance each, and as long as there is memory for \<^verbatim>\<open>strdup\<close>: when \<^verbatim>\<open>bpf_object__pin\<close>
  succeeds every map is pinned at \<open>path/name\<close> and every program at \<open>path/pin_name\<close>, at paths that were all
  free and different, and no other pin changes; when it fails, at whatever map or program and whichever
  of creating a directory, checking the file system, pinning or the length of a path is the reason, the
  pins are those there were before the call, and the object is unchanged but for the recorded paths
  of maps that had been tried, none of which is marked as pinned.\<close>

theorem object_pin_all_or_none:
  assumes fs: "bpffs_ok fs view" and np: "\<forall>m \<in> set (po_maps ob). \<not> pm_pinned m"
    and nr: "\<forall>p \<in> set (each_program ob). pp_nr p \<le> 1"
    and r: "bpf_object__pin fs (Some ob) path k = (err, obj, k')"
  shows "err = 0 \<and> obj = Some (ob\<lparr>po_maps := map (place (Some path)) (po_maps ob)\<rparr>)
      \<and> laid (view k) (progs_pins path (each_program ob) @ map_pins (map (place (Some path)) (po_maps ob))) (view k')
    \<or> err \<noteq> 0 \<and> view k' = view k
      \<and> (\<exists>ms. obj = Some (ob\<lparr>po_maps := ms\<rparr>) \<and> list_all2 (undone (Some path)) (po_maps ob) ms)"
proof -
  obtain e1 o1 k1 where 1: "bpf_object__pin_maps fs (Some ob) (Some path) k = (e1, o1, k1)"
    using prod_cases3 by blast
  show ?thesis
  proof (cases "e1 = 0")
    case False
    with object_pin_maps_cases [OF fs np 1] r 1 show ?thesis by (auto simp: bpf_object__pin_def)
  next
    case True
    define ob1 where "ob1 = ob\<lparr>po_maps := map (place (Some path)) (po_maps ob)\<rparr>"
    from True object_pin_maps_cases [OF fs np 1] have o1: "o1 = Some ob1"
      "\<forall>m \<in> set (po_maps ob). fits (Some path) m" "laid (view k) (map_pins (po_maps ob1)) (view k1)"
      by (auto simp: ob1_def)
    have each: "each_program ob1 = each_program ob"
      by (simp add: ob1_def each_program_def bpf_program__is_function_storage_def)
    obtain e2 k2 where 2: "bpf_object__pin_programs fs (Some ob1) path k1 = (e2, k2)" by fastforce
    from object_pin_programs_cases [OF fs _ 2] nr each
    have c: "e2 = 0 \<and> laid (view k1) (progs_pins path (each_program ob)) (view k2) \<or> e2 \<noteq> 0 \<and> view k2 = view k1"
      by simp
    show ?thesis
    proof (cases "e2 = 0")
      case e2: True
      with c laid_append [OF o1(3)] r 1 2 True o1(1) show ?thesis
        by (simp add: bpf_object__pin_def ob1_def)
    next
      case False
      with c obtain k3 where "bpf_object__unpin_maps fs (Some ob1) (Some path) k2
          = (0, Some (ob1\<lparr>po_maps := map (\<lambda>m. (place (Some path) m)\<lparr>pm_pinned := False\<rparr>) (po_maps ob)\<rparr>), k3)"
        "view k3 = view k"
        using object_unpin_maps_pinned [OF fs o1(2), of ob1 "view k" k2] o1(3) by (auto simp: ob1_def)
      then show ?thesis using r 1 2 True False o1(1) undone_all_place [OF np, of "Some path"]
        by (auto simp: bpf_object__pin_def ob1_def)
    qed
  qed
qed

definition toy_object :: pin_object where
  "toy_object =
     \<lparr>po_loaded = True, po_text_shndx = 1, po_has_pseudo_calls = False,
      po_maps = [\<lparr>pm_fd = 3, pm_name = ''m'', pm_pin_path = None, pm_pinned = False\<rparr>,
                 \<lparr>pm_fd = 4, pm_name = ''n'', pm_pin_path = None, pm_pinned = False\<rparr>],
      po_programs = [\<lparr>pp_idx = 2, pp_pin_name = ''x'', pp_nr = 1, pp_fds = [5]\<rparr>]\<rparr>"

lemmas pin_eval =
  bpf_object__pin_def bpf_object__pin_maps_def bpf_object__unpin_maps_def bpf_object__pin_programs_def
  bpf_program__pin_def bpf_program__pin_instance_def map_pin_def map_unpin_def pin_at_def unpin_at_def
  make_parent_dir_def check_path_def neg_errno_def map_target_def join_checked_def dirname_def strip_slashes_def
  each_program_def bpf_program__is_function_storage_def toy_fs_def toy_object_def PATH_MAX_def

text \<open>
  An object with two maps and a program whose pin fails: the two maps, pinned by then, are unpinned.
\<close>

theorem object_pin_all_or_none_witness:
  "(case bpf_object__pin (toy_fs ''/b/x'') (Some toy_object) ''/b'' [] of (err, obj, k') \<Rightarrow> err = -1 \<and> map_of k' = map_of [])"
proof -
  have e: "fst (bpf_object__pin (toy_fs ''/b/x'') (Some toy_object) ''/b'' []) = -1"
    by (simp add: pin_eval)
  obtain err obj k' where r: "bpf_object__pin (toy_fs ''/b/x'') (Some toy_object) ''/b'' [] = (err, obj, k')"
    using prod_cases3 by blast
  have "\<forall>m \<in> set (po_maps toy_object). \<not> pm_pinned m" "\<forall>p \<in> set (each_program toy_object). pp_nr p \<le> 1"
    by (simp_all add: toy_object_def each_program_def)
  from object_pin_all_or_none [OF toy_fs_ok this r] e r show ?thesis by simp
qed

text \<open>Unpinning undoes pinning. When \<^verbatim>\<open>bpf_object__pin_maps\<close> succeeded on an object with no pinned map,
  \<^verbatim>\<open>bpf_object__unpin_maps\<close> with the same path succeeds and leaves the pins there were before both calls
  and no map pinned.
\<close>

theorem pin_unpin_maps:
  assumes fs: "bpffs_ok fs view" and np: "\<forall>m \<in> set (po_maps ob). \<not> pm_pinned m"
    and r: "bpf_object__pin_maps fs (Some ob) path k = (0, Some ob', k')"
  shows "\<exists>ob'' k''. bpf_object__unpin_maps fs (Some ob') path k' = (0, Some ob'', k'') \<and> view k'' = view k
    \<and> (\<forall>m \<in> set (po_maps ob''). \<not> pm_pinned m)"
proof -
  from object_pin_maps_cases [OF fs np r] have c: "po_maps ob' = map (place path) (po_maps ob)"
    "\<forall>m \<in> set (po_maps ob). fits path m" "laid (view k) (map_pins (po_maps ob')) (view k')" by auto
  from object_unpin_maps_pinned [OF fs c(2,1,3)] show ?thesis by auto
qed

text \<open>An object with two maps in an empty file system.\<close>

theorem pin_unpin_maps_witness:
  "\<exists>ob k ob' k'. bpf_object__pin_maps (toy_fs ''/q'') (Some toy_object) (Some ''/b'') [] = (0, Some ob, k)
     \<and> map_of k ''/b/n'' = Some 4
     \<and> bpf_object__unpin_maps (toy_fs ''/q'') (Some ob) (Some ''/b'') k = (0, Some ob', k') \<and> map_of k' = map_of []"
proof -
  obtain err obj k where r: "bpf_object__pin_maps (toy_fs ''/q'') (Some toy_object) (Some ''/b'') [] = (err, obj, k)"
    using prod_cases3 by blast
  have "(case bpf_object__pin_maps (toy_fs ''/q'') (Some toy_object) (Some ''/b'') [] of
      (err, obj, k) \<Rightarrow> err = 0 \<and> obj \<noteq> None \<and> map_of k ''/b/n'' = Some 4)" by (simp add: pin_eval)
  with r obtain ob where ob: "err = 0" "obj = Some ob" "map_of k ''/b/n'' = Some 4" by auto
  have "\<forall>m \<in> set (po_maps toy_object). \<not> pm_pinned m" by (simp add: toy_object_def)
  from pin_unpin_maps [OF toy_fs_ok this r [unfolded ob(1,2)]] r ob show ?thesis by auto
qed

text \<open>
  A failed call also removes pins it did not make: with the maps \<open>ps\<close> pinned before
  \<^verbatim>\<open>bpf_object__pin_maps(obj, NULL)\<close>, which passes over them, a failure at the next map unpins all of them.
\<close>

theorem failed_pin_maps_unpins_earlier:
  assumes fs: "bpffs_ok fs view" and l: "po_loaded ob" and ms: "po_maps ob = ps @ m # ms"
    and ps: "\<forall>p \<in> set ps. pm_pinned p \<and> pm_pin_path p \<noteq> None" and v: "laid v (map_pins ps) (view k)"
    and m: "pm_pin_path m \<noteq> None" "\<not> pm_pinned m" "map_pin fs m None k = (err, m', k1)" "err \<noteq> 0"
  shows "\<exists>k'. bpf_object__pin_maps fs (Some ob) None k
      = (err, Some (ob\<lparr>po_maps := map (\<lambda>p. p\<lparr>pm_pinned := False\<rparr>) ps @ m' # ms\<rparr>), k') \<and> view k' = v"
proof -
  obtain qs k2 where b: "unpin_back fs (rev ps) k1 = (qs, k2)" by fastforce
  have "view k1 = view k" using map_pin_cases [OF fs m(2,3)] m(4) by simp
  then have "laid v (map_pins (rev ps)) (view k1)" using laid_mset [OF v mset_map_pins_rev [symmetric]] by simp
  from unpin_back_spec [OF fs _ this b] ps have "view k2 = v" "qs = map (\<lambda>p. p\<lparr>pm_pinned := False\<rparr>) (rev ps)" by auto
  with b m l ms show ?thesis
    by (auto simp: bpf_object__pin_maps_def pass_pinned [OF ps] map_target_def rev_map)
qed

text \<open>
  Going back needs memory: with a copy of a path failing just then, the pin of the first map stays, with an
  error as the result of the call. The state counts the copies that still succeed.
\<close>

definition tight_fs :: "string \<Rightarrow> ((string \<times> int) list \<times> nat) fs_ops" where
  "tight_fs bad =
     \<lparr>fs_dup = (\<lambda>(k, n). (n > 0, k, n - 1)),
      fs_mkdir = (\<lambda>d k. (17, k)),
      fs_statfs = (\<lambda>d (k, n). fs_statfs (toy_fs bad) d k),
      fs_unlink = (\<lambda>p (k, n). let (e, k) = fs_unlink (toy_fs bad) p k in (e, k, n)),
      fs_rmdir = (\<lambda>d k. (0, k)),
      fs_obj_pin = (\<lambda>fd p (k, n). let (e, k) = fs_obj_pin (toy_fs bad) fd p k in (e, k, n))\<rparr>"

lemma undo_without_memory:
  "bpf_object__pin_maps (tight_fs ''/b/n'') (Some toy_object) (Some ''/b'') ([], 6) =
     (- 1, Some (toy_object\<lparr>po_maps := [\<lparr>pm_fd = 3, pm_name = ''m'', pm_pin_path = Some ''/b/m'', pm_pinned = True\<rparr>,
        \<lparr>pm_fd = 4, pm_name = ''n'', pm_pin_path = Some ''/b/n'', pm_pinned = False\<rparr>]\<rparr>), [(''/b/m'', 3)], 0)"
  by (simp add: pin_eval tight_fs_def)

text \<open>
  A map whose pin failed keeps the path it was meant for: every later attempt at another path is refused
  with \<^verbatim>\<open>EINVAL\<close> without a system call.
\<close>

theorem failed_pin_keeps_path:
  assumes fs: "bpffs_ok fs view" and m: "pm_pin_path m = None" "\<not> pm_pinned m"
    and r: "bpf_map__pin fs (Some m) (Some p) k = (err, m', k')" and e: "err \<noteq> 0" and q: "q \<noteq> p"
  shows "bpf_map__pin fs m' (Some q) k'' = (- 22, m', k'')"
proof -
  obtain ok k1 where 1: "fs_dup fs k = (ok, k1)" by fastforce
  obtain e2 m2 k2 where 2: "pin_at fs (m\<lparr>pm_pin_path := Some p\<rparr>) p k1 = (e2, m2, k2)" using prod_cases3 by blast
  from dup_view [OF fs 1] 1 2 m r have r: "err = e2" "m' = Some m2" by (auto simp: bpf_map__pin_def map_pin_def)
  with pin_at_cases [OF fs 2] e have "m2 = m\<lparr>pm_pin_path := Some p\<rparr>" by auto
  with r q show ?thesis by (simp add: bpf_map__pin_def map_pin_def)
qed

end
