(* ===== verification/Spec2Isabelle.thy ===== *)
theory Spec2Isabelle
  imports AfXdpMain XdpRouting XskProg Tools PinnedMaps LinkAttach Hashmap Linfo Strerror BtfExt BpfLoad BtfKernel ObjPin
begin

text \<open>
  \<^bold>\<open>A verification library for an XDP and AF_XDP packet switch.\<close>

  \<^bold>\<open>The program.\<close> The repository holds small XDP programs that run in the kernel for each packet
  (\<^verbatim>\<open>packet01-parsing\<close> to \<^verbatim>\<open>packet03-redirecting\<close>, \<^verbatim>\<open>basic03\<close>, \<^verbatim>\<open>basic04\<close>), tools that
  load them and print their statistics (\<^verbatim>\<open>basic01\<close> to \<^verbatim>\<open>basic04\<close>), and the AF_XDP programs of
  \<^verbatim>\<open>switchtsn\<close>, which take packets out of the kernel through four rings shared with it and answer
  or forward them. The programs share the helpers of \<^verbatim>\<open>common\<close> and the AF_XDP, netlink,
  system call, hash map, type information (BTF), line information and error message parts of the vendored
  \<^verbatim>\<open>libbpf\<close>.

  \<^bold>\<open>Conventions.\<close> A C function is a HOL function; what it changes it takes and returns. Machine integers
  are words of their width. Reading or writing outside an array, through a NULL pointer or through freed
  memory, a failed assertion and a loop that never ends are the value \<^term>\<open>None\<close>: safety of a function
  is the statement that it does not return it. Process exits and error returns are values of a sum type.
  The kernel, the C library and the parts of libbpf that are not modelled are parameters; what is assumed
  of them is stated as named predicates (\<open>kern_ok\<close>, \<open>adjust_head_ok\<close>, \<open>csum_diff_ok\<close>,
  \<open>redirect_ok\<close>, \<open>fib_lookup_ok\<close>, \<open>os_ok\<close>, \<open>nl_ready\<close>, \<open>dumps_links\<close>, \<open>strerror_r_ok\<close>,
  \<open>creates_maps\<close>, \<open>serves_maps\<close>, \<open>loads_programs\<close>, \<open>serves_btf\<close>, \<open>alloc_ok\<close>) taken from the documentation of those interfaces.
  Messages printed to the terminal are not modelled, except where they are the result of the program.

  \<^bold>\<open>The theories.\<close>

  \<^item> \<open>Prelude\<close>: words, byte memory with faulting loads and stores, byte order
    (\<^verbatim>\<open>bpf_endian.h\<close>), counted loops.
  \<^item> \<open>Parsing\<close>: \<^verbatim>\<open>common/parsing_helpers.h\<close>. The contract of a header parser is the locale
    \<open>hdr_parser\<close>, interpreted by each parser: no access outside the packet, the cursor only
    moves forward. Frames built from VLAN tags parse back to those tags.
  \<^item> \<open>Rewrite\<close>: \<^verbatim>\<open>common/rewrite_helpers.h\<close>. Pushing and popping a VLAN tag are inverse;
    address swaps.
  \<^item> \<open>Checksum\<close>: the one's complement arithmetic of \<^verbatim>\<open>af_xdp_user.c\<close> and of
    \<^verbatim>\<open>packet03\<close>, reduced to arithmetic modulo 65535.
  \<^item> \<open>XskRing\<close>: the rings of \<^verbatim>\<open>libbpf/src/xsk.h\<close> with wrapping 32-bit indices. The locales
    \<open>fifo_producer\<close> and \<open>fifo_consumer\<close> state that a ring is a bounded queue; the ring functions
    refine them.
  \<^item> \<open>XskLib\<close>: \<^verbatim>\<open>libbpf/src/xsk.c\<close>. Creation and deletion of UMEMs and sockets as functions of
    the operating system, with the list of resources acquired and released, program attachments included;
    every error path is shown to release what it acquired, but for the references and attachments that the
    theorems name.
  \<^item> \<open>XskProg\<close>: the XDP bytecode that libbpf generates, run by an interpreter for the instructions it
    uses (18 steps are enough, it has no backward jump) and equal to the C program in its comment; the XDP
    programs of the switch and of the Go variant.
  \<^item> \<open>AfXdp\<close>, \<open>AfXdpSystem\<close>: the data path of \<^verbatim>\<open>switchtsn/af_xdp_user.c\<close>. The frame
    allocator implements the locale \<open>frame_pool\<close>. The kernel is a step relation on the shared rings;
    the invariant \<open>idle_inv\<close> (rings consistent, each of the 4096 frames at exactly one place,
    \<^verbatim>\<open>outstanding_tx\<close> exact) is kept by every operation whatever the kernel does in between. The
    retry loop of the restock code is \<^term>\<open>while_option\<close>, and is shown to end at once.
  \<^item> \<open>AfXdpMain\<close>: the AF_XDP programs as processes: main functions, the statistics thread and the
    variants of the switch. The invariant is carried from the command line to the exit; the only descriptors
    left open then are those of an object loaded with \<^verbatim>\<open>--filename\<close>.
  \<^item> \<open>CommonParams\<close>: \<^verbatim>\<open>common/common_params.c\<close>, the command line.
  \<^item> \<open>CommonUser\<close>, \<open>PinnedMaps\<close>: \<^verbatim>\<open>common/common_user_bpf_xdp.c\<close> and
    \<^verbatim>\<open>common/common_libbpf.c\<close>: loading, attaching, pinned maps.
  \<^item> \<open>Tools\<close>: option tables and main functions of the loaders and statistics tools.
  \<^item> \<open>Nlattr\<close>, \<open>Netlink\<close>: \<^verbatim>\<open>libbpf/src/nlattr.c\<close> and \<^verbatim>\<open>netlink.c\<close>, by which
    programs are attached to interfaces and queried. The parser ends on every stream (a \<open>function\<close> with
    the bytes left as its measure), and inverts the encoding of attributes. The contract between the
    receive loop and a message handler is the locale \<open>nlmsg_handler\<close>; the loop computes the same result
    however the kernel cuts a dump into buffers. A \<^verbatim>\<open>recv\<close> on a stream that is used up blocks
    (\<^term>\<open>None\<close>).
  \<^item> \<open>LinkAttach\<close>: the loader of \<open>CommonUser\<close> on top of the netlink client, against a kernel with
    a device per interface that decodes the requests really sent and acts on the interface they name:
    attaching and detaching are the same as with a direct call, and change no other interface.
  \<^item> \<open>Hashmap\<close>: \<^verbatim>\<open>libbpf/src/hashmap.c\<close> and the functions of \<^verbatim>\<open>btf.c\<close> and
    \<^verbatim>\<open>btf_dump.c\<close> that keep counts and candidates in it. The locale \<open>hash_keys\<close> is what the map
    relies on (equal keys have equal hashes), interpreted by the three key types; a map without
    duplicates refines a function from keys to values. The invariant holds up to \<open>2 ^ 31\<close> buckets, where
    the \<^verbatim>\<open>int\<close> counter of the code overflows.
  \<^item> \<open>Btf\<close>: the types of a program, the first part of \<^verbatim>\<open>libbpf/src/btf.c\<close>. A list of types
    that is encoded and parsed is found again under its numbers and names; the size of a type, which the
    code computes by at most 32 steps through the references with a product that must not overflow, is
    the size that the types define. The loop over the type section is a \<open>function\<close> whose measure is
    the distance to the end.
  \<^item> \<open>BtfExt\<close>: the function and line records beside the types, and their relocation into a program.
  \<^item> \<open>BpfSys\<close>: \<^verbatim>\<open>libbpf/src/bpf.c\<close>. Every function builds the 112 bytes of
    \<^verbatim>\<open>union bpf_attr\<close>; the kernel decodes what was asked for. The repetition of interrupted loads is
    a \<open>partial_function\<close>, and is characterised by the answers of the kernel; the loop that corrects
    records is a \<open>function\<close> (each round replaces one of two pointers). All memory is given back.
  \<^item> \<open>BpfLoad\<close>: loading into a kernel that knows less of the records than the program has.
  \<^item> \<open>BtfKernel\<close>: types that are loaded into the kernel are read back by their number.
  \<^item> \<open>ObjPin\<close>: the pinning part of \<^verbatim>\<open>libbpf/src/libbpf.c\<close>. An object pins all its maps and programs
    or none, over a file system that is a parameter with its contract \<open>bpffs_ok\<close>, which includes memory
    for \<^verbatim>\<open>strdup\<close> (without it the undo can fail, as a lemma shows); programs with a
    preprocessor (several instances) are covered one program at a time.
  \<^item> \<open>Linfo\<close>: \<^verbatim>\<open>libbpf/src/bpf_prog_linfo.c\<close>, the lines of a program in the kernel. The tables
    are built exactly if the addresses split into the functions, a search gives the nearest line, and no
    failure leaves a block allocated.
  \<^item> \<open>Strerror\<close>: \<^verbatim>\<open>libbpf_errno.c\<close> and \<^verbatim>\<open>str_error.c\<close>: the exact text and result for
    every code, and which codes have none.
  \<^item> \<open>XdpStats\<close>, \<open>XdpPrograms\<close>, \<open>XdpRouting\<close>: the XDP programs and their counters. The locale
    \<open>xdp_program\<close> is what the statistics rely on: a verdict for each packet, recorded once.

  This theory adds the properties that span components: the programs and their counters, and the two
  implementations of the echo responder.

  \<^bold>\<open>Not modelled.\<close> The rest of libbpf: \<^verbatim>\<open>libbpf.c\<close> apart from pinning (loading and relocating ELF objects), the ELF and
  deduplication parts of \<^verbatim>\<open>btf.c\<close>, the printer \<^verbatim>\<open>btf_dump.c\<close> and the probes: they depend on
  libelf and on the kernel at nearly every step. Kernel
  headers, the Go library, the solution files that repeat modelled programs, and
  \<^verbatim>\<open>af_xdp_david_2umem.c\<close>, which does not compile. Concurrency between the program and the kernel is
  interleaving at the points where the program reads what the kernel writes; weaker memory orders are
  ruled out by the barriers of \<^verbatim>\<open>libbpf_util.h\<close>, which are not modelled. Rates are exact rationals
  instead of doubles.
\<close>

subsection \<open>All XDP programs\<close>

text \<open>The programs of the packet lessons, with the kernel helpers they call. The first argument says
  whether the program records statistics; the two that do not, \<^verbatim>\<open>xdp_vlan_swap\<close> of packet02 and
  \<^verbatim>\<open>xdp_pass\<close> of packet03, leave the counters alone.\<close>

inductive xdp_lesson_program :: "bool \<Rightarrow> (xdp_md \<Rightarrow> stats_map \<Rightarrow> xdp_result) \<Rightarrow> bool" where
  "xdp_lesson_program True xdp_parser_func_p01"
| "xdp_lesson_program True xdp_parser_func_p02"
| "xdp_lesson_program True xdp_port_rewrite_func"
| "xdp_lesson_program True (xdp_icmp_echo_func cd)"
| "redirect_ok redir \<Longrightarrow> xdp_lesson_program True (xdp_redirect_func redir)"
| "redirect_ok redir \<Longrightarrow> \<forall>k d. params k = Some d \<longrightarrow> length d = 6 \<Longrightarrow>
    xdp_lesson_program True (xdp_redirect_map_func params redir)"
| "redirect_ok redir \<Longrightarrow> fib_lookup_ok fib \<Longrightarrow> xdp_lesson_program True (xdp_router_func fib redir)"
| "adjust_head_ok adj \<Longrightarrow>
    xdp_lesson_program False (\<lambda>ctx st. map_option (\<lambda>(v, ctx). (v, ctx, st)) (xdp_vlan_swap_func adj ctx))"
| "xdp_lesson_program False (\<lambda>ctx st. Some (xdp_pass_func_p03 ctx, ctx, st))"

lemma recording_program_decides: "xdp_lesson_program records prog \<Longrightarrow> records \<Longrightarrow> xdp_program prog"
  by (induction rule: xdp_lesson_program.induct)
    (auto intro: p01.xdp_program_axioms p02.xdp_program_axioms port.xdp_program_axioms echo.xdp_program_axioms
      redirect_decides redirect_map_decides router_decides)

lemma silent_program_passes: "xdp_lesson_program records prog \<Longrightarrow> \<not> records \<Longrightarrow> \<exists>ctx'. prog ctx st = Some (XDP_PASS, ctx', st)"
proof (induction rule: xdp_lesson_program.induct)
  case (8 adj)
  then show ?case using xdp_vlan_swap_total [of adj ctx] by auto
qed (simp_all add: xdp_pass_func_p03_def)

lemma silent_run:
  assumes "xdp_lesson_program False prog"
  shows "run_prog prog ctxs st = Some (replicate (length ctxs) XDP_PASS, st)"
proof (induction ctxs)
  case (Cons ctx ctxs)
  obtain ctx' where "prog ctx st = Some (XDP_PASS, ctx', st)" using silent_program_passes [OF assms] by blast
  with Cons show ?case by simp
qed simp

text \<open>C7. Every XDP program of the packet lessons processes any sequence of packets without an access outside
  a packet and returns a verdict for each. A program that records statistics adds each packet to the
  counter of its verdict and to no other, which is what the statistics tool reports; one that does not
  passes every packet and leaves the counters as they are.\<close>

theorem lesson_programs_count:
  assumes "xdp_lesson_program records prog" and "stats_map_ok st"
  shows "\<exists>vs st'. run_prog prog ctxs st = Some (vs, st') \<and> length vs = length ctxs \<and> set vs \<subseteq> {v. v < XDP_ACTION_MAX}
    \<and> (if records
       then \<forall>a < XDP_ACTION_MAX. datarec.rx_packets (the (st' a)) = datarec.rx_packets (the (st a)) + of_nat (count_list vs a)
       else set vs \<subseteq> {XDP_PASS} \<and> st' = st)"
proof (cases records)
  case True
  with xdp_program.counts [OF recording_program_decides [OF assms(1)] assms(2), of ctxs] show ?thesis by auto
next
  case False
  with assms(1) silent_run [of prog ctxs st] show ?thesis by auto
qed

theorem lesson_programs_count_witness:
  "(\<exists>vs st'. run_prog (xdp_redirect_func (\<lambda>_. XDP_REDIRECT)) [\<lparr>pkt = replicate 60 0, ingress_ifindex = 1, rx_queue_index = 0\<rparr>] zero_map
      = Some (vs, st') \<and> length vs = 1
      \<and> (\<forall>a < XDP_ACTION_MAX. datarec.rx_packets (the (st' a)) = datarec.rx_packets (the (zero_map a)) + of_nat (count_list vs a)))
   \<and> (\<exists>vs. run_prog (\<lambda>ctx st. Some (xdp_pass_func_p03 ctx, ctx, st)) [\<lparr>pkt = [], ingress_ifindex = 1, rx_queue_index = 0\<rparr>] zero_map
      = Some (vs, zero_map) \<and> length vs = 1 \<and> set vs \<subseteq> {XDP_PASS})"
proof -
  have "redirect_ok (\<lambda>_. XDP_REDIRECT)" by (simp add: redirect_ok_def)
  then have "xdp_lesson_program True (xdp_redirect_func (\<lambda>_. XDP_REDIRECT))" by (rule xdp_lesson_program.intros)
  from lesson_programs_count [OF this zero_map_ok, of "[\<lparr>pkt = replicate 60 0, ingress_ifindex = 1, rx_queue_index = 0\<rparr>]"]
    lesson_programs_count [OF xdp_lesson_program.intros(9) zero_map_ok, of "[\<lparr>pkt = [], ingress_ifindex = 1, rx_queue_index = 0\<rparr>]"]
  show ?thesis by auto
qed

subsection \<open>The two echo responders\<close>

lemma mod_cancel: "(a + c) mod n = (b + c) mod n \<Longrightarrow> a mod n = (b :: nat) mod n"
proof -
  assume "(a + c) mod n = (b + c) mod n"
  then have "(int a + int c) mod int n = (int b + int c) mod int n"
    by (metis of_nat_add of_nat_mod)
  then have "int a mod int n = int b mod int n"
    by (simp add: mod_eq_dvd_iff)
  then show ?thesis by (metis of_nat_eq_iff of_nat_mod)
qed

lemma xdp_echo_ipv6:
  assumes st: "stats_map_ok st" and l: "length dm = 6" "length sm = 6" "length hdr = 6" "length sa = 16" "length da = 16"
    and p: "pkt ctx = dm @ sm @ be16 ETH_P_IPV6 @ hdr @ [58, hops] @ sa @ da @ [128, code] @ [lo8 ck, hi8 ck] @ rest"
  shows "\<exists>st'. xdp_icmp_echo_func cd ctx st = Some (XDP_TX, ctx\<lparr>pkt := sm @ dm @ be16 ETH_P_IPV6 @ hdr @ [58, hops] @ da @ sa
    @ [129, code] @ [lo8 (icmp_checksum_diff cd (NOT ck) [129, code, 0, 0] [128, code, 0, 0]),
                     hi8 (icmp_checksum_diff cd (NOT ck) [129, code, 0, 0] [128, code, 0, 0])] @ rest\<rparr>, st')"
proof -
  let ?i = "[128, code] @ [lo8 ck, hi8 ck] @ rest"
  define A where "A = dm @ sm @ be16 ETH_P_IPV6"
  have lA: "length A = 14" using l by (simp add: A_def)
  have e: "parse_ethhdr (pkt ctx) (length (pkt ctx)) \<lparr>pos = 0\<rparr> = Some (uint (bpf_htons ETH_P_IPV6), \<lparr>pos = 14\<rparr>, Some 0)"
    using parse_ethhdr_of_frame [of "dm @ sm" "[]" ETH_P_IPV6 "pkt ctx" "hdr @ [58, hops] @ sa @ da @ ?i"] l not_vlan_ip
    by (simp add: p eth_frame_def)
  have p': "pkt ctx = A @ hdr @ 58 # (hops # sa @ da @ ?i)" by (simp add: p A_def)
  have "load8 (pkt ctx) 20 = Some 58"
    unfolding p' using load8_at [of "A @ hdr" 20 58 "hops # sa @ da @ ?i"] lA l by simp
  then have i: "parse_ip6hdr (pkt ctx) (length (pkt ctx)) \<lparr>pos = 14\<rparr> = Some (58, \<lparr>pos = 54\<rparr>, Some 14)"
    using l by (simp add: parse_ip6hdr_def p)
  have "load8 (pkt ctx) 54 = Some 128"
    using load8_at [of "A @ hdr @ [58, hops] @ sa @ da" 54 128 "code # [lo8 ck, hi8 ck] @ rest"] lA l by (simp add: p A_def)
  then have c: "parse_icmphdr_common (pkt ctx) (length (pkt ctx)) \<lparr>pos = 54\<rparr> = Some (128, \<lparr>pos = 58\<rparr>, Some 54)"
    using l by (simp add: parse_icmphdr_common_def Let_def p)
  have sw: "swap_ipv6_p03 (pkt ctx) 14 = Some (dm @ sm @ be16 ETH_P_IPV6 @ hdr @ [58, hops] @ da @ sa @ ?i)"
    unfolding swap_p03_eq swap_src_dst_ipv6_def p
    using swap_mem_append [OF l(4,5), of 22 "dm @ sm @ be16 ETH_P_IPV6 @ hdr @ [58, hops]" 38 "[]" ?i] l by simp
  obtain st' where "echo_tx cd ctx st (dm @ sm @ (be16 ETH_P_IPV6 @ hdr @ [58, hops] @ da @ sa) @ ?i) (Some 0) (Some 54) 129
      = Some (XDP_TX, ctx\<lparr>pkt := sm @ dm @ (be16 ETH_P_IPV6 @ hdr @ [58, hops] @ da @ sa) @ [129, code]
        @ [lo8 (icmp_checksum_diff cd (NOT ck) [129, code, 0, 0] [128, code, 0, 0]),
           hi8 (icmp_checksum_diff cd (NOT ck) [129, code, 0, 0] [128, code, 0, 0])] @ rest\<rparr>, st')"
    using echo_tx_eq [OF st l(1,2), of "be16 ETH_P_IPV6 @ hdr @ [58, hops] @ da @ sa" 42 54 cd ctx 128 code ck rest 129] l by auto
  then show ?thesis using e i c sw ethertypes by (auto simp: xdp_icmp_echo_func_def)
qed

text \<open>C6. The echo responder in the kernel (packet03) and the one in user space (AF_XDP), on an ICMPv6 echo
  request without VLAN tags: the first always replies; the second replies if the request has at least the
  62 bytes up to the end of the ICMPv6 echo header, and drops a shorter one. When both reply, the replies
  are the same byte for byte but for the checksum field, whose two values are equal in one's complement
  arithmetic (modulo 65535, so that only 0 and 65535 can be confused).\<close>

theorem echo_responders_agree:
  assumes "csum_diff_ok cd" and "stats_map_ok st" and "length dm = 6" and "length sm = 6" and "length hdr = 6"
    and "length sa = 16" and "length da = 16" and "length p < 2 ^ 32"
    and "p = dm @ sm @ be16 ETH_P_IPV6 @ hdr @ [58, hops] @ sa @ da @ [128, code] @ [lo8 ck, hi8 ck] @ rest"
    and "reply = (\<lambda>c. sm @ dm @ be16 ETH_P_IPV6 @ hdr @ [58, hops] @ da @ sa @ [129, code] @ [lo8 c, hi8 c] @ rest)"
    and "pkt ctx = p"
  shows "\<exists>c2 st'. xdp_icmp_echo_func cd ctx st = Some (XDP_TX, ctx\<lparr>pkt := reply c2\<rparr>, st')
    \<and> (if 62 \<le> length p
       then \<exists>c1. echo_reply p 0 (of_nat (length p)) = Some (Some (reply c1)) \<and> unat c1 mod 65535 = unat (c2 :: u16) mod 65535
       else echo_reply p 0 (of_nat (length p)) = Some None)"
proof -
  have l: "unat (of_nat (length p) :: u32) = length p" using assms(8) by (simp add: unsigned_of_nat take_bit_nat_eq_self_iff)
  let ?c = "icmp_checksum_diff cd (NOT ck) [129, code, 0, 0] [128, code, 0, 0]"
  obtain st' where 2: "xdp_icmp_echo_func cd ctx st = Some (XDP_TX, ctx\<lparr>pkt := reply ?c\<rparr>, st')"
    using xdp_echo_ipv6 [OF assms(2-7), of ctx hops code ck rest cd] assms(9-11) by auto
  show ?thesis
  proof (cases "62 \<le> length p")
    case True
    with l assms have 1: "echo_reply p 0 (of_nat (length p)) = Some (Some (reply (csum_replace2 ck 128 129)))"
      using echo_reply_eq [of 0 "[]" dm sm hdr sa da "of_nat (length p)" p hops code ck rest] by simp
    have "(unat (csum_replace2 ck 128 129) + 129) mod 65535 = (unat ?c + 129) mod 65535"
      using csum_replace2_mod [of ck 128 129] icmp_checksum_diff_mod [OF assms(1), of ck 129 code 128] by simp
    from mod_cancel [OF this] 1 2 True show ?thesis by auto
  next
    case False
    moreover have "14 \<le> length p" using assms(3,4,9) by simp
    ultimately have "echo_reply p 0 (of_nat (length p)) = Some None"
      using l by (simp add: echo_reply_def load16_eq Let_def)
    then show ?thesis using 2 False by auto
  qed
qed

definition ping_ipv6 :: bytes where
  "ping_ipv6 = replicate 6 1 @ replicate 6 2 @ be16 ETH_P_IPV6 @ replicate 6 0 @ [58, 64] @ replicate 16 3 @ replicate 16 4
     @ [128, 0] @ [lo8 0x1234, hi8 0x1234] @ [0, 0, 0, 0]"

theorem echo_responders_agree_witness:
  "\<exists>m c st'. echo_reply ping_ipv6 0 62 = Some (Some m)
    \<and> xdp_icmp_echo_func csum_diff_ref \<lparr>pkt = ping_ipv6, ingress_ifindex = 1, rx_queue_index = 0\<rparr> zero_map = Some (XDP_TX, c, st')"
proof -
  have l: "length ping_ipv6 = 62" by (simp add: ping_ipv6_def)
  have "\<exists>c2 st'. xdp_icmp_echo_func csum_diff_ref \<lparr>pkt = ping_ipv6, ingress_ifindex = 1, rx_queue_index = 0\<rparr> zero_map
      = Some (XDP_TX, \<lparr>pkt = ping_ipv6, ingress_ifindex = 1, rx_queue_index = 0\<rparr>\<lparr>pkt := (\<lambda>c. replicate 6 2 @ replicate 6 1
        @ be16 ETH_P_IPV6 @ replicate 6 0 @ [58, 64] @ replicate 16 4 @ replicate 16 3 @ [129, 0] @ [lo8 c, hi8 c] @ [0, 0, 0, 0]) c2\<rparr>, st')
    \<and> (if 62 \<le> length ping_ipv6
       then \<exists>c1. echo_reply ping_ipv6 0 (of_nat (length ping_ipv6)) = Some (Some ((\<lambda>c. replicate 6 2 @ replicate 6 1
          @ be16 ETH_P_IPV6 @ replicate 6 0 @ [58, 64] @ replicate 16 4 @ replicate 16 3 @ [129, 0] @ [lo8 c, hi8 c] @ [0, 0, 0, 0]) c1))
        \<and> unat c1 mod 65535 = unat (c2 :: u16) mod 65535
       else echo_reply ping_ipv6 0 (of_nat (length ping_ipv6)) = Some None)"
    by (rule echo_responders_agree [OF csum_diff_ref_ok zero_map_ok _ _ _ _ _ _ ping_ipv6_def refl])
      (simp_all add: l)
  then show ?thesis unfolding l by auto
qed

end
